(* ===== verification/Boat_Prelude.thy ===== *)
theory Boat_Prelude
  imports Main "HOL-Library.Word"
begin

text \<open>
  Shared vocabulary of the development: the machine integers of \<open>include/boattypes.h\<close>, the
  error codes of \<open>include/boaterrcode.h\<close>, the way a C function that returns
  \<open>BOAT_RESULT\<close> is modelled, bounded memory copies, and the facts about byte
  lists, words and big-endian values that every component uses.

  A C function that reports \<open>BOAT_SUCCESS\<close> or an error code and writes its
  answer through an out-parameter is a function into \<open>'a res\<close>: \<open>Inr x\<close> is the
  success code together with the answer \<open>x\<close>, \<open>Inl (Err c)\<close> is a return with the
  code \<open>c\<close>, and \<open>Inl UB\<close> stands for undefined behaviour of C (an access outside
  an object, a null pointer that is followed). A function that also changes the
  storage returns \<open>'a res\<close> together with the storage it leaves behind, which it does on the
  error returns too.
\<close>

unbundle bit_operations_syntax

named_theorems boat_defs \<open>definitions that evaluate concrete inputs\<close>
named_theorems boat_len \<open>lengths of the byte strings the code builds\<close>

type_synonym u8 = "8 word"
type_synonym u16 = "16 word"
type_synonym u32 = "32 word"
type_synonym u64 = "64 word"
type_synonym bytes = "8 word list"

subsection \<open>Results\<close>

abbreviation BOAT_ERROR :: int where "BOAT_ERROR \<equiv> - 1"
abbreviation BOAT_ERROR_COMMON_INVALID_ARGUMENT :: int where
  "BOAT_ERROR_COMMON_INVALID_ARGUMENT \<equiv> - 10100000"
abbreviation BOAT_ERROR_COMMON_OUT_OF_MEMORY :: int where
  "BOAT_ERROR_COMMON_OUT_OF_MEMORY \<equiv> - 10100001"
abbreviation BOAT_ERROR_RLP_ENCODER_FAIL :: int where
  "BOAT_ERROR_RLP_ENCODER_FAIL \<equiv> - 10500004"
abbreviation BOAT_ERROR_STORAGE_FILE_OPEN_FAIL :: int where
  "BOAT_ERROR_STORAGE_FILE_OPEN_FAIL \<equiv> - 10400000"
abbreviation BOAT_ERROR_STORAGE_FILE_WRITE_FAIL :: int where
  "BOAT_ERROR_STORAGE_FILE_WRITE_FAIL \<equiv> - 10400001"
abbreviation BOAT_ERROR_STORAGE_FILE_READ_FAIL :: int where
  "BOAT_ERROR_STORAGE_FILE_READ_FAIL \<equiv> - 10400002"
abbreviation BOAT_ERROR_KEYPAIR_KEY_FORMAT_ERR :: int where
  "BOAT_ERROR_KEYPAIR_KEY_FORMAT_ERR \<equiv> - 10210000"
abbreviation BOAT_ERROR_KEYPAIR_KEY_GENMODE_ERR :: int where
  "BOAT_ERROR_KEYPAIR_KEY_GENMODE_ERR \<equiv> - 10210003"
abbreviation BOAT_ERROR_KEYPAIR_KEY_STORETYPE_ERR :: int where
  "BOAT_ERROR_KEYPAIR_KEY_STORETYPE_ERR \<equiv> - 10210004"
abbreviation BOAT_ERROR_KEYPAIR_KEY_INEXISTENCE :: int where
  "BOAT_ERROR_KEYPAIR_KEY_INEXISTENCE \<equiv> - 10210005"
abbreviation BOAT_ERROR_KEYPAIR_KEY_INDEX_EXCEED :: int where
  "BOAT_ERROR_KEYPAIR_KEY_INDEX_EXCEED \<equiv> - 10210007"
abbreviation BOAT_ERROR_NETWORK_INEXISTENCE :: int where
  "BOAT_ERROR_NETWORK_INEXISTENCE \<equiv> - 10210008"
abbreviation BOAT_ERROR_NETWORK_INDEX_EXCEED :: int where
  "BOAT_ERROR_NETWORK_INDEX_EXCEED \<equiv> - 10210009"

datatype fail = Err int | UB

type_synonym 'a res = "fail + 'a"

definition bindR :: "'a res \<Rightarrow> ('a \<Rightarrow> 'b res) \<Rightarrow> 'b res" where
  "bindR r f = (case r of Inl e \<Rightarrow> Inl e | Inr a \<Rightarrow> f a)"

lemma bindR_simps [simp]:
  "bindR (Inl e) f = Inl e"
  "bindR (Inr a) f = f a"
  by (simp_all add: bindR_def)

lemma bindR_eq_Inr: "bindR r f = Inr b \<longleftrightarrow> (\<exists>a. r = Inr a \<and> f a = Inr b)"
  by (auto simp: bindR_def split: sum.splits)

lemma bindR_assoc: "bindR (bindR r f) g = bindR r (\<lambda>a. bindR (f a) g)"
  by (simp add: bindR_def split: sum.splits)

text \<open>The guard \<open>if (cond) return code;\<close> followed by the rest of the body.\<close>

definition guardR :: "bool \<Rightarrow> int \<Rightarrow> 'a res \<Rightarrow> 'a res" where
  "guardR bad code rest = (if bad then Inl (Err code) else rest)"

lemma guardR_simps [simp]:
  "guardR True c r = Inl (Err c)"
  "guardR False c r = r"
  by (simp_all add: guardR_def)

lemma guardR_eq_Inr [simp]: "guardR b c r = Inr x \<longleftrightarrow> \<not> b \<and> r = Inr x"
  by (simp add: guardR_def)

text \<open>Stateful bodies: the state survives an early return.\<close>

definition bindS :: "('s \<Rightarrow> 'a res \<times> 's) \<Rightarrow> ('a \<Rightarrow> 's \<Rightarrow> 'b res \<times> 's) \<Rightarrow> 's \<Rightarrow> 'b res \<times> 's" where
  "bindS m f s = (case m s of (Inl e, t) \<Rightarrow> (Inl e, t) | (Inr a, t) \<Rightarrow> f a t)"

text \<open>A computation that leaves the state alone, and an assignment to it.\<close>

definition liftS :: "'a res \<Rightarrow> 's \<Rightarrow> 'a res \<times> 's" where
  "liftS r s = (r, s)"

definition updS :: "('s \<Rightarrow> 's) \<Rightarrow> 's \<Rightarrow> unit res \<times> 's" where
  "updS f s = (Inr (), f s)"

text \<open>Reading in a body whose failures are thrown: the code is replaced by the one thrown.\<close>

definition throwS :: "int option \<Rightarrow> 'a res \<Rightarrow> 's \<Rightarrow> 'a res \<times> 's" where
  "throwS code r s =
     (case r of Inl (Err e) \<Rightarrow> (Inl (Err (case code of Some c \<Rightarrow> c | None \<Rightarrow> e)), s) | _ \<Rightarrow> (r, s))"

definition catchS :: "('s \<Rightarrow> 'a res \<times> 's) \<Rightarrow> (int \<Rightarrow> 's \<Rightarrow> 'a res \<times> 's) \<Rightarrow> 's \<Rightarrow> 'a res \<times> 's" where
  "catchS m h s = (case m s of (Inl (Err e), t) \<Rightarrow> h e t | r \<Rightarrow> r)"

definition rethrowS :: "int \<Rightarrow> ('s \<Rightarrow> 'a res \<times> 's) \<Rightarrow> 's \<Rightarrow> 'a res \<times> 's" where
  "rethrowS code m = catchS m (\<lambda>e t. (Inl (Err code), t))"

lemma bindS_Inr: "m s = (Inr a, t) \<Longrightarrow> bindS m f s = f a t"
  by (simp add: bindS_def)

lemma bindS_Inl: "m s = (Inl e, t) \<Longrightarrow> bindS m f s = (Inl e, t)"
  by (simp add: bindS_def)

lemma bindS_eq_Inr:
  "bindS m f s = (Inr b, u) \<longleftrightarrow> (\<exists>a t. m s = (Inr a, t) \<and> f a t = (Inr b, u))"
  by (auto simp: bindS_def split: prod.splits sum.splits)

subsection \<open>Bounded memory\<close>

text \<open>
  \<open>memcpy\<close> into an object: \<open>UB\<close> when the target range leaves the object. \<open>buf_get\<close> is
  the read side.
\<close>

definition buf_put :: "'a list \<Rightarrow> nat \<Rightarrow> 'a list \<Rightarrow> 'a list res" where
  "buf_put buf off xs =
     (if off + length xs \<le> length buf
      then Inr (take off buf @ xs @ drop (off + length xs) buf) else Inl UB)"

definition buf_get :: "'a list \<Rightarrow> nat \<Rightarrow> nat \<Rightarrow> 'a list res" where
  "buf_get buf off n = (if off + n \<le> length buf then Inr (take n (drop off buf)) else Inl UB)"

lemma buf_put_length: "buf_put buf off xs = Inr b \<Longrightarrow> length b = length buf"
  by (auto simp: buf_put_def split: if_splits)

lemma buf_put_parts:
  "length pre = off \<Longrightarrow> length xs = length mid \<Longrightarrow>
    buf_put (pre @ mid @ post) off xs = Inr (pre @ xs @ post)"
  by (simp add: buf_put_def)

lemma buf_get_parts:
  "length pre = off \<Longrightarrow> length mid = n \<Longrightarrow> buf_get (pre @ mid @ post) off n = Inr mid"
  by (simp add: buf_get_def)

lemma buf_put_ok: "off + length xs \<le> length buf \<Longrightarrow>
   buf_put buf off xs = Inr (take off buf @ xs @ drop (off + length xs) buf)"
  by (simp add: buf_put_def)

lemma buf_get_ok: "off + n \<le> length buf \<Longrightarrow> buf_get buf off n = Inr (take n (drop off buf))"
  by (simp add: buf_get_def)

lemma buf_get_put_same:
  "buf_put buf off xs = Inr b \<Longrightarrow> buf_get b off (length xs) = Inr xs"
  by (auto simp: buf_put_def buf_get_def split: if_splits)

lemma take_drop_put:
  assumes "off + length xs \<le> length buf" "i + n \<le> off \<or> off + length xs \<le> i"
  shows "take n (drop i (take off buf @ xs @ drop (off + length xs) buf)) = take n (drop i buf)"
proof (cases "i + n \<le> off")
  case True
  then have "take n (drop i (take off buf @ ys)) = take n (drop i buf)" if "off \<le> length buf" for ys
    using that by (intro nth_equalityI) (auto simp: nth_append)
  then show ?thesis using assms(1) by (metis add_leD1)
next
  case False
  with assms(2) have i: "off + length xs \<le> i" by simp
  with assms(1) have "drop i (take off buf @ xs @ drop (off + length xs) buf) = drop i buf"
    by (simp add: min_def)
  then show ?thesis by simp
qed

subsection \<open>Big-endian values\<close>

definition be_val :: "bytes \<Rightarrow> nat" where
  "be_val bs = foldl (\<lambda>a b. a * 256 + unat b) 0 bs"

lemma foldl_be: "foldl (\<lambda>a b. a * 256 + unat b) n bs = n * 256 ^ length bs + be_val (bs :: bytes)"
proof (induction bs arbitrary: n)
  case Nil
  then show ?case by (simp add: be_val_def)
next
  case (Cons b bs)
  have "be_val (b # bs) = unat b * 256 ^ length bs + be_val bs"
    using Cons.IH [of "unat b"] by (simp add: be_val_def)
  then show ?case
    using Cons.IH [of "n * 256 + unat b"] by (simp add: algebra_simps)
qed

lemma be_val_Nil [simp]: "be_val [] = 0"
  by (simp add: be_val_def)

lemma be_val_Cons [simp]: "be_val (b # bs) = unat b * 256 ^ length bs + be_val bs"
  using foldl_be [of "unat b" bs] by (simp add: be_val_def)

lemma be_val_append: "be_val (xs @ ys) = be_val xs * 256 ^ length ys + be_val ys"
  using foldl_be [of "be_val xs" ys] by (simp add: be_val_def)

lemma u8_bound: "unat (b :: u8) < 256"
  using unsigned_less [of b, where ?'a = nat] by simp

lemma be_val_bound: "be_val bs < 256 ^ length bs"
proof (induction bs)
  case (Cons b bs)
  have "unat b * 256 ^ length bs + be_val bs < Suc (unat b) * 256 ^ length bs"
    using Cons.IH by simp
  also have "\<dots> \<le> 256 * 256 ^ length bs"
    using u8_bound [of b] by (intro mult_le_mono1) simp
  finally show ?case by simp
qed simp

lemma be_val_inj: "length xs = length ys \<Longrightarrow> be_val xs = be_val ys \<Longrightarrow> xs = ys"
proof (induction xs ys rule: list_induct2)
  case (Cons x xs y ys)
  have eq: "unat x * 256 ^ length xs + be_val xs = unat y * 256 ^ length xs + be_val ys"
    using Cons by simp
  have lt: "be_val xs < 256 ^ length xs" "be_val ys < 256 ^ length xs"
    using be_val_bound [of xs] be_val_bound [of ys] Cons.hyps by simp_all
  have "unat x = (unat x * 256 ^ length xs + be_val xs) div 256 ^ length xs"
    using lt by simp
  also have "\<dots> = unat y" using lt unfolding eq by simp
  finally have "unat x = unat y" .
  with eq Cons.IH show ?case by (simp add: word_unat_eq_iff)
qed simp

lemma be_val_zeros: "\<forall>b \<in> set bs. b = 0 \<Longrightarrow> be_val bs = 0"
  by (induction bs) auto

lemma be_val_lower:
  assumes "b \<noteq> 0"
  shows "256 ^ length bs \<le> be_val (b # bs)"
proof -
  from assms obtain k where "unat b = Suc k"
    by (cases "unat b") (auto simp: unat_0_iff)
  then show ?thesis by simp
qed

lemma be_val_dropWhile: "be_val (dropWhile (\<lambda>b. b = 0) bs) = be_val bs"
  by (induction bs) auto

text \<open>The octet of a word at a byte position, as \<open>(BUINT8)(x >> i * 8)\<close> yields it.\<close>

lemma unat_ucast_u8: "unat (ucast (x :: 'a::len word) :: u8) = unat x mod 256"
  by (simp add: unsigned_ucast_eq take_bit_eq_mod)

lemma unat_drop_bit: "unat (drop_bit n (x :: 'a::len word)) = unat x div 2 ^ n"
  by (subst unat_drop_bit_eq) (rule drop_bit_eq_div)

lemma unat_octet: "unat (ucast (drop_bit (8 * i) (x :: 'a::len word)) :: u8) = unat x div 256 ^ i mod 256"
  by (simp add: unat_ucast_u8 unat_drop_bit power_mult)

lemma u32_bound: "unat (x :: u32) < 4294967296"
  using unsigned_less [of x, where ?'a = nat] by simp

lemma u64_bound: "unat (x :: u64) < 18446744073709551616"
  using unsigned_less [of x, where ?'a = nat] by simp

lemma unat_of_nat_u32 [simp]: "n < 4294967296 \<Longrightarrow> unat (of_nat n :: u32) = n"
  by (simp add: unat_of_nat)

subsection \<open>Joining bit fields\<close>

lemma push_or_nat: "b < 2 ^ n \<Longrightarrow> push_bit n a OR b = a * 2 ^ n + (b::nat)"
proof -
  assume "b < 2 ^ n"
  then have "take_bit n b = b" by (simp add: take_bit_nat_eq_self)
  moreover have "push_bit n a AND take_bit n b = 0"
    by (rule bit_eqI) (auto simp: bit_simps)
  ultimately show ?thesis
    using disjunctive_add_eq_or [of "push_bit n a" b] by (simp add: push_bit_eq_mult)
qed

lemma unat_push_or:
  assumes "unat l < 2 ^ n" "unat h * 2 ^ n < 2 ^ LENGTH('a)"
  shows "unat (push_bit n h OR (l :: 'a::len word)) = unat h * 2 ^ n + unat l"
proof -
  have "unat (push_bit n h) = push_bit n (unat h)"
    using assms(2) unfolding unsigned_push_bit_eq
    by (intro take_bit_nat_eq_self) (simp add: push_bit_eq_mult)
  then show ?thesis
    using push_or_nat [OF assms(1), of "unat h"] by (simp only: unsigned_or_eq)
qed

lemma unat_take_bit: "unat (take_bit n (x :: 'a::len word)) = unat x mod 2 ^ n"
  unfolding unsigned_take_bit_eq by (rule take_bit_eq_mod)

lemma dropWhile_hd_false: "dropWhile P xs \<noteq> [] \<Longrightarrow> \<not> P (hd (dropWhile P xs))"
  by (rule hd_dropWhile) (auto simp: dropWhile_eq_Nil_conv)

lemma unat_ucast_up: "8 \<le> LENGTH('a) \<Longrightarrow> unat (ucast (x :: u8) :: 'a::len word) = unat x"
proof -
  assume "8 \<le> LENGTH('a)"
  then have "(2 :: nat) ^ 8 \<le> 2 ^ LENGTH('a)" by (intro power_increasing) auto
  then show ?thesis
    unfolding unsigned_ucast_eq using u8_bound [of x] by (intro take_bit_nat_eq_self) simp
qed

lemma join_octet:
  assumes "unat (r :: 'a::len word) = be_val bs" "8 * length bs + 8 \<le> LENGTH('a)"
  shows "unat (push_bit (8 * length bs) (ucast (b :: u8)) OR r) = be_val (b # bs)"
proof -
  have p: "(256 :: nat) ^ length bs = 2 ^ (8 * length bs)" by (simp add: power_mult)
  have "unat b * 2 ^ (8 * length bs) < 256 * 2 ^ (8 * length bs)" using u8_bound [of b] by simp
  also have "\<dots> = 2 ^ (8 + 8 * length bs)" by (simp add: power_add)
  also have "\<dots> \<le> 2 ^ LENGTH('a)" using assms(2) by (intro power_increasing) auto
  finally show ?thesis
    using assms be_val_bound [of bs] by (subst unat_push_or) (simp_all add: unat_ucast_up p)
qed

end
