(* ===== verification/Boat_Utility.thy ===== *)
theory Boat_Utility
  imports Boat_Prelude
begin

text \<open>
  The conversion routines of \<open>sdk/utilities/boatutility.c\<close>: trimming, HEX text, big-endian integers,
  endian swaps, decimal text, the 9-limb bignum packing and the string checks.

  An array argument together with its length parameter is one list. A routine that fills a
  caller's buffer yields the bytes it writes from the start of that buffer (without the
  terminating \<open>\0\<close> of a string) and its return value; a pointer that may be \<open>NULL\<close> is an
  \<open>option\<close>, or a flag when only the null test matters. Characters are their byte
  codes, and a C string is the list of its bytes before the terminator. Integers that
  the code writes byte by byte through a pointer are read back in little-endian
  order, the byte order of the supported platforms.
\<close>

datatype TRIMBIN_TRIM_MODE = TRIMBIN_TRIM_NO | TRIMBIN_LEFTTRIM

datatype BIN2HEX_TRIM_MODE =
  BIN2HEX_LEFTTRIM_UNFMTDATA | BIN2HEX_LEFTTRIM_QUANTITY | BIN2HEX_LEFTTRIM_TWOHEXPERBYTE

datatype BIN2HEX_PREFIX_0x_MODE = BIN2HEX_PREFIX_0x_NO | BIN2HEX_PREFIX_0x_YES

subsection \<open>Trimming\<close>

fun trim_loop :: "bytes \<Rightarrow> bytes option" where
  "trim_loop [] = None"
| "trim_loop (b # bs) = (if b = 0 then trim_loop bs else Some (b # bs))"

definition UtilityTrimBin ::
  "bool \<Rightarrow> bytes option \<Rightarrow> TRIMBIN_TRIM_MODE \<Rightarrow> bool \<Rightarrow> bytes \<times> nat" where
  "UtilityTrimBin to_ok from trim_mode zero_as_null =
     (case from of
        None \<Rightarrow> ([], 0)
      | Some bs \<Rightarrow>
          if \<not> to_ok then ([], 0)
          else if trim_mode = TRIMBIN_TRIM_NO then (bs, length bs)
          else (case trim_loop bs of
                  Some rest \<Rightarrow> (rest, length rest)
                | None \<Rightarrow> if \<not> zero_as_null then ([0], 1) else ([], 0)))"

subsection \<open>Binary to HEX\<close>

definition halfbytechar :: "u8 \<Rightarrow> u8" where
  "halfbytechar h = (if h \<le> 9 then h + 48 else h - 10 + 97)"

fun bin2hex_halves :: "BIN2HEX_TRIM_MODE \<Rightarrow> bool \<Rightarrow> u8 list \<Rightarrow> bytes \<times> bool" where
  "bin2hex_halves m td [] = ([], td)"
| "bin2hex_halves m td (h # hs) =
     (if \<not> td \<and> m = BIN2HEX_LEFTTRIM_QUANTITY \<and> h = 0 then bin2hex_halves m td hs
      else (case bin2hex_halves m True hs of (s, td') \<Rightarrow> (halfbytechar h # s, td')))"

definition half_bytes :: "u8 \<Rightarrow> u8 list" where
  "half_bytes octet = [drop_bit 4 octet AND 0x0F, drop_bit 0 octet AND 0x0F]"

fun bin2hex_loop :: "BIN2HEX_TRIM_MODE \<Rightarrow> bool \<Rightarrow> bytes \<Rightarrow> bytes" where
  "bin2hex_loop m td [] = []"
| "bin2hex_loop m td (octet # os) =
     (if \<not> td \<and> octet = 0 then bin2hex_loop m td os
      else (case bin2hex_halves m td (half_bytes octet) of (s, td') \<Rightarrow> s @ bin2hex_loop m td' os))"

definition UtilityBinToHex ::
  "bool \<Rightarrow> bytes option \<Rightarrow> BIN2HEX_TRIM_MODE \<Rightarrow> BIN2HEX_PREFIX_0x_MODE \<Rightarrow> bool \<Rightarrow> bytes \<times> nat" where
  "UtilityBinToHex to_ok from trim_mode prefix zero_as_null =
     (if \<not> to_ok then ([], 0)
      else case from of
        None \<Rightarrow> ([], 0)
      | Some bs \<Rightarrow>
          if bs = [] then ([], 0)
          else
            let pre = (if prefix = BIN2HEX_PREFIX_0x_YES then [48, 120] else []);
                body = bin2hex_loop trim_mode (trim_mode = BIN2HEX_LEFTTRIM_UNFMTDATA) bs;
                str = (if body = []
                       then (if \<not> zero_as_null
                             then pre @ (if trim_mode = BIN2HEX_LEFTTRIM_QUANTITY then [48] else [48, 48])
                             else [])
                       else pre @ body)
            in (str, length str))"

subsection \<open>HEX to binary\<close>

definition hex_half :: "u8 \<Rightarrow> u8 option" where
  "hex_half c =
     (if 48 \<le> c \<and> c \<le> 57 then Some (c - 48)
      else if 65 \<le> c \<and> c \<le> 70 then Some (c - 65 + 0x0A)
      else if 97 \<le> c \<and> c \<le> 102 then Some (c - 97 + 0x0A)
      else None)"

text \<open>
  The \<open>while\<close> loop: \<open>off\<close> is \<open>from_offset\<close>, \<open>out\<close> the bytes written so far, and the flag of
  the result is \<open>False\<close> for the early \<open>return 0\<close> on a character that is not HEX.
\<close>

fun hex2bin_loop :: "nat \<Rightarrow> nat \<Rightarrow> bool \<Rightarrow> nat \<Rightarrow> u8 \<Rightarrow> bytes \<Rightarrow> bytes \<Rightarrow> bytes \<times> bool" where
  "hex2bin_loop odd_flag to_size td off octet out [] = (out, True)"
| "hex2bin_loop odd_flag to_size td off octet out (c # cs) =
     (case hex_half c of
        None \<Rightarrow> (out, False)
      | Some halfbyte \<Rightarrow>
          if off mod 2 = odd_flag
          then hex2bin_loop odd_flag to_size td (off + 1) (push_bit 4 halfbyte) out cs
          else
            let octet' = octet OR halfbyte in
            if \<not> td \<and> octet' = 0
            then hex2bin_loop odd_flag to_size td (off + 1) octet' out cs
            else if length (out @ [octet']) \<ge> to_size then (out @ [octet'], True)
            else hex2bin_loop odd_flag to_size True (off + 1) octet' (out @ [octet']) cs)"

definition skip_0x :: "bytes \<Rightarrow> nat" where
  "skip_0x s = (if length s > 2 \<and> s ! 0 = 48 \<and> (s ! 1 = 120 \<or> s ! 1 = 88) then 2 else 0)"

definition UtilityHexToBin ::
  "bool \<Rightarrow> nat \<Rightarrow> bytes option \<Rightarrow> TRIMBIN_TRIM_MODE \<Rightarrow> bool \<Rightarrow> bytes \<times> nat" where
  "UtilityHexToBin to_ok to_size from trim_mode zero_as_null =
     (case from of
        None \<Rightarrow> ([], 0)
      | Some s \<Rightarrow>
          if \<not> to_ok \<or> to_size = 0 then ([], 0)
          else
            case hex2bin_loop (length s mod 2) to_size (trim_mode = TRIMBIN_TRIM_NO)
                   (skip_0x s) 0 [] (drop (skip_0x s) s) of
              (out, ok) \<Rightarrow>
                if \<not> ok then (out, 0)
                else if out = [] \<and> \<not> zero_as_null then ([0], 1)
                else (out, length out))"

subsection \<open>Integers in big-endian order\<close>

fun be_loop :: "nat list \<Rightarrow> bool \<Rightarrow> 'a::len word \<Rightarrow> bytes" where
  "be_loop [] td x = []"
| "be_loop (i # is) td x =
     (let octet = ucast (drop_bit (i * 8) x) :: u8 in
      if \<not> td \<and> octet = 0 then be_loop is td x
      else octet # be_loop is True x)"

definition UtilityUint32ToBigend :: "u32 \<Rightarrow> TRIMBIN_TRIM_MODE \<Rightarrow> bytes" where
  "UtilityUint32ToBigend x trim_mode =
     (let bs = be_loop [3, 2, 1, 0] (trim_mode = TRIMBIN_TRIM_NO) x in if bs = [] then [0] else bs)"

definition UtilityUint64ToBigend :: "u64 \<Rightarrow> TRIMBIN_TRIM_MODE \<Rightarrow> bytes" where
  "UtilityUint64ToBigend x trim_mode =
     (let bs = be_loop [7, 6, 5, 4, 3, 2, 1, 0] (trim_mode = TRIMBIN_TRIM_NO) x
      in if bs = [] then [0] else bs)"

definition le_u32 :: "bytes \<Rightarrow> u32" where
  "le_u32 bs = of_nat (be_val (rev bs))"

definition UtilityHtonl :: "u32 \<Rightarrow> u32" where
  "UtilityHtonl from_host_integer = le_u32 (UtilityUint32ToBigend from_host_integer TRIMBIN_TRIM_NO)"

definition UtilityNtohl :: "u32 \<Rightarrow> u32" where
  "UtilityNtohl from_big_integer =
     le_u32 (map (\<lambda>i. ucast (drop_bit ((3 - i) * 8) from_big_integer AND 0xFF)) [0, 1, 2, 3])"

definition UtilityBuint8Buf2Uint64 :: "bytes \<Rightarrow> u64" where
  "UtilityBuint8Buf2Uint64 from =
     (push_bit 56 (ucast (from ! 0 AND 0x7F)) OR push_bit 48 (ucast (from ! 1)) OR
      push_bit 40 (ucast (from ! 2)) OR push_bit 32 (ucast (from ! 3)) OR
      push_bit 24 (ucast (from ! 4)) OR push_bit 16 (ucast (from ! 5)) OR
      push_bit 8 (ucast (from ! 6)) OR ucast (from ! 7))"

subsection \<open>In-place reversal\<close>

text \<open>
  The swap loops of \<open>UtilityChangeEndian\<close> and \<open>Utility_itoa\<close>: \<open>n\<close> iterations that exchange the
  elements at \<open>lo\<close> and \<open>hi\<close> and move both inwards.
\<close>

fun swap_range :: "nat \<Rightarrow> nat \<Rightarrow> nat \<Rightarrow> 'a list \<Rightarrow> 'a list" where
  "swap_range 0 lo hi xs = xs"
| "swap_range (Suc n) lo hi xs = swap_range n (Suc lo) (hi - 1) (xs[lo := xs ! hi, hi := xs ! lo])"

text \<open>
  The loop counter of \<open>UtilityChangeEndian\<close> is a \<open>BSINT8\<close>: after 127 it wraps to -128, which is
  huge in the unsigned comparison with \<open>value_len / 2\<close>, and the loop ends.
\<close>

definition UtilityChangeEndian :: "bytes option \<Rightarrow> bytes option" where
  "UtilityChangeEndian value =
     (case value of
        None \<Rightarrow> None
      | Some v \<Rightarrow> Some (swap_range (min (length v div 2) 128) 0 (length v - 1) v))"

subsection \<open>Integers as text\<close>

definition index_table :: bytes where
  "index_table = [48, 49, 50, 51, 52, 53, 54, 55, 56, 57, 65, 66, 67, 68, 69, 70]"

function itoa_digits :: "nat \<Rightarrow> nat \<Rightarrow> bytes" where
  "itoa_digits radix unum =
     index_table ! (unum mod radix) #
       (if unum div radix = 0 \<or> radix < 2 then [] else itoa_digits radix (unum div radix))"
  by pat_completeness auto
termination
  by (relation "measure snd") (auto intro: div_less_dividend simp: div_greater_zero_iff)

declare itoa_digits.simps [simp del]

text \<open>
  A radix outside 2..16 leaves the digit table (or never ends), and negating the least \<open>int\<close>
  overflows: both are undefined behaviour.
\<close>

definition Utility_itoa :: "int \<Rightarrow> nat \<Rightarrow> bytes res" where
  "Utility_itoa num radix =
     (if radix < 2 \<or> 16 < radix \<or> (radix = 10 \<and> num = - 2147483648) then Inl UB
      else
        let neg = (radix = 10 \<and> num < 0);
            unum = (if neg then nat (- num) else nat (num mod 4294967296));
            str = (if neg then [45] else []) @ itoa_digits radix unum;
            i = length str;
            k = (if str ! 0 = 45 then 1 else 0)
        in Inr (swap_range ((i - 1) div 2 + 1 - k) k (i - 1) str))"

subsection \<open>256-bit numbers in 30-bit limbs\<close>

definition be_limb :: "bytes \<Rightarrow> nat \<Rightarrow> u32" where
  "be_limb n i =
     (push_bit 24 (ucast (n ! ((7 - i) * 4 + 0))) OR push_bit 16 (ucast (n ! ((7 - i) * 4 + 1))) OR
      push_bit 8 (ucast (n ! ((7 - i) * 4 + 2))) OR push_bit 0 (ucast (n ! ((7 - i) * 4 + 3))))"

fun read_bignum_loop :: "nat list \<Rightarrow> u32 \<Rightarrow> bytes \<Rightarrow> u32 list" where
  "read_bignum_loop [] temp n = [temp]"
| "read_bignum_loop (i # is) temp n =
     (let limb = be_limb n i;
          temp' = temp OR push_bit (2 * i) limb
      in (temp' AND 0x3FFFFFFF) # read_bignum_loop is (drop_bit (30 - 2 * i) limb) n)"

definition UtilityReadBigendToBignum :: "bytes \<Rightarrow> u32 list" where
  "UtilityReadBigendToBignum in_number = read_bignum_loop [0, 1, 2, 3, 4, 5, 6, 7] 0 in_number"

fun write_bignum_loop :: "nat list \<Rightarrow> u32 \<Rightarrow> u32 list \<Rightarrow> bytes" where
  "write_bignum_loop [] temp v = []"
| "write_bignum_loop (i # is) temp v =
     (let limb = v ! (7 - i);
          temp' = push_bit (16 + 2 * i) temp OR drop_bit (14 - 2 * i) limb
      in [ucast (drop_bit 24 temp'), ucast (drop_bit 16 temp'), ucast (drop_bit 8 temp'),
          ucast (drop_bit 0 temp')] @ write_bignum_loop is limb v)"

definition UtilityWriteBignumToBigend :: "u32 list \<Rightarrow> bytes" where
  "UtilityWriteBignumToBigend v = write_bignum_loop [0, 1, 2, 3, 4, 5, 6, 7] (v ! 8) v"

subsection \<open>String checks\<close>

fun len_check_loop :: "nat \<Rightarrow> bytes \<Rightarrow> int" where
  "len_check_loop 0 s = BOAT_ERROR"
| "len_check_loop (Suc n) [] = 0"
| "len_check_loop (Suc n) (c # cs) = len_check_loop n cs"

definition BOAT_STRING_MAX_LEN :: nat where
  "BOAT_STRING_MAX_LEN = 4096"

definition UtilityStringLenCheck :: "bytes \<Rightarrow> int" where
  "UtilityStringLenCheck s = len_check_loop BOAT_STRING_MAX_LEN s"

definition not_hex_char :: "u8 \<Rightarrow> bool" where
  "not_hex_char c \<longleftrightarrow> c < 48 \<or> (c > 57 \<and> c < 65) \<or> (c > 70 \<and> c < 97) \<or> c > 102"

fun is_hex_loop :: "nat \<Rightarrow> bytes \<Rightarrow> bool" where
  "is_hex_loop 0 s = False"
| "is_hex_loop (Suc n) [] = True"
| "is_hex_loop (Suc n) (c # cs) = (if not_hex_char c then False else is_hex_loop n cs)"

definition UtilityStringIsHex :: "bytes option \<Rightarrow> bool" where
  "UtilityStringIsHex input =
     (case input of
        None \<Rightarrow> False
      | Some s \<Rightarrow>
          if (s @ [0]) ! 0 \<noteq> 48 then False
          else if (s @ [0]) ! 1 \<noteq> 120 \<and> (s @ [0]) ! 1 \<noteq> 88 then False
          else is_hex_loop (BOAT_STRING_MAX_LEN - 2) (drop 2 s))"

subsection \<open>Reference notions\<close>

text \<open>The digits a HEX text stands for, and the octets its digit pairs form.\<close>

definition nib :: "u8 \<Rightarrow> u8" where
  "nib c = (case hex_half c of Some h \<Rightarrow> h | None \<Rightarrow> 0)"

definition is_hex :: "bytes \<Rightarrow> bool" where
  "is_hex s = list_all (\<lambda>c. hex_half c \<noteq> None) s"

definition hex_val :: "bytes \<Rightarrow> nat" where
  "hex_val s = foldl (\<lambda>a c. a * 16 + unat (nib c)) 0 s"

fun pack :: "bytes \<Rightarrow> bytes" where
  "pack (h # l # r) = (push_bit 4 (nib h) OR nib l) # pack r"
| "pack _ = []"

definition trim0 :: "bytes \<Rightarrow> bytes" where
  "trim0 bs = dropWhile (\<lambda>b. b = 0) bs"

definition hex_pad :: "bytes \<Rightarrow> bytes" where
  "hex_pad s = (if odd (length s) then 48 # s else s)"

definition hex_digits :: "bytes \<Rightarrow> bytes" where
  "hex_digits s = drop (skip_0x s) s"

definition hex_string :: "bytes \<Rightarrow> bytes" where
  "hex_string bs = concat (map (\<lambda>b. map halfbytechar (half_bytes b)) bs)"

definition be_octets :: "nat \<Rightarrow> 'a::len word \<Rightarrow> bytes" where
  "be_octets n x = map (\<lambda>i. ucast (drop_bit (i * 8) x)) (rev [0..<n])"

definition shortest :: "nat \<Rightarrow> bytes \<Rightarrow> nat \<Rightarrow> bool" where
  "shortest w bs v \<longleftrightarrow> be_val bs = v \<and> 1 \<le> length bs \<and> length bs \<le> w \<and>
     (length bs > 1 \<longrightarrow> 256 ^ (length bs - 1) \<le> v)"

definition dec_val :: "bytes \<Rightarrow> nat" where
  "dec_val s = foldl (\<lambda>a c. a * 10 + (unat c - 48)) 0 s"

definition int_of_text :: "bytes \<Rightarrow> int" where
  "int_of_text s = (if s \<noteq> [] \<and> hd s = 45 then - int (dec_val (tl s)) else int (dec_val s))"

fun bignum_val :: "u32 list \<Rightarrow> nat" where
  "bignum_val [] = 0"
| "bignum_val (x # xs) = unat x + 2 ^ 30 * bignum_val xs"

definition limbs_ok :: "u32 list \<Rightarrow> bool" where
  "limbs_ok v \<longleftrightarrow> length v = 9 \<and> list_all (\<lambda>x. unat x < 2 ^ 30) v"

subsection \<open>Correctness\<close>

lemma u8_and15: "unat (x AND 15) = unat (x :: u8) mod 16"
proof -
  have "x AND 15 = take_bit 4 x" by (simp only: take_bit_eq_mask) (simp add: mask_numeral)
  then show ?thesis by (simp only: unat_take_bit) simp
qed

lemma half_bytes_unat: "map unat (half_bytes x) = [unat x div 16, unat x mod 16]"
  using u8_bound [of x] by (simp add: half_bytes_def u8_and15 unat_drop_bit)

lemma unat_join: "unat h < 16 \<Longrightarrow> unat l < 16 \<Longrightarrow> unat (push_bit 4 h OR l :: u8) = unat h * 16 + unat l"
  using unat_push_or [of l 4 h] by simp

lemma half_bytes_join: "push_bit 4 (drop_bit 4 x AND 0xF) OR (x AND 0xF) = (x :: u8)"
proof -
  have "unat (push_bit 4 (drop_bit 4 x AND 0xF) OR (x AND 0xF)) = unat x"
    using u8_bound [of x] by (subst unat_join) (simp_all add: u8_and15 unat_drop_bit)
  then show ?thesis by (simp only: word_unat_eq_iff)
qed

lemma hex_half_char: "unat h < 16 \<Longrightarrow> hex_half (halfbytechar h) = Some h"
proof -
  assume a: "unat h < 16"
  then have "list_all (\<lambda>n. hex_half (halfbytechar (word_of_nat n)) = Some (word_of_nat n)) [0..<16]"
    by (simp add: upt_rec hex_half_def halfbytechar_def)
  with a have "hex_half (halfbytechar (word_of_nat (unat h))) = Some (word_of_nat (unat h))"
    by (simp only: list_all_iff) (metis atLeastLessThan_iff set_upt zero_le)
  then show ?thesis by simp
qed

lemma foldl_hex: "foldl (\<lambda>a c. a * 16 + unat (nib c)) n s = n * 16 ^ length s + hex_val s"
proof (induction s arbitrary: n)
  case (Cons c s)
  have "hex_val (c # s) = unat (nib c) * 16 ^ length s + hex_val s"
    using Cons.IH [of "unat (nib c)"] by (simp add: hex_val_def)
  then show ?case using Cons.IH [of "n * 16 + unat (nib c)"] by (simp add: algebra_simps)
qed (simp add: hex_val_def)

lemma hex_val_simps [simp]:
  "hex_val [] = 0"
  "hex_val (c # s) = unat (nib c) * 16 ^ length s + hex_val s"
  using foldl_hex [of "unat (nib c)" s] by (simp_all add: hex_val_def)

lemma hex_val_append: "hex_val (s @ t) = hex_val s * 16 ^ length t + hex_val t"
  using foldl_hex [of "hex_val s" t] by (simp add: hex_val_def)

lemma is_hex_simps [simp]:
  "is_hex []"
  "is_hex (c # s) \<longleftrightarrow> hex_half c \<noteq> None \<and> is_hex s"
  "is_hex (s @ t) \<longleftrightarrow> is_hex s \<and> is_hex t"
  by (simp_all add: is_hex_def)

lemma hex_half_bound: "hex_half c = Some h \<Longrightarrow> unat h < 16"
  by (auto simp: hex_half_def word_le_nat_alt unat_word_ariths unat_sub_if' split: if_splits)

lemma nib_bound: "unat (nib c) < 16"
  by (auto simp: nib_def hex_half_bound split: option.splits)

lemma pack_val: "even (length s) \<Longrightarrow> be_val (pack s) = hex_val s \<and> length (pack s) = length s div 2"
proof (induction s rule: pack.induct)
  case (1 h l r)
  then have "even (length r)" by simp
  moreover from this have "(256 :: nat) ^ (length r div 2) = 16 ^ length r"
    by (auto simp: power_mult elim!: evenE)
  ultimately show ?case
    using 1 by (simp add: unat_join nib_bound algebra_simps)
qed auto

lemma hex2bin_loop_pairs:
  assumes "is_hex s" "even (length s)" "off mod 2 = f" "length out < sz"
  shows "hex2bin_loop f sz td off oc out s =
    (out @ take (sz - length out) (if td then pack s else trim0 (pack s)), True)"
  using assms
proof (induction s arbitrary: off oc out td rule: pack.induct)
  case (1 h l r)
  then obtain a b where h: "hex_half h = Some a" and l: "hex_half l = Some b" by auto
  have m: "Suc off mod 2 \<noteq> f" "Suc (Suc off) mod 2 = f" using 1 by presburger+
  have IH: "length out < sz \<Longrightarrow> hex2bin_loop f sz td (off + 2) oc out r =
    (out @ take (sz - length out) (if td then pack r else trim0 (pack r)), True)" for td oc out
    using 1 m by simp
  show ?case
  proof (cases "\<not> td \<and> push_bit 4 a OR b = 0")
    case True
    then show ?thesis using 1(4,5) m h l IH by (simp add: nib_def trim0_def)
  next
    case False
    then have q: "(if td then pack (h # l # r) else trim0 (pack (h # l # r))) = (push_bit 4 a OR b) # pack r"
      using h l by (auto simp: nib_def trim0_def)
    have sz: "sz - length out = Suc (sz - length (out @ [push_bit 4 a OR b]))" using 1(5) by simp
    show ?thesis
      unfolding q sz
      using 1(4,5) m h l False IH [of "out @ [push_bit 4 a OR b]" True] by (auto simp: Let_def)
  qed
qed (auto simp: trim0_def)

lemma hex2bin_loop_parity:
  "off mod 2 = off' mod 2 \<Longrightarrow> hex2bin_loop f sz td off oc out s = hex2bin_loop f sz td off' oc out s"
proof (induction s arbitrary: off off' oc out td)
  case (Cons c s)
  have "Suc off mod 2 = Suc off' mod 2" using Cons.prems by presburger
  note IH = Cons.IH [OF this]
  show ?case using Cons.prems by (auto simp: IH Let_def split: option.splits)
qed simp

lemma nib_48 [simp]: "nib 48 = 0" "hex_half 48 = Some 0"
  by (simp_all add: nib_def hex_half_def)

lemma hex_pad_simps [simp]:
  "even (length (hex_pad s))" "is_hex (hex_pad s) = is_hex s" "hex_val (hex_pad s) = hex_val s"
  by (simp_all add: hex_pad_def)

lemma hex2bin_loop_pad:
  assumes "is_hex s" "off mod 2 = 0" "0 < sz"
  shows "hex2bin_loop (length s mod 2) sz td off 0 [] s =
    (take sz (if td then pack (hex_pad s) else trim0 (pack (hex_pad s))), True)"
proof (cases "odd (length s)")
  case True
  then obtain c r where s: "s = c # r" by (cases s) auto
  have m: "Suc off mod 2 = Suc 0" using assms(2) by presburger
  then have "hex2bin_loop 1 sz td (off + 1) 0 [] (48 # s) =
      hex2bin_loop 1 sz td (off + 2) 0 [] s" by simp
  also have "\<dots> = hex2bin_loop 1 sz td off 0 [] s"
    by (rule hex2bin_loop_parity) simp
  finally show ?thesis
    using True assms hex2bin_loop_pairs [of "48 # s" "off + 1" 1 "[]" sz td 0]
    by (simp add: hex_pad_def odd_iff_mod_2_eq_one m)
qed (use assms hex2bin_loop_pairs [of s off 0 "[]"] in \<open>simp add: hex_pad_def even_iff_mod_2_eq_zero\<close>)

lemma skip_0x_even: "skip_0x s mod 2 = 0" "length (hex_digits s) mod 2 = length s mod 2"
  by (auto simp: skip_0x_def hex_digits_def le_mod_geq)

lemma UtilityHexToBin_hex:
  assumes "is_hex (hex_digits s)" "0 < sz"
  shows "UtilityHexToBin True sz (Some s) mode z =
    (let p = pack (hex_pad (hex_digits s));
         q = take sz (if mode = TRIMBIN_TRIM_NO then p else trim0 p)
     in if q = [] \<and> \<not> z then ([0], 1) else (q, length q))"
  using hex2bin_loop_pad [OF assms(1) skip_0x_even(1) assms(2)] assms(2)
  unfolding skip_0x_even(2) [of s]
  by (simp add: UtilityHexToBin_def hex_digits_def Let_def)

lemma hex_string_simps [simp]:
  "hex_string [] = []"
  "hex_string (b # bs) = halfbytechar (drop_bit 4 b AND 0xF) # halfbytechar (b AND 0xF) # hex_string bs"
  by (simp_all add: hex_string_def half_bytes_def)

lemma nib_char: "unat h < 16 \<Longrightarrow> nib (halfbytechar h) = h"
  by (simp add: nib_def hex_half_char)

lemma half_bound: "unat (x AND 15 :: u8) < 16"
  by (simp add: u8_and15)

lemma nib_pair:
  "push_bit 4 (nib (halfbytechar (drop_bit 4 b AND 0xF))) OR nib (halfbytechar (b AND 0xF)) = b"
  unfolding nib_char [OF half_bound] by (rule half_bytes_join)

lemma pack_hex_string: "pack (hex_string bs) = bs"
  by (induction bs) (simp_all only: hex_string_simps pack.simps nib_pair)

lemma length_hex_string [simp]: "length (hex_string bs) = 2 * length bs"
  by (induction bs) auto

lemma is_hex_string [simp]: "is_hex (hex_string bs)"
  by (induction bs) (auto simp: hex_half_char half_bound)

lemma hex_val_hex_string: "hex_val (hex_string bs) = be_val bs"
  using pack_val [of "hex_string bs"] by (simp add: pack_hex_string)

lemma bin2hex_loop_done: "bin2hex_loop m True bs = hex_string bs"
  by (induction bs) (simp_all add: half_bytes_def)

lemma bin2hex_loop_twohex:
  "bin2hex_loop BIN2HEX_LEFTTRIM_TWOHEXPERBYTE False bs = hex_string (trim0 bs)"
  by (induction bs) (simp_all add: half_bytes_def bin2hex_loop_done trim0_def)

lemma halfbytechar_zero: "unat h < 16 \<Longrightarrow> halfbytechar h = 48 \<longleftrightarrow> h = 0"
  using nib_char [of h] by (metis nib_48(1) halfbytechar_def add_0 word_coorder.extremum)

lemma bin2hex_loop_quantity:
  "bin2hex_loop BIN2HEX_LEFTTRIM_QUANTITY False bs = dropWhile (\<lambda>c. c = 48) (hex_string bs)"
proof (induction bs)
  case (Cons b bs)
  have "b = 0 \<longleftrightarrow> drop_bit 4 b AND 0xF = 0 \<and> b AND 0xF = 0"
    using half_bytes_join [of b] by (metis and_zero_eq bit.conj_zero_left drop_bit_of_0 or.left_neutral push_bit_of_0)
  then show ?case
    using Cons by (auto simp: half_bytes_def bin2hex_loop_done halfbytechar_zero half_bound)
qed simp

lemma hex_digits_prefix: "s \<noteq> [] \<Longrightarrow> hex_digits (48 # 120 # s) = s"
  by (auto simp: hex_digits_def skip_0x_def)

lemma is_hex_no_x: "is_hex s \<Longrightarrow> hex_digits s = s"
  by (auto simp: hex_digits_def skip_0x_def is_hex_def list_all_length hex_half_def dest!: spec [of _ 1])

text \<open>
  C37: \<open>UtilityHexToBin\<close> undoes \<open>UtilityBinToHex\<close>: the unformatted HEX text of a byte array, with or
  without the 0x prefix, converts back to exactly those bytes in any buffer that can hold them.
\<close>

theorem hex_roundtrip:
  assumes "bs \<noteq> []" "length bs \<le> sz"
  shows "UtilityHexToBin True sz
      (Some (fst (UtilityBinToHex True (Some bs) BIN2HEX_LEFTTRIM_UNFMTDATA prefix z))) TRIMBIN_TRIM_NO z'
    = (bs, length bs)"
proof -
  have ne: "hex_string bs \<noteq> []" using assms(1) by (cases bs) auto
  have sz: "0 < sz" using assms by (cases bs) auto
  define s where "s = (if prefix = BIN2HEX_PREFIX_0x_YES then [48, 120] else []) @ hex_string bs"
  have "fst (UtilityBinToHex True (Some bs) BIN2HEX_LEFTTRIM_UNFMTDATA prefix z) = s"
    using assms(1) ne by (simp add: UtilityBinToHex_def bin2hex_loop_done s_def)
  moreover have "hex_digits s = hex_string bs"
    using ne by (simp add: s_def hex_digits_prefix is_hex_no_x)
  ultimately show ?thesis
    using UtilityHexToBin_hex [of s sz TRIMBIN_TRIM_NO z'] sz assms
    by (simp add: Let_def hex_pad_def pack_hex_string)
qed

theorem hex_roundtrip_witness:
  "UtilityHexToBin True 4
      (Some (fst (UtilityBinToHex True (Some [0, 0x1F, 0xA0]) BIN2HEX_LEFTTRIM_UNFMTDATA
         BIN2HEX_PREFIX_0x_YES False))) TRIMBIN_TRIM_NO False = ([0, 0x1F, 0xA0], 3)"
  using hex_roundtrip [of "[0, 0x1F, 0xA0]" 4 BIN2HEX_PREFIX_0x_YES False False] by simp

lemma hex_val_dropWhile: "hex_val (dropWhile (\<lambda>c. c = 48) s) = hex_val s"
  by (induction s) auto

lemma is_hex_dropWhile: "is_hex s \<Longrightarrow> is_hex (dropWhile P s)"
  by (induction s) auto

text \<open>
  A QUANTITY text is the shortest HEX text of the number: it stands for the big-endian value of the
  array, it is the single digit 0 or starts with another digit, and reading it back gives the
  number without leading zero bytes.
\<close>

theorem quantity_text:
  assumes "bs \<noteq> []"
  shows "\<exists>d. UtilityBinToHex True (Some bs) BIN2HEX_LEFTTRIM_QUANTITY BIN2HEX_PREFIX_0x_YES False
              = ([48, 120] @ d, 2 + length d) \<and>
           is_hex d \<and> hex_val d = be_val bs \<and> (d = [48] \<or> d \<noteq> [] \<and> hd d \<noteq> 48)"
proof -
  define b where "b = dropWhile (\<lambda>c. c = 48) (hex_string bs)"
  have b: "is_hex b" "hex_val b = be_val bs" "b \<noteq> [] \<longrightarrow> hd b \<noteq> 48"
    using dropWhile_hd_false [of "\<lambda>c. c = 48" "hex_string bs"]
    by (auto simp: b_def is_hex_dropWhile hex_val_dropWhile hex_val_hex_string)
  have eq: "bin2hex_loop BIN2HEX_LEFTTRIM_QUANTITY False bs = b"
    by (simp add: b_def bin2hex_loop_quantity)
  show ?thesis
    by (rule exI [of _ "if b = [] then [48] else b"])
      (use assms b in \<open>auto simp: UtilityBinToHex_def eq Let_def\<close>)
qed

theorem quantity_text_witness:
  "\<exists>d. UtilityBinToHex True (Some [0, 0x0A, 0xBC]) BIN2HEX_LEFTTRIM_QUANTITY BIN2HEX_PREFIX_0x_YES False
              = ([48, 120] @ d, 2 + length d) \<and>
           is_hex d \<and> hex_val d = be_val [0, 0x0A, 0xBC] \<and> (d = [48] \<or> d \<noteq> [] \<and> hd d \<noteq> 48)"
  using quantity_text [of "[0, 0x0A, 0xBC]"] by simp

text \<open>
  \<open>UtilityHexToBin\<close> computes the number a HEX text of either parity stands for: with enough room the
  bytes it writes have that value; trimmed, they start with no zero byte unless they
  are the single zero byte.
\<close>

theorem HexToBin_value:
  assumes "is_hex (hex_digits s)" "s \<noteq> []" "length s \<le> 2 * sz"
  shows "\<exists>out. UtilityHexToBin True sz (Some s) mode False = (out, length out) \<and>
           be_val out = hex_val (hex_digits s) \<and>
           (mode = TRIMBIN_LEFTTRIM \<longrightarrow> out = [0] \<or> out \<noteq> [] \<and> hd out \<noteq> 0) \<and>
           (mode = TRIMBIN_TRIM_NO \<longrightarrow> length out = (length (hex_digits s) + 1) div 2)"
proof -
  define p where "p = pack (hex_pad (hex_digits s))"
  define q where "q = (if mode = TRIMBIN_TRIM_NO then p else trim0 p)"
  have p: "be_val p = hex_val (hex_digits s)" "length p = (length (hex_digits s) + 1) div 2"
    using pack_val [of "hex_pad (hex_digits s)"] by (auto simp: p_def hex_pad_def)
  have "length (hex_digits s) \<le> length s" by (simp add: hex_digits_def)
  then have "length p \<le> sz" using assms(3) p(2) by linarith
  moreover have "length q \<le> length p"
    by (auto simp: q_def trim0_def length_dropWhile_le)
  ultimately have q: "take sz q = q" by simp
  have ne: "hex_digits s \<noteq> []" using assms(2) by (auto simp: hex_digits_def skip_0x_def)
  then have "p \<noteq> []" using p(2) by (cases "hex_digits s") auto
  moreover have "be_val q = be_val p" by (simp add: q_def trim0_def be_val_dropWhile)
  moreover have "mode = TRIMBIN_LEFTTRIM \<Longrightarrow> q \<noteq> [] \<Longrightarrow> hd q \<noteq> 0"
    using dropWhile_hd_false [of "\<lambda>b. b = 0" p] by (auto simp: q_def trim0_def)
  moreover have sz: "0 < sz" using assms(2,3) by (cases s) auto
  ultimately show ?thesis
    using UtilityHexToBin_hex [OF assms(1) sz, of mode False] p q
    by (intro exI [of _ "if q = [] then [0] else q"])
      (auto simp: Let_def q_def p_def split: if_splits)
qed

theorem HexToBin_value_witness:
  "\<exists>out. UtilityHexToBin True 3 (Some [48, 120, 49, 50, 102]) TRIMBIN_LEFTTRIM False = (out, length out) \<and>
           be_val out = hex_val [49, 50, 102] \<and> (out = [0] \<or> out \<noteq> [] \<and> hd out \<noteq> 0)"
  using HexToBin_value [of "[48, 120, 49, 50, 102]" 3 TRIMBIN_LEFTTRIM]
  by (simp add: hex_digits_def skip_0x_def hex_half_def)

lemma trim_loop_eq: "trim_loop bs = (if trim0 bs = [] then None else Some (trim0 bs))"
  by (induction bs) (auto simp: trim0_def)

text \<open>
  Trimming keeps the number: for a non-empty array \<open>UtilityTrimBin\<close> returns the bytes of the same
  big-endian value, left-trimmed they do not start with a zero byte, and an all-zero array becomes
  one zero byte, or nothing when zero counts as null.
\<close>

theorem TrimBin_value:
  "\<exists>out. UtilityTrimBin True (Some bs) mode z = (out, length out) \<and> be_val out = be_val bs \<and>
     length out \<le> max 1 (length bs) \<and>
     (if mode = TRIMBIN_TRIM_NO then out = bs
      else if be_val bs = 0 then out = (if z then [] else [0]) else hd out \<noteq> 0)"
proof -
  have z: "trim0 bs = [] \<longleftrightarrow> be_val bs = 0"
  proof
    assume "be_val bs = 0"
    then have "be_val (trim0 bs) = 0" by (simp add: trim0_def be_val_dropWhile)
    moreover have "trim0 bs \<noteq> [] \<Longrightarrow> hd (trim0 bs) \<noteq> 0"
      using dropWhile_hd_false [of "\<lambda>b. b = 0" bs] by (simp add: trim0_def)
    ultimately show "trim0 bs = []" 
      by (cases "trim0 bs") (auto simp: unat_0_iff)
  qed (auto simp: trim0_def dropWhile_eq_Nil_conv be_val_zeros)
  have v: "be_val (trim0 bs) = be_val bs" "length (trim0 bs) \<le> length bs"
    by (simp_all add: trim0_def be_val_dropWhile length_dropWhile_le)
  have h: "trim0 bs \<noteq> [] \<Longrightarrow> hd (trim0 bs) \<noteq> 0"
    using dropWhile_hd_false [of "\<lambda>b. b = 0" bs] by (simp add: trim0_def)
  show ?thesis
    using z v h by (cases mode) (auto simp: UtilityTrimBin_def trim_loop_eq split: if_splits)
qed

lemma be_octets_simps [simp]:
  "be_octets 0 x = []"
  "be_octets (Suc n) x = ucast (drop_bit (n * 8) x) # be_octets n x"
  by (simp_all add: be_octets_def)

lemma length_be_octets [simp]: "length (be_octets n x) = n"
  by (simp add: be_octets_def)

lemma be_val_octets: "be_val (be_octets n x) = unat x mod 256 ^ n"
proof (induction n)
  case (Suc n)
  have "unat x mod 256 ^ Suc n = (unat x div 256 ^ n mod 256) * 256 ^ n + unat x mod 256 ^ n"
    using mod_mult2_eq [of "unat x" "256 ^ n" 256] by (simp add: mult.commute)
  then show ?case
    using Suc unat_octet [of n x] by (simp add: mult.commute)
qed simp

lemma be_loop_octets:
  "be_loop (rev [0..<n]) td x = (if td then be_octets n x else trim0 (be_octets n x))"
  by (induction n arbitrary: td) (auto simp: trim0_def Let_def)

lemma be_octets_eq_Nil [simp]: "be_octets n x = [] \<longleftrightarrow> n = 0"
  using length_be_octets [of n x] by (metis length_0_conv)

lemma down_from: "[3, 2, 1, 0] = rev [0..<4]" "[7, 6, 5, 4, 3, 2, 1, 0] = rev [0..<8]"
  by (simp_all add: upt_rec)

lemma Uint32_eq: "UtilityUint32ToBigend x mode =
    (if mode = TRIMBIN_TRIM_NO then be_octets 4 x
     else if trim0 (be_octets 4 x) = [] then [0] else trim0 (be_octets 4 x))"
  by (simp only: UtilityUint32ToBigend_def down_from(1) be_loop_octets Let_def) simp

lemma Uint64_eq: "UtilityUint64ToBigend x mode =
    (if mode = TRIMBIN_TRIM_NO then be_octets 8 x
     else if trim0 (be_octets 8 x) = [] then [0] else trim0 (be_octets 8 x))"
  by (simp only: UtilityUint64ToBigend_def down_from(2) be_loop_octets Let_def) simp

lemma trim0_minimal: "trim0 bs \<noteq> [] \<Longrightarrow> 256 ^ (length (trim0 bs) - 1) \<le> be_val (trim0 bs)"
  using dropWhile_hd_false [of "\<lambda>b. b = 0" bs] be_val_lower [of "hd (trim0 bs)" "tl (trim0 bs)"]
  by (cases "trim0 bs") (simp_all add: trim0_def)

lemma shortest_trim0:
  assumes "length bs \<le> w" "0 < w"
  shows "shortest w (if trim0 bs = [] then [0] else trim0 bs) (be_val bs)"
proof -
  have "be_val (trim0 bs) = be_val bs" "length (trim0 bs) \<le> length bs"
    by (simp_all add: trim0_def be_val_dropWhile length_dropWhile_le)
  then show ?thesis
    using assms trim0_minimal [of bs] by (auto simp: shortest_def simp flip: length_greater_0_conv)
qed

text \<open>
  The big-endian conversions of 32- and 64-bit integers are exact: the bytes have the value of the integer,
  at full width they are 4 or 8 bytes, and trimmed they are the shortest non-empty
  byte string of that value.
\<close>

theorem Uint_bigend_value:
  "be_val (UtilityUint32ToBigend x m) = unat x \<and> be_val (UtilityUint64ToBigend y m) = unat y \<and>
   length (UtilityUint32ToBigend x TRIMBIN_TRIM_NO) = 4 \<and>
   length (UtilityUint64ToBigend y TRIMBIN_TRIM_NO) = 8 \<and>
   shortest 4 (UtilityUint32ToBigend x TRIMBIN_LEFTTRIM) (unat x) \<and>
   shortest 8 (UtilityUint64ToBigend y TRIMBIN_LEFTTRIM) (unat y)"
proof -
  have v: "be_val (be_octets 4 x) = unat x" "be_val (be_octets 8 y) = unat y"
    using u32_bound [of x] u64_bound [of y] by (simp_all add: be_val_octets)
  then have "shortest 4 (UtilityUint32ToBigend x TRIMBIN_LEFTTRIM) (unat x)"
    "shortest 8 (UtilityUint64ToBigend y TRIMBIN_LEFTTRIM) (unat y)"
    using shortest_trim0 [of "be_octets 4 x" 4] shortest_trim0 [of "be_octets 8 y" 8]
    by (simp_all add: Uint32_eq Uint64_eq)
  moreover from this have "be_val (UtilityUint32ToBigend x m) = unat x"
    "be_val (UtilityUint64ToBigend y m) = unat y"
    using v by (cases m; simp add: Uint32_eq Uint64_eq shortest_def)+
  ultimately show ?thesis by (simp add: Uint32_eq Uint64_eq)
qed

lemma le_u32_rev: "length bs = 4 \<Longrightarrow> be_octets 4 (le_u32 bs) = rev bs"
proof (rule be_val_inj)
  assume l: "length bs = 4"
  then have "be_val (rev bs) < 4294967296" using be_val_bound [of "rev bs"] by simp
  then show "be_val (be_octets 4 (le_u32 bs)) = be_val (rev bs)"
    by (simp add: be_val_octets le_u32_def)
qed simp

lemma be_octets_inj: "be_octets 4 x = be_octets 4 y \<Longrightarrow> x = (y :: u32)"
  using be_val_octets [of 4 x] be_val_octets [of 4 y] u32_bound [of x] u32_bound [of y]
  by (simp add: word_unat_eq_iff)

lemma ucast_and255: "ucast (y AND 0xFF) = (ucast (y :: u32) :: u8)"
proof -
  have "y AND 0xFF = take_bit 8 y" by (simp only: take_bit_eq_mask) (simp add: mask_numeral)
  then have "unat (ucast (y AND 0xFF) :: u8) = unat (ucast y :: u8)"
    by (simp only: unat_ucast_u8 unat_take_bit) simp
  then show ?thesis by (simp only: word_unat_eq_iff)
qed

lemma be_octets_4: "be_octets 4 x = map (\<lambda>i. ucast (drop_bit (i * 8) x)) [3, 2, 1, 0]"
  by (simp only: be_octets_def down_from(1) [symmetric])

lemma Ntohl_octets: "UtilityNtohl x = le_u32 (be_octets 4 x)"
  by (simp add: UtilityNtohl_def be_octets_4 ucast_and255)

text \<open>\<open>UtilityNtohl\<close> and \<open>UtilityHtonl\<close> reverse the four bytes of a word and undo each other.\<close>

theorem ntohl_htonl: "UtilityNtohl (UtilityHtonl x) = x \<and> UtilityHtonl (UtilityNtohl x) = x \<and>
  be_octets 4 (UtilityHtonl x) = rev (be_octets 4 x)"
  by (auto intro!: be_octets_inj simp: Ntohl_octets UtilityHtonl_def Uint32_eq le_u32_rev)

text \<open>The loop exchanges the ends of the range around the part it has not reached.\<close>

lemma swap_range_step:
  "swap_range (Suc n) (length pre) (length pre + Suc (length mid)) (pre @ a # mid @ b # post) =
   swap_range n (length (pre @ [b])) (length pre + length mid) ((pre @ [b]) @ mid @ a # post)"
  by (simp add: list_update_append nth_append)

lemma swap_range_rev:
  assumes "k = length mid div 2 \<or> k = (length mid + 1) div 2"
  shows "swap_range k (length pre) (length pre + length mid - 1) (pre @ mid @ post) = pre @ rev mid @ post"
  using assms
proof (induction k arbitrary: pre mid post)
  case 0
  then have "length mid \<le> 1" by presburger
  then show ?case by (cases mid) auto
next
  case (Suc k)
  show ?case
  proof (cases "length mid = 1")
    case True
    then obtain a where "mid = [a]" by (metis One_nat_def length_0_conv length_Suc_conv)
    with Suc.prems show ?thesis by (auto simp: list_update_append nth_append)
  next
    case False
    with Suc.prems have "2 \<le> length mid" by presburger
    then obtain a m b where m: "mid = a # m @ [b]"
      by (metis (no_types, lifting) Suc_le_length_iff append_butlast_last_id list.size(3) not_less_eq_eq numeral_2_eq_2 zero_le)
    have "k = length m div 2 \<or> k = (length m + 1) div 2" using Suc.prems m by auto
    from Suc.IH [OF this, of "pre @ [b]" "a # post"] show ?thesis
      using swap_range_step [of k pre m a b post] by (simp add: m)
  qed
qed

lemma swap_range_outer:
  "length A = k \<Longrightarrow> length B = k \<Longrightarrow>
   swap_range k (length pre) (length pre + length (A @ M @ B) - 1) (pre @ A @ M @ B @ post) =
   pre @ rev B @ M @ rev A @ post"
proof (induction k arbitrary: pre A B post)
  case (Suc k)
  then obtain a A' where A: "A = a # A'" by (cases A) auto
  from Suc obtain b B' where B: "B = B' @ [b]" by (cases B rule: rev_cases) auto
  from Suc.IH [of A' B' "pre @ [b]" "a # post"] Suc.prems show ?case
    using swap_range_step [of k pre "A' @ M @ B'" a b post] by (simp add: A B)
qed simp

text \<open>
  \<open>UtilityChangeEndian\<close> reverses an array of up to 257 bytes in place; on a longer array the 8-bit loop
  counter wraps and only the 128 outermost bytes of each end are exchanged.
\<close>

theorem ChangeEndian_rev:
  "UtilityChangeEndian (Some v) =
     Some (if length v \<le> 257 then rev v
           else rev (drop (length v - 128) v) @ take (length v - 256) (drop 128 v) @ rev (take 128 v))"
proof (cases "length v \<le> 257")
  case True
  then have "min (length v div 2) 128 = length v div 2" by simp
  then show ?thesis
    using True swap_range_rev [of "length v div 2" v "[]" "[]"] by (simp add: UtilityChangeEndian_def)
next
  case False
  define A M B where "A = take 128 v" and "M = take (length v - 256) (drop 128 v)"
    and "B = drop (length v - 128) v"
  have v: "v = A @ M @ B"
    using False append_take_drop_id [of "length v - 256" "drop 128 v"] by (simp add: A_def M_def B_def)
  have "length A = 128" "length B = 128" "min (length v div 2) 128 = 128"
    using False by (simp_all add: A_def B_def)
  with swap_range_outer [of A 128 B "[]" M "[]"] False show ?thesis
    by (simp add: UtilityChangeEndian_def v flip: A_def M_def B_def)
qed

lemma digit_val: "d < 10 \<Longrightarrow> unat (index_table ! d) = 48 + d"
proof -
  assume d: "d < 10"
  have "list_all (\<lambda>n. unat (index_table ! n) = 48 + n) [0..<10]"
    by (simp add: upt_rec index_table_def)
  with d show ?thesis by (simp only: list_all_iff) simp
qed

lemma dec_val_snoc: "dec_val (s @ [c]) = dec_val s * 10 + (unat c - 48)"
  by (simp add: dec_val_def)

lemma itoa_digits_val: "dec_val (rev (itoa_digits 10 n)) = n \<and>
   (\<forall>c \<in> set (itoa_digits 10 n). 48 \<le> unat c \<and> unat c \<le> 57) \<and> itoa_digits 10 n \<noteq> [] \<and>
   (9 < n \<longrightarrow> last (itoa_digits 10 n) \<noteq> 48)"
proof (induction n rule: less_induct)
  case (less n)
  have d: "unat (index_table ! (n mod 10)) = 48 + n mod 10" by (rule digit_val) simp
  show ?case
  proof (cases "n < 10")
    case True
    with d show ?thesis by (simp add: itoa_digits.simps [of 10 n] dec_val_def)
  next
    case False
    note IH = less.IH [of "n div 10"]
    have "last (itoa_digits 10 (n div 10)) \<noteq> 48"
    proof (cases "9 < n div 10")
      case False
      have "0 < n div 10" using \<open>\<not> n < 10\<close> by simp
      then show ?thesis using False digit_val [of "n div 10"] 
        by (auto simp: itoa_digits.simps [of 10 "n div 10"] word_unat_eq_iff)
    qed (use IH False in simp)
    then show ?thesis
      using IH False d by (auto simp: itoa_digits.simps [of 10 n] dec_val_snoc)
  qed
qed

lemma Utility_itoa_10:
  assumes "- 2147483648 < num" "num < 2147483648"
  shows "Utility_itoa num 10 = Inr ((if num < 0 then [45] else []) @ rev (itoa_digits 10 (nat \<bar>num\<bar>)))"
proof -
  define ds where "ds = itoa_digits 10 (nat \<bar>num\<bar>)"
  have ds: "ds \<noteq> []" "hd ds \<noteq> 45"
    using itoa_digits_val [of "nat \<bar>num\<bar>"] by (force simp: ds_def dest: hd_in_set)+
  then have h: "ds ! 0 \<noteq> 45" by (simp add: hd_conv_nth)
  have u: "num < 0 \<Longrightarrow> nat (- num) = nat \<bar>num\<bar>" "\<not> num < 0 \<Longrightarrow> nat (num mod 4294967296) = nat \<bar>num\<bar>"
    using assms by auto
  show ?thesis
  proof (cases "num < 0")
    case True
    have "Utility_itoa num 10 =
        Inr (swap_range (length ds div 2) (length [45]) (length [45 :: u8] + length ds - 1) ([45] @ ds @ []))"
      using True assms unfolding Utility_itoa_def Let_def u(1) [OF True] ds_def [symmetric]
      by (simp only: if_False if_True) (simp add: ds_def)
    then show ?thesis
      using True swap_range_rev [OF disjI1 [OF refl], of ds "[45]" "[]"] by (simp add: ds_def)
  next
    case False
    have "(length ds - 1) div 2 + 1 = (length ds + 1) div 2" using ds(1) by (cases ds) auto
    then have "swap_range ((length ds - 1) div 2 + 1) 0 (length ds - 1) ds = rev ds"
      using swap_range_rev [of "(length ds + 1) div 2" ds "[]" "[]"] by simp
    moreover have "Utility_itoa num 10 = Inr (swap_range ((length ds - 1) div 2 + 1) 0 (length ds - 1) ds)"
      using False assms h unfolding Utility_itoa_def Let_def u(2) [OF False] ds_def [symmetric]
      by (simp only: if_False if_True append_Nil) (simp add: ds_def)
    ultimately show ?thesis using False by (simp add: ds_def)
  qed
qed

text \<open>
  \<open>Utility_itoa\<close> writes the decimal text of an \<open>int\<close>: an optional minus sign and digits of its value
  with no superfluous leading zero.
\<close>

theorem itoa_decimal:
  assumes "- 2147483648 < num" "num < 2147483648"
  shows "\<exists>s. Utility_itoa num 10 = Inr s \<and> int_of_text s = num \<and>
     (9 < \<bar>num\<bar> \<longrightarrow> hd (if num < 0 then tl s else s) \<noteq> 48)"
proof -
  define n where "n = nat \<bar>num\<bar>"
  note v = itoa_digits_val [of n]
  then have "rev (itoa_digits 10 n) \<noteq> []" "hd (rev (itoa_digits 10 n)) \<noteq> 45"
    "9 < n \<Longrightarrow> hd (rev (itoa_digits 10 n)) \<noteq> 48"
    by (auto simp: hd_rev dest!: last_in_set)
  moreover have "9 < \<bar>num\<bar> \<Longrightarrow> 9 < n" by (simp add: n_def)
  ultimately show ?thesis
    using v Utility_itoa_10 [OF assms] by (auto simp: int_of_text_def n_def)
qed

theorem itoa_decimal_witness:
  "\<exists>s. Utility_itoa (- 1203) 10 = Inr s \<and> int_of_text s = - 1203 \<and> hd (tl s) \<noteq> 48"
  using itoa_decimal [of "- 1203"] by simp

lemma join4:
  "unat (push_bit 24 (ucast a) OR push_bit 16 (ucast b) OR push_bit 8 (ucast c) OR ucast (d :: u8) :: u32) =
    be_val [a, b, c, d]"
proof -
  have 1: "unat (ucast d :: u32) = be_val [d]" by (simp add: unat_ucast_up)
  have 2: "unat (push_bit 8 (ucast c) OR ucast d :: u32) = be_val [c, d]"
    using join_octet [OF 1, of c] by simp
  have 3: "unat (push_bit 16 (ucast b) OR (push_bit 8 (ucast c) OR ucast d) :: u32) = be_val [b, c, d]"
    using join_octet [OF 2, of b] by simp
  show ?thesis using join_octet [OF 3, of a] by (simp add: or.assoc)
qed

lemma be_limb_val:
  assumes "length n = 32" "i < 8"
  shows "unat (be_limb n i) = be_val (take 4 (drop ((7 - i) * 4) n))"
proof -
  define j where "j = (7 - i) * 4"
  have j: "j + 3 < length n" using assms by (simp add: j_def)
  then have "take 4 (drop j n) = [n ! (j + 0), n ! (j + 1), n ! (j + 2), n ! (j + 3)]"
    by (simp add: Cons_nth_drop_Suc [symmetric] numeral_eq_Suc)
  then show ?thesis
    unfolding be_limb_def j_def [symmetric] push_bit_0_id id_apply by (simp only: join4)
qed

text \<open>
  \<open>UtilityBuint8Buf2Uint64\<close> reads eight bytes as a big-endian number without its top bit, so the result
  fits a signed 64-bit integer.
\<close>

theorem Buint8Buf2Uint64_value:
  assumes "length from = 8"
  shows "unat (UtilityBuint8Buf2Uint64 from) = be_val from mod 2 ^ 63"
proof -
  from assms obtain a b c d e f g h where fr: "from = [a, b, c, d, e, f, g, h]"
    by (auto simp: numeral_eq_Suc length_Suc_conv)
  have 1: "unat (ucast h :: u64) = be_val [h]" by (simp add: unat_ucast_up)
  note 2 = join_octet [OF 1, of g]
  note 3 = join_octet [OF 2, of f]
  note 4 = join_octet [OF 3, of e]
  note 5 = join_octet [OF 4, of d]
  note 6 = join_octet [OF 5, of c]
  note 7 = join_octet [OF 6, of b]
  note 8 = join_octet [OF 7, of "a AND 0x7F"]
  have "a AND 0x7F = take_bit 7 a" by (simp only: take_bit_eq_mask) (simp add: mask_numeral)
  then have m: "unat (a AND 0x7F) = unat a mod 128" by (simp only: unat_take_bit) simp
  have v: "be_val [b, c, d, e, f, g, h] < 2 ^ 56" using be_val_bound [of "[b, c, d, e, f, g, h]"] by simp
  have "unat (UtilityBuint8Buf2Uint64 from) = be_val [a AND 0x7F, b, c, d, e, f, g, h]"
    using 8 by (simp add: UtilityBuint8Buf2Uint64_def fr or.assoc)
  also have "\<dots> = (unat a mod 128) * 2 ^ 56 + be_val [b, c, d, e, f, g, h]"
    by (subst be_val_Cons) (simp add: m)
  also have "\<dots> = (unat a * 2 ^ 56 + be_val [b, c, d, e, f, g, h]) mod 2 ^ 63"
  proof -
    have "(unat a * 2 ^ 56 + r) mod 2 ^ 63 = (unat a mod 128) * 2 ^ 56 + r" if "r < 2 ^ 56" for r :: nat
      using that mod_mult2_eq [of "unat a * 2 ^ 56 + r" "2 ^ 56" 128] by (simp add: mult.commute)
    then show ?thesis using v by simp
  qed
  also have "\<dots> = be_val from mod 2 ^ 63" by (simp add: fr)
  finally show ?thesis .
qed

lemma bignum_val_append: "bignum_val (xs @ ys) = bignum_val xs + 2 ^ (30 * length xs) * bignum_val ys"
  by (induction xs) (simp_all add: power_add algebra_simps)

lemma bignum_val_bound: "list_all (\<lambda>x. unat x < 2 ^ 30) v \<Longrightarrow> bignum_val v < 2 ^ (30 * length v)"
proof (induction v)
  case (Cons x xs)
  then have "Suc (bignum_val xs) \<le> 2 ^ (30 * length xs)" by simp
  then have "2 ^ 30 * Suc (bignum_val xs) \<le> 2 ^ 30 * 2 ^ (30 * length xs)" by (rule mult_le_mono2)
  then show ?case using Cons.prems by (simp add: power_add)
qed simp

lemma read_step:
  assumes "k \<le> 30" "unat temp < 2 ^ k"
  shows "unat ((temp OR push_bit k limb) AND (0x3FFFFFFF :: u32)) + 2 ^ 30 * unat (drop_bit (30 - k) limb) =
      unat temp + 2 ^ k * unat limb"
    "unat ((temp OR push_bit k limb) AND (0x3FFFFFFF :: u32)) < 2 ^ 30"
    "unat (drop_bit (30 - k) (limb :: u32)) < 2 ^ (k + 2)"
proof -
  have "x AND 0x3FFFFFFF = take_bit 30 x" for x :: u32
    by (simp only: take_bit_eq_mask) (simp add: mask_numeral)
  then have "unat ((temp OR push_bit k limb) AND (0x3FFFFFFF :: u32)) =
      take_bit 30 (unat temp OR take_bit 32 (push_bit k (unat limb)))"
    by (simp only: unsigned_take_bit_eq unsigned_or_eq unsigned_push_bit_eq) simp
  also have "\<dots> = take_bit 30 (push_bit k (unat limb) OR unat temp)"
    by (rule bit_eqI) (auto simp: bit_simps)
  also have "\<dots> = (unat limb * 2 ^ k + unat temp) mod 2 ^ 30"
    unfolding push_or_nat [OF assms(2)] by (rule take_bit_eq_mod)
  finally have e: "unat ((temp OR push_bit k limb) AND (0x3FFFFFFF :: u32)) = (unat limb * 2 ^ k + unat temp) mod 2 ^ 30" .
  have "(2 :: nat) ^ 30 = 2 ^ k * 2 ^ (30 - k)" using assms(1) by (simp flip: power_add)
  then have d: "(unat limb * 2 ^ k + unat temp) div 2 ^ 30 = unat (drop_bit (30 - k) limb)"
    using assms(2) by (simp only: unat_drop_bit div_mult2_eq) simp
  show "unat ((temp OR push_bit k limb) AND (0x3FFFFFFF :: u32)) + 2 ^ 30 * unat (drop_bit (30 - k) limb) =
      unat temp + 2 ^ k * unat limb"
    unfolding e d [symmetric] by (simp only: mod_mult_div_eq) simp
  show "unat ((temp OR push_bit k limb) AND (0x3FFFFFFF :: u32)) < 2 ^ 30" unfolding e by simp
  have "(2 :: nat) ^ 32 = 2 ^ (k + 2) * 2 ^ (30 - k)" using assms(1) by (simp flip: power_add)
  then show "unat (drop_bit (30 - k) (limb :: u32)) < 2 ^ (k + 2)"
    using u32_bound [of limb] by (intro div_less_iff_less_mult [THEN iffD2] | simp add: unat_drop_bit div_less_iff_less_mult)+
qed

lemma read_loop_val:
  assumes "length n = 32" "i + m = 8" "unat temp < 2 ^ (2 * i)"
  shows "bignum_val (read_bignum_loop [i..<8] temp n) = unat temp + 2 ^ (2 * i) * be_val (take (m * 4) n) \<and>
    limbs_ok (replicate i 0 @ read_bignum_loop [i..<8] temp n) \<and>
    unat (last (read_bignum_loop [i..<8] temp n)) < 2 ^ 16"
  using assms
proof (induction m arbitrary: i temp)
  case 0
  then show ?case by (simp add: limbs_ok_def list_all_iff)
next
  case (Suc m)
  let ?limb = "be_limb n i" 
  have i: "2 * i \<le> 30" "[i..<8] = i # [Suc i..<8]" "7 - i = m" "i < 8" using Suc.prems by (auto simp: upt_rec)
  note st = read_step [OF i(1) Suc.prems(3), of ?limb]
  have IH: "bignum_val (read_bignum_loop [Suc i..<8] (drop_bit (30 - 2 * i) ?limb) n) =
       unat (drop_bit (30 - 2 * i) ?limb) + 2 ^ (2 * Suc i) * be_val (take (m * 4) n) \<and>
    limbs_ok (replicate (Suc i) 0 @ read_bignum_loop [Suc i..<8] (drop_bit (30 - 2 * i) ?limb) n) \<and>
    unat (last (read_bignum_loop [Suc i..<8] (drop_bit (30 - 2 * i) ?limb) n)) < 2 ^ 16"
    using Suc.prems st(3) by (intro Suc.IH) simp_all
  have "take (Suc m * 4) n = take (m * 4) n @ take 4 (drop (m * 4) n)"
    using take_add [of "m * 4" 4 n] by (simp add: add.commute)
  moreover have "length (take 4 (drop (m * 4) n)) = 4" using Suc.prems by simp
  ultimately have t: "be_val (take (Suc m * 4) n) = be_val (take (m * 4) n) * 2 ^ 32 + unat ?limb"
    using be_limb_val [OF Suc.prems(1) i(4)] i(3) by (simp add: be_val_append)
  have ne: "read_bignum_loop [Suc i..<8] (drop_bit (30 - 2 * i) ?limb) n \<noteq> []"
    using IH Suc.prems by (auto simp: limbs_ok_def)
  have "bignum_val (read_bignum_loop [i..<8] temp n) =
      unat temp + 2 ^ (2 * i) * unat ?limb + 2 ^ 30 * (2 ^ (2 * Suc i) * be_val (take (m * 4) n))"
    using IH st(1) by (simp add: i(2) Let_def)
  also have "\<dots> = unat temp + 2 ^ (2 * i) * be_val (take (Suc m * 4) n)"
    unfolding t by (simp add: algebra_simps)
  finally show ?case
    using IH st(2) ne by (simp add: i(2) Let_def limbs_ok_def)
qed

lemma octets4_val: "be_val [ucast (drop_bit 24 x), ucast (drop_bit 16 x), ucast (drop_bit 8 x), ucast (drop_bit 0 x)] = unat (x :: u32)"
  using be_val_octets [of 4 x] u32_bound [of x] by (simp add: be_octets_4)

lemma write_step:
  assumes "k \<le> 14" and that: "unat (limb :: u32) < 2 ^ 30"
  shows "unat (push_bit (30 - k) temp OR drop_bit k limb) = ((unat temp * 2 ^ 30 + unat limb) div 2 ^ k) mod 2 ^ 32"
proof -
  have p: "(2 :: nat) ^ 30 = 2 ^ (30 - k) * 2 ^ k" using assms by (simp flip: power_add)
  then have l: "unat limb div 2 ^ k < 2 ^ (30 - k)" using that by (simp add: less_mult_imp_div_less)
  have "unat (push_bit (30 - k) temp OR drop_bit k limb) =
      take_bit 32 (push_bit (30 - k) (unat temp)) OR take_bit 32 (unat limb div 2 ^ k)"
    using l assms unfolding unsigned_or_eq unsigned_push_bit_eq unat_drop_bit
    using u32_bound [of limb] by (simp add: take_bit_nat_eq_self le_less_trans [OF div_le_dividend])
  also have "\<dots> = take_bit 32 (push_bit (30 - k) (unat temp) OR unat limb div 2 ^ k)"
    by (simp only: take_bit_or)
  also have "\<dots> = (unat temp * 2 ^ (30 - k) + unat limb div 2 ^ k) mod 2 ^ 32"
    unfolding push_or_nat [OF l] by (rule take_bit_eq_mod)
  also have "unat temp * 2 ^ (30 - k) + unat limb div 2 ^ k = (unat temp * 2 ^ 30 + unat limb) div 2 ^ k"
    unfolding p by (simp add: mult.assoc [symmetric])
  finally show ?thesis .
qed

lemma write_split:
  fixes t l r :: nat
  assumes "r < 2 ^ (30 * m)" "m < 8"
  shows "(t * 2 ^ (30 * Suc m) + (r + 2 ^ (30 * m) * l)) mod 2 ^ (32 * Suc m) =
    (t * 2 ^ 30 + l) div 2 ^ (2 * m) mod 2 ^ 32 * 2 ^ (32 * m) + (l * 2 ^ (30 * m) + r) mod 2 ^ (32 * m)"
proof -
  define M where "M = t * 2 ^ (30 * Suc m) + (r + 2 ^ (30 * m) * l)"
  have M: "M = (t * 2 ^ 30 + l) * 2 ^ (30 * m) + r"
    by (simp add: M_def power_add algebra_simps)
  have e: "(2 :: nat) ^ (32 * m) = 2 ^ (30 * m) * 2 ^ (2 * m)" by (simp flip: power_add)
  have "M mod 2 ^ (32 * Suc m) = M div 2 ^ (32 * m) mod 2 ^ 32 * 2 ^ (32 * m) + M mod 2 ^ (32 * m)"
    using mod_mult2_eq [of M "2 ^ (32 * m)" "2 ^ 32"] by (simp add: power_add mult.commute)
  moreover have "M div 2 ^ (32 * m) = (t * 2 ^ 30 + l) div 2 ^ (2 * m)"
    unfolding e M div_mult2_eq using assms(1) by simp
  moreover have "M mod 2 ^ (32 * m) = (l * 2 ^ (30 * m) + r) mod 2 ^ (32 * m)"
  proof -
    have x: "30 * Suc m = (30 - 2 * m) + 32 * m" using assms(2) by simp
    have "t * 2 ^ (30 * Suc m) = (t * 2 ^ (30 - 2 * m)) * 2 ^ (32 * m)"
      unfolding x power_add by (simp add: mult.assoc)
    then have "M = (l * 2 ^ (30 * m) + r) + (t * 2 ^ (30 - 2 * m)) * 2 ^ (32 * m)"
      by (simp add: M_def)
    then show ?thesis by simp
  qed
  ultimately show ?thesis by (simp add: M_def)
qed

lemma write_loop_val:
  assumes "list_all (\<lambda>x. unat x < 2 ^ 30) v" "length v = 9" "i + m = 8"
  shows "be_val (write_bignum_loop [i..<8] temp v) =
      (unat temp * 2 ^ (30 * m) + bignum_val (take m v)) mod 2 ^ (32 * m) \<and>
    length (write_bignum_loop [i..<8] temp v) = 4 * m"
  using assms
proof (induction m arbitrary: i temp)
  case (Suc m)
  have i: "[i..<8] = i # [Suc i..<8]" "7 - i = m" "16 + 2 * i = 30 - 2 * m" "14 - 2 * i = 2 * m" "m < 8"
    using Suc.prems by (auto simp: upt_rec)
  have vm: "unat (v ! m) < 2 ^ 30" using Suc.prems by (simp add: list_all_length)
  have IH: "be_val (write_bignum_loop [Suc i..<8] (v ! m) v) =
      (unat (v ! m) * 2 ^ (30 * m) + bignum_val (take m v)) mod 2 ^ (32 * m) \<and>
    length (write_bignum_loop [Suc i..<8] (v ! m) v) = 4 * m"
    using Suc.prems by (intro Suc.IH) simp_all
  have tk: "bignum_val (take (Suc m) v) = bignum_val (take m v) + 2 ^ (30 * m) * unat (v ! m)"
    using Suc.prems by (simp add: take_Suc_conv_app_nth bignum_val_append)
  have "list_all (\<lambda>x. unat x < 2 ^ 30) (take m v)"
    using Suc.prems(1) by (auto simp: list_all_iff dest: in_set_takeD)
  then have r: "bignum_val (take m v) < 2 ^ (30 * m)"
    using bignum_val_bound [of "take m v"] Suc.prems by simp
  let ?t = "push_bit (30 - 2 * m) temp OR drop_bit (2 * m) (v ! m)"
  have "be_val (write_bignum_loop [i..<8] temp v) =
      unat ?t * 256 ^ (4 * m) + be_val (write_bignum_loop [Suc i..<8] (v ! m) v)"
    using IH unfolding i write_bignum_loop.simps Let_def be_val_append octets4_val by simp
  also have "\<dots> = (unat temp * 2 ^ (30 * Suc m) + bignum_val (take (Suc m) v)) mod 2 ^ (32 * Suc m)"
    unfolding write_step [OF _ vm, of "2 * m" temp] tk write_split [OF r i(5)] 
    using IH i(5) write_step [OF _ vm, of "2 * m" temp] by (simp add: power_mult)
  finally show ?case using IH by (simp add: i Let_def)
qed simp

theorem Buint8Buf2Uint64_value_witness:
  "unat (UtilityBuint8Buf2Uint64 [0xFF, 0, 0, 0, 0, 0, 0x12, 0x34]) = 0x7F00000000001234"
  using Buint8Buf2Uint64_value [of "[0xFF, 0, 0, 0, 0, 0, 0x12, 0x34]"] by simp

text \<open>
  The 256-bit number survives the 30-bit limbs: reading 32 big-endian bytes gives nine limbs below
  2 to the 30 whose value is that of the bytes, and writing the limbs gives the bytes back.
\<close>

theorem bignum_roundtrip:
  assumes "length n = 32"
  shows "limbs_ok (UtilityReadBigendToBignum n) \<and>
    bignum_val (UtilityReadBigendToBignum n) = be_val n \<and>
    UtilityWriteBignumToBigend (UtilityReadBigendToBignum n) = n"
proof -
  have up: "[0, 1, 2, 3, 4, 5, 6, 7] = [0..<8]" by (simp add: upt_rec)
  define v where "v = UtilityReadBigendToBignum n"
  have r: "read_bignum_loop [0..<8] 0 n = v" by (simp only: v_def UtilityReadBigendToBignum_def up)
  have v: "bignum_val v = be_val n" "limbs_ok v"
    using read_loop_val [OF assms, of 0 8 0, unfolded r] assms by simp_all
  then have l: "length v = 9" "list_all (\<lambda>x. unat x < 2 ^ 30) v" by (auto simp: limbs_ok_def)
  have W: "write_bignum_loop [0..<8] (v ! 8) v = UtilityWriteBignumToBigend v"
    by (simp only: UtilityWriteBignumToBigend_def up)
  note w = write_loop_val [OF l(2,1), of 0 8 "v ! 8", unfolded W]
  have "v = take 8 v @ [v ! 8]"
    using l(1) take_Suc_conv_app_nth [of 8 v] by simp
  then have "bignum_val v = bignum_val (take 8 v) + 2 ^ 240 * unat (v ! 8)"
    using bignum_val_append [of "take 8 v" "[v ! 8]"] l(1) by simp
  then have "be_val (UtilityWriteBignumToBigend v) = be_val n mod 2 ^ 256"
    using w by (simp add: v add.commute mult.commute)
  also have "\<dots> = be_val n" using be_val_bound [of n] assms by simp
  finally have "UtilityWriteBignumToBigend v = n"
    using w assms by (intro be_val_inj) simp_all
  then show ?thesis using v by (simp add: v_def)
qed

theorem bignum_roundtrip_witness:
  "UtilityWriteBignumToBigend (UtilityReadBigendToBignum (replicate 31 0xAB @ [7])) = replicate 31 0xAB @ [7]"
  using bignum_roundtrip [of "replicate 31 0xAB @ [7]"] by simp

lemma len_check_loop_iff: "len_check_loop n s = (if length s < n then 0 else BOAT_ERROR)"
  by (induction n s rule: len_check_loop.induct) auto

lemma not_hex_char_iff: "not_hex_char c \<longleftrightarrow> hex_half c = None"
  by (auto simp: not_hex_char_def hex_half_def word_le_nat_alt word_less_nat_alt)

lemma is_hex_loop_iff: "is_hex_loop n s \<longleftrightarrow> length s < n \<and> is_hex s"
  by (induction n s rule: is_hex_loop.induct) (auto simp: not_hex_char_iff)

text \<open>
  \<open>UtilityStringLenCheck\<close> accepts exactly the strings shorter than 4096 characters, and
  \<open>UtilityStringIsHex\<close> exactly those of them that are 0x or 0X followed by HEX digits.
\<close>

theorem string_checks:
  "(UtilityStringLenCheck s = 0 \<longleftrightarrow> length s < 4096) \<and>
   (UtilityStringIsHex (Some s) \<longleftrightarrow>
      (\<exists>d. (s = 48 # 120 # d \<or> s = 48 # 88 # d) \<and> length s < 4096 \<and> is_hex d))"
proof -
  have "UtilityStringIsHex (Some s) \<longleftrightarrow>
      (\<exists>d. (s = 48 # 120 # d \<or> s = 48 # 88 # d) \<and> length s < 4096 \<and> is_hex d)"
  proof (cases s)
    case (Cons a t)
    then show ?thesis
      by (cases t) (auto simp: UtilityStringIsHex_def is_hex_loop_iff BOAT_STRING_MAX_LEN_def)
  qed (simp add: UtilityStringIsHex_def)
  then show ?thesis
    by (simp add: UtilityStringLenCheck_def len_check_loop_iff BOAT_STRING_MAX_LEN_def)
qed

end
