(* ===== verification/Boat_Rlp.thy ===== *)
theory Boat_Rlp
  imports Boat_Utility
begin

text \<open>
  The RLP encoder of \<open>sdk/rlp/boatrlp.c\<close>, operation by operation, and the RLP encoding of the
  Ethereum yellow paper as the specification it is proved against, with a decoder.

  An RLP object is a value: a string object carries the bytes its \<open>string_ptr\<close> points to
  (possibly more than \<open>string_len\<close>), a list object its descriptors in order and the
  stream object of its last encoding. Objects form a tree, so an object that has been
  appended to a list is reached through that list only. \<open>BoatMalloc\<close> is the parameter \<open>mal\<close>, from
  the requested size to the fresh block or \<open>None\<close>; \<open>BoatFree\<close> calls are counted where a
  routine exists to free. A stream object that is passed as parent storage carries
  the memory from its \<open>stream_ptr\<close> to the end of the block.
\<close>

subsection \<open>Objects\<close>

record RlpEncodedStreamObject =
  stream_ptr :: "bytes option"
  stream_len :: u32

datatype RlpObject =
  RlpString (string_ptr: "bytes option") (string_len: u32)
| RlpList (list_descriptors_ptr: "RlpObject list option") (rlp_encoded_stream_object: RlpEncodedStreamObject)
| RlpUnknown int

definition MAX_RLP_LIST_DESC_NUM :: nat where
  "MAX_RLP_LIST_DESC_NUM = 15"

abbreviation RLP_STREAM_LEN_UNKNOWN :: u32 where
  "RLP_STREAM_LEN_UNKNOWN \<equiv> 0xFFFFFFFF"

definition RlpInitStringObject :: "bool \<Rightarrow> bytes option \<Rightarrow> u32 \<Rightarrow> RlpObject res" where
  "RlpInitStringObject object_ok p len =
     guardR (\<not> object_ok) BOAT_ERROR_COMMON_INVALID_ARGUMENT
    (guardR (p = None \<and> len \<noteq> 0) BOAT_ERROR_COMMON_INVALID_ARGUMENT
    (Inr (RlpString p len)))"

definition RlpInitListObject :: "bool \<Rightarrow> bool \<Rightarrow> RlpObject res" where
  "RlpInitListObject object_ok malloc_ok =
     guardR (\<not> object_ok) BOAT_ERROR_COMMON_INVALID_ARGUMENT
    (guardR (\<not> malloc_ok) BOAT_ERROR_COMMON_OUT_OF_MEMORY
    (Inr (RlpList (Some []) \<lparr>stream_ptr = None, stream_len = 0\<rparr>)))"

definition RlpCheckListDescriptorsCapacity :: "RlpObject list \<Rightarrow> bool" where
  "RlpCheckListDescriptorsCapacity ds \<longleftrightarrow> length ds < MAX_RLP_LIST_DESC_NUM"

text \<open>The checks both list operations make on the object that goes into the list.\<close>

fun check_from_object :: "int \<Rightarrow> RlpObject \<Rightarrow> unit res" where
  "check_from_object unknown_code (RlpString p len) =
     guardR (p = None \<and> len \<noteq> 0) BOAT_ERROR_COMMON_INVALID_ARGUMENT (Inr ())"
| "check_from_object unknown_code (RlpList ds st) =
     guardR (ds = None) BOAT_ERROR_COMMON_INVALID_ARGUMENT (Inr ())"
| "check_from_object unknown_code (RlpUnknown t) = Inl (Err unknown_code)"

definition RlpEncoderAppendObjectToList ::
  "RlpObject option \<Rightarrow> RlpObject option \<Rightarrow> (nat \<times> RlpObject) res" where
  "RlpEncoderAppendObjectToList to_list from =
     (case (to_list, from) of
        (Some (RlpList (Some ds) st), Some ob) \<Rightarrow>
          guardR (\<not> RlpCheckListDescriptorsCapacity ds) BOAT_ERROR_RLP_ENCODER_FAIL
          (bindR (check_from_object BOAT_ERROR_COMMON_INVALID_ARGUMENT ob) (\<lambda>_.
           Inr (length ds, RlpList (Some (ds @ [ob])) st)))
      | _ \<Rightarrow> Inl (Err BOAT_ERROR_COMMON_INVALID_ARGUMENT))"

definition RlpEncoderReplaceObjectInList ::
  "RlpObject option \<Rightarrow> int \<Rightarrow> RlpObject option \<Rightarrow> (int \<times> RlpObject) res" where
  "RlpEncoderReplaceObjectInList to_list replace_index from =
     guardR (replace_index < 0) BOAT_ERROR_COMMON_INVALID_ARGUMENT
     (case (to_list, from) of
        (Some (RlpList (Some ds) st), Some ob) \<Rightarrow>
          guardR (int (length ds) \<le> replace_index) BOAT_ERROR_RLP_ENCODER_FAIL
          (bindR (check_from_object BOAT_ERROR_RLP_ENCODER_FAIL ob) (\<lambda>_.
           Inr (replace_index, RlpList (Some (ds[nat replace_index := ob])) st)))
      | _ \<Rightarrow> Inl (Err BOAT_ERROR_COMMON_INVALID_ARGUMENT))"

definition RlpEncoderGetListDescriptor :: "RlpObject option \<Rightarrow> nat \<Rightarrow> RlpObject option" where
  "RlpEncoderGetListDescriptor ob descriptor_index =
     (case ob of
        Some (RlpList (Some ds) st) \<Rightarrow>
          if length ds \<le> descriptor_index then None else Some (ds ! descriptor_index)
      | _ \<Rightarrow> None)"

text \<open>Releasing: the object that is left and the number of \<open>BoatFree\<close> calls.\<close>

definition free_stream :: "RlpEncodedStreamObject \<Rightarrow> RlpEncodedStreamObject \<times> nat" where
  "free_stream st =
     (if stream_ptr st \<noteq> None then (\<lparr>stream_ptr = None, stream_len = 0\<rparr>, 1) else (st, 0))"

fun RlpRecursiveDeleteObject :: "RlpObject \<Rightarrow> RlpObject \<times> nat"
and delete_loop :: "RlpObject list \<Rightarrow> nat" where
  "RlpRecursiveDeleteObject (RlpList (Some ds) st) =
     (case free_stream st of (st', n) \<Rightarrow> (RlpList None st', n + delete_loop ds + 1))"
| "RlpRecursiveDeleteObject (RlpList None st) =
     (case free_stream st of (st', n) \<Rightarrow> (RlpList None st', n))"
| "RlpRecursiveDeleteObject (RlpString p len) = (RlpString p len, 0)"
| "RlpRecursiveDeleteObject (RlpUnknown t) = (RlpUnknown t, 0)"
| "delete_loop [] = 0"
| "delete_loop (d # ds) = snd (RlpRecursiveDeleteObject d) + delete_loop ds"

fun RlpRecursiveDeleteEncodedStream :: "RlpObject \<Rightarrow> RlpObject"
and delete_stream_loop :: "RlpObject list \<Rightarrow> RlpObject list" where
  "RlpRecursiveDeleteEncodedStream (RlpList (Some ds) st) =
     RlpList (Some (delete_stream_loop ds)) (fst (free_stream st))"
| "RlpRecursiveDeleteEncodedStream (RlpList None st) = RlpList None (fst (free_stream st))"
| "RlpRecursiveDeleteEncodedStream (RlpString p len) = RlpString p len"
| "RlpRecursiveDeleteEncodedStream (RlpUnknown t) = RlpUnknown t"
| "delete_stream_loop [] = []"
| "delete_stream_loop (d # ds) = RlpRecursiveDeleteEncodedStream d # delete_stream_loop ds"

subsection \<open>Size calculation\<close>

text \<open>
  \<open>hp\<close> tells whether \<open>rlp_head_size_ptr\<close> is given; the head size of the result is \<open>None\<close>
  when the routine does not write it. Additions wrap at 32 bits.
\<close>

definition first_byte :: "bytes option \<Rightarrow> u8 res" where
  "first_byte p = (case p of Some (b # bs) \<Rightarrow> Inr b | _ \<Rightarrow> Inl UB)"

definition single_byte_field :: "bytes option \<Rightarrow> u32 \<Rightarrow> bool res" where
  "single_byte_field p len =
     (if len = 1 then bindR (first_byte p) (\<lambda>b. Inr (b \<le> 0x7F)) else Inr False)"

definition head_out :: "bool \<Rightarrow> u8 \<Rightarrow> u8 option" where
  "head_out hp h = (if hp then Some h else None)"

definition sized :: "bool \<Rightarrow> u32 \<Rightarrow> u32 \<times> u8 option" where
  "sized hp field_len =
     (if field_len \<le> 55 then (1 + field_len, head_out hp 1)
      else let t = length (UtilityUint32ToBigend field_len TRIMBIN_LEFTTRIM)
           in (1 + of_nat t + field_len, head_out hp (1 + of_nat t)))"

fun RlpRecursiveCalcEncodingSize :: "bool \<Rightarrow> RlpObject \<Rightarrow> (u32 \<times> u8 option) res"
and calc_loop :: "u32 \<Rightarrow> RlpObject list \<Rightarrow> u32 res" where
  "RlpRecursiveCalcEncodingSize hp (RlpString p len) =
     (if p = None \<and> len \<noteq> 0 then Inr (RLP_STREAM_LEN_UNKNOWN, None)
      else bindR (single_byte_field p len) (\<lambda>single.
             Inr (if single then (1, head_out hp 0) else sized hp len)))"
| "RlpRecursiveCalcEncodingSize hp (RlpList None st) = Inr (RLP_STREAM_LEN_UNKNOWN, None)"
| "RlpRecursiveCalcEncodingSize hp (RlpList (Some ds) st) =
     bindR (calc_loop 0 ds) (\<lambda>sub_len.
       Inr (if sub_len = RLP_STREAM_LEN_UNKNOWN then (RLP_STREAM_LEN_UNKNOWN, None) else sized hp sub_len))"
| "RlpRecursiveCalcEncodingSize hp (RlpUnknown t) =
     (if hp then Inr (RLP_STREAM_LEN_UNKNOWN, Some 0) else Inl UB)"
| "calc_loop acc [] = Inr acc"
| "calc_loop acc (d # ds) =
     bindR (RlpRecursiveCalcEncodingSize False d) (\<lambda>(sub, _).
       if sub \<noteq> RLP_STREAM_LEN_UNKNOWN then calc_loop (acc + sub) ds else Inr RLP_STREAM_LEN_UNKNOWN)"

subsection \<open>Encoding\<close>

definition putS :: "nat \<Rightarrow> bytes \<Rightarrow> bytes \<Rightarrow> unit res \<times> bytes" where
  "putS off xs mem = (case buf_put mem off xs of Inl e \<Rightarrow> (Inl e, mem) | Inr m \<Rightarrow> (Inr (), m))"

definition string_field :: "bytes option \<Rightarrow> u32 \<Rightarrow> bytes res" where
  "string_field p len = (case p of None \<Rightarrow> Inl UB | Some bs \<Rightarrow> buf_get bs 0 (unat len))"

definition encode_string :: "bytes option \<Rightarrow> u32 \<Rightarrow> u32 \<Rightarrow> bytes \<Rightarrow> unit res \<times> bytes" where
  "encode_string p field_len tot =
     bindS (\<lambda>m. (single_byte_field p field_len, m)) (\<lambda>single.
       if single then bindS (\<lambda>m. (first_byte p, m)) (\<lambda>b. putS 0 [b])
       else if field_len \<le> 55 then
         bindS (putS 0 [0x80 + ucast field_len]) (\<lambda>_.
           if field_len \<noteq> 0
           then bindS (\<lambda>m. (string_field p field_len, m)) (\<lambda>field. putS 1 field)
           else (\<lambda>m. (Inr (), m)))
       else
         let t = UtilityUint32ToBigend field_len TRIMBIN_LEFTTRIM in
         bindS (putS 0 [0x80 + of_nat (length t) + 55]) (\<lambda>_.
         bindS (putS 1 t) (\<lambda>_.
         bindS (\<lambda>m. (string_field p field_len, m)) (\<lambda>field.
         bindS (putS (1 + length t) field) (\<lambda>_ m.
           (guardR (1 + of_nat (length t) + field_len \<noteq> tot) BOAT_ERROR_RLP_ENCODER_FAIL (Inr ()), m))))))"

definition fill_list_head :: "u32 \<Rightarrow> u8 \<Rightarrow> bytes \<Rightarrow> unit res \<times> bytes" where
  "fill_list_head tot head =
     (let f = tot - ucast head in
      if f \<le> 55 then putS 0 [0xC0 + ucast f]
      else let t = UtilityUint32ToBigend f TRIMBIN_LEFTTRIM in
           bindS (putS 0 [0xC0 + of_nat (length t) + 55]) (\<lambda>_. putS 1 t))"

text \<open>
  The tail of \<open>RlpEncode\<close>: with a parent storage the stream of a list object is released
  again, whatever the outcome.
\<close>

definition encode_cleanup :: "RlpEncodedStreamObject option \<Rightarrow> RlpObject \<Rightarrow> RlpObject" where
  "encode_cleanup parent ob =
     (case (parent, ob) of
        (Some _, RlpList ds st) \<Rightarrow> RlpList ds (fst (free_stream st))
      | _ \<Rightarrow> ob)"

definition parent_memory :: "RlpEncodedStreamObject option \<Rightarrow> bytes" where
  "parent_memory parent =
     (case parent of Some st \<Rightarrow> (case stream_ptr st of Some m \<Rightarrow> m | None \<Rightarrow> []) | None \<Rightarrow> [])"

text \<open>The checks before the object type is looked at: a size and a parent that can hold it.\<close>

definition encode_guard ::
  "RlpObject \<Rightarrow> RlpEncodedStreamObject option \<Rightarrow> (u32 \<times> u8 option) res" where
  "encode_guard ob parent =
     bindR (RlpRecursiveCalcEncodingSize True ob) (\<lambda>(tot, head).
       guardR (tot = RLP_STREAM_LEN_UNKNOWN) BOAT_ERROR_RLP_ENCODER_FAIL
      (guardR (case parent of None \<Rightarrow> False
               | Some st \<Rightarrow> stream_ptr st = None \<or> stream_len st < tot)
         BOAT_ERROR_COMMON_INVALID_ARGUMENT
         (Inr (tot, head))))"

text \<open>
  Once the descriptors have been encoded behind the head: write the head, and
  copy the whole stream to the parent. The result is the outcome, the list's own
  block and the parent's memory.
\<close>

definition finish_list ::
  "u32 \<Rightarrow> u8 \<Rightarrow> RlpEncodedStreamObject option \<Rightarrow> unit res \<Rightarrow> bytes \<Rightarrow> unit res \<times> bytes \<times> bytes" where
  "finish_list tot head parent r mem =
     (case bindS (\<lambda>m. (r, m)) (\<lambda>_. fill_list_head tot head) mem of
        (Inl e, mem') \<Rightarrow> (Inl e, mem', parent_memory parent)
      | (Inr _, mem') \<Rightarrow>
          (case parent of
             None \<Rightarrow> (Inr (), mem', [])
           | Some _ \<Rightarrow>
               (case buf_get mem' 0 (unat tot) of
                  Inl e \<Rightarrow> (Inl e, mem', parent_memory parent)
                | Inr s \<Rightarrow>
                    (case putS 0 s (parent_memory parent) of (r', pm) \<Rightarrow> (r', mem', pm)))))"

fun rlp_encode ::
  "(nat \<Rightarrow> bytes option) \<Rightarrow> RlpObject \<Rightarrow> RlpEncodedStreamObject option \<Rightarrow> unit res \<times> RlpObject \<times> bytes"
and encode_loop ::
  "(nat \<Rightarrow> bytes option) \<Rightarrow> RlpObject list \<Rightarrow> bytes \<Rightarrow> u32 \<Rightarrow> unit res \<times> RlpObject list \<times> bytes" where
  "rlp_encode mal (RlpString p len) parent =
     (case encode_guard (RlpString p len) parent of
        Inl e \<Rightarrow> (Inl e, RlpString p len, parent_memory parent)
      | Inr (tot, head) \<Rightarrow>
          (case parent of
             None \<Rightarrow> (Inl (Err BOAT_ERROR_COMMON_INVALID_ARGUMENT), RlpString p len, [])
           | Some _ \<Rightarrow>
               if p = None \<and> len \<noteq> 0
               then (Inl (Err BOAT_ERROR_COMMON_INVALID_ARGUMENT), RlpString p len, parent_memory parent)
               else (case encode_string p len tot (parent_memory parent) of
                       (r, pm) \<Rightarrow> (r, RlpString p len, pm))))"
| "rlp_encode mal (RlpList dso st) parent =
     (case encode_guard (RlpList dso st) parent of
        Inl e \<Rightarrow> (Inl e, encode_cleanup parent (RlpList dso st), parent_memory parent)
      | Inr (tot, None) \<Rightarrow> (Inl UB, RlpList dso st, parent_memory parent)
      | Inr (tot, Some head) \<Rightarrow>
          (case mal (unat tot) of
             None \<Rightarrow> (Inl (Err BOAT_ERROR_COMMON_OUT_OF_MEMORY),
                      encode_cleanup parent (RlpList dso (st\<lparr>stream_ptr := None\<rparr>)), parent_memory parent)
           | Some mem \<Rightarrow>
               (case dso of
                  None \<Rightarrow> (Inl (Err BOAT_ERROR_RLP_ENCODER_FAIL),
                           encode_cleanup parent (RlpList None \<lparr>stream_ptr = Some mem, stream_len = tot\<rparr>),
                           parent_memory parent)
                | Some ds \<Rightarrow>
                    (case encode_loop mal ds (drop (unat head) mem) (tot - ucast head) of
                       (r, ds', m) \<Rightarrow>
                         (case finish_list tot head parent r (take (unat head) mem @ m) of
                            (r', mem', pm) \<Rightarrow>
                              (r', encode_cleanup parent
                                     (RlpList (Some ds') \<lparr>stream_ptr = Some mem', stream_len = tot\<rparr>), pm))))))"
| "rlp_encode mal (RlpUnknown t) parent =
     (case encode_guard (RlpUnknown t) parent of
        Inl e \<Rightarrow> (Inl e, RlpUnknown t, parent_memory parent)
      | Inr _ \<Rightarrow> (Inl (Err BOAT_ERROR_COMMON_INVALID_ARGUMENT), RlpUnknown t, parent_memory parent))"
| "encode_loop mal [] mem len = (Inr (), [], mem)"
| "encode_loop mal (d # ds) mem len =
     (case RlpRecursiveCalcEncodingSize False d of
        Inl e \<Rightarrow> (Inl e, d # ds, mem)
      | Inr (sub, _) \<Rightarrow>
          if sub = RLP_STREAM_LEN_UNKNOWN then (Inl (Err BOAT_ERROR_RLP_ENCODER_FAIL), d # ds, mem)
          else
            (case rlp_encode mal d (Some \<lparr>stream_ptr = Some mem, stream_len = len\<rparr>) of
               (Inl UB, d', mem') \<Rightarrow> (Inl UB, d' # ds, mem')
             | (Inl (Err _), d', mem') \<Rightarrow> (Inl (Err BOAT_ERROR_RLP_ENCODER_FAIL), d' # ds, mem')
             | (Inr _, d', mem') \<Rightarrow>
                 if len < sub then (Inl (Err BOAT_ERROR_RLP_ENCODER_FAIL), d' # ds, mem')
                 else if length mem' < unat sub then (Inl UB, d' # ds, mem')
                 else (case encode_loop mal ds (drop (unat sub) mem') (len - sub) of
                         (r, ds', m) \<Rightarrow> (r, d' # ds', take (unat sub) mem' @ m))))"

text \<open>
  With a null object the entry check throws, and the cleanup then follows the null
  pointer when there is a parent storage.
\<close>

definition RlpEncode ::
  "(nat \<Rightarrow> bytes option) \<Rightarrow> RlpObject option \<Rightarrow> RlpEncodedStreamObject option \<Rightarrow>
     unit res \<times> RlpObject option \<times> bytes" where
  "RlpEncode mal ob parent =
     (case ob of
        None \<Rightarrow> (if parent = None then Inl (Err BOAT_ERROR_COMMON_INVALID_ARGUMENT) else Inl UB,
                 None, parent_memory parent)
      | Some x \<Rightarrow> (case rlp_encode mal x parent of (r, x', pm) \<Rightarrow> (r, Some x', pm)))"

definition RlpReEncode ::
  "(nat \<Rightarrow> bytes option) \<Rightarrow> RlpObject option \<Rightarrow> RlpEncodedStreamObject option \<Rightarrow>
     unit res \<times> RlpObject option \<times> bytes" where
  "RlpReEncode mal ob parent =
     (case ob of
        None \<Rightarrow> (Inl (Err BOAT_ERROR_COMMON_INVALID_ARGUMENT), None, parent_memory parent)
      | Some x \<Rightarrow> RlpEncode mal (Some (RlpRecursiveDeleteEncodedStream x)) parent)"

definition RlpGetEncodedStream :: "RlpObject option \<Rightarrow> RlpEncodedStreamObject option" where
  "RlpGetEncodedStream ob = (case ob of Some (RlpList ds st) \<Rightarrow> Some st | _ \<Rightarrow> None)"

subsection \<open>Reference notions\<close>

datatype rlp = Str bytes | Lst "rlp list"

fun be_min :: "nat \<Rightarrow> bytes" where
  "be_min n = (if n = 0 then [] else be_min (n div 256) @ [of_nat (n mod 256)])"

declare be_min.simps [simp del]

definition rlp_head :: "u8 \<Rightarrow> nat \<Rightarrow> bytes" where
  "rlp_head base n =
     (if n \<le> 55 then [base + of_nat n] else (base + of_nat (length (be_min n)) + 55) # be_min n)"

definition single :: "bytes \<Rightarrow> bool" where
  "single bs \<longleftrightarrow> length bs = 1 \<and> hd bs \<le> 0x7F"

fun rlp_enc :: "rlp \<Rightarrow> bytes" where
  "rlp_enc (Str bs) = (if single bs then bs else rlp_head 0x80 (length bs) @ bs)"
| "rlp_enc (Lst xs) = (let body = concat (map rlp_enc xs) in rlp_head 0xC0 (length body) @ body)"

fun rlp_of :: "RlpObject \<Rightarrow> rlp" where
  "rlp_of (RlpString p len) = Str (case p of None \<Rightarrow> [] | Some bs \<Rightarrow> take (unat len) bs)"
| "rlp_of (RlpList (Some ds) st) = Lst (map rlp_of ds)"
| "rlp_of (RlpList None st) = Lst []"
| "rlp_of (RlpUnknown t) = Str []"

fun rlp_ok :: "RlpObject \<Rightarrow> bool" where
  "rlp_ok (RlpString p len) = (case p of None \<Rightarrow> len = 0 | Some bs \<Rightarrow> unat len \<le> length bs)"
| "rlp_ok (RlpList (Some ds) st) = (length ds \<le> MAX_RLP_LIST_DESC_NUM \<and> list_all rlp_ok ds)"
| "rlp_ok (RlpList None st) = False"
| "rlp_ok (RlpUnknown t) = False"

abbreviation enc_of :: "RlpObject \<Rightarrow> bytes" where
  "enc_of ob \<equiv> rlp_enc (rlp_of ob)"

abbreviation encs_of :: "RlpObject list \<Rightarrow> bytes" where
  "encs_of ds \<equiv> concat (map enc_of ds)"

definition malloc_ok :: "(nat \<Rightarrow> bytes option) \<Rightarrow> bool" where
  "malloc_ok mal \<longleftrightarrow> (\<forall>n m. mal n = Some m \<longrightarrow> length m = n)"

text \<open>What an encoding into a parent storage of memory \<open>mem\<close> achieves, whether or not memory runs out.\<close>

definition encoded ::
  "(nat \<Rightarrow> bytes option) \<Rightarrow> bytes \<Rightarrow> bytes \<Rightarrow> unit res \<Rightarrow> bytes \<Rightarrow> bool" where
  "encoded mal e mem r pm \<longleftrightarrow>
     r \<noteq> Inl UB \<and> length pm = length mem \<and> (r = Inr () \<longrightarrow> pm = e @ drop (length e) mem) \<and>
     ((\<forall>n. mal n \<noteq> None) \<longrightarrow> r = Inr ())"

definition enc_spec :: "(nat \<Rightarrow> bytes option) \<Rightarrow> RlpObject \<Rightarrow> RlpEncodedStreamObject option \<Rightarrow> bytes \<Rightarrow> bool" where
  "enc_spec mal ob parent mem \<longleftrightarrow>
     (case rlp_encode mal ob parent of (r, ob', pm) \<Rightarrow>
        rlp_ok ob' \<and> rlp_of ob' = rlp_of ob \<and>
        (if parent = None
         then r \<noteq> Inl UB \<and> ((\<forall>n. mal n \<noteq> None) \<longrightarrow> r = Inr ()) \<and>
              (r = Inr () \<longrightarrow> RlpGetEncodedStream (Some ob') =
                 Some \<lparr>stream_ptr = Some (enc_of ob), stream_len = of_nat (length (enc_of ob))\<rparr>)
         else encoded mal (enc_of ob) mem r pm))"

definition parent_ok :: "RlpObject \<Rightarrow> RlpEncodedStreamObject option \<Rightarrow> bytes \<Rightarrow> bool" where
  "parent_ok ob parent mem \<longleftrightarrow>
     (case parent of
        None \<Rightarrow> mem = [] \<and> (\<exists>ds st. ob = RlpList ds st)
      | Some st \<Rightarrow> stream_ptr st = Some mem \<and> length (enc_of ob) \<le> unat (stream_len st) \<and>
          length (enc_of ob) \<le> length mem)"

definition loop_spec :: "(nat \<Rightarrow> bytes option) \<Rightarrow> RlpObject list \<Rightarrow> bytes \<Rightarrow> u32 \<Rightarrow> bool" where
  "loop_spec mal ds mem len \<longleftrightarrow>
     (case encode_loop mal ds mem len of (r, ds', m) \<Rightarrow>
        list_all rlp_ok ds' \<and> length ds' = length ds \<and> map rlp_of ds' = map rlp_of ds \<and>
        encoded mal (encs_of ds) mem r m)"

text \<open>A decoder for the specification; \<open>fuel\<close> bounds the nesting and the number of items.\<close>

definition rlp_item :: "bytes \<Rightarrow> (bool \<times> bytes \<times> bytes) option" where
  "rlp_item bs =
     (case bs of
        [] \<Rightarrow> None
      | b # r \<Rightarrow>
          let v = unat b in
          if v < 0x80 then Some (False, [b], r)
          else
            let base = (if v < 0xC0 then 0x80 else 0xC0);
                k = (if v \<le> base + 55 then 0 else v - base - 55);
                n = (if v \<le> base + 55 then v - base else be_val (take k r))
            in if k + n \<le> length r then Some (base = 0xC0, take n (drop k r), drop (k + n) r) else None)"

fun rlp_dec :: "nat \<Rightarrow> bytes \<Rightarrow> (rlp \<times> bytes) option"
and rlp_dec_list :: "nat \<Rightarrow> bytes \<Rightarrow> rlp list option" where
  "rlp_dec 0 bs = None"
| "rlp_dec (Suc fuel) bs =
     (case rlp_item bs of
        None \<Rightarrow> None
      | Some (False, field, r) \<Rightarrow> Some (Str field, r)
      | Some (True, body, r) \<Rightarrow>
          (case rlp_dec_list fuel body of None \<Rightarrow> None | Some xs \<Rightarrow> Some (Lst xs, r)))"
| "rlp_dec_list fuel [] = Some []"
| "rlp_dec_list 0 (b # bs) = None"
| "rlp_dec_list (Suc fuel) (b # bs) =
     (case rlp_dec fuel (b # bs) of
        None \<Rightarrow> None
      | Some (x, r) \<Rightarrow> (case rlp_dec_list fuel r of None \<Rightarrow> None | Some xs \<Rightarrow> Some (x # xs)))"

fun heap_blocks :: "RlpObject \<Rightarrow> nat" where
  "heap_blocks (RlpList dso st) =
     (if stream_ptr st \<noteq> None then 1 else 0) +
     (case dso of None \<Rightarrow> 0 | Some ds \<Rightarrow> 1 + sum_list (map heap_blocks ds))"
| "heap_blocks (RlpString p len) = 0"
| "heap_blocks (RlpUnknown t) = 0"

abbreviation sample_list :: RlpObject where
  "sample_list \<equiv> RlpList (Some [RlpString (Some [0x64, 0x6F, 0x67]) 3, RlpList (Some []) \<lparr>stream_ptr = None, stream_len = 0\<rparr>])
     \<lparr>stream_ptr = None, stream_len = 0\<rparr>"

subsection \<open>Correctness\<close>

lemma be_val_be_min: "be_val (be_min n) = n"
proof (induction n rule: be_min.induct)
  case (1 n)
  then show ?case
    by (cases "n = 0") (simp_all add: be_min.simps [of n] be_min.simps [of 0] be_val_append unat_of_nat)
qed

lemma be_min_hd: "0 < n \<Longrightarrow> be_min n \<noteq> [] \<and> hd (be_min n) \<noteq> 0"
proof (induction n rule: be_min.induct)
  case (1 n)
  show ?case
  proof (cases "n < 256")
    case True
    with 1 have "be_min n = [of_nat n]" by (simp add: be_min.simps [of n] be_min.simps [of 0])
    with 1 True show ?thesis by (simp add: word_unat_eq_iff unat_of_nat)
  next
    case False
    with 1 show ?thesis by (simp add: be_min.simps [of n])
  qed
qed

lemma be_trim_unique:
  assumes "be_val xs = be_val ys" "xs \<noteq> []" "hd xs \<noteq> 0" "ys \<noteq> []" "hd ys \<noteq> 0"
  shows "xs = ys"
proof -
  have shorter: "length bs \<le> length cs"
    if "be_val bs = be_val cs" "bs \<noteq> []" "hd bs \<noteq> 0" for bs cs
  proof (rule ccontr)
    assume "\<not> length bs \<le> length cs"
    then have "length cs \<le> length (tl bs)" using that by (cases bs) auto
    then have "256 ^ length cs \<le> (256 :: nat) ^ length (tl bs)" by (rule power_increasing) simp
    also have "\<dots> \<le> be_val bs" using that be_val_lower [of "hd bs" "tl bs"] by (cases bs) auto
    finally show False using be_val_bound [of cs] that by simp
  qed
  have "length xs = length ys"
    using shorter [of xs ys] shorter [of ys xs] assms by simp
  then show ?thesis using assms(1) by (rule be_val_inj)
qed

lemma trim0_hd: "trim0 bs \<noteq> [] \<Longrightarrow> hd (trim0 bs) \<noteq> 0"
  using dropWhile_hd_false [of "\<lambda>b. b = 0" bs] by (simp add: trim0_def)

lemma Uint32_be_min:
  assumes "x \<noteq> 0"
  shows "UtilityUint32ToBigend x TRIMBIN_LEFTTRIM = be_min (unat x)"
proof -
  let ?t = "trim0 (be_octets 4 x)"
  have v: "be_val ?t = unat x"
    using u32_bound [of x] by (simp add: trim0_def be_val_dropWhile be_val_octets)
  have x: "0 < unat x" using assms by (simp add: unat_gt_0)
  then have "?t \<noteq> []" using v by (metis be_val_Nil less_numeral_extra(3))
  then have "?t = be_min (unat x)"
    using v trim0_hd [of "be_octets 4 x"] be_min_hd [OF x] be_val_be_min
    by (intro be_trim_unique) simp_all
  then show ?thesis using \<open>?t \<noteq> []\<close> by (simp add: Uint32_eq)
qed

lemma length_be_min: "n < 4294967296 \<Longrightarrow> 0 < n \<Longrightarrow> length (be_min n) \<le> 4"
proof -
  assume n: "n < 4294967296" "0 < n"
  then have "UtilityUint32ToBigend (of_nat n) TRIMBIN_LEFTTRIM = be_min n"
    by (subst Uint32_be_min) (simp_all add: word_unat_eq_iff)
  moreover have "length (UtilityUint32ToBigend x TRIMBIN_LEFTTRIM) \<le> 4" for x
    using length_dropWhile_le [of "\<lambda>b. b = 0" "be_octets 4 x"] by (simp add: Uint32_eq trim0_def)
  ultimately show ?thesis by metis
qed

lemma length_rlp_head: "n < 4294967296 \<Longrightarrow> 1 \<le> length (rlp_head b n) \<and> length (rlp_head b n) \<le> 5"
  using length_be_min [of n] by (auto simp: rlp_head_def)

lemma rlp_head_length_base: "length (rlp_head b n) = length (rlp_head c n)"
  by (simp add: rlp_head_def)

lemma rlp_enc_nonempty: "rlp_enc x \<noteq> []"
  by (cases x) (auto simp: single_def rlp_head_def Let_def)

lemma of_nat_le_55: "n < 4294967296 \<Longrightarrow> (of_nat n :: u32) \<le> 55 \<longleftrightarrow> n \<le> 55"
  by (simp add: word_le_nat_alt)

lemma sized_head:
  assumes "n < 4294967296"
  shows "sized hp (of_nat n) =
    (of_nat (length (rlp_head b n) + n), head_out hp (of_nat (length (rlp_head b n))))"
  using assms
  by (auto simp: sized_def of_nat_le_55 rlp_head_def Let_def Uint32_be_min word_unat_eq_iff)

lemma field_of_string:
  assumes "rlp_ok (RlpString p len)"
  shows "length (case p of None \<Rightarrow> [] | Some bs \<Rightarrow> take (unat len) bs) = unat len"
    "single_byte_field p len = Inr (single (case p of None \<Rightarrow> [] | Some bs \<Rightarrow> take (unat len) bs))"
proof -
  show l: "length (case p of None \<Rightarrow> [] | Some bs \<Rightarrow> take (unat len) bs) = unat len"
    using assms by (auto split: option.splits)
  show "single_byte_field p len = Inr (single (case p of None \<Rightarrow> [] | Some bs \<Rightarrow> take (unat len) bs))"
  proof (cases "len = 1")
    case True
    with assms obtain b bs where "p = Some (b # bs)"
      by (cases p) (auto simp: Suc_le_length_iff)
    then show ?thesis using True by (simp add: single_byte_field_def first_byte_def single_def)
  next
    case False
    then have "unat len \<noteq> 1" by (simp add: word_unat_eq_iff)
    then show ?thesis using False l by (auto simp: single_byte_field_def single_def)
  qed
qed

lemma calc_size:
  "rlp_ok ob \<Longrightarrow> length (enc_of ob) < 4294967295 \<Longrightarrow>
     \<exists>h. RlpRecursiveCalcEncodingSize hp ob = Inr (of_nat (length (enc_of ob)), head_out hp h) \<and>
       (\<forall>ds st. ob = RlpList (Some ds) st \<longrightarrow> h = of_nat (length (rlp_head 0xC0 (length (encs_of ds)))))"
  "list_all rlp_ok ds \<Longrightarrow> unat acc + length (encs_of ds) < 4294967295 \<Longrightarrow>
     calc_loop acc ds = Inr (acc + of_nat (length (encs_of ds)))"
proof (induction hp ob and acc ds rule: RlpRecursiveCalcEncodingSize_calc_loop.induct)
  case (1 hp p len)
  let ?f = "case p of None \<Rightarrow> [] | Some bs \<Rightarrow> take (unat len) bs"
  note f = field_of_string [OF 1(1)]
  have "\<not> (p = None \<and> len \<noteq> 0)" using 1(1) by (cases p) auto
  moreover have "sized hp len = (of_nat (length (rlp_head 0x80 (length ?f)) + length ?f),
      head_out hp (of_nat (length (rlp_head 0x80 (length ?f)))))"
    using sized_head [of "unat len" hp "0x80"] u32_bound [of len] f(1) by simp
  ultimately show ?case using f by (auto simp: single_def)
next
  case (3 hp ds st)
  let ?b = "encs_of ds"
  have len: "length ?b < 4294967295" using 3(3) by (simp add: Let_def comp_def)
  then have "calc_loop 0 ds = Inr (of_nat (length ?b))" using 3 by simp
  moreover have "(of_nat (length ?b) :: u32) \<noteq> 0xFFFFFFFF" using len by (simp add: word_unat_eq_iff)
  ultimately show ?case
    using sized_head [of "length ?b" hp "0xC0"] len by (auto simp: Let_def comp_def)
next
  case (6 acc d ds)
  have d: "rlp_ok d" "length (enc_of d) < 4294967295" using 6(3,4) by auto
  from 6(1) [OF d] have c: "\<exists>h. RlpRecursiveCalcEncodingSize False d = Inr (of_nat (length (enc_of d)), h)"
    by auto
  have ne: "(of_nat (length (enc_of d)) :: u32) \<noteq> 0xFFFFFFFF" using d by (simp add: word_unat_eq_iff)
  have u: "unat (acc + of_nat (length (enc_of d))) = unat acc + length (enc_of d)"
    using 6(4) by (simp add: unat_plus_if')
  have "calc_loop (acc + of_nat (length (enc_of d))) ds = Inr (acc + of_nat (length (enc_of d)) + of_nat (length (encs_of ds)))"
    using c 6 u ne by auto
  then show ?case using c ne by (auto simp: add.assoc)
qed auto

lemma putS_at:
  "off = length pre \<Longrightarrow> length xs \<le> length mem \<Longrightarrow>
     putS off xs (pre @ mem) = (Inr (), pre @ xs @ drop (length xs) mem)"
  by (simp add: putS_def buf_put_def)

lemmas putS_0 = putS_at [of 0 "[]", simplified]

lemma bindS_const: "bindS (\<lambda>m. (Inr a, m)) f s = f a s"
  by (simp add: bindS_def)

lemma ucast_of_nat_u8: "(ucast (of_nat n :: u32) :: u8) = of_nat n"
proof -
  have "n mod 4294967296 mod 256 = n mod (256 :: nat)" by (rule mod_mod_cancel) simp
  then show ?thesis by (simp only: word_unat_eq_iff unat_ucast_u8 unat_of_nat) simp
qed

lemma encode_string_ok:
  assumes ok: "rlp_ok (RlpString p len)" and e: "e = enc_of (RlpString p len)"
    and tot: "tot = of_nat (length e)" and m: "length e \<le> length mem"
  shows "encode_string p len tot mem = (Inr (), e @ drop (length e) mem)"
proof -
  define f where "f = (case p of None \<Rightarrow> [] | Some bs \<Rightarrow> take (unat len) bs)"
  note fs = field_of_string [OF ok, folded f_def]
  have e': "e = (if single f then f else rlp_head 0x80 (length f) @ f)" by (simp add: e f_def)
  show ?thesis
  proof (cases "single f")
    case True
    then obtain b where b: "f = [b]" by (auto simp: single_def length_Suc_conv)
    then have "first_byte p = Inr b" using fs(1)
      by (cases p; cases "the p") (auto simp: f_def first_byte_def take_Cons' split: if_splits)
    then show ?thesis
      using True b m fs(2) by (simp add: encode_string_def bindS_const e' putS_0)
  next
    case False
    have sf: "len \<noteq> 0 \<Longrightarrow> string_field p len = Inr f"
      using ok by (auto simp: string_field_def f_def buf_get_def split: option.splits)
    have le: "len \<le> 55 \<longleftrightarrow> length f \<le> 55" using fs(1) by (simp add: word_le_nat_alt)
    show ?thesis
    proof (cases "length f \<le> 55")
      case True
      let ?h = "0x80 + of_nat (length f) :: u8"
      have e2: "e = ?h # f" using True False by (simp add: e' rlp_head_def)
      have 1: "putS 0 [?h] mem = (Inr (), [?h] @ drop 1 mem)" using putS_0 [of "[?h]" mem] m e2 by simp
      have 2: "putS 1 f ([?h] @ drop 1 mem) = (Inr (), [?h] @ f @ drop (length f) (drop 1 mem))"
        using m e2 by (intro putS_at) simp_all
      have h: "0x80 + ucast len = ?h"
        using ucast_of_nat_u8 [of "unat len"] by (simp add: fs(1))
      have l0: "len = 0 \<longleftrightarrow> f = []" using fs(1) by (auto simp: word_unat_eq_iff)
      show ?thesis
        unfolding encode_string_def h e2 using True False sf 1 2 fs(2) le l0
        by (auto simp: bindS_def drop_Suc)
    next
      case big: False
      let ?t = "be_min (length f)" 
      let ?h = "0x80 + of_nat (length ?t) + 55 :: u8"
      have len0: "len \<noteq> 0" using big fs(1) by auto
      have t: "UtilityUint32ToBigend len TRIMBIN_LEFTTRIM = ?t" using Uint32_be_min [OF len0] fs(1) by simp
      have e2: "e = ?h # ?t @ f" using big False by (simp add: e' rlp_head_def)
      have 1: "putS 0 [?h] mem = (Inr (), [?h] @ drop 1 mem)" using putS_0 [of "[?h]" mem] m e2 by simp
      have 2: "putS 1 ?t ([?h] @ drop 1 mem) = (Inr (), [?h] @ ?t @ drop (length ?t) (drop 1 mem))"
        using m e2 by (intro putS_at) simp_all
      have 3: "putS (1 + length ?t) f ([?h] @ ?t @ drop (length ?t) (drop 1 mem)) =
          (Inr (), ([?h] @ ?t) @ f @ drop (length f) (drop (length ?t) (drop 1 mem)))"
        using m e2 putS_at [of "1 + length ?t" "[?h] @ ?t" f "drop (length ?t) (drop 1 mem)"] by simp
      have c: "1 + of_nat (length ?t) + len = tot"
        by (simp add: tot e2 fs(1))
      show ?thesis
        using False big le sf [OF len0] fs c 1 2 3
        by (simp add: encode_string_def bindS_def t Let_def e2 add.commute)
    qed
  qed
qed

lemma fill_list_head_ok:
  assumes n: "n < 4294967295" and H: "H = rlp_head 0xC0 n" and tn: "length H + n < 4294967295"
    and pre: "length pre = length H"
  shows "fill_list_head (of_nat (length H + n)) (of_nat (length H)) (pre @ body) = (Inr (), H @ body)"
proof -
  have l: "length H \<le> 5" using n length_rlp_head [of n "0xC0"] by (simp add: H)
  then have "(ucast (of_nat (length H) :: u8) :: u32) = of_nat (length H)"
    by (simp add: word_unat_eq_iff unat_ucast_up unat_of_nat)
  then have f: "of_nat (length H + n) - ucast (of_nat (length H) :: u8) = (of_nat n :: u32)" by simp
  show ?thesis
  proof (cases "n \<le> 55")
    case True
    then show ?thesis
      unfolding fill_list_head_def f Let_def
      using n pre by (simp add: of_nat_le_55 ucast_of_nat_u8 H rlp_head_def putS_0)
  next
    case False
    let ?t = "be_min n"
    let ?h = "0xC0 + of_nat (length ?t) + 55 :: u8"
    have t: "UtilityUint32ToBigend (of_nat n) TRIMBIN_LEFTTRIM = ?t"
      using False n by (subst Uint32_be_min) (simp_all add: word_unat_eq_iff)
    have H2: "H = ?h # ?t" using False by (simp add: H rlp_head_def)
    obtain a pre' where p: "pre = a # pre'" "length pre' = length ?t" using pre H2 by (cases pre) auto
    have 1: "putS 0 [?h] (pre @ body) = (Inr (), [?h] @ pre' @ body)"
      using putS_0 [of "[?h]" "pre @ body"] p by simp
    have 2: "putS 1 ?t ([?h] @ pre' @ body) = (Inr (), [?h] @ ?t @ body)"
      using p by (subst putS_at) simp_all
    show ?thesis
      unfolding fill_list_head_def f Let_def t
      using n False 1 2 by (simp add: of_nat_le_55 bindS_def H2)
  qed
qed

lemma enc_of_list: "enc_of (RlpList (Some ds) st) = rlp_head 0xC0 (length (encs_of ds)) @ encs_of ds"
  by (simp add: Let_def comp_def)

lemma encode_guard_ok:
  assumes "rlp_ok ob" "length (enc_of ob) < 4294967295"
    "case parent of None \<Rightarrow> True | Some st \<Rightarrow> stream_ptr st \<noteq> None \<and> length (enc_of ob) \<le> unat (stream_len st)"
  shows "\<exists>h. encode_guard ob parent = Inr (of_nat (length (enc_of ob)), Some h) \<and>
     (\<forall>ds st. ob = RlpList (Some ds) st \<longrightarrow> h = of_nat (length (rlp_head 0xC0 (length (encs_of ds)))))"
proof -
  obtain h where h: "RlpRecursiveCalcEncodingSize True ob = Inr (of_nat (length (enc_of ob)), head_out True h)"
    "\<forall>ds st. ob = RlpList (Some ds) st \<longrightarrow> h = of_nat (length (rlp_head 0xC0 (length (encs_of ds))))"
    using calc_size(1) [OF assms(1,2), of True] by blast
  moreover have "(of_nat (length (enc_of ob)) :: u32) \<noteq> 0xFFFFFFFF"
    using assms(2) by (simp add: word_unat_eq_iff)
  ultimately show ?thesis
    using assms(2,3) by (auto simp: encode_guard_def head_out_def word_less_nat_alt split: option.splits)
qed

lemma encode_cleanup_keeps:
  "rlp_of (encode_cleanup parent ob) = rlp_of ob" "rlp_ok (encode_cleanup parent ob) = rlp_ok ob"
  by (cases ob; cases parent; cases "list_descriptors_ptr ob"; simp add: encode_cleanup_def)+

lemma finish_list_ok:
  assumes "n = length body" "H = rlp_head 0xC0 n" "length H + n < 4294967295"
    "encoded mal body m r m'" "length pre = length H" "length m = n"
    "(case parent of None \<Rightarrow> mem = [] | Some st \<Rightarrow> stream_ptr st = Some mem \<and> length H + n \<le> length mem)"
  shows "\<exists>r' s pm. finish_list (of_nat (length H + n)) (of_nat (length H)) parent r (pre @ m') = (r', s, pm) \<and>
     (parent \<noteq> None \<longrightarrow> encoded mal (H @ body) mem r' pm) \<and>
     r' \<noteq> Inl UB \<and> (r' = Inr () \<longrightarrow> s = H @ body) \<and> ((\<forall>n. mal n \<noteq> None) \<longrightarrow> r' = Inr ())"
proof (cases r)
  case (Inl e)
  then show ?thesis
    using assms by (auto simp: finish_list_def bindS_def encoded_def parent_memory_def split: option.splits)
next
  case (Inr u)
  then have m': "m' = body" using assms(1,4,6) by (simp add: encoded_def)
  have fill: "fill_list_head (of_nat (length H + n)) (of_nat (length H)) (pre @ m') = (Inr (), H @ body)"
    using fill_list_head_ok [OF _ assms(2,3,5)] assms(3) m' by simp
  have u: "unat (of_nat (length H + n) :: u32) = length H + n" using assms(3) by (intro unat_of_nat_u32) simp
  have get: "buf_get (H @ body) 0 (length H + n) = Inr (H @ body)"
    using assms(1) by (simp add: buf_get_def)
  have put: "length H + n \<le> length mem \<Longrightarrow> putS 0 (H @ body) mem = (Inr (), (H @ body) @ drop (length H + n) mem)"
    using assms(1) putS_0 [of "H @ body" mem] by simp
  show ?thesis
    unfolding finish_list_def u
    using assms(1,7) fill get put Inr
    by (auto simp: bindS_def encoded_def parent_memory_def split: option.splits)
qed

lemma parent_ok_guard: "parent_ok ob parent mem \<Longrightarrow>
    case parent of None \<Rightarrow> True | Some st \<Rightarrow> stream_ptr st \<noteq> None \<and> length (enc_of ob) \<le> unat (stream_len st)"
  by (auto simp: parent_ok_def split: option.splits)

lemma encode_string_spec:
  assumes ok: "rlp_ok (RlpString p len)" "length (enc_of (RlpString p len)) < 4294967295"
    "parent_ok (RlpString p len) parent mem"
  shows "enc_spec mal (RlpString p len) parent mem"
proof -
  obtain st where st: "parent = Some st" "stream_ptr st = Some mem"
      "length (enc_of (RlpString p len)) \<le> length mem"
    using ok(3) by (auto simp: parent_ok_def split: option.splits)
  obtain h where g: "encode_guard (RlpString p len) parent = Inr (of_nat (length (enc_of (RlpString p len))), Some h)"
    using encode_guard_ok [OF ok(1,2) parent_ok_guard [OF ok(3)]] by blast
  have "\<not> (p = None \<and> len \<noteq> 0)" using ok(1) by (cases p) auto
  then have "rlp_encode mal (RlpString p len) parent =
      (Inr (), RlpString p len, enc_of (RlpString p len) @ drop (length (enc_of (RlpString p len))) mem)"
    unfolding rlp_encode.simps g using st encode_string_ok [OF ok(1) refl refl st(3)]
    by (simp add: parent_memory_def)
  then show ?thesis
    using ok st by (simp add: enc_spec_def encoded_def del: rlp_encode.simps rlp_enc.simps rlp_of.simps rlp_ok.simps)
qed

lemma encode_list_spec:
  assumes mal: "malloc_ok mal" and ok: "rlp_ok (RlpList (Some ds) st)"
    "length (enc_of (RlpList (Some ds) st)) < 4294967295" "parent_ok (RlpList (Some ds) st) parent mem"
    and loop: "\<And>m len. length (encs_of ds) \<le> unat len \<Longrightarrow> length (encs_of ds) = length m \<Longrightarrow> loop_spec mal ds m len"
  shows "enc_spec mal (RlpList (Some ds) st) parent mem"
proof -
  let ?ob = "RlpList (Some ds) st"
  let ?n = "length (encs_of ds)"
  let ?H = "rlp_head 0xC0 ?n"
  have e: "enc_of ?ob = ?H @ encs_of ds" by (rule enc_of_list)
  then have le: "length (enc_of ?ob) = length ?H + ?n" by simp
  have n: "length ?H + ?n < 4294967295" using ok(2) unfolding le .
  have g: "encode_guard ?ob parent = Inr (of_nat (length ?H + ?n), Some (of_nat (length ?H)))"
    using encode_guard_ok [OF ok(1,2) parent_ok_guard [OF ok(3)]] le by auto
  have H5: "length ?H \<le> 5" using length_rlp_head [of ?n "0xC0"] n by simp
  then have uh: "unat (of_nat (length ?H) :: u8) = length ?H" by (simp add: unat_of_nat)
  have uc: "(ucast (of_nat (length ?H) :: u8) :: u32) = of_nat (length ?H)"
    using uh H5 by (simp add: word_unat_eq_iff unat_ucast_up)
  have ut: "unat (of_nat (length ?H + ?n) :: u32) = length ?H + ?n" using n by (intro unat_of_nat_u32) simp
  have sub: "of_nat (length ?H + ?n) - ucast (of_nat (length ?H) :: u8) = (of_nat ?n :: u32)"
    unfolding uc by simp
  show ?thesis
  proof (cases "mal (length ?H + ?n)")
    case None
    have R: "rlp_encode mal ?ob parent = (Inl (Err BOAT_ERROR_COMMON_OUT_OF_MEMORY),
        encode_cleanup parent (RlpList (Some ds) (st\<lparr>stream_ptr := None\<rparr>)), parent_memory parent)"
      unfolding rlp_encode.simps g by (simp only: sum.case prod.case option.case ut None)
    have "parent \<noteq> None \<Longrightarrow> parent_memory parent = mem"
      using ok(3) by (auto simp: parent_memory_def parent_ok_def)
    then show ?thesis
      unfolding enc_spec_def R prod.case encode_cleanup_keeps
      using ok(1) None by (auto simp: encoded_def)
  next
    case (Some blk)
    then have bl: "length blk = length ?H + ?n" using mal by (simp add: malloc_ok_def)
    have un: "unat (of_nat ?n :: u32) = ?n" using n by (intro unat_of_nat_u32) simp
    obtain r ds' m where L: "encode_loop mal ds (drop (length ?H) blk) (of_nat ?n) = (r, ds', m)"
      by (metis prod_cases3)
    then have ls: "list_all rlp_ok ds'" "length ds' = length ds" "map rlp_of ds' = map rlp_of ds"
        "encoded mal (encs_of ds) (drop (length ?H) blk) r m"
      using loop [of "of_nat ?n" "drop (length ?H) blk"] bl un by (simp_all add: loop_spec_def)
    have pm: "case parent of None \<Rightarrow> mem = [] | Some st \<Rightarrow> stream_ptr st = Some mem \<and> length ?H + ?n \<le> length mem"
      using ok(3) unfolding parent_ok_def le by (auto split: option.splits)
    have l: "length (take (length ?H) blk) = length ?H" "length (drop (length ?H) blk) = ?n"
      using bl by simp_all
    obtain r' s pm where F: "finish_list (of_nat (length ?H + ?n)) (of_nat (length ?H)) parent r (take (length ?H) blk @ m) = (r', s, pm)"
      and F': "parent \<noteq> None \<longrightarrow> encoded mal (?H @ encs_of ds) mem r' pm"
        "r' \<noteq> Inl UB" "r' = Inr () \<longrightarrow> s = ?H @ encs_of ds" "(\<forall>n. mal n \<noteq> None) \<longrightarrow> r' = Inr ()"
      using finish_list_ok [OF refl refl n ls(4) l pm] by blast
    have R: "rlp_encode mal ?ob parent = (r', encode_cleanup parent
        (RlpList (Some ds') \<lparr>stream_ptr = Some s, stream_len = of_nat (length ?H + ?n)\<rparr>), pm)"
      unfolding rlp_encode.simps g by (simp only: sum.case prod.case option.case ut Some uh sub L F)
    have keep: "rlp_ok (RlpList (Some ds') x)" "rlp_of (RlpList (Some ds') x) = rlp_of ?ob" for x
      using ok(1) ls(1-3) by simp_all
    show ?thesis
      unfolding enc_spec_def R prod.case encode_cleanup_keeps e
      using F' keep by (auto simp: RlpGetEncodedStream_def encode_cleanup_def simp del: rlp_ok.simps rlp_of.simps)
  qed
qed

lemma encoded_append:
  assumes "encoded mal e mem (Inr ()) m" "encoded mal es (drop (length e) m) r m'" "length e \<le> length mem"
  shows "encoded mal (e @ es) mem r (take (length e) m @ m')"
  using assms by (auto simp: encoded_def add.commute)

lemma encode_loop_spec:
  assumes ih: "\<And>d parent mem. d \<in> set ds \<Longrightarrow> length (enc_of d) < 4294967295 \<Longrightarrow> parent_ok d parent mem \<Longrightarrow>
      enc_spec mal d parent mem"
    and "list_all rlp_ok ds" "length (encs_of ds) < 4294967295" "length (encs_of ds) \<le> unat len"
    "length (encs_of ds) \<le> length mem"
  shows "loop_spec mal ds mem len"
  using assms
proof (induction ds arbitrary: mem len)
  case Nil
  then show ?case by (simp add: loop_spec_def encoded_def)
next
  case (Cons d ds)
  let ?e = "enc_of d"
  have d: "rlp_ok d" "length ?e < 4294967295" "length ?e \<le> unat len" "length ?e \<le> length mem"
    using Cons.prems(2-5) by auto
  obtain h where c: "RlpRecursiveCalcEncodingSize False d = Inr (of_nat (length ?e), h)"
    using calc_size(1) [OF d(1,2)] by blast
  have ne: "(of_nat (length ?e) :: u32) \<noteq> 0xFFFFFFFF" using d(2) by (simp add: word_unat_eq_iff)
  let ?par = "Some \<lparr>stream_ptr = Some mem, stream_len = len\<rparr>"
  obtain r d' m where R: "rlp_encode mal d ?par = (r, d', m)" by (metis prod_cases3)
  have "enc_spec mal d ?par mem"
    using Cons.prems(1) [of d ?par mem] d by (simp add: parent_ok_def)
  then have S: "rlp_ok d'" "rlp_of d' = rlp_of d" "encoded mal ?e mem r m"
    by (simp_all add: enc_spec_def R)
  show ?case
  proof (cases r)
    case (Inl f)
    with S(3) obtain code where "f = Err code" by (cases f) (auto simp: encoded_def)
    with Inl have "encode_loop mal (d # ds) mem len = (Inl (Err BOAT_ERROR_RLP_ENCODER_FAIL), d' # ds, m)"
      using c ne R by simp
    then show ?thesis
      using S Cons.prems(2) Inl by (simp add: loop_spec_def encoded_def)
  next
    case (Inr u)
    have ul: "unat (of_nat (length ?e) :: u32) = length ?e" using d(2) by (intro unat_of_nat_u32) simp
    have lm: "length m = length mem" using S(3) by (simp add: encoded_def)
    have sub: "\<not> len < of_nat (length ?e)" "unat (len - of_nat (length ?e)) = unat len - length ?e"
      using d(3) ul by (simp_all add: word_less_nat_alt unat_sub word_le_nat_alt)
    obtain r2 ds' m2 where L: "encode_loop mal ds (drop (length ?e) m) (len - of_nat (length ?e)) = (r2, ds', m2)"
      by (metis prod_cases3)
    have "loop_spec mal ds (drop (length ?e) m) (len - of_nat (length ?e))"
      using Cons.prems sub(2) lm by (intro Cons.IH) auto
    then have L': "list_all rlp_ok ds'" "length ds' = length ds" "map rlp_of ds' = map rlp_of ds"
        "encoded mal (encs_of ds) (drop (length ?e) m) r2 m2"
      by (simp_all add: loop_spec_def L)
    have E: "encode_loop mal (d # ds) mem len = (r2, d' # ds', take (length ?e) m @ m2)"
      using c ne R Inr sub(1) d(4) lm ul L by simp
    show ?thesis
      unfolding loop_spec_def E
      using S L' Inr encoded_append [OF _ L'(4), of mem] d(4) by simp
  qed
qed

lemma encs_of_bound: "d \<in> set ds \<Longrightarrow> length (enc_of d) \<le> length (encs_of ds)"
  by (induction ds) auto

lemma encode_correct:
  assumes mal: "malloc_ok mal"
  shows "rlp_ok ob \<Longrightarrow> length (enc_of ob) < 4294967295 \<Longrightarrow> parent_ok ob parent mem \<Longrightarrow> enc_spec mal ob parent mem"
proof (induction ob arbitrary: parent mem)
  case (RlpString p len)
  then show ?case by (rule encode_string_spec)
next
  case (RlpList dso st)
  then obtain ds where ds: "dso = Some ds" by (cases dso) auto
  have ok: "list_all rlp_ok ds" using RlpList.prems(1) by (simp add: ds)
  have n: "length (encs_of ds) < 4294967295"
    using RlpList.prems(2) unfolding ds enc_of_list by simp
  show ?case
    unfolding ds
  proof (rule encode_list_spec [OF mal])
    fix m len
    assume "length (encs_of ds) \<le> unat (len :: u32)" "length (encs_of ds) = length (m :: bytes)"
    then show "loop_spec mal ds m len"
      using RlpList.IH ok n by (intro encode_loop_spec) (auto simp: ds list_all_iff)
  qed (use RlpList.prems ds in auto)
qed simp

lemma rlp_item_head:
  assumes "length f < 4294967296" "b = 0x80 \<or> b = 0xC0"
  shows "rlp_item (rlp_head b (length f) @ f @ rest) = Some (b = 0xC0, f, rest)"
proof (cases "length f \<le> 55")
  case True
  have "unat (b + of_nat (length f)) = unat b + length f"
    using True assms(2) by (auto simp: unat_word_ariths unat_of_nat)
  then show ?thesis
    using True assms(2) by (elim disjE; simp add: rlp_item_def rlp_head_def Let_def)
next
  case False
  let ?t = "be_min (length f)"
  have "0 < length f" using False by linarith
  then have t: "length ?t \<le> 4" "0 < length ?t"
    using assms(1) length_be_min [of "length f"] be_min_hd [of "length f"] by simp_all
  have "unat (b + of_nat (length ?t) + 55) = unat b + length ?t + 55"
    using t assms(2) by (auto simp: unat_word_ariths unat_of_nat)
  then show ?thesis
    using False t assms(2) be_val_be_min [of "length f"]
    by (elim disjE; simp add: rlp_item_def rlp_head_def Let_def)
qed

lemma rlp_item_single: "single f \<Longrightarrow> rlp_item (f @ rest) = Some (False, f, rest)"
  by (cases f) (auto simp: single_def rlp_item_def Let_def word_le_nat_alt)

lemma rlp_dec_enc:
  "length (rlp_enc x) < 4294967296 \<Longrightarrow> 2 * length (rlp_enc x) \<le> fuel \<Longrightarrow> rlp_dec fuel (rlp_enc x @ rest) = Some (x, rest)"
proof (induction x arbitrary: fuel rest)
  case (Str f)
  then obtain k where k: "fuel = Suc k" using rlp_enc_nonempty [of "Str f"] by (cases fuel) auto
  show ?case
    using Str.prems rlp_item_head [of f "0x80" rest] rlp_item_single [of f rest]
    by (auto simp: k split: if_splits)
next
  case (Lst xs)
  have list: "rlp_dec_list k (concat (map rlp_enc ys)) = Some ys"
    if "set ys \<subseteq> set xs" "length (concat (map rlp_enc ys)) < 4294967296" "2 * length (concat (map rlp_enc ys)) + 1 \<le> k" for ys k
    using that
  proof (induction ys arbitrary: k)
    case (Cons y ys)
    then obtain j where j: "k = Suc j" by (cases k) auto
    obtain c cs where c: "rlp_enc y @ concat (map rlp_enc ys) = c # cs"
      using rlp_enc_nonempty [of y] by (cases "rlp_enc y") auto
    have "1 \<le> length (rlp_enc y)" using rlp_enc_nonempty [of y] by (cases "rlp_enc y") auto
    then have "rlp_dec j (rlp_enc y @ concat (map rlp_enc ys)) = Some (y, concat (map rlp_enc ys))"
      "rlp_dec_list j (concat (map rlp_enc ys)) = Some ys"
      using Cons Lst.IH [of y j "concat (map rlp_enc ys)"] j by auto
    then show ?case using c by (simp add: j)
  qed simp
  let ?body = "concat (map rlp_enc xs)"
  have e: "rlp_enc (Lst xs) = rlp_head 0xC0 (length ?body) @ ?body" by (simp add: Let_def)
  have b: "length ?body < 4294967296" using Lst.prems(1) unfolding e by simp
  have "1 \<le> length (rlp_head 0xC0 (length ?body))" using length_rlp_head [OF b] by blast
  then obtain k where k: "fuel = Suc k" "2 * length ?body + 1 \<le> k" using Lst.prems(2) unfolding e by (cases fuel) auto
  show ?case
    unfolding e k append_assoc rlp_dec.simps rlp_item_head [OF b disjI2 [OF refl]] using list [of xs k] b k by simp
qed

lemma delete_frees:
  "snd (RlpRecursiveDeleteObject ob) = heap_blocks ob \<and> heap_blocks (fst (RlpRecursiveDeleteObject ob)) = 0"
  "delete_loop ds = sum_list (map heap_blocks ds)"
  by (induction ob and ds rule: RlpRecursiveDeleteObject_delete_loop.induct)
    (auto simp: free_stream_def split: option.splits prod.splits)

lemma delete_stream_keeps:
  "rlp_ok (RlpRecursiveDeleteEncodedStream ob) = rlp_ok ob \<and> rlp_of (RlpRecursiveDeleteEncodedStream ob) = rlp_of ob"
  "list_all rlp_ok (delete_stream_loop ds) = list_all rlp_ok ds \<and> map rlp_of (delete_stream_loop ds) = map rlp_of ds \<and>
   length (delete_stream_loop ds) = length ds"
  by (induction ob and ds rule: RlpRecursiveDeleteEncodedStream_delete_stream_loop.induct) auto

text \<open>
  For every well-formed object whose encoding stays below the length code that marks an error, the size
  calculation returns the exact length of its RLP encoding, and in particular
  neither wraps at 32 bits nor reads outside a field.
\<close>

theorem calc_size_exact:
  assumes "rlp_ok ob" "length (rlp_enc (rlp_of ob)) < 4294967295"
  shows "\<exists>h. RlpRecursiveCalcEncodingSize True ob = Inr (of_nat (length (rlp_enc (rlp_of ob))), Some h)"
  using calc_size(1) [OF assms, of True] by (auto simp: head_out_def)

theorem calc_size_exact_witness:
  "\<exists>h. RlpRecursiveCalcEncodingSize True
      (RlpList (Some [RlpString (Some [1, 2, 3]) 2, RlpString None 0]) \<lparr>stream_ptr = None, stream_len = 0\<rparr>)
    = Inr (5, Some h)"
  using calc_size_exact [of "RlpList (Some [RlpString (Some [1, 2, 3]) 2, RlpString None 0]) \<lparr>stream_ptr = None, stream_len = 0\<rparr>"]
  by (simp add: MAX_RLP_LIST_DESC_NUM_def Let_def rlp_head_def single_def)

text \<open>
  C29: \<open>RlpEncode\<close> implements the RLP encoding: encoding a well-formed list object while memory is available
  succeeds, and the stream of the object is exactly the specified encoding of
  the tree, of the length recorded with it.
\<close>

theorem RlpEncode_refines_spec:
  assumes "malloc_ok mal" "\<forall>n. mal n \<noteq> None" "rlp_ok (RlpList ds st)"
    "length (rlp_enc (rlp_of (RlpList ds st))) < 4294967295"
  shows "\<exists>ob' pm. RlpEncode mal (Some (RlpList ds st)) None = (Inr (), Some ob', pm) \<and>
     rlp_of ob' = rlp_of (RlpList ds st) \<and>
     RlpGetEncodedStream (Some ob') =
       Some \<lparr>stream_ptr = Some (rlp_enc (rlp_of (RlpList ds st))),
             stream_len = of_nat (length (rlp_enc (rlp_of (RlpList ds st))))\<rparr>"
proof -
  have "enc_spec mal (RlpList ds st) None []"
    using assms by (intro encode_correct) (simp_all add: parent_ok_def)
  then show ?thesis
    using assms(2) by (auto simp: enc_spec_def RlpEncode_def simp del: rlp_encode.simps rlp_of.simps split: prod.splits)
qed

theorem RlpEncode_refines_spec_witness:
  "\<exists>ob' pm. RlpEncode (\<lambda>n. Some (replicate n 0)) (Some sample_list) None = (Inr (), Some ob', pm) \<and>
     RlpGetEncodedStream (Some ob') = Some \<lparr>stream_ptr = Some [0xC5, 0x83, 0x64, 0x6F, 0x67, 0xC0], stream_len = 6\<rparr>"
  using RlpEncode_refines_spec [of "\<lambda>n. Some (replicate n 0)"
      "list_descriptors_ptr sample_list" "rlp_encoded_stream_object sample_list"]
  by (auto simp: malloc_ok_def MAX_RLP_LIST_DESC_NUM_def Let_def rlp_head_def single_def)

text \<open>
  C31: The encoder is memory safe: whatever allocations fail on the way, encoding a well-formed list into its own stream, or a
  well-formed object into a parent storage whose stated length is really there, never accesses memory
  outside a block and leaves the tree as it was. A parent's memory keeps its size, and a success means that it starts with
  the encoding and is unchanged behind it; for a stream of its own, that the stream is exactly the encoding.
\<close>

theorem RlpEncode_memory_safe:
  assumes "malloc_ok mal" "rlp_ok ob" "length (rlp_enc (rlp_of ob)) < 4294967295"
    "case parent of
       None \<Rightarrow> mem = [] \<and> (\<exists>ds st. ob = RlpList ds st)
     | Some st \<Rightarrow> stream_ptr st = Some mem \<and> length (rlp_enc (rlp_of ob)) \<le> unat (stream_len st) \<and> length (rlp_enc (rlp_of ob)) \<le> length mem"
  shows "\<exists>r ob' pm. RlpEncode mal (Some ob) parent = (r, Some ob', pm) \<and> r \<noteq> Inl UB \<and> rlp_of ob' = rlp_of ob \<and>
     (if parent = None
      then r = Inr () \<longrightarrow> RlpGetEncodedStream (Some ob') =
        Some \<lparr>stream_ptr = Some (rlp_enc (rlp_of ob)), stream_len = of_nat (length (rlp_enc (rlp_of ob)))\<rparr>
      else length pm = length mem \<and> (r = Inr () \<longrightarrow> pm = rlp_enc (rlp_of ob) @ drop (length (rlp_enc (rlp_of ob))) mem))"
proof -
  have "enc_spec mal ob parent mem"
    using assms by (intro encode_correct) (simp_all add: parent_ok_def)
  moreover obtain r ob' pm where "rlp_encode mal ob parent = (r, ob', pm)" by (rule prod_cases3)
  ultimately show ?thesis
    by (cases parent) (simp_all add: enc_spec_def encoded_def RlpEncode_def del: rlp_encode.simps)
qed

theorem RlpEncode_memory_safe_witness:
  "(\<exists>r ob' pm. RlpEncode (\<lambda>n. None) (Some sample_list) (Some \<lparr>stream_ptr = Some (replicate 8 0), stream_len = 7\<rparr>) = (r, Some ob', pm) \<and>
     r \<noteq> Inl UB \<and> length pm = 8) \<and>
   (\<exists>r ob' pm. RlpEncode (\<lambda>n. None) (Some sample_list) None = (r, Some ob', pm) \<and> r \<noteq> Inl UB)"
  using RlpEncode_memory_safe [of "\<lambda>n. None" sample_list "replicate 8 0" "Some \<lparr>stream_ptr = Some (replicate 8 0), stream_len = 7\<rparr>"]
    RlpEncode_memory_safe [of "\<lambda>n. None" sample_list "[]" None]
  by (auto simp: malloc_ok_def MAX_RLP_LIST_DESC_NUM_def Let_def rlp_head_def single_def)

text \<open>
  C30: What \<open>RlpEncode\<close> writes can be read back: decoding the stream of an encoded list object gives the tree
  of its strings and lists, with nothing left over.
\<close>

theorem RlpEncode_decodes:
  assumes "malloc_ok mal" "\<forall>n. mal n \<noteq> None" "rlp_ok (RlpList ds st)"
    "length (rlp_enc (rlp_of (RlpList ds st))) < 4294967295"
  shows "\<exists>ob' pm s len. RlpEncode mal (Some (RlpList ds st)) None = (Inr (), Some ob', pm) \<and>
     RlpGetEncodedStream (Some ob') = Some \<lparr>stream_ptr = Some s, stream_len = len\<rparr> \<and> unat len = length s \<and>
     rlp_dec (2 * length s) s = Some (rlp_of (RlpList ds st), [])"
proof -
  let ?e = "rlp_enc (rlp_of (RlpList ds st))"
  have "enc_spec mal (RlpList ds st) None []"
    using assms by (intro encode_correct) (simp_all add: parent_ok_def)
  moreover have "rlp_dec (2 * length ?e) ?e = Some (rlp_of (RlpList ds st), [])"
    using rlp_dec_enc [of "rlp_of (RlpList ds st)" "2 * length ?e" "[]"] assms(4) by simp
  moreover have "unat (of_nat (length ?e) :: u32) = length ?e" using assms(4) by (intro unat_of_nat_u32) simp
  ultimately show ?thesis
    using assms(2) by (auto simp: enc_spec_def RlpEncode_def simp del: rlp_encode.simps rlp_of.simps split: prod.splits)
qed

theorem RlpEncode_decodes_witness:
  "\<exists>ob' pm s len. RlpEncode (\<lambda>n. Some (replicate n 7)) (Some sample_list) None = (Inr (), Some ob', pm) \<and>
     RlpGetEncodedStream (Some ob') = Some \<lparr>stream_ptr = Some s, stream_len = len\<rparr> \<and> unat len = length s \<and>
     rlp_dec (2 * length s) s = Some (Lst [Str [0x64, 0x6F, 0x67], Lst []], [])"
  using RlpEncode_decodes [of "\<lambda>n. Some (replicate n 7)"
      "list_descriptors_ptr sample_list" "rlp_encoded_stream_object sample_list"]
  by (simp add: malloc_ok_def MAX_RLP_LIST_DESC_NUM_def Let_def rlp_head_def single_def del: rlp_dec.simps)

text \<open>
  List building keeps objects well formed and never writes past the descriptor array: appending to a list succeeds
  exactly when it has fewer than 15 descriptors and the new object is acceptable, the object is then
  found at the returned index and all earlier ones where they were; a full
  list reports an encoder failure.
\<close>

theorem append_object:
  assumes "rlp_ok (RlpList (Some ds) st)" "rlp_ok ob"
  shows "RlpEncoderAppendObjectToList (Some (RlpList (Some ds) st)) (Some ob) =
       (if length ds < 15 then Inr (length ds, RlpList (Some (ds @ [ob])) st)
        else Inl (Err BOAT_ERROR_RLP_ENCODER_FAIL)) \<and>
     (length ds < 15 \<longrightarrow> rlp_ok (RlpList (Some (ds @ [ob])) st) \<and>
        (\<forall>i. RlpEncoderGetListDescriptor (Some (RlpList (Some (ds @ [ob])) st)) i =
           (if i = length ds then Some ob else RlpEncoderGetListDescriptor (Some (RlpList (Some ds) st)) i)))"
proof -
  have "check_from_object c ob = Inr ()" for c
    using assms(2) by (cases ob; cases "string_ptr ob"; cases "list_descriptors_ptr ob"; auto)
  then show ?thesis
    using assms
    by (auto simp: RlpEncoderAppendObjectToList_def RlpCheckListDescriptorsCapacity_def
        MAX_RLP_LIST_DESC_NUM_def RlpEncoderGetListDescriptor_def nth_append)
qed

theorem append_object_witness:
  "RlpEncoderAppendObjectToList (Some (RlpList (Some []) \<lparr>stream_ptr = None, stream_len = 0\<rparr>)) (Some (RlpString (Some [9]) 1)) =
     Inr (0, RlpList (Some [RlpString (Some [9]) 1]) \<lparr>stream_ptr = None, stream_len = 0\<rparr>)"
  using append_object [of "[]" "\<lparr>stream_ptr = None, stream_len = 0\<rparr>" "RlpString (Some [9]) 1"]
  by (simp add: MAX_RLP_LIST_DESC_NUM_def)

text \<open>
  \<open>RlpRecursiveDeleteObject\<close> releases every heap block reachable from an object, once: the number of blocks it
  frees is the number of streams and descriptor arrays in the tree, and none is left.
\<close>

theorem delete_releases_all:
  "snd (RlpRecursiveDeleteObject ob) = heap_blocks ob \<and> heap_blocks (fst (RlpRecursiveDeleteObject ob)) = 0"
  using delete_frees(1) by simp

end
