(* ===== verification/Boat_Json.thy ===== *)
theory Boat_Json
  imports Boat_Utility
begin

text \<open>
  A reference for the texts the SDK exchanges with nodes: JSON values, how they print, and a parser. The theory holds
  no code of the SDK; it says what a request text means, and the parser reads back what is printed.
\<close>

subsection \<open>Values, printing, parsing\<close>

text \<open>
  JSON values without escapes, their printed form with a chosen separator in arrays, and a parser that
  accepts white space before values and structural characters.
\<close>

datatype json = JStr bytes | JNum bytes | JArr "json list" | JObj "(bytes \<times> json) list"

definition quoted :: "bytes \<Rightarrow> bytes" where
  "quoted s = 34 # s @ [34]"

fun sep_list :: "bytes \<Rightarrow> bytes list \<Rightarrow> bytes" where
  "sep_list sep [] = []"
| "sep_list sep (x # xs) = x @ concat (map (\<lambda>y. sep @ y) xs)"

fun json_text :: "bytes \<Rightarrow> json \<Rightarrow> bytes" where
  "json_text sep (JStr s) = quoted s"
| "json_text sep (JNum d) = d"
| "json_text sep (JArr xs) = 91 # sep_list sep (map (json_text sep) xs) @ [93]"
| "json_text sep (JObj ms) = 123 # sep_list [44] (map (\<lambda>(k, v). quoted k @ 58 # json_text sep v) ms) @ [125]"

definition digit :: "u8 \<Rightarrow> bool" where
  "digit c \<longleftrightarrow> 48 \<le> c \<and> c \<le> 57"

definition plain :: "bytes \<Rightarrow> bool" where
  "plain s \<longleftrightarrow> list_all (\<lambda>c. c \<noteq> 34 \<and> c \<noteq> 92 \<and> 32 \<le> c) s"

definition number :: "bytes \<Rightarrow> bool" where
  "number s \<longleftrightarrow> s \<noteq> [] \<and> list_all digit s"

fun json_ok :: "json \<Rightarrow> bool" where
  "json_ok (JStr s) = plain s"
| "json_ok (JNum d) = number d"
| "json_ok (JArr xs) = list_all json_ok xs"
| "json_ok (JObj ms) = list_all (\<lambda>(k, v). plain k \<and> json_ok v) ms"

definition skip_ws :: "bytes \<Rightarrow> bytes" where
  "skip_ws s = dropWhile (\<lambda>c. c = 32 \<or> c = 9 \<or> c = 10 \<or> c = 13) s"

fun string_body :: "bytes \<Rightarrow> (bytes \<times> bytes) option" where
  "string_body [] = None"
| "string_body (c # cs) =
     (if c = 34 then Some ([], cs)
      else if c = 92 \<or> c < 32 then None
      else map_option (\<lambda>(s, r). (c # s, r)) (string_body cs))"

definition json_key :: "bytes \<Rightarrow> (bytes \<times> bytes) option" where
  "json_key s =
     (case skip_ws s of
        c # cs \<Rightarrow>
          if c = 34
          then (case string_body cs of
                  Some (k, r) \<Rightarrow> (case skip_ws r of d # ds \<Rightarrow> if d = 58 then Some (k, ds) else None | [] \<Rightarrow> None)
                | None \<Rightarrow> None)
          else None
      | [] \<Rightarrow> None)"

fun json_value :: "nat \<Rightarrow> bytes \<Rightarrow> (json \<times> bytes) option"
and json_elements :: "nat \<Rightarrow> bytes \<Rightarrow> (json list \<times> bytes) option"
and json_members :: "nat \<Rightarrow> bytes \<Rightarrow> ((bytes \<times> json) list \<times> bytes) option" where
  "json_value 0 s = None"
| "json_value (Suc n) s =
     (case skip_ws s of
        [] \<Rightarrow> None
      | c # cs \<Rightarrow>
          if c = 34 then map_option (\<lambda>(x, r). (JStr x, r)) (string_body cs)
          else if digit c then Some (JNum (takeWhile digit (c # cs)), dropWhile digit (c # cs))
          else if c = 91 then
            (case skip_ws cs of
               [] \<Rightarrow> None
             | d # ds \<Rightarrow>
                 if d = 93 then Some (JArr [], ds)
                 else (case json_value n cs of
                         None \<Rightarrow> None
                       | Some (x, r) \<Rightarrow> map_option (\<lambda>(xs, r'). (JArr (x # xs), r')) (json_elements n r)))
          else if c = 123 then
            (case skip_ws cs of
               [] \<Rightarrow> None
             | d # ds \<Rightarrow>
                 if d = 125 then Some (JObj [], ds)
                 else (case json_key cs of
                         None \<Rightarrow> None
                       | Some (k, r) \<Rightarrow>
                           (case json_value n r of
                              None \<Rightarrow> None
                            | Some (x, r') \<Rightarrow>
                                map_option (\<lambda>(ms, r''). (JObj ((k, x) # ms), r'')) (json_members n r'))))
          else None)"
| "json_elements 0 s = None"
| "json_elements (Suc n) s =
     (case skip_ws s of
        [] \<Rightarrow> None
      | c # cs \<Rightarrow>
          if c = 93 then Some ([], cs)
          else if c = 44 then
            (case json_value n cs of
               None \<Rightarrow> None
             | Some (x, r) \<Rightarrow> map_option (\<lambda>(xs, r'). (x # xs, r')) (json_elements n r))
          else None)"
| "json_members 0 s = None"
| "json_members (Suc n) s =
     (case skip_ws s of
        [] \<Rightarrow> None
      | c # cs \<Rightarrow>
          if c = 125 then Some ([], cs)
          else if c = 44 then
            (case json_key cs of
               None \<Rightarrow> None
             | Some (k, r) \<Rightarrow>
                 (case json_value n r of
                    None \<Rightarrow> None
                  | Some (x, r') \<Rightarrow> map_option (\<lambda>(ms, r''). ((k, x) # ms, r'')) (json_members n r')))
          else None)"

definition json_parse :: "bytes \<Rightarrow> json option" where
  "json_parse s =
     (case json_value (length s) s of
        Some (j, r) \<Rightarrow> if skip_ws r = [] then Some j else None
      | None \<Rightarrow> None)"

subsection \<open>Reading back\<close>

lemma skip_ws_Cons: "c \<noteq> 32 \<Longrightarrow> c \<noteq> 9 \<Longrightarrow> c \<noteq> 10 \<Longrightarrow> c \<noteq> 13 \<Longrightarrow> skip_ws (c # s) = c # s"
  by (simp add: skip_ws_def)

lemma skip_ws_simps [simp]:
  "skip_ws [] = []"
  "skip_ws (32 # s) = skip_ws s"
  "skip_ws (34 # s) = 34 # s"
  "skip_ws (44 # s) = 44 # s"
  "skip_ws (58 # s) = 58 # s"
  "skip_ws (91 # s) = 91 # s"
  "skip_ws (93 # s) = 93 # s"
  "skip_ws (123 # s) = 123 # s"
  "skip_ws (125 # s) = 125 # s"
  by (simp_all add: skip_ws_def)

lemma skip_ws_digit: "digit c \<Longrightarrow> skip_ws (c # s) = c # s"
  by (rule skip_ws_Cons) (auto simp: digit_def)

lemma digit_simps [simp]: "\<not> digit 34" "\<not> digit 44" "\<not> digit 91" "\<not> digit 93" "\<not> digit 123" "\<not> digit 125"
  by (simp_all add: digit_def)

lemma string_body_quoted: "plain s \<Longrightarrow> string_body (s @ 34 # r) = Some (s, r)"
  by (induction s) (auto simp: plain_def)

lemma json_key_quoted: "plain k \<Longrightarrow> json_key (quoted k @ 58 # r) = Some (k, r)"
  by (simp add: json_key_def quoted_def string_body_quoted)

lemma json_text_head:
  assumes "json_ok j"
  obtains c cs where "json_text sep j = c # cs" "skip_ws (c # cs @ r) = c # cs @ r" "c \<noteq> 93" "c \<noteq> 125" "c \<noteq> 44"
proof (cases j)
  case (JNum d)
  with assms obtain c cs where "d = c # cs" "digit c" by (cases d) (auto simp: number_def)
  with JNum that show ?thesis by (metis digit_simps(2,4,6) json_text.simps(2) skip_ws_digit)
qed (use that in \<open>auto simp: quoted_def\<close>)

lemma json_value_ws [simp]: "json_value n (32 # s) = json_value n s"
  by (cases n) simp_all

lemma takeWhile_digits:
  "list_all digit d \<Longrightarrow> r = [] \<or> \<not> digit (hd r) \<Longrightarrow> takeWhile digit (d @ r) = d \<and> dropWhile digit (d @ r) = r"
  by (induction d) (auto simp: takeWhile_eq_Nil_iff dropWhile_eq_self_iff)

lemma json_elements_text:
  assumes "\<And>y n r. y \<in> set ys \<Longrightarrow> json_ok y \<Longrightarrow> r = [] \<or> \<not> digit (hd r) \<Longrightarrow>
      length (json_text sep y @ r) \<le> n \<Longrightarrow> json_value n (json_text sep y @ r) = Some (y, r)"
    "list_all json_ok ys" "sep = [44] \<or> sep = [44, 32]"
    "length (concat (map (\<lambda>y. sep @ json_text sep y) ys) @ 93 # r) \<le> n"
  shows "json_elements n (concat (map (\<lambda>y. sep @ json_text sep y) ys) @ 93 # r) = Some (ys, r)"
  using assms
proof (induction ys arbitrary: n)
  case Nil
  then obtain k where "n = Suc k" by (cases n) auto
  then show ?case by simp
next
  case (Cons y ys)
  let ?r = "concat (map (\<lambda>y. sep @ json_text sep y) ys) @ 93 # r"
  obtain k where k: "n = Suc k" using Cons.prems by (cases n) auto
  have hd: "\<not> digit (hd ?r)" using Cons.prems(3) by (cases ys) auto
  have "json_value k (json_text sep y @ ?r) = Some (y, ?r)"
    using Cons.prems hd by (intro Cons.prems(1)) (auto simp: k)
  moreover have "json_elements k ?r = Some (ys, r)"
    using Cons.prems by (intro Cons.IH) (auto simp: k)
  ultimately show ?case using Cons.prems(3) by (auto simp: k)
qed

lemma json_members_text:
  assumes "\<And>k y n r. (k, y) \<in> set ms \<Longrightarrow> json_ok y \<Longrightarrow> r = [] \<or> \<not> digit (hd r) \<Longrightarrow>
      length (json_text sep y @ r) \<le> n \<Longrightarrow> json_value n (json_text sep y @ r) = Some (y, r)"
    "list_all (\<lambda>(k, v). plain k \<and> json_ok v) ms"
    "length (concat (map (\<lambda>(k, v). 44 # quoted k @ 58 # json_text sep v) ms) @ 125 # r) \<le> n"
  shows "json_members n (concat (map (\<lambda>(k, v). 44 # quoted k @ 58 # json_text sep v) ms) @ 125 # r) = Some (ms, r)"
  using assms
proof (induction ms arbitrary: n)
  case Nil
  then obtain k where "n = Suc k" by (cases n) auto
  then show ?case by simp
next
  case (Cons m ms)
  obtain key y where m: "m = (key, y)" by (cases m)
  let ?r = "concat (map (\<lambda>(k, v). 44 # quoted k @ 58 # json_text sep v) ms) @ 125 # r"
  obtain k where k: "n = Suc k" using Cons.prems by (cases n) auto
  have hd: "\<not> digit (hd ?r)" by (cases ms) auto
  have "json_value k (json_text sep y @ ?r) = Some (y, ?r)"
    using Cons.prems hd by (intro Cons.prems(1) [of key]) (auto simp: k m)
  moreover have "json_members k ?r = Some (ms, r)"
    using Cons.prems by (intro Cons.IH) (auto simp: k)
  ultimately show ?case using Cons.prems(2) by (auto simp: k m json_key_quoted)
qed

lemma append_singleton: "(@) [c] = (#) c"
  by (rule ext) simp

lemma json_value_text:
  "json_ok j \<Longrightarrow> sep = [44] \<or> sep = [44, 32] \<Longrightarrow> r = [] \<or> \<not> digit (hd r) \<Longrightarrow>
     length (json_text sep j @ r) \<le> n \<Longrightarrow> json_value n (json_text sep j @ r) = Some (j, r)"
proof (induction j arbitrary: n r)
  case (JStr s)
  then obtain k where "n = Suc k" by (cases n) (auto simp: quoted_def)
  then show ?case using JStr by (simp add: quoted_def string_body_quoted)
next
  case (JNum d)
  then obtain c cs where d: "d = c # cs" "digit c" by (cases d) (auto simp: number_def)
  with JNum obtain k where k: "n = Suc k" by (cases n) auto
  have "c \<noteq> 34" using d(2) by (auto simp: digit_def)
  then show ?case
    using takeWhile_digits [of d r] JNum.prems d skip_ws_digit [of c "cs @ r"] by (simp add: k number_def)
next
  case (JArr xs)
  then obtain k where k: "n = Suc k" by (cases n) auto
  show ?case
  proof (cases xs)
    case Nil
    then show ?thesis by (simp add: k)
  next
    case (Cons x ys)
    let ?r = "concat (map (\<lambda>y. sep @ json_text sep y) ys) @ 93 # r"
    have t: "json_text sep (JArr xs) @ r = 91 # json_text sep x @ ?r" using Cons by (simp add: comp_def)
    have ok: "json_ok x" using JArr.prems(1) Cons by simp
    obtain c cs where h: "json_text sep x = c # cs" "skip_ws (c # cs @ ?r) = c # cs @ ?r" "c \<noteq> 93"
      using json_text_head [OF ok, of sep ?r] by blast
    have n: "length (json_text sep x @ ?r) \<le> k" using JArr.prems(4) unfolding t k by simp
    have "\<not> digit (hd ?r)" using JArr.prems(2) by (cases ys) auto
    then have v: "json_value k (json_text sep x @ ?r) = Some (x, ?r)"
      using JArr Cons n by (intro JArr.IH) auto
    have e: "json_elements k ?r = Some (ys, r)"
      using JArr n Cons by (intro json_elements_text) auto
    show ?thesis
      using v e h Cons unfolding t k by simp
  qed
next
  case (JObj ms)
  then obtain k where k: "n = Suc k" by (cases n) auto
  show ?case
  proof (cases ms)
    case Nil
    then show ?thesis by (simp add: k)
  next
    case (Cons m ys)
    obtain key x where m: "m = (key, x)" by (cases m)
    have ih: "json_value n (json_text sep y @ r) = Some (y, r)"
      if "(k, y) \<in> set ms" "json_ok y" "r = [] \<or> \<not> digit (hd r)" "length (json_text sep y @ r) \<le> n" for k y n r
      using that JObj.prems(2) by (intro JObj.IH [of "(k, y)" y]) auto
    let ?r = "concat (map (\<lambda>(k, v). 44 # quoted k @ 58 # json_text sep v) ys) @ 125 # r"
    have c: "concat (map (\<lambda>y. [44] @ y) (map (\<lambda>(k, v). quoted k @ 58 # json_text sep v) ys)) =
        concat (map (\<lambda>(k, v). 44 # quoted k @ 58 # json_text sep v) ys)"
      by (induction ys) auto
    have t: "json_text sep (JObj ms) @ r = 123 # quoted key @ 58 # json_text sep x @ ?r"
      using Cons m c by (simp del: map_map add: append_singleton)
    have n: "length (json_text sep x @ ?r) \<le> k" using JObj.prems(4) unfolding t k by simp
    have "\<not> digit (hd ?r)" by (cases ys) auto
    then have v: "json_value k (json_text sep x @ ?r) = Some (x, ?r)"
      using JObj.prems(1) Cons n m by (intro ih [of key]) auto
    have ok: "list_all (\<lambda>(k, v). plain k \<and> json_ok v) ys" using JObj.prems(1) Cons by simp
    have "length ?r \<le> k" using n by simp
    then have e: "json_members k ?r = Some (ys, r)"
      using Cons by (intro json_members_text [OF ih ok]) auto
    have p: "plain key" using JObj.prems(1) Cons m by simp
    have q: "skip_ws (quoted key @ 58 # json_text sep x @ ?r) = quoted key @ 58 # json_text sep x @ ?r"
      by (simp add: quoted_def)
    show ?thesis
      using v e q Cons m json_key_quoted [OF p, of "json_text sep x @ ?r"]
      unfolding t k by (simp add: quoted_def)
  qed
qed

lemma json_parse_text:
  "json_ok j \<Longrightarrow> sep = [44] \<or> sep = [44, 32] \<Longrightarrow> json_parse (json_text sep j) = Some j"
  using json_value_text [of j sep "[]" "length (json_text sep j)"] by (simp add: json_parse_def)

end
