(* ===== verification/Boat_Web3.thy ===== *)
theory Boat_Web3
  imports Boat_Json Boat_Rlp
begin

text \<open>
  The JSON-RPC requests of \<open>sdk/protocol/common/web3intf/web3intf.c\<close>: every call of a node formats its parameters
  into the request buffer of the context, which grows until the text fits, and posts the text.

  The RPC port is the parameter \<open>rpc\<close>: what \<open>RpcRequestSet\<close> and \<open>RpcRequestSync\<close> answer may depend on a world \<open>'w\<close> that
  every call can change. A call returns the response text (\<open>None\<close> for a null response pointer) or the code that the
  C function stores through \<open>web3Result\<close> when it returns \<open>NULL\<close>, and the context and the world it leaves. Strings
  that the C functions receive as members of a parameter structure are C strings, not null.
\<close>

abbreviation BOAT_ERROR_WEB3_JSON_PARSE_FAIL :: int where "BOAT_ERROR_WEB3_JSON_PARSE_FAIL \<equiv> - 10700000"
abbreviation BOAT_ERROR_WEB3_JSON_GETOBJ_FAIL :: int where "BOAT_ERROR_WEB3_JSON_GETOBJ_FAIL \<equiv> - 10700001"
abbreviation BOAT_ERROR_JSON_OBJ_IS_NULL :: int where "BOAT_ERROR_JSON_OBJ_IS_NULL \<equiv> - 10700005"

subsection \<open>Buffers and formats\<close>

record BoatFieldVariable =
  field_ptr :: "bytes option"
  field_len :: u32

abbreviation WEB3_STRING_BUF_STEP_SIZE :: u32 where "WEB3_STRING_BUF_STEP_SIZE \<equiv> 1024"

definition BoatFieldVariable_malloc_size_expand ::
  "(nat \<Rightarrow> bytes option) \<Rightarrow> u32 \<Rightarrow> BoatFieldVariable \<Rightarrow> unit res \<times> BoatFieldVariable" where
  "BoatFieldVariable_malloc_size_expand mal step_size mem =
     (let n = field_len mem + step_size in
      case mal (unat n) of
        None \<Rightarrow> (Inl (Err BOAT_ERROR_COMMON_OUT_OF_MEMORY), \<lparr>field_ptr = None, field_len = 0\<rparr>)
      | Some m \<Rightarrow> (Inr (), \<lparr>field_ptr = Some m, field_len = n\<rparr>))"

text \<open>The conversions of \<open>snprintf\<close> that the code uses, \<open>%s\<close> and \<open>%u\<close>.\<close>

datatype fmt_arg = FmtS bytes | FmtU u32

definition dec_text :: "u32 \<Rightarrow> bytes" where
  "dec_text n = rev (itoa_digits 10 (unat n))"

definition chars :: "string \<Rightarrow> bytes" where
  "chars s = map of_char s"

fun c_format :: "string \<Rightarrow> fmt_arg list \<Rightarrow> bytes res" where
  "c_format [] args = Inr []"
| "c_format (c # cs) args =
     (if c \<noteq> CHR ''%'' then bindR (c_format cs args) (\<lambda>t. Inr (of_char c # t))
      else case (cs, args) of
             (d # ds, FmtS s # as) \<Rightarrow> if d = CHR ''s'' then bindR (c_format ds as) (\<lambda>t. Inr (s @ t)) else Inl UB
           | (d # ds, FmtU n # as) \<Rightarrow> if d = CHR ''u'' then bindR (c_format ds as) (\<lambda>t. Inr (dec_text n @ t)) else Inl UB
           | _ \<Rightarrow> Inl UB)"

text \<open>
  \<open>snprintf\<close> into a buffer: at most \<open>field_len - 1\<close> characters and the terminator, nothing when \<open>field_len\<close> is 0.
\<close>

definition snprintf_buf :: "bytes \<Rightarrow> BoatFieldVariable \<Rightarrow> BoatFieldVariable res" where
  "snprintf_buf t b =
     (if field_len b = 0 then Inr b
      else case field_ptr b of
             None \<Rightarrow> Inl UB
           | Some m \<Rightarrow> bindR (buf_put m 0 (take (unat (field_len b) - 1) t @ [0])) (\<lambda>m'. Inr (b\<lparr>field_ptr := Some m'\<rparr>)))"

text \<open>
  The \<open>do\<close> loop that formats until the text fits. The length of the text is the \<open>int\<close> that \<open>snprintf\<close> returns, which
  is not defined for texts of 2 GB and more.
\<close>

function format_loop ::
  "(nat \<Rightarrow> bytes option) \<Rightarrow> bytes \<Rightarrow> BoatFieldVariable \<Rightarrow> unit res \<times> BoatFieldVariable" where
  "format_loop mal t b =
     (if 2147483648 \<le> length t then (Inl UB, b)
      else case snprintf_buf t b of
        Inl e \<Rightarrow> (Inl e, b)
      | Inr b1 \<Rightarrow>
          if unat (field_len b) \<le> length t
          then (case BoatFieldVariable_malloc_size_expand mal WEB3_STRING_BUF_STEP_SIZE b1 of
                  (Inl _, b2) \<Rightarrow> (Inl (Err BOAT_ERROR_COMMON_OUT_OF_MEMORY), b2)
                | (Inr _, b2) \<Rightarrow> format_loop mal t b2)
          else (Inr (), b1))"
  by pat_completeness auto

lemma snprintf_len: "snprintf_buf t b = Inr b' \<Longrightarrow> field_len b' = field_len b"
  by (auto simp: snprintf_buf_def bindR_eq_Inr split: if_splits option.splits)

lemma unat_grow: "unat (n :: u32) < 2147483648 \<Longrightarrow> unat (n + 1024) = unat n + 1024"
  by (subst unat_plus_if') simp

termination format_loop
  by (relation "measure (\<lambda>(mal, t, b). Suc (length t) - unat (field_len b))")
    (auto simp: BoatFieldVariable_malloc_size_expand_def Let_def unat_grow dest!: snprintf_len split: option.splits)

declare format_loop.simps [simp del]

subsection \<open>The context and the post\<close>

record Web3IntfContext =
  web3_message_id :: u32
  web3_json_string_buf :: BoatFieldVariable
  web3_result_string_buf :: BoatFieldVariable

record 'w Rpc =
  request_set :: "bytes \<Rightarrow> 'w \<Rightarrow> int \<times> 'w"
  request_sync :: "bytes \<Rightarrow> 'w \<Rightarrow> (int \<times> bytes option) \<times> 'w"

text \<open>
  \<open>web3_init\<close>: the blocks for the context and the two buffers, the random identifier and the success of \<open>RpcInit\<close> are
  arguments. The context is not cleared: when a buffer cannot be allocated the cleanup reads
  the pointers that have not been set yet.
\<close>

definition web3_init ::
  "bool \<Rightarrow> bytes option \<Rightarrow> bytes option \<Rightarrow> u32 \<Rightarrow> bool \<Rightarrow> Web3IntfContext option res" where
  "web3_init context_ok json_mem result_mem random rpc_ok =
     (if \<not> context_ok then Inr None
      else case (json_mem, result_mem) of
        (Some j, Some r) \<Rightarrow>
          if \<not> rpc_ok then Inr None
          else Inr (Some \<lparr>web3_message_id = random,
                 web3_json_string_buf = \<lparr>field_ptr = Some j, field_len = WEB3_STRING_BUF_STEP_SIZE\<rparr>,
                 web3_result_string_buf = \<lparr>field_ptr = Some r, field_len = WEB3_STRING_BUF_STEP_SIZE\<rparr>\<rparr>)
      | _ \<Rightarrow> Inl UB)"

text \<open>\<open>web3_deinit\<close>: the number of blocks it frees.\<close>

definition web3_deinit :: "Web3IntfContext option \<Rightarrow> nat" where
  "web3_deinit ctx =
     (case ctx of
        None \<Rightarrow> 0
      | Some c \<Rightarrow> (if field_ptr (web3_json_string_buf c) \<noteq> None then 1 else 0) +
                  (if field_ptr (web3_result_string_buf c) \<noteq> None then 1 else 0) + 1)"

text \<open>What every request does once its text is known.\<close>

definition web3_post ::
  "'w Rpc \<Rightarrow> (nat \<Rightarrow> bytes option) \<Rightarrow> bytes res \<Rightarrow> bytes \<Rightarrow> Web3IntfContext \<Rightarrow> 'w \<Rightarrow>
     bytes option res \<times> Web3IntfContext \<times> 'w" where
  "web3_post rpc mal text url c w =
     (case text of
        Inl e \<Rightarrow> (Inl e, c, w)
      | Inr t \<Rightarrow>
          (case format_loop mal t (web3_json_string_buf c) of
             (Inl e, b) \<Rightarrow> (Inl e, c\<lparr>web3_json_string_buf := b\<rparr>, w)
           | (Inr _, b) \<Rightarrow>
               (case request_set rpc url w of
                  (code, w1) \<Rightarrow>
                    if code \<noteq> 0
                    then (Inl (Err BOAT_ERROR_COMMON_INVALID_ARGUMENT), c\<lparr>web3_json_string_buf := b\<rparr>, w1)
                    else
                      (case bindR (case field_ptr b of None \<Rightarrow> Inl UB | Some m \<Rightarrow> Inr m) (\<lambda>m. buf_get m 0 (length t)) of
                         Inl e \<Rightarrow> (Inl e, c\<lparr>web3_json_string_buf := b\<rparr>, w1)
                       | Inr request \<Rightarrow>
                           (case request_sync rpc request w1 of
                              ((code2, response), w2) \<Rightarrow>
                                (if code2 \<noteq> 0 then Inl (Err code2) else Inr response,
                                 c\<lparr>web3_json_string_buf := b\<rparr>, w2))))))"

text \<open>
  The frame all request functions share: the null checks around the new message identifier.
\<close>

definition web3_entry ::
  "'w Rpc \<Rightarrow> (nat \<Rightarrow> bytes option) \<Rightarrow> string \<Rightarrow> ('p \<Rightarrow> u32 \<Rightarrow> fmt_arg list) \<Rightarrow> Web3IntfContext option \<Rightarrow>
     bytes option \<Rightarrow> 'p option \<Rightarrow> 'w \<Rightarrow> bytes option res \<times> Web3IntfContext option \<times> 'w" where
  "web3_entry rpc mal fmt args ctx url param w =
     (case ctx of
        None \<Rightarrow> (Inl (Err BOAT_ERROR_COMMON_INVALID_ARGUMENT), None, w)
      | Some c0 \<Rightarrow>
          let c = c0\<lparr>web3_message_id := web3_message_id c0 + 1\<rparr> in
          (case (url, param) of
             (Some u, Some p) \<Rightarrow>
               (case web3_post rpc mal (c_format fmt (args p (web3_message_id c))) u c w of
                  (r, c', w') \<Rightarrow> (r, Some c', w'))
           | _ \<Rightarrow> (Inl (Err BOAT_ERROR_COMMON_INVALID_ARGUMENT), Some c, w)))"

subsection \<open>The requests\<close>

record Param_web3_getTransactionCount =
  gtc_method_name_str :: bytes
  gtc_address_str :: bytes
  gtc_block_num_str :: bytes

record Param_web3_getBalance =
  gb_method_name_str :: bytes
  gb_address_str :: bytes
  gb_block_num_str :: bytes

record Param_web3_sendRawTransaction =
  srt_method_name_str :: bytes
  srt_signedtx_str :: bytes

record Param_web3_getStorageAt =
  gsa_method_name_str :: bytes
  gsa_address_str :: bytes
  gsa_position_str :: bytes
  gsa_block_num_str :: bytes

record Param_web3_getTransactionReceipt =
  gtr_method_name_str :: bytes
  gtr_tx_hash_str :: bytes

record Param_web3_call =
  call_method_name_str :: bytes
  call_from :: bytes
  call_to :: bytes
  call_gas :: bytes
  call_gasPrice :: bytes
  call_data :: bytes
  call_block_num_str :: bytes

record Param_fiscobcos_call =
  fcall_groupid :: bytes
  fcall_from :: bytes
  fcall_to :: bytes
  fcall_value :: bytes
  fcall_data :: bytes

record Param_fiscobcos_sendRawTransaction =
  fsrt_groupid :: bytes
  fsrt_signedtx_str :: bytes

record Param_fiscobcos_getTransactionReceipt =
  fgtr_groupid :: bytes
  fgtr_tx_hash_str :: bytes

record Param_fiscobcos_getBlockNumber =
  fgbn_groupid :: bytes

record Param_quorun_fillTransaction =
  ft_method_name_str :: bytes
  ft_to :: bytes
  ft_data :: bytes
  ft_privateFor :: bytes

record Param_quorum_sendRawPrivateTransaction =
  srpt_method_name_str :: bytes
  srpt_signedtx_str :: bytes
  srpt_privatefor_str :: bytes

record Param_cita_call =
  ccall_from :: bytes
  ccall_to :: bytes
  ccall_data :: bytes

record Param_cita_sendRawTransaction =
  csrt_signedtx_str :: bytes

record Param_cita_getTransactionReceipt =
  cgtr_tx_hash_str :: bytes

definition web3_getTransactionCount ::
  \<open>'w Rpc \<Rightarrow> (nat \<Rightarrow> bytes option) \<Rightarrow> Web3IntfContext option \<Rightarrow> bytes option \<Rightarrow> Param_web3_getTransactionCount option \<Rightarrow> 'w \<Rightarrow>
     bytes option res \<times> Web3IntfContext option \<times> 'w\<close> where
  \<open>web3_getTransactionCount rpc mal ctx url param_ptr w =
     web3_entry rpc mal ''{"jsonrpc":"2.0","method":"%s","params":["%s","%s"],"id":%u}''
       (\<lambda>p i. [FmtS (gtc_method_name_str p), FmtS (gtc_address_str p), FmtS (gtc_block_num_str p), FmtU i]) ctx url param_ptr w\<close>

definition web3_gasPrice ::
  \<open>'w Rpc \<Rightarrow> (nat \<Rightarrow> bytes option) \<Rightarrow> Web3IntfContext option \<Rightarrow> bytes option \<Rightarrow> bytes \<Rightarrow> 'w \<Rightarrow>
     bytes option res \<times> Web3IntfContext option \<times> 'w\<close> where
  \<open>web3_gasPrice rpc mal ctx url method_name_str w =
     web3_entry rpc mal ''{"jsonrpc":"2.0","method":"%s","params":[],"id":%u}''
       (\<lambda>m i. [FmtS m, FmtU i]) ctx url (Some method_name_str) w\<close>

definition web3_getBalance ::
  \<open>'w Rpc \<Rightarrow> (nat \<Rightarrow> bytes option) \<Rightarrow> Web3IntfContext option \<Rightarrow> bytes option \<Rightarrow> Param_web3_getBalance option \<Rightarrow> 'w \<Rightarrow>
     bytes option res \<times> Web3IntfContext option \<times> 'w\<close> where
  \<open>web3_getBalance rpc mal ctx url param_ptr w =
     web3_entry rpc mal ''{"jsonrpc":"2.0","method":"%s","params":["%s","%s"],"id":%u}''
       (\<lambda>p i. [FmtS (gb_method_name_str p), FmtS (gb_address_str p), FmtS (gb_block_num_str p), FmtU i]) ctx url param_ptr w\<close>

definition web3_sendRawTransaction ::
  \<open>'w Rpc \<Rightarrow> (nat \<Rightarrow> bytes option) \<Rightarrow> Web3IntfContext option \<Rightarrow> bytes option \<Rightarrow> Param_web3_sendRawTransaction option \<Rightarrow> 'w \<Rightarrow>
     bytes option res \<times> Web3IntfContext option \<times> 'w\<close> where
  \<open>web3_sendRawTransaction rpc mal ctx url param_ptr w =
     web3_entry rpc mal ''{"jsonrpc":"2.0","method":"%s","params":["%s"],"id":%u}''
       (\<lambda>p i. [FmtS (srt_method_name_str p), FmtS (srt_signedtx_str p), FmtU i]) ctx url param_ptr w\<close>

definition web3_getStorageAt ::
  \<open>'w Rpc \<Rightarrow> (nat \<Rightarrow> bytes option) \<Rightarrow> Web3IntfContext option \<Rightarrow> bytes option \<Rightarrow> Param_web3_getStorageAt option \<Rightarrow> 'w \<Rightarrow>
     bytes option res \<times> Web3IntfContext option \<times> 'w\<close> where
  \<open>web3_getStorageAt rpc mal ctx url param_ptr w =
     web3_entry rpc mal ''{"jsonrpc":"2.0","method":"%s","params":["%s","%s","%s"],"id":%u}''
       (\<lambda>p i. [FmtS (gsa_method_name_str p), FmtS (gsa_address_str p), FmtS (gsa_position_str p), FmtS (gsa_block_num_str p), FmtU i]) ctx url param_ptr w\<close>

definition web3_getTransactionReceiptStatus ::
  \<open>'w Rpc \<Rightarrow> (nat \<Rightarrow> bytes option) \<Rightarrow> Web3IntfContext option \<Rightarrow> bytes option \<Rightarrow> Param_web3_getTransactionReceipt option \<Rightarrow> 'w \<Rightarrow>
     bytes option res \<times> Web3IntfContext option \<times> 'w\<close> where
  \<open>web3_getTransactionReceiptStatus rpc mal ctx url param_ptr w =
     web3_entry rpc mal ''{"jsonrpc":"2.0","method":"%s","params":["%s"],"id":%u}''
       (\<lambda>p i. [FmtS (gtr_method_name_str p), FmtS (gtr_tx_hash_str p), FmtU i]) ctx url param_ptr w\<close>

definition web3_call ::
  \<open>'w Rpc \<Rightarrow> (nat \<Rightarrow> bytes option) \<Rightarrow> Web3IntfContext option \<Rightarrow> bytes option \<Rightarrow> Param_web3_call option \<Rightarrow> 'w \<Rightarrow>
     bytes option res \<times> Web3IntfContext option \<times> 'w\<close> where
  \<open>web3_call rpc mal ctx url param_ptr w =
     web3_entry rpc mal ''{"jsonrpc":"2.0","method":"%s","params":[{"to":"%s","gas":"%s","gasPrice":"%s","data":"%s"},"%s"],"id":%u}''
       (\<lambda>p i. [FmtS (call_method_name_str p), FmtS (call_to p), FmtS (call_gas p), FmtS (call_gasPrice p), FmtS (call_data p), FmtS (call_block_num_str p), FmtU i]) ctx url param_ptr w\<close>

definition platon_web3_call ::
  \<open>'w Rpc \<Rightarrow> (nat \<Rightarrow> bytes option) \<Rightarrow> Web3IntfContext option \<Rightarrow> bytes option \<Rightarrow> Param_web3_call option \<Rightarrow> 'w \<Rightarrow>
     bytes option res \<times> Web3IntfContext option \<times> 'w\<close> where
  \<open>platon_web3_call rpc mal ctx url param_ptr w =
     web3_entry rpc mal ''{"jsonrpc":"2.0","method":"%s","params":[{"from":"%s","to":"%s","gas":"%s","gasPrice":"%s","data":"%s"},"%s"],"id":%u}''
       (\<lambda>p i. [FmtS (call_method_name_str p), FmtS (call_from p), FmtS (call_to p), FmtS (call_gas p), FmtS (call_gasPrice p), FmtS (call_data p), FmtS (call_block_num_str p), FmtU i]) ctx url param_ptr w\<close>

definition web3_fiscobcos_call ::
  \<open>'w Rpc \<Rightarrow> (nat \<Rightarrow> bytes option) \<Rightarrow> Web3IntfContext option \<Rightarrow> bytes option \<Rightarrow> Param_fiscobcos_call option \<Rightarrow> 'w \<Rightarrow>
     bytes option res \<times> Web3IntfContext option \<times> 'w\<close> where
  \<open>web3_fiscobcos_call rpc mal ctx url param_ptr w =
     web3_entry rpc mal ''{"jsonrpc":"2.0","method":"call","params":[%s,{"from":"%s","to":"%s","value":"%s","data":"%s"}],"id":%u}''
       (\<lambda>p i. [FmtS (fcall_groupid p), FmtS (fcall_from p), FmtS (fcall_to p), FmtS (fcall_value p), FmtS (fcall_data p), FmtU i]) ctx url param_ptr w\<close>

definition web3_fiscobcos_sendRawTransaction ::
  \<open>'w Rpc \<Rightarrow> (nat \<Rightarrow> bytes option) \<Rightarrow> Web3IntfContext option \<Rightarrow> bytes option \<Rightarrow> Param_fiscobcos_sendRawTransaction option \<Rightarrow> 'w \<Rightarrow>
     bytes option res \<times> Web3IntfContext option \<times> 'w\<close> where
  \<open>web3_fiscobcos_sendRawTransaction rpc mal ctx url param_ptr w =
     web3_entry rpc mal ''{"jsonrpc":"2.0","method":"sendRawTransaction","params":[%s,"%s"],"id":%u}''
       (\<lambda>p i. [FmtS (fsrt_groupid p), FmtS (fsrt_signedtx_str p), FmtU i]) ctx url param_ptr w\<close>

definition web3_fiscobcos_getTransactionReceiptStatus ::
  \<open>'w Rpc \<Rightarrow> (nat \<Rightarrow> bytes option) \<Rightarrow> Web3IntfContext option \<Rightarrow> bytes option \<Rightarrow> Param_fiscobcos_getTransactionReceipt option \<Rightarrow> 'w \<Rightarrow>
     bytes option res \<times> Web3IntfContext option \<times> 'w\<close> where
  \<open>web3_fiscobcos_getTransactionReceiptStatus rpc mal ctx url param_ptr w =
     web3_entry rpc mal ''{"jsonrpc":"2.0","method":"getTransactionReceipt","params":[%s,"%s"],"id":%u}''
       (\<lambda>p i. [FmtS (fgtr_groupid p), FmtS (fgtr_tx_hash_str p), FmtU i]) ctx url param_ptr w\<close>

definition web3_fiscobcos_getBlockNumber ::
  \<open>'w Rpc \<Rightarrow> (nat \<Rightarrow> bytes option) \<Rightarrow> Web3IntfContext option \<Rightarrow> bytes option \<Rightarrow> Param_fiscobcos_getBlockNumber option \<Rightarrow> 'w \<Rightarrow>
     bytes option res \<times> Web3IntfContext option \<times> 'w\<close> where
  \<open>web3_fiscobcos_getBlockNumber rpc mal ctx url param_ptr w =
     web3_entry rpc mal ''{"jsonrpc":"2.0","method":"getBlockNumber","params":[%s],"id":%u}''
       (\<lambda>p i. [FmtS (fgbn_groupid p), FmtU i]) ctx url param_ptr w\<close>

definition web3_fillTransaction ::
  \<open>'w Rpc \<Rightarrow> (nat \<Rightarrow> bytes option) \<Rightarrow> Web3IntfContext option \<Rightarrow> bytes option \<Rightarrow> Param_quorun_fillTransaction option \<Rightarrow> 'w \<Rightarrow>
     bytes option res \<times> Web3IntfContext option \<times> 'w\<close> where
  \<open>web3_fillTransaction rpc mal ctx url param_ptr w =
     web3_entry rpc mal ''{"jsonrpc":"2.0","method":"%s","params":[{"to":"%s","data":"%s","privateFor":["%s"]}],"id":%u}''
       (\<lambda>p i. [FmtS (ft_method_name_str p), FmtS (ft_to p), FmtS (ft_data p), FmtS (ft_privateFor p), FmtU i]) ctx url param_ptr w\<close>

definition web3_sendRawPrivateTransaction ::
  \<open>'w Rpc \<Rightarrow> (nat \<Rightarrow> bytes option) \<Rightarrow> Web3IntfContext option \<Rightarrow> bytes option \<Rightarrow> Param_quorum_sendRawPrivateTransaction option \<Rightarrow> 'w \<Rightarrow>
     bytes option res \<times> Web3IntfContext option \<times> 'w\<close> where
  \<open>web3_sendRawPrivateTransaction rpc mal ctx url param_ptr w =
     web3_entry rpc mal ''{"jsonrpc":"2.0","method":"%s","params":["%s", {"privateFor":["%s"]}],"id":%u}''
       (\<lambda>p i. [FmtS (srpt_method_name_str p), FmtS (srpt_signedtx_str p), FmtS (srpt_privatefor_str p), FmtU i]) ctx url param_ptr w\<close>

definition web3_cita_call ::
  \<open>'w Rpc \<Rightarrow> (nat \<Rightarrow> bytes option) \<Rightarrow> Web3IntfContext option \<Rightarrow> bytes option \<Rightarrow> Param_cita_call option \<Rightarrow> 'w \<Rightarrow>
     bytes option res \<times> Web3IntfContext option \<times> 'w\<close> where
  \<open>web3_cita_call rpc mal ctx url param_ptr w =
     web3_entry rpc mal ''{"jsonrpc":"2.0","method":"call","params":[{"from":"%s","to":"%s","data":"%s"}, "latest"],"id":%u}''
       (\<lambda>p i. [FmtS (ccall_from p), FmtS (ccall_to p), FmtS (ccall_data p), FmtU i]) ctx url param_ptr w\<close>

definition web3_cita_sendRawTransaction ::
  \<open>'w Rpc \<Rightarrow> (nat \<Rightarrow> bytes option) \<Rightarrow> Web3IntfContext option \<Rightarrow> bytes option \<Rightarrow> Param_cita_sendRawTransaction option \<Rightarrow> 'w \<Rightarrow>
     bytes option res \<times> Web3IntfContext option \<times> 'w\<close> where
  \<open>web3_cita_sendRawTransaction rpc mal ctx url param_ptr w =
     web3_entry rpc mal ''{"jsonrpc":"2.0","method":"sendRawTransaction","params":["%s"],"id":%u}''
       (\<lambda>p i. [FmtS (csrt_signedtx_str p), FmtU i]) ctx url param_ptr w\<close>

definition web3_cita_getTransactionReceiptStatus ::
  \<open>'w Rpc \<Rightarrow> (nat \<Rightarrow> bytes option) \<Rightarrow> Web3IntfContext option \<Rightarrow> bytes option \<Rightarrow> Param_cita_getTransactionReceipt option \<Rightarrow> 'w \<Rightarrow>
     bytes option res \<times> Web3IntfContext option \<times> 'w\<close> where
  \<open>web3_cita_getTransactionReceiptStatus rpc mal ctx url param_ptr w =
     web3_entry rpc mal ''{"jsonrpc":"2.0","method":"getTransactionReceipt","params":["%s"],"id":%u}''
       (\<lambda>p i. [FmtS (cgtr_tx_hash_str p), FmtU i]) ctx url param_ptr w\<close>

definition web3_cita_getBlockNumber ::
  \<open>'w Rpc \<Rightarrow> (nat \<Rightarrow> bytes option) \<Rightarrow> Web3IntfContext option \<Rightarrow> bytes option \<Rightarrow> 'w \<Rightarrow>
     bytes option res \<times> Web3IntfContext option \<times> 'w\<close> where
  \<open>web3_cita_getBlockNumber rpc mal ctx url w =
     web3_entry rpc mal ''{"jsonrpc":"2.0","method":"blockNumber","params":[],"id":%u}''
       (\<lambda>_ i. [FmtU i]) ctx url (Some ()) w\<close>

subsection \<open>Reference notions\<close>

text \<open>The calls of the interface, and the JSON-RPC request each of them is to make.\<close>

datatype web3_request =
  GetTransactionCount Param_web3_getTransactionCount
| GasPrice bytes
| GetBalance Param_web3_getBalance
| SendRawTransaction Param_web3_sendRawTransaction
| GetStorageAt Param_web3_getStorageAt
| GetTransactionReceipt Param_web3_getTransactionReceipt
| Call Param_web3_call
| PlatonCall Param_web3_call
| FiscobcosCall Param_fiscobcos_call
| FiscobcosSendRawTransaction Param_fiscobcos_sendRawTransaction
| FiscobcosGetTransactionReceipt Param_fiscobcos_getTransactionReceipt
| FiscobcosGetBlockNumber Param_fiscobcos_getBlockNumber
| FillTransaction Param_quorun_fillTransaction
| SendRawPrivateTransaction Param_quorum_sendRawPrivateTransaction
| CitaCall Param_cita_call
| CitaSendRawTransaction Param_cita_sendRawTransaction
| CitaGetTransactionReceipt Param_cita_getTransactionReceipt
| CitaGetBlockNumber

fun run_request ::
  "'w Rpc \<Rightarrow> (nat \<Rightarrow> bytes option) \<Rightarrow> web3_request \<Rightarrow> Web3IntfContext option \<Rightarrow> bytes option \<Rightarrow> 'w \<Rightarrow>
     bytes option res \<times> Web3IntfContext option \<times> 'w" where
  "run_request rpc mal (GetTransactionCount p) ctx url w = web3_getTransactionCount rpc mal ctx url (Some p) w"
| "run_request rpc mal (GasPrice p) ctx url w = web3_gasPrice rpc mal ctx url p w"
| "run_request rpc mal (GetBalance p) ctx url w = web3_getBalance rpc mal ctx url (Some p) w"
| "run_request rpc mal (SendRawTransaction p) ctx url w = web3_sendRawTransaction rpc mal ctx url (Some p) w"
| "run_request rpc mal (GetStorageAt p) ctx url w = web3_getStorageAt rpc mal ctx url (Some p) w"
| "run_request rpc mal (GetTransactionReceipt p) ctx url w = web3_getTransactionReceiptStatus rpc mal ctx url (Some p) w"
| "run_request rpc mal (Call p) ctx url w = web3_call rpc mal ctx url (Some p) w"
| "run_request rpc mal (PlatonCall p) ctx url w = platon_web3_call rpc mal ctx url (Some p) w"
| "run_request rpc mal (FiscobcosCall p) ctx url w = web3_fiscobcos_call rpc mal ctx url (Some p) w"
| "run_request rpc mal (FiscobcosSendRawTransaction p) ctx url w = web3_fiscobcos_sendRawTransaction rpc mal ctx url (Some p) w"
| "run_request rpc mal (FiscobcosGetTransactionReceipt p) ctx url w = web3_fiscobcos_getTransactionReceiptStatus rpc mal ctx url (Some p) w"
| "run_request rpc mal (FiscobcosGetBlockNumber p) ctx url w = web3_fiscobcos_getBlockNumber rpc mal ctx url (Some p) w"
| "run_request rpc mal (FillTransaction p) ctx url w = web3_fillTransaction rpc mal ctx url (Some p) w"
| "run_request rpc mal (SendRawPrivateTransaction p) ctx url w = web3_sendRawPrivateTransaction rpc mal ctx url (Some p) w"
| "run_request rpc mal (CitaCall p) ctx url w = web3_cita_call rpc mal ctx url (Some p) w"
| "run_request rpc mal (CitaSendRawTransaction p) ctx url w = web3_cita_sendRawTransaction rpc mal ctx url (Some p) w"
| "run_request rpc mal (CitaGetTransactionReceipt p) ctx url w = web3_cita_getTransactionReceiptStatus rpc mal ctx url (Some p) w"
| "run_request rpc mal CitaGetBlockNumber ctx url w = web3_cita_getBlockNumber rpc mal ctx url w"

fun request_parts :: "web3_request \<Rightarrow> bytes \<times> json" where
  "request_parts (GetTransactionCount p) = ((gtc_method_name_str p), JArr [JStr (gtc_address_str p), JStr (gtc_block_num_str p)])"
| "request_parts (GasPrice p) = (p, JArr [])"
| "request_parts (GetBalance p) = ((gb_method_name_str p), JArr [JStr (gb_address_str p), JStr (gb_block_num_str p)])"
| "request_parts (SendRawTransaction p) = ((srt_method_name_str p), JArr [JStr (srt_signedtx_str p)])"
| "request_parts (GetStorageAt p) = ((gsa_method_name_str p), JArr [JStr (gsa_address_str p), JStr (gsa_position_str p), JStr (gsa_block_num_str p)])"
| "request_parts (GetTransactionReceipt p) = ((gtr_method_name_str p), JArr [JStr (gtr_tx_hash_str p)])"
| "request_parts (Call p) = ((call_method_name_str p), JArr [JObj [(chars ''to'', JStr (call_to p)), (chars ''gas'', JStr (call_gas p)), (chars ''gasPrice'', JStr (call_gasPrice p)), (chars ''data'', JStr (call_data p))], JStr (call_block_num_str p)])"
| "request_parts (PlatonCall p) = ((call_method_name_str p), JArr [JObj [(chars ''from'', JStr (call_from p)), (chars ''to'', JStr (call_to p)), (chars ''gas'', JStr (call_gas p)), (chars ''gasPrice'', JStr (call_gasPrice p)), (chars ''data'', JStr (call_data p))], JStr (call_block_num_str p)])"
| "request_parts (FiscobcosCall p) = ((chars ''call''), JArr [JNum (fcall_groupid p), JObj [(chars ''from'', JStr (fcall_from p)), (chars ''to'', JStr (fcall_to p)), (chars ''value'', JStr (fcall_value p)), (chars ''data'', JStr (fcall_data p))]])"
| "request_parts (FiscobcosSendRawTransaction p) = ((chars ''sendRawTransaction''), JArr [JNum (fsrt_groupid p), JStr (fsrt_signedtx_str p)])"
| "request_parts (FiscobcosGetTransactionReceipt p) = ((chars ''getTransactionReceipt''), JArr [JNum (fgtr_groupid p), JStr (fgtr_tx_hash_str p)])"
| "request_parts (FiscobcosGetBlockNumber p) = ((chars ''getBlockNumber''), JArr [JNum (fgbn_groupid p)])"
| "request_parts (FillTransaction p) = ((ft_method_name_str p), JArr [JObj [(chars ''to'', JStr (ft_to p)), (chars ''data'', JStr (ft_data p)), (chars ''privateFor'', JArr [JStr (ft_privateFor p)])]])"
| "request_parts (SendRawPrivateTransaction p) = ((srpt_method_name_str p), JArr [JStr (srpt_signedtx_str p), JObj [(chars ''privateFor'', JArr [JStr (srpt_privatefor_str p)])]])"
| "request_parts (CitaCall p) = ((chars ''call''), JArr [JObj [(chars ''from'', JStr (ccall_from p)), (chars ''to'', JStr (ccall_to p)), (chars ''data'', JStr (ccall_data p))], JStr (chars ''latest'')])"
| "request_parts (CitaSendRawTransaction p) = ((chars ''sendRawTransaction''), JArr [JStr (csrt_signedtx_str p)])"
| "request_parts (CitaGetTransactionReceipt p) = ((chars ''getTransactionReceipt''), JArr [JStr (cgtr_tx_hash_str p)])"
| "request_parts CitaGetBlockNumber = ((chars ''blockNumber''), JArr [])"

definition request_json :: "web3_request \<Rightarrow> u32 \<Rightarrow> json" where
  "request_json q i =
     (case request_parts q of (method, params) \<Rightarrow>
        JObj [(chars ''jsonrpc'', JStr (chars ''2.0'')), (chars ''method'', JStr method),
              (chars ''params'', params), (chars ''id'', JNum (dec_text i))])"

definition request_sep :: "web3_request \<Rightarrow> bytes" where
  "request_sep q = (case q of SendRawPrivateTransaction p \<Rightarrow> [44, 32] | CitaCall p \<Rightarrow> [44, 32] | _ \<Rightarrow> [44])"

definition request_text :: "web3_request \<Rightarrow> u32 \<Rightarrow> bytes" where
  "request_text q i = json_text (request_sep q) (request_json q i)"

definition buf_sized :: "BoatFieldVariable \<Rightarrow> bool" where
  "buf_sized b \<longleftrightarrow> (case field_ptr b of None \<Rightarrow> field_len b = 0 | Some m \<Rightarrow> length m = unat (field_len b))"

definition request_ok :: "web3_request \<Rightarrow> bool" where
  "request_ok q \<longleftrightarrow> (case request_parts q of (method, params) \<Rightarrow> plain method \<and> json_ok params)"

abbreviation sample_context :: Web3IntfContext where
  "sample_context \<equiv> \<lparr>web3_message_id = 6, web3_json_string_buf = \<lparr>field_ptr = Some [0, 0, 0], field_len = 3\<rparr>,
     web3_result_string_buf = \<lparr>field_ptr = None, field_len = 0\<rparr>\<rparr>"

text \<open>The exchange with the node that a request comes down to.\<close>

definition exchange :: "'w Rpc \<Rightarrow> bytes \<Rightarrow> bytes \<Rightarrow> 'w \<Rightarrow> bytes option res \<times> 'w" where
  "exchange rpc url t w =
     (case request_set rpc url w of
        (code, w1) \<Rightarrow>
          if code \<noteq> 0 then (Inl (Err BOAT_ERROR_COMMON_INVALID_ARGUMENT), w1)
          else (case request_sync rpc t w1 of
                  ((code2, response), w2) \<Rightarrow> (if code2 \<noteq> 0 then Inl (Err code2) else Inr response, w2)))"

subsection \<open>Correctness\<close>

lemmas request_defs = web3_getTransactionCount_def web3_gasPrice_def web3_getBalance_def web3_sendRawTransaction_def web3_getStorageAt_def web3_getTransactionReceiptStatus_def web3_call_def platon_web3_call_def web3_fiscobcos_call_def web3_fiscobcos_sendRawTransaction_def web3_fiscobcos_getTransactionReceiptStatus_def web3_fiscobcos_getBlockNumber_def web3_fillTransaction_def web3_sendRawPrivateTransaction_def web3_cita_call_def web3_cita_sendRawTransaction_def web3_cita_getTransactionReceiptStatus_def web3_cita_getBlockNumber_def

lemma format_request:
  "run_request rpc mal q (Some c) (Some u) w =
     (case web3_post rpc mal (Inr (request_text q (web3_message_id c + 1))) u (c\<lparr>web3_message_id := web3_message_id c + 1\<rparr>) w of
        (r, c', w') \<Rightarrow> (r, Some c', w'))"
  by (cases q)
    (simp_all add: request_defs web3_entry_def Let_def request_text_def request_json_def request_sep_def quoted_def chars_def)

text \<open>What the formatting loop leaves: the text with its terminator, or an empty buffer.\<close>

definition formatted ::
  "(nat \<Rightarrow> bytes option) \<Rightarrow> bytes \<Rightarrow> BoatFieldVariable \<Rightarrow> unit res \<Rightarrow> BoatFieldVariable \<Rightarrow> bool" where
  "formatted mal t b r b' \<longleftrightarrow> buf_sized b' \<and>
     (case r of
        Inl e \<Rightarrow> e = Err BOAT_ERROR_COMMON_OUT_OF_MEMORY \<and> b' = \<lparr>field_ptr = None, field_len = 0\<rparr> \<and> (\<exists>n. mal n = None)
      | Inr _ \<Rightarrow> length t < unat (field_len b') \<and>
          (field_len b' = field_len b \<or> unat (field_len b') \<le> length t + 1024) \<and>
          (\<exists>m. field_ptr b' = Some m \<and> take (Suc (length t)) m = t @ [0]))"

lemma snprintf_sized:
  assumes "buf_sized b"
  obtains b' where "snprintf_buf t b = Inr b'" "buf_sized b'" "field_len b' = field_len b"
    "length t < unat (field_len b) \<Longrightarrow> \<exists>m. field_ptr b' = Some m \<and> take (Suc (length t)) m = t @ [0]"
proof (cases "field_len b = 0")
  case True
  with that assms show ?thesis by (simp add: snprintf_buf_def)
next
  case False
  with assms obtain m where m: "field_ptr b = Some m" "length m = unat (field_len b)"
    by (auto simp: buf_sized_def split: option.splits)
  have pos: "0 < unat (field_len b)" using False by (simp add: unat_gt_0)
  let ?x = "take (unat (field_len b) - 1) t @ [0]"
  have put: "buf_put m 0 ?x = Inr (?x @ drop (length ?x) m)"
    using m pos by (subst buf_put_ok) auto
  show ?thesis
  proof (rule that)
    show "snprintf_buf t b = Inr (b\<lparr>field_ptr := Some (?x @ drop (length ?x) m)\<rparr>)"
      using False by (simp only: snprintf_buf_def put m(1) if_False option.case bindR_simps)
    show "buf_sized (b\<lparr>field_ptr := Some (?x @ drop (length ?x) m)\<rparr>)"
      using m pos by (auto simp: buf_sized_def)
  qed simp_all
qed

lemma format_loop_spec:
  "malloc_ok mal \<Longrightarrow> length t < 2147483648 \<Longrightarrow> buf_sized b \<Longrightarrow>
     (case format_loop mal t b of (r, b') \<Rightarrow> formatted mal t b r b')"
proof (induction mal t b rule: format_loop.induct)
  case (1 mal t b)
  obtain b1 where b1: "snprintf_buf t b = Inr b1" "buf_sized b1" "field_len b1 = field_len b"
    "length t < unat (field_len b) \<Longrightarrow> \<exists>m. field_ptr b1 = Some m \<and> take (Suc (length t)) m = t @ [0]"
    using snprintf_sized [OF 1(4), of t] by metis
  show ?case
  proof (cases "unat (field_len b) \<le> length t")
    case False
    then show ?thesis
      using 1(3) b1 by (subst format_loop.simps) (auto simp: formatted_def)
  next
    case True
    then have n: "unat (field_len b + 1024) = unat (field_len b) + 1024" using 1(3) by (intro unat_grow) simp
    show ?thesis
    proof (cases "mal (unat (field_len b + 1024))")
      case None
      then have "format_loop mal t b = (Inl (Err BOAT_ERROR_COMMON_OUT_OF_MEMORY), \<lparr>field_ptr = None, field_len = 0\<rparr>)"
        using 1(3) b1 True
        by (subst format_loop.simps) (simp add: BoatFieldVariable_malloc_size_expand_def Let_def)
      then show ?thesis using None by (auto simp: formatted_def buf_sized_def)
    next
      case (Some m)
      let ?b2 = "\<lparr>field_ptr = Some m, field_len = field_len b + 1024\<rparr>"
      have e: "BoatFieldVariable_malloc_size_expand mal WEB3_STRING_BUF_STEP_SIZE b1 = (Inr (), ?b2)"
        using Some b1(3) by (simp add: BoatFieldVariable_malloc_size_expand_def Let_def)
      have l: "format_loop mal t b = format_loop mal t ?b2"
        using 1(3) b1 True e by (subst format_loop.simps) simp
      have "buf_sized ?b2" using Some 1(2) by (simp add: buf_sized_def malloc_ok_def)
      then have "case format_loop mal t ?b2 of (r, b') \<Rightarrow> formatted mal t ?b2 r b'"
        using 1(1) [OF _ b1(1) True e [symmetric] refl] 1(2,3) by simp
      then show ?thesis
        unfolding l using True n
        by (auto simp: formatted_def split: sum.splits prod.splits)
    qed
  qed
qed

lemma web3_post_spec:
  assumes "malloc_ok mal" "length t < 2147483648" "buf_sized (web3_json_string_buf c)"
  obtains (posted) b where "web3_post rpc mal (Inr t) u c w =
        (case exchange rpc u t w of (r, w') \<Rightarrow> (r, c\<lparr>web3_json_string_buf := b\<rparr>, w'))"
      "formatted mal t (web3_json_string_buf c) (Inr ()) b"
  | (no_memory) n where "web3_post rpc mal (Inr t) u c w =
        (Inl (Err BOAT_ERROR_COMMON_OUT_OF_MEMORY), c\<lparr>web3_json_string_buf := \<lparr>field_ptr = None, field_len = 0\<rparr>\<rparr>, w)"
      "mal n = None"
proof -
  obtain r b where L: "format_loop mal t (web3_json_string_buf c) = (r, b)" by (cases "format_loop mal t (web3_json_string_buf c)")
  then have F: "formatted mal t (web3_json_string_buf c) r b" using format_loop_spec [OF assms] by simp
  show ?thesis
  proof (cases r)
    case (Inl e)
    with F that(2) L show ?thesis by (auto simp: formatted_def web3_post_def)
  next
    case (Inr x)
    then obtain m where m: "field_ptr b = Some m" "take (Suc (length t)) m = t @ [0]"
      using F by (auto simp: formatted_def)
    then have "length t \<le> length m" "take (length t) m = t"
      by (metis Suc_le_lessD length_append_singleton length_take min.bounded_iff nat_less_le order_refl)
        (metis append_eq_conv_conj m(2) min.absorb1 le_SucI order_refl take_take)
    then have "buf_get m 0 (length t) = Inr t" by (simp add: buf_get_def)
    with m L Inr have "web3_post rpc mal (Inr t) u c w =
        (case exchange rpc u t w of (r, w') \<Rightarrow> (r, c\<lparr>web3_json_string_buf := b\<rparr>, w'))"
      by (simp add: web3_post_def exchange_def split: prod.splits)
    with F Inr that(1) show ?thesis by simp
  qed
qed

lemma number_dec_text: "number (dec_text i)" "dec_val (dec_text i) = unat i"
  using itoa_digits_val [of "unat i"]
  by (auto simp: number_def dec_text_def digit_def list_all_iff word_le_nat_alt)

lemma plain_chars: "plain (chars ''jsonrpc'')" "plain (chars ''2.0'')" "plain (chars ''method'')" "plain (chars ''params'')"
  "plain (chars ''id'')"
  by (simp_all add: plain_def chars_def)

lemma request_text_parses: "request_ok q \<Longrightarrow> json_parse (request_text q i) = Some (request_json q i)"
  unfolding request_text_def
  by (rule json_parse_text)
    (auto simp: request_ok_def request_json_def number_dec_text plain_chars request_sep_def split: web3_request.splits prod.splits)

lemma sample_request_facts:
  "request_json (SendRawTransaction \<lparr>srt_method_name_str = chars ''eth_sendRawTransaction'', srt_signedtx_str = chars ''0xC0''\<rparr>) 7 =
     JObj [(chars ''jsonrpc'', JStr (chars ''2.0'')), (chars ''method'', JStr (chars ''eth_sendRawTransaction'')),
       (chars ''params'', JArr [JStr (chars ''0xC0'')]), (chars ''id'', JNum [55])]"
  "request_ok (SendRawTransaction \<lparr>srt_method_name_str = chars ''eth_sendRawTransaction'', srt_signedtx_str = chars ''0xC0''\<rparr>)"
  "length (request_text (SendRawTransaction \<lparr>srt_method_name_str = chars ''eth_sendRawTransaction'', srt_signedtx_str = chars ''0xC0''\<rparr>) 7)
     < 2147483648"
  "buf_sized \<lparr>field_ptr = Some [0, 0, 0], field_len = 3\<rparr>"
  by (simp_all add: request_json_def request_text_def request_ok_def plain_def chars_def quoted_def request_sep_def
      dec_text_def itoa_digits.simps index_table_def buf_sized_def)

text \<open>
  C19: Every request of the interface posts, to the URL it was given, one JSON-RPC request: a text that a JSON parser reads
  as the object with version 2.0, the method and parameters of the call and the next message identifier, provided its string
  parameters need no escapes. It returns what the node answers, and the request buffer has grown to less than
  1024 bytes beyond what the text needs, or not at all.
\<close>

theorem requests_are_json_rpc:
  assumes "malloc_ok mal" "\<forall>n. mal n \<noteq> None" "buf_sized (web3_json_string_buf c)" "request_ok q"
    "length (request_text q (web3_message_id c + 1)) < 2147483648"
  shows "\<exists>t b. run_request rpc mal q (Some c) (Some url) w =
       (case exchange rpc url t w of (r, w') \<Rightarrow>
          (r, Some (c\<lparr>web3_message_id := web3_message_id c + 1, web3_json_string_buf := b\<rparr>), w')) \<and>
     json_parse t = Some (request_json q (web3_message_id c + 1)) \<and> buf_sized b \<and>
     length t < unat (field_len b) \<and>
     (field_len b = field_len (web3_json_string_buf c) \<or> unat (field_len b) \<le> length t + 1024)"
  by (rule web3_post_spec [of mal "request_text q (web3_message_id c + 1)" "c\<lparr>web3_message_id := web3_message_id c + 1\<rparr>" rpc url w])
    (use assms in \<open>auto simp: format_request formatted_def request_text_parses intro!: exI split: prod.splits\<close>)

theorem requests_are_json_rpc_witness:
  "\<exists>t b. run_request \<lparr>request_set = \<lambda>u s. (0, s), request_sync = \<lambda>t s. ((0, Some [55]), t # s)\<rparr> (\<lambda>n. Some (replicate n 0))
       (SendRawTransaction \<lparr>srt_method_name_str = chars ''eth_sendRawTransaction'', srt_signedtx_str = chars ''0xC0''\<rparr>)
       (Some sample_context) (Some (chars ''http://node'')) [] =
       (Inr (Some [55]), Some (sample_context\<lparr>web3_message_id := 7, web3_json_string_buf := b\<rparr>), [t]) \<and>
     json_parse t = Some (JObj [(chars ''jsonrpc'', JStr (chars ''2.0'')),
       (chars ''method'', JStr (chars ''eth_sendRawTransaction'')),
       (chars ''params'', JArr [JStr (chars ''0xC0'')]), (chars ''id'', JNum [55])])"
  using requests_are_json_rpc [of "\<lambda>n. Some (replicate n 0)" sample_context
      "SendRawTransaction \<lparr>srt_method_name_str = chars ''eth_sendRawTransaction'', srt_signedtx_str = chars ''0xC0''\<rparr>"
      "\<lparr>request_set = \<lambda>u s. (0, s), request_sync = \<lambda>t s. ((0, Some [55]), t # s)\<rparr>" "chars ''http://node''" "[]"]
  by (simp add: sample_request_facts exchange_def malloc_ok_def) blast

text \<open>
  C27: Whatever the allocator and the node answer, a request never leaves the buffer of the context and leaves a
  context that the next request can use: the identifier has advanced, the buffer is of its stated length, and when it
  could not grow it is empty, nothing has been posted and the call reports that memory ran out.
\<close>

theorem requests_memory_safe:
  assumes "malloc_ok mal" "buf_sized (web3_json_string_buf c)"
    "length (request_text q (web3_message_id c + 1)) < 2147483648"
  shows "\<exists>r b w'. run_request rpc mal q (Some c) (Some url) w =
       (r, Some (c\<lparr>web3_message_id := web3_message_id c + 1, web3_json_string_buf := b\<rparr>), w') \<and>
     r \<noteq> Inl UB \<and> buf_sized b \<and>
     (field_ptr b = None \<longrightarrow> r = Inl (Err BOAT_ERROR_COMMON_OUT_OF_MEMORY) \<and> w' = w)"
  by (rule web3_post_spec [of mal "request_text q (web3_message_id c + 1)" "c\<lparr>web3_message_id := web3_message_id c + 1\<rparr>" rpc url w])
    (use assms in \<open>auto simp: format_request formatted_def buf_sized_def exchange_def intro!: exI split: prod.splits\<close>)

theorem requests_memory_safe_witness:
  "\<exists>r b w'. run_request \<lparr>request_set = \<lambda>u s. (0, s), request_sync = \<lambda>t s. ((0, Some [55]), t # s)\<rparr> (\<lambda>n. None)
       (SendRawTransaction \<lparr>srt_method_name_str = chars ''eth_sendRawTransaction'', srt_signedtx_str = chars ''0xC0''\<rparr>)
       (Some sample_context) (Some (chars ''http://node'')) [] =
       (r, Some (sample_context\<lparr>web3_message_id := 7, web3_json_string_buf := b\<rparr>), w') \<and>
     r \<noteq> Inl UB \<and> buf_sized b"
  using requests_memory_safe [of "\<lambda>n. None" sample_context
      "SendRawTransaction \<lparr>srt_method_name_str = chars ''eth_sendRawTransaction'', srt_signedtx_str = chars ''0xC0''\<rparr>"
      "\<lparr>request_set = \<lambda>u s. (0, s), request_sync = \<lambda>t s. ((0, Some [55]), t # s)\<rparr>" "chars ''http://node''" "[]"]
  by (simp add: sample_request_facts malloc_ok_def) blast

end
