(* ===== verification/Boat_Tlv.thy ===== *)
theory Boat_Tlv
  imports Boat_Utility
begin

text \<open>
  The tag-length-value helpers of \<open>sdk/utilities/boatutility.c\<close> that the key and network stores are built on:
  length fields of one to three bytes, the in-place insertion of a length (or tag and length) in
  front of data, the 4-byte record counter with its check byte, and the ASN.1 form of a
  signature.

  A buffer that is modified in place is the list of the bytes from its start to its
  end; reading or writing outside it is \<open>UB\<close>. \<open>mal\<close> is \<open>BoatMalloc\<close>.
\<close>

subsection \<open>Length fields\<close>

definition byte_at :: "bytes \<Rightarrow> nat \<Rightarrow> u8 res" where
  "byte_at input i = (if i < length input then Inr (input ! i) else Inl UB)"

definition UtilityGetTLV_LL :: "bytes \<Rightarrow> int res" where
  "UtilityGetTLV_LL input =
     bindR (byte_at input 1) (\<lambda>b.
       Inr (if b < 0x80 then 1 else if b = 0x81 then 2 else if b = 0x82 then 3 else - 1))"

definition UtilityGetTLV_LL_from_len :: "u32 \<Rightarrow> int" where
  "UtilityGetTLV_LL_from_len len =
     (if len < 0x80 then 1 else if len div 0x80 = 1 then 2 else 3)"

text \<open>The length behind position \<open>i\<close> of the buffer, where its length field starts.\<close>

definition length_field :: "bytes \<Rightarrow> nat \<Rightarrow> int res" where
  "length_field input i =
     bindR (byte_at input i) (\<lambda>b.
       if b AND 0x80 = 0 then Inr (uint b)
       else if b = 0x81 then bindR (byte_at input (i + 1)) (\<lambda>c. Inr (uint c))
       else if b = 0x82 then
         bindR (byte_at input (i + 1)) (\<lambda>c.
         bindR (byte_at input (i + 2)) (\<lambda>d.
           Inr (push_bit 8 (uint c) OR uint d)))
       else Inr (- 1))"

definition UtilityGetTLV_L :: "bytes \<Rightarrow> int res" where
  "UtilityGetTLV_L input = length_field input 1"

definition UtilityGetLVData_L :: "bytes \<Rightarrow> int res" where
  "UtilityGetLVData_L input = length_field input 0"

record TLVStruct =
  tlv_tag :: u8
  tlv_Llen :: u8
  tlv_len :: u32
  tlv_data :: bytes

definition UtilityGetTLV :: "bytes \<Rightarrow> u32 \<Rightarrow> TLVStruct res" where
  "UtilityGetTLV input inputlen =
     bindR (UtilityGetTLV_LL input) (\<lambda>ll.
     guardR (ll < 0) BOAT_ERROR
    (bindR (UtilityGetTLV_L input) (\<lambda>l.
     let n = of_int l :: u32 in
     guardR (inputlen < n + of_int ll + 1) BOAT_ERROR
    (bindR (byte_at input 0) (\<lambda>t.
     Inr \<lparr>tlv_tag = t, tlv_Llen = of_int ll, tlv_len = n, tlv_data = drop (1 + nat ll) input\<rparr>)))))"

subsection \<open>Inserting a length field\<close>

definition L_bytes :: "u32 \<Rightarrow> bytes" where
  "L_bytes nLen =
     (if nLen < 0x80 then [ucast nLen]
      else if nLen div 0x80 = 1 then [0x81, ucast nLen]
      else [0x82, ucast (drop_bit 8 (nLen AND 0xFF00)), ucast (nLen AND 0x00FF)])"

text \<open>
  The move at the end of both insertion routines: save the data in the scratch block,
  write the header over it, write the data behind the header. The result is the new
  buffer and the new offset.
\<close>

definition shift_in :: "bytes \<Rightarrow> bytes \<Rightarrow> bytes \<Rightarrow> u32 \<Rightarrow> u32 \<Rightarrow> (bytes \<times> u32) res" where
  "shift_in header scratch pbBuff nOffset nLen =
     (if nLen \<noteq> 0 then
        bindR (buf_get pbBuff (unat nOffset) (unat nLen)) (\<lambda>saved.
        bindR (buf_put scratch 0 saved) (\<lambda>_.
        bindR (buf_put pbBuff (unat nOffset) header) (\<lambda>b1.
        bindR (buf_put b1 (unat nOffset + length header) saved) (\<lambda>b2.
          Inr (b2, nOffset + (nLen + of_nat (length header)))))))
      else Inr (pbBuff, nOffset))"

definition add_L_withOffset ::
  "(nat \<Rightarrow> bytes option) \<Rightarrow> bytes \<Rightarrow> u32 \<Rightarrow> u32 \<Rightarrow> (int \<times> bytes \<times> u32) res" where
  "add_L_withOffset mal pbBuff nOffset nLen =
     (case mal (unat nLen) of
        None \<Rightarrow> Inr (- 1, pbBuff, nOffset)
      | Some buf \<Rightarrow>
          let h = L_bytes nLen in
          bindR (shift_in h buf pbBuff nOffset nLen) (\<lambda>(b, off).
            Inr (sint (nLen + of_nat (length h)), b, off)))"

abbreviation BoAT_ASN1_BIT_STRING :: u8 where
  "BoAT_ASN1_BIT_STRING \<equiv> 0x03"

definition add_TL_withOffset ::
  "(nat \<Rightarrow> bytes option) \<Rightarrow> u8 \<Rightarrow> bytes \<Rightarrow> u32 \<Rightarrow> u32 \<Rightarrow> (int \<times> bytes \<times> u32) res" where
  "add_TL_withOffset mal bTag pbBuff nOffset nLen =
     (case mal (unat nLen) of
        None \<Rightarrow> Inr (- 1, pbBuff, nOffset)
      | Some buf \<Rightarrow>
          bindR
            (if bTag = BoAT_ASN1_BIT_STRING then
               bindR (buf_get pbBuff (unat nOffset) (unat nLen)) (\<lambda>saved.
               bindR (buf_put buf 0 saved) (\<lambda>buf'.
               bindR (buf_put pbBuff (unat nOffset + 1) saved) (\<lambda>b1.
               bindR (buf_put b1 (unat nOffset) [0]) (\<lambda>b2.
                 Inr (buf', b2, nLen + 1)))))
             else Inr (buf, pbBuff, nLen)) (\<lambda>(buf', b, n).
          let h = bTag # L_bytes n in
          bindR (shift_in h buf' b nOffset n) (\<lambda>(b', off).
            Inr (sint (n + of_nat (length h)), b', off))))"

subsection \<open>Record counter\<close>

definition utility_check_NumBytes :: "bytes \<Rightarrow> u8 res" where
  "utility_check_NumBytes temp =
     guardR (temp ! 0 \<noteq> 0xAA \<or> temp ! 1 \<noteq> 0x55) BOAT_ERROR
    (guardR ((temp ! 0 XOR temp ! 1) XOR temp ! 2 \<noteq> temp ! 3) BOAT_ERROR
    (Inr (temp ! 2)))"

definition utility_get_NumBytes :: "u8 \<Rightarrow> bytes" where
  "utility_get_NumBytes num = [0xAA, 0x55, num, (0xAA XOR 0x55) XOR num]"

subsection \<open>Signatures in ASN.1\<close>

definition utility_signature_to_asn1 :: "bytes option \<Rightarrow> u32 \<Rightarrow> bool \<Rightarrow> (bytes \<times> u32) res" where
  "utility_signature_to_asn1 signature signaturelen out_ok =
     (case signature of
        None \<Rightarrow> Inl (Err BOAT_ERROR_COMMON_INVALID_ARGUMENT)
      | Some sg \<Rightarrow>
          guardR (\<not> out_ok) BOAT_ERROR_COMMON_INVALID_ARGUMENT
         (guardR (signaturelen \<noteq> 64) BOAT_ERROR_COMMON_INVALID_ARGUMENT
         (bindR (byte_at sg 0) (\<lambda>b.
          bindR (buf_get sg 0 32) (\<lambda>r.
          bindR (buf_get sg 32 32) (\<lambda>s.
          let head = (if b AND 0x80 = 0x80 then [0x45, 0x02, 0x21, 0x00] else [0x44, 0x02, 0x20]);
              out = [0x30] @ head @ r @ [0x02, 0x20] @ s
          in Inr (out, of_nat (length out))))))))"

subsection \<open>Reference notions\<close>

definition der_int :: "bytes \<Rightarrow> int" where
  "der_int bs = (if bs \<noteq> [] \<and> 128 \<le> unat (hd bs) then int (be_val bs) - 256 ^ length bs else int (be_val bs))"

subsection \<open>Correctness\<close>

lemma mid_octet: "(ucast (drop_bit 8 n) :: u8) = of_nat (unat (n :: u32) div 256)"
proof -
  have "unat (ucast (drop_bit 8 n) :: u8) = unat n div 256 mod 256"
    by (simp only: unat_ucast_u8 unat_drop_bit) simp
  then show ?thesis by (simp only: word_unat_eq_iff unat_of_nat) simp
qed

lemma L_bytes_cases:
  "L_bytes n = (if unat n < 128 then [ucast n]
     else if unat n < 256 then [0x81, ucast n]
     else [0x82, of_nat (unat n div 256), ucast n])"
proof -
  have d: "n div 0x80 = 1 \<longleftrightarrow> 128 \<le> unat n \<and> unat n < 256"
    by (auto simp: word_unat_eq_iff unat_div)
  show ?thesis
    unfolding L_bytes_def d by (simp add: word_less_nat_alt mid_octet ucast_and255)
qed

lemma length_L_bytes: "int (length (L_bytes n)) = UtilityGetTLV_LL_from_len n"
  by (simp add: L_bytes_def UtilityGetTLV_LL_from_len_def)

lemma length_L_bytes_bounds: "1 \<le> length (L_bytes n)" "length (L_bytes n) \<le> 3" "L_bytes n \<noteq> []"
  by (simp_all add: L_bytes_def)

lemma top_bit_clear: "(b :: u8) AND 0x80 = 0 \<longleftrightarrow> unat b < 128"
proof -
  have "b AND 0x80 = 0 \<longleftrightarrow> \<not> bit b 7"
    using and_exp_eq_0_iff_not_bit [of b 7] by simp
  also have "bit b 7 \<longleftrightarrow> odd (unat b div 128)"
  proof -
    have "bit b 7 \<longleftrightarrow> bit (unat b) 7" by (simp add: bit_unsigned_iff)
    then show ?thesis by (simp add: bit_iff_odd [of "unat b"])
  qed
  also have "odd (unat b div 128) \<longleftrightarrow> \<not> unat b < 128"
  proof -
    have "unat b div 128 \<in> {0, 1}" using u8_bound [of b] by auto
    then show ?thesis by auto
  qed
  finally show ?thesis by simp
qed

lemma join_len:
  assumes "b < 256"
  shows "push_bit 8 (int a) OR int b = int (a * 256 + b)"
proof -
  have "push_bit 8 (int a) OR int b = int (push_bit 8 a OR b)"
    by (simp add: of_nat_or_eq push_bit_of_nat)
  also have "push_bit 8 a OR b = a * 256 + b" using push_or_nat [of b 8 a] assms by simp
  finally show ?thesis .
qed

lemma length_field_L:
  assumes "unat n < 65536" "i = length pre"
  shows "length_field (pre @ L_bytes n @ post) i = Inr (int (unat n))"
proof -
  have u: "unat (ucast n :: u8) = unat n mod 256" by (simp add: unat_ucast_u8)
  have v: "uint b = int (unat b)" for b :: u8 by simp
  consider "unat n < 128" | "128 \<le> unat n" "unat n < 256" | "256 \<le> unat n" by linarith
  then show ?thesis
  proof cases
    case 1
    then show ?thesis
      by (simp add: length_field_def byte_at_def L_bytes_cases nth_append top_bit_clear u assms(2) v del: uint_nat of_nat_unat)
  next
    case 2
    then show ?thesis
      by (simp add: length_field_def byte_at_def L_bytes_cases nth_append top_bit_clear u assms(2) v del: of_nat_unat)
  next
    case 3
    have w: "unat (of_nat (unat n div 256) :: u8) = unat n div 256"
      using assms(1) by (simp add: unat_of_nat)
    have "int (unat n div 256) * 256 + int (unat n mod 256) = int (unat n)"
      by (metis div_mult_mod_eq of_nat_add of_nat_mult of_nat_numeral)
    then show ?thesis
      using 3 by (simp add: length_field_def byte_at_def L_bytes_cases nth_append top_bit_clear u w assms(2) v join_len del: of_nat_unat)
  qed
qed

lemma shift_in_ok:
  assumes "length pre = unat off" "length mid = unat n" "length h \<le> length post" "n \<noteq> 0"
    "unat n \<le> length scratch"
  shows "shift_in h scratch (pre @ mid @ post) off n =
    Inr (pre @ h @ mid @ drop (length h) post, off + (n + of_nat (length h)))"
proof -
  have g: "buf_get (pre @ mid @ post) (unat off) (unat n) = Inr mid"
    using assms by (intro buf_get_parts) simp_all
  have p0: "\<exists>s. buf_put scratch 0 mid = Inr s" using assms(2,5) by (simp add: buf_put_def)
  define b1 where "b1 = pre @ h @ drop (length h) (mid @ post)"
  have p1: "buf_put (pre @ mid @ post) (unat off) h = Inr b1"
    using assms(1,3) by (simp add: buf_put_def b1_def)
  have p2: "buf_put b1 (unat off + length h) mid = Inr (pre @ h @ mid @ drop (length h) post)"
  proof -
    have "unat off + length h + length mid \<le> length b1" using assms by (simp add: b1_def)
    moreover have "take (unat off + length h) b1 = pre @ h" using assms(1) by (simp add: b1_def)
    moreover have "drop (unat off + length h + length mid) b1 = drop (length mid) (drop (length h) (mid @ post))"
      using assms(1) by (simp add: b1_def)
    moreover have "\<dots> = drop (length h) (drop (length mid) (mid @ post))"
      by (simp only: drop_drop add.commute)
    ultimately show ?thesis by (simp add: buf_put_def)
  qed
  show ?thesis using g p0 p1 p2 assms(4) by (auto simp: shift_in_def)
qed

lemma sint_small:
  assumes "unat (x :: u32) < 2 ^ 31"
  shows "sint x = int (unat x)"
proof -
  have "int (unat x) < int (2 ^ 31)" using assms by (simp only: of_nat_less_iff)
  then have "signed_take_bit 31 (int (unat x)) = int (unat x)"
    by (intro signed_take_bit_int_eq_self) (simp_all del: of_nat_unat)
  then show ?thesis by (simp add: sint_uint)
qed

text \<open>
  Inserting a length field in front of data that already lies in the buffer makes a length-value
  record: for 1 to 65535 bytes of data \<open>add_L_withOffset\<close> moves the data behind the one to three
  bytes its caller reserved by \<open>UtilityGetTLV_LL_from_len\<close>, keeps everything else, leaves the offset at the end of the
  record, and \<open>UtilityGetLVData_L\<close> reads the length back.
\<close>

theorem add_L_roundtrip:
  assumes "\<forall>k. \<exists>b. mal k = Some b \<and> length b = k" "length pre = unat off" "length mid = unat n" "n \<noteq> 0"
    "unat n < 65536" "UtilityGetTLV_LL_from_len n \<le> int (length post)" "unat off + unat n + 3 < 2 ^ 31"
  shows "\<exists>h off' post'. add_L_withOffset mal (pre @ mid @ post) off n =
       Inr (int (length h) + int (unat n), pre @ h @ mid @ post', off') \<and>
     int (length h) = UtilityGetTLV_LL_from_len n \<and> post' = drop (length h) post \<and>
     unat off' = length (pre @ h @ mid) \<and> UtilityGetLVData_L (h @ mid @ post') = Inr (int (unat n))"
proof -
  let ?h = "L_bytes n"
  obtain b where b: "mal (unat n) = Some b" "length b = unat n" using assms(1) by blast
  have lh: "length ?h \<le> length post" using assms(6) length_L_bytes [of n] by simp
  have small: "unat n + length ?h < 2 ^ 31" "length ?h \<le> 3"
    using assms(7) length_L_bytes_bounds [of n] by linarith+
  then have un: "unat (n + of_nat (length ?h)) = unat n + length ?h"
    by (simp add: unat_plus_if')
  have sn: "sint (n + of_nat (length ?h)) = int (length ?h) + int (unat n)"
    using sint_small [of "n + of_nat (length ?h)"] small(1) un by simp
  have uo: "unat (off + (n + of_nat (length ?h))) = unat off + (unat n + length ?h)"
    using assms(7) small un by (simp add: unat_plus_if' [of off])
  show ?thesis
    using shift_in_ok [OF assms(2,3) lh assms(4), of b] b sn uo assms(2,3)
      length_field_L [OF assms(5), of 0 "[]"]
    by (auto simp: add_L_withOffset_def Let_def UtilityGetLVData_L_def length_L_bytes
        intro!: exI [of _ ?h])
qed

theorem add_L_roundtrip_witness:
  "\<exists>h off' post'. add_L_withOffset (\<lambda>k. Some (replicate k 0)) ([7] @ [1, 2, 3] @ [0, 0]) 1 3 =
       Inr (int (length h) + 3, [7] @ h @ [1, 2, 3] @ post', off') \<and>
     UtilityGetLVData_L (h @ [1, 2, 3] @ post') = Inr 3"
  using add_L_roundtrip [of "\<lambda>k. Some (replicate k 0)" "[7]" 1 "[1, 2, 3]" 3 "[0, 0]"]
  by (auto simp: UtilityGetTLV_LL_from_len_def)

text \<open>
  A tag-length-value record that \<open>add_TL_withOffset\<close> builds (with a tag other than BIT STRING) parses back by
  \<open>UtilityGetTLV\<close> to its tag, length and data.
\<close>

theorem add_TL_roundtrip:
  assumes "\<forall>k. \<exists>b. mal k = Some b \<and> length b = k" "length mid = unat n" "n \<noteq> 0" "unat n < 65536"
    "bTag \<noteq> BoAT_ASN1_BIT_STRING" "4 \<le> length post"
  shows "\<exists>r buf off' t. add_TL_withOffset mal bTag (mid @ post) 0 n = Inr (r, buf, off') \<and>
     UtilityGetTLV buf off' = Inr t \<and> tlv_tag t = bTag \<and> tlv_len t = n \<and>
     take (unat n) (tlv_data t) = mid \<and> int (unat (tlv_Llen t)) = UtilityGetTLV_LL_from_len n"
proof -
  let ?h = "bTag # L_bytes n"
  let ?buf = "?h @ mid @ drop (length ?h) post"
  let ?off = "n + of_nat (length ?h) :: u32"
  obtain b where b: "mal (unat n) = Some b" "length b = unat n" using assms(1) by blast
  have lh: "length ?h \<le> length post" using assms(6) length_L_bytes_bounds [of n] by simp
  obtain r where a: "add_TL_withOffset mal bTag (mid @ post) 0 n = Inr (r, ?buf, ?off)"
    using shift_in_ok [of "[]" 0, OF _ assms(2) lh assms(3), of b] b assms(5)
    by (simp add: add_TL_withOffset_def Let_def)
  have LL: "UtilityGetTLV_LL ?buf = Inr (int (length (L_bytes n)))"
    using u8_bound [of "ucast n"]
    by (auto simp: UtilityGetTLV_LL_def byte_at_def L_bytes_cases nth_append word_less_nat_alt unat_ucast_u8)
  have L: "UtilityGetTLV_L ?buf = Inr (int (unat n))"
    using length_field_L [OF assms(4), of 1 "[bTag]"] by (simp add: UtilityGetTLV_L_def)
  have "\<not> ?off < n + of_nat (length (L_bytes n)) + 1" by (simp add: algebra_simps)
  then have g: "UtilityGetTLV ?buf ?off =
      Inr \<lparr>tlv_tag = bTag, tlv_Llen = of_nat (length (L_bytes n)), tlv_len = n, tlv_data = mid @ drop (length ?h) post\<rparr>"
    unfolding UtilityGetTLV_def LL L by (simp add: byte_at_def)
  have "unat (of_nat (length (L_bytes n)) :: u8) = length (L_bytes n)"
    using length_L_bytes_bounds [of n] by (simp add: unat_of_nat)
  then show ?thesis using a g assms(2) length_L_bytes [of n] by (simp del: of_nat_unat)
qed

theorem add_TL_roundtrip_witness:
  "\<exists>r buf off' t. add_TL_withOffset (\<lambda>k. Some (replicate k 0)) 0x30 ([5, 6] @ [0, 0, 0, 0]) 0 2 = Inr (r, buf, off') \<and>
     UtilityGetTLV buf off' = Inr t \<and> tlv_tag t = 0x30 \<and> tlv_len t = 2 \<and> take 2 (tlv_data t) = [5, 6]"
  using add_TL_roundtrip [of "\<lambda>k. Some (replicate k 0)" "[5, 6]" 2 "0x30" "[0, 0, 0, 0]"] by auto

lemma shift_in_overflow:
  assumes "n \<noteq> 0" "length scratch < unat n" "unat off + unat n \<le> length buf"
  shows "shift_in h scratch buf off n = Inl UB"
proof -
  obtain saved where g: "buf_get buf (unat off) (unat n) = Inr saved" "length saved = unat n"
    using assms(3) by (simp add: buf_get_def)
  then have "buf_put scratch 0 saved = Inl UB" using assms(2) by (simp add: buf_put_def)
  then show ?thesis using g assms(1) by (simp add: shift_in_def)
qed

text \<open>
  Inserting a BIT STRING header always leaves the scratch block: it is allocated for the data, and the data with
  the unused-bits byte in front is one byte longer.
\<close>

theorem add_TL_bit_string_overflow:
  assumes "mal (unat n) = Some b" "length b = unat n" "unat n < 4294967295" "unat off + unat n + 1 \<le> length buf"
  shows "add_TL_withOffset mal BoAT_ASN1_BIT_STRING buf off n = Inl UB"
proof -
  have n1: "unat (n + 1) = unat n + 1" "n + 1 \<noteq> 0"
    using assms(3) by (simp_all add: unat_plus_if' word_unat_eq_iff)
  obtain saved where g: "buf_get buf (unat off) (unat n) = Inr saved" "length saved = unat n"
    using assms(4) by (simp add: buf_get_def)
  obtain b0 where b0: "buf_put b 0 saved = Inr b0" using g(2) assms(2) by (simp add: buf_put_def)
  obtain b1 where b1: "buf_put buf (unat off + 1) saved = Inr b1" using g(2) assms(4) by (simp add: buf_put_def)
  obtain b2 where b2: "buf_put b1 (unat off) [0] = Inr b2"
    using buf_put_length [OF b1] assms(4) by (simp add: buf_put_def)
  have "shift_in h b0 b2 off (n + 1) = Inl UB" for h
    using n1 buf_put_length [OF b0] buf_put_length [OF b1] buf_put_length [OF b2] assms
    by (intro shift_in_overflow) simp_all
  then show ?thesis using assms(1) g(1) b0 b1 b2 by (simp add: add_TL_withOffset_def Let_def)
qed

theorem add_TL_bit_string_overflow_witness:
  "add_TL_withOffset (\<lambda>k. Some (replicate k 0)) BoAT_ASN1_BIT_STRING [1, 2, 3, 0, 0, 0, 0, 0] 0 3 = Inl UB"
  using add_TL_bit_string_overflow [of "\<lambda>k. Some (replicate k 0)" 3 "replicate 3 0" 0 "[1, 2, 3, 0, 0, 0, 0, 0]"]
  by simp

text \<open>
  The record counter detects every other value of its four bytes: \<open>utility_check_NumBytes\<close> accepts exactly the bytes
  \<open>utility_get_NumBytes\<close> makes, and returns the number they were made from.
\<close>

theorem NumBytes_exact:
  "length t = 4 \<Longrightarrow> utility_check_NumBytes t = Inr n \<longleftrightarrow> t = utility_get_NumBytes n"
proof -
  assume "length t = 4"
  then obtain a b c d where "t = [a, b, c, d]" by (auto simp: numeral_eq_Suc length_Suc_conv)
  then show ?thesis by (auto simp: utility_check_NumBytes_def utility_get_NumBytes_def)
qed

theorem NumBytes_exact_witness: "utility_check_NumBytes [0xAA, 0x55, 3, 0xFC] = Inr 3 \<longleftrightarrow> [0xAA, 0x55, 3, 0xFC] = utility_get_NumBytes 3"
  using NumBytes_exact [of "[0xAA, 0x55, 3, 0xFC]" 3] by simp

lemma and_exp_cases: "(b :: u8) AND 2 ^ k = (if bit b k then 2 ^ k else 0)"
  by (rule bit_word_eqI) (auto simp: bit_simps)

text \<open>
  C36: \<open>utility_signature_to_asn1\<close> writes a SEQUENCE of two INTEGERs. The first always has the value of r. The second has the
  value of s only when the top bit of s is clear; otherwise it reads as the negative number
  s - 2 to the 256, since only r is padded.
\<close>

theorem asn1_signature_value:
  assumes "length r = 32" "length s = 32"
  shows "\<exists>ri out. utility_signature_to_asn1 (Some (r @ s)) 64 True = Inr (out, of_nat (length out)) \<and>
     out = [0x30, of_nat (length ri + 36), 0x02, of_nat (length ri)] @ ri @ [0x02, 0x20] @ s \<and>
     length out = length ri + 38 \<and> der_int ri = int (be_val r) \<and>
     der_int s = (if unat (hd s) < 128 then int (be_val s) else int (be_val s) - 2 ^ 256)"
proof -
  let ?ri = "if unat (hd r) < 128 then r else 0 # r"
  let ?head = "if hd r AND 0x80 = 0x80 then [0x45, 0x02, 0x21, 0x00] else [0x44, 0x02, 0x20 :: u8]"
  have ne: "r \<noteq> []" "s \<noteq> []" using assms by auto
  have t: "hd r AND 0x80 = 0x80 \<longleftrightarrow> \<not> unat (hd r) < 128"
    using and_exp_cases [of "hd r" 7] top_bit_clear [of "hd r"] by auto
  have "byte_at (r @ s) 0 = Inr (hd r)" using ne by (simp add: byte_at_def hd_conv_nth nth_append)
  moreover have "buf_get (r @ s) 0 32 = Inr r" "buf_get (r @ s) 32 32 = Inr s"
    using assms by (simp_all add: buf_get_def)
  ultimately have out: "utility_signature_to_asn1 (Some (r @ s)) 64 True =
      (let out = [0x30] @ ?head @ r @ [0x02, 0x20] @ s in Inr (out, of_nat (length out)))"
    by (simp add: utility_signature_to_asn1_def Let_def)
  have d: "der_int ?ri = int (be_val r)" using ne(1) by (cases r) (auto simp: der_int_def)
  have e: "der_int s = (if unat (hd s) < 128 then int (be_val s) else int (be_val s) - 2 ^ 256)"
    using assms(2) ne(2) by (simp add: der_int_def)
  show ?thesis
    unfolding out Let_def using d e t assms by - (rule exI [of _ ?ri], simp split: if_splits)
qed

theorem asn1_signature_value_witness:
  "\<exists>ri out. utility_signature_to_asn1 (Some (replicate 32 1 @ replicate 32 0x80)) 64 True = Inr (out, of_nat (length out)) \<and>
     out = [0x30, of_nat (length ri + 36), 0x02, of_nat (length ri)] @ ri @ [0x02, 0x20] @ replicate 32 0x80 \<and>
     der_int (replicate 32 0x80) = int (be_val (replicate 32 0x80)) - 2 ^ 256"
  using asn1_signature_value [of "replicate 32 1" "replicate 32 0x80"] by auto

end
