(* ===== verification/Boat_Storage.thy ===== *)
theory Boat_Storage
  imports Boat_Tlv
begin

text \<open>
  The persistent store: the file access of
  \<open>vendor/platform/linux-default/src/port_crypto_default/boatplatform_internal.c\<close> and the three storage areas
  of \<open>vendor/common/storage/persiststore.c\<close>, kept in one file or in RAM buffers, with the
  encryption of private keys.

  The state \<open>nvram\<close> holds the wallet file, if there is one, and the RAM buffers, together with what the
  file system allows: whether files can be opened and created, and how large the file may
  grow. Cipher, hash, random salt and \<open>BoatMalloc\<close> are parameters.
  Offsets are 32-bit words and wrap as in the code.
\<close>

subsection \<open>The wallet file\<close>

record nvram =
  wallet_file :: "bytes option"
  RAM_BOAT_DATA :: bytes
  RAM_BOAT_NETWORK_DATA :: bytes
  RAM_BOAT_PRIKEY_DATA :: bytes
  fs_open :: bool
  fs_create :: bool
  fs_capacity :: nat

definition file_bytes :: "nvram \<Rightarrow> bytes" where
  "file_bytes s = (case wallet_file s of Some f \<Rightarrow> f | None \<Rightarrow> [])"

definition BoatGetStorageSize :: "bool \<Rightarrow> nvram \<Rightarrow> u32 res" where
  "BoatGetStorageSize size_ok s =
     guardR (\<not> size_ok) BOAT_ERROR_COMMON_INVALID_ARGUMENT
    (guardR (wallet_file s = None \<or> \<not> fs_open s) BOAT_ERROR_STORAGE_FILE_OPEN_FAIL
    (Inr (of_nat (length (file_bytes s)))))"

text \<open>
  \<open>fwrite\<close> at a position inside the file or at its end: as many bytes as the capacity
  leaves room for, and their number.
\<close>

definition fwrite :: "nat \<Rightarrow> bytes \<Rightarrow> nat \<Rightarrow> bytes \<Rightarrow> bytes \<times> nat" where
  "fwrite cap file pos xs =
     (let n = min (length xs) (cap - pos) in (take pos file @ take n xs @ drop (pos + n) file, n))"

text \<open>
  Opening for update; the file is created when that fails, and the stream of a failed creation
  is closed, which follows a null pointer.
\<close>

definition open_for_update :: "nvram \<Rightarrow> bytes res \<times> nvram" where
  "open_for_update s =
     (if wallet_file s \<noteq> None \<and> fs_open s then (Inr (file_bytes s), s)
      else if \<not> fs_create s then (Inl UB, s)
      else let s' = s\<lparr>wallet_file := Some []\<rparr> in
           if fs_open s then (Inr [], s') else (Inl (Err BOAT_ERROR_STORAGE_FILE_OPEN_FAIL), s'))"

definition BoatWriteStorage ::
  "(nat \<Rightarrow> bytes option) \<Rightarrow> u32 \<Rightarrow> bytes option \<Rightarrow> nvram \<Rightarrow> unit res \<times> nvram" where
  "BoatWriteStorage mal offset writeBuf s =
     (case writeBuf of
        None \<Rightarrow> (Inl (Err BOAT_ERROR_COMMON_INVALID_ARGUMENT), s)
      | Some xs \<Rightarrow>
          bindS open_for_update (\<lambda>file s.
            let size = of_nat (length file) :: u32 in
            bindS (\<lambda>s.
                if size < offset then
                  (case mal (unat (offset - size)) of
                     None \<Rightarrow> (Inl (Err BOAT_ERROR_COMMON_OUT_OF_MEMORY), s)
                   | Some _ \<Rightarrow>
                       (case fwrite (fs_capacity s) file (length file) (replicate (unat (offset - size)) 0) of
                          (file', count) \<Rightarrow>
                            (if count \<noteq> unat (offset - size)
                             then Inl (Err BOAT_ERROR_STORAGE_FILE_WRITE_FAIL)
                             else Inr (file', length file'), s\<lparr>wallet_file := Some file'\<rparr>)))
                else (Inr (file, unat offset), s))
              (\<lambda>(file', pos) s.
                 case fwrite (fs_capacity s) file' pos xs of
                   (file'', count) \<Rightarrow>
                     (guardR (count \<noteq> length xs) BOAT_ERROR_STORAGE_FILE_WRITE_FAIL (Inr ()),
                      s\<lparr>wallet_file := Some file''\<rparr>)) s) s)"

text \<open>
  A read target is given by the size of the object its pointer leads to; \<open>fread\<close> delivers what the file has,
  and more bytes than the object holds overrun it.
\<close>

definition BoatReadStorage :: "u32 \<Rightarrow> nat option \<Rightarrow> u32 \<Rightarrow> nvram \<Rightarrow> bytes res" where
  "BoatReadStorage offset readBuf readLen s =
     (case readBuf of
        None \<Rightarrow> Inl (Err BOAT_ERROR_COMMON_INVALID_ARGUMENT)
      | Some room \<Rightarrow>
          guardR (wallet_file s = None \<or> \<not> fs_open s) BOAT_ERROR_STORAGE_FILE_OPEN_FAIL
         (guardR (of_nat (length (file_bytes s)) < readLen + offset) BOAT_ERROR_STORAGE_FILE_READ_FAIL
         (let got = take (unat readLen) (drop (unat offset) (file_bytes s)) in
          if room < length got then Inl UB
          else guardR (length got \<noteq> unat readLen) BOAT_ERROR_STORAGE_FILE_READ_FAIL (Inr got))))"

subsection \<open>The storage areas\<close>

datatype BoatStoreFile = BOAT_STORE_KEYPAIR | BOAT_STORE_NETWORK | BOAT_STORE_PRIKEY

datatype BoatStoreType = BOAT_STORE_TYPE_UNKNOWN | BOAT_STORE_TYPE_RAM | BOAT_STORE_TYPE_FLASH

definition BOAT_STORAGE_KEYPAIR_MAXLEN :: u32 where
  "BOAT_STORAGE_KEYPAIR_MAXLEN = 4 + 3 + 5 * (2 + 65 + 5 + 5 + 65)"

definition BOAT_STORAGE_PRIKEY_MAXLEN :: u32 where
  "BOAT_STORAGE_PRIKEY_MAXLEN = 4 + 5 * (2 + 1 + 16 + 32 + 32 + 16)"

definition BOAT_STORAGE_KEYPAIR_OFFSET :: u32 where
  "BOAT_STORAGE_KEYPAIR_OFFSET = 0"

definition BOAT_STORAGE_PRIKEY_OFFSET :: u32 where
  "BOAT_STORAGE_PRIKEY_OFFSET = BOAT_STORAGE_KEYPAIR_OFFSET + BOAT_STORAGE_KEYPAIR_MAXLEN + 128"

definition BOAT_STORAGE_NETWORK_OFFSET :: u32 where
  "BOAT_STORAGE_NETWORK_OFFSET = BOAT_STORAGE_PRIKEY_OFFSET + BOAT_STORAGE_PRIKEY_MAXLEN + 128"

fun offset_base :: "BoatStoreFile \<Rightarrow> u32" where
  "offset_base BOAT_STORE_KEYPAIR = BOAT_STORAGE_KEYPAIR_OFFSET"
| "offset_base BOAT_STORE_NETWORK = BOAT_STORAGE_NETWORK_OFFSET"
| "offset_base BOAT_STORE_PRIKEY = BOAT_STORAGE_PRIKEY_OFFSET"

fun exceeds_area :: "BoatStoreFile \<Rightarrow> u32 \<Rightarrow> bool" where
  "exceeds_area BOAT_STORE_KEYPAIR end = (end > BOAT_STORAGE_KEYPAIR_MAXLEN)"
| "exceeds_area BOAT_STORE_NETWORK end = False"
| "exceeds_area BOAT_STORE_PRIKEY end = (end > BOAT_STORAGE_PRIKEY_MAXLEN)"

fun rambuf :: "BoatStoreFile \<Rightarrow> nvram \<Rightarrow> bytes" where
  "rambuf BOAT_STORE_KEYPAIR s = RAM_BOAT_DATA s"
| "rambuf BOAT_STORE_NETWORK s = RAM_BOAT_NETWORK_DATA s"
| "rambuf BOAT_STORE_PRIKEY s = RAM_BOAT_PRIKEY_DATA s"

fun set_rambuf :: "BoatStoreFile \<Rightarrow> bytes \<Rightarrow> nvram \<Rightarrow> nvram" where
  "set_rambuf BOAT_STORE_KEYPAIR b s = s\<lparr>RAM_BOAT_DATA := b\<rparr>"
| "set_rambuf BOAT_STORE_NETWORK b s = s\<lparr>RAM_BOAT_NETWORK_DATA := b\<rparr>"
| "set_rambuf BOAT_STORE_PRIKEY b s = s\<lparr>RAM_BOAT_PRIKEY_DATA := b\<rparr>"

definition BoATStoreSoftRotNvram ::
  "(nat \<Rightarrow> bytes option) \<Rightarrow> BoatStoreFile \<Rightarrow> u32 \<Rightarrow> bytes option \<Rightarrow> u32 \<Rightarrow> BoatStoreType \<Rightarrow> nvram \<Rightarrow>
     unit res \<times> nvram" where
  "BoATStoreSoftRotNvram mal storeFile offset data_ptr data_len storeType s =
     (if exceeds_area storeFile (offset + data_len) then (Inl (Err BOAT_ERROR_COMMON_OUT_OF_MEMORY), s)
      else if data_ptr = None \<or> data_len = 0 \<or> storeType = BOAT_STORE_TYPE_UNKNOWN
      then (Inl (Err BOAT_ERROR_COMMON_INVALID_ARGUMENT), s)
      else
        case buf_get (the data_ptr) 0 (unat data_len) of
          Inl e \<Rightarrow> (Inl e, s)
        | Inr xs \<Rightarrow>
            if storeType = BOAT_STORE_TYPE_FLASH
            then BoatWriteStorage mal (offset_base storeFile + offset) (Some xs) s
            else if offset + data_len > of_nat (length (rambuf storeFile s))
            then (Inl (Err BOAT_ERROR_COMMON_OUT_OF_MEMORY), s)
            else (case buf_put (rambuf storeFile s) (unat offset) xs of
                    Inl e \<Rightarrow> (Inl e, s)
                  | Inr b \<Rightarrow> (Inr (), set_rambuf storeFile b s)))"

definition BoatReadSoftRotNvram ::
  "BoatStoreFile \<Rightarrow> u32 \<Rightarrow> nat option \<Rightarrow> u32 \<Rightarrow> BoatStoreType \<Rightarrow> nvram \<Rightarrow> bytes res" where
  "BoatReadSoftRotNvram storeFile offset data_ptr len_to_read storeType s =
     guardR (exceeds_area storeFile (offset + len_to_read)) BOAT_ERROR_COMMON_OUT_OF_MEMORY
    (guardR (data_ptr = None \<or> len_to_read = 0 \<or> storeType = BOAT_STORE_TYPE_UNKNOWN)
       BOAT_ERROR_COMMON_INVALID_ARGUMENT
    (if storeType = BOAT_STORE_TYPE_FLASH
     then BoatReadStorage (offset_base storeFile + offset) data_ptr len_to_read s
     else guardR (offset + len_to_read > of_nat (length (rambuf storeFile s)))
            BOAT_ERROR_COMMON_OUT_OF_MEMORY
            (if the data_ptr < unat len_to_read then Inl UB
             else buf_get (rambuf storeFile s) (unat offset) (unat len_to_read))))"

subsection \<open>Encryption of stored keys\<close>

abbreviation BOAT_STORAGE_SALT_SIZE :: nat where
  "BOAT_STORAGE_SALT_SIZE \<equiv> 16"

definition g_aes_key :: bytes where
  "g_aes_key =
     [0x7F, 0x78, 0xBC, 0xEC, 0xD8, 0xBA, 0x96, 0xF7, 0x8E, 0x66, 0xFD, 0x98, 0xEA, 0x4A, 0x4E, 0x88,
      0x0C, 0xB7, 0x34, 0xD3, 0x11, 0x9F, 0x72, 0xE0, 0x81, 0xD2, 0x5E, 0xC6, 0x16, 0xAC, 0x08, 0xC4]"

definition padded_len :: "nat \<Rightarrow> nat" where
  "padded_len data_len =
     (let r = ((data_len - 1) div 16 + 1) * 16 in if r = data_len then r + 16 else r)"

text \<open>
  \<open>hash\<close> stands for \<open>BoatHash\<close> with Keccak-256, \<open>salt\<close> for the bytes \<open>BoatRandom\<close> delivers, \<open>aes_enc\<close> and \<open>aes_dec\<close>
  for the AES functions on initial vector, key and data.
\<close>

definition BoATSoftRotNvramEnc ::
  "(bytes \<Rightarrow> bytes) \<Rightarrow> bytes \<Rightarrow> (bytes \<Rightarrow> bytes \<Rightarrow> bytes \<Rightarrow> bytes res) \<Rightarrow> bytes option \<Rightarrow> bytes res" where
  "BoATSoftRotNvramEnc hash salt aes_enc data_ptr =
     (case data_ptr of
        None \<Rightarrow> Inl (Err BOAT_ERROR_COMMON_INVALID_ARGUMENT)
      | Some xs \<Rightarrow>
          guardR (xs = []) BOAT_ERROR_COMMON_INVALID_ARGUMENT
         (let n = padded_len (length xs);
              raw = xs @ replicate (n - length xs) (of_nat (n - length xs))
          in bindR (aes_enc salt g_aes_key raw) (\<lambda>enc. Inr (salt @ hash xs @ enc))))"

fun pad_loop :: "nat \<Rightarrow> nat \<Rightarrow> u8 \<Rightarrow> bytes \<Rightarrow> bool res" where
  "pad_loop 0 i padding plain = Inr True"
| "pad_loop (Suc k) i padding plain =
     (if length plain \<le> i then Inl UB
      else if plain ! (length plain - 1 - i) \<noteq> padding then Inr False
      else pad_loop k (i + 1) padding plain)"

definition BoATSoftRotNvramDec ::
  "(bytes \<Rightarrow> bytes) \<Rightarrow> (bytes \<Rightarrow> bytes \<Rightarrow> bytes \<Rightarrow> bytes res) \<Rightarrow> bytes option \<Rightarrow> nat option \<Rightarrow> bytes res" where
  "BoATSoftRotNvramDec hash aes_dec data_ptr out =
     (case data_ptr of
        None \<Rightarrow> Inl (Err BOAT_ERROR_COMMON_INVALID_ARGUMENT)
      | Some xs \<Rightarrow>
          guardR (out = None \<or> xs = []) BOAT_ERROR_COMMON_INVALID_ARGUMENT
         (bindR (buf_get xs 0 BOAT_STORAGE_SALT_SIZE) (\<lambda>salt.
          bindR (buf_get xs BOAT_STORAGE_SALT_SIZE 32) (\<lambda>orig.
          let enc = drop (BOAT_STORAGE_SALT_SIZE + 32) xs in
          case aes_dec salt g_aes_key enc of
            Inl UB \<Rightarrow> Inl UB
          | Inl (Err _) \<Rightarrow> Inl (Err BOAT_ERROR)
          | Inr plain \<Rightarrow>
              if plain = [] then Inl UB
              else
                let padding = last plain in
                guardR (padding > 16) BOAT_ERROR
               (bindR (pad_loop (unat padding) 0 padding plain) (\<lambda>ok.
                guardR (\<not> ok) BOAT_ERROR
               (let body = take (length plain - unat padding) plain in
                guardR (orig \<noteq> hash body) BOAT_ERROR
                  (if the out < length body then Inl UB else Inr body))))))))"

subsection \<open>Reference notions\<close>

text \<open>Overlaying bytes on a content that is filled up with zeros when the position lies behind its end.\<close>

definition overlay :: "bytes \<Rightarrow> nat \<Rightarrow> bytes \<Rightarrow> bytes" where
  "overlay c off xs = take off (c @ replicate (off - length c) 0) @ xs @ drop (off + length xs) c"

definition area_rd :: "BoatStoreFile \<Rightarrow> BoatStoreType \<Rightarrow> nat \<Rightarrow> u32 \<Rightarrow> u32 \<Rightarrow> nvram \<Rightarrow> bytes res" where
  "area_rd f t room off n s = BoatReadSoftRotNvram f off (Some room) n t s"

definition area_wr ::
  "(nat \<Rightarrow> bytes option) \<Rightarrow> BoatStoreFile \<Rightarrow> BoatStoreType \<Rightarrow> u32 \<Rightarrow> bytes \<Rightarrow> nvram \<Rightarrow> unit res \<times> nvram" where
  "area_wr mal f t off xs s = BoATStoreSoftRotNvram mal f off (Some xs) (of_nat (length xs)) t s"

fun area_base :: "BoatStoreFile \<Rightarrow> nat" where
  "area_base BOAT_STORE_KEYPAIR = 0"
| "area_base BOAT_STORE_PRIKEY = 845"
| "area_base BOAT_STORE_NETWORK = 1472"

fun area_cap :: "BoatStoreFile \<Rightarrow> BoatStoreType \<Rightarrow> nat" where
  "area_cap BOAT_STORE_KEYPAIR t = 717"
| "area_cap BOAT_STORE_PRIKEY t = (if t = BOAT_STORE_TYPE_FLASH then 499 else 256)"
| "area_cap BOAT_STORE_NETWORK t = (if t = BOAT_STORE_TYPE_FLASH then 5120 else 1024)"

definition area_content :: "BoatStoreFile \<Rightarrow> BoatStoreType \<Rightarrow> nvram \<Rightarrow> bytes" where
  "area_content f t s =
     take (area_cap f t) (if t = BOAT_STORE_TYPE_FLASH then drop (area_base f) (file_bytes s) else rambuf f s)"

text \<open>
  The sizes of the RAM buffers: that of the networks has 5120 bytes when Hyperledger Fabric, HW-BCS or ChainMaker is part of the build and 1024 otherwise.
  Both builds are covered; \<open>area_cap\<close> counts on the 1024 bytes that are there in both.
\<close>

definition nvram_ok :: "nvram \<Rightarrow> bool" where
  "nvram_ok s \<longleftrightarrow> fs_open s \<and> fs_create s \<and> length (file_bytes s) \<le> fs_capacity s \<and>
     6592 \<le> fs_capacity s \<and> fs_capacity s < 2147483648 \<and> length (RAM_BOAT_DATA s) = 1024 \<and>
     length (RAM_BOAT_NETWORK_DATA s) \<in> {1024, 5120} \<and> length (RAM_BOAT_PRIKEY_DATA s) = 256"

definition zero_extends :: "bytes \<Rightarrow> bytes \<Rightarrow> bool" where
  "zero_extends c c' \<longleftrightarrow> (\<exists>k. c' = c @ replicate k 0)"

text \<open>What a write to one area may do to the others: fill a short file up with zeros.\<close>

definition area_frame :: "BoatStoreFile \<Rightarrow> BoatStoreType \<Rightarrow> nvram \<Rightarrow> nvram \<Rightarrow> bool" where
  "area_frame f t s s' \<longleftrightarrow>
     (\<forall>g u. (g, u) \<noteq> (f, t) \<longrightarrow> u \<noteq> BOAT_STORE_TYPE_UNKNOWN \<longrightarrow> zero_extends (area_content g u s) (area_content g u s'))"

definition malloc_total :: "(nat \<Rightarrow> bytes option) \<Rightarrow> bool" where
  "malloc_total mal \<longleftrightarrow> (\<forall>n. \<exists>b. mal n = Some b \<and> length b = n)"

text \<open>An allocator that never fails, for the interpretations on concrete areas.\<close>

definition heap_all :: "nat \<Rightarrow> bytes option" where
  "heap_all n = Some (replicate n 0)"

definition blank_device :: nvram where
  "blank_device = \<lparr>wallet_file = None, RAM_BOAT_DATA = replicate 1024 0, RAM_BOAT_NETWORK_DATA = replicate 1024 0,
     RAM_BOAT_PRIKEY_DATA = replicate 256 0, fs_open = True, fs_create = True, fs_capacity = 65536\<rparr>"

text \<open>The same with the larger buffer of the builds with Hyperledger Fabric, HW-BCS or ChainMaker.\<close>

definition blank_device_large :: nvram where
  "blank_device_large = blank_device\<lparr>RAM_BOAT_NETWORK_DATA := replicate 5120 0\<rparr>"

text \<open>
  What the code relies on: the random salt has 16 bytes, the hash 32, and on whole
  blocks decryption with the same vector and key undoes encryption.
\<close>

definition cipher_ok ::
  "(bytes \<Rightarrow> bytes) \<Rightarrow> bytes \<Rightarrow> (bytes \<Rightarrow> bytes \<Rightarrow> bytes \<Rightarrow> bytes res) \<Rightarrow> (bytes \<Rightarrow> bytes \<Rightarrow> bytes \<Rightarrow> bytes res) \<Rightarrow> bool" where
  "cipher_ok hash salt aes_enc aes_dec \<longleftrightarrow>
     length salt = 16 \<and> (\<forall>xs. length (hash xs) = 32) \<and>
     (\<forall>key d. length d mod 16 = 0 \<longrightarrow>
        (\<exists>c. aes_enc salt key d = Inr c \<and> length c = length d \<and> aes_dec salt key c = Inr d))"

subsection \<open>Correctness\<close>

lemma offset_base_unat: "offset_base f = of_nat (area_base f)"
  by (cases f) (simp_all add: BOAT_STORAGE_KEYPAIR_OFFSET_def BOAT_STORAGE_NETWORK_OFFSET_def
      BOAT_STORAGE_PRIKEY_OFFSET_def BOAT_STORAGE_KEYPAIR_MAXLEN_def BOAT_STORAGE_PRIKEY_MAXLEN_def)

lemma exceeds_area_iff:
  "n < 4294967296 \<Longrightarrow> exceeds_area f (of_nat n) \<longleftrightarrow> f \<noteq> BOAT_STORE_NETWORK \<and> area_cap f BOAT_STORE_TYPE_FLASH < n"
  by (cases f) (simp_all add: BOAT_STORAGE_KEYPAIR_MAXLEN_def BOAT_STORAGE_PRIKEY_MAXLEN_def word_less_nat_alt)

lemma area_cap_bound: "area_cap f t \<le> 5120" "area_cap f t \<le> area_cap f BOAT_STORE_TYPE_FLASH"
  "area_base f \<le> 1472" "area_base f + area_cap f t \<le> 6592"
  by (cases f; simp)+

lemma rambuf_length: "nvram_ok s \<Longrightarrow> area_cap f BOAT_STORE_TYPE_RAM \<le> length (rambuf f s)"
  "nvram_ok s \<Longrightarrow> length (rambuf f s) \<le> 5120"
  by (cases f; auto simp: nvram_ok_def)+

lemma area_rd_ok:
  assumes ok: "nvram_ok s" and t: "t \<noteq> BOAT_STORE_TYPE_UNKNOWN" and n: "0 < n" "n \<le> room"
    and fit: "off + n \<le> length (area_content f t s)"
  shows "area_rd f t room (of_nat off) (of_nat n) s = Inr (take n (drop off (area_content f t s)))"
proof -
  have cap: "off + n \<le> area_cap f t" using fit by (simp add: area_content_def)
  then have small: "off + n \<le> 5120" using area_cap_bound(1) [of f t] by simp
  then have u: "unat (of_nat off :: u32) = off" "unat (of_nat n :: u32) = n"
    "unat (of_nat off + of_nat n :: u32) = off + n" "(of_nat n :: u32) \<noteq> 0"
    using n by (simp_all add: unat_plus_if' word_unat_eq_iff)
  have ex: "\<not> exceeds_area f (of_nat off + of_nat n)"
    using exceeds_area_iff [of "off + n" f] small cap area_cap_bound(2) [of f t] by simp
  have sub: "take n (drop off (take (area_cap f t) xs)) = take n (drop off xs)" for xs :: bytes
    using cap by (simp add: drop_take min_def)
  show ?thesis
  proof (cases "t = BOAT_STORE_TYPE_FLASH")
    case True
    let ?F = "file_bytes s"
    have len: "area_base f + off + n \<le> length ?F" using fit n True by (simp add: area_content_def) linarith
    have F: "wallet_file s \<noteq> None" using len n by (cases "wallet_file s") (simp_all add: file_bytes_def)
    have b: "unat (of_nat (area_base f) + of_nat off :: u32) = area_base f + off"
      "unat (of_nat n + (of_nat (area_base f) + of_nat off) :: u32) = area_base f + off + n"
      using small area_cap_bound(3) [of f] by (simp_all add: unat_plus_if')
    have lF: "unat (of_nat (length ?F) :: u32) = length ?F" using ok by (intro unat_of_nat_u32) (simp add: nvram_ok_def)
    have "BoatReadStorage (offset_base f + of_nat off) (Some room) (of_nat n) s = Inr (take n (drop (area_base f + off) ?F))"
      using ok F len u b lF n(2)
      by (simp add: BoatReadStorage_def offset_base_unat nvram_ok_def word_less_nat_alt Let_def)
    then show ?thesis
      using True ex u sub [of "drop (area_base f) ?F"]
      by (simp add: area_rd_def BoatReadSoftRotNvram_def area_content_def add.commute)
  next
    case False
    with t have t: "t = BOAT_STORE_TYPE_RAM" by (cases t) auto
    have "unat (of_nat (length (rambuf f s)) :: u32) = length (rambuf f s)"
      using rambuf_length(2) [OF ok, of f] by (intro unat_of_nat_u32) simp
    moreover have "off + n \<le> length (rambuf f s)" using fit t by (simp add: area_content_def)
    ultimately show ?thesis
      using t ex u sub [of "rambuf f s"] n(2)
      by (simp add: area_rd_def BoatReadSoftRotNvram_def area_content_def word_less_nat_alt buf_get_def)
  qed
qed

lemma area_rd_short:
  assumes ok: "nvram_ok s" and t: "t \<noteq> BOAT_STORE_TYPE_UNKNOWN" and n: "0 < n"
    and cap: "off + n \<le> area_cap f t" and short: "length (area_content f t s) < off + n"
  shows "\<exists>e. area_rd f t room (of_nat off) (of_nat n) s = Inl (Err e)"
proof (cases "t = BOAT_STORE_TYPE_FLASH")
  case True
  let ?F = "file_bytes s"
  have small: "off + n \<le> 5120" using cap area_cap_bound(1) [of f t] by simp
  have u: "(of_nat n :: u32) \<noteq> 0" "unat (of_nat n + (of_nat (area_base f) + of_nat off) :: u32) = area_base f + off + n"
    using small n area_cap_bound(3) [of f] by (simp_all add: word_unat_eq_iff unat_plus_if')
  have ex: "\<not> exceeds_area f (of_nat off + of_nat n)"
    using exceeds_area_iff [of "off + n" f] small cap area_cap_bound(2) [of f t] by simp
  have lF: "unat (of_nat (length ?F) :: u32) = length ?F" using ok by (intro unat_of_nat_u32) (simp add: nvram_ok_def)
  have "length ?F < area_base f + off + n" using short cap True by (simp add: area_content_def)
  then show ?thesis
    using True ex u lF
    by (auto simp: area_rd_def BoatReadSoftRotNvram_def BoatReadStorage_def offset_base_unat word_less_nat_alt guardR_def)
next
  case False
  then have "t = BOAT_STORE_TYPE_RAM" using t by (cases t) auto
  then show ?thesis using rambuf_length(1) [OF ok, of f] short cap by (simp add: area_content_def)
qed

lemma overlay_inside:
  "off \<le> length c \<Longrightarrow> overlay c off xs = take off c @ xs @ drop (off + length xs) c"
  by (simp add: overlay_def)

lemma overlay_length: "length (overlay c off xs) = max (length c) (off + length xs)"
  by (simp add: overlay_def)

lemma open_for_update_ok: "nvram_ok s \<Longrightarrow> \<exists>s'. open_for_update s = (Inr (file_bytes s), s') \<and>
    (s' = s \<or> s' = s\<lparr>wallet_file := Some []\<rparr> \<and> file_bytes s = [])"
  by (auto simp: open_for_update_def nvram_ok_def file_bytes_def Let_def split: option.splits)

lemma write_storage_ok:
  assumes ok: "nvram_ok s" and mal: "malloc_total mal" and fit: "off + length xs \<le> fs_capacity s"
  shows "BoatWriteStorage mal (of_nat off) (Some xs) s =
    (Inr (), s\<lparr>wallet_file := Some (overlay (file_bytes s) off xs)\<rparr>)"
proof -
  let ?F = "file_bytes s"
  obtain s' where o: "open_for_update s = (Inr ?F, s')"
    and s': "s' = s \<or> s' = s\<lparr>wallet_file := Some []\<rparr> \<and> ?F = []"
    using open_for_update_ok [OF ok] by blast
  have cap: "length ?F \<le> fs_capacity s" "fs_capacity s < 2147483648" "fs_capacity s' = fs_capacity s"
    using ok s' by (auto simp: nvram_ok_def)
  have upd: "s'\<lparr>wallet_file := w\<rparr> = s\<lparr>wallet_file := w\<rparr>" for w using s' by auto
  have u: "unat (of_nat (length ?F) :: u32) = length ?F" "unat (of_nat off :: u32) = off"
    using cap fit by simp_all
  show ?thesis
  proof (cases "off \<le> length ?F")
    case True
    have "fwrite (fs_capacity s) ?F off xs = (overlay ?F off xs, length xs)"
      using fit by (simp add: fwrite_def overlay_inside [OF True] Let_def min_absorb1)
    then show ?thesis
      using True u cap(3) upd by (simp add: BoatWriteStorage_def bindS_def o Let_def word_less_nat_alt)
  next
    case False
    then have d: "unat (of_nat off - of_nat (length ?F) :: u32) = off - length ?F"
      using u by (subst unat_sub) (simp_all add: word_le_nat_alt)
    obtain b where b: "mal (off - length ?F) = Some b" using mal by (auto simp: malloc_total_def)
    let ?Z = "?F @ replicate (off - length ?F) 0"
    have w1: "fwrite (fs_capacity s) ?F (length ?F) (replicate (off - length ?F) 0) = (?Z, off - length ?F)"
      using False fit by (simp add: fwrite_def Let_def min_absorb1)
    have w2: "fwrite (fs_capacity s) ?Z (length ?Z) xs = (overlay ?F off xs, length xs)"
      using False fit by (simp add: fwrite_def overlay_def Let_def min_absorb1)
    show ?thesis
      using False u d b w1 w2 cap(3) upd
      by (simp add: BoatWriteStorage_def bindS_def o Let_def word_less_nat_alt)
  qed
qed

lemma take_skip:
  "length a = off \<Longrightarrow> off + length xs \<le> cap \<Longrightarrow> take cap (a @ xs @ r) = a @ xs @ take (cap - (off + length xs)) r"
  by simp

lemma take_prefix: "n \<le> length (drop b xs) \<Longrightarrow> b \<le> length xs \<Longrightarrow> take n (drop b (xs @ ys)) = take n (drop b xs)"
  by simp

lemma fill_shift:
  assumes "off \<le> cap"
  shows "take off (drop base (F @ replicate (base + off - length F) 0)) =
    take off (take cap (drop base F) @ replicate (off - length (take cap (drop base F))) (0 :: u8))"
proof -
  consider "base + off \<le> length F" | "length F \<le> base" | "base < length F" "length F < base + off" by linarith
  then show ?thesis
  proof cases
    case 1
    then have "off \<le> length F - base" by linarith
    then show ?thesis using 1 assms by (simp add: min_absorb1)
  next
    case 2
    then show ?thesis by (simp add: drop_replicate)
  next
    case 3
    then have "take cap (drop base F) = drop base F" using assms by simp
    then show ?thesis using 3 by simp
  qed
qed

lemma take_drop_overlay_same:
  assumes "off + length xs \<le> cap"
  shows "take cap (drop base (overlay F (base + off) xs)) = overlay (take cap (drop base F)) off xs"
proof -
  let ?Z = "F @ replicate (base + off - length F) (0 :: u8)"
  have lz: "length (take (base + off) ?Z) = base + off" by simp
  have "drop base (overlay F (base + off) xs) = drop base (take (base + off) ?Z) @ xs @ drop (base + off + length xs) F"
    unfolding overlay_def using lz by (subst drop_append) (simp del: take_append)
  moreover have "drop base (take (base + off) ?Z) = take off (drop base ?Z)" by (simp only: drop_take) simp
  moreover have la: "length (take off (drop base ?Z)) = off" by simp
  ultimately have "take cap (drop base (overlay F (base + off) xs)) =
      take off (drop base ?Z) @ xs @ take (cap - (off + length xs)) (drop (base + off + length xs) F)"
    by (simp only: take_skip [OF la assms])
  moreover have "drop (off + length xs) (take cap (drop base F)) = take (cap - (off + length xs)) (drop (base + off + length xs) F)"
    by (simp add: drop_take add.commute add.left_commute)
  moreover have "off \<le> cap" using assms by simp
  ultimately show ?thesis
    unfolding overlay_def fill_shift [OF \<open>off \<le> cap\<close>] by simp
qed

lemma take_drop_overlay_before:
  assumes "base + cap \<le> off"
  shows "zero_extends (take cap (drop base F)) (take cap (drop base (overlay F off xs)))"
proof -
  let ?Z = "F @ replicate (off - length F) (0 :: u8)"
  have "cap \<le> length (drop base (take off ?Z))" "base \<le> length (take off ?Z)" using assms by simp_all
  then have "take cap (drop base (overlay F off xs)) = take cap (drop base (take off ?Z))"
    unfolding overlay_def by (rule take_prefix)
  also have "\<dots> = take cap (drop base ?Z)" using assms by (simp add: drop_take min_def del: take_append drop_append)
  also have "\<dots> = take cap (drop base F @ replicate (off - length F - (base - length F)) 0)"
    by (simp add: drop_replicate)
  also have "\<dots> = take cap (drop base F) @ replicate (min (cap - (length F - base)) (off - length F - (base - length F))) 0"
    by (simp add: take_replicate min.commute)
  finally show ?thesis unfolding zero_extends_def by blast
qed

lemma take_drop_overlay_after:
  assumes "off + length xs \<le> base"
  shows "take cap (drop base (overlay F off xs)) = take cap (drop base F)"
proof -
  have l: "length (take off (F @ replicate (off - length F) 0)) = off" by simp
  have "drop base (overlay F off xs) = drop (base - (off + length xs)) (drop (off + length xs) F)"
    using assms by (simp add: overlay_def l del: take_append)
  also have "\<dots> = drop base F" using assms by simp
  finally show ?thesis by simp
qed

lemma nvram_ok_update:
  "nvram_ok s \<Longrightarrow> length F \<le> fs_capacity s \<Longrightarrow> nvram_ok (s\<lparr>wallet_file := Some F\<rparr>)"
  "nvram_ok s \<Longrightarrow> length b = length (rambuf f s) \<Longrightarrow> nvram_ok (set_rambuf f b s)"
  by (simp add: nvram_ok_def file_bytes_def) (cases f; simp add: nvram_ok_def file_bytes_def)

lemma set_rambuf_simps [simp]:
  "file_bytes (set_rambuf f b s) = file_bytes s"
  "rambuf g (set_rambuf f b s) = (if g = f then b else rambuf g s)"
  "rambuf f (s\<lparr>wallet_file := w\<rparr>) = rambuf f s"
  "file_bytes (s\<lparr>wallet_file := Some F\<rparr>) = F"
  by (cases f; cases g; simp add: file_bytes_def)+

lemma zero_extends_refl: "zero_extends c c"
  unfolding zero_extends_def by (rule exI [of _ 0]) simp

lemma zero_extends_trans: "zero_extends a b \<Longrightarrow> zero_extends b c \<Longrightarrow> zero_extends a c"
  unfolding zero_extends_def by (auto simp flip: replicate_add)

lemma area_disjoint: "f \<noteq> g \<Longrightarrow> area_base f + area_cap f t \<le> area_base g \<or> area_base g + area_cap g t' \<le> area_base f"
  by (cases f; cases g; simp)

lemma area_wr_ok:
  assumes ok: "nvram_ok s" and mal: "malloc_total mal" and t: "t \<noteq> BOAT_STORE_TYPE_UNKNOWN" and ne: "xs \<noteq> []"
    and fit: "off + length xs \<le> area_cap f t"
  shows "\<exists>s'. area_wr mal f t (of_nat off) xs s = (Inr (), s') \<and> nvram_ok s' \<and>
    area_content f t s' = overlay (area_content f t s) off xs \<and>
    (\<forall>g u. (g, u) \<noteq> (f, t) \<longrightarrow> u \<noteq> BOAT_STORE_TYPE_UNKNOWN \<longrightarrow> zero_extends (area_content g u s) (area_content g u s'))"
proof -
  let ?n = "length xs"
  have small: "off + ?n \<le> 5120" using fit area_cap_bound(1) [of f t] by simp
  have u: "unat (of_nat off :: u32) = off" "unat (of_nat ?n :: u32) = ?n"
    "unat (of_nat off + of_nat ?n :: u32) = off + ?n" "(of_nat ?n :: u32) \<noteq> 0"
    using small ne by (simp_all add: unat_plus_if' word_unat_eq_iff)
  have ex: "\<not> exceeds_area f (of_nat off + of_nat ?n)"
    using exceeds_area_iff [of "off + ?n" f] small fit area_cap_bound(2) [of f t] by simp
  have get: "buf_get xs 0 (unat (of_nat ?n :: u32)) = Inr xs" unfolding u by (simp add: buf_get_def)
  show ?thesis
  proof (cases "t = BOAT_STORE_TYPE_FLASH")
    case True
    let ?F = "overlay (file_bytes s) (area_base f + off) xs"
    let ?s = "s\<lparr>wallet_file := Some ?F\<rparr>"
    have fc: "area_base f + off + ?n \<le> fs_capacity s"
      using fit True area_cap_bound(4) [of f t] ok by (simp add: nvram_ok_def)
    have "BoatWriteStorage mal (offset_base f + of_nat off) (Some xs) s = (Inr (), ?s)"
      using write_storage_ok [OF ok mal, of "area_base f + off" xs] fc by (simp add: offset_base_unat)
    then have w: "area_wr mal f t (of_nat off) xs s = (Inr (), ?s)"
      using True ex u(4) get by (simp add: area_wr_def BoATStoreSoftRotNvram_def)
    have "nvram_ok ?s" using ok fc by (intro nvram_ok_update) (simp_all add: overlay_length nvram_ok_def)
    moreover have "area_content f t ?s = overlay (area_content f t s) off xs"
      using take_drop_overlay_same [of off xs "area_cap f t" "area_base f" "file_bytes s"] fit True by (simp add: area_content_def)
    moreover have "zero_extends (area_content g v s) (area_content g v ?s)" if "(g, v) \<noteq> (f, t)" for g v
    proof (cases "v = BOAT_STORE_TYPE_FLASH")
      case False
      then show ?thesis by (simp add: area_content_def zero_extends_refl)
    next
      case v: True
      with that True have "g \<noteq> f" by simp
      from area_disjoint [OF this, of v t] fit show ?thesis
        using take_drop_overlay_before [of "area_base g" "area_cap g v" "area_base f + off" "file_bytes s" xs]
          take_drop_overlay_after [of "area_base f + off" xs "area_base g" "area_cap g v" "file_bytes s"] v True
        by (auto simp: area_content_def zero_extends_refl)
    qed
    ultimately show ?thesis using w by blast
  next
    case False
    with t have t: "t = BOAT_STORE_TYPE_RAM" by (cases t) auto
    let ?b = "overlay (rambuf f s) off xs"
    let ?s = "set_rambuf f ?b s"
    have len: "off + ?n \<le> length (rambuf f s)" using fit t rambuf_length(1) [OF ok, of f] by simp
    then have p: "buf_put (rambuf f s) off xs = Inr ?b" by (simp add: buf_put_def overlay_inside)
    have "unat (of_nat (length (rambuf f s)) :: u32) = length (rambuf f s)"
      using rambuf_length(2) [OF ok, of f] by (intro unat_of_nat_u32) simp
    then have w: "area_wr mal f t (of_nat off) xs s = (Inr (), ?s)"
      using t ex u get len p by (simp add: area_wr_def BoATStoreSoftRotNvram_def word_less_nat_alt)
    have "nvram_ok ?s" using ok len by (intro nvram_ok_update) (simp_all add: overlay_length)
    moreover have "area_content f t ?s = overlay (area_content f t s) off xs"
      using take_drop_overlay_same [of off xs "area_cap f t" 0 "rambuf f s"] fit t by (simp add: area_content_def)
    moreover have "zero_extends (area_content g v s) (area_content g v ?s)"
      if "(g, v) \<noteq> (f, t)" "v \<noteq> BOAT_STORE_TYPE_UNKNOWN" for g v
    proof -
      have "v = BOAT_STORE_TYPE_FLASH \<or> g \<noteq> f" using that t by (cases v) auto
      then show ?thesis by (auto simp: area_content_def zero_extends_refl)
    qed
    ultimately show ?thesis using w by blast
  qed
qed

locale storage_area =
  fixes rd :: "nat \<Rightarrow> u32 \<Rightarrow> u32 \<Rightarrow> 's \<Rightarrow> bytes res"
    and wr :: "u32 \<Rightarrow> bytes \<Rightarrow> 's \<Rightarrow> unit res \<times> 's"
    and ok :: "'s \<Rightarrow> bool"
    and content :: "'s \<Rightarrow> bytes"
    and cap :: nat
    and frame :: "'s \<Rightarrow> 's \<Rightarrow> bool"
  assumes cap_small: "cap \<le> 65535"
    and frame_refl: "frame s s"
    and frame_trans: "frame s1 s2 \<Longrightarrow> frame s2 s3 \<Longrightarrow> frame s1 s3"
    and content_cap: "ok s \<Longrightarrow> length (content s) \<le> cap"
    and rd_ok: "ok s \<Longrightarrow> 0 < n \<Longrightarrow> n \<le> room \<Longrightarrow> off + n \<le> length (content s) \<Longrightarrow>
      rd room (of_nat off) (of_nat n) s = Inr (take n (drop off (content s)))"
    and rd_short: "ok s \<Longrightarrow> 0 < n \<Longrightarrow> off + n \<le> cap \<Longrightarrow> length (content s) < off + n \<Longrightarrow>
      \<exists>e. rd room (of_nat off) (of_nat n) s = Inl (Err e)"
    and wr_ok: "ok s \<Longrightarrow> xs \<noteq> [] \<Longrightarrow> off + length xs \<le> cap \<Longrightarrow>
      \<exists>s'. wr (of_nat off) xs s = (Inr (), s') \<and> ok s' \<and> frame s s' \<and> content s' = overlay (content s) off xs"
begin

lemma rd_parts:
  assumes "ok s" "content s = pre @ mid @ post" "mid \<noteq> []" "length mid \<le> room"
  shows "rd room (of_nat (length pre)) (of_nat (length mid)) s = Inr mid"
  using rd_ok [OF assms(1), of "length mid" room "length pre"] assms by simp

lemma rd_after_wr:
  assumes "ok s" "xs \<noteq> []" "off + length xs \<le> cap"
  shows "\<exists>s'. wr (of_nat off) xs s = (Inr (), s') \<and> ok s' \<and>
    rd (length xs) (of_nat off) (of_nat (length xs)) s' = Inr xs"
proof -
  obtain s' where s': "wr (of_nat off) xs s = (Inr (), s')" "ok s'" "content s' = overlay (content s) off xs"
    using wr_ok [OF assms] by blast
  have "off + length xs \<le> length (content s')" by (simp add: s'(3) overlay_length)
  moreover have "take (length xs) (drop off (overlay (content s) off xs)) = xs"
    by (simp add: overlay_def)
  ultimately have "rd (length xs) (of_nat off) (of_nat (length xs)) s' = Inr xs"
    using rd_ok [OF s'(2), of "length xs" "length xs" off] assms(2) s'(3) by simp
  then show ?thesis using s' by blast
qed

end

lemma area_is_storage:
  assumes "malloc_total mal" "t \<noteq> BOAT_STORE_TYPE_UNKNOWN"
  shows "storage_area (area_rd f t) (area_wr mal f t) nvram_ok (area_content f t) (area_cap f t) (area_frame f t)"
proof
  show "area_frame f t s s" for s by (simp add: area_frame_def zero_extends_refl)
  show "area_frame f t s1 s2 \<Longrightarrow> area_frame f t s2 s3 \<Longrightarrow> area_frame f t s1 s3" for s1 s2 s3
    unfolding area_frame_def by (meson zero_extends_trans)
  show "area_cap f t \<le> 65535" using area_cap_bound(1) [of f t] by simp
  show "length (area_content f t s) \<le> area_cap f t" for s by (simp add: area_content_def)
  show "nvram_ok s \<Longrightarrow> 0 < n \<Longrightarrow> n \<le> room \<Longrightarrow> off + n \<le> length (area_content f t s) \<Longrightarrow>
      area_rd f t room (of_nat off) (of_nat n) s = Inr (take n (drop off (area_content f t s)))" for s n room off
    using assms by (intro area_rd_ok)
  show "nvram_ok s \<Longrightarrow> 0 < n \<Longrightarrow> off + n \<le> area_cap f t \<Longrightarrow> length (area_content f t s) < off + n \<Longrightarrow>
      \<exists>e. area_rd f t room (of_nat off) (of_nat n) s = Inl (Err e)" for s n room off
    using assms(2) by (intro area_rd_short)
  show "nvram_ok s \<Longrightarrow> xs \<noteq> [] \<Longrightarrow> off + length xs \<le> area_cap f t \<Longrightarrow>
      \<exists>s'. area_wr mal f t (of_nat off) xs s = (Inr (), s') \<and> nvram_ok s' \<and> area_frame f t s s' \<and>
        area_content f t s' = overlay (area_content f t s) off xs" for s xs off
    using area_wr_ok [OF _ assms] unfolding area_frame_def by blast
qed

lemma heap_all_total: "malloc_total heap_all"
  by (simp add: malloc_total_def heap_all_def)

interpretation keypair_flash: storage_area "area_rd BOAT_STORE_KEYPAIR BOAT_STORE_TYPE_FLASH"
  "area_wr heap_all BOAT_STORE_KEYPAIR BOAT_STORE_TYPE_FLASH" nvram_ok
  "area_content BOAT_STORE_KEYPAIR BOAT_STORE_TYPE_FLASH" "area_cap BOAT_STORE_KEYPAIR BOAT_STORE_TYPE_FLASH"
  "area_frame BOAT_STORE_KEYPAIR BOAT_STORE_TYPE_FLASH"
  by (rule area_is_storage [OF heap_all_total]) simp

interpretation prikey_flash: storage_area "area_rd BOAT_STORE_PRIKEY BOAT_STORE_TYPE_FLASH"
  "area_wr heap_all BOAT_STORE_PRIKEY BOAT_STORE_TYPE_FLASH" nvram_ok
  "area_content BOAT_STORE_PRIKEY BOAT_STORE_TYPE_FLASH" "area_cap BOAT_STORE_PRIKEY BOAT_STORE_TYPE_FLASH"
  "area_frame BOAT_STORE_PRIKEY BOAT_STORE_TYPE_FLASH"
  by (rule area_is_storage [OF heap_all_total]) simp

lemma zero_extends_read:
  assumes "nvram_ok s" "nvram_ok s'" "zero_extends (area_content g u s) (area_content g u s')"
    "u \<noteq> BOAT_STORE_TYPE_UNKNOWN" "0 < n" "n \<le> room" "p + n \<le> length (area_content g u s)"
  shows "area_rd g u room (of_nat p) (of_nat n) s' = area_rd g u room (of_nat p) (of_nat n) s"
proof -
  obtain k where k: "area_content g u s' = area_content g u s @ replicate k 0"
    using assms(3) by (auto simp: zero_extends_def)
  have "p + n \<le> length (area_content g u s')" using assms(7) by (simp add: k)
  then show ?thesis
    using area_rd_ok [OF assms(1,4,5,6,7)] area_rd_ok [OF assms(2,4,5,6), of p g] assms(7) by (simp add: k)
qed

text \<open>
  C34: What is stored is read back, and nothing else is lost: a store of data that fits one of the three areas, on
  flash or in RAM, succeeds; the same range then reads back the data; and every range of every other area that
  could be read before still reads the same bytes.
\<close>

theorem store_then_read:
  assumes "nvram_ok s" "malloc_total mal" "t \<noteq> BOAT_STORE_TYPE_UNKNOWN" "xs \<noteq> []"
    "off + length xs \<le> area_cap f t"
  shows "\<exists>s'. BoATStoreSoftRotNvram mal f (of_nat off) (Some xs) (of_nat (length xs)) t s = (Inr (), s') \<and>
     nvram_ok s' \<and>
     BoatReadSoftRotNvram f (of_nat off) (Some (length xs)) (of_nat (length xs)) t s' = Inr xs \<and>
     (\<forall>g u p n. (g, u) \<noteq> (f, t) \<and> u \<noteq> BOAT_STORE_TYPE_UNKNOWN \<and> 0 < n \<and> p + n \<le> length (area_content g u s) \<longrightarrow>
        BoatReadSoftRotNvram g (of_nat p) (Some n) (of_nat n) u s' =
        BoatReadSoftRotNvram g (of_nat p) (Some n) (of_nat n) u s)"
proof -
  from area_wr_ok [OF assms] obtain s' where w: "area_wr mal f t (of_nat off) xs s = (Inr (), s')" "nvram_ok s'"
    "\<forall>g u. (g, u) \<noteq> (f, t) \<longrightarrow> u \<noteq> BOAT_STORE_TYPE_UNKNOWN \<longrightarrow> zero_extends (area_content g u s) (area_content g u s')"
    by blast
  from storage_area.rd_after_wr [OF area_is_storage [OF assms(2,3)] assms(1,4,5)] w(1)
  have r: "area_rd f t (length xs) (of_nat off) (of_nat (length xs)) s' = Inr xs" by auto
  show ?thesis
    using w r zero_extends_read [OF assms(1) w(2)] by (auto simp: area_wr_def area_rd_def)
qed

lemma blank_device_ok: "nvram_ok blank_device" "nvram_ok blank_device_large"
  by (simp_all add: nvram_ok_def blank_device_def blank_device_large_def file_bytes_def)

theorem store_then_read_witness:
  "\<exists>s'. BoATStoreSoftRotNvram heap_all BOAT_STORE_PRIKEY 10 (Some [1, 2, 3]) 3 BOAT_STORE_TYPE_FLASH blank_device = (Inr (), s') \<and>
     BoatReadSoftRotNvram BOAT_STORE_PRIKEY 10 (Some 3) 3 BOAT_STORE_TYPE_FLASH s' = Inr [1, 2, 3]"
  using store_then_read [OF blank_device_ok(1) heap_all_total, of BOAT_STORE_TYPE_FLASH "[1, 2, 3]" 10 BOAT_STORE_PRIKEY]
  by (auto simp: numeral_3_eq_3)

lemma padded_len_props:
  "0 < n \<Longrightarrow> padded_len n mod 16 = 0 \<and> n < padded_len n \<and> padded_len n \<le> n + 16"
proof -
  assume n: "0 < n"
  define q where "q = (n - 1) div 16"
  have "n - 1 = 16 * q + (n - 1) mod 16" "(n - 1) mod 16 < 16" by (simp_all add: q_def)
  then have "16 * q < n" "n \<le> 16 * q + 16" using n by linarith+
  moreover have "padded_len n = (if 16 * q + 16 = n then n + 16 else 16 * q + 16)"
    by (simp add: padded_len_def Let_def q_def algebra_simps)
  ultimately show ?thesis by presburger
qed

lemma pad_loop_ok:
  "k + i \<le> length plain \<Longrightarrow> (\<forall>j < k. plain ! (length plain - 1 - (i + j)) = p) \<Longrightarrow> pad_loop k i p plain = Inr True"
proof (induction k arbitrary: i)
  case (Suc k)
  have "\<forall>j < k. plain ! (length plain - 1 - (i + 1 + j)) = p"
    using Suc.prems(2) by (metis Suc_less_eq add.assoc plus_1_eq_Suc)
  then have "pad_loop k (i + 1) p plain = Inr True" using Suc.prems(1) by (intro Suc.IH) simp_all
  then show ?case using Suc.prems(1) Suc.prems(2) [rule_format, of 0] by simp
qed simp

lemma nvram_enc_dec_length:
  assumes "cipher_ok hash salt aes_enc aes_dec" "xs \<noteq> []" "length xs \<le> room"
  shows "\<exists>c. BoATSoftRotNvramEnc hash salt aes_enc (Some xs) = Inr c \<and> length c = 48 + padded_len (length xs) \<and>
     BoATSoftRotNvramDec hash aes_dec (Some c) (Some room) = Inr xs"
proof -
  define n where "n = padded_len (length xs)"
  define k where "k = n - length xs"
  have n: "n mod 16 = 0" "length xs < n" "n \<le> length xs + 16" "0 < k" "k \<le> 16" "n = length xs + k"
    using padded_len_props [of "length xs"] assms(2) by (auto simp: n_def k_def)
  define raw where "raw = xs @ replicate k (of_nat k :: u8)"
  have lr: "length raw = n" using n by (simp add: raw_def)
  obtain c where c: "aes_enc salt g_aes_key raw = Inr c" "length c = n" "aes_dec salt g_aes_key c = Inr raw"
    using assms(1) lr n(1) unfolding cipher_ok_def by metis
  have enc: "BoATSoftRotNvramEnc hash salt aes_enc (Some xs) = Inr (salt @ hash xs @ c)"
    using assms(2) c(1) by (simp add: BoATSoftRotNvramEnc_def Let_def raw_def k_def n_def)
  have l: "length salt = 16" "length (hash xs) = 32" using assms(1) by (auto simp: cipher_ok_def)
  have uk: "unat (of_nat k :: u8) = k" "\<not> (of_nat k :: u8) > 16"
    using n(5) by (simp_all add: unat_of_nat word_less_nat_alt)
  have last: "last raw = of_nat k" "raw \<noteq> []" using n(4) by (simp_all add: raw_def)
  have pl: "pad_loop k 0 (of_nat k) raw = Inr True"
  proof (rule pad_loop_ok)
    show "\<forall>j < k. raw ! (length raw - 1 - (0 + j)) = of_nat k"
      using n by (auto simp: raw_def nth_append)
  qed (simp add: lr n(6))
  have body: "take (length raw - k) raw = xs" "length raw - k = length xs" using n by (simp_all add: raw_def)
  have "buf_get (salt @ hash xs @ c) 0 16 = Inr salt" "buf_get (salt @ hash xs @ c) 16 32 = Inr (hash xs)"
    "drop 48 (salt @ hash xs @ c) = c" "salt @ hash xs @ c \<noteq> []"
    using l by (auto simp: buf_get_def)
  then have "BoATSoftRotNvramDec hash aes_dec (Some (salt @ hash xs @ c)) (Some room) = Inr xs"
    using c(3) last uk pl body assms(3) by (simp add: BoATSoftRotNvramDec_def Let_def)
  then show ?thesis using enc l c(2) by (auto simp: n_def)
qed

lemma xor_cipher_ok:
  "cipher_ok (\<lambda>xs. replicate 32 5) (replicate 16 9) (\<lambda>iv key d. Inr (map (\<lambda>b. b XOR 0x55) d)) (\<lambda>iv key d. Inr (map (\<lambda>b. b XOR 0x55) d))"
  by (auto simp: cipher_ok_def comp_def xor.assoc)

text \<open>
  A private key survives its encryption for storage: decrypting the salt, hash and ciphertext that \<open>BoATSoftRotNvramEnc\<close>
  produces gives the data back, whatever its length; the ciphertext is 49 to 64 bytes longer than the data.
\<close>

theorem nvram_enc_dec:
  assumes "cipher_ok hash salt aes_enc aes_dec" "xs \<noteq> []" "length xs \<le> room"
  shows "\<exists>c. BoATSoftRotNvramEnc hash salt aes_enc (Some xs) = Inr c \<and>
     length xs + 49 \<le> length c \<and> length c \<le> length xs + 64 \<and>
     BoATSoftRotNvramDec hash aes_dec (Some c) (Some room) = Inr xs"
  using nvram_enc_dec_length [OF assms] padded_len_props [of "length xs"] assms(2) by fastforce

theorem nvram_enc_dec_witness:
  "\<exists>c. BoATSoftRotNvramEnc (\<lambda>xs. replicate 32 5) (replicate 16 9) (\<lambda>iv key d. Inr (map (\<lambda>b. b XOR 0x55) d)) (Some [1, 2, 3]) = Inr c \<and>
     BoATSoftRotNvramDec (\<lambda>xs. replicate 32 5) (\<lambda>iv key d. Inr (map (\<lambda>b. b XOR 0x55) d)) (Some c) (Some 512) = Inr [1, 2, 3]"
  using nvram_enc_dec [OF xor_cipher_ok, of "[1, 2, 3]" 512] by auto

text \<open>
  Stored keys are integrity-checked: whatever bytes \<open>BoATSoftRotNvramDec\<close> accepts, the data it returns has the
  hash that is stored in front of the ciphertext.
\<close>

theorem nvram_dec_integrity:
  assumes "BoATSoftRotNvramDec hash aes_dec (Some c) (Some room) = Inr xs"
  shows "hash xs = take 32 (drop 16 c) \<and> 48 \<le> length c"
proof -
  from assms have l: "48 \<le> length c"
    by (auto simp: BoATSoftRotNvramDec_def bindR_eq_Inr buf_get_def split: if_splits)
  then have "buf_get c 16 32 = Inr (take 32 (drop 16 c))" "buf_get c 0 16 = Inr (take 16 c)" by (simp_all add: buf_get_def)
  with assms show ?thesis
    by (auto simp: BoATSoftRotNvramDec_def bindR_eq_Inr Let_def l split: sum.splits fail.splits if_splits)
qed

theorem nvram_dec_integrity_witness:
  "BoATSoftRotNvramDec (\<lambda>xs. replicate 32 5) (\<lambda>iv key d. Inr (7 # replicate 15 15)) (Some (replicate 16 9 @ replicate 32 5 @ replicate 16 1)) (Some 512) = Inr [7] \<and>
   (\<lambda>xs. replicate 32 5) [7 :: u8] = take 32 (drop 16 (replicate 16 9 @ replicate 32 5 @ replicate 16 (1 :: u8)))"
proof -
  have "pad_loop 15 0 15 (7 # replicate 15 15) = Inr True"
    by (rule pad_loop_ok) (auto simp: nth_Cons split: nat.splits)
  then have e: "BoATSoftRotNvramDec (\<lambda>xs. replicate 32 5) (\<lambda>iv key d. Inr (7 # replicate 15 15)) (Some (replicate 16 9 @ replicate 32 5 @ replicate 16 1)) (Some 512) = Inr [7]"
    by (simp add: BoATSoftRotNvramDec_def Let_def buf_get_def)
  from nvram_dec_integrity [OF e] e show ?thesis by blast
qed

end
