(* ===== verification/Boat_Records.thy ===== *)
theory Boat_Records
  imports Boat_Storage
begin

text \<open>
  The record format the key and network stores share, as the loops of \<open>sdk/keypair/boatkeypair.c\<close>,
  \<open>vendor/keystore/soft/boat_keystore.c\<close> and \<open>sdk/network/ethereum/network_ethereum.c\<close> walk it: a 4-byte counter
  followed by length-value fields. The steps that recur in those functions, reading a length field, a bounded
  parameter, the counter, or skipping fields, are defined once and take the read
  function of the storage area as an argument.
\<close>

subsection \<open>Steps of the walks\<close>

text \<open>Three bytes at the offset, the length they announce and the size of the length field.\<close>

definition read_len :: "(nat \<Rightarrow> u32 \<Rightarrow> u32 \<Rightarrow> 's \<Rightarrow> bytes res) \<Rightarrow> u32 \<Rightarrow> 's \<Rightarrow> (bytes \<times> u32 \<times> u32) res" where
  "read_len rd off s =
     bindR (rd 3 off 3 s) (\<lambda>b.
     bindR (UtilityGetLVData_L b) (\<lambda>l.
       let n = of_int l in Inr (b, n, of_int (UtilityGetTLV_LL_from_len n))))"

text \<open>
  The head of a parameter inside a record whose data starts at \<open>obj\<close> and is \<open>klen\<close> bytes long: its length, which
  must be \<open>want\<close> if that is given, and the offset of its data, which must not leave the record.
\<close>

definition param_head ::
  "(nat \<Rightarrow> u32 \<Rightarrow> u32 \<Rightarrow> 's \<Rightarrow> bytes res) \<Rightarrow> u32 option \<Rightarrow> u32 \<Rightarrow> u32 \<Rightarrow> u32 \<Rightarrow> 's \<Rightarrow> (u32 \<times> u32) res" where
  "param_head rd want obj klen off s =
     bindR (read_len rd off s) (\<lambda>(_, l, ll).
       guardR (case want of None \<Rightarrow> False | Some w \<Rightarrow> l \<noteq> w) BOAT_ERROR
      (guardR (klen < off + ll - obj + l) BOAT_ERROR
      (Inr (l, off + ll))))"

text \<open>A parameter read into the object \<open>old\<close>, and the offset behind it.\<close>

definition read_param ::
  "(nat \<Rightarrow> u32 \<Rightarrow> u32 \<Rightarrow> 's \<Rightarrow> bytes res) \<Rightarrow> u32 option \<Rightarrow> u32 \<Rightarrow> u32 \<Rightarrow> bytes \<Rightarrow> u32 \<Rightarrow> 's \<Rightarrow> (bytes \<times> u32) res" where
  "read_param rd want obj klen old off s =
     bindR (param_head rd want obj klen off s) (\<lambda>(l, o').
     bindR (rd (length old) o' l s) (\<lambda>d.
       Inr (d @ drop (length d) old, o' + l)))"

text \<open>
  The number of records, zero when it cannot be read or its check fails.
\<close>

definition read_num :: "(nat \<Rightarrow> u32 \<Rightarrow> u32 \<Rightarrow> 's \<Rightarrow> bytes res) \<Rightarrow> 's \<Rightarrow> u8 res" where
  "read_num rd s =
     (case rd 4 0 4 s of
        Inl UB \<Rightarrow> Inl UB
      | Inl (Err _) \<Rightarrow> Inr 0
      | Inr b \<Rightarrow> (case utility_check_NumBytes b of Inl _ \<Rightarrow> Inr 0 | Inr n \<Rightarrow> Inr n))"

text \<open>Skipping \<open>k\<close> length-value fields.\<close>

fun skip_lv :: "(nat \<Rightarrow> u32 \<Rightarrow> u32 \<Rightarrow> 's \<Rightarrow> bytes res) \<Rightarrow> nat \<Rightarrow> u32 \<Rightarrow> 's \<Rightarrow> u32 res" where
  "skip_lv rd 0 off s = Inr off"
| "skip_lv rd (Suc k) off s = bindR (read_len rd off s) (\<lambda>(_, l, ll). skip_lv rd k (off + (l + ll)) s)"

text \<open>Appending a field to a record under construction: copy the data, then insert its length.\<close>

definition append_field ::
  "(nat \<Rightarrow> bytes option) \<Rightarrow> bytes \<Rightarrow> bytes \<times> u32 \<Rightarrow> (bytes \<times> u32) res" where
  "append_field mal field = (\<lambda>(buf, off).
     bindR (buf_put buf (unat off) field) (\<lambda>b.
     bindR (add_L_withOffset mal b off (of_nat (length field))) (\<lambda>(r, b', off').
       guardR (r < 0) BOAT_ERROR (Inr (b', off')))))"

text \<open>The characters of a C string in a block; a block without terminator is overrun.\<close>

definition c_string :: "bytes \<Rightarrow> bytes res" where
  "c_string b = (if 0 \<in> set b then Inr (takeWhile (\<lambda>x. x \<noteq> 0) b) else Inl UB)"

text \<open>A parameter read into a member of the context \<open>c\<close>, which the caller keeps on the error returns.\<close>

definition read_field ::
  "(nat \<Rightarrow> u32 \<Rightarrow> u32 \<Rightarrow> 's \<Rightarrow> bytes res) \<Rightarrow> u32 option \<Rightarrow> u32 \<Rightarrow> u32 \<Rightarrow> ('c \<Rightarrow> bytes) \<Rightarrow> (bytes \<Rightarrow> 'c \<Rightarrow> 'c) \<Rightarrow> 's \<Rightarrow>
     u32 \<Rightarrow> 'c \<Rightarrow> u32 res \<times> 'c" where
  "read_field rd want obj klen get put s off c =
     (case read_param rd want obj klen (get c) off s of
        Inl e \<Rightarrow> (Inl e, c)
      | Inr (d, off') \<Rightarrow> (Inr off', put d c))"

text \<open>A length and the length field in front of it.\<close>

definition stored_len :: "u32 \<Rightarrow> u32" where
  "stored_len n = n + of_int (UtilityGetTLV_LL_from_len n)"

subsection \<open>Reference notions\<close>

definition lv :: "bytes \<Rightarrow> bytes" where
  "lv d = L_bytes (of_nat (length d)) @ d"

definition field_ok :: "bytes \<Rightarrow> bool" where
  "field_ok d \<longleftrightarrow> d \<noteq> [] \<and> length d < 65536"

text \<open>An index of a persistent keypair or network: \<open>BOAT_MAX_KEYPAIR_NUM\<close> and \<open>BOAT_MAX_NETWORK_NUM\<close> are both 5.\<close>

definition persistent_index :: "u8 \<Rightarrow> bool" where
  "persistent_index i \<longleftrightarrow> i \<noteq> 0 \<and> unat i \<le> 5"

text \<open>The record count of an area, the records that start it whatever the count, and the records it holds.\<close>

definition area_num :: "bytes \<Rightarrow> nat" where
  "area_num c =
     (if length c < 4 then 0
      else case utility_check_NumBytes (take 4 c) of Inl _ \<Rightarrow> 0 | Inr n \<Rightarrow> unat n)"

definition holds_prefix :: "('r \<Rightarrow> bytes) \<Rightarrow> 'r list \<Rightarrow> bytes \<Rightarrow> bool" where
  "holds_prefix enc rs c \<longleftrightarrow> take (length (concat (map enc rs))) (drop 4 c) = concat (map enc rs) \<and>
     (concat (map enc rs) \<noteq> [] \<longrightarrow> 4 + length (concat (map enc rs)) \<le> length c)"

definition holds :: "('r \<Rightarrow> bytes) \<Rightarrow> 'r list \<Rightarrow> bytes \<Rightarrow> bool" where
  "holds enc rs c \<longleftrightarrow> area_num c = length rs \<and> (length c < 4 \<longrightarrow> set c \<subseteq> {0}) \<and> (rs \<noteq> [] \<longrightarrow> (\<exists>rest. drop 4 c = concat (map enc rs) @ rest))"

subsection \<open>Correctness\<close>

lemma length_lv: "length (lv d) = length (L_bytes (of_nat (length d))) + length d"
  by (simp add: lv_def)

lemma length_lv_bounds: "length d + 1 \<le> length (lv d)" "length (lv d) \<le> length d + 3"
  using length_L_bytes_bounds [of "of_nat (length d)"] by (simp_all add: lv_def)

lemma append_field_ok:
  assumes mal: "malloc_total mal" and f: "field_ok field" and off: "length pre = unat off"
    and fit: "length (lv field) \<le> length room" and small: "length pre + length field + 3 < 2147483648"
  shows "append_field mal field (pre @ room, off) =
    Inr (pre @ lv field @ drop (length (lv field)) room, of_nat (length (pre @ lv field)))"
proof -
  let ?n = "of_nat (length field) :: u32"
  let ?post = "drop (length field) room"
  have n: "unat ?n = length field" "?n \<noteq> 0" "unat ?n < 65536"
    using f by (simp_all add: field_ok_def word_unat_eq_iff)
  have lf: "length field \<le> length room" using fit length_lv_bounds(1) [of field] by simp
  have p: "buf_put (pre @ room) (unat off) field = Inr (pre @ field @ ?post)"
    using lf off by (simp add: buf_put_def)
  have ll: "UtilityGetTLV_LL_from_len ?n \<le> int (length ?post)"
    using fit lf length_L_bytes [of ?n] by (simp add: length_lv)
  have m: "\<forall>k. \<exists>b. mal k = Some b \<and> length b = k" using mal by (simp add: malloc_total_def)
  obtain b where b: "mal (unat ?n) = Some b" "length b = unat ?n" using m by blast
  have lp: "length (L_bytes ?n) \<le> length ?post" using ll length_L_bytes [of ?n] by simp
  have sh: "shift_in (L_bytes ?n) b (pre @ field @ ?post) off ?n =
      Inr (pre @ L_bytes ?n @ field @ drop (length (L_bytes ?n)) ?post, off + (?n + of_nat (length (L_bytes ?n))))"
    using shift_in_ok [OF off n(1) [symmetric] lp n(2)] b(2) by simp
  have un: "unat (?n + of_nat (length (L_bytes ?n))) = length field + length (L_bytes ?n)"
    using n(1) f length_L_bytes_bounds(2) [of ?n] by (simp add: unat_plus_if' field_ok_def)
  then have "sint (?n + of_nat (length (L_bytes ?n))) = int (length field + length (L_bytes ?n))"
    using sint_small [of "?n + of_nat (length (L_bytes ?n))"] f length_L_bytes_bounds(2) [of ?n]
    by (simp add: field_ok_def)
  moreover have "off + (?n + of_nat (length (L_bytes ?n))) = of_nat (length (pre @ lv field))"
    using off by (simp add: lv_def)
  moreover have "drop (length (L_bytes ?n)) ?post = drop (length (lv field)) room"
    by (simp add: lv_def add.commute)
  ultimately show ?thesis
    using p b sh by (simp add: append_field_def add_L_withOffset_def Let_def lv_def)
qed

lemma fields_room:
  assumes "fs \<noteq> []" "2 \<le> length (last fs)"
  shows "3 \<le> length (concat (map lv fs))"
proof -
  have "length (lv (last fs)) \<le> length (concat (map lv fs))"
    using assms(1) by (induction fs rule: rev_induct) auto
  then show ?thesis using length_lv_bounds(1) [of "last fs"] assms(2) by linarith
qed

lemma length_NumBytes [simp]: "length (utility_get_NumBytes n) = 4"
  by (simp add: utility_get_NumBytes_def)

lemma NumBytes_ne [simp]: "utility_get_NumBytes n \<noteq> []"
  by (simp add: utility_get_NumBytes_def)

lemma NumBytes_get: "utility_check_NumBytes (utility_get_NumBytes n) = Inr n"
  by (simp add: utility_check_NumBytes_def utility_get_NumBytes_def)

lemma check_NumBytes_eq:
  assumes "length t = 4" "utility_check_NumBytes t = Inr n"
  shows "t = utility_get_NumBytes n"
proof -
  from assms(1) obtain a b c d where "t = [a, b, c, d]" by (auto simp: numeral_eq_Suc length_Suc_conv)
  then show ?thesis using assms(2) by (auto simp: utility_check_NumBytes_def utility_get_NumBytes_def)
qed

lemma area_num_get: "area_num (utility_get_NumBytes n @ xs) = unat n"
  using NumBytes_get [of n] by (simp add: area_num_def)

lemma holds_body: "holds enc rs c \<Longrightarrow> take (length (concat (map enc rs))) (drop 4 c) = concat (map enc rs)"
  by (cases "rs = []") (auto simp: holds_def)

lemma holds_intro: "length rs < 256 \<Longrightarrow> drop 4 c = concat (map enc rs) @ rest \<Longrightarrow> take 4 c = utility_get_NumBytes (of_nat (length rs)) \<Longrightarrow> holds enc rs c"
proof -
  assume a: "length rs < 256" "drop 4 c = concat (map enc rs) @ rest" "take 4 c = utility_get_NumBytes (of_nat (length rs))"
  have "c = utility_get_NumBytes (of_nat (length rs)) @ drop 4 c" using a(3) by (metis append_take_drop_id)
  then have "area_num c = length rs" using area_num_get [of "of_nat (length rs)" "drop 4 c"] a(1) by (simp add: unat_of_nat)
  moreover have "4 \<le> length c" using arg_cong [OF a(3), of length] by simp
  ultimately show ?thesis using a(2) by (auto simp: holds_def)
qed

lemma holds_content:
  assumes "holds enc rs c" "rs \<noteq> []"
  shows "\<exists>rest. c = utility_get_NumBytes (of_nat (length rs)) @ concat (map enc rs) @ rest"
proof -
  obtain rest where r: "drop 4 c = concat (map enc rs) @ rest" and n: "area_num c = length rs"
    using assms by (auto simp: holds_def)
  then have l: "4 \<le> length c" and "\<exists>m. utility_check_NumBytes (take 4 c) = Inr m \<and> unat m = length rs"
    using assms(2) by (auto simp: area_num_def split: if_splits sum.splits)
  then obtain m where m: "utility_check_NumBytes (take 4 c) = Inr m" "unat m = length rs" by blast
  have "take 4 c = utility_get_NumBytes m" using m(1) l check_NumBytes_eq [of "take 4 c" m] by simp
  moreover have "m = of_nat (length rs)" by (simp flip: m(2))
  ultimately show ?thesis using r by (metis append_take_drop_id)
qed

lemma holds_prefix_holds: "holds enc rs c \<Longrightarrow> holds_prefix enc rs c"
proof (cases "rs = []")
  case False
  assume h: "holds enc rs c"
  then obtain rest where "c = utility_get_NumBytes (of_nat (length rs)) @ concat (map enc rs) @ rest"
    using holds_content False by blast
  then show ?thesis by (simp add: holds_prefix_def)
qed (simp add: holds_prefix_def)

lemma holds_prefix_split:
  assumes "holds_prefix enc rs c" "concat (map enc rs) \<noteq> []"
  shows "\<exists>pre rest. c = pre @ concat (map enc rs) @ rest \<and> length pre = 4"
proof -
  let ?X = "concat (map enc rs)"
  have "drop 4 c = ?X @ drop (length ?X) (drop 4 c)"
    using assms by (metis append_take_drop_id holds_prefix_def)
  then have "c = take 4 c @ ?X @ drop (length ?X) (drop 4 c)" by (metis append_take_drop_id)
  moreover have "4 \<le> length c" using assms unfolding holds_prefix_def by linarith
  then have "length (take 4 c) = 4" by simp
  ultimately show ?thesis by blast
qed

lemma holds_zero_extends:
  assumes "holds enc rs c" "zero_extends c c'"
  shows "holds enc rs c'"
proof -
  obtain k where c': "c' = c @ replicate k 0" using assms(2) by (auto simp: zero_extends_def)
  show ?thesis
  proof (cases "length c < 4")
    case False
    then show ?thesis using assms(1) by (auto simp: holds_def area_num_def c')
  next
    case True
    then have rs: "rs = []" using assms(1) by (simp add: holds_def area_num_def)
    have z: "set c' \<subseteq> {0}" using True assms(1) by (auto simp: holds_def c')
    have "area_num c' = 0"
    proof (cases "length c' < 4")
      case False
      then have "0 < length c'" by (cases c') simp_all
      then have "c' ! 0 \<in> set c'" by (rule nth_mem)
      then have "take 4 c' ! 0 = 0" using z by auto
      then show ?thesis by (simp add: area_num_def utility_check_NumBytes_def)
    qed (simp add: area_num_def)
    then show ?thesis using rs z by (auto simp: holds_def)
  qed
qed

lemma overlay_head:
  assumes "length h = 4"
  shows "overlay c 0 h = h @ drop 4 c"
  using assms by (simp add: overlay_def)

lemma overlay_append: "overlay (overlay c off xs) (off + length xs) ys = overlay c off (xs @ ys)"
proof -
  define A where "A = take off (c @ replicate (off - length c) 0)"
  define D where "D = drop (off + length xs) c"
  have A: "length A = off" by (simp add: A_def)
  have o: "overlay c off xs = A @ xs @ D" by (simp add: overlay_def A_def D_def)
  have D: "drop (off + length xs + length ys) (A @ xs @ D) = drop (off + length (xs @ ys)) c"
    using A by (simp add: D_def ac_simps)
  have "overlay c off (xs @ ys) = A @ (xs @ ys) @ drop (off + length (xs @ ys)) c" by (simp only: overlay_def A_def)
  then show ?thesis
    using A D unfolding o by (simp add: overlay_def)
qed

lemma overlay_behind:
  assumes "take (length X) (drop 4 c) = X" "X \<noteq> [] \<longrightarrow> 4 + length X \<le> length c"
  shows "\<exists>rest. drop 4 (overlay c (4 + length X) w) = X @ w @ rest" "take 4 (overlay c (4 + length X) w) = take 4 (c @ replicate (4 - length c) 0)"
proof -
  let ?p = "4 + length X"
  have l: "length (take ?p (c @ replicate (?p - length c) 0)) = ?p" by simp
  have d: "drop 4 (take ?p (c @ replicate (?p - length c) 0)) = X"
  proof (cases "X = []")
    case False
    then show ?thesis using assms by (simp add: drop_take)
  qed simp
  show "\<exists>rest. drop 4 (overlay c ?p w) = X @ w @ rest"
    unfolding overlay_def using d l by (intro exI [of _ "drop (?p + length w) c"]) simp
  show "take 4 (overlay c ?p w) = take 4 (c @ replicate (4 - length c) 0)"
  proof (cases "X = []")
    case False
    then show ?thesis using assms(2) l by (simp add: overlay_def)
  qed (simp add: overlay_def)
qed

lemma length_lv_short: "length d < 128 \<Longrightarrow> length (lv d) = 1 + length d"
proof -
  assume "length d < 128"
  then show ?thesis by (simp add: lv_def L_bytes_cases)
qed

lemma stored_len_lv: "stored_len (of_nat (length d)) = of_nat (length (lv d))"
proof -
  have "(of_int (UtilityGetTLV_LL_from_len (of_nat (length d))) :: u32) = of_nat (length (L_bytes (of_nat (length d))))"
    by (simp flip: length_L_bytes)
  then show ?thesis by (simp add: stored_len_def length_lv add.commute)
qed

lemma append_small:
  assumes "malloc_total mal" "field_ok d" "length (lv d) \<le> length room" "length pre \<le> 65535"
  shows "append_field mal d (pre @ room, of_nat (length pre)) =
    Inr ((pre @ lv d) @ drop (length (lv d)) room, of_nat (length (pre @ lv d)))"
proof -
  have "length d < 65536" using assms(2) by (simp add: field_ok_def)
  moreover have "unat (of_nat (length pre) :: u32) = length pre" using assms(4) by (intro unat_of_nat_u32) simp
  ultimately show ?thesis using append_field_ok [OF assms(1,2), of pre "of_nat (length pre)" room] assms(3,4) by simp
qed

lemma wrap_record:
  assumes "malloc_total mal" "field_ok body" "length (lv body) = length (body @ room)"
  shows "\<exists>r. add_L_withOffset mal (body @ room) 0 (of_nat (length body)) = Inr (r, lv body, of_nat (length (lv body))) \<and> \<not> r < 0"
proof -
  have "append_field mal body ([] @ body @ room, of_nat (length ([] :: bytes))) = Inr (([] @ lv body) @ [], of_nat (length (lv body)))"
    using append_small [OF assms(1,2), of "body @ room" "[]"] assms(3) by simp
  moreover have "buf_put (body @ room) 0 body = Inr (body @ room)" by (simp add: buf_put_def)
  ultimately show ?thesis by (auto simp: append_field_def bindR_eq_Inr)
qed

lemma find_keyed:
  assumes "c \<in> set rs" "distinct (map g rs)"
  shows "find (\<lambda>r. g r = g c) rs = Some c"
proof (cases "find (\<lambda>r. g r = g c) rs")
  case None
  then show ?thesis using assms(1) by (auto simp: find_None_iff)
next
  case (Some r)
  then have "r \<in> set rs" "g r = g c" by (auto simp: find_Some_iff)
  then show ?thesis using Some assms by (auto simp: distinct_map dest: inj_onD)
qed

lemma persistent_index_of_nat: "persistent_index i \<longleftrightarrow> i \<in> of_nat ` {1..5}"
proof
  assume "persistent_index i"
  then have "unat i \<in> {1..5}" by (simp add: persistent_index_def Suc_le_eq unat_gt_0)
  then have "of_nat (unat i) \<in> (of_nat :: nat \<Rightarrow> u8) ` {1..5}" by (rule imageI)
  then show "i \<in> of_nat ` {1..5}" by simp
next
  assume "i \<in> of_nat ` {1..5}"
  then obtain n where "i = of_nat n" "1 \<le> n" "n \<le> 5" by auto
  then show "persistent_index i" by (simp add: persistent_index_def unat_of_nat word_unat_eq_iff)
qed

lemma free_key_exists:
  assumes "length ks < 5"
  shows "\<exists>i. find (\<lambda>j. (of_nat j :: u8) \<notin> set ks) [1..<6] = Some i \<and> persistent_index (of_nat i) \<and> (of_nat i :: u8) \<notin> set ks \<and> i \<le> 5"
proof -
  have inj: "inj_on (of_nat :: nat \<Rightarrow> u8) {1..5}"
    by (rule inj_onI) (auto simp: word_unat_eq_iff unat_of_nat)
  have "card (set ks) < card ((of_nat :: nat \<Rightarrow> u8) ` {1..5})"
    using assms card_length [of ks] card_image [OF inj] by simp
  then have "\<not> (of_nat :: nat \<Rightarrow> u8) ` {1..5} \<subseteq> set ks"
    by (metis List.finite_set card_mono not_le)
  then obtain j where j: "1 \<le> j" "j \<le> 5" "(of_nat j :: u8) \<notin> set ks"
    by (meson atLeastAtMost_iff image_subsetI)
  then have "j \<in> set [1..<6]" by simp
  then have "find (\<lambda>j. (of_nat j :: u8) \<notin> set ks) [1..<6] \<noteq> None" using j(3) by (auto simp: find_None_iff)
  then obtain i where i: "find (\<lambda>j. (of_nat j :: u8) \<notin> set ks) [1..<6] = Some i" by blast
  then have "i \<in> set [1..<6]" "(of_nat i :: u8) \<notin> set ks"
    by (metis find_Some_iff nth_mem)+
  then show ?thesis using i persistent_index_of_nat [of "of_nat i"] by auto
qed

context storage_area
begin

lemma small_offsets:
  "off \<le> cap \<Longrightarrow> unat (of_nat off :: u32) = off"
  using cap_small by (simp add: unat_of_nat)

lemma read_len_at:
  assumes "ok s" "content s = pre @ L_bytes n @ post" "unat n < 65536" "3 \<le> length (L_bytes n @ post)"
  shows "read_len rd (of_nat (length pre)) s = Inr (take 3 (L_bytes n @ post), n, of_nat (length (L_bytes n)))"
proof -
  let ?b = "take 3 (L_bytes n @ post)"
  have "rd 3 (of_nat (length pre)) (of_nat 3) s = Inr ?b"
    using rd_ok [OF assms(1), of 3 3 "length pre"] assms(2,4) by simp
  moreover have "?b = [] @ L_bytes n @ take (3 - length (L_bytes n)) post"
    using length_L_bytes_bounds(2) [of n] by simp
  then have "UtilityGetLVData_L ?b = Inr (int (unat n))"
    unfolding UtilityGetLVData_L_def using length_field_L [OF assms(3), of 0 "[]"] by simp
  moreover have "(of_int (UtilityGetTLV_LL_from_len n) :: u32) = of_nat (length (L_bytes n))"
    by (simp flip: length_L_bytes)
  ultimately show ?thesis by (simp add: read_len_def Let_def)
qed

lemma read_len_lv:
  assumes "ok s" "content s = pre @ lv d @ post" "field_ok d" "3 \<le> length (lv d @ post)"
  shows "read_len rd (of_nat (length pre)) s =
    Inr (take 3 (lv d @ post), of_nat (length d), of_nat (length (L_bytes (of_nat (length d)))))"
  using read_len_at [OF assms(1), of pre "of_nat (length d)" "d @ post"] assms(2-4)
  by (simp add: lv_def field_ok_def)

lemma param_head_lv:
  assumes "ok s" "content s = pre @ lv d @ post" "field_ok d" "3 \<le> length (lv d @ post)"
    "obj \<le> length pre" "length pre + length (lv d) - obj \<le> klen" "klen \<le> 65535"
    "want = None \<or> want = Some (of_nat (length d))"
  shows "param_head rd want (of_nat obj) (of_nat klen) (of_nat (length pre)) s =
    Inr (of_nat (length d), of_nat (length pre + length (L_bytes (of_nat (length d)))))"
proof -
  let ?L = "L_bytes (of_nat (length d))"
  have c: "length pre + length (lv d) \<le> 65535"
    using content_cap [OF assms(1)] cap_small by (simp add: assms(2))
  have "of_nat (length pre) + of_nat (length ?L) - of_nat obj + of_nat (length d) =
      (of_nat (length pre + length (lv d) - obj) :: u32)"
    using assms(5) by (simp add: length_lv of_nat_diff)
  moreover have "\<not> (of_nat klen :: u32) < of_nat (length pre + length (lv d) - obj)"
  proof -
    have "unat (of_nat (length pre + length (lv d) - obj) :: u32) = length pre + length (lv d) - obj"
      using c by (intro unat_of_nat_u32) linarith
    moreover have "unat (of_nat klen :: u32) = klen" using assms(7) by (intro unat_of_nat_u32) linarith
    ultimately show ?thesis using assms(6) by (simp add: word_less_nat_alt)
  qed
  ultimately show ?thesis
    using read_len_lv [OF assms(1-4)] assms(8) by (auto simp: param_head_def)
qed

lemma read_param_room:
  assumes "ok s" "content s = pre @ lv d @ post" "field_ok d" "3 \<le> length (lv d @ post)"
    "obj \<le> length pre" "length pre + length (lv d) - obj \<le> klen" "klen \<le> 65535"
    "want = None \<or> want = Some (of_nat (length d))" "length d \<le> length old"
  shows "read_param rd want (of_nat obj) (of_nat klen) old (of_nat (length pre)) s =
    Inr (d @ drop (length d) old, of_nat (length pre + length (lv d)))"
proof -
  let ?L = "L_bytes (of_nat (length d))"
  have "rd (length old) (of_nat (length (pre @ ?L))) (of_nat (length d)) s = Inr d"
    using assms by (intro rd_parts [of s _ d post]) (simp_all add: lv_def field_ok_def)
  then show ?thesis
    using param_head_lv [OF assms(1-8)] assms(9) by (simp add: read_param_def length_lv)
qed

lemma skip_lv_ok:
  assumes "ok s" "content s = pre @ concat (map lv fs) @ post" "list_all field_ok fs"
    "fs \<noteq> [] \<longrightarrow> 2 \<le> length (last fs)"
  shows "skip_lv rd (length fs) (of_nat (length pre)) s = Inr (of_nat (length pre + length (concat (map lv fs))))"
  using assms(2-4)
proof (induction fs arbitrary: pre)
  case (Cons d fs)
  have d: "field_ok d" "3 \<le> length (lv d @ concat (map lv fs) @ post)"
    using Cons.prems(2,3) fields_room [of "d # fs"] by simp_all
  have "read_len rd (of_nat (length pre)) s =
      Inr (take 3 (lv d @ concat (map lv fs) @ post), of_nat (length d), of_nat (length (L_bytes (of_nat (length d)))))"
    using Cons.prems(1) by (intro read_len_lv [OF assms(1) _ d]) simp
  moreover have "skip_lv rd (length fs) (of_nat (length (pre @ lv d))) s =
      Inr (of_nat (length (pre @ lv d) + length (concat (map lv fs))))"
    using Cons.prems by (intro Cons.IH) (simp_all split: if_splits)
  ultimately show ?case by (simp add: length_lv add.commute add.left_commute)
qed simp

lemma read_num_ok:
  assumes "ok s" "4 \<le> cap"
  shows "\<exists>n. read_num rd s = Inr n \<and> unat n = area_num (content s)"
proof (cases "length (content s) < 4")
  case True
  then obtain e where "rd 4 0 4 s = Inl (Err e)"
    using rd_short [OF assms(1), of 4 0 4] assms(2) by auto
  then show ?thesis using True by (simp add: read_num_def area_num_def)
next
  case False
  then have "rd 4 0 4 s = Inr (take 4 (content s))" using rd_ok [OF assms(1), of 4 4 0] by simp
  then show ?thesis using False by (auto simp: read_num_def area_num_def split: sum.splits)
qed

lemma wr_behind:
  assumes "ok s" "xs \<noteq> []" "ys \<noteq> []" "off + length xs + length ys \<le> cap"
    "ok s1" "frame s s1" "content s1 = overlay (content s) off xs"
  shows "\<exists>s2. wr (of_nat (off + length xs)) ys s1 = (Inr (), s2) \<and> ok s2 \<and> frame s s2 \<and>
    content s2 = overlay (content s) off (xs @ ys)"
proof -
  obtain s2 where s2: "wr (of_nat (off + length xs)) ys s1 = (Inr (), s2)" "ok s2" "frame s1 s2"
      "content s2 = overlay (content s1) (off + length xs) ys"
    using wr_ok [OF assms(5,3), of "off + length xs"] assms(4) by blast
  then show ?thesis using assms(6,7) frame_trans by (auto simp: overlay_append)
qed

lemma count_record:
  assumes s: "ok s" and h: "holds_prefix enc rs (content s)" and n: "length rs < 255" and cap: "4 \<le> cap"
    and s1: "ok s1" "frame s s1" "content s1 = overlay (content s) (4 + length (concat (map enc rs))) (enc r)"
  shows "\<exists>s2. wr 0 (utility_get_NumBytes (of_nat (length rs) + 1)) s1 = (Inr (), s2) \<and> ok s2 \<and> frame s s2 \<and> holds enc (rs @ [r]) (content s2)"
proof -
  obtain s2 where s2: "wr 0 (utility_get_NumBytes (of_nat (length rs) + 1)) s1 = (Inr (), s2)" "ok s2" "frame s1 s2"
      "content s2 = overlay (content s1) 0 (utility_get_NumBytes (of_nat (length rs) + 1))"
    using wr_ok [OF s1(1) NumBytes_ne, of 0 "of_nat (length rs) + 1"] cap by auto
  obtain rest where "drop 4 (content s1) = concat (map enc rs) @ enc r @ rest"
    using overlay_behind(1) [OF h [unfolded holds_prefix_def, THEN conjunct1] h [unfolded holds_prefix_def, THEN conjunct2]] s1(3) by metis
  then have "holds enc (rs @ [r]) (content s2)"
    unfolding s2(4) using n by (intro holds_intro [of _ _ _ rest]) (simp_all add: overlay_head add.commute)
  then show ?thesis using s1(2) s2 frame_trans by blast
qed

lemma add_record:
  assumes s: "ok s" and h: "holds_prefix enc rs (content s)" and n: "length rs < 255" and new: "enc r \<noteq> []"
    and fit: "4 + length (concat (map enc rs)) + length (enc r) \<le> cap"
  shows "\<exists>s1 s2. wr (of_nat (4 + length (concat (map enc rs)))) (enc r) s = (Inr (), s1) \<and>
    wr 0 (utility_get_NumBytes (of_nat (length rs) + 1)) s1 = (Inr (), s2) \<and> ok s2 \<and> frame s s2 \<and> holds enc (rs @ [r]) (content s2)"
proof -
  obtain s1 where s1: "wr (of_nat (4 + length (concat (map enc rs)))) (enc r) s = (Inr (), s1)" "ok s1" "frame s s1"
      "content s1 = overlay (content s) (4 + length (concat (map enc rs))) (enc r)"
    using wr_ok [OF s new fit] by blast
  then show ?thesis using count_record [OF s h n _ s1(2-4)] fit by auto
qed

lemmas append_record = add_record [OF _ holds_prefix_holds]

lemma first_record:
  assumes "ok s" "enc r \<noteq> []" "4 + length (enc r) \<le> cap"
  shows "\<exists>s1 s2. wr 4 (enc r) s = (Inr (), s1) \<and> wr 0 (utility_get_NumBytes 1) s1 = (Inr (), s2) \<and> ok s2 \<and> frame s s2 \<and>
    holds enc [r] (content s2)"
  using add_record [OF assms(1), of enc "[]" r] assms(2,3) by (simp add: holds_prefix_def)

lemma remove_record:
  assumes s: "ok s" and h: "holds enc (xs @ r # ys) (content s)" and n: "length (xs @ r # ys) < 256"
    and w: "w \<noteq> []" "ys \<noteq> [] \<longrightarrow> w = concat (map enc ys)" "4 + length (concat (map enc xs)) + length w \<le> cap"
  shows "\<exists>s1 s2. wr 0 (utility_get_NumBytes (of_nat (length (xs @ r # ys)) - 1)) s = (Inr (), s1) \<and> ok s1 \<and>
    drop 4 (content s1) = drop 4 (content s) \<and> 4 \<le> length (content s1) \<and>
    wr (of_nat (4 + length (concat (map enc xs)))) w s1 = (Inr (), s2) \<and> ok s2 \<and> frame s s2 \<and> holds enc (xs @ ys) (content s2)"
proof -
  let ?X = "concat (map enc xs)"
  let ?num = "utility_get_NumBytes (of_nat (length (xs @ r # ys)) - 1)"
  have m: "of_nat (length (xs @ r # ys)) - 1 = (of_nat (length (xs @ ys)) :: u8)" by simp
  obtain rest where c: "content s = utility_get_NumBytes (of_nat (length (xs @ r # ys))) @ (?X @ enc r @ concat (map enc ys)) @ rest"
    using holds_content [OF h] by auto
  have ne: "?num \<noteq> []" by (simp add: utility_get_NumBytes_def)
  obtain s1 where s1: "wr 0 ?num s = (Inr (), s1)" "ok s1" "frame s s1" "content s1 = overlay (content s) 0 ?num"
    using wr_ok [OF s ne, of 0] w(3) by auto
  have c1: "content s1 = ?num @ (?X @ enc r @ concat (map enc ys)) @ rest"
    by (simp add: s1(4) overlay_head c)
  obtain s2 where s2: "wr (of_nat (4 + length ?X)) w s1 = (Inr (), s2)" "ok s2" "frame s1 s2" "content s2 = overlay (content s1) (4 + length ?X) w"
    using wr_ok [OF s1(2) w(1,3)] by blast
  have "take (length ?X) (drop 4 (content s1)) = ?X" "?X \<noteq> [] \<longrightarrow> 4 + length ?X \<le> length (content s1)"
    by (simp_all add: c1)
  note ov = overlay_behind [OF this, of w]
  obtain rest' where d: "drop 4 (content s2) = ?X @ w @ rest'" using ov(1) s2(4) by metis
  have t: "take 4 (content s2) = ?num" using ov(2) by (simp add: s2(4) c1)
  have "\<exists>rest. drop 4 (content s2) = concat (map enc (xs @ ys)) @ rest"
    using d w(2) by (cases "ys = []") auto
  then obtain rest'' where "drop 4 (content s2) = concat (map enc (xs @ ys)) @ rest''" by blast
  then have "holds enc (xs @ ys) (content s2)"
    using t n unfolding m by (intro holds_intro) simp_all
  moreover have "drop 4 (content s1) = drop 4 (content s)" "4 \<le> length (content s1)" by (simp_all add: c c1)
  ultimately show ?thesis using s1 s2 frame_trans by blast
qed

lemma read_field_room:
  assumes s: "ok s" and c: "content s = A @ u @ lv d @ v @ post" and k: "klen = length (u @ lv d @ v)"
    and d: "field_ok d" "3 \<le> length (lv d @ v @ post)" "want = None \<or> want = Some (of_nat (length d))" "length d \<le> length (get x)"
  shows "read_field rd want (of_nat (length A)) (of_nat klen) get put s (of_nat (length (A @ u))) x =
    (Inr (of_nat (length (A @ u @ lv d))), put (d @ drop (length d) (get x)) x)"
proof -
  have "length (content s) \<le> 65535" using content_cap [OF s] cap_small by simp
  then have "klen \<le> 65535" by (simp add: c k)
  then have "read_param rd want (of_nat (length A)) (of_nat klen) (get x) (of_nat (length (A @ u))) s =
      Inr (d @ drop (length d) (get x), of_nat (length (A @ u) + length (lv d)))"
    using s c d by (intro read_param_room [where post = "v @ post"]) (simp_all add: k)
  then show ?thesis by (simp add: read_field_def)
qed

lemma read_field_lv:
  assumes "ok s" "content s = A @ u @ lv d @ v @ post" "klen = length (u @ lv d @ v)"
    "field_ok d" "3 \<le> length (lv d @ v @ post)" "want = None \<or> want = Some (of_nat (length d))" "length d = length (get x)"
  shows "read_field rd want (of_nat (length A)) (of_nat klen) get put s (of_nat (length (A @ u))) x =
    (Inr (of_nat (length (A @ u @ lv d))), put d x)"
  using read_field_room [of s A u d v post klen want get x put, OF assms(1-6)] assms(7) by simp

end

lemma lv_single: "lv [i] = [1, i]"
  by (simp add: lv_def L_bytes_def)

lemma store_prefix:
  assumes "length xs < 4294967296"
  shows "BoATStoreSoftRotNvram mal f off (Some (xs @ zs)) (of_nat (length xs)) t = area_wr mal f t off xs"
proof
  have u: "unat (of_nat (length xs) :: u32) = length xs" using assms by (rule unat_of_nat_u32)
  show "BoATStoreSoftRotNvram mal f off (Some (xs @ zs)) (of_nat (length xs)) t s = area_wr mal f t off xs s" for s
    by (simp add: area_wr_def BoATStoreSoftRotNvram_def buf_get_def u)
qed

lemma holds_split:
  assumes "holds enc rs c" "rs \<noteq> []"
  shows "\<exists>pre rest. c = pre @ concat (map enc rs) @ rest \<and> length pre = 4"
proof -
  obtain rest where "c = utility_get_NumBytes (of_nat (length rs)) @ concat (map enc rs) @ rest"
    using holds_content [OF assms] by blast
  then show ?thesis using length_NumBytes by blast
qed

lemma counter_wr_no_malloc:
  assumes "nvram_ok s" "area_content f BOAT_STORE_TYPE_FLASH s \<noteq> []"
  shows "area_wr mal f BOAT_STORE_TYPE_FLASH 0 xs s = area_wr heap_all f BOAT_STORE_TYPE_FLASH 0 xs s"
proof -
  obtain s' where o: "open_for_update s = (Inr (file_bytes s), s')" using open_for_update_ok [OF assms(1)] by blast
  have b: "area_base f \<le> length (file_bytes s)" using assms(2) by (auto simp: area_content_def)
  have "\<not> of_nat (length (file_bytes s)) < offset_base f"
    using b assms(1) offset_base_unat [of f] by (simp add: word_less_nat_alt nvram_ok_def)
  then have "BoatWriteStorage mal (offset_base f) (Some ys) s = BoatWriteStorage heap_all (offset_base f) (Some ys) s" for ys
    by (simp add: BoatWriteStorage_def bindS_def o Let_def)
  then show ?thesis
    by (simp add: area_wr_def BoATStoreSoftRotNvram_def split: sum.split)
qed

end
