(* ===== verification/Boat_Keystore.thy ===== *)
theory Boat_Keystore
  imports Boat_Records
begin

text \<open>
  The software keystore of \<open>vendor/keystore/soft/boat_keystore.c\<close>: private keys are kept encrypted in the private-key
  area, each as a length-value index followed by the length-value ciphertext.

  \<open>mal\<close> is \<open>BoatMalloc\<close>; \<open>hash\<close>, \<open>salt\<close>, \<open>aes_enc\<close> and \<open>aes_dec\<close> are the hash, random salt and cipher, as in
  the storage theory. A function that writes returns the storage it leaves
  behind together with its result.
\<close>

abbreviation BOAT_MAX_KEYPAIR_NUM :: nat where
  "BOAT_MAX_KEYPAIR_NUM \<equiv> 5"

abbreviation BOAT_KEYSTORE_PRIKEY_LEN :: nat where
  "BOAT_KEYSTORE_PRIKEY_LEN \<equiv> 97"

definition storetype_of :: "u8 \<Rightarrow> BoatStoreType" where
  "storetype_of index = (if index = 0 then BOAT_STORE_TYPE_RAM else BOAT_STORE_TYPE_FLASH)"

subsection \<open>Reading a key\<close>

fun get_prikey_loop ::
  "(nat \<Rightarrow> u32 \<Rightarrow> u32 \<Rightarrow> 's \<Rightarrow> bytes res) \<Rightarrow> nat \<Rightarrow> u8 \<Rightarrow> u32 \<Rightarrow> 's \<Rightarrow> bytes res" where
  "get_prikey_loop rd 0 index off s = Inl (Err BOAT_ERROR)"
| "get_prikey_loop rd (Suc k) index off s =
     bindR (read_len rd off s) (\<lambda>(_, l, ll).
     guardR (l \<noteq> 1) BOAT_ERROR
    (bindR (rd 1 (off + ll) 1 s) (\<lambda>b.
     let off' = off + ll + l in
     if hd b = index then
       bindR (read_len rd off' s) (\<lambda>(_, l', ll').
       guardR (of_nat BOAT_KEYSTORE_PRIKEY_LEN < l') BOAT_ERROR
      (rd BOAT_KEYSTORE_PRIKEY_LEN (off' + ll') l' s))
     else
       bindR (read_len rd off' s) (\<lambda>(_, l', ll').
       guardR (l' < 1) BOAT_ERROR
      (get_prikey_loop rd k index (off' + (ll' + l')) s)))))"

definition BoAT_GetPirkeyByIndex ::
  "(bytes \<Rightarrow> bytes) \<Rightarrow> (bytes \<Rightarrow> bytes \<Rightarrow> bytes \<Rightarrow> bytes res) \<Rightarrow> u8 \<Rightarrow> bool \<Rightarrow> nvram \<Rightarrow> bytes res" where
  "BoAT_GetPirkeyByIndex hash aes_dec index prikey_ok s =
     guardR (\<not> prikey_ok) BOAT_ERROR_COMMON_INVALID_ARGUMENT
    (let rd = area_rd BOAT_STORE_PRIKEY (storetype_of index) in
     bindR (rd 4 0 4 s) (\<lambda>b.
     case utility_check_NumBytes b of
       Inl _ \<Rightarrow> Inl (Err BOAT_ERROR)
     | Inr num \<Rightarrow>
         guardR (num = 0) BOAT_ERROR
        (bindR (get_prikey_loop rd (unat num) index 4 s) (\<lambda>c.
         BoATSoftRotNvramDec hash aes_dec (Some c) (Some 512)))))"

text \<open>\<open>BoAT_sign\<close> is the parameter \<open>sign\<close>, from key type, key and digest to the signature.\<close>

definition BoAT_Keystore_Sign ::
  "(bytes \<Rightarrow> bytes) \<Rightarrow> (bytes \<Rightarrow> bytes \<Rightarrow> bytes \<Rightarrow> bytes res) \<Rightarrow> ('t \<Rightarrow> bytes \<Rightarrow> bytes \<Rightarrow> 'sig res) \<Rightarrow>
     't \<Rightarrow> u8 \<Rightarrow> bytes \<Rightarrow> nvram \<Rightarrow> 'sig res" where
  "BoAT_Keystore_Sign hash aes_dec sign type prikeyIndex digest s =
     bindR (BoAT_GetPirkeyByIndex hash aes_dec prikeyIndex True s) (\<lambda>prikey. sign type prikey digest)"

subsection \<open>Storing a key\<close>

fun store_walk ::
  "(nat \<Rightarrow> u32 \<Rightarrow> u32 \<Rightarrow> 's \<Rightarrow> bytes res) \<Rightarrow> nat \<Rightarrow> u8 \<Rightarrow> u32 \<Rightarrow> 's \<Rightarrow> u32 res" where
  "store_walk rd 0 keypairIndex off s = Inr off"
| "store_walk rd (Suc k) keypairIndex off s =
     bindR (read_len rd off s) (\<lambda>(_, l, ll).
     guardR (l \<noteq> 1) BOAT_ERROR
    (bindR (rd 1 (off + ll) 1 s) (\<lambda>b.
     guardR (hd b = keypairIndex) BOAT_ERROR
    (bindR (read_len rd (off + (ll + l)) s) (\<lambda>(_, l', ll').
     store_walk rd k keypairIndex (off + (ll + l) + (ll' + l')) s)))))"

text \<open>The record in its 101-byte buffer: the index with its length, the ciphertext with its length.\<close>

definition build_prikey_record ::
  "(nat \<Rightarrow> bytes option) \<Rightarrow> (bytes \<Rightarrow> bytes) \<Rightarrow> bytes \<Rightarrow> (bytes \<Rightarrow> bytes \<Rightarrow> bytes \<Rightarrow> bytes res) \<Rightarrow> u8 \<Rightarrow> bytes option \<Rightarrow>
     (bytes \<times> u32) res" where
  "build_prikey_record mal hash salt aes_enc keypairIndex prikey =
     bindR (append_field mal [keypairIndex] (replicate (4 + BOAT_KEYSTORE_PRIKEY_LEN) 0, 0)) (\<lambda>(buf, off).
     case BoATSoftRotNvramEnc hash salt aes_enc prikey of
       Inl UB \<Rightarrow> Inl UB
     | Inl (Err _) \<Rightarrow> Inl (Err BOAT_ERROR)
     | Inr c \<Rightarrow>
         bindR (buf_put buf (unat off) c) (\<lambda>_.
         guardR (BOAT_KEYSTORE_PRIKEY_LEN < length c) BOAT_ERROR
        (append_field mal c (buf, off))))"

definition BoAT_Keystore_store_prikey ::
  "(nat \<Rightarrow> bytes option) \<Rightarrow> (bytes \<Rightarrow> bytes) \<Rightarrow> bytes \<Rightarrow> (bytes \<Rightarrow> bytes \<Rightarrow> bytes \<Rightarrow> bytes res) \<Rightarrow> u8 \<Rightarrow> bytes option \<Rightarrow>
     nvram \<Rightarrow> unit res \<times> nvram" where
  "BoAT_Keystore_store_prikey mal hash salt aes_enc keypairIndex prikey s =
     (let t = storetype_of keypairIndex;
          rd = area_rd BOAT_STORE_PRIKEY t
      in case
        bindR (read_num rd s) (\<lambda>num.
        guardR (BOAT_MAX_KEYPAIR_NUM \<le> unat num) BOAT_ERROR
       (let num' = (if t = BOAT_STORE_TYPE_RAM then 0 else num) in
        bindR (store_walk rd (unat num') keypairIndex 4 s) (\<lambda>off.
        bindR (build_prikey_record mal hash salt aes_enc keypairIndex prikey) (\<lambda>(buf, len).
          Inr (num', off, buf, len))))) of
        Inl e \<Rightarrow> (Inl e, s)
      | Inr (num', off, buf, len) \<Rightarrow>
          bindS (BoATStoreSoftRotNvram mal BOAT_STORE_PRIKEY off (Some buf) len t) (\<lambda>_.
            area_wr mal BOAT_STORE_PRIKEY t 0 (utility_get_NumBytes (num' + 1))) s)"

subsection \<open>Deleting a key\<close>

text \<open>The search: the position, the offset and the length fields of the record found.\<close>

fun find_prikey ::
  "(nat \<Rightarrow> u32 \<Rightarrow> u32 \<Rightarrow> 's \<Rightarrow> bytes res) \<Rightarrow> nat \<Rightarrow> nat \<Rightarrow> u8 \<Rightarrow> u32 \<Rightarrow> 's \<Rightarrow> (nat \<times> u32 \<times> u32 \<times> u32) option res" where
  "find_prikey rd 0 i index off s = Inr None"
| "find_prikey rd (Suc k) i index off s =
     bindR (read_len rd off s) (\<lambda>(_, l, ll).
     guardR (l \<noteq> 1) BOAT_ERROR
    (bindR (rd 1 (off + ll) 1 s) (\<lambda>b.
     if hd b = index then Inr (Some (i, off, l, ll))
     else
       bindR (read_len rd (off + (ll + l)) s) (\<lambda>(_, l', ll').
       find_prikey rd k (i + 1) index (off + (ll + l) + (ll' + l')) s))))"

text \<open>The body between the two counter updates: blank the last record, or move the later ones down.\<close>

definition delete_prikey_body ::
  "(nat \<Rightarrow> bytes option) \<Rightarrow> nat \<Rightarrow> nat \<Rightarrow> u32 \<Rightarrow> u32 \<Rightarrow> u32 \<Rightarrow> nvram \<Rightarrow> unit res \<times> nvram" where
  "delete_prikey_body mal num i off l ll =
     (let rd = area_rd BOAT_STORE_PRIKEY BOAT_STORE_TYPE_FLASH;
          wr = area_wr mal BOAT_STORE_PRIKEY BOAT_STORE_TYPE_FLASH
      in if i = num - 1 then rethrowS BOAT_ERROR (wr off [0, 0, 0])
         else
           bindS (\<lambda>s. throwS None (read_len rd (off + (ll + l)) s) s) (\<lambda>(_, l', ll').
           let moveFrom = off + (ll + l) + (ll' + l') in
           bindS (\<lambda>s. throwS None (skip_lv rd (2 * (num - 1 - i)) moveFrom s) s) (\<lambda>endoff.
           let len = endoff - moveFrom in
           case mal (unat len) of
             None \<Rightarrow> (\<lambda>s. (Inl (Err BOAT_ERROR_COMMON_OUT_OF_MEMORY), s))
           | Some _ \<Rightarrow>
               bindS (\<lambda>s. throwS (Some BOAT_ERROR_STORAGE_FILE_READ_FAIL) (rd (unat len) moveFrom len s) s) (\<lambda>d.
               rethrowS BOAT_ERROR_STORAGE_FILE_WRITE_FAIL (wr off d)))))"

definition BoAT_DeletePirkeyByIndex ::
  "(nat \<Rightarrow> bytes option) \<Rightarrow> u8 \<Rightarrow> nvram \<Rightarrow> unit res \<times> nvram" where
  "BoAT_DeletePirkeyByIndex mal index s =
     (if of_nat BOAT_MAX_KEYPAIR_NUM < index then (Inl (Err BOAT_ERROR), s)
      else if index = 0 then area_wr mal BOAT_STORE_PRIKEY BOAT_STORE_TYPE_RAM 0 [0, 0, 0, 0] s
      else
        let rd = area_rd BOAT_STORE_PRIKEY BOAT_STORE_TYPE_FLASH;
            wr = area_wr mal BOAT_STORE_PRIKEY BOAT_STORE_TYPE_FLASH
        in case bindR (rd 4 0 4 s) utility_check_NumBytes of
             Inl e \<Rightarrow> (Inl e, s)
           | Inr num \<Rightarrow>
               if num = 0 then (Inr (), s)
               else
                 case find_prikey rd (unat num) 0 index 4 s of
                   Inl e \<Rightarrow> (Inl e, s)
                 | Inr None \<Rightarrow> (Inl (Err BOAT_ERROR), s)
                 | Inr (Some (i, off, l, ll)) \<Rightarrow>
                     bindS (wr 0 (utility_get_NumBytes (num - 1))) (\<lambda>_.
                       catchS (delete_prikey_body mal (unat num) i off l ll)
                         (\<lambda>e. wr 0 (utility_get_NumBytes num))) s)"

subsection \<open>Reference notions\<close>

type_synonym prikey_rec = "u8 \<times> bytes"

definition prikey_enc :: "prikey_rec \<Rightarrow> bytes" where
  "prikey_enc r = lv [fst r] @ lv (snd r)"

definition prikey_ok :: "prikey_rec \<Rightarrow> bool" where
  "prikey_ok r \<longleftrightarrow> 2 \<le> length (snd r) \<and> length (snd r) \<le> 96"

abbreviation prikey_content :: "nvram \<Rightarrow> bytes" where
  "prikey_content \<equiv> area_content BOAT_STORE_PRIKEY BOAT_STORE_TYPE_FLASH"

definition prikeys :: "prikey_rec list \<Rightarrow> nvram \<Rightarrow> bool" where
  "prikeys rs s \<longleftrightarrow> holds prikey_enc rs (prikey_content s) \<and> list_all prikey_ok rs \<and>
     distinct (map fst rs) \<and> length rs \<le> BOAT_MAX_KEYPAIR_NUM"

subsection \<open>Correctness\<close>

lemma prikey_fields: "prikey_ok r \<Longrightarrow> field_ok (snd r) \<and> field_ok [fst r]"
  by (auto simp: prikey_ok_def field_ok_def)

lemma prikey_enc_flat: "concat (map prikey_enc rs) = concat (map lv (concat (map (\<lambda>r. [[fst r], snd r]) rs)))"
  by (induction rs) (simp_all add: prikey_enc_def)

lemma length_prikey_enc:
  "length (prikey_enc r) = 2 + (length (L_bytes (of_nat (length (snd r)))) + length (snd r))"
proof -
  have "length (prikey_enc r) = 2 + length (lv (snd r))" by (simp add: prikey_enc_def lv_single)
  then show ?thesis by (simp add: length_lv)
qed

context storage_area
begin

lemma prikey_step:
  assumes s: "ok s" and c: "content s = pre @ prikey_enc r @ post" and r: "prikey_ok r"
  shows "\<exists>b. read_len rd (of_nat (length pre)) s = Inr (b, 1, 1)"
    "rd 1 (of_nat (length pre) + 1) 1 s = Inr [fst r]"
    "\<exists>b. read_len rd (of_nat (length pre) + 2) s = Inr (b, of_nat (length (snd r)), of_nat (length (L_bytes (of_nat (length (snd r))))))"
    "rd 97 (of_nat (length pre) + 2 + of_nat (length (L_bytes (of_nat (length (snd r)))))) (of_nat (length (snd r))) s = Inr (snd r)"
proof -
  let ?d = "snd r"
  let ?L = "L_bytes (of_nat (length ?d))"
  note f = prikey_fields [OF r]
  have len: "3 \<le> length (lv ?d)" using r length_lv_bounds(1) [of ?d] by (simp add: prikey_ok_def)
  have c': "content s = pre @ lv [fst r] @ lv ?d @ post" using c by (simp add: prikey_enc_def)
  have "read_len rd (of_nat (length pre)) s = Inr (take 3 (lv [fst r] @ lv ?d @ post), of_nat 1, of_nat (length (L_bytes (of_nat 1))))"
    using read_len_lv [OF s c'] f len by simp
  then show "\<exists>b. read_len rd (of_nat (length pre)) s = Inr (b, 1, 1)" by (simp add: L_bytes_def)
  have "rd 1 (of_nat (length (pre @ [1]))) (of_nat (length [fst r])) s = Inr [fst r]"
    using s c' by (intro rd_parts [of s _ _ "lv ?d @ post"]) (simp_all add: lv_single)
  then show "rd 1 (of_nat (length pre) + 1) 1 s = Inr [fst r]" by (simp add: add.commute)
  have "read_len rd (of_nat (length (pre @ lv [fst r]))) s = Inr (take 3 (lv ?d @ post), of_nat (length ?d), of_nat (length ?L))"
    using f len c' by (intro read_len_lv [OF s]) simp_all
  then show "\<exists>b. read_len rd (of_nat (length pre) + 2) s = Inr (b, of_nat (length ?d), of_nat (length ?L))"
    by (simp add: lv_single add.commute)
  have "rd 97 (of_nat (length (pre @ lv [fst r] @ ?L))) (of_nat (length ?d)) s = Inr ?d"
    using s c' r f by (intro rd_parts [of s _ _ post]) (simp_all add: lv_def prikey_ok_def field_ok_def)
  then show "rd 97 (of_nat (length pre) + 2 + of_nat (length ?L)) (of_nat (length ?d)) s = Inr ?d"
    by (simp add: lv_single add_ac)
qed

lemma prikey_next: "of_nat (length pre) + 2 + (of_nat (length (L_bytes (of_nat (length (snd r))))) + of_nat (length (snd r))) =
    (of_nat (length (pre @ prikey_enc r)) :: u32)"
  by (simp add: length_prikey_enc)

lemma prikey_len_cmp:
  assumes "prikey_ok r"
  shows "\<not> of_nat 97 < (of_nat (length (snd r)) :: u32)" "\<not> (of_nat (length (snd r)) :: u32) < 1"
  using assms by (auto simp: prikey_ok_def word_less_nat_alt)

lemma get_prikey_loop_ok:
  assumes "ok s" "content s = pre @ concat (map prikey_enc rs) @ post" "list_all prikey_ok rs"
  shows "get_prikey_loop rd (length rs) index (of_nat (length pre)) s =
    (case find (\<lambda>r. fst r = index) rs of None \<Rightarrow> Inl (Err BOAT_ERROR) | Some r \<Rightarrow> Inr (snd r))"
  using assms(2,3)
proof (induction rs arbitrary: pre)
  case (Cons r rs)
  have r: "prikey_ok r" and c: "content s = pre @ prikey_enc r @ concat (map prikey_enc rs) @ post"
    using Cons.prems by simp_all
  note st = prikey_step [OF assms(1) c r]
  have IH: "get_prikey_loop rd (length rs) index (of_nat (length (pre @ prikey_enc r))) s =
    (case find (\<lambda>r. fst r = index) rs of None \<Rightarrow> Inl (Err BOAT_ERROR) | Some r \<Rightarrow> Inr (snd r))"
    using Cons.prems by (intro Cons.IH) simp_all
  have o: "of_nat (length pre) + 1 + 1 = (of_nat (length pre) + 2 :: u32)" by simp
  show ?case
    using st prikey_len_cmp [OF r] IH unfolding prikey_next [symmetric]
    by (auto simp: o Let_def)
qed simp

lemma store_walk_ok:
  assumes "ok s" "content s = pre @ concat (map prikey_enc rs) @ post" "list_all prikey_ok rs" "index \<notin> fst ` set rs"
  shows "store_walk rd (length rs) index (of_nat (length pre)) s = Inr (of_nat (length (pre @ concat (map prikey_enc rs))))"
  using assms(2-4)
proof (induction rs arbitrary: pre)
  case (Cons r rs)
  have r: "prikey_ok r" and c: "content s = pre @ prikey_enc r @ concat (map prikey_enc rs) @ post"
    using Cons.prems by simp_all
  note st = prikey_step [OF assms(1) c r]
  have IH: "store_walk rd (length rs) index (of_nat (length (pre @ prikey_enc r))) s =
    Inr (of_nat (length ((pre @ prikey_enc r) @ concat (map prikey_enc rs))))"
    using Cons.prems by (intro Cons.IH) simp_all
  show ?case
    using st Cons.prems(3) IH unfolding prikey_next [symmetric] by (auto simp: add.assoc)
qed simp

lemma store_walk_dup:
  assumes "ok s" "content s = pre @ concat (map prikey_enc rs) @ post" "list_all prikey_ok rs" "index \<in> fst ` set rs"
  shows "store_walk rd (length rs) index (of_nat (length pre)) s = Inl (Err BOAT_ERROR)"
  using assms(2-4)
proof (induction rs arbitrary: pre)
  case (Cons r rs)
  have r: "prikey_ok r" and c: "content s = pre @ prikey_enc r @ concat (map prikey_enc rs) @ post"
    using Cons.prems by simp_all
  note st = prikey_step [OF assms(1) c r]
  have IH: "fst r \<noteq> index \<Longrightarrow> store_walk rd (length rs) index (of_nat (length (pre @ prikey_enc r))) s = Inl (Err BOAT_ERROR)"
    using Cons.prems by (intro Cons.IH) auto
  show ?case
    using st IH unfolding prikey_next [symmetric] by (cases "fst r = index") (auto simp: add.assoc)
qed simp

lemma find_prikey_ok:
  assumes "ok s" "content s = pre @ concat (map prikey_enc (xs @ r # ys)) @ post" "list_all prikey_ok (xs @ r # ys)"
    "index \<notin> fst ` set xs" "fst r = index"
  shows "find_prikey rd (length (xs @ r # ys)) i index (of_nat (length pre)) s =
    Inr (Some (i + length xs, of_nat (length (pre @ concat (map prikey_enc xs))), 1, 1))"
  using assms(2-5)
proof (induction xs arbitrary: pre i)
  case Nil
  then have "content s = pre @ prikey_enc r @ concat (map prikey_enc ys) @ post" "prikey_ok r" by simp_all
  note st = prikey_step [OF assms(1) this]
  show ?case using st Nil.prems by auto
next
  case (Cons x xs)
  have x: "prikey_ok x" and c: "content s = pre @ prikey_enc x @ concat (map prikey_enc (xs @ r # ys)) @ post"
    using Cons.prems by simp_all
  note st = prikey_step [OF assms(1) c x]
  have IH: "find_prikey rd (length (xs @ r # ys)) (i + 1) index (of_nat (length (pre @ prikey_enc x))) s =
    Inr (Some (i + 1 + length xs, of_nat (length ((pre @ prikey_enc x) @ concat (map prikey_enc xs))), 1, 1))"
    using Cons.prems by (intro Cons.IH) simp_all
  show ?case
    using st Cons.prems(3) IH unfolding prikey_next [symmetric] by (auto simp: add.assoc)
qed

lemma skip_prikeys:
  assumes "ok s" "content s = pre @ concat (map prikey_enc rs) @ post" "list_all prikey_ok rs"
  shows "skip_lv rd (2 * length rs) (of_nat (length pre)) s = Inr (of_nat (length pre + length (concat (map prikey_enc rs))))"
proof -
  let ?fs = "concat (map (\<lambda>r. [[fst r], snd r]) rs)"
  have "length ?fs = 2 * length rs" by (induction rs) auto
  moreover have "list_all field_ok ?fs" using assms(3) prikey_fields by (induction rs) auto
  moreover have "?fs \<noteq> [] \<longrightarrow> 2 \<le> length (last ?fs)"
    using assms(3) by (induction rs rule: rev_induct) (auto simp: prikey_ok_def)
  ultimately show ?thesis
    using skip_lv_ok [OF assms(1), of pre ?fs post] assms(2) unfolding prikey_enc_flat by simp
qed

end

lemma prikey_enc_ne [simp]: "prikey_enc r \<noteq> []"
  by (simp add: prikey_enc_def lv_single)

lemma prikeys_ne: "ys \<noteq> [] \<Longrightarrow> concat (map prikey_enc ys) \<noteq> []"
  by (cases ys) simp_all

lemma prikey_enc_size: "prikey_ok r \<Longrightarrow> length (prikey_enc r) \<le> 99 \<and> 5 \<le> length (prikey_enc r)"
proof -
  assume r: "prikey_ok r"
  then have "unat (of_nat (length (snd r)) :: u32) = length (snd r)" by (simp add: prikey_ok_def)
  then have "length (L_bytes (of_nat (length (snd r)))) = 1"
    using r by (simp add: L_bytes_cases prikey_ok_def)
  then show ?thesis using r by (simp add: length_prikey_enc prikey_ok_def)
qed

lemma prikeys_size: "list_all prikey_ok rs \<Longrightarrow> length (concat (map prikey_enc rs)) \<le> 99 * length rs"
  by (induction rs) (use prikey_enc_size in fastforce)+

lemma build_prikey_record_ok:
  assumes mal: "malloc_total mal" and c: "BoATSoftRotNvramEnc hash salt aes_enc prikey = Inr c" and r: "prikey_ok (i, c)"
  shows "\<exists>zs. build_prikey_record mal hash salt aes_enc i prikey =
    Inr (prikey_enc (i, c) @ zs, of_nat (length (prikey_enc (i, c))))"
proof -
  have f: "field_ok c" "field_ok [i]" using prikey_fields [OF r] by simp_all
  have sz: "length (lv [i]) = 2" by (simp add: lv_single)
  have lc: "length (lv c) \<le> 97" using prikey_enc_size [OF r] sz by (simp add: prikey_enc_def)
  have 1: "append_field mal [i] ([] @ replicate 101 0, 0) = Inr ([] @ lv [i] @ replicate 99 0, of_nat (length ([] @ lv [i])))"
    using append_field_ok [OF mal f(2), of "[]" 0 "replicate 101 0"] sz by simp
  have 2: "append_field mal c (lv [i] @ replicate 99 0, of_nat (length (lv [i]))) =
      Inr (lv [i] @ lv c @ drop (length (lv c)) (replicate 99 0), of_nat (length (lv [i] @ lv c)))"
    using append_field_ok [OF mal f(1), of "lv [i]" "of_nat (length (lv [i]))" "replicate 99 0"] lc sz r
    by (simp add: prikey_ok_def)
  have 3: "\<exists>b. buf_put (lv [i] @ replicate 99 0) (unat (of_nat (length (lv [i])) :: u32)) c = Inr b"
    using r sz by (simp add: buf_put_def prikey_ok_def)
  show ?thesis
    using 1 2 3 c r by (auto simp: build_prikey_record_def prikey_enc_def prikey_ok_def)
qed

lemmas prikey_area = area_is_storage [where f = BOAT_STORE_PRIKEY and t = BOAT_STORE_TYPE_FLASH]

lemma storetype_flash: "i \<noteq> 0 \<Longrightarrow> storetype_of i = BOAT_STORE_TYPE_FLASH"
  by (simp add: storetype_of_def)

lemma store_prikey_ok:
  assumes ok: "nvram_ok s" and mal: "malloc_total mal" and rs: "prikeys rs s" "length rs < 5"
    and i: "i \<noteq> 0" "i \<notin> fst ` set rs" and c: "BoATSoftRotNvramEnc hash salt aes_enc prikey = Inr c" "prikey_ok (i, c)"
  shows "\<exists>s'. BoAT_Keystore_store_prikey mal hash salt aes_enc i prikey s = (Inr (), s') \<and> nvram_ok s' \<and>
    area_frame BOAT_STORE_PRIKEY BOAT_STORE_TYPE_FLASH s s' \<and> prikeys (rs @ [(i, c)]) s'"
proof -
  note A = prikey_area [OF mal]
  let ?rd = "area_rd BOAT_STORE_PRIKEY BOAT_STORE_TYPE_FLASH"
  let ?X = "concat (map prikey_enc rs)"
  have h: "holds prikey_enc rs (prikey_content s)" and k: "list_all prikey_ok rs" using rs(1) by (simp_all add: prikeys_def)
  obtain num where num: "read_num ?rd s = Inr num" "unat num = length rs"
    using storage_area.read_num_ok [OF A ok] h by (auto simp: holds_def)
  have walk: "store_walk ?rd (length rs) i 4 s = Inr (of_nat (4 + length ?X))"
  proof (cases "rs = []")
    case False
    then obtain pre rest where p: "prikey_content s = pre @ ?X @ rest" "length pre = 4"
      using holds_split [OF h] by blast
    have "store_walk ?rd (length rs) i (of_nat (length pre)) s = Inr (of_nat (length (pre @ ?X)))"
      using storage_area.store_walk_ok [OF A ok p(1) k i(2)] by simp
    then show ?thesis using p(2) by simp
  qed simp
  obtain zs where b: "build_prikey_record mal hash salt aes_enc i prikey =
      Inr (prikey_enc (i, c) @ zs, of_nat (length (prikey_enc (i, c))))"
    using build_prikey_record_ok [OF mal c] by blast
  have sz: "length (prikey_enc (i, c)) \<le> 99" "prikey_enc (i, c) \<noteq> []" "length ?X \<le> 99 * length rs"
    using prikey_enc_size [OF c(2)] prikeys_size [OF k] by auto
  have fit: "4 + length ?X + length (prikey_enc (i, c)) \<le> area_cap BOAT_STORE_PRIKEY BOAT_STORE_TYPE_FLASH"
    using sz rs(2) by simp
  have "num = of_nat (length rs)" by (simp flip: num(2))
  then obtain s1 s2 where w: "area_wr mal BOAT_STORE_PRIKEY BOAT_STORE_TYPE_FLASH (of_nat (4 + length ?X)) (prikey_enc (i, c)) s = (Inr (), s1)"
      "area_wr mal BOAT_STORE_PRIKEY BOAT_STORE_TYPE_FLASH 0 (utility_get_NumBytes (num + 1)) s1 = (Inr (), s2)"
      "nvram_ok s2" "area_frame BOAT_STORE_PRIKEY BOAT_STORE_TYPE_FLASH s s2" "holds prikey_enc (rs @ [(i, c)]) (prikey_content s2)"
    using storage_area.append_record [OF A ok h, of "(i, c)"] rs(2) sz(2) fit by auto
  have "BoAT_Keystore_store_prikey mal hash salt aes_enc i prikey s = (Inr (), s2)"
    using num walk b w(1,2) rs(2) sz(1) store_prefix [of "prikey_enc (i, c)" mal BOAT_STORE_PRIKEY _ zs BOAT_STORE_TYPE_FLASH]
    by (simp add: BoAT_Keystore_store_prikey_def storetype_flash [OF i(1)] Let_def bindS_def)
  moreover have "prikeys (rs @ [(i, c)]) s2"
    using rs i(2) c(2) w(5) by (auto simp: prikeys_def)
  ultimately show ?thesis using w(3,4) by blast
qed

lemma prikeys_nonempty:
  assumes "nvram_ok s" "prikeys rs s" "rs \<noteq> []"
  shows "\<exists>rest. prikey_content s = utility_get_NumBytes (of_nat (length rs)) @ concat (map prikey_enc rs) @ rest"
    "area_rd BOAT_STORE_PRIKEY BOAT_STORE_TYPE_FLASH 4 0 4 s = Inr (utility_get_NumBytes (of_nat (length rs)))"
    "unat (of_nat (length rs) :: u8) = length rs" "(of_nat (length rs) :: u8) \<noteq> 0"
proof -
  show c: "\<exists>rest. prikey_content s = utility_get_NumBytes (of_nat (length rs)) @ concat (map prikey_enc rs) @ rest"
    using holds_content assms(2,3) unfolding prikeys_def by blast
  then show "area_rd BOAT_STORE_PRIKEY BOAT_STORE_TYPE_FLASH 4 0 4 s = Inr (utility_get_NumBytes (of_nat (length rs)))"
    using storage_area.rd_parts [OF prikey_area [OF heap_all_total] assms(1), of "[]" "utility_get_NumBytes (of_nat (length rs))" _ 4]
    by auto
  show n: "unat (of_nat (length rs) :: u8) = length rs" using assms(2) by (simp add: prikeys_def unat_of_nat)
  then show "(of_nat (length rs) :: u8) \<noteq> 0" using assms(3) by (simp add: word_unat_eq_iff)
qed

lemma get_prikey_found:
  assumes ok: "nvram_ok s" and rs: "prikeys rs s" and i: "i \<noteq> 0" "(i, c) \<in> set rs"
  shows "BoAT_GetPirkeyByIndex hash aes_dec i True s = BoATSoftRotNvramDec hash aes_dec (Some c) (Some 512)"
proof -
  have ne: "rs \<noteq> []" and k: "list_all prikey_ok rs" using i(2) rs by (auto simp: prikeys_def)
  note p = prikeys_nonempty [OF ok rs ne]
  obtain rest where cc: "prikey_content s = utility_get_NumBytes (of_nat (length rs)) @ concat (map prikey_enc rs) @ rest"
    using p(1) by blast
  have "find (\<lambda>r. fst r = i) rs = Some (i, c)"
  proof -
    obtain r where f: "find (\<lambda>r. fst r = i) rs = Some r" using i(2) by (cases "find (\<lambda>r. fst r = i) rs") (auto simp: find_None_iff)
    then have "r \<in> set rs" "fst r = i" by (auto simp: find_Some_iff)
    then have "r = (i, c)" using i(2) rs eq_key_imp_eq_value [of rs i "snd r" c] by (cases r) (auto simp: prikeys_def)
    then show ?thesis using f by simp
  qed
  then have "get_prikey_loop (area_rd BOAT_STORE_PRIKEY BOAT_STORE_TYPE_FLASH) (length rs) i 4 s = Inr c"
    using storage_area.get_prikey_loop_ok [OF prikey_area [OF heap_all_total] ok cc k, of i] by simp
  then show ?thesis
    using p(2-4) NumBytes_get by (simp add: BoAT_GetPirkeyByIndex_def storetype_flash [OF i(1)] Let_def)
qed

lemma prikey_next_last: "of_nat n + (1 + 1) + (of_nat (length (L_bytes (of_nat (length (snd r))))) + of_nat (length (snd r))) =
    (of_nat (n + length (prikey_enc r)) :: u32)" "of_nat n + (1 + 1) = (of_nat n + 2 :: u32)"
  by (simp_all add: length_prikey_enc)

lemma delete_prikey_body_moves:
  assumes ok: "nvram_ok s1" and k: "list_all prikey_ok (xs @ r # ys)" and ne: "ys \<noteq> []"
    and c: "drop 4 (prikey_content s1) = concat (map prikey_enc (xs @ r # ys)) @ rest" "4 \<le> length (prikey_content s1)"
  shows "delete_prikey_body mal (length (xs @ r # ys)) (length xs) (of_nat (4 + length (concat (map prikey_enc xs)))) 1 1 s1 =
    (case mal (length (concat (map prikey_enc ys))) of
       None \<Rightarrow> (Inl (Err BOAT_ERROR_COMMON_OUT_OF_MEMORY), s1)
     | Some _ \<Rightarrow> rethrowS BOAT_ERROR_STORAGE_FILE_WRITE_FAIL
         (area_wr mal BOAT_STORE_PRIKEY BOAT_STORE_TYPE_FLASH (of_nat (4 + length (concat (map prikey_enc xs)))) (concat (map prikey_enc ys))) s1)"
proof -
  note A = prikey_area [OF heap_all_total]
  let ?rd = "area_rd BOAT_STORE_PRIKEY BOAT_STORE_TYPE_FLASH"
  let ?X = "concat (map prikey_enc xs)"
  let ?Y = "concat (map prikey_enc ys)"
  define pre where "pre = take 4 (prikey_content s1) @ ?X"
  have pl: "length pre = 4 + length ?X" using c(2) by (simp add: pre_def)
  have cc: "prikey_content s1 = pre @ prikey_enc r @ ?Y @ rest"
    using c(1) append_take_drop_id [of 4 "prikey_content s1"] by (simp add: pre_def)
  have r: "prikey_ok r" and ky: "list_all prikey_ok ys" using k by simp_all
  obtain b where rl: "?rd = ?rd" "read_len ?rd (of_nat (length pre) + 2) s1 =
      Inr (b, of_nat (length (snd r)), of_nat (length (L_bytes (of_nat (length (snd r))))))"
    using storage_area.prikey_step(3) [OF A ok cc r] by auto
  have mf: "of_nat (length pre) + 2 + (of_nat (length (L_bytes (of_nat (length (snd r))))) + of_nat (length (snd r))) =
      (of_nat (length (pre @ prikey_enc r)) :: u32)"
    by (simp add: length_prikey_enc)
  have cc2: "prikey_content s1 = (pre @ prikey_enc r) @ ?Y @ rest" using cc by simp
  have sk: "skip_lv ?rd (2 * length ys) (of_nat (length (pre @ prikey_enc r))) s1 =
      Inr (of_nat (length (pre @ prikey_enc r) + length ?Y))"
    using storage_area.skip_prikeys [OF A ok cc2 ky] by simp
  have yl: "length ?Y \<le> 499" "?Y \<noteq> []"
    using cc storage_area.content_cap [OF A ok] prikeys_ne [OF ne] by simp_all
  have d: "of_nat (length (pre @ prikey_enc r) + length ?Y) - of_nat (length (pre @ prikey_enc r)) = (of_nat (length ?Y) :: u32)" by simp
  have ul: "unat (of_nat (length ?Y) :: u32) = length ?Y" using yl by (intro unat_of_nat_u32) simp
  have rd: "?rd (length ?Y) (of_nat (length (pre @ prikey_enc r))) (of_nat (length ?Y)) s1 = Inr ?Y"
    using storage_area.rd_parts [OF A ok cc2 yl(2)] by simp
  have off: "of_nat (4 + length ?X) = (of_nat (length pre) :: u32)" by (simp add: pl)
  have i: "(length xs = length (xs @ r # ys) - 1) = False" "length (xs @ r # ys) - 1 - length xs = length ys"
    "of_nat (length pre) + (1 + 1) = (of_nat (length pre) + 2 :: u32)"
    using ne by simp_all
  show ?thesis
    unfolding off delete_prikey_body_def Let_def bindS_def throwS_def i if_False rl(2) sum.case prod.case
      mf sk d ul
    by (cases "mal (length ?Y)") (simp_all only: option.case rd sum.case prod.case)
qed

lemma delete_prikey_body_ok:
  assumes ok: "nvram_ok s1" and mal: "malloc_total mal" and k: "list_all prikey_ok (xs @ r # ys)"
    and c: "drop 4 (prikey_content s1) = concat (map prikey_enc (xs @ r # ys)) @ rest" "4 \<le> length (prikey_content s1)"
    and w: "w = (if ys = [] then [0, 0, 0] else concat (map prikey_enc ys))"
  shows "delete_prikey_body mal (length (xs @ r # ys)) (length xs) (of_nat (4 + length (concat (map prikey_enc xs)))) 1 1 s1 =
    rethrowS (if ys = [] then BOAT_ERROR else BOAT_ERROR_STORAGE_FILE_WRITE_FAIL)
      (area_wr mal BOAT_STORE_PRIKEY BOAT_STORE_TYPE_FLASH (of_nat (4 + length (concat (map prikey_enc xs)))) w) s1"
proof (cases "ys = []")
  case True
  then show ?thesis by (simp add: delete_prikey_body_def w Let_def)
next
  case False
  obtain blk where "mal (length (concat (map prikey_enc ys))) = Some blk" using mal by (auto simp: malloc_total_def)
  then show ?thesis using delete_prikey_body_moves [OF ok k False c] False by (simp add: w)
qed

lemma delete_prikey_ok:
  assumes ok: "nvram_ok s" and mal: "malloc_total mal" and rs: "prikeys (xs @ (i, c) # ys) s" and i: "i \<noteq> 0" "unat i \<le> 5"
  shows "\<exists>s'. BoAT_DeletePirkeyByIndex mal i s = (Inr (), s') \<and> nvram_ok s' \<and>
    area_frame BOAT_STORE_PRIKEY BOAT_STORE_TYPE_FLASH s s' \<and> prikeys (xs @ ys) s'"
proof -
  note A = prikey_area [OF mal]
  let ?rd = "area_rd BOAT_STORE_PRIKEY BOAT_STORE_TYPE_FLASH"
  let ?wr = "area_wr mal BOAT_STORE_PRIKEY BOAT_STORE_TYPE_FLASH"
  let ?rs = "xs @ (i, c) # ys"
  let ?X = "concat (map prikey_enc xs)"
  let ?w = "if ys = [] then [0, 0, 0] else concat (map prikey_enc ys)"
  have h: "holds prikey_enc ?rs (prikey_content s)" and k: "list_all prikey_ok ?rs" and l: "length ?rs \<le> 5"
    and ix: "i \<notin> fst ` set xs" using rs by (auto simp: prikeys_def)
  note p = prikeys_nonempty [OF ok rs]
  obtain rest where cc: "prikey_content s = utility_get_NumBytes (of_nat (length ?rs)) @ concat (map prikey_enc ?rs) @ rest"
    using p(1) by blast
  have fp: "find_prikey ?rd (length ?rs) 0 i 4 s = Inr (Some (length xs, of_nat (4 + length ?X), 1, 1))"
    using storage_area.find_prikey_ok [OF A ok cc k ix, of 0] by simp
  have wne: "?w \<noteq> []" using prikeys_ne [of ys] by simp
  have "length (concat (map prikey_enc ?rs)) \<le> 499 - 4"
    using cc storage_area.content_cap [OF A ok] by simp
  then have fit: "4 + length ?X + length ?w \<le> area_cap BOAT_STORE_PRIKEY BOAT_STORE_TYPE_FLASH"
    using k prikey_enc_size [of "(i, c)"] by auto
  obtain s1 s2 where w: "?wr 0 (utility_get_NumBytes (of_nat (length ?rs) - 1)) s = (Inr (), s1)" "nvram_ok s1"
      "drop 4 (prikey_content s1) = drop 4 (prikey_content s)" "4 \<le> length (prikey_content s1)"
      "?wr (of_nat (4 + length ?X)) ?w s1 = (Inr (), s2)" "nvram_ok s2"
      "area_frame BOAT_STORE_PRIKEY BOAT_STORE_TYPE_FLASH s s2" "holds prikey_enc (xs @ ys) (prikey_content s2)"
    using storage_area.remove_record [OF A ok h _ wne _ fit] l by auto
  have body: "delete_prikey_body mal (length ?rs) (length xs) (of_nat (4 + length ?X)) 1 1 s1 = (Inr (), s2)"
    using delete_prikey_body_ok [OF w(2) mal k _ w(4), of rest ?w] w(3,5) cc by (simp add: rethrowS_def catchS_def)
  have ni: "\<not> of_nat 5 < i" using i(2) by (simp add: word_less_nat_alt)
  have chk: "bindR (?rd 4 0 4 s) utility_check_NumBytes = Inr (of_nat (length ?rs))" using p(2) NumBytes_get by simp
  have "BoAT_DeletePirkeyByIndex mal i s = (Inr (), s2)"
    unfolding BoAT_DeletePirkeyByIndex_def Let_def chk using p(3,4) fp w(1) body i(1) ni
    by (simp add: bindS_def catchS_def)
  moreover have "prikeys (xs @ ys) s2" using rs w(8) by (auto simp: prikeys_def)
  ultimately show ?thesis using w(6,7) by blast
qed

lemma enc_len_32:
  assumes "cipher_ok hash salt aes_enc aes_dec" "length key = 32"
  shows "\<exists>c. BoATSoftRotNvramEnc hash salt aes_enc (Some key) = Inr c \<and> prikey_ok (i, c) \<and>
    BoATSoftRotNvramDec hash aes_dec (Some c) (Some 512) = Inr key"
proof -
  have "padded_len 32 = 48" by (simp add: padded_len_def)
  then show ?thesis using nvram_enc_dec_length [OF assms(1), of key 512] assms(2) by (fastforce simp: prikey_ok_def)
qed

text \<open>
  C32: Storing a key and asking for it by its index gives the key back: with free room and an unused index from 1 to 5, a 32-byte
  private key is encrypted and appended to the key area, every key that was there stays
  there, no other storage area is disturbed, and reading by the index decrypts it.
\<close>

theorem store_then_get_prikey:
  assumes "nvram_ok s" "malloc_total mal" "prikeys rs s" "length rs < 5" "i \<noteq> 0" "i \<notin> fst ` set rs"
    "cipher_ok hash salt aes_enc aes_dec" "length key = 32"
  shows "\<exists>s' c. BoAT_Keystore_store_prikey mal hash salt aes_enc i (Some key) s = (Inr (), s') \<and>
     nvram_ok s' \<and> prikeys (rs @ [(i, c)]) s' \<and>
     area_frame BOAT_STORE_PRIKEY BOAT_STORE_TYPE_FLASH s s' \<and>
     BoAT_GetPirkeyByIndex hash aes_dec i True s' = Inr key \<and>
     (\<forall>j d. (j, d) \<in> set rs \<and> j \<noteq> 0 \<longrightarrow>
        BoAT_GetPirkeyByIndex hash aes_dec j True s' = BoAT_GetPirkeyByIndex hash aes_dec j True s)"
proof -
  obtain c where c: "BoATSoftRotNvramEnc hash salt aes_enc (Some key) = Inr c" "prikey_ok (i, c)"
      "BoATSoftRotNvramDec hash aes_dec (Some c) (Some 512) = Inr key"
    using enc_len_32 [OF assms(7,8)] by blast
  obtain s' where s': "BoAT_Keystore_store_prikey mal hash salt aes_enc i (Some key) s = (Inr (), s')" "nvram_ok s'"
      "area_frame BOAT_STORE_PRIKEY BOAT_STORE_TYPE_FLASH s s'" "prikeys (rs @ [(i, c)]) s'"
    using store_prikey_ok [OF assms(1-6) c(1,2)] by blast
  have "BoAT_GetPirkeyByIndex hash aes_dec i True s' = Inr key"
    using get_prikey_found [OF s'(2,4) assms(5), of c] c(3) by simp
  moreover have "BoAT_GetPirkeyByIndex hash aes_dec j True s' = BoAT_GetPirkeyByIndex hash aes_dec j True s"
    if "(j, d) \<in> set rs" "j \<noteq> 0" for j d
    using get_prikey_found [OF s'(2,4) that(2), of d] get_prikey_found [OF assms(1,3) that(2,1)] that(1) by simp
  ultimately show ?thesis using s' by blast
qed

lemma no_prikeys: "prikeys [] blank_device"
  by (simp add: prikeys_def holds_def area_num_def area_content_def blank_device_def file_bytes_def)

theorem store_then_get_prikey_witness:
  "\<exists>s'. BoAT_Keystore_store_prikey heap_all (\<lambda>xs. replicate 32 5) (replicate 16 9) (\<lambda>iv key d. Inr (map (\<lambda>b. b XOR 0x55) d)) 3
       (Some (replicate 32 7)) blank_device = (Inr (), s') \<and>
     BoAT_GetPirkeyByIndex (\<lambda>xs. replicate 32 5) (\<lambda>iv key d. Inr (map (\<lambda>b. b XOR 0x55) d)) 3 True s' = Inr (replicate 32 7)"
  using store_then_get_prikey [OF blank_device_ok(1) heap_all_total no_prikeys _ _ _ xor_cipher_ok, of 3 "replicate 32 7"] by auto

text \<open>
  Deleting a key removes exactly that key: the remaining records keep their order and content, on the
  same area, and the other areas are undisturbed.
\<close>

theorem delete_prikey_exact:
  assumes "nvram_ok s" "malloc_total mal" "prikeys (xs @ (i, c) # ys) s" "i \<noteq> 0" "unat i \<le> 5"
  shows "\<exists>s'. BoAT_DeletePirkeyByIndex mal i s = (Inr (), s') \<and> nvram_ok s' \<and>
    area_frame BOAT_STORE_PRIKEY BOAT_STORE_TYPE_FLASH s s' \<and> prikeys (xs @ ys) s' \<and>
    (\<forall>j d. (j, d) \<in> set (xs @ ys) \<and> j \<noteq> 0 \<longrightarrow>
       BoAT_GetPirkeyByIndex hash aes_dec j True s' = BoAT_GetPirkeyByIndex hash aes_dec j True s)"
proof -
  obtain s' where s': "BoAT_DeletePirkeyByIndex mal i s = (Inr (), s')" "nvram_ok s'"
      "area_frame BOAT_STORE_PRIKEY BOAT_STORE_TYPE_FLASH s s'" "prikeys (xs @ ys) s'"
    using delete_prikey_ok [OF assms] by blast
  have "BoAT_GetPirkeyByIndex hash aes_dec j True s' = BoAT_GetPirkeyByIndex hash aes_dec j True s"
    if "(j, d) \<in> set (xs @ ys)" "j \<noteq> 0" for j d
    using get_prikey_found [OF s'(2,4) that(2,1)] get_prikey_found [OF assms(1,3) that(2), of d] that(1) by auto
  then show ?thesis using s' by blast
qed

lemma two_prikeys: "\<exists>s c. nvram_ok s \<and> prikeys [(1, c), (2, c)] s"
proof -
  obtain c where c: "BoATSoftRotNvramEnc (\<lambda>xs. replicate 32 5) (replicate 16 9) (\<lambda>iv key d. Inr (map (\<lambda>b. b XOR 0x55) d))
      (Some (replicate 32 7)) = Inr c" "prikey_ok (1, c)" "prikey_ok (2, c)"
    using enc_len_32 [OF xor_cipher_ok, of "replicate 32 7"] by (auto simp: prikey_ok_def)
  obtain s1 where s1: "nvram_ok s1" "prikeys [(1, c)] s1"
    using store_prikey_ok [OF blank_device_ok(1) heap_all_total no_prikeys _ _ _ c(1,2)] by auto
  then show ?thesis using store_prikey_ok [OF s1(1) heap_all_total s1(2) _ _ _ c(1,3)] by auto
qed

theorem delete_prikey_exact_witness:
  "\<exists>s c s'. nvram_ok s \<and> prikeys [(1, c), (2, c)] s \<and> BoAT_DeletePirkeyByIndex heap_all 1 s = (Inr (), s') \<and> prikeys [(2, c)] s'"
proof -
  obtain s c where s: "nvram_ok s" "prikeys ([] @ (1, c) # [(2, c)]) s" using two_prikeys by auto
  from delete_prikey_exact [OF s(1) heap_all_total s(2)] obtain s' where
    "BoAT_DeletePirkeyByIndex heap_all 1 s = (Inr (), s')" "prikeys [(2, c)] s'" by auto
  then show ?thesis using s by fastforce
qed

text \<open>
  A failed deletion can be reported as a success: when the block for moving the later records cannot be
  allocated, the counter is restored, no key has been deleted, and \<open>BoAT_DeletePirkeyByIndex\<close> returns
  \<open>BOAT_SUCCESS\<close>.
\<close>

theorem delete_prikey_false_success:
  assumes "nvram_ok s" "prikeys (xs @ (i, c) # ys) s" "i \<noteq> 0" "unat i \<le> 5" "ys \<noteq> []"
    "mal (length (concat (map prikey_enc ys))) = None"
  shows "\<exists>s'. BoAT_DeletePirkeyByIndex mal i s = (Inr (), s') \<and> prikeys (xs @ (i, c) # ys) s'"
proof -
  note A = prikey_area [OF heap_all_total]
  let ?rd = "area_rd BOAT_STORE_PRIKEY BOAT_STORE_TYPE_FLASH"
  let ?wr = "area_wr mal BOAT_STORE_PRIKEY BOAT_STORE_TYPE_FLASH"
  let ?rs = "xs @ (i, c) # ys"
  let ?X = "concat (map prikey_enc xs)"
  have k: "list_all prikey_ok ?rs" and ix: "i \<notin> fst ` set xs" using assms(2) by (auto simp: prikeys_def)
  note p = prikeys_nonempty [OF assms(1,2)]
  obtain rest where cc: "prikey_content s = utility_get_NumBytes (of_nat (length ?rs)) @ concat (map prikey_enc ?rs) @ rest"
    using p(1) by blast
  have fp: "find_prikey ?rd (length ?rs) 0 i 4 s = Inr (Some (length xs, of_nat (4 + length ?X), 1, 1))"
    using storage_area.find_prikey_ok [OF A assms(1) cc k ix, of 0] by simp
  have cwr: "\<exists>s'. ?wr 0 (utility_get_NumBytes n) u = (Inr (), s') \<and> nvram_ok s' \<and>
      prikey_content s' = utility_get_NumBytes n @ drop 4 (prikey_content u)"
    if "nvram_ok u" "prikey_content u \<noteq> []" for n u
    using storage_area.wr_ok [OF A that(1) NumBytes_ne, of 0 n] counter_wr_no_malloc [OF that, of mal "utility_get_NumBytes n"]
    by (auto simp: overlay_head)
  obtain s1 where s1: "?wr 0 (utility_get_NumBytes (of_nat (length ?rs) - 1)) s = (Inr (), s1)" "nvram_ok s1"
      "prikey_content s1 = utility_get_NumBytes (of_nat (length ?rs) - 1) @ concat (map prikey_enc ?rs) @ rest"
    using cwr [OF assms(1)] cc by fastforce
  obtain s2 where s2: "?wr 0 (utility_get_NumBytes (of_nat (length ?rs))) s1 = (Inr (), s2)" "prikey_content s2 = prikey_content s"
    using cwr [OF s1(2)] s1(3) cc by fastforce
  have body: "delete_prikey_body mal (length ?rs) (length xs) (of_nat (4 + length ?X)) 1 1 s1 =
      (Inl (Err BOAT_ERROR_COMMON_OUT_OF_MEMORY), s1)"
    using delete_prikey_body_moves [OF s1(2) k assms(5), of rest mal] s1(3) assms(6) by simp
  have ni: "\<not> of_nat 5 < i" using assms(4) by (simp add: word_less_nat_alt)
  have chk: "bindR (?rd 4 0 4 s) utility_check_NumBytes = Inr (of_nat (length ?rs))" using p(2) NumBytes_get by simp
  have "BoAT_DeletePirkeyByIndex mal i s = (Inr (), s2)"
    unfolding BoAT_DeletePirkeyByIndex_def Let_def chk using p(3,4) fp s1(1) s2(1) body assms(3) ni
    by (simp add: bindS_def catchS_def)
  then show ?thesis using s2(2) assms(2) by (simp add: prikeys_def)
qed

theorem delete_prikey_false_success_witness:
  "\<exists>s c s'. prikeys [(1, c), (2, c)] s \<and> BoAT_DeletePirkeyByIndex (\<lambda>n. None) 1 s = (Inr (), s') \<and> prikeys [(1, c), (2, c)] s'"
proof -
  obtain s c where s: "nvram_ok s" "prikeys ([] @ (1, c) # [(2, c)]) s" using two_prikeys by auto
  from delete_prikey_false_success [OF s, of "\<lambda>n. None"] s(2) show ?thesis by auto
qed

end
