(* ===== verification/Boat_Keypair.thy ===== *)
theory Boat_Keypair
  imports Boat_Keystore
begin

text \<open>
  The keypair manager of \<open>sdk/keypair/boatkeypair.c\<close> with the key creation of
  \<open>vendor/platform/linux-default/src/port_crypto_default/boatplatform_internal.c\<close>. A keypair record
  is a length field followed by the length-value fields index, name, key format, key type and public key;
  the matching private key is in the keystore.

  A context is filled field by field, so a function that fills one returns it on its error returns too.
  \<open>keypair_name\<close> is the heap block the pointer leads to, \<open>None\<close> a null pointer; \<open>prikey_format\<close> and \<open>prikey_type\<close> are the four bytes
  of the enumeration objects, which the code copies as such.
\<close>

subsection \<open>Data\<close>

record BoatKeypairPriKeyCtx =
  keypair_index :: u8
  keypair_name :: "bytes option"
  prikey_format :: bytes
  prikey_type :: bytes
  pubkey_content :: bytes

record BoatKeypairExtraData =
  value_len :: u32
  value_bytes :: bytes

record BoatKeypairDataCtx =
  prikeyCtx :: BoatKeypairPriKeyCtx
  extraData :: BoatKeypairExtraData

record BoatIotKeypairContext =
  keypairNum :: u8
  keypairPersistentNum :: u8
  keypairs :: "BoatKeypairDataCtx list"

datatype BoatKeypairPriKeyGenMode =
    BOAT_KEYPAIR_PRIKEY_GENMODE_UNKNOWN
  | BOAT_KEYPAIR_PRIKEY_GENMODE_EXTERNAL_INJECTION
  | BOAT_KEYPAIR_PRIKEY_GENMODE_INTERNAL_GENERATION

datatype BoatKeypairPriKeyFormat =
    BOAT_KEYPAIR_PRIKEY_FORMAT_UNKNOWN
  | BOAT_KEYPAIR_PRIKEY_FORMAT_PKCS
  | BOAT_KEYPAIR_PRIKEY_FORMAT_NATIVE
  | BOAT_KEYPAIR_PRIKEY_FORMAT_MNEMONIC

datatype BoatKeypairPriKeyType =
    BOAT_KEYPAIR_PRIKEY_TYPE_UNKNOWN
  | BOAT_KEYPAIR_PRIKEY_TYPE_SECP256K1
  | BOAT_KEYPAIR_PRIKEY_TYPE_SECP256R1

record BoatKeypairPriKeyCtx_config =
  cfg_genMode :: BoatKeypairPriKeyGenMode
  cfg_format :: BoatKeypairPriKeyFormat
  cfg_type :: BoatKeypairPriKeyType
  cfg_content :: "bytes option"

text \<open>The little-endian bytes of the enumeration objects.\<close>

fun format_rep :: "BoatKeypairPriKeyFormat \<Rightarrow> bytes" where
  "format_rep BOAT_KEYPAIR_PRIKEY_FORMAT_UNKNOWN = [0, 0, 0, 0]"
| "format_rep BOAT_KEYPAIR_PRIKEY_FORMAT_PKCS = [1, 0, 0, 0]"
| "format_rep BOAT_KEYPAIR_PRIKEY_FORMAT_NATIVE = [2, 0, 0, 0]"
| "format_rep BOAT_KEYPAIR_PRIKEY_FORMAT_MNEMONIC = [3, 0, 0, 0]"

fun type_rep :: "BoatKeypairPriKeyType \<Rightarrow> bytes" where
  "type_rep BOAT_KEYPAIR_PRIKEY_TYPE_UNKNOWN = [0, 0, 0, 0]"
| "type_rep BOAT_KEYPAIR_PRIKEY_TYPE_SECP256K1 = [1, 0, 0, 0]"
| "type_rep BOAT_KEYPAIR_PRIKEY_TYPE_SECP256R1 = [2, 0, 0, 0]"

subsection \<open>Reading keypairs\<close>

text \<open>The block for the name is terminated before it is filled; a failed allocation is not noticed.\<close>

definition new_name :: "(nat \<Rightarrow> bytes option) \<Rightarrow> u32 \<Rightarrow> BoatKeypairPriKeyCtx \<Rightarrow> bytes res \<times> BoatKeypairPriKeyCtx" where
  "new_name mal l c =
     (case mal (unat (l + 1)) of
        None \<Rightarrow> (Inl UB, c)
      | Some blk \<Rightarrow>
          (case buf_put blk (unat l) [0] of
             Inl e \<Rightarrow> (Inl e, c)
           | Inr b \<Rightarrow> (Inr b, c\<lparr>keypair_name := Some b\<rparr>)))"

definition BoATKeypair_GetKeypairFromNvram ::
  "(nat \<Rightarrow> bytes option) \<Rightarrow> (nat \<Rightarrow> u32 \<Rightarrow> u32 \<Rightarrow> 's \<Rightarrow> bytes res) \<Rightarrow> u32 \<Rightarrow> 's \<Rightarrow>
     BoatKeypairPriKeyCtx \<Rightarrow> u32 res \<times> BoatKeypairPriKeyCtx" where
  "BoATKeypair_GetKeypairFromNvram mal rd startAddr s =
     bindS (liftS (read_len rd startAddr s)) (\<lambda>(_, klen, kll).
     let obj = startAddr + kll in
     bindS (read_field rd (Some 1) obj klen (\<lambda>c. [keypair_index c]) (\<lambda>d c. c\<lparr>keypair_index := hd d\<rparr>) s obj) (\<lambda>o1.
     bindS (liftS (param_head rd None obj klen o1 s)) (\<lambda>(l, o2).
     bindS (new_name mal l) (\<lambda>blk.
     bindS (liftS (rd (length blk) o2 l s)) (\<lambda>d.
     bindS (updS (\<lambda>c. c\<lparr>keypair_name := Some (d @ drop (length d) blk)\<rparr>)) (\<lambda>_.
     bindS (read_field rd None obj klen prikey_format (\<lambda>d c. c\<lparr>prikey_format := d\<rparr>) s (o2 + l)) (\<lambda>o3.
     bindS (read_field rd None obj klen prikey_type (\<lambda>d c. c\<lparr>prikey_type := d\<rparr>) s o3) (\<lambda>o4.
     bindS (read_field rd (Some 64) obj klen pubkey_content (\<lambda>d c. c\<lparr>pubkey_content := d\<rparr>) s o4) (\<lambda>_.
     liftS (Inr (klen + kll)))))))))))"

text \<open>The branch of \<open>BoATKeypair_GetKeypairByIndex\<close> for the keypair that is looked for.\<close>

definition get_keypair_fields ::
  "(nat \<Rightarrow> bytes option) \<Rightarrow> (nat \<Rightarrow> u32 \<Rightarrow> u32 \<Rightarrow> 's \<Rightarrow> bytes res) \<Rightarrow> u8 \<Rightarrow> u32 \<Rightarrow> u32 \<Rightarrow> 's \<Rightarrow>
     BoatKeypairPriKeyCtx \<Rightarrow> unit res \<times> BoatKeypairPriKeyCtx" where
  "get_keypair_fields mal rd index obj klen s =
     bindS (updS (\<lambda>c. c\<lparr>keypair_index := index\<rparr>)) (\<lambda>_.
     bindS (liftS (guardR (klen < obj + 2 - obj) BOAT_ERROR (param_head rd None obj klen (obj + 2) s))) (\<lambda>(l, o2).
     case mal (unat (l + 1)) of
       None \<Rightarrow> bindS (updS (\<lambda>c. c\<lparr>keypair_name := None\<rparr>)) (\<lambda>_. liftS (Inl (Err BOAT_ERROR)))
     | Some blk \<Rightarrow>
         bindS (updS (\<lambda>c. c\<lparr>keypair_name := Some blk\<rparr>)) (\<lambda>_.
         bindS (liftS (bindR (rd (length blk) o2 l s) (\<lambda>d. buf_put (d @ drop (length d) blk) (unat l) [0]))) (\<lambda>b.
         bindS (updS (\<lambda>c. c\<lparr>keypair_name := Some b\<rparr>)) (\<lambda>_.
         bindS (read_field rd None obj klen prikey_format (\<lambda>d c. c\<lparr>prikey_format := d\<rparr>) s (o2 + l)) (\<lambda>o3.
         bindS (read_field rd None obj klen prikey_type (\<lambda>d c. c\<lparr>prikey_type := d\<rparr>) s o3) (\<lambda>o4.
         bindS (read_field rd None obj klen pubkey_content (\<lambda>d c. c\<lparr>pubkey_content := d\<rparr>) s o4) (\<lambda>_.
         liftS (Inr ())))))))))"

fun get_keypair_loop ::
  "(nat \<Rightarrow> bytes option) \<Rightarrow> (nat \<Rightarrow> u32 \<Rightarrow> u32 \<Rightarrow> 's \<Rightarrow> bytes res) \<Rightarrow> nat \<Rightarrow> u8 \<Rightarrow> u32 \<Rightarrow> 's \<Rightarrow>
     BoatKeypairPriKeyCtx \<Rightarrow> unit res \<times> BoatKeypairPriKeyCtx" where
  "get_keypair_loop mal rd 0 index off s = liftS (Inl (Err BOAT_ERROR_KEYPAIR_KEY_INEXISTENCE))"
| "get_keypair_loop mal rd (Suc k) index off s =
     bindS (liftS (read_len rd off s)) (\<lambda>(_, klen, kll).
     let obj = off + kll in
     bindS (liftS (bindR (read_len rd obj s) (\<lambda>(b, l, ll). guardR (l \<noteq> 1) BOAT_ERROR (Inr b)))) (\<lambda>b.
     if b ! 1 = index then get_keypair_fields mal rd index obj klen s
     else get_keypair_loop mal rd k index (obj + klen) s))"

definition BoATKeypair_GetKeypairByIndex ::
  "(nat \<Rightarrow> bytes option) \<Rightarrow> u8 \<Rightarrow> nvram \<Rightarrow> BoatKeypairPriKeyCtx option \<Rightarrow> unit res \<times> BoatKeypairPriKeyCtx option" where
  "BoATKeypair_GetKeypairByIndex mal index s priKeyCtx =
     (case priKeyCtx of
        None \<Rightarrow> (Inl (Err BOAT_ERROR_COMMON_INVALID_ARGUMENT), None)
      | Some c \<Rightarrow>
          if of_nat BOAT_MAX_KEYPAIR_NUM < index then (Inl (Err BOAT_ERROR_KEYPAIR_KEY_INDEX_EXCEED), Some c)
          else
            let rd = area_rd BOAT_STORE_KEYPAIR (storetype_of index)
            in case rd 4 0 4 s of
                 Inl UB \<Rightarrow> (Inl UB, Some c)
               | Inl (Err _) \<Rightarrow> (Inl (Err BOAT_ERROR), Some c)
               | Inr b \<Rightarrow>
                   (case utility_check_NumBytes b of
                      Inl _ \<Rightarrow> (Inl (Err BOAT_ERROR_KEYPAIR_KEY_INEXISTENCE), Some c)
                    | Inr num \<Rightarrow>
                        if num = 0 then (Inl (Err BOAT_ERROR_KEYPAIR_KEY_INEXISTENCE), Some c)
                        else map_prod id Some (get_keypair_loop mal rd (unat num) index 4 s c)))"

text \<open>The loop of \<open>BoATKeypair_GetKeypairList\<close>: the next free slot of the list and the offset advance together.\<close>

fun list_loop ::
  "(nat \<Rightarrow> bytes option) \<Rightarrow> (nat \<Rightarrow> u32 \<Rightarrow> u32 \<Rightarrow> 's \<Rightarrow> bytes res) \<Rightarrow> nat \<Rightarrow> nat \<Rightarrow> u32 \<Rightarrow> 's \<Rightarrow>
     BoatIotKeypairContext \<Rightarrow> unit res \<times> BoatIotKeypairContext" where
  "list_loop mal rd 0 slot off s kl = (Inr (), kl)"
| "list_loop mal rd (Suc k) slot off s kl =
     (if length (keypairs kl) \<le> slot then (Inl UB, kl)
      else
        let e = keypairs kl ! slot in
        case BoATKeypair_GetKeypairFromNvram mal rd off s (prikeyCtx e) of
          (r, c) \<Rightarrow>
            (let kl' = kl\<lparr>keypairs := (keypairs kl)[slot := e\<lparr>prikeyCtx := c\<rparr>]\<rparr>
             in case r of
                  Inl e \<Rightarrow> (Inl e, kl')
                | Inr n \<Rightarrow> list_loop mal rd k (slot + 1) (off + n) s kl'))"

text \<open>
  When the one-time area cannot be read its error is what the function returns.
\<close>

definition BoATKeypair_GetKeypairList ::
  "(nat \<Rightarrow> bytes option) \<Rightarrow> nvram \<Rightarrow> BoatIotKeypairContext option \<Rightarrow> unit res \<times> BoatIotKeypairContext option" where
  "BoATKeypair_GetKeypairList mal s keypairList =
     (case keypairList of
        None \<Rightarrow> (Inl (Err BOAT_ERROR_COMMON_INVALID_ARGUMENT), None)
      | Some kl \<Rightarrow>
          let rdF = area_rd BOAT_STORE_KEYPAIR BOAT_STORE_TYPE_FLASH;
              rdR = area_rd BOAT_STORE_KEYPAIR BOAT_STORE_TYPE_RAM
          in map_prod id Some
            (bindS (liftS (read_num rdF s)) (\<lambda>num.
             bindS (updS (\<lambda>kl. kl\<lparr>keypairPersistentNum := num, keypairNum := num\<rparr>)) (\<lambda>_.
             bindS (list_loop mal rdF (unat num) 0 4 s) (\<lambda>_.
             bindS (liftS (read_num rdR s)) (\<lambda>num1.
             bindS (updS (\<lambda>kl. kl\<lparr>keypairNum := keypairNum kl + num1\<rparr>)) (\<lambda>_.
             bindS (list_loop mal rdR (unat num1) (unat num) 4 s) (\<lambda>_.
             liftS (case rdR 4 0 4 s of Inl e \<Rightarrow> Inl e | Inr _ \<Rightarrow> Inr ()))))))) kl))"

text \<open>The blocks that \<open>BoATKeypair_FreeKeypairContext\<close> releases.\<close>

definition BoATKeypair_FreeKeypairContext :: "BoatIotKeypairContext \<Rightarrow> bytes list res" where
  "BoATKeypair_FreeKeypairContext kl =
     (if keypairNum kl = 0 then Inr []
      else if length (keypairs kl) < unat (keypairNum kl) then Inl UB
      else Inr (List.map_filter (\<lambda>e. keypair_name (prikeyCtx e)) (take (unat (keypairNum kl)) (keypairs kl))))"

definition BoATKeypair_Init_BoatIotKeypairContext :: "BoatIotKeypairContext \<Rightarrow> BoatIotKeypairContext" where
  "BoATKeypair_Init_BoatIotKeypairContext kl =
     kl\<lparr>keypairNum := 0,
        keypairs :=
          map (\<lambda>e. \<lparr>prikeyCtx = (prikeyCtx e)\<lparr>keypair_index := 0, keypair_name := None\<rparr>,
                    extraData = \<lparr>value_len = 0, value_bytes = replicate 512 0\<rparr>\<rparr>)
            (take BOAT_MAX_KEYPAIR_NUM (keypairs kl)) @ drop BOAT_MAX_KEYPAIR_NUM (keypairs kl)\<rparr>"

text \<open>The two nested loops: whether some entry has the index, and the first index no entry has.\<close>

fun entry_has :: "nat \<Rightarrow> BoatKeypairDataCtx list \<Rightarrow> u8 \<Rightarrow> bool res" where
  "entry_has 0 es i = Inr False"
| "entry_has (Suc k) [] i = Inl UB"
| "entry_has (Suc k) (e # es) i = (if keypair_index (prikeyCtx e) = i then Inr True else entry_has k es i)"

fun free_index_scan :: "nat \<Rightarrow> nat \<Rightarrow> nat \<Rightarrow> BoatKeypairDataCtx list \<Rightarrow> nat option res" where
  "free_index_scan 0 i num es = Inr None"
| "free_index_scan (Suc k) i num es =
     bindR (entry_has num es (of_nat (i + 1))) (\<lambda>used.
       if used then free_index_scan k (i + 1) num es else Inr (Some (i + 1)))"

text \<open>\<open>junk\<close> is the uninitialised list on the stack.\<close>

definition BoATKeypair_GetFreeIndex_From_Persistent ::
  "(nat \<Rightarrow> bytes option) \<Rightarrow> BoatIotKeypairContext \<Rightarrow> nvram \<Rightarrow> nat res" where
  "BoATKeypair_GetFreeIndex_From_Persistent mal junk s =
     (case BoATKeypair_GetKeypairList mal s (Some (BoATKeypair_Init_BoatIotKeypairContext junk)) of
        (Inl UB, _) \<Rightarrow> Inl UB
      | (_, None) \<Rightarrow> Inl UB
      | (_, Some kl) \<Rightarrow>
          if keypairPersistentNum kl = of_nat BOAT_MAX_KEYPAIR_NUM
          then bindR (BoATKeypair_FreeKeypairContext kl) (\<lambda>_. Inl (Err BOAT_ERROR_KEYPAIR_KEY_INDEX_EXCEED))
          else
            bindR (free_index_scan BOAT_MAX_KEYPAIR_NUM 0 (unat (keypairNum kl)) (keypairs kl)) (\<lambda>found.
            bindR (BoATKeypair_FreeKeypairContext kl) (\<lambda>_.
              case found of
                Some i \<Rightarrow> Inr i
              | None \<Rightarrow> if keypairNum kl = 0 then Inr 0 else Inl (Err BOAT_ERROR_KEYPAIR_KEY_INDEX_EXCEED))))"

subsection \<open>Storing keypairs\<close>

definition BoATKeypair_Get_DataCtx_Len :: "BoatKeypairPriKeyCtx \<Rightarrow> u32 res" where
  "BoATKeypair_Get_DataCtx_Len c =
     (case keypair_name c of
        None \<Rightarrow> Inl (Err BOAT_ERROR)
      | Some blk \<Rightarrow>
          bindR (c_string blk) (\<lambda>name.
            Inr (stored_len (stored_len 1 + stored_len (of_nat (length name)) + stored_len 4 + stored_len 4 + stored_len 64))))"

text \<open>\<open>data\<close> is the block the record is built in; the result is the block and the length of the record.\<close>

definition BoATKeypair_Get_DataCtx_Data ::
  "(nat \<Rightarrow> bytes option) \<Rightarrow> BoatKeypairPriKeyCtx \<Rightarrow> bytes option \<Rightarrow> (bytes \<times> u32) res" where
  "BoATKeypair_Get_DataCtx_Data mal c data_buf =
     (case data_buf of
        None \<Rightarrow> Inl (Err BOAT_ERROR)
      | Some buf \<Rightarrow>
          bindR (append_field mal [keypair_index c] (buf, 0)) (\<lambda>p1.
          bindR (case keypair_name c of None \<Rightarrow> Inl UB | Some blk \<Rightarrow> c_string blk) (\<lambda>name.
          bindR (append_field mal name p1) (\<lambda>p2.
          bindR (append_field mal (prikey_format c) p2) (\<lambda>p3.
          bindR (append_field mal (prikey_type c) p3) (\<lambda>p4.
          bindR (append_field mal (pubkey_content c) p4) (\<lambda>(b, off).
          bindR (add_L_withOffset mal b 0 off) (\<lambda>(r, b', off').
            guardR (r < 0) BOAT_ERROR (Inr (b', off'))))))))))"

definition BoATKeypair_DataCtx_Store ::
  "(nat \<Rightarrow> bytes option) \<Rightarrow> BoatKeypairPriKeyCtx \<Rightarrow> BoatStoreType \<Rightarrow> nvram \<Rightarrow> unit res \<times> nvram" where
  "BoATKeypair_DataCtx_Store mal c storeType s =
     (let rd = area_rd BOAT_STORE_KEYPAIR storeType
      in case
        bindR (read_num rd s) (\<lambda>num.
        guardR (BOAT_MAX_KEYPAIR_NUM \<le> unat num) BOAT_ERROR_KEYPAIR_KEY_INDEX_EXCEED
       (let num' = (if storeType = BOAT_STORE_TYPE_RAM then 0 else num) in
        bindR (skip_lv rd (unat num') 4 s) (\<lambda>off.
        bindR (BoATKeypair_Get_DataCtx_Len c) (\<lambda>len.
        case mal (unat len) of
          None \<Rightarrow> Inl (Err BOAT_ERROR)
        | Some blk \<Rightarrow>
            bindR (BoATKeypair_Get_DataCtx_Data mal c (Some blk)) (\<lambda>(buf, n).
              Inr (num', off, buf, n)))))) of
        Inl e \<Rightarrow> (Inl e, s)
      | Inr (num', off, buf, n) \<Rightarrow>
          bindS (BoATStoreSoftRotNvram mal BOAT_STORE_KEYPAIR off (Some buf) n storeType) (\<lambda>_.
            area_wr mal BOAT_STORE_KEYPAIR storeType 0 (utility_get_NumBytes (num' + 1))) s)"

definition BoATIotKeypairInit :: "BoatKeypairDataCtx" where
  "BoATIotKeypairInit =
     \<lparr>prikeyCtx = \<lparr>keypair_index = 0, keypair_name = None,
        prikey_format = format_rep BOAT_KEYPAIR_PRIKEY_FORMAT_UNKNOWN,
        prikey_type = type_rep BOAT_KEYPAIR_PRIKEY_TYPE_UNKNOWN, pubkey_content = replicate 64 0\<rparr>,
      extraData = \<lparr>value_len = 0, value_bytes = replicate 512 0\<rparr>\<rparr>"

text \<open>De-initialisation leaves the initial context and releases the name.\<close>

definition BoATIotKeypairDeInit :: "BoatKeypairDataCtx \<Rightarrow> BoatKeypairDataCtx \<times> bytes option" where
  "BoATIotKeypairDeInit d = (BoATIotKeypairInit, keypair_name (prikeyCtx d))"

subsection \<open>Deleting keypairs\<close>

fun find_keypair ::
  "(nat \<Rightarrow> u32 \<Rightarrow> u32 \<Rightarrow> 's \<Rightarrow> bytes res) \<Rightarrow> nat \<Rightarrow> nat \<Rightarrow> u8 \<Rightarrow> u32 \<Rightarrow> 's \<Rightarrow> (nat \<times> u32 \<times> u32 \<times> u32) option res" where
  "find_keypair rd 0 i index off s = Inr None"
| "find_keypair rd (Suc k) i index off s =
     bindR (read_len rd off s) (\<lambda>(_, klen, kll).
     bindR (read_len rd (off + kll) s) (\<lambda>(_, l, _).
     guardR (l \<noteq> 1) BOAT_ERROR
    (bindR (rd 1 (off + kll + 1) 1 s) (\<lambda>b.
     if hd b = index then Inr (Some (i, off, klen, kll))
     else find_keypair rd k (i + 1) index (off + (kll + klen)) s))))"

text \<open>The body between the two counter updates: blank the last record, or move the later ones down.\<close>

definition delete_keypair_body ::
  "(nat \<Rightarrow> bytes option) \<Rightarrow> nat \<Rightarrow> nat \<Rightarrow> u32 \<Rightarrow> u32 \<Rightarrow> u32 \<Rightarrow> nvram \<Rightarrow> unit res \<times> nvram" where
  "delete_keypair_body mal num i off klen kll =
     (let rd = area_rd BOAT_STORE_KEYPAIR BOAT_STORE_TYPE_FLASH;
          wr = area_wr mal BOAT_STORE_KEYPAIR BOAT_STORE_TYPE_FLASH
      in if i = num - 1 then wr off [0, 0, 0]
         else
           let moveFrom = off + (kll + klen) in
           bindS (\<lambda>s. throwS None (skip_lv rd (num - 1 - i) moveFrom s) s) (\<lambda>endoff.
           let len = endoff - moveFrom in
           case mal (unat len) of
             None \<Rightarrow> (\<lambda>s. (Inl (Err BOAT_ERROR_COMMON_OUT_OF_MEMORY), s))
           | Some _ \<Rightarrow>
               bindS (\<lambda>s. throwS (Some BOAT_ERROR_STORAGE_FILE_READ_FAIL) (rd (unat len) moveFrom len s) s) (\<lambda>d.
               rethrowS BOAT_ERROR_STORAGE_FILE_WRITE_FAIL (wr off d))))"

text \<open>
  The end of the function, with the keypair that was deleted at hand: the private key goes too, and when that fails the keypair is
  stored again.
\<close>

definition delete_prikey_of ::
  "(nat \<Rightarrow> bytes option) \<Rightarrow> u8 \<Rightarrow> BoatKeypairPriKeyCtx \<Rightarrow> nvram \<Rightarrow> unit res \<times> nvram" where
  "delete_prikey_of mal index restore =
     catchS (BoAT_DeletePirkeyByIndex mal index)
       (\<lambda>_. \<lambda>t. case BoATKeypair_DataCtx_Store mal restore (storetype_of index) t of
                  (Inl UB, u) \<Rightarrow> (Inl UB, u)
                | (_, u) \<Rightarrow> (Inl (Err BOAT_ERROR), u))"

text \<open>\<open>junk\<close> is the uninitialised context the deleted keypair is read into.\<close>

definition BoATIotKeypairDelete ::
  "(nat \<Rightarrow> bytes option) \<Rightarrow> BoatKeypairPriKeyCtx \<Rightarrow> u8 \<Rightarrow> nvram \<Rightarrow> unit res \<times> nvram" where
  "BoATIotKeypairDelete mal junk index s =
     (if of_nat BOAT_MAX_KEYPAIR_NUM < index then (Inl (Err BOAT_ERROR_KEYPAIR_KEY_INDEX_EXCEED), s)
      else
        let rd = area_rd BOAT_STORE_KEYPAIR (storetype_of index);
            wr = area_wr mal BOAT_STORE_KEYPAIR (storetype_of index)
        in case rd 4 0 4 s of
             Inl e \<Rightarrow> (Inl e, s)
           | Inr b \<Rightarrow>
               (case utility_check_NumBytes b of
                  Inl _ \<Rightarrow> (Inl (Err BOAT_ERROR_KEYPAIR_KEY_INEXISTENCE), s)
                | Inr num \<Rightarrow>
                    if num = 0 then (Inl (Err BOAT_ERROR_KEYPAIR_KEY_INEXISTENCE), s)
                    else if index = 0 then wr 0 [0, 0, 0, 0] s
                    else
                      (case find_keypair rd (unat num) 0 index 4 s of
                         Inl e \<Rightarrow> (Inl e, s)
                       | Inr None \<Rightarrow> (Inl (Err BOAT_ERROR), s)
                       | Inr (Some (i, off, klen, kll)) \<Rightarrow>
                           (case BoATKeypair_GetKeypairByIndex mal index s (Some junk) of
                              (Inl e, _) \<Rightarrow> (Inl e, s)
                            | (Inr _, restore) \<Rightarrow>
                                bindS (wr 0 (utility_get_NumBytes (num - 1))) (\<lambda>_.
                                \<lambda>s1. case delete_keypair_body mal (unat num) i off klen kll s1 of
                                       (Inl UB, t) \<Rightarrow> (Inl UB, t)
                                     | (Inl (Err e), t) \<Rightarrow>
                                         bindS (wr 0 (utility_get_NumBytes num)) (\<lambda>_. liftS (Inl (Err e))) t
                                     | (Inr _, t) \<Rightarrow> delete_prikey_of mal index (the restore) t) s))))"

subsection \<open>Creating keypairs\<close>

text \<open>
  \<open>generation\<close> stands for \<open>BoAT_Keypair_generation\<close> of the cryptographic port (private key and the buffer with
  the public key), \<open>getPubkey\<close> for \<open>BoAT_getPubkey\<close>, \<open>pkcs2native\<close> for \<open>UtilityPKCS2Native\<close> (private and public key).
\<close>

definition BoAT_Keystore_Gen_Keypair ::
  "(BoatKeypairPriKeyType \<Rightarrow> BoatKeypairPriKeyFormat \<Rightarrow> 'k res) \<Rightarrow> BoatKeypairPriKeyType \<Rightarrow> 'k res" where
  "BoAT_Keystore_Gen_Keypair generation type = generation type BOAT_KEYPAIR_PRIKEY_FORMAT_NATIVE"

definition set_prikey :: "bytes \<Rightarrow> BoatKeypairPriKeyType \<Rightarrow> BoatKeypairDataCtx \<Rightarrow> BoatKeypairDataCtx res" where
  "set_prikey prikey type d =
     bindR (buf_put (value_bytes (extraData d)) 0 prikey) (\<lambda>v.
       Inr (d\<lparr>extraData := \<lparr>value_len = of_nat (length prikey), value_bytes = v\<rparr>,
              prikeyCtx := (prikeyCtx d)\<lparr>prikey_format := format_rep BOAT_KEYPAIR_PRIKEY_FORMAT_NATIVE,
                                         prikey_type := type_rep type\<rparr>\<rparr>))"

definition set_pubkey :: "bytes \<Rightarrow> BoatKeypairDataCtx \<Rightarrow> BoatKeypairDataCtx res" where
  "set_pubkey pubkey d =
     bindR (buf_put (pubkey_content (prikeyCtx d)) 0 pubkey) (\<lambda>p.
       Inr (d\<lparr>prikeyCtx := (prikeyCtx d)\<lparr>pubkey_content := p\<rparr>\<rparr>))"

definition sBoatPort_keyCreate_internal_generation ::
  "(BoatKeypairPriKeyType \<Rightarrow> BoatKeypairPriKeyFormat \<Rightarrow> (bytes \<times> bytes) res) \<Rightarrow> BoatKeypairPriKeyCtx_config \<Rightarrow>
     BoatKeypairDataCtx \<Rightarrow> BoatKeypairDataCtx res" where
  "sBoatPort_keyCreate_internal_generation generation config d =
     bindR (BoAT_Keystore_Gen_Keypair generation (cfg_type config)) (\<lambda>(prikey, pubbuf).
     bindR (set_prikey prikey (cfg_type config) d) (\<lambda>d'.
     bindR (buf_get pubbuf 0 64) (\<lambda>pubkey. set_pubkey pubkey d')))"

definition sBoatPort_keyCreate_external_injection_native ::
  "(BoatKeypairPriKeyType \<Rightarrow> BoatKeypairPriKeyFormat \<Rightarrow> bytes \<Rightarrow> bytes res) \<Rightarrow> BoatKeypairPriKeyCtx_config \<Rightarrow>
     BoatKeypairDataCtx \<Rightarrow> BoatKeypairDataCtx res" where
  "sBoatPort_keyCreate_external_injection_native getPubkey config d =
     (case cfg_content config of
        None \<Rightarrow> Inl (Err BOAT_ERROR_COMMON_INVALID_ARGUMENT)
      | Some key \<Rightarrow>
          guardR (512 < length key) BOAT_ERROR_COMMON_OUT_OF_MEMORY
         (bindR (set_prikey key (cfg_type config) d) (\<lambda>d'.
          bindR (getPubkey (cfg_type config) (cfg_format config) key) (\<lambda>pubkey. set_pubkey pubkey d'))))"

definition sBoatPort_keyCreate_external_injection_pkcs ::
  "(bytes \<Rightarrow> (bytes \<times> bytes) res) \<Rightarrow> BoatKeypairPriKeyCtx_config \<Rightarrow> BoatKeypairDataCtx \<Rightarrow> BoatKeypairDataCtx res" where
  "sBoatPort_keyCreate_external_injection_pkcs pkcs2native config d =
     (case cfg_content config of
        None \<Rightarrow> Inl (Err BOAT_ERROR_COMMON_INVALID_ARGUMENT)
      | Some key \<Rightarrow>
          guardR (512 < length key) BOAT_ERROR_COMMON_OUT_OF_MEMORY
         (bindR (pkcs2native key) (\<lambda>(prikey, pubkey).
          bindR (set_prikey prikey (cfg_type config) d) (\<lambda>d'. set_pubkey pubkey d'))))"

definition BoatPort_keyCreate ::
  "(BoatKeypairPriKeyType \<Rightarrow> BoatKeypairPriKeyFormat \<Rightarrow> (bytes \<times> bytes) res) \<Rightarrow>
   (BoatKeypairPriKeyType \<Rightarrow> BoatKeypairPriKeyFormat \<Rightarrow> bytes \<Rightarrow> bytes res) \<Rightarrow> (bytes \<Rightarrow> (bytes \<times> bytes) res) \<Rightarrow>
     BoatKeypairPriKeyCtx_config option \<Rightarrow> BoatKeypairDataCtx option \<Rightarrow> BoatKeypairDataCtx res" where
  "BoatPort_keyCreate generation getPubkey pkcs2native config pkCtx =
     (case (config, pkCtx) of
        (Some cfg, Some d) \<Rightarrow>
          (case cfg_genMode cfg of
             BOAT_KEYPAIR_PRIKEY_GENMODE_INTERNAL_GENERATION \<Rightarrow>
               sBoatPort_keyCreate_internal_generation generation cfg d
           | BOAT_KEYPAIR_PRIKEY_GENMODE_EXTERNAL_INJECTION \<Rightarrow>
               (case cfg_format cfg of
                  BOAT_KEYPAIR_PRIKEY_FORMAT_PKCS \<Rightarrow> sBoatPort_keyCreate_external_injection_pkcs pkcs2native cfg d
                | BOAT_KEYPAIR_PRIKEY_FORMAT_NATIVE \<Rightarrow> sBoatPort_keyCreate_external_injection_native getPubkey cfg d
                | _ \<Rightarrow> Inl (Err BOAT_ERROR_KEYPAIR_KEY_FORMAT_ERR))
           | BOAT_KEYPAIR_PRIKEY_GENMODE_UNKNOWN \<Rightarrow> Inl (Err BOAT_ERROR_KEYPAIR_KEY_GENMODE_ERR))
      | _ \<Rightarrow> Inl (Err BOAT_ERROR_COMMON_INVALID_ARGUMENT))"

text \<open>The name of the new keypair: \<open>keypair\<close> followed by the index as a digit, unless one is given. Allocations are not checked.\<close>

definition keypair_name_block :: "(nat \<Rightarrow> bytes option) \<Rightarrow> bytes option \<Rightarrow> u8 \<Rightarrow> bytes res" where
  "keypair_name_block mal keypairName keypairIndex =
     bindR (case keypairName of
              None \<Rightarrow> Inr ([0x6B, 0x65, 0x79, 0x70, 0x61, 0x69, 0x72] @ [0x30 + keypairIndex])
            | Some b \<Rightarrow> c_string b) (\<lambda>name.
     case mal (length name + 1) of None \<Rightarrow> Inl UB | Some blk \<Rightarrow> buf_put blk 0 (name @ [0]))"

text \<open>From the creation of the key to the stored private key; \<open>create\<close> is the call of \<open>BoatPort_keyCreate\<close>.\<close>

definition create_body ::
  "(nat \<Rightarrow> bytes option) \<Rightarrow> (bytes \<Rightarrow> bytes) \<Rightarrow> bytes \<Rightarrow> (bytes \<Rightarrow> bytes \<Rightarrow> bytes \<Rightarrow> bytes res) \<Rightarrow>
     (BoatKeypairDataCtx option \<Rightarrow> BoatKeypairDataCtx res) \<Rightarrow> BoatKeypairPriKeyCtx \<Rightarrow> bytes option \<Rightarrow> BoatStoreType \<Rightarrow> u8 \<Rightarrow>
     nvram \<Rightarrow> unit res \<times> nvram" where
  "create_body mal hash salt aes_enc create junk keypairName storeType keypairIndex =
     bindS (liftS (create (Some BoATIotKeypairInit))) (\<lambda>d.
     bindS (liftS (keypair_name_block mal keypairName keypairIndex)) (\<lambda>name.
     let c = (prikeyCtx d)\<lparr>keypair_name := Some name, keypair_index := keypairIndex\<rparr>;
         prikey = take (unat (value_len (extraData d))) (value_bytes (extraData d))
     in bindS (BoATKeypair_DataCtx_Store mal c storeType) (\<lambda>_.
        catchS (BoAT_Keystore_store_prikey mal hash salt aes_enc keypairIndex (Some prikey))
          (\<lambda>_. \<lambda>t. case BoATIotKeypairDelete mal junk keypairIndex t of
                     (Inl UB, u) \<Rightarrow> (Inl UB, u)
                   | (_, u) \<Rightarrow> (Inl (Err BOAT_ERROR), u)))))"

definition BoatKeypairCreate ::
  "(nat \<Rightarrow> bytes option) \<Rightarrow> (bytes \<Rightarrow> bytes) \<Rightarrow> bytes \<Rightarrow> (bytes \<Rightarrow> bytes \<Rightarrow> bytes \<Rightarrow> bytes res) \<Rightarrow>
     (BoatKeypairPriKeyCtx_config option \<Rightarrow> BoatKeypairDataCtx option \<Rightarrow> BoatKeypairDataCtx res) \<Rightarrow>
     BoatKeypairPriKeyCtx \<Rightarrow> BoatIotKeypairContext \<Rightarrow> BoatKeypairPriKeyCtx_config option \<Rightarrow> bytes option \<Rightarrow> BoatStoreType \<Rightarrow>
     nvram \<Rightarrow> u8 res \<times> nvram" where
  "BoatKeypairCreate mal hash salt aes_enc keyCreate junk junkList keypairConfig keypairName storeType s =
     (if keypairConfig = None then (Inl (Err BOAT_ERROR_COMMON_INVALID_ARGUMENT), s)
      else if storeType \<noteq> BOAT_STORE_TYPE_RAM \<and> storeType \<noteq> BOAT_STORE_TYPE_FLASH
      then (Inl (Err BOAT_ERROR_KEYPAIR_KEY_STORETYPE_ERR), s)
      else
        case (if storeType = BOAT_STORE_TYPE_FLASH
              then BoATKeypair_GetFreeIndex_From_Persistent mal junkList s else Inr 0) of
          Inl e \<Rightarrow> (Inl e, s)
        | Inr i \<Rightarrow>
            (case create_body mal hash salt aes_enc (keyCreate keypairConfig) junk keypairName storeType (of_nat i) s of
               (Inl UB, t) \<Rightarrow> (Inl UB, t)
             | (Inl (Err e), t) \<Rightarrow> (if e < 0 then Inl (Err e) else Inr (of_nat i), t)
             | (Inr _, t) \<Rightarrow> (Inr (of_nat i), t)))"

subsection \<open>Reference notions\<close>

definition kp_name :: "BoatKeypairPriKeyCtx \<Rightarrow> bytes" where
  "kp_name c = (case keypair_name c of None \<Rightarrow> [] | Some b \<Rightarrow> takeWhile (\<lambda>x. x \<noteq> 0) b)"

definition keypair_body :: "BoatKeypairPriKeyCtx \<Rightarrow> bytes" where
  "keypair_body c = lv [keypair_index c] @ lv (kp_name c) @ lv (prikey_format c) @ lv (prikey_type c) @ lv (pubkey_content c)"

definition keypair_enc :: "BoatKeypairPriKeyCtx \<Rightarrow> bytes" where
  "keypair_enc c = lv (keypair_body c)"

text \<open>Contexts whose objects have the sizes of their C types.\<close>

definition ctx_sizes :: "BoatKeypairPriKeyCtx \<Rightarrow> bool" where
  "ctx_sizes c \<longleftrightarrow> length (prikey_format c) = 4 \<and> length (prikey_type c) = 4 \<and> length (pubkey_content c) = 64"

text \<open>A keypair that can be stored: its name is a non-empty C string of at most 62 characters.\<close>

definition kp_ok :: "BoatKeypairPriKeyCtx \<Rightarrow> bool" where
  "kp_ok c \<longleftrightarrow> ctx_sizes c \<and> keypair_name c = Some (kp_name c @ [0]) \<and> kp_name c \<noteq> [] \<and> length (kp_name c) \<le> 62"

text \<open>The entries of a list after the records have been read into consecutive slots.\<close>

fun fill_slots :: "nat \<Rightarrow> BoatKeypairPriKeyCtx list \<Rightarrow> BoatKeypairDataCtx list \<Rightarrow> BoatKeypairDataCtx list" where
  "fill_slots slot [] es = es"
| "fill_slots slot (r # rs) es = fill_slots (slot + 1) rs (es[slot := (es ! slot)\<lparr>prikeyCtx := r\<rparr>])"

definition entries_sized :: "BoatKeypairDataCtx list \<Rightarrow> bool" where
  "entries_sized es \<longleftrightarrow> list_all (\<lambda>e. ctx_sizes (prikeyCtx e)) es"

abbreviation keypair_content :: "nvram \<Rightarrow> bytes" where
  "keypair_content \<equiv> area_content BOAT_STORE_KEYPAIR BOAT_STORE_TYPE_FLASH"

text \<open>The persistent keypairs of a device.\<close>

definition keypairs_in :: "BoatKeypairPriKeyCtx list \<Rightarrow> nvram \<Rightarrow> bool" where
  "keypairs_in rs s \<longleftrightarrow> holds keypair_enc rs (keypair_content s) \<and> list_all kp_ok rs \<and>
     distinct (map keypair_index rs) \<and> list_all (\<lambda>r. persistent_index (keypair_index r)) rs \<and> length rs \<le> BOAT_MAX_KEYPAIR_NUM"

abbreviation onetime_content :: "nvram \<Rightarrow> bytes" where
  "onetime_content \<equiv> area_content BOAT_STORE_KEYPAIR BOAT_STORE_TYPE_RAM"

text \<open>The one-time keypair of a device, if there is one.\<close>

definition onetime_in :: "BoatKeypairPriKeyCtx list \<Rightarrow> nvram \<Rightarrow> bool" where
  "onetime_in os s \<longleftrightarrow> holds keypair_enc os (onetime_content s) \<and> list_all kp_ok os \<and>
     list_all (\<lambda>r. keypair_index r = 0) os \<and> length os \<le> 1"

definition list_sized :: "BoatIotKeypairContext \<Rightarrow> bool" where
  "list_sized kl \<longleftrightarrow> length (keypairs kl) = 6 \<and> entries_sized (keypairs kl)"

text \<open>The first of the indices 1 to 5 that no keypair has.\<close>

definition free_index :: "BoatKeypairPriKeyCtx list \<Rightarrow> nat option" where
  "free_index rs = find (\<lambda>j. (of_nat j :: u8) \<notin> keypair_index ` set rs) [1..<6]"

subsection \<open>Correctness\<close>

lemma kp_fields:
  assumes "kp_ok c"
  shows "field_ok [keypair_index c]" "field_ok (kp_name c)" "field_ok (prikey_format c)" "field_ok (prikey_type c)"
    "field_ok (pubkey_content c)" "field_ok (keypair_body c)" "length (keypair_body c) = 78 + length (kp_name c)"
    "length (kp_name c) \<le> 62" "1 \<le> length (kp_name c)"
proof -
  have s: "length (prikey_format c) = 4" "length (prikey_type c) = 4" "length (pubkey_content c) = 64" "kp_name c \<noteq> []" "length (kp_name c) \<le> 62"
    using assms by (simp_all add: kp_ok_def ctx_sizes_def)
  show "field_ok [keypair_index c]" "field_ok (kp_name c)" "field_ok (prikey_format c)" "field_ok (prikey_type c)"
    "field_ok (pubkey_content c)" "length (kp_name c) \<le> 62" "1 \<le> length (kp_name c)"
    using s by (auto simp: field_ok_def Suc_le_eq)
  show l: "length (keypair_body c) = 78 + length (kp_name c)"
    using s by (simp add: keypair_body_def length_lv_short)
  then show "field_ok (keypair_body c)" using s(5) by (auto simp: field_ok_def)
qed

lemma keypair_enc_size:
  assumes "kp_ok c"
  shows "length (keypair_enc c) \<le> 142" "3 \<le> length (keypair_enc c)"
proof -
  note f = kp_fields(7-9) [OF assms]
  have "unat (of_nat (length (keypair_body c)) :: u32) = length (keypair_body c)" using f by (intro unat_of_nat_u32) simp
  then have "length (L_bytes (of_nat (length (keypair_body c)))) \<le> 2"
    using f by (simp add: L_bytes_cases)
  then show "length (keypair_enc c) \<le> 142" "3 \<le> length (keypair_enc c)"
    using f by (simp_all add: keypair_enc_def length_lv)
qed

context storage_area
begin

lemma name_head_lv:
  assumes s: "ok s" and c: "content s = A @ u @ lv d @ v @ post" and k: "klen = length (u @ lv d @ v)"
    and d: "field_ok d" "3 \<le> length (lv d @ v @ post)"
  shows "param_head rd None (of_nat (length A)) (of_nat klen) (of_nat (length (A @ u))) s =
      Inr (of_nat (length d), of_nat (length (A @ u) + length (L_bytes (of_nat (length d)))))"
    "length d \<le> room \<Longrightarrow> rd room (of_nat (length (A @ u) + length (L_bytes (of_nat (length d))))) (of_nat (length d)) s = Inr d"
proof -
  have "length (content s) \<le> 65535" using content_cap [OF s] cap_small by simp
  then have kl: "klen \<le> 65535" by (simp add: c k)
  show "param_head rd None (of_nat (length A)) (of_nat klen) (of_nat (length (A @ u))) s =
      Inr (of_nat (length d), of_nat (length (A @ u) + length (L_bytes (of_nat (length d)))))"
    using s c d kl by (intro param_head_lv [where post = "v @ post"]) (simp_all add: k)
  show "rd room (of_nat (length (A @ u) + length (L_bytes (of_nat (length d))))) (of_nat (length d)) s = Inr d" if "length d \<le> room"
    using rd_parts [OF s, of "A @ u @ L_bytes (of_nat (length d))" d "v @ post" room] c d(1) that
    by (simp add: lv_def field_ok_def add.assoc)
qed

lemma keypair_head_at:
  assumes s: "ok s" and c: "content s = pre @ keypair_enc c @ post" and k: "kp_ok c"
    and A: "A = pre @ L_bytes (of_nat (length (keypair_body c)))" and kl: "kl = (of_nat (length (keypair_body c)) :: u32)"
    and N: "N = (of_nat (length (kp_name c)) :: u32)"
  shows "\<exists>b. read_len rd (of_nat (length pre)) s = Inr (b, kl, of_nat (length (L_bytes kl)))"
    "read_len rd (of_nat (length A)) s = Inr ([1, keypair_index c, hd (lv (kp_name c))], 1, 1)"
    "read_field rd (Some 1) (of_nat (length A)) kl (\<lambda>c. [keypair_index c]) (\<lambda>d c. c\<lparr>keypair_index := hd d\<rparr>) s
       (of_nat (length A)) x = (Inr (of_nat (length A) + 2), x\<lparr>keypair_index := keypair_index c\<rparr>)"
    "param_head rd None (of_nat (length A)) kl (of_nat (length A) + 2) s = Inr (N, of_nat (length A) + 3)"
    "rd (Suc (length (kp_name c))) (of_nat (length A) + 3) N s = Inr (kp_name c)"
    "rd 1 (of_nat (length A) + 1) 1 s = Inr [keypair_index c]"
proof -
  note f = kp_fields [OF k]
  let ?i = "[keypair_index c]" and ?n = "kp_name c"
  define V where "V = lv (prikey_format c) @ lv (prikey_type c) @ lv (pubkey_content c)"
  have V: "3 \<le> length V" using length_lv_bounds(1) [of "pubkey_content c"] k by (simp add: V_def kp_ok_def ctx_sizes_def)
  have b: "keypair_body c = lv ?i @ lv ?n @ V" by (simp add: keypair_body_def V_def)
  have sz: "3 \<le> length (lv (keypair_body c) @ post)" using keypair_enc_size(2) [OF k] by (simp add: keypair_enc_def)
  have cs: "content s = A @ lv ?i @ lv ?n @ V @ post"
    using c unfolding keypair_enc_def A lv_def [of "keypair_body c"] by (simp add: b)
  have kb: "length (keypair_body c) = length (lv ?i @ lv ?n @ V)" by (simp add: b)
  have L: "L_bytes N = [ucast N]" "length (lv ?i) = 2" using f(8) by (simp_all add: N L_bytes_def lv_single word_less_nat_alt unat_of_nat)
  have h: "lv ?n = ucast N # ?n" using L(1) by (simp add: lv_def N)
  show "\<exists>b. read_len rd (of_nat (length pre)) s = Inr (b, kl, of_nat (length (L_bytes kl)))"
    using read_len_lv [OF s _ f(6) sz] c by (simp add: keypair_enc_def kl)
  have "read_len rd (of_nat (length A)) s = Inr (take 3 (lv ?i @ lv ?n @ V @ post), of_nat 1, of_nat (length (L_bytes (of_nat 1))))"
    using read_len_lv [OF s, of A ?i "lv ?n @ V @ post"] cs f(1) V by simp
  then show "read_len rd (of_nat (length A)) s = Inr ([1, keypair_index c, hd (lv ?n)], 1, 1)"
    by (simp add: lv_single L_bytes_def h)
  show "read_field rd (Some 1) (of_nat (length A)) kl (\<lambda>c. [keypair_index c]) (\<lambda>d c. c\<lparr>keypair_index := hd d\<rparr>) s
      (of_nat (length A)) x = (Inr (of_nat (length A) + 2), x\<lparr>keypair_index := keypair_index c\<rparr>)"
    using read_field_lv [OF s, of A "[]" ?i "lv ?n @ V" post "length (keypair_body c)" "Some 1" "\<lambda>c. [keypair_index c]" x
      "\<lambda>d c. c\<lparr>keypair_index := hd d\<rparr>"] cs kb f(1) V L(2) by (simp add: kl add.commute)
  show "param_head rd None (of_nat (length A)) kl (of_nat (length A) + 2) s = Inr (N, of_nat (length A) + 3)"
    using name_head_lv(1) [OF s, of A "lv ?i" ?n V post "length (keypair_body c)"] cs kb f(2) V L by (simp add: kl N add.commute)
  show "rd (Suc (length ?n)) (of_nat (length A) + 3) N s = Inr ?n"
    using name_head_lv(2) [OF s, of A "lv ?i" ?n V post "length (keypair_body c)"] cs kb f(2) V L by (simp add: N add.commute)
  show "rd 1 (of_nat (length A) + 1) 1 s = Inr ?i"
    using rd_parts [OF s, of "A @ [1]" ?i "lv ?n @ V @ post" 1] cs by (simp add: lv_single add.commute)
qed

lemma keypair_tail_at:
  assumes s: "ok s" and c: "content s = pre @ keypair_enc c @ post" and k: "kp_ok c"
    and A: "A = pre @ L_bytes (of_nat (length (keypair_body c)))" and kl: "kl = (of_nat (length (keypair_body c)) :: u32)"
    and N: "N = (of_nat (length (kp_name c)) :: u32)" and want: "want = None \<or> want = Some 64" and x: "ctx_sizes x"
  shows "read_field rd None (of_nat (length A)) kl prikey_format (\<lambda>d c. c\<lparr>prikey_format := d\<rparr>) s (of_nat (length A) + 3 + N) x =
      (Inr (of_nat (length A) + 8 + N), x\<lparr>prikey_format := prikey_format c\<rparr>)"
    "read_field rd None (of_nat (length A)) kl prikey_type (\<lambda>d c. c\<lparr>prikey_type := d\<rparr>) s (of_nat (length A) + 8 + N) x =
      (Inr (of_nat (length A) + 13 + N), x\<lparr>prikey_type := prikey_type c\<rparr>)"
    "read_field rd want (of_nat (length A)) kl pubkey_content (\<lambda>d c. c\<lparr>pubkey_content := d\<rparr>) s (of_nat (length A) + 13 + N) x =
      (Inr (of_nat (length A) + 78 + N), x\<lparr>pubkey_content := pubkey_content c\<rparr>)"
proof -
  note f = kp_fields [OF k]
  let ?f = "prikey_format c" and ?t = "prikey_type c" and ?p = "pubkey_content c"
  define U where "U = lv [keypair_index c] @ lv (kp_name c)"
  have U: "length U = 3 + length (kp_name c)" using f(8) by (simp add: U_def length_lv_short)
  have b: "keypair_body c = U @ lv ?f @ lv ?t @ lv ?p" by (simp add: keypair_body_def U_def)
  have z: "length ?f = 4" "length ?t = 4" "length ?p = 64" "length (prikey_format x) = 4" "length (prikey_type x) = 4"
    "length (pubkey_content x) = 64" using k x by (simp_all add: kp_ok_def ctx_sizes_def)
  have ll: "length (lv ?f) = 5" "length (lv ?t) = 5" "length (lv ?p) = 65" using z by (simp_all add: length_lv_short)
  have cs: "content s = A @ U @ lv ?f @ lv ?t @ lv ?p @ post"
    using c unfolding keypair_enc_def A lv_def [of "keypair_body c"] by (simp add: b)
  have kb: "length (keypair_body c) = length (U @ lv ?f @ lv ?t @ lv ?p)" by (simp add: b)
  show "read_field rd None (of_nat (length A)) kl prikey_format (\<lambda>d c. c\<lparr>prikey_format := d\<rparr>) s (of_nat (length A) + 3 + N) x =
      (Inr (of_nat (length A) + 8 + N), x\<lparr>prikey_format := ?f\<rparr>)"
    using read_field_lv [OF s, of A U ?f "lv ?t @ lv ?p" post "length (keypair_body c)" None prikey_format x "\<lambda>d c. c\<lparr>prikey_format := d\<rparr>"]
      cs kb f(3) ll z U by (simp add: kl N algebra_simps)
  show "read_field rd None (of_nat (length A)) kl prikey_type (\<lambda>d c. c\<lparr>prikey_type := d\<rparr>) s (of_nat (length A) + 8 + N) x =
      (Inr (of_nat (length A) + 13 + N), x\<lparr>prikey_type := ?t\<rparr>)"
    using read_field_lv [OF s, of A "U @ lv ?f" ?t "lv ?p" post "length (keypair_body c)" None prikey_type x "\<lambda>d c. c\<lparr>prikey_type := d\<rparr>"]
      cs kb f(4) ll z U by (simp add: kl N algebra_simps)
  show "read_field rd want (of_nat (length A)) kl pubkey_content (\<lambda>d c. c\<lparr>pubkey_content := d\<rparr>) s (of_nat (length A) + 13 + N) x =
      (Inr (of_nat (length A) + 78 + N), x\<lparr>pubkey_content := ?p\<rparr>)"
    using read_field_lv [OF s, of A "U @ lv ?f @ lv ?t" ?p "[]" post "length (keypair_body c)" want pubkey_content x "\<lambda>d c. c\<lparr>pubkey_content := d\<rparr>"]
      cs kb f(5) ll z U want by (simp add: kl N algebra_simps)
qed

lemma keypair_from_nvram:
  assumes s: "ok s" and mal: "malloc_total mal" and c: "content s = pre @ keypair_enc c @ post" and k: "kp_ok c" and old: "ctx_sizes old"
  shows "BoATKeypair_GetKeypairFromNvram mal rd (of_nat (length pre)) s old = (Inr (of_nat (length (keypair_enc c))), c)"
proof -
  define A where "A = pre @ L_bytes (of_nat (length (keypair_body c)))"
  define kl where "kl = (of_nat (length (keypair_body c)) :: u32)"
  define N where "N = (of_nat (length (kp_name c)) :: u32)"
  note h = keypair_head_at [OF s c k A_def kl_def N_def] and t = keypair_tail_at [OF s c k A_def kl_def N_def, of "Some 64"]
  obtain b0 where b0: "read_len rd (of_nat (length pre)) s = Inr (b0, kl, of_nat (length (L_bytes kl)))" using h(1) by blast
  have o: "of_nat (length pre) + of_nat (length (L_bytes kl)) = (of_nat (length A) :: u32)" by (simp add: A_def kl_def)
  have uN: "unat (N + 1) = Suc (length (kp_name c))" "unat N = length (kp_name c)"
    using kp_fields(8) [OF k] by (simp_all add: N_def unat_plus_if')
  obtain blk where blk: "mal (Suc (length (kp_name c))) = Some blk" "length blk = Suc (length (kp_name c))" using mal by (auto simp: malloc_total_def)
  define b where "b = take (length (kp_name c)) blk @ [0]"
  have bl: "length b = Suc (length (kp_name c))" "drop (length (kp_name c)) b = [0]" using blk(2) by (simp_all add: b_def)
  have n: "new_name mal N x = (Inr b, x\<lparr>keypair_name := Some b\<rparr>)" for x
    using blk uN by (simp add: new_name_def buf_put_def b_def)
  have e: "kl + of_nat (length (L_bytes kl)) = of_nat (length (keypair_enc c))"
    by (simp add: keypair_enc_def length_lv kl_def)
  have sz: "ctx_sizes (old\<lparr>keypair_index := i, keypair_name := m\<rparr>)" "ctx_sizes (old\<lparr>keypair_index := i, keypair_name := m, prikey_format := prikey_format c\<rparr>)"
    "ctx_sizes (old\<lparr>keypair_index := i, keypair_name := m, prikey_format := prikey_format c, prikey_type := prikey_type c\<rparr>)" for i m
    using old k by (simp_all add: ctx_sizes_def kp_ok_def)
  show ?thesis
    unfolding BoATKeypair_GetKeypairFromNvram_def
    using k by (simp add: bindS_def liftS_def updS_def Let_def b0 o h(3-5) n bl e kp_ok_def
        t(1) [OF _ sz(1)] t(2) [OF _ sz(2)] t(3) [OF _ sz(3)])
qed

end

lemma keypair_enc_ne [simp]: "keypair_enc c \<noteq> []"
  using length_lv_bounds(1) [of "keypair_body c"] by (auto simp: keypair_enc_def)

lemma keypair_enc_flat: "concat (map keypair_enc rs) = concat (map lv (map keypair_body rs))"
  by (induction rs) (simp_all add: keypair_enc_def)

lemma keypair_bodies_ok: "list_all kp_ok rs \<Longrightarrow> list_all field_ok (map keypair_body rs) \<and> (rs \<noteq> [] \<longrightarrow> 2 \<le> length (last (map keypair_body rs)))"
proof -
  assume r: "list_all kp_ok rs"
  have "2 \<le> length (keypair_body (last rs))" if "rs \<noteq> []"
    using r that kp_fields(7) [of "last rs"] by (simp add: list_all_iff)
  then show ?thesis using r kp_fields(6) by (auto simp: list_all_iff last_map)
qed

lemma keypairs_size: "list_all kp_ok rs \<Longrightarrow> length (concat (map keypair_enc rs)) \<le> 142 * length rs"
  by (induction rs) (use keypair_enc_size(1) in fastforce)+

lemma length_fill_slots [simp]: "length (fill_slots slot rs es) = length es"
  by (induction slot rs es rule: fill_slots.induct) simp_all

lemma fill_slots_take:
  "slot + length rs \<le> length es \<Longrightarrow>
    map prikeyCtx (take (slot + length rs) (fill_slots slot rs es)) = map prikeyCtx (take slot es) @ rs"
proof (induction slot rs es rule: fill_slots.induct)
  case (2 slot r rs es)
  have "map prikeyCtx (take (slot + 1 + length rs) (fill_slots (slot + 1) rs (es[slot := (es ! slot)\<lparr>prikeyCtx := r\<rparr>]))) =
      map prikeyCtx (take (slot + 1) (es[slot := (es ! slot)\<lparr>prikeyCtx := r\<rparr>])) @ rs"
    using 2 by simp
  then show ?case using 2(2) by (simp add: take_Suc_conv_app_nth)
qed simp

lemma entries_sized_fill:
  "entries_sized es \<Longrightarrow> list_all kp_ok rs \<Longrightarrow> slot + length rs \<le> length es \<Longrightarrow> entries_sized (fill_slots slot rs es)"
proof (induction slot rs es rule: fill_slots.induct)
  case (2 slot r rs es)
  then have "entries_sized (es[slot := (es ! slot)\<lparr>prikeyCtx := r\<rparr>])"
    by (auto simp: entries_sized_def list_all_iff kp_ok_def dest!: set_update_subset_insert [THEN subsetD])
  then show ?case using 2 by simp
qed simp

context storage_area
begin

lemma get_keypair_fields_ok:
  assumes s: "ok s" and mal: "malloc_total mal" and c: "content s = pre @ keypair_enc c @ post" and k: "kp_ok c" and old: "ctx_sizes old"
    and A: "A = pre @ L_bytes (of_nat (length (keypair_body c)))" and kl: "kl = (of_nat (length (keypair_body c)) :: u32)"
  shows "get_keypair_fields mal rd (keypair_index c) (of_nat (length A)) kl s old = (Inr (), c)"
proof -
  define N where "N = (of_nat (length (kp_name c)) :: u32)"
  note h = keypair_head_at [OF s c k A kl N_def] and t = keypair_tail_at [OF s c k A kl N_def, of None]
  have uN: "unat (N + 1) = Suc (length (kp_name c))" "unat N = length (kp_name c)"
    using kp_fields(8) [OF k] by (simp_all add: N_def unat_plus_if')
  have "unat kl = length (keypair_body c)" unfolding kl using kp_fields(7,8) [OF k] by (intro unat_of_nat_u32) simp
  then have k2: "\<not> kl < 2" using kp_fields(7) [OF k] by (simp add: word_less_nat_alt)
  obtain blk where blk: "mal (Suc (length (kp_name c))) = Some blk" "length blk = Suc (length (kp_name c))" using mal by (auto simp: malloc_total_def)
  have p: "buf_put (kp_name c @ drop (length (kp_name c)) blk) (length (kp_name c)) [0] = Inr (kp_name c @ [0])"
    using blk(2) by (simp add: buf_put_def)
  have sz: "ctx_sizes (old\<lparr>keypair_index := i, keypair_name := m\<rparr>)" "ctx_sizes (old\<lparr>keypair_index := i, keypair_name := m, prikey_format := prikey_format c\<rparr>)"
    "ctx_sizes (old\<lparr>keypair_index := i, keypair_name := m, prikey_format := prikey_format c, prikey_type := prikey_type c\<rparr>)" for i m
    using old k by (simp_all add: ctx_sizes_def kp_ok_def)
  show ?thesis
    unfolding get_keypair_fields_def
    using k by (simp add: bindS_def liftS_def updS_def Let_def h(4,5) k2 uN blk p kp_ok_def
        t(1) [OF _ sz(1)] t(2) [OF _ sz(2)] t(3) [OF _ sz(3)])
qed

lemma get_keypair_loop_ok:
  assumes "ok s" "malloc_total mal" "content s = pre @ concat (map keypair_enc rs) @ post" "list_all kp_ok rs" "ctx_sizes old"
  shows "get_keypair_loop mal rd (length rs) index (of_nat (length pre)) s old =
    (case find (\<lambda>r. keypair_index r = index) rs of
       None \<Rightarrow> (Inl (Err BOAT_ERROR_KEYPAIR_KEY_INEXISTENCE), old) | Some r \<Rightarrow> (Inr (), r))"
  using assms(3,4)
proof (induction rs arbitrary: pre)
  case (Cons r rs)
  have r: "kp_ok r" and c: "content s = pre @ keypair_enc r @ concat (map keypair_enc rs) @ post"
    using Cons.prems by simp_all
  let ?A = "pre @ L_bytes (of_nat (length (keypair_body r)))"
  let ?kl = "of_nat (length (keypair_body r)) :: u32"
  note h = keypair_head_at [OF assms(1) c r refl refl refl]
  have f: "get_keypair_fields mal rd (keypair_index r) (of_nat (length ?A)) ?kl s old = (Inr (), r)"
    by (rule get_keypair_fields_ok [OF assms(1,2) c r assms(5) refl refl])
  have IH: "get_keypair_loop mal rd (length rs) index (of_nat (length (pre @ keypair_enc r))) s old =
    (case find (\<lambda>r. keypair_index r = index) rs of
       None \<Rightarrow> (Inl (Err BOAT_ERROR_KEYPAIR_KEY_INEXISTENCE), old) | Some r \<Rightarrow> (Inr (), r))"
    using Cons.prems by (intro Cons.IH) simp_all
  have o: "of_nat (length pre) + of_nat (length (L_bytes ?kl)) = (of_nat (length ?A) :: u32)"
    "of_nat (length ?A) + ?kl = (of_nat (length (pre @ keypair_enc r)) :: u32)"
    by (simp_all add: keypair_enc_def length_lv)
  obtain b where b: "read_len rd (of_nat (length pre)) s = Inr (b, ?kl, of_nat (length (L_bytes ?kl)))" using h(1) by blast
  show ?case
    unfolding list.size get_keypair_loop.simps add_Suc_right add_0_right
    by (simp only: bindS_def liftS_def b Let_def prod.case sum.case o h(2) bindR_simps guardR_simps if_True if_False
        find.simps nth_Cons_Suc nth_Cons_0 One_nat_def split: if_split) (use f IH in auto)
qed (simp add: liftS_def)

lemma list_loop_ok:
  assumes "ok s" "malloc_total mal" "content s = pre @ concat (map keypair_enc rs) @ post" "list_all kp_ok rs"
    "entries_sized (keypairs kl)" "slot + length rs \<le> length (keypairs kl)"
  shows "list_loop mal rd (length rs) slot (of_nat (length pre)) s kl = (Inr (), kl\<lparr>keypairs := fill_slots slot rs (keypairs kl)\<rparr>)"
  using assms(3-6)
proof (induction rs arbitrary: pre slot kl)
  case (Cons r rs)
  let ?e = "keypairs kl ! slot"
  let ?kl = "kl\<lparr>keypairs := (keypairs kl)[slot := ?e\<lparr>prikeyCtx := r\<rparr>]\<rparr>"
  have r: "kp_ok r" and c: "content s = pre @ keypair_enc r @ concat (map keypair_enc rs) @ post"
    using Cons.prems by simp_all
  have "ctx_sizes (prikeyCtx ?e)" using Cons.prems(3,4) by (auto simp: entries_sized_def list_all_iff)
  from keypair_from_nvram [OF assms(1,2) c r this]
  have g: "BoATKeypair_GetKeypairFromNvram mal rd (of_nat (length pre)) s (prikeyCtx ?e) = (Inr (of_nat (length (keypair_enc r))), r)" .
  have "entries_sized (keypairs ?kl)"
    using Cons.prems(3) r entries_sized_fill [of "keypairs kl" "[r]" slot] Cons.prems(4) by simp
  then have "list_loop mal rd (length rs) (slot + 1) (of_nat (length (pre @ keypair_enc r))) s ?kl =
      (Inr (), ?kl\<lparr>keypairs := fill_slots (slot + 1) rs (keypairs ?kl)\<rparr>)"
    using Cons.prems by (intro Cons.IH) simp_all
  then show ?case using g Cons.prems(4) by (simp add: Let_def)
qed simp

lemma find_keypair_ok:
  assumes "ok s" "content s = pre @ concat (map keypair_enc (xs @ r # ys)) @ post" "list_all kp_ok (xs @ r # ys)"
    "keypair_index r \<notin> keypair_index ` set xs"
  shows "find_keypair rd (length (xs @ r # ys)) i (keypair_index r) (of_nat (length pre)) s =
    Inr (Some (i + length xs, of_nat (length (pre @ concat (map keypair_enc xs))),
       of_nat (length (keypair_body r)), of_nat (length (L_bytes (of_nat (length (keypair_body r)))))))"
  using assms(2-4)
proof (induction xs arbitrary: pre i)
  case Nil
  have r: "kp_ok r" and c: "content s = pre @ keypair_enc r @ concat (map keypair_enc ys) @ post"
    using Nil.prems by simp_all
  note h = keypair_head_at [OF assms(1) c r refl refl refl]
  show ?case using h(1,2,6) by (auto simp: add.assoc)
next
  case (Cons x xs)
  have x: "kp_ok x" and c: "content s = pre @ keypair_enc x @ concat (map keypair_enc (xs @ r # ys)) @ post"
    using Cons.prems by simp_all
  note h = keypair_head_at [OF assms(1) c x refl refl refl]
  have IH: "find_keypair rd (length (xs @ r # ys)) (i + 1) (keypair_index r) (of_nat (length (pre @ keypair_enc x))) s =
    Inr (Some (i + 1 + length xs, of_nat (length ((pre @ keypair_enc x) @ concat (map keypair_enc xs))),
       of_nat (length (keypair_body r)), of_nat (length (L_bytes (of_nat (length (keypair_body r)))))))"
    using Cons.prems by (intro Cons.IH) simp_all
  have o: "of_nat (length pre) + (of_nat (length (L_bytes (of_nat (length (keypair_body x))))) + of_nat (length (keypair_body x))) =
      (of_nat (length (pre @ keypair_enc x)) :: u32)"
    by (simp add: keypair_enc_def length_lv)
  have ne: "keypair_index x \<noteq> keypair_index r" using Cons.prems(3) by auto
  show ?case using h(1,2,6) IH ne unfolding o [symmetric] by (auto simp: add.assoc)
qed

lemma skip_keypairs:
  assumes "ok s" "content s = pre @ concat (map keypair_enc rs) @ post" "list_all kp_ok rs"
  shows "skip_lv rd (length rs) (of_nat (length pre)) s = Inr (of_nat (length pre + length (concat (map keypair_enc rs))))"
  using skip_lv_ok [OF assms(1), of pre "map keypair_body rs" post] assms(2) keypair_bodies_ok [OF assms(3)]
  by (simp add: keypair_enc_flat)

end

lemma kp_string: "kp_ok c \<Longrightarrow> c_string (kp_name c @ [0]) = Inr (kp_name c)"
proof -
  assume "kp_ok c"
  then have "keypair_name c = Some (kp_name c @ [0])" by (simp add: kp_ok_def)
  then have "kp_name c = takeWhile (\<lambda>x. x \<noteq> 0) (kp_name c @ [0])" by (metis kp_name_def option.simps(5))
  then show ?thesis by (simp add: c_string_def)
qed

lemma DataCtx_Len_ok:
  assumes "kp_ok c"
  shows "BoATKeypair_Get_DataCtx_Len c = Inr (of_nat (length (keypair_enc c)))"
proof -
  have z: "length (prikey_format c) = 4" "length (prikey_type c) = 4" "length (pubkey_content c) = 64"
    "keypair_name c = Some (kp_name c @ [0])" using assms by (simp_all add: kp_ok_def ctx_sizes_def)
  have "stored_len 1 + stored_len (of_nat (length (kp_name c))) + stored_len 4 + stored_len 4 + stored_len 64 = of_nat (length (keypair_body c))"
    using stored_len_lv [of "[keypair_index c]"] stored_len_lv [of "kp_name c"] stored_len_lv [of "prikey_format c"] stored_len_lv [of "prikey_type c"]
      stored_len_lv [of "pubkey_content c"] z by (simp add: keypair_body_def)
  then show ?thesis
    using z(4) kp_string [OF assms] stored_len_lv [of "keypair_body c"] by (simp add: BoATKeypair_Get_DataCtx_Len_def keypair_enc_def)
qed

lemma DataCtx_Data_ok:
  assumes mal: "malloc_total mal" and k: "kp_ok c" and b: "length buf = length (keypair_enc c)"
  shows "BoATKeypair_Get_DataCtx_Data mal c (Some buf) = Inr (keypair_enc c, of_nat (length (keypair_enc c)))"
proof -
  note f = kp_fields [OF k]
  let ?i = "[keypair_index c]" and ?n = "kp_name c" and ?f = "prikey_format c" and ?t = "prikey_type c" and ?p = "pubkey_content c"
  have z: "length ?f = 4" "length ?t = 4" "length ?p = 64" "keypair_name c = Some (?n @ [0])" using k by (simp_all add: kp_ok_def ctx_sizes_def)
  have l: "length (lv ?i) = 2" "length (lv ?n) = 1 + length ?n" "length (lv ?f) = 5" "length (lv ?t) = 5" "length (lv ?p) = 65"
    using f(8) z by (simp_all add: length_lv_short)
  have bl: "length buf \<ge> 78 + length ?n" using b f(7) length_lv_bounds(1) [of "keypair_body c"] by (simp add: keypair_enc_def)
  have 1: "append_field mal ?i (buf, 0) = Inr (lv ?i @ drop 2 buf, of_nat (length (lv ?i)))"
    using append_small [OF mal f(1), of buf "[]"] bl l by simp
  have 2: "append_field mal ?n (lv ?i @ drop 2 buf, of_nat (length (lv ?i))) =
      Inr ((lv ?i @ lv ?n) @ drop (3 + length ?n) buf, of_nat (length (lv ?i @ lv ?n)))"
  proof -
    have "length (lv ?n) + 2 = 3 + length ?n" using l by simp
    then have "drop (length (lv ?n)) (drop 2 buf) = drop (3 + length ?n) buf" by (simp only: drop_drop)
    then show ?thesis using append_small [OF mal f(2), of "drop 2 buf" "lv ?i"] bl l by simp
  qed
  have 3: "append_field mal ?f ((lv ?i @ lv ?n) @ drop (3 + length ?n) buf, of_nat (length (lv ?i @ lv ?n))) =
      Inr ((lv ?i @ lv ?n @ lv ?f) @ drop (8 + length ?n) buf, of_nat (length (lv ?i @ lv ?n @ lv ?f)))"
    using append_small [OF mal f(3), of "drop (3 + length ?n) buf" "lv ?i @ lv ?n"] bl l f(8) by (simp add: add.assoc add.commute [of 5])
  have 4: "append_field mal ?t ((lv ?i @ lv ?n @ lv ?f) @ drop (8 + length ?n) buf, of_nat (length (lv ?i @ lv ?n @ lv ?f))) =
      Inr ((lv ?i @ lv ?n @ lv ?f @ lv ?t) @ drop (13 + length ?n) buf, of_nat (length (lv ?i @ lv ?n @ lv ?f @ lv ?t)))"
    using append_small [OF mal f(4), of "drop (8 + length ?n) buf" "lv ?i @ lv ?n @ lv ?f"] bl l f(8) by (simp add: add.assoc add.commute [of 5])
  have 5: "append_field mal ?p ((lv ?i @ lv ?n @ lv ?f @ lv ?t) @ drop (13 + length ?n) buf, of_nat (length (lv ?i @ lv ?n @ lv ?f @ lv ?t))) =
      Inr (keypair_body c @ drop (78 + length ?n) buf, of_nat (length (keypair_body c)))"
    using append_small [OF mal f(5), of "drop (13 + length ?n) buf" "lv ?i @ lv ?n @ lv ?f @ lv ?t"] bl l f(8)
    by (simp add: keypair_body_def add.assoc add.commute [of 65])
  obtain r where 6: "add_L_withOffset mal (keypair_body c @ drop (78 + length ?n) buf) 0 (of_nat (length (keypair_body c))) =
      Inr (r, keypair_enc c, of_nat (length (keypair_enc c)))" "\<not> r < 0"
    using wrap_record [OF mal f(6), of "drop (78 + length ?n) buf"] b f(7) bl by (auto simp: keypair_enc_def)
  show ?thesis
    unfolding BoATKeypair_Get_DataCtx_Data_def option.case z(4) kp_string [OF k] 1 2 3 4 5 6(1) bindR_simps prod.case
    using 6(2) by simp
qed

lemmas keypair_area = area_is_storage [where f = BOAT_STORE_KEYPAIR and t = BOAT_STORE_TYPE_FLASH]

lemma keypair_store_ok:
  assumes ok: "nvram_ok s" and mal: "malloc_total mal" and rs: "keypairs_in rs s" "length rs < 5"
    and c: "kp_ok c" "persistent_index (keypair_index c)" "keypair_index c \<notin> keypair_index ` set rs"
  shows "\<exists>s'. BoATKeypair_DataCtx_Store mal c BOAT_STORE_TYPE_FLASH s = (Inr (), s') \<and> nvram_ok s' \<and>
    area_frame BOAT_STORE_KEYPAIR BOAT_STORE_TYPE_FLASH s s' \<and> keypairs_in (rs @ [c]) s'"
proof -
  note A = keypair_area [OF mal]
  let ?rd = "area_rd BOAT_STORE_KEYPAIR BOAT_STORE_TYPE_FLASH"
  let ?wr = "area_wr mal BOAT_STORE_KEYPAIR BOAT_STORE_TYPE_FLASH"
  let ?X = "concat (map keypair_enc rs)"
  have h: "holds keypair_enc rs (keypair_content s)" and k: "list_all kp_ok rs" using rs(1) by (simp_all add: keypairs_in_def)
  obtain num where num: "read_num ?rd s = Inr num" "unat num = length rs"
    using storage_area.read_num_ok [OF A ok] h by (auto simp: holds_def)
  have skip: "skip_lv ?rd (length rs) 4 s = Inr (of_nat (4 + length ?X))"
  proof (cases "rs = []")
    case False
    then obtain pre rest where p: "keypair_content s = pre @ ?X @ rest" "length pre = 4"
      using holds_split [OF h] by blast
    then show ?thesis using storage_area.skip_keypairs [OF A ok p(1) k] by simp
  qed simp
  have sz: "length (keypair_enc c) \<le> 142" "length ?X \<le> 142 * length rs"
    using keypair_enc_size [OF c(1)] keypairs_size [OF k] by simp_all
  then have fit: "4 + length ?X + length (keypair_enc c) \<le> area_cap BOAT_STORE_KEYPAIR BOAT_STORE_TYPE_FLASH"
    using rs(2) by simp
  have "num = of_nat (length rs)" by (simp flip: num(2))
  then obtain s1 s2 where w: "?wr (of_nat (4 + length ?X)) (keypair_enc c) s = (Inr (), s1)"
      "?wr 0 (utility_get_NumBytes (num + 1)) s1 = (Inr (), s2)"
      "nvram_ok s2" "area_frame BOAT_STORE_KEYPAIR BOAT_STORE_TYPE_FLASH s s2" "holds keypair_enc (rs @ [c]) (keypair_content s2)"
    using storage_area.append_record [OF A ok h, of c] rs(2) fit by auto
  have ul: "unat (of_nat (length (keypair_enc c)) :: u32) = length (keypair_enc c)" using sz by (intro unat_of_nat_u32) simp
  obtain blk where blk: "mal (length (keypair_enc c)) = Some blk" "length blk = length (keypair_enc c)" using mal by (auto simp: malloc_total_def)
  have "BoATKeypair_DataCtx_Store mal c BOAT_STORE_TYPE_FLASH s = (Inr (), s2)"
    using num skip DataCtx_Len_ok [OF c(1)] ul blk DataCtx_Data_ok [OF mal c(1) blk(2)] w(1,2) rs(2) sz(1)
      store_prefix [of "keypair_enc c" mal BOAT_STORE_KEYPAIR _ "[]" BOAT_STORE_TYPE_FLASH]
    by (simp add: BoATKeypair_DataCtx_Store_def Let_def bindS_def)
  moreover have "keypairs_in (rs @ [c]) s2"
    using rs c w(5) by (auto simp: keypairs_in_def)
  ultimately show ?thesis using w(3,4) by blast
qed

lemma keypairs_nonempty:
  assumes "nvram_ok s" "keypairs_in rs s" "rs \<noteq> []"
  shows "\<exists>rest. keypair_content s = utility_get_NumBytes (of_nat (length rs)) @ concat (map keypair_enc rs) @ rest"
    "area_rd BOAT_STORE_KEYPAIR BOAT_STORE_TYPE_FLASH 4 0 4 s = Inr (utility_get_NumBytes (of_nat (length rs)))"
    "unat (of_nat (length rs) :: u8) = length rs" "(of_nat (length rs) :: u8) \<noteq> 0"
proof -
  show c: "\<exists>rest. keypair_content s = utility_get_NumBytes (of_nat (length rs)) @ concat (map keypair_enc rs) @ rest"
    using holds_content assms(2,3) unfolding keypairs_in_def by blast
  then show "area_rd BOAT_STORE_KEYPAIR BOAT_STORE_TYPE_FLASH 4 0 4 s = Inr (utility_get_NumBytes (of_nat (length rs)))"
    using storage_area.rd_parts [OF keypair_area [OF heap_all_total] assms(1), of "[]" "utility_get_NumBytes (of_nat (length rs))" _ 4]
    by auto
  show n: "unat (of_nat (length rs) :: u8) = length rs" using assms(2) by (simp add: keypairs_in_def unat_of_nat)
  then show "(of_nat (length rs) :: u8) \<noteq> 0" using assms(3) by (simp add: word_unat_eq_iff)
qed

lemma get_keypair_found:
  assumes ok: "nvram_ok s" and mal: "malloc_total mal" and rs: "keypairs_in rs s" and c: "c \<in> set rs" and old: "ctx_sizes old"
  shows "BoATKeypair_GetKeypairByIndex mal (keypair_index c) s (Some old) = (Inr (), Some c)"
proof -
  have ne: "rs \<noteq> []" and k: "list_all kp_ok rs" and i: "persistent_index (keypair_index c)" and d: "distinct (map keypair_index rs)"
    using c rs by (auto simp: keypairs_in_def list_all_iff)
  note p = keypairs_nonempty [OF ok rs ne]
  obtain rest where cc: "keypair_content s = utility_get_NumBytes (of_nat (length rs)) @ concat (map keypair_enc rs) @ rest"
    using p(1) by blast
  have "get_keypair_loop mal (area_rd BOAT_STORE_KEYPAIR BOAT_STORE_TYPE_FLASH) (length rs) (keypair_index c) 4 s old = (Inr (), c)"
    using storage_area.get_keypair_loop_ok [OF keypair_area [OF mal] ok mal cc k old, of "keypair_index c"] find_keyed [OF c d] by simp
  moreover have "\<not> of_nat 5 < keypair_index c" "storetype_of (keypair_index c) = BOAT_STORE_TYPE_FLASH"
    using i by (simp_all add: persistent_index_def storetype_flash word_less_nat_alt)
  ultimately show ?thesis
    using p(2-4) NumBytes_get by (simp add: BoATKeypair_GetKeypairByIndex_def Let_def)
qed

lemma get_keypair_missing:
  assumes ok: "nvram_ok s" and mal: "malloc_total mal" and rs: "keypairs_in rs s" and i: "i \<notin> keypair_index ` set rs" "persistent_index i" and old: "ctx_sizes old"
  shows "\<exists>e. BoATKeypair_GetKeypairByIndex mal i s (Some old) = (Inl (Err e), Some old)"
proof -
  note A = keypair_area [OF mal]
  let ?rd = "area_rd BOAT_STORE_KEYPAIR BOAT_STORE_TYPE_FLASH"
  have ix: "\<not> of_nat 5 < i" "storetype_of i = BOAT_STORE_TYPE_FLASH"
    using i(2) by (simp_all add: persistent_index_def storetype_flash word_less_nat_alt)
  show ?thesis
  proof (cases "rs = []")
    case True
    then have "\<exists>num. read_num ?rd s = Inr num \<and> num = 0"
      using storage_area.read_num_ok [OF A ok] rs by (auto simp: keypairs_in_def holds_def word_unat_eq_iff)
    then show ?thesis
      using ix by (auto simp: BoATKeypair_GetKeypairByIndex_def Let_def read_num_def split: sum.splits fail.splits)
  next
    case False
    note p = keypairs_nonempty [OF ok rs False]
    obtain rest where cc: "keypair_content s = utility_get_NumBytes (of_nat (length rs)) @ concat (map keypair_enc rs) @ rest"
      using p(1) by blast
    have "find (\<lambda>r. keypair_index r = i) rs = None" using i(1) by (auto simp: find_None_iff)
    then have "get_keypair_loop mal ?rd (length rs) i 4 s old = (Inl (Err BOAT_ERROR_KEYPAIR_KEY_INEXISTENCE), old)"
      using storage_area.get_keypair_loop_ok [OF A ok mal cc _ old, of i] rs by (simp add: keypairs_in_def)
    then show ?thesis using p(2-4) NumBytes_get ix by (simp add: BoATKeypair_GetKeypairByIndex_def Let_def)
  qed
qed

lemmas onetime_area = area_is_storage [where f = BOAT_STORE_KEYPAIR and t = BOAT_STORE_TYPE_RAM]

lemma list_loop_area:
  assumes A: "storage_area rd wr nvram_ok content cap frame" and ok: "nvram_ok s" and mal: "malloc_total mal"
    and h: "holds keypair_enc rs (content s)" and k: "list_all kp_ok rs"
    and kl: "entries_sized (keypairs kl)" "slot + length rs \<le> length (keypairs kl)"
  shows "list_loop mal rd (length rs) slot 4 s kl = (Inr (), kl\<lparr>keypairs := fill_slots slot rs (keypairs kl)\<rparr>)"
proof (cases "rs = []")
  case False
  then obtain pre rest where p: "content s = pre @ concat (map keypair_enc rs) @ rest" "length pre = 4"
    using holds_split [OF h] by blast
  then show ?thesis using storage_area.list_loop_ok [OF A ok mal p(1) k kl] by simp
qed simp

lemma keypair_list_filled:
  assumes ok: "nvram_ok s" and mal: "malloc_total mal" and rs: "keypairs_in rs s" and os: "onetime_in os s" and kl: "list_sized kl"
  shows "BoATKeypair_GetKeypairList mal s (Some kl) = (Inr (), Some (kl\<lparr>keypairNum := of_nat (length rs) + of_nat (length os),
     keypairPersistentNum := of_nat (length rs), keypairs := fill_slots (length rs) os (fill_slots 0 rs (keypairs kl))\<rparr>))"
proof -
  let ?F = "area_rd BOAT_STORE_KEYPAIR BOAT_STORE_TYPE_FLASH" and ?R = "area_rd BOAT_STORE_KEYPAIR BOAT_STORE_TYPE_RAM"
  have R: "storage_area ?R (area_wr mal BOAT_STORE_KEYPAIR BOAT_STORE_TYPE_RAM) nvram_ok onetime_content 717
      (area_frame BOAT_STORE_KEYPAIR BOAT_STORE_TYPE_RAM)" using onetime_area [OF mal] by simp
  note F = keypair_area [OF mal]
  have h: "holds keypair_enc rs (keypair_content s)" "list_all kp_ok rs" "length rs \<le> 5"
    and g: "holds keypair_enc os (onetime_content s)" "list_all kp_ok os" "length os \<le> 1"
    using rs os by (simp_all add: keypairs_in_def onetime_in_def)
  have nF: "read_num ?F s = Inr (of_nat (length rs))"
  proof -
    obtain n where n: "read_num ?F s = Inr n" "unat n = length rs" using storage_area.read_num_ok [OF F ok] h(1) by (auto simp: holds_def)
    then show ?thesis by (simp flip: n(2))
  qed
  have nR: "read_num ?R s = Inr (of_nat (length os))"
  proof -
    obtain n where n: "read_num ?R s = Inr n" "unat n = length os" using storage_area.read_num_ok [OF R ok] g(1) by (auto simp: holds_def)
    then show ?thesis by (simp flip: n(2))
  qed
  have u: "unat (of_nat (length rs) :: u8) = length rs" "unat (of_nat (length os) :: u8) = length os"
    using h(3) g(3) by (simp_all add: unat_of_nat)
  have rl: "?R 4 0 4 s = Inr (take 4 (onetime_content s))"
  proof -
    have "717 = length (onetime_content s)" using ok by (simp add: area_content_def nvram_ok_def)
    then show ?thesis using storage_area.rd_ok [OF R ok, of 4 4 0] by simp
  qed
  have e1: "entries_sized (fill_slots 0 rs (keypairs kl))" using kl h(2,3) by (intro entries_sized_fill) (simp_all add: list_sized_def)
  have e0: "entries_sized (keypairs kl)" "length (keypairs kl) = 6" using kl by (simp_all add: list_sized_def)
  note l1 = list_loop_area [OF F ok mal h(1,2), of "kl\<lparr>keypairPersistentNum := of_nat (length rs), keypairNum := of_nat (length rs)\<rparr>" 0]
  note l2 = list_loop_area [OF R ok mal g(1,2), of "kl\<lparr>keypairPersistentNum := of_nat (length rs),
      keypairNum := of_nat (length rs) + of_nat (length os), keypairs := fill_slots 0 rs (keypairs kl)\<rparr>" "length rs"]
  show ?thesis
    using e0 e1 l1 l2 h(3) g(3) by (cases kl) (simp add: BoATKeypair_GetKeypairList_def Let_def bindS_def liftS_def updS_def nF nR u rl)
qed

lemma entry_has_iff:
  "num \<le> length es \<Longrightarrow> entry_has num es i = Inr (i \<in> keypair_index ` set (map prikeyCtx (take num es)))"
  by (induction num es i rule: entry_has.induct) auto

lemma free_index_scan_find:
  "num \<le> length es \<Longrightarrow> free_index_scan k i num es =
    Inr (find (\<lambda>j. (of_nat j :: u8) \<notin> keypair_index ` set (map prikeyCtx (take num es))) [i + 1..<i + 1 + k])"
proof (induction k arbitrary: i)
  case (Suc k)
  show ?case using Suc.IH [of "i + 1"] Suc.prems by (simp add: entry_has_iff upt_conv_Cons del: upt_Suc)
qed simp

lemma free_index_exists:
  "length rs < 5 \<Longrightarrow> \<exists>i. free_index rs = Some i \<and> persistent_index (of_nat i) \<and> (of_nat i :: u8) \<notin> keypair_index ` set rs"
  using free_key_exists [of "map keypair_index rs"] by (auto simp: free_index_def)

lemma free_index_ok:
  assumes ok: "nvram_ok s" and mal: "malloc_total mal" and rs: "keypairs_in rs s" and os: "onetime_in os s" and kl: "list_sized junk"
  shows "BoATKeypair_GetFreeIndex_From_Persistent mal junk s =
    (if length rs = 5 then Inl (Err BOAT_ERROR_KEYPAIR_KEY_INDEX_EXCEED) else Inr (the (free_index rs)))"
proof -
  let ?J = "BoATKeypair_Init_BoatIotKeypairContext junk"
  let ?E = "fill_slots (length rs) os (fill_slots 0 rs (keypairs ?J))"
  have J: "list_sized ?J" using kl by (auto simp: list_sized_def BoATKeypair_Init_BoatIotKeypairContext_def entries_sized_def list_all_iff
        ctx_sizes_def dest: in_set_takeD in_set_dropD)
  have l: "length rs \<le> 5" "length os \<le> 1" "length ?E = 6" using rs os J by (simp_all add: keypairs_in_def onetime_in_def list_sized_def)
  have num: "unat (of_nat (length rs) + of_nat (length os) :: u8) = length rs + length os"
    using l by (simp add: unat_of_nat flip: of_nat_add)
  have ix: "map prikeyCtx (take (length rs + length os) ?E) = rs @ os"
    using fill_slots_take [of "length rs" os "fill_slots 0 rs (keypairs ?J)"] fill_slots_take [of 0 rs "keypairs ?J"] l by simp
  have o: "keypair_index ` set (rs @ os) - {0} = keypair_index ` set rs - {0}"
    using os by (auto simp: onetime_in_def list_all_iff)
  have "(of_nat j :: u8) \<notin> keypair_index ` set (rs @ os) \<longleftrightarrow> (of_nat j :: u8) \<notin> keypair_index ` set rs" if "j \<in> set [1..<6]" for j
  proof -
    have "(of_nat j :: u8) \<noteq> 0" using that by (simp add: word_unat_eq_iff unat_of_nat)
    then show ?thesis using o by blast
  qed
  then have f: "find (\<lambda>j. (of_nat j :: u8) \<notin> keypair_index ` set (rs @ os)) [1..<6] = free_index rs"
    unfolding free_index_def by (intro find_cong) auto
  have sc: "free_index_scan 5 0 (length rs + length os) ?E = Inr (free_index rs)"
    using free_index_scan_find [of "length rs + length os" ?E 5 0] l ix f by simp
  have p5: "((of_nat (length rs) :: u8) = of_nat 5) = (length rs = 5)"
    using l(1) by (auto simp: word_unat_eq_iff unat_of_nat)
  have fr: "\<exists>bs. BoATKeypair_FreeKeypairContext (?J\<lparr>keypairNum := of_nat (length rs) + of_nat (length os),
     keypairPersistentNum := of_nat (length rs), keypairs := ?E\<rparr>) = Inr bs"
    using l num by (simp add: BoATKeypair_FreeKeypairContext_def)
  have nf: "length rs \<noteq> 5 \<Longrightarrow> \<exists>i. free_index rs = Some i" using free_index_exists [of rs] l(1) by auto
  show ?thesis
    using keypair_list_filled [OF ok mal rs os J] sc num p5 fr nf
    by (auto simp: BoATKeypair_GetFreeIndex_From_Persistent_def)
qed

end
