(* ===== verification/Boat_Wallet.thy ===== *)
theory Boat_Wallet
  imports Boat_Keypair
begin

text \<open>
  The keypair manager and the keystore together: \<open>wallet\<close> says that the keypair area and the private-key area
  agree, entry by entry. Creation and deletion (\<open>BoatKeypairCreate\<close> and \<open>BoATIotKeypairDelete\<close> of
  \<open>sdk/keypair/boatkeypair.c\<close>) keep it, and do to the two lists exactly what their names say.
\<close>

subsection \<open>Reference notions\<close>

text \<open>The private key of the one-time keypair, if there is one.\<close>

definition onetime_key :: "nvram \<Rightarrow> bool" where
  "onetime_key s \<longleftrightarrow> (\<exists>ts. holds prikey_enc ts (area_content BOAT_STORE_PRIKEY BOAT_STORE_TYPE_RAM s) \<and>
     list_all prikey_ok ts \<and> length ts \<le> 1)"

text \<open>
  What the two stores promise together: every persistent keypair has its private key, in the same order.
\<close>

definition wallet :: "BoatKeypairPriKeyCtx list \<Rightarrow> prikey_rec list \<Rightarrow> BoatKeypairPriKeyCtx list \<Rightarrow> nvram \<Rightarrow> bool" where
  "wallet rs ps os s \<longleftrightarrow> nvram_ok s \<and> keypairs_in rs s \<and> prikeys ps s \<and> onetime_in os s \<and> onetime_key s \<and> map fst ps = map keypair_index rs"

text \<open>What the wallet's operations may do to the network areas: fill a short file up with zeros.\<close>

definition keeps_networks :: "nvram \<Rightarrow> nvram \<Rightarrow> bool" where
  "keeps_networks s s' \<longleftrightarrow> (\<forall>t. t \<noteq> BOAT_STORE_TYPE_UNKNOWN \<longrightarrow>
     zero_extends (area_content BOAT_STORE_NETWORK t s) (area_content BOAT_STORE_NETWORK t s'))"

definition data_sized :: "BoatKeypairDataCtx \<Rightarrow> bool" where
  "data_sized d \<longleftrightarrow> ctx_sizes (prikeyCtx d) \<and> length (value_bytes (extraData d)) = 512"

text \<open>The name a keypair is stored under, and the names that can be stored.\<close>

definition chosen_name :: "bytes option \<Rightarrow> u8 \<Rightarrow> bytes" where
  "chosen_name keypairName i =
     (case keypairName of
        None \<Rightarrow> [0x6B, 0x65, 0x79, 0x70, 0x61, 0x69, 0x72, 0x30 + i]
      | Some b \<Rightarrow> takeWhile (\<lambda>x. x \<noteq> 0) b)"

definition name_ok :: "bytes option \<Rightarrow> bool" where
  "name_ok keypairName \<longleftrightarrow>
     (case keypairName of
        None \<Rightarrow> True
      | Some b \<Rightarrow> 0 \<in> set b \<and> hd b \<noteq> 0 \<and> length (takeWhile (\<lambda>x. x \<noteq> 0) b) \<le> 62)"

text \<open>The keypair and the private key that creation with the data \<open>d\<close> stores.\<close>

definition created :: "BoatKeypairDataCtx \<Rightarrow> bytes option \<Rightarrow> u8 \<Rightarrow> BoatKeypairPriKeyCtx" where
  "created d nm i = (prikeyCtx d)\<lparr>keypair_name := Some (chosen_name nm i @ [0]), keypair_index := i\<rparr>"

definition prikey_of :: "BoatKeypairDataCtx \<Rightarrow> bytes" where
  "prikey_of d = take (unat (value_len (extraData d))) (value_bytes (extraData d))"

definition zero_list :: BoatIotKeypairContext where
  "zero_list = \<lparr>keypairNum = 0, keypairPersistentNum = 0, keypairs = replicate 6 BoATIotKeypairInit\<rparr>"

definition native_cfg :: BoatKeypairPriKeyCtx_config where
  "native_cfg = \<lparr>cfg_genMode = BOAT_KEYPAIR_PRIKEY_GENMODE_EXTERNAL_INJECTION, cfg_format = BOAT_KEYPAIR_PRIKEY_FORMAT_NATIVE,
     cfg_type = BOAT_KEYPAIR_PRIKEY_TYPE_SECP256K1, cfg_content = Some (replicate 32 7)\<rparr>"

definition native_data :: BoatKeypairDataCtx where
  "native_data = \<lparr>prikeyCtx = \<lparr>keypair_index = 0, keypair_name = None, prikey_format = [2, 0, 0, 0], prikey_type = [1, 0, 0, 0],
      pubkey_content = replicate 64 9\<rparr>, extraData = \<lparr>value_len = 32, value_bytes = replicate 32 7 @ replicate 480 0\<rparr>\<rparr>"

subsection \<open>Correctness\<close>

lemma keeps_networks_refl: "keeps_networks s s"
  by (simp add: keeps_networks_def zero_extends_refl)

lemma keeps_networks_frame: "area_frame f t s s1 \<Longrightarrow> f \<noteq> BOAT_STORE_NETWORK \<Longrightarrow> keeps_networks s s1"
  by (auto simp: keeps_networks_def area_frame_def)

lemma keeps_networks_trans: "keeps_networks s s1 \<Longrightarrow> keeps_networks s1 s2 \<Longrightarrow> keeps_networks s s2"
  unfolding keeps_networks_def by (blast intro: zero_extends_trans)

lemmas keeps_networks_frames = keeps_networks_trans [OF keeps_networks_frame keeps_networks_frame]

lemma keypairs_ne: "ys \<noteq> [] \<Longrightarrow> concat (map keypair_enc ys) \<noteq> []"
  by (cases ys) simp_all

lemma delete_keypair_body_ok:
  assumes ok: "nvram_ok s1" and mal: "malloc_total mal" and k: "list_all kp_ok (xs @ r # ys)"
    and c: "drop 4 (keypair_content s1) = concat (map keypair_enc (xs @ r # ys)) @ rest" "4 \<le> length (keypair_content s1)"
    and w: "w = (if ys = [] then [0, 0, 0] else concat (map keypair_enc ys))"
    and wr: "area_wr mal BOAT_STORE_KEYPAIR BOAT_STORE_TYPE_FLASH (of_nat (4 + length (concat (map keypair_enc xs)))) w s1 = (Inr (), s2)"
  shows "delete_keypair_body mal (length (xs @ r # ys)) (length xs) (of_nat (4 + length (concat (map keypair_enc xs))))
     (of_nat (length (keypair_body r))) (of_nat (length (L_bytes (of_nat (length (keypair_body r)))))) s1 = (Inr (), s2)"
proof (cases "ys = []")
  case True
  then show ?thesis using wr by (simp add: delete_keypair_body_def w Let_def)
next
  case False
  note A = keypair_area [OF mal]
  let ?rd = "area_rd BOAT_STORE_KEYPAIR BOAT_STORE_TYPE_FLASH"
  let ?X = "concat (map keypair_enc xs)"
  let ?Y = "concat (map keypair_enc ys)"
  define pre where "pre = take 4 (keypair_content s1) @ ?X @ keypair_enc r"
  have cc: "keypair_content s1 = pre @ ?Y @ rest"
    using c(1) append_take_drop_id [of 4 "keypair_content s1"] by (simp add: pre_def)
  have ky: "list_all kp_ok ys" using k by simp
  have mf: "of_nat (4 + length ?X) + (of_nat (length (L_bytes (of_nat (length (keypair_body r))))) + of_nat (length (keypair_body r))) =
      (of_nat (length pre) :: u32)"
    using c(2) by (simp add: pre_def keypair_enc_def length_lv)
  have sk: "skip_lv ?rd (length ys) (of_nat (length pre)) s1 = Inr (of_nat (length pre + length ?Y))"
    using storage_area.skip_keypairs [OF A ok cc ky] by simp
  have yl: "length ?Y \<le> 717" "?Y \<noteq> []"
    using cc storage_area.content_cap [OF A ok] keypairs_ne [OF False] by simp_all
  have d: "of_nat (length pre + length ?Y) - of_nat (length pre) = (of_nat (length ?Y) :: u32)" by simp
  have ul: "unat (of_nat (length ?Y) :: u32) = length ?Y" using yl by (intro unat_of_nat_u32) simp
  obtain blk where blk: "mal (length ?Y) = Some blk" using mal by (auto simp: malloc_total_def)
  have rd: "?rd (length ?Y) (of_nat (length pre)) (of_nat (length ?Y)) s1 = Inr ?Y"
    using storage_area.rd_parts [OF A ok cc yl(2)] by simp
  have i: "(length xs = length (xs @ r # ys) - 1) = False" "length (xs @ r # ys) - 1 - length xs = length ys"
    using False by simp_all
  have w': "w = ?Y" using w False by simp
  show ?thesis
    unfolding delete_keypair_body_def Let_def bindS_def throwS_def i if_False mf sk sum.case prod.case d ul blk option.case rd
    using wr by (simp add: w' rethrowS_def catchS_def)
qed

lemma keypairs_in_frame: "area_frame f t s s' \<Longrightarrow> (BOAT_STORE_KEYPAIR, BOAT_STORE_TYPE_FLASH) \<noteq> (f, t) \<Longrightarrow> keypairs_in rs s \<Longrightarrow> keypairs_in rs s'"
  unfolding area_frame_def keypairs_in_def using holds_zero_extends by blast

lemma prikeys_frame: "area_frame f t s s' \<Longrightarrow> (BOAT_STORE_PRIKEY, BOAT_STORE_TYPE_FLASH) \<noteq> (f, t) \<Longrightarrow> prikeys rs s \<Longrightarrow> prikeys rs s'"
  unfolding area_frame_def prikeys_def using holds_zero_extends by blast

lemma onetime_frame: "area_frame f t s s' \<Longrightarrow> (BOAT_STORE_KEYPAIR, BOAT_STORE_TYPE_RAM) \<noteq> (f, t) \<Longrightarrow> onetime_in os s \<Longrightarrow> onetime_in os s'"
  unfolding area_frame_def onetime_in_def using holds_zero_extends by blast

lemma onetime_key_frame: "area_frame f t s s' \<Longrightarrow> (BOAT_STORE_PRIKEY, BOAT_STORE_TYPE_RAM) \<noteq> (f, t) \<Longrightarrow> onetime_key s \<Longrightarrow> onetime_key s'"
  unfolding area_frame_def onetime_key_def using holds_zero_extends by blast

lemmas wallet_frames = keypairs_in_frame prikeys_frame onetime_frame onetime_key_frame

lemma remove_keypair_record:
  assumes ok: "nvram_ok s" and mal: "malloc_total mal" and rs: "keypairs_in (xs @ c # ys) s"
  shows "\<exists>s1 s2. area_wr mal BOAT_STORE_KEYPAIR BOAT_STORE_TYPE_FLASH 0 (utility_get_NumBytes (of_nat (length (xs @ c # ys)) - 1)) s = (Inr (), s1) \<and>
    delete_keypair_body mal (length (xs @ c # ys)) (length xs) (of_nat (4 + length (concat (map keypair_enc xs))))
     (of_nat (length (keypair_body c))) (of_nat (length (L_bytes (of_nat (length (keypair_body c)))))) s1 = (Inr (), s2) \<and>
    nvram_ok s2 \<and> area_frame BOAT_STORE_KEYPAIR BOAT_STORE_TYPE_FLASH s s2 \<and> keypairs_in (xs @ ys) s2"
proof -
  note A = keypair_area [OF mal]
  let ?wr = "area_wr mal BOAT_STORE_KEYPAIR BOAT_STORE_TYPE_FLASH"
  let ?rs = "xs @ c # ys"
  let ?X = "concat (map keypair_enc xs)"
  let ?w = "if ys = [] then [0, 0, 0] else concat (map keypair_enc ys)"
  have h: "holds keypair_enc ?rs (keypair_content s)" and k: "list_all kp_ok ?rs" and l: "length ?rs \<le> 5"
    using rs by (auto simp: keypairs_in_def)
  obtain rest where cc: "keypair_content s = utility_get_NumBytes (of_nat (length ?rs)) @ concat (map keypair_enc ?rs) @ rest"
    using holds_content [OF h] by blast
  have wne: "?w \<noteq> []" using keypairs_ne [of ys] by simp
  have "length (concat (map keypair_enc ?rs)) \<le> 717 - 4"
    using cc storage_area.content_cap [OF A ok] by simp
  then have fit: "4 + length ?X + length ?w \<le> area_cap BOAT_STORE_KEYPAIR BOAT_STORE_TYPE_FLASH"
    using k keypair_enc_size(2) [of c] by auto
  obtain s1 s2 where w: "?wr 0 (utility_get_NumBytes (of_nat (length ?rs) - 1)) s = (Inr (), s1)" "nvram_ok s1"
      "drop 4 (keypair_content s1) = drop 4 (keypair_content s)" "4 \<le> length (keypair_content s1)"
      "?wr (of_nat (4 + length ?X)) ?w s1 = (Inr (), s2)" "nvram_ok s2"
      "area_frame BOAT_STORE_KEYPAIR BOAT_STORE_TYPE_FLASH s s2" "holds keypair_enc (xs @ ys) (keypair_content s2)"
    using storage_area.remove_record [OF A ok h _ wne _ fit] l by auto
  have "drop 4 (keypair_content s1) = concat (map keypair_enc ?rs) @ rest" using w(3) cc by simp
  then have "delete_keypair_body mal (length ?rs) (length xs) (of_nat (4 + length ?X)) (of_nat (length (keypair_body c)))
      (of_nat (length (L_bytes (of_nat (length (keypair_body c)))))) s1 = (Inr (), s2)"
    using delete_keypair_body_ok [OF w(2) mal k _ w(4) refl w(5)] by simp
  moreover have "keypairs_in (xs @ ys) s2" using rs w(8) by (auto simp: keypairs_in_def)
  ultimately show ?thesis using w(1,6,7) by blast
qed

lemma delete_keypair_ok:
  assumes W: "wallet (xs @ c # ys) (us @ (keypair_index c, k) # vs) os s" and l: "length us = length xs"
    and mal: "malloc_total mal" and junk: "ctx_sizes junk"
  shows "\<exists>s'. BoATIotKeypairDelete mal junk (keypair_index c) s = (Inr (), s') \<and> wallet (xs @ ys) (us @ vs) os s' \<and> keeps_networks s s'"
proof -
  let ?rs = "xs @ c # ys"
  let ?i = "keypair_index c"
  have ok: "nvram_ok s" and rs: "keypairs_in ?rs s" and ps: "prikeys (us @ (?i, k) # vs) s" and o: "onetime_in os s" "onetime_key s"
    and m: "map fst (us @ (?i, k) # vs) = map keypair_index ?rs" using W by (simp_all add: wallet_def)
  have kk: "list_all kp_ok ?rs" and pi: "persistent_index ?i" and ix: "?i \<notin> keypair_index ` set xs"
    using rs by (auto simp: keypairs_in_def)
  have append_Cons_ne: "?rs \<noteq> []" by simp
  note p = keypairs_nonempty [OF ok rs]
  obtain rest where cc: "keypair_content s = utility_get_NumBytes (of_nat (length ?rs)) @ concat (map keypair_enc ?rs) @ rest"
    using p(1) by blast
  have st: "storetype_of ?i = BOAT_STORE_TYPE_FLASH" "\<not> of_nat 5 < ?i" "?i \<noteq> 0" "unat ?i \<le> 5"
    using pi by (simp_all add: persistent_index_def storetype_flash word_less_nat_alt)
  have fk: "find_keypair (area_rd BOAT_STORE_KEYPAIR BOAT_STORE_TYPE_FLASH) (length ?rs) 0 ?i 4 s =
      Inr (Some (length xs, of_nat (4 + length (concat (map keypair_enc xs))), of_nat (length (keypair_body c)),
        of_nat (length (L_bytes (of_nat (length (keypair_body c)))))))"
    using storage_area.find_keypair_ok [OF keypair_area [OF mal] ok cc kk ix, of 0] by simp
  have g: "BoATKeypair_GetKeypairByIndex mal ?i s (Some junk) = (Inr (), Some c)"
    using get_keypair_found [OF ok mal rs _ junk] by simp
  obtain s1 s2 where w: "area_wr mal BOAT_STORE_KEYPAIR BOAT_STORE_TYPE_FLASH 0 (utility_get_NumBytes (of_nat (length ?rs) - 1)) s = (Inr (), s1)"
      "delete_keypair_body mal (length ?rs) (length xs) (of_nat (4 + length (concat (map keypair_enc xs))))
       (of_nat (length (keypair_body c))) (of_nat (length (L_bytes (of_nat (length (keypair_body c)))))) s1 = (Inr (), s2)"
      "nvram_ok s2" "area_frame BOAT_STORE_KEYPAIR BOAT_STORE_TYPE_FLASH s s2" "keypairs_in (xs @ ys) s2"
    using remove_keypair_record [OF ok mal rs] by blast
  have "prikeys (us @ (?i, k) # vs) s2" using prikeys_frame [OF w(4) _ ps] by simp
  then obtain s3 where s3: "BoAT_DeletePirkeyByIndex mal ?i s2 = (Inr (), s3)" "nvram_ok s3"
      "area_frame BOAT_STORE_PRIKEY BOAT_STORE_TYPE_FLASH s2 s3" "prikeys (us @ vs) s3"
    using delete_prikey_ok [OF w(3) mal _ st(3,4)] by blast
  have "BoATIotKeypairDelete mal junk ?i s = (Inr (), s3)"
    unfolding BoATIotKeypairDelete_def Let_def st(1) p(2) [OF append_Cons_ne] sum.case NumBytes_get p(3) [OF append_Cons_ne] fk g
      option.case prod.case if_False bindS_def w(1,2)
    using p(4) st(2,3) s3(1) by (simp add: delete_prikey_of_def catchS_def)
  moreover have "wallet (xs @ ys) (us @ vs) os s3"
    using s3 keypairs_in_frame [OF s3(3) _ w(5)] onetime_frame [OF s3(3)] onetime_frame [OF w(4) _ o(1)]
      onetime_key_frame [OF s3(3)] onetime_key_frame [OF w(4) _ o(2)] m l
    by (simp add: wallet_def append_eq_append_conv)
  moreover have "keeps_networks s s3" by (rule keeps_networks_frames [OF w(4) _ s3(3)]) simp_all
  ultimately show ?thesis by blast
qed

lemma set_prikey_sized: "set_prikey k t d = Inr d' \<Longrightarrow> data_sized d \<Longrightarrow> data_sized d'"
  by (cases t) (auto simp: set_prikey_def data_sized_def ctx_sizes_def bindR_eq_Inr buf_put_def split: if_splits)

lemma set_pubkey_sized: "set_pubkey p d = Inr d' \<Longrightarrow> data_sized d \<Longrightarrow> data_sized d'"
  by (auto simp: set_pubkey_def data_sized_def ctx_sizes_def bindR_eq_Inr buf_put_def split: if_splits)

lemma keyCreate_sized:
  assumes "BoatPort_keyCreate generation getPubkey pkcs2native cfg (Some BoATIotKeypairInit) = Inr d"
  shows "data_sized d"
proof -
  have i: "data_sized BoATIotKeypairInit" by (simp add: data_sized_def BoATIotKeypairInit_def ctx_sizes_def)
  show ?thesis
    using assms set_prikey_sized [OF _ i] set_pubkey_sized
    by (fastforce simp: BoatPort_keyCreate_def sBoatPort_keyCreate_internal_generation_def sBoatPort_keyCreate_external_injection_pkcs_def
        sBoatPort_keyCreate_external_injection_native_def bindR_eq_Inr
        split: option.splits BoatKeypairPriKeyGenMode.splits BoatKeypairPriKeyFormat.splits prod.splits)
qed

lemma chosen_name_ok:
  assumes "name_ok nm" "unat i \<le> 5"
  shows "chosen_name nm i \<noteq> []" "length (chosen_name nm i) \<le> 62" "takeWhile (\<lambda>x. x \<noteq> 0) (chosen_name nm i @ [0]) = chosen_name nm i"
proof -
  have d: "(0x30 + i :: u8) \<noteq> 0" using assms(2) by (simp add: word_unat_eq_iff unat_plus_if')
  show "chosen_name nm i \<noteq> []" "length (chosen_name nm i) \<le> 62"
    using assms(1) by (auto simp: chosen_name_def name_ok_def takeWhile_eq_Nil_iff split: option.splits)
  show "takeWhile (\<lambda>x. x \<noteq> 0) (chosen_name nm i @ [0]) = chosen_name nm i"
    using d by (auto simp: chosen_name_def takeWhile_append split: option.splits dest: set_takeWhileD)
qed

lemma name_block_ok:
  assumes "malloc_total mal" "name_ok nm"
  shows "keypair_name_block mal nm i = Inr (chosen_name nm i @ [0])"
proof -
  obtain blk where blk: "mal (Suc (length (chosen_name nm i))) = Some blk" "length blk = Suc (length (chosen_name nm i))"
    using assms(1) by (auto simp: malloc_total_def)
  then have p: "buf_put blk 0 (chosen_name nm i @ [0]) = Inr (chosen_name nm i @ [0])" by (simp add: buf_put_def)
  have "(case nm of None \<Rightarrow> Inr ([0x6B, 0x65, 0x79, 0x70, 0x61, 0x69, 0x72] @ [0x30 + i]) | Some b \<Rightarrow> c_string b) = Inr (chosen_name nm i)"
    using assms(2) by (auto simp: chosen_name_def name_ok_def c_string_def split: option.splits)
  then show ?thesis using blk(1) p by (simp add: keypair_name_block_def)
qed

lemma created_ok:
  assumes "data_sized d" "name_ok nm" "unat i \<le> 5"
  shows "kp_ok (created d nm i)" "keypair_index (created d nm i) = i"
  using assms chosen_name_ok [OF assms(2,3)] by (simp_all add: created_def kp_ok_def kp_name_def data_sized_def ctx_sizes_def)

lemma create_body_ok:
  assumes W: "wallet rs ps os s" and l: "length rs < 5" and mal: "malloc_total mal" and cip: "cipher_ok hash salt aes_enc aes_dec"
    and i: "persistent_index i" "i \<notin> keypair_index ` set rs" and nm: "name_ok nm"
    and d: "create (Some BoATIotKeypairInit) = Inr d" "data_sized d" "length (prikey_of d) = 32"
  shows "\<exists>s' k. create_body mal hash salt aes_enc create junk nm BOAT_STORE_TYPE_FLASH i s = (Inr (), s') \<and>
    wallet (rs @ [created d nm i]) (ps @ [(i, k)]) os s' \<and> BoATSoftRotNvramDec hash aes_dec (Some k) (Some 512) = Inr (prikey_of d) \<and> keeps_networks s s'"
proof -
  have ok: "nvram_ok s" and r: "keypairs_in rs s" and p: "prikeys ps s" and o: "onetime_in os s" "onetime_key s" and m: "map fst ps = map keypair_index rs"
    using W by (simp_all add: wallet_def)
  have iu: "i \<noteq> 0" "unat i \<le> 5" using i(1) by (simp_all add: persistent_index_def)
  note c = created_ok [OF d(2) nm iu(2)]
  obtain s1 where s1: "BoATKeypair_DataCtx_Store mal (created d nm i) BOAT_STORE_TYPE_FLASH s = (Inr (), s1)" "nvram_ok s1"
      "area_frame BOAT_STORE_KEYPAIR BOAT_STORE_TYPE_FLASH s s1" "keypairs_in (rs @ [created d nm i]) s1"
    using keypair_store_ok [OF ok mal r l c(1)] c(2) i by auto
  obtain k where k: "BoATSoftRotNvramEnc hash salt aes_enc (Some (prikey_of d)) = Inr k" "prikey_ok (i, k)"
      "BoATSoftRotNvramDec hash aes_dec (Some k) (Some 512) = Inr (prikey_of d)"
    using enc_len_32 [OF cip d(3)] by blast
  have p1: "prikeys ps s1" using prikeys_frame [OF s1(3) _ p] by simp
  have "length ps = length rs" "fst ` set ps = keypair_index ` set rs" using m by (metis length_map, metis list.set_map)
  then obtain s2 where s2: "BoAT_Keystore_store_prikey mal hash salt aes_enc i (Some (prikey_of d)) s1 = (Inr (), s2)" "nvram_ok s2"
      "area_frame BOAT_STORE_PRIKEY BOAT_STORE_TYPE_FLASH s1 s2" "prikeys (ps @ [(i, k)]) s2"
    using store_prikey_ok [OF s1(2) mal p1 _ iu(1) _ k(1,2)] l i(2) by auto
  have "create_body mal hash salt aes_enc create junk nm BOAT_STORE_TYPE_FLASH i s = (Inr (), s2)"
    using d(1) name_block_ok [OF mal nm] s1(1) s2(1)
    by (simp add: create_body_def bindS_def liftS_def catchS_def Let_def created_def prikey_of_def)
  moreover have "wallet (rs @ [created d nm i]) (ps @ [(i, k)]) os s2"
    using s2 keypairs_in_frame [OF s2(3) _ s1(4)] onetime_frame [OF s2(3)] onetime_frame [OF s1(3) _ o(1)]
      onetime_key_frame [OF s2(3)] onetime_key_frame [OF s1(3) _ o(2)] m c(2)
    by (simp add: wallet_def)
  moreover have "keeps_networks s s2" by (rule keeps_networks_frames [OF s1(3) _ s2(3)]) simp_all
  ultimately show ?thesis using k(3) by blast
qed

lemma wallet_length: "wallet rs ps os s \<Longrightarrow> length ps = length rs \<and> length rs \<le> 5 \<and> fst ` set ps = keypair_index ` set rs"
  unfolding wallet_def keypairs_in_def by (metis length_map list.set_map)

lemma create_ok:
  assumes W: "wallet rs ps os s" and l: "length rs < 5" and mal: "malloc_total mal" and cip: "cipher_ok hash salt aes_enc aes_dec"
    and nm: "name_ok nm" and junk: "list_sized junkList"
    and d: "keyCreate (Some cfg) (Some BoATIotKeypairInit) = Inr d" "data_sized d" "length (prikey_of d) = 32"
  shows "\<exists>s' i k. BoatKeypairCreate mal hash salt aes_enc keyCreate junk junkList (Some cfg) nm BOAT_STORE_TYPE_FLASH s = (Inr i, s') \<and>
    i = of_nat (the (free_index rs)) \<and> persistent_index i \<and> i \<notin> keypair_index ` set rs \<and>
    wallet (rs @ [created d nm i]) (ps @ [(i, k)]) os s' \<and> BoATSoftRotNvramDec hash aes_dec (Some k) (Some 512) = Inr (prikey_of d) \<and> keeps_networks s s'"
proof -
  obtain j where j: "free_index rs = Some j" "persistent_index (of_nat j)" "(of_nat j :: u8) \<notin> keypair_index ` set rs"
    using free_index_exists [OF l] by blast
  have g: "BoATKeypair_GetFreeIndex_From_Persistent mal junkList s = Inr j"
    using free_index_ok [OF _ mal _ _ junk, of s rs os] W l j(1) by (simp add: wallet_def)
  note create_body_ok [where create = "keyCreate (Some cfg)" and junk = junk, OF W l mal cip j(2,3) nm d]
  then obtain s' k where c: "create_body mal hash salt aes_enc (keyCreate (Some cfg)) junk nm BOAT_STORE_TYPE_FLASH (of_nat j) s = (Inr (), s')"
      "wallet (rs @ [created d nm (of_nat j)]) (ps @ [(of_nat j, k)]) os s'" "BoATSoftRotNvramDec hash aes_dec (Some k) (Some 512) = Inr (prikey_of d)" "keeps_networks s s'"
    by blast
  then have "BoatKeypairCreate mal hash salt aes_enc keyCreate junk junkList (Some cfg) nm BOAT_STORE_TYPE_FLASH s = (Inr (of_nat j), s')"
    using g by (simp add: BoatKeypairCreate_def)
  then show ?thesis
    by (intro exI [of _ s'] exI [of _ "of_nat j"] exI [of _ k]) (simp add: j c)
qed

text \<open>
  C6: Creating a persistent keypair: on a device whose stores agree, with fewer than five keypairs, a storable name and a created
  32-byte key, \<open>BoatKeypairCreate\<close> returns the lowest index from 1 to 5 that is free; afterwards
  both stores agree and hold the old entries and the new one, looking the keypair up by its index gives what was created, and the keystore
  decrypts the private key that was created.
\<close>

theorem create_keypair:
  assumes "wallet rs ps os s" "length rs < 5" "malloc_total mal" "cipher_ok hash salt aes_enc aes_dec" "name_ok nm" "list_sized junkList"
    "BoatPort_keyCreate generation getPubkey pkcs2native (Some cfg) (Some BoATIotKeypairInit) = Inr d" "length (prikey_of d) = 32"
  shows "\<exists>s' i k. BoatKeypairCreate mal hash salt aes_enc (BoatPort_keyCreate generation getPubkey pkcs2native) junk junkList
       (Some cfg) nm BOAT_STORE_TYPE_FLASH s = (Inr i, s') \<and>
     i \<in> of_nat ` {1..5} - keypair_index ` set rs \<and> (\<forall>j < unat i. j = 0 \<or> (of_nat j :: u8) \<in> keypair_index ` set rs) \<and>
     wallet (rs @ [created d nm i]) (ps @ [(i, k)]) os s' \<and>
     BoAT_GetPirkeyByIndex hash aes_dec i True s' = Inr (prikey_of d) \<and>
     (ctx_sizes old \<longrightarrow> BoATKeypair_GetKeypairByIndex mal i s' (Some old) = (Inr (), Some (created d nm i)))"
proof -
  obtain s' i k where c: "BoatKeypairCreate mal hash salt aes_enc (BoatPort_keyCreate generation getPubkey pkcs2native) junk junkList
       (Some cfg) nm BOAT_STORE_TYPE_FLASH s = (Inr i, s')" "i = of_nat (the (free_index rs))" "persistent_index i" "i \<notin> keypair_index ` set rs"
      "wallet (rs @ [created d nm i]) (ps @ [(i, k)]) os s'" "BoATSoftRotNvramDec hash aes_dec (Some k) (Some 512) = Inr (prikey_of d)"
    using create_ok [where keyCreate = "BoatPort_keyCreate generation getPubkey pkcs2native" and junk = junk,
        OF assms(1-7) keyCreate_sized [OF assms(7)] assms(8)] by metis
  obtain j where j: "free_index rs = Some j" using free_index_exists [OF assms(2)] by blast
  have "\<exists>n < 5. j = n + 1 \<and> (\<forall>m < n. (of_nat (m + 1) :: u8) \<in> keypair_index ` set rs)"
    using j by (auto simp: free_index_def find_Some_iff)
  then obtain n where n: "n < 5" "j = n + 1" "\<And>m. m < n \<Longrightarrow> (of_nat (m + 1) :: u8) \<in> keypair_index ` set rs" by blast
  have "i = of_nat (n + 1)" using c(2) j n(2) by simp
  then have ui: "unat i = n + 1" using n(1) by (simp only: unat_of_nat) simp
  have low: "m = 0 \<or> (of_nat m :: u8) \<in> keypair_index ` set rs" if "m < unat i" for m
    using n(3) [of "m - 1"] that ui by (cases m) auto
  have w: "nvram_ok s'" "prikeys (ps @ [(i, k)]) s'" "keypairs_in (rs @ [created d nm i]) s'" using c(5) by (simp_all add: wallet_def)
  have "BoAT_GetPirkeyByIndex hash aes_dec i True s' = Inr (prikey_of d)"
    using get_prikey_found [OF w(1,2), of i k] c(3,6) by (simp add: persistent_index_def)
  moreover have "BoATKeypair_GetKeypairByIndex mal i s' (Some old) = (Inr (), Some (created d nm i))" if "ctx_sizes old"
    using get_keypair_found [OF w(1) assms(3) w(3) _ that, of "created d nm i"] by (simp add: created_def)
  ultimately show ?thesis using c low persistent_index_of_nat [of i] by blast
qed

lemma blank_wallet: "wallet [] [] [] blank_device" "wallet [] [] [] blank_device_large"
proof -
  have c: "area_content f t blank_device_large = area_content f t blank_device" if "f \<noteq> BOAT_STORE_NETWORK" for f t
    using that by (cases f) (simp_all add: area_content_def blank_device_large_def file_bytes_def)
  have "keypairs_in [] blank_device" by (simp add: keypairs_in_def holds_def area_num_def area_content_def blank_device_def file_bytes_def)
  moreover have "onetime_in [] blank_device"
    by (simp add: onetime_in_def holds_def area_num_def area_content_def blank_device_def utility_check_NumBytes_def)
  moreover have "onetime_key blank_device"
    unfolding onetime_key_def
    by (intro exI [of _ "[]"]) (simp add: holds_def area_num_def area_content_def blank_device_def utility_check_NumBytes_def)
  ultimately show w: "wallet [] [] [] blank_device" using blank_device_ok(1) no_prikeys by (simp add: wallet_def)
  then show "wallet [] [] [] blank_device_large"
    using blank_device_ok(2) by (simp add: wallet_def keypairs_in_def onetime_in_def onetime_key_def prikeys_def c)
qed

lemma zero_list_sized: "list_sized zero_list"
  by (simp add: list_sized_def zero_list_def entries_sized_def BoATIotKeypairInit_def ctx_sizes_def list_all_iff)

lemma native_create: "BoatPort_keyCreate g (\<lambda>t f k. Inr (replicate 64 9)) pk (Some native_cfg) (Some BoATIotKeypairInit) = Inr native_data"
    "length (prikey_of native_data) = 32" "prikey_of native_data = replicate 32 7"
  by (simp_all add: BoatPort_keyCreate_def native_cfg_def sBoatPort_keyCreate_external_injection_native_def set_prikey_def set_pubkey_def
      BoATIotKeypairInit_def buf_put_def native_data_def prikey_of_def)

theorem create_keypair_witness:
  "\<exists>s' i. BoatKeypairCreate heap_all (\<lambda>xs. replicate 32 5) (replicate 16 9) (\<lambda>iv key d. Inr (map (\<lambda>b. b XOR 0x55) d))
       (BoatPort_keyCreate (\<lambda>t f. Inl UB) (\<lambda>t f k. Inr (replicate 64 9)) (\<lambda>k. Inl UB)) (prikeyCtx BoATIotKeypairInit) zero_list
       (Some native_cfg) None BOAT_STORE_TYPE_FLASH blank_device = (Inr i, s') \<and>
     BoAT_GetPirkeyByIndex (\<lambda>xs. replicate 32 5) (\<lambda>iv key d. Inr (map (\<lambda>b. b XOR 0x55) d)) i True s' = Inr (replicate 32 7)"
  using create_keypair [OF blank_wallet(1) _ heap_all_total xor_cipher_ok _ zero_list_sized native_create(1,2), of None] native_create(3)
  by (fastforce simp: name_ok_def)

text \<open>
  C7: Deleting a persistent keypair removes it and its private key and nothing else: the other keypairs and
  private keys keep their order and content, the one-time keypair stays, and the index cannot be looked up any more.
\<close>

theorem delete_keypair:
  assumes "wallet (xs @ c # ys) (us @ (keypair_index c, k) # vs) os s" "length us = length xs" "malloc_total mal" "ctx_sizes junk"
  shows "\<exists>s' e. BoATIotKeypairDelete mal junk (keypair_index c) s = (Inr (), s') \<and> wallet (xs @ ys) (us @ vs) os s' \<and>
     BoATKeypair_GetKeypairByIndex mal (keypair_index c) s' (Some junk) = (Inl (Err e), Some junk)"
proof -
  obtain s' where s': "BoATIotKeypairDelete mal junk (keypair_index c) s = (Inr (), s')" "wallet (xs @ ys) (us @ vs) os s'"
    using delete_keypair_ok [OF assms] by blast
  have "keypair_index c \<notin> keypair_index ` set (xs @ ys)" "persistent_index (keypair_index c)"
    using assms(1) by (auto simp: wallet_def keypairs_in_def)
  then obtain e where "BoATKeypair_GetKeypairByIndex mal (keypair_index c) s' (Some junk) = (Inl (Err e), Some junk)"
    using get_keypair_missing [OF _ assms(3) _ _ _ assms(4)] s'(2) unfolding wallet_def by blast
  then show ?thesis using s' by blast
qed

lemma one_keypair: "\<exists>s c k. wallet [c] [(keypair_index c, k)] [] s"
proof -
  let ?K = "BoatPort_keyCreate (\<lambda>t f. Inl UB) (\<lambda>t f k. Inr (replicate 64 9)) (\<lambda>k. Inl UB)"
  have c: "?K (Some native_cfg) (Some BoATIotKeypairInit) = Inr native_data" by (rule native_create(1))
  have n: "name_ok None" by (simp add: name_ok_def)
  from create_ok [where keyCreate = ?K, OF blank_wallet(1) _ heap_all_total xor_cipher_ok n zero_list_sized c keyCreate_sized [OF c] native_create(2)]
  obtain s i k where "wallet ([] @ [created native_data None i]) ([] @ [(i, k)]) [] s"
    by fastforce
  then have "wallet [created native_data None i] [(i, k)] [] s" by simp
  moreover have "keypair_index (created native_data None i) = i" by (simp add: created_def)
  ultimately show ?thesis by (metis append_Nil)
qed

theorem delete_keypair_witness:
  "\<exists>s c s'. keypairs_in [c] s \<and> BoATIotKeypairDelete heap_all (prikeyCtx BoATIotKeypairInit) (keypair_index c) s = (Inr (), s') \<and> keypairs_in [] s'"
proof -
  obtain s c k where w: "wallet [c] [(keypair_index c, k)] [] s" using one_keypair by blast
  have "ctx_sizes (prikeyCtx BoATIotKeypairInit)" by (simp add: ctx_sizes_def BoATIotKeypairInit_def)
  from delete_keypair [of "[]" c "[]" "[]" k "[]" "[]" s, OF _ _ heap_all_total this] w
  show ?thesis by (auto simp: wallet_def)
qed

text \<open>
  C35: The keypair list is complete: \<open>BoATKeypair_GetKeypairList\<close> fills the list with the persistent keypairs in
  storage order followed by the one-time keypair, and reports how many there are.
\<close>

theorem keypair_list_complete:
  assumes "wallet rs ps os s" "malloc_total mal" "list_sized kl"
  shows "\<exists>kl'. BoATKeypair_GetKeypairList mal s (Some kl) = (Inr (), Some kl') \<and> unat (keypairPersistentNum kl') = length rs \<and>
     unat (keypairNum kl') = length rs + length os \<and>
     map prikeyCtx (take (unat (keypairNum kl')) (keypairs kl')) = rs @ os"
proof -
  have w: "nvram_ok s" "keypairs_in rs s" "onetime_in os s" using assms(1) by (simp_all add: wallet_def)
  let ?E = "fill_slots (length rs) os (fill_slots 0 rs (keypairs kl))"
  have l: "length rs \<le> 5" "length os \<le> 1" "length (keypairs kl) = 6" using w assms(3) by (simp_all add: keypairs_in_def onetime_in_def list_sized_def)
  have "map prikeyCtx (take (length rs + length os) ?E) = rs @ os"
    using fill_slots_take [of "length rs" os "fill_slots 0 rs (keypairs kl)"] fill_slots_take [of 0 rs "keypairs kl"] l by simp
  moreover have "unat (of_nat (length rs) + of_nat (length os) :: u8) = length rs + length os"
    using l by (simp add: unat_of_nat flip: of_nat_add)
  moreover have "unat (of_nat (length rs) :: u8) = length rs" using l by (simp add: unat_of_nat)
  ultimately show ?thesis using keypair_list_filled [OF w(1) assms(2) w(2,3) assms(3)] by simp
qed

theorem keypair_list_complete_witness:
  "\<exists>s c kl'. keypairs_in [c] s \<and> BoATKeypair_GetKeypairList heap_all s (Some zero_list) = (Inr (), Some kl') \<and> prikeyCtx (hd (keypairs kl')) = c"
proof -
  obtain s c k where w: "wallet [c] [(keypair_index c, k)] [] s" using one_keypair by auto
  obtain kl' where kl: "BoATKeypair_GetKeypairList heap_all s (Some zero_list) = (Inr (), Some kl')" "unat (keypairNum kl') = 1"
      "map prikeyCtx (take (unat (keypairNum kl')) (keypairs kl')) = [c]"
    using keypair_list_complete [OF w heap_all_total zero_list_sized] by auto
  then have "prikeyCtx (hd (keypairs kl')) = c" by (cases "keypairs kl'") auto
  then show ?thesis using w kl(1) unfolding wallet_def by blast
qed

subsection \<open>One-time keypairs and reachable devices\<close>

lemmas onetime_key_area = area_is_storage [where f = BOAT_STORE_PRIKEY and t = BOAT_STORE_TYPE_RAM]

lemma onetime_store_ok:
  assumes ok: "nvram_ok s" and mal: "malloc_total mal" and os: "onetime_in os s" and c: "kp_ok c" "keypair_index c = 0"
  shows "\<exists>s'. BoATKeypair_DataCtx_Store mal c BOAT_STORE_TYPE_RAM s = (Inr (), s') \<and> nvram_ok s' \<and>
    area_frame BOAT_STORE_KEYPAIR BOAT_STORE_TYPE_RAM s s' \<and> onetime_in [c] s'"
proof -
  note A = onetime_area [OF mal]
  obtain num where num: "read_num (area_rd BOAT_STORE_KEYPAIR BOAT_STORE_TYPE_RAM) s = Inr num" "unat num \<le> 1"
    using storage_area.read_num_ok [OF A ok] os by (auto simp: holds_def onetime_in_def)
  have sz: "length (keypair_enc c) \<le> 142" using keypair_enc_size [OF c(1)] by simp
  then obtain s1 s2 where w: "area_wr mal BOAT_STORE_KEYPAIR BOAT_STORE_TYPE_RAM 4 (keypair_enc c) s = (Inr (), s1)"
      "area_wr mal BOAT_STORE_KEYPAIR BOAT_STORE_TYPE_RAM 0 (utility_get_NumBytes 1) s1 = (Inr (), s2)"
      "nvram_ok s2" "area_frame BOAT_STORE_KEYPAIR BOAT_STORE_TYPE_RAM s s2" "holds keypair_enc [c] (onetime_content s2)"
    using storage_area.first_record [OF A ok, of keypair_enc c] by auto
  have ul: "unat (of_nat (length (keypair_enc c)) :: u32) = length (keypair_enc c)" using sz by (intro unat_of_nat_u32) simp
  obtain blk where blk: "mal (length (keypair_enc c)) = Some blk" "length blk = length (keypair_enc c)" using mal by (auto simp: malloc_total_def)
  have "BoATKeypair_DataCtx_Store mal c BOAT_STORE_TYPE_RAM s = (Inr (), s2)"
    using num DataCtx_Len_ok [OF c(1)] ul blk DataCtx_Data_ok [OF mal c(1) blk(2)] w(1,2) sz
      store_prefix [of "keypair_enc c" mal BOAT_STORE_KEYPAIR _ "[]" BOAT_STORE_TYPE_RAM]
    by (simp add: BoATKeypair_DataCtx_Store_def Let_def bindS_def)
  then show ?thesis using w(3-5) c by (auto simp: onetime_in_def)
qed

lemma onetime_prikey_ok:
  assumes ok: "nvram_ok s" and mal: "malloc_total mal" and ts: "onetime_key s"
    and c: "BoATSoftRotNvramEnc hash salt aes_enc prikey = Inr c" "prikey_ok (0, c)"
  shows "\<exists>s'. BoAT_Keystore_store_prikey mal hash salt aes_enc 0 prikey s = (Inr (), s') \<and> nvram_ok s' \<and>
    area_frame BOAT_STORE_PRIKEY BOAT_STORE_TYPE_RAM s s' \<and> onetime_key s'"
proof -
  note A = onetime_key_area [OF mal]
  obtain num where num: "read_num (area_rd BOAT_STORE_PRIKEY BOAT_STORE_TYPE_RAM) s = Inr num" "unat num \<le> 1"
    using storage_area.read_num_ok [OF A ok] ts by (auto simp: holds_def onetime_key_def)
  obtain zs where b: "build_prikey_record mal hash salt aes_enc 0 prikey =
      Inr (prikey_enc (0, c) @ zs, of_nat (length (prikey_enc (0, c))))"
    using build_prikey_record_ok [OF mal c] by blast
  have sz: "length (prikey_enc (0, c)) \<le> 99" "prikey_enc (0, c) \<noteq> []" using prikey_enc_size [OF c(2)] by auto
  then obtain s1 s2 where w: "area_wr mal BOAT_STORE_PRIKEY BOAT_STORE_TYPE_RAM 4 (prikey_enc (0, c)) s = (Inr (), s1)"
      "area_wr mal BOAT_STORE_PRIKEY BOAT_STORE_TYPE_RAM 0 (utility_get_NumBytes 1) s1 = (Inr (), s2)"
      "nvram_ok s2" "area_frame BOAT_STORE_PRIKEY BOAT_STORE_TYPE_RAM s s2"
      "holds prikey_enc [(0, c)] (area_content BOAT_STORE_PRIKEY BOAT_STORE_TYPE_RAM s2)"
    using storage_area.first_record [OF A ok, of prikey_enc "(0, c)"] by auto
  have "BoAT_Keystore_store_prikey mal hash salt aes_enc 0 prikey s = (Inr (), s2)"
    using num b w(1,2) sz(1) store_prefix [of "prikey_enc (0, c)" mal BOAT_STORE_PRIKEY _ zs BOAT_STORE_TYPE_RAM]
    by (simp add: BoAT_Keystore_store_prikey_def storetype_of_def Let_def bindS_def)
  moreover have "onetime_key s2" unfolding onetime_key_def using w(5) c(2) by (intro exI [of _ "[(0, c)]"]) simp
  ultimately show ?thesis using w(3,4) by blast
qed

lemma create_onetime_ok:
  assumes W: "wallet rs ps os s" and mal: "malloc_total mal" and cip: "cipher_ok hash salt aes_enc aes_dec" and nm: "name_ok nm"
    and d: "keyCreate (Some cfg) (Some BoATIotKeypairInit) = Inr d" "data_sized d" "length (prikey_of d) = 32"
  shows "\<exists>s'. BoatKeypairCreate mal hash salt aes_enc keyCreate junk junkList (Some cfg) nm BOAT_STORE_TYPE_RAM s = (Inr 0, s') \<and>
    wallet rs ps [created d nm 0] s' \<and> keeps_networks s s'"
proof -
  have ok: "nvram_ok s" and r: "keypairs_in rs s" and p: "prikeys ps s" and o: "onetime_in os s" "onetime_key s" and m: "map fst ps = map keypair_index rs"
    using W by (simp_all add: wallet_def)
  note c = created_ok [OF d(2) nm, of 0, simplified]
  obtain s1 where s1: "BoATKeypair_DataCtx_Store mal (created d nm 0) BOAT_STORE_TYPE_RAM s = (Inr (), s1)" "nvram_ok s1"
      "area_frame BOAT_STORE_KEYPAIR BOAT_STORE_TYPE_RAM s s1" "onetime_in [created d nm 0] s1"
    using onetime_store_ok [OF ok mal o(1) c] by blast
  obtain k where k: "BoATSoftRotNvramEnc hash salt aes_enc (Some (prikey_of d)) = Inr k" "prikey_ok (0, k)"
    using enc_len_32 [OF cip d(3)] by blast
  have "onetime_key s1" using onetime_key_frame [OF s1(3) _ o(2)] by simp
  then obtain s2 where s2: "BoAT_Keystore_store_prikey mal hash salt aes_enc 0 (Some (prikey_of d)) s1 = (Inr (), s2)" "nvram_ok s2"
      "area_frame BOAT_STORE_PRIKEY BOAT_STORE_TYPE_RAM s1 s2" "onetime_key s2"
    using onetime_prikey_ok [OF s1(2) mal _ k] by blast
  have "create_body mal hash salt aes_enc (keyCreate (Some cfg)) junk nm BOAT_STORE_TYPE_RAM 0 s = (Inr (), s2)"
    using d(1) name_block_ok [OF mal nm] s1(1) s2(1)
    by (simp add: create_body_def bindS_def liftS_def catchS_def Let_def created_def prikey_of_def)
  then have "BoatKeypairCreate mal hash salt aes_enc keyCreate junk junkList (Some cfg) nm BOAT_STORE_TYPE_RAM s = (Inr 0, s2)"
    by (simp add: BoatKeypairCreate_def)
  moreover have "wallet rs ps [created d nm 0] s2"
    using s2 keypairs_in_frame [OF s2(3)] keypairs_in_frame [OF s1(3) _ r] prikeys_frame [OF s2(3)] prikeys_frame [OF s1(3) _ p]
      onetime_frame [OF s2(3) _ s1(4)] m by (simp add: wallet_def)
  moreover have "keeps_networks s s2" by (rule keeps_networks_frames [OF s1(3) _ s2(3)]) simp_all
  ultimately show ?thesis by blast
qed

lemma delete_onetime:
  assumes W: "wallet rs ps os s" and mal: "malloc_total mal"
  shows "wallet rs ps [] (snd (BoATIotKeypairDelete mal junk 0 s)) \<and> keeps_networks s (snd (BoATIotKeypairDelete mal junk 0 s)) \<or>
    snd (BoATIotKeypairDelete mal junk 0 s) = s"
proof -
  note A = onetime_area [OF mal]
  have ok: "nvram_ok s" and r: "keypairs_in rs s" and p: "prikeys ps s" and o: "onetime_key s" and m: "map fst ps = map keypair_index rs"
    using W by (simp_all add: wallet_def)
  obtain s' where s': "area_wr mal BOAT_STORE_KEYPAIR BOAT_STORE_TYPE_RAM 0 [0, 0, 0, 0] s = (Inr (), s')" "nvram_ok s'"
      "area_frame BOAT_STORE_KEYPAIR BOAT_STORE_TYPE_RAM s s'" "onetime_content s' = overlay (onetime_content s) 0 [0, 0, 0, 0]"
    using storage_area.wr_ok [OF A ok, of "[0, 0, 0, 0]" 0] by auto
  have "onetime_in [] s'"
    by (simp add: onetime_in_def holds_def s'(4) overlay_head area_num_def utility_check_NumBytes_def)
  then have "wallet rs ps [] s' \<and> keeps_networks s s'"
    using s' keeps_networks_frame [OF s'(3)] keypairs_in_frame [OF s'(3) _ r] prikeys_frame [OF s'(3) _ p] onetime_key_frame [OF s'(3) _ o] m
    by (simp add: wallet_def)
  then show ?thesis
    using s'(1) by (auto simp: BoATIotKeypairDelete_def storetype_of_def Let_def split: sum.splits)
qed

context storage_area
begin

lemma find_keypair_none:
  assumes "ok s" "content s = pre @ concat (map keypair_enc xs) @ post" "list_all kp_ok xs" "i \<notin> keypair_index ` set xs"
  shows "find_keypair rd (length xs) n i (of_nat (length pre)) s = Inr None"
  using assms(2-4)
proof (induction xs arbitrary: pre n)
  case (Cons x xs)
  have x: "kp_ok x" and c: "content s = pre @ keypair_enc x @ concat (map keypair_enc xs) @ post"
    using Cons.prems by simp_all
  note h = keypair_head_at [OF assms(1) c x refl refl refl]
  have IH: "find_keypair rd (length xs) (n + 1) i (of_nat (length (pre @ keypair_enc x))) s = Inr None"
    using Cons.prems by (intro Cons.IH) simp_all
  have o: "of_nat (length pre) + (of_nat (length (L_bytes (of_nat (length (keypair_body x))))) + of_nat (length (keypair_body x))) =
      (of_nat (length (pre @ keypair_enc x)) :: u32)"
    by (simp add: keypair_enc_def length_lv)
  have ne: "keypair_index x \<noteq> i" using Cons.prems(3) by auto
  show ?case using h(1,2,6) IH ne unfolding o [symmetric] by (auto simp: add.assoc)
qed simp

end

lemma delete_missing:
  assumes W: "wallet rs ps os s" and mal: "malloc_total mal" and i: "i \<notin> keypair_index ` set rs" "i \<noteq> 0"
  shows "\<exists>e. BoATIotKeypairDelete mal junk i s = (Inl (Err e), s)"
proof -
  note A = keypair_area [OF mal]
  let ?rd = "area_rd BOAT_STORE_KEYPAIR BOAT_STORE_TYPE_FLASH"
  have ok: "nvram_ok s" and r: "keypairs_in rs s" using W by (simp_all add: wallet_def)
  show ?thesis
  proof (cases "rs = []")
    case True
    then have "\<exists>num. read_num ?rd s = Inr num \<and> num = 0"
      using storage_area.read_num_ok [OF A ok] r by (auto simp: keypairs_in_def holds_def word_unat_eq_iff)
    then show ?thesis
      using i(2) by (auto simp: BoATIotKeypairDelete_def storetype_flash Let_def read_num_def split: sum.splits fail.splits)
  next
    case False
    note p = keypairs_nonempty [OF ok r False]
    obtain rest where cc: "keypair_content s = utility_get_NumBytes (of_nat (length rs)) @ concat (map keypair_enc rs) @ rest"
      using p(1) by blast
    have "find_keypair ?rd (length rs) 0 i 4 s = Inr None"
      using storage_area.find_keypair_none [OF A ok cc _ i(1), of 0] r by (simp add: keypairs_in_def)
    then show ?thesis using p(2-4) NumBytes_get i(2) by (simp add: BoATIotKeypairDelete_def storetype_flash Let_def)
  qed
qed

lemma delete_keeps_wallet:
  assumes W: "wallet rs ps os s" and mal: "malloc_total mal" and junk: "ctx_sizes junk"
  shows "(\<exists>rs' ps' os'. wallet rs' ps' os' (snd (BoATIotKeypairDelete mal junk i s))) \<and> keeps_networks s (snd (BoATIotKeypairDelete mal junk i s))"
proof (cases "i \<in> keypair_index ` set rs")
  case True
  then obtain xs c ys where rs: "rs = xs @ c # ys" and c: "keypair_index c = i" by (auto dest: split_list)
  have m: "map fst ps = map keypair_index xs @ i # map keypair_index ys" using W by (simp add: wallet_def rs c)
  then obtain us p vs where ps: "ps = us @ p # vs" "map fst us = map keypair_index xs" "fst p = i"
    by (auto simp: map_eq_append_conv map_eq_Cons_conv)
  have "length us = length xs" using ps(2) by (metis length_map)
  moreover have "wallet (xs @ c # ys) (us @ (keypair_index c, snd p) # vs) os s"
    using W ps(3) by (cases p) (simp add: rs ps(1) c)
  ultimately obtain s' where "BoATIotKeypairDelete mal junk i s = (Inr (), s')" "wallet (xs @ ys) (us @ vs) os s'" "keeps_networks s s'"
    using delete_keypair_ok [OF _ _ mal junk, of xs c ys us "snd p" vs os s] c by blast
  then show ?thesis by (metis snd_conv)
next
  case False
  then show ?thesis
  proof (cases "i = 0")
    case True
    then show ?thesis using delete_onetime [OF W mal, of junk] W keeps_networks_refl by metis
  next
    case False
    then show ?thesis using delete_missing [OF W mal \<open>i \<notin> _\<close>] W keeps_networks_refl by (metis snd_conv)
  qed
qed

lemma create_keeps_wallet:
  assumes W: "wallet rs ps os s" and mal: "malloc_total mal" and cip: "cipher_ok hash salt aes_enc aes_dec" and nm: "name_ok nm"
    and junk: "list_sized junkList" and sz: "\<And>d. keyCreate (Some cfg) (Some BoATIotKeypairInit) = Inr d \<Longrightarrow> data_sized d \<and> length (prikey_of d) = 32"
  shows "(\<exists>rs' ps' os'. wallet rs' ps' os' (snd (BoatKeypairCreate mal hash salt aes_enc keyCreate ctx junkList (Some cfg) nm t s))) \<and>
    keeps_networks s (snd (BoatKeypairCreate mal hash salt aes_enc keyCreate ctx junkList (Some cfg) nm t s))"
proof (cases "keyCreate (Some cfg) (Some BoATIotKeypairInit)")
  case (Inl e)
  then have cb: "create_body mal hash salt aes_enc (keyCreate (Some cfg)) ctx nm t i s = (Inl e, s)" for i
    by (simp add: create_body_def bindS_def liftS_def)
  have "snd (BoatKeypairCreate mal hash salt aes_enc keyCreate ctx junkList (Some cfg) nm t s) = s"
    unfolding BoatKeypairCreate_def cb by (cases e) (simp_all split: sum.split)
  then show ?thesis using W keeps_networks_refl by metis
next
  case (Inr d)
  note d = Inr sz [OF Inr, THEN conjunct1] sz [OF Inr, THEN conjunct2]
  show ?thesis
  proof (cases t)
    case BOAT_STORE_TYPE_UNKNOWN
    then show ?thesis using W keeps_networks_refl by (auto simp: BoatKeypairCreate_def)
  next
    case BOAT_STORE_TYPE_RAM
    obtain s' where "BoatKeypairCreate mal hash salt aes_enc keyCreate ctx junkList (Some cfg) nm BOAT_STORE_TYPE_RAM s = (Inr 0, s')"
        "wallet rs ps [created d nm 0] s'" "keeps_networks s s'"
      using create_onetime_ok [where keyCreate = keyCreate and cfg = cfg and junk = ctx and junkList = junkList, OF W mal cip nm d] by blast
    then show ?thesis unfolding BOAT_STORE_TYPE_RAM by (metis snd_conv)
  next
    case BOAT_STORE_TYPE_FLASH
    have l5: "length rs \<le> 5" using wallet_length [OF W] by simp
    show ?thesis
    proof (cases "length rs < 5")
      case True
      obtain s' i k where "BoatKeypairCreate mal hash salt aes_enc keyCreate ctx junkList (Some cfg) nm BOAT_STORE_TYPE_FLASH s = (Inr i, s')"
          "wallet (rs @ [created d nm i]) (ps @ [(i, k)]) os s'" "keeps_networks s s'"
        using create_ok [where keyCreate = keyCreate and cfg = cfg and junk = ctx, OF W True mal cip nm junk d] by blast
      then show ?thesis unfolding BOAT_STORE_TYPE_FLASH by (metis snd_conv)
    next
      case False
      then have "BoATKeypair_GetFreeIndex_From_Persistent mal junkList s = Inl (Err BOAT_ERROR_KEYPAIR_KEY_INDEX_EXCEED)"
        using free_index_ok [OF _ mal _ _ junk, of s rs os] W l5 by (simp add: wallet_def)
      then have "snd (BoatKeypairCreate mal hash salt aes_enc keyCreate ctx junkList (Some cfg) nm t s) = s"
        by (simp add: BoatKeypairCreate_def BOAT_STORE_TYPE_FLASH)
      then show ?thesis using W keeps_networks_refl by metis
    qed
  qed
qed

lemma generated_key_length:
  assumes "BoatPort_keyCreate (\<lambda>t f. Inr (replicate 32 7, replicate 512 9)) (\<lambda>t f k. Inl UB) (\<lambda>k. Inl UB) (Some cfg) (Some BoATIotKeypairInit) = Inr d"
  shows "length (prikey_of d) = 32"
  using assms by (auto simp: BoatPort_keyCreate_def sBoatPort_keyCreate_internal_generation_def BoAT_Keystore_Gen_Keypair_def
      sBoatPort_keyCreate_external_injection_native_def sBoatPort_keyCreate_external_injection_pkcs_def
      set_prikey_def set_pubkey_def buf_put_def buf_get_def BoATIotKeypairInit_def prikey_of_def bindR_eq_Inr
      split: BoatKeypairPriKeyGenMode.splits BoatKeypairPriKeyFormat.splits option.splits if_splits)

text \<open>
  The devices that calls of \<open>BoatKeypairCreate\<close> and \<open>BoATIotKeypairDelete\<close> lead to, from a blank one, in any order and
  with any outcome. Names are storable and the key creation, when it succeeds, delivers 32-byte keys.
\<close>

inductive wallet_reach ::
  "(nat \<Rightarrow> bytes option) \<Rightarrow> (bytes \<Rightarrow> bytes) \<Rightarrow> bytes \<Rightarrow> (bytes \<Rightarrow> bytes \<Rightarrow> bytes \<Rightarrow> bytes res) \<Rightarrow>
   (BoatKeypairPriKeyCtx_config option \<Rightarrow> BoatKeypairDataCtx option \<Rightarrow> BoatKeypairDataCtx res) \<Rightarrow> nvram \<Rightarrow> bool"
  for mal hash salt aes_enc keyCreate where
  blank: "wallet_reach mal hash salt aes_enc keyCreate blank_device"
| create: "wallet_reach mal hash salt aes_enc keyCreate s \<Longrightarrow> name_ok nm \<Longrightarrow> list_sized junkList \<Longrightarrow>
     BoatKeypairCreate mal hash salt aes_enc keyCreate ctx junkList (Some cfg) nm t s = (r, s') \<Longrightarrow>
     wallet_reach mal hash salt aes_enc keyCreate s'"
| delete: "wallet_reach mal hash salt aes_enc keyCreate s \<Longrightarrow> ctx_sizes ctx \<Longrightarrow>
     BoATIotKeypairDelete mal ctx i s = (r', s') \<Longrightarrow> wallet_reach mal hash salt aes_enc keyCreate s'"

text \<open>
  The two stores never come apart: on every device that creations and deletions of keypairs lead to, whatever
  they return, the keypair area and the private-key area hold the same indices in the same order, all different and between 1 and 5.
\<close>

theorem wallet_invariant:
  assumes "wallet_reach mal hash salt aes_enc (BoatPort_keyCreate generation getPubkey pkcs2native) s"
    "malloc_total mal" "cipher_ok hash salt aes_enc aes_dec"
    "\<And>cfg d. BoatPort_keyCreate generation getPubkey pkcs2native (Some cfg) (Some BoATIotKeypairInit) = Inr d \<Longrightarrow> length (prikey_of d) = 32"
  shows "\<exists>rs ps os. wallet rs ps os s"
  using assms(1)
proof (induction rule: wallet_reach.induct)
  case blank
  then show ?case using blank_wallet by blast
next
  case (create s nm junkList ctx cfg t r s')
  then obtain rs ps os where W: "wallet rs ps os s" by blast
  have "\<exists>rs' ps' os'. wallet rs' ps' os' (snd (BoatKeypairCreate mal hash salt aes_enc (BoatPort_keyCreate generation getPubkey pkcs2native)
      ctx junkList (Some cfg) nm t s))"
    by (rule conjunct1 [OF create_keeps_wallet [OF W assms(2,3) create.hyps(2,3)]]) (use keyCreate_sized assms(4) in blast)
  then show ?case using create.hyps(4) by simp
next
  case (delete s ctx i r' s')
  then obtain rs ps os where W: "wallet rs ps os s" by blast
  show ?case using delete_keeps_wallet [OF W assms(2) delete.hyps(2), of i] delete.hyps(3) by simp
qed

theorem wallet_invariant_witness:
  "\<exists>r s rs ps os. BoatKeypairCreate heap_all (\<lambda>xs. replicate 32 5) (replicate 16 9) (\<lambda>iv key d. Inr (map (\<lambda>b. b XOR 0x55) d))
       (BoatPort_keyCreate (\<lambda>t f. Inr (replicate 32 7, replicate 512 9)) (\<lambda>t f k. Inl UB) (\<lambda>k. Inl UB)) (prikeyCtx BoATIotKeypairInit) zero_list
       (Some native_cfg) None BOAT_STORE_TYPE_FLASH blank_device = (r, s) \<and> wallet rs ps os s"
proof -
  let ?K = "BoatPort_keyCreate (\<lambda>t f. Inr (replicate 32 7, replicate 512 9)) (\<lambda>t f k. Inl UB) (\<lambda>k. Inl UB)"
  let ?E = "(\<lambda>iv key d. Inr (map (\<lambda>b. b XOR 0x55) d)) :: bytes \<Rightarrow> bytes \<Rightarrow> bytes \<Rightarrow> bytes res"
  obtain r s where c: "BoatKeypairCreate heap_all (\<lambda>xs. replicate 32 5) (replicate 16 9) ?E ?K (prikeyCtx BoATIotKeypairInit) zero_list
       (Some native_cfg) None BOAT_STORE_TYPE_FLASH blank_device = (r, s)" by (meson surj_pair)
  have "name_ok None" by (simp add: name_ok_def)
  from wallet_reach.create [OF wallet_reach.blank this zero_list_sized c]
  have "\<exists>rs ps os. wallet rs ps os s" by (rule wallet_invariant [OF _ heap_all_total xor_cipher_ok generated_key_length])
  then show ?thesis using c by blast
qed

end
