(* ===== verification/Boat_Network.thy ===== *)
theory Boat_Network
  imports Boat_Records
begin

text \<open>
  The network stores of \<open>sdk/network\<close>. The six stores of the Ethereum family (Ethereum, PlatON, PlatONE, FISCO BCOS,
  Venachain, Quorum) are the same program over the same storage area: \<open>network_ethereum.c\<close> and the five other files differ in the
  names of their functions and types and in the member of \<open>BoatProtocolType\<close> they write and compare with. The definitions here are
  translated from \<open>sdk/network/ethereum/network_ethereum.c\<close> and take that member as their argument \<open>protocol\<close>; the functions of the
  other files are their instances.

  A network record is the four bytes of the protocol, the index byte and a length field, followed by the length-value
  fields index, chain id, EIP-155 flag and node URL with its terminator. All protocols share one counter and one range of indices.
\<close>

subsection \<open>Data\<close>

datatype BoatProtocolType =
    BOAT_PROTOCOL_UNKNOWN
  | BOAT_PROTOCOL_ETHEREUM
  | BOAT_PROTOCOL_HLFABRIC
  | BOAT_PROTOCOL_PLATON
  | BOAT_PROTOCOL_PLATONE
  | BOAT_PROTOCOL_FISCOBCOS
  | BOAT_PROTOCOL_HWBCS
  | BOAT_PROTOCOL_CHAINMAKER
  | BOAT_PROTOCOL_VENACHAIN
  | BOAT_PROTOCOL_QUORUM
  | BOAT_PROTOCOL_CITA

text \<open>The little-endian bytes of the enumeration object and of a 32-bit member.\<close>

fun protocol_num :: "BoatProtocolType \<Rightarrow> u8" where
  "protocol_num BOAT_PROTOCOL_UNKNOWN = 0"
| "protocol_num BOAT_PROTOCOL_ETHEREUM = 1"
| "protocol_num BOAT_PROTOCOL_HLFABRIC = 2"
| "protocol_num BOAT_PROTOCOL_PLATON = 3"
| "protocol_num BOAT_PROTOCOL_PLATONE = 4"
| "protocol_num BOAT_PROTOCOL_FISCOBCOS = 5"
| "protocol_num BOAT_PROTOCOL_HWBCS = 6"
| "protocol_num BOAT_PROTOCOL_CHAINMAKER = 7"
| "protocol_num BOAT_PROTOCOL_VENACHAIN = 8"
| "protocol_num BOAT_PROTOCOL_QUORUM = 9"
| "protocol_num BOAT_PROTOCOL_CITA = 10"

definition protocol_rep :: "BoatProtocolType \<Rightarrow> bytes" where
  "protocol_rep p = [protocol_num p, 0, 0, 0]"

definition u32_rep :: "u32 \<Rightarrow> bytes" where
  "u32_rep x = [ucast x, ucast (drop_bit 8 x), ucast (drop_bit 16 x), ucast (drop_bit 24 x)]"

definition u32_of_rep :: "bytes \<Rightarrow> u32" where
  "u32_of_rep b = of_nat (be_val (rev b))"

abbreviation BOAT_MAX_NETWORK_NUM :: nat where "BOAT_MAX_NETWORK_NUM \<equiv> 5"

abbreviation BOAT_ETH_NODE_URL_MAX_LEN :: nat where "BOAT_ETH_NODE_URL_MAX_LEN \<equiv> 127"

text \<open>\<open>eip155_compatibility\<close> is the byte of the \<open>bool\<close> object, the URL the 127 bytes of the array.\<close>

record BoatNetworkConfig =
  cfg_chain_id :: u32
  cfg_eip155_compatibility :: u8
  cfg_node_url_str :: bytes

record BoatNetworkData =
  networkIndex :: u8
  chain_id :: u32
  eip155_compatibility :: u8
  node_url_str :: bytes

record BoatNetworkContext =
  networkNum :: u8
  networks :: "BoatNetworkData list"

subsection \<open>Reading networks\<close>

definition GetNetworkFromNvram ::
  "(nat \<Rightarrow> u32 \<Rightarrow> u32 \<Rightarrow> 's \<Rightarrow> bytes res) \<Rightarrow> u32 \<Rightarrow> 's \<Rightarrow> BoatNetworkData \<Rightarrow> u32 res \<times> BoatNetworkData" where
  "GetNetworkFromNvram rd startAddr s =
     bindS (liftS (read_len rd startAddr s)) (\<lambda>(_, nlen, nll).
     let obj = startAddr + nll in
     bindS (read_field rd (Some 1) obj nlen (\<lambda>d. [networkIndex d]) (\<lambda>b d. d\<lparr>networkIndex := hd b\<rparr>) s obj) (\<lambda>o1.
     bindS (read_field rd None obj nlen (\<lambda>d. u32_rep (chain_id d)) (\<lambda>b d. d\<lparr>chain_id := u32_of_rep b\<rparr>) s o1) (\<lambda>o2.
     bindS (read_field rd None obj nlen (\<lambda>d. [eip155_compatibility d]) (\<lambda>b d. d\<lparr>eip155_compatibility := hd b\<rparr>) s o2) (\<lambda>o3.
     bindS (read_field rd None obj nlen node_url_str (\<lambda>b d. d\<lparr>node_url_str := b\<rparr>) s o3) (\<lambda>_.
     liftS (Inr (nlen + nll)))))))"

text \<open>
  The loop of the list over one area. Networks of other protocols are skipped; \<open>slot\<close> is \<open>index\<close>, the next free
  slot, which the second area continues.
\<close>

fun network_list_loop ::
  "BoatProtocolType \<Rightarrow> (nat \<Rightarrow> u32 \<Rightarrow> u32 \<Rightarrow> 's \<Rightarrow> bytes res) \<Rightarrow> nat \<Rightarrow> nat \<Rightarrow> u32 \<Rightarrow> 's \<Rightarrow>
     BoatNetworkContext \<Rightarrow> nat res \<times> BoatNetworkContext" where
  "network_list_loop protocol rd 0 slot off s nl = (Inr slot, nl)"
| "network_list_loop protocol rd (Suc k) slot off s nl =
     (case rd 4 off 4 s of
        Inl e \<Rightarrow> (Inl e, nl)
      | Inr p \<Rightarrow>
          let off' = off + 4 + 1 in
          if p = protocol_rep protocol then
            if length (networks nl) \<le> slot then (Inl UB, nl)
            else
              (case GetNetworkFromNvram rd off' s (networks nl ! slot) of
                 (r, d) \<Rightarrow>
                   let nl' = nl\<lparr>networks := (networks nl)[slot := d]\<rparr> in
                   (case r of
                      Inl e \<Rightarrow> (Inl e, nl')
                    | Inr n \<Rightarrow> network_list_loop protocol rd k (slot + 1) (off' + n) s nl'))
          else
            (case read_len rd off' s of
               Inl e \<Rightarrow> (Inl e, nl)
             | Inr (_, l, ll) \<Rightarrow> network_list_loop protocol rd k slot (off' + (l + ll)) s nl))"

definition GetNetworkList :: "BoatProtocolType \<Rightarrow> nvram \<Rightarrow> BoatNetworkContext option \<Rightarrow> unit res \<times> BoatNetworkContext option" where
  "GetNetworkList protocol s networkList =
     (case networkList of
        None \<Rightarrow> (Inl (Err BOAT_ERROR_COMMON_INVALID_ARGUMENT), None)
      | Some nl \<Rightarrow>
          let rdF = area_rd BOAT_STORE_NETWORK BOAT_STORE_TYPE_FLASH;
              rdR = area_rd BOAT_STORE_NETWORK BOAT_STORE_TYPE_RAM
          in map_prod id Some
            (bindS (liftS (read_num rdF s)) (\<lambda>num.
             bindS (updS (\<lambda>nl. nl\<lparr>networkNum := num\<rparr>)) (\<lambda>_.
             bindS (network_list_loop protocol rdF (unat num) 0 4 s) (\<lambda>slot.
             bindS (liftS (read_num rdR s)) (\<lambda>num1.
             bindS (updS (\<lambda>nl. nl\<lparr>networkNum := networkNum nl + num1\<rparr>)) (\<lambda>_.
             bindS (network_list_loop protocol rdR (unat num1) slot 4 s) (\<lambda>_.
             liftS (case rdR 4 0 4 s of Inl e \<Rightarrow> Inl e | Inr _ \<Rightarrow> Inr ()))))))) nl))"

definition NetworkDataInit :: BoatNetworkData where
  "NetworkDataInit = \<lparr>networkIndex = 0, chain_id = 0, eip155_compatibility = 0,
     node_url_str = replicate BOAT_ETH_NODE_URL_MAX_LEN 0\<rparr>"

text \<open>The context is passed by value: the result is the copy inside the function, which its caller never sees.\<close>

definition FreeNetworkContext :: "BoatNetworkContext \<Rightarrow> BoatNetworkContext res" where
  "FreeNetworkContext networkList =
     (let n = unat (networkNum networkList) in
      if n = 0 then Inr networkList
      else if length (networks networkList) < n then Inl UB
      else Inr (networkList\<lparr>networkNum := 0, networks := replicate n NetworkDataInit @ drop n (networks networkList)\<rparr>))"

text \<open>The indices of the stored networks, whatever their protocol, and the first index none of them has.\<close>

fun read_indices :: "(nat \<Rightarrow> u32 \<Rightarrow> u32 \<Rightarrow> 's \<Rightarrow> bytes res) \<Rightarrow> nat \<Rightarrow> u32 \<Rightarrow> 's \<Rightarrow> bytes res" where
  "read_indices rd 0 off s = Inr []"
| "read_indices rd (Suc k) off s =
     bindR (rd 1 (off + 4) 1 s) (\<lambda>b.
     bindR (read_len rd (off + 4 + 1) s) (\<lambda>(_, l, ll).
     bindR (read_indices rd k (off + 4 + 1 + (l + ll)) s) (\<lambda>is.
       Inr (hd b # is))))"

fun unused_index :: "nat \<Rightarrow> nat \<Rightarrow> bytes \<Rightarrow> nat option" where
  "unused_index 0 i indexBytes = None"
| "unused_index (Suc k) i indexBytes =
     (if list_ex (\<lambda>b. unat b = i + 1) indexBytes then unused_index k (i + 1) indexBytes else Some (i + 1))"

definition GetFreeNetworkIndex_From_Persistent :: "nvram \<Rightarrow> nat res" where
  "GetFreeNetworkIndex_From_Persistent s =
     (let rd = area_rd BOAT_STORE_NETWORK BOAT_STORE_TYPE_FLASH in
      bindR (read_num rd s) (\<lambda>num.
      guardR (BOAT_MAX_NETWORK_NUM \<le> unat num) BOAT_ERROR_NETWORK_INDEX_EXCEED
     (bindR (read_indices rd (unat num) 4 s) (\<lambda>indexBytes.
        case unused_index BOAT_MAX_NETWORK_NUM 0 indexBytes of
          Some i \<Rightarrow> Inr i
        | None \<Rightarrow> Inl (Err BOAT_ERROR)))))"

text \<open>The loop of \<open>GetNetworkByIndex\<close>.\<close>

fun get_network_loop ::
  "BoatProtocolType \<Rightarrow> (nat \<Rightarrow> u32 \<Rightarrow> u32 \<Rightarrow> 's \<Rightarrow> bytes res) \<Rightarrow> nat \<Rightarrow> u8 \<Rightarrow> u32 \<Rightarrow> 's \<Rightarrow>
     BoatNetworkData \<Rightarrow> unit res \<times> BoatNetworkData" where
  "get_network_loop protocol rd 0 index off s = liftS (Inl (Err BOAT_ERROR_NETWORK_INEXISTENCE))"
| "get_network_loop protocol rd (Suc k) index off s =
     bindS (liftS (rd 4 off 4 s)) (\<lambda>p.
     bindS (liftS (rd 1 (off + 4) 1 s)) (\<lambda>b.
     let off' = off + 4 + 1 in
     if hd b = index \<and> p = protocol_rep protocol
     then bindS (GetNetworkFromNvram rd off' s) (\<lambda>_. liftS (Inr ()))
     else bindS (liftS (read_len rd off' s)) (\<lambda>(_, l, ll).
       get_network_loop protocol rd k index (off' + (l + ll)) s)))"

definition GetNetworkByIndex ::
  "BoatProtocolType \<Rightarrow> u8 \<Rightarrow> nvram \<Rightarrow> BoatNetworkData option \<Rightarrow> unit res \<times> BoatNetworkData option" where
  "GetNetworkByIndex protocol index s networkData =
     (case networkData of
        None \<Rightarrow> (Inl (Err BOAT_ERROR_COMMON_INVALID_ARGUMENT), None)
      | Some d \<Rightarrow>
          if of_nat BOAT_MAX_NETWORK_NUM < index then (Inl (Err BOAT_ERROR_NETWORK_INDEX_EXCEED), Some d)
          else
            let rd = area_rd BOAT_STORE_NETWORK (if index = 0 then BOAT_STORE_TYPE_RAM else BOAT_STORE_TYPE_FLASH)
            in case rd 4 0 4 s of
                 Inl e \<Rightarrow> (Inl e, Some d)
               | Inr b \<Rightarrow>
                   (case utility_check_NumBytes b of
                      Inl _ \<Rightarrow> (Inl (Err BOAT_ERROR_NETWORK_INEXISTENCE), Some d)
                    | Inr num \<Rightarrow>
                        if num = 0 then (Inl (Err BOAT_ERROR_NETWORK_INEXISTENCE), Some d)
                        else map_prod id Some (get_network_loop protocol rd (unat num) index 4 s d)))"

subsection \<open>Storing networks\<close>

definition Get_NetworkData_Len :: "BoatNetworkData \<Rightarrow> u32 res" where
  "Get_NetworkData_Len d =
     bindR (c_string (node_url_str d)) (\<lambda>url.
       Inr (stored_len (stored_len 1 + stored_len 4 + stored_len 1 + stored_len (of_nat (length url) + 1))))"

definition Get_Network_Data ::
  "(nat \<Rightarrow> bytes option) \<Rightarrow> BoatNetworkData \<Rightarrow> bytes option \<Rightarrow> (bytes \<times> u32) res" where
  "Get_Network_Data mal d data_buf =
     (case data_buf of
        None \<Rightarrow> Inl (Err BOAT_ERROR)
      | Some buf \<Rightarrow>
          bindR (append_field mal [networkIndex d] (buf, 0)) (\<lambda>p1.
          bindR (append_field mal (u32_rep (chain_id d)) p1) (\<lambda>p2.
          bindR (append_field mal [eip155_compatibility d] p2) (\<lambda>p3.
          bindR (c_string (node_url_str d)) (\<lambda>url.
          bindR (append_field mal (url @ [0]) p3) (\<lambda>(b, off).
          bindR (add_L_withOffset mal b 0 off) (\<lambda>(r, b', off').
            guardR (r < 0) BOAT_ERROR (Inr (b', off')))))))))"

text \<open>Skipping \<open>k\<close> records.\<close>

fun skip_networks :: "(nat \<Rightarrow> u32 \<Rightarrow> u32 \<Rightarrow> 's \<Rightarrow> bytes res) \<Rightarrow> nat \<Rightarrow> u32 \<Rightarrow> 's \<Rightarrow> u32 res" where
  "skip_networks rd 0 off s = Inr off"
| "skip_networks rd (Suc k) off s =
     bindR (read_len rd (off + 4 + 1) s) (\<lambda>(_, l, ll). skip_networks rd k (off + 4 + 1 + (l + ll)) s)"

text \<open>The record goes out in three writes, the counter in a fourth.\<close>

definition NetworkDataCtx_Store ::
  "BoatProtocolType \<Rightarrow> (nat \<Rightarrow> bytes option) \<Rightarrow> BoatNetworkData \<Rightarrow> BoatStoreType \<Rightarrow> nvram \<Rightarrow> unit res \<times> nvram" where
  "NetworkDataCtx_Store protocol mal d storeType s =
     (let rd = area_rd BOAT_STORE_NETWORK storeType;
          wr = area_wr mal BOAT_STORE_NETWORK storeType
      in case
        bindR (read_num rd s) (\<lambda>num.
        guardR (BOAT_MAX_NETWORK_NUM \<le> unat num) BOAT_ERROR_NETWORK_INDEX_EXCEED
       (let num' = (if storeType = BOAT_STORE_TYPE_RAM then 0 else num) in
        bindR (skip_networks rd (unat num') 4 s) (\<lambda>off.
        bindR (Get_NetworkData_Len d) (\<lambda>len.
        case mal (unat len) of
          None \<Rightarrow> Inl (Err BOAT_ERROR)
        | Some blk \<Rightarrow>
            bindR (Get_Network_Data mal d (Some blk)) (\<lambda>(buf, n).
              Inr (num', off, buf, n)))))) of
        Inl e \<Rightarrow> (Inl e, s)
      | Inr (num', off, buf, n) \<Rightarrow>
          bindS (wr off (protocol_rep protocol)) (\<lambda>_.
          bindS (wr (off + 4) [networkIndex d]) (\<lambda>_.
          bindS (BoATStoreSoftRotNvram mal BOAT_STORE_NETWORK (off + 4 + 1) (Some buf) n storeType) (\<lambda>_.
            wr 0 (utility_get_NumBytes (num' + 1))))) s)"

definition NetworkCreate ::
  "BoatProtocolType \<Rightarrow> (nat \<Rightarrow> bytes option) \<Rightarrow> BoatNetworkConfig option \<Rightarrow> BoatStoreType \<Rightarrow> nvram \<Rightarrow> u8 res \<times> nvram" where
  "NetworkCreate protocol mal networkConfig storeType s =
     (case networkConfig of
        None \<Rightarrow> (Inl (Err BOAT_ERROR_COMMON_INVALID_ARGUMENT), s)
      | Some cfg \<Rightarrow>
          bindS (liftS (if storeType = BOAT_STORE_TYPE_FLASH then GetFreeNetworkIndex_From_Persistent s else Inr 0)) (\<lambda>i.
          bindS (liftS (bindR (c_string (cfg_node_url_str cfg)) (\<lambda>url. buf_put (node_url_str NetworkDataInit) 0 (url @ [0])))) (\<lambda>url.
          let d = \<lparr>networkIndex = of_nat i, chain_id = cfg_chain_id cfg,
                   eip155_compatibility = cfg_eip155_compatibility cfg, node_url_str = url\<rparr>
          in bindS (NetworkDataCtx_Store protocol mal d storeType) (\<lambda>_. liftS (Inr (of_nat i))))) s)"

subsection \<open>Deleting networks\<close>

fun find_network ::
  "BoatProtocolType \<Rightarrow> (nat \<Rightarrow> u32 \<Rightarrow> u32 \<Rightarrow> 's \<Rightarrow> bytes res) \<Rightarrow> nat \<Rightarrow> nat \<Rightarrow> u8 \<Rightarrow> u32 \<Rightarrow> 's \<Rightarrow>
     (nat \<times> u32 \<times> u32 \<times> u32) option res" where
  "find_network protocol rd 0 i index off s = Inr None"
| "find_network protocol rd (Suc k) i index off s =
     bindR (rd 4 off 4 s) (\<lambda>p.
     bindR (rd 1 (off + 4) 1 s) (\<lambda>b.
     bindR (read_len rd (off + 4 + 1) s) (\<lambda>(_, l, ll).
     if hd b = index \<and> p = protocol_rep protocol then Inr (Some (i, off, l, ll))
     else find_network protocol rd k (i + 1) index (off + 4 + 1 + (ll + l)) s)))"

text \<open>
  After the counter has been decremented: blank the last record, or move the later ones down. Only the failed move puts the counter back;
  after a failed blanking the counter's bytes go to the place of the record and their write is the result.
\<close>

definition delete_network_body ::
  "(nat \<Rightarrow> bytes option) \<Rightarrow> u8 \<Rightarrow> nat \<Rightarrow> u32 \<Rightarrow> u32 \<Rightarrow> u32 \<Rightarrow> nvram \<Rightarrow> unit res \<times> nvram" where
  "delete_network_body mal num i off l ll =
     (let rd = area_rd BOAT_STORE_NETWORK BOAT_STORE_TYPE_FLASH;
          wr = area_wr mal BOAT_STORE_NETWORK BOAT_STORE_TYPE_FLASH
      in if i = unat num - 1 then catchS (wr off [0, 0, 0]) (\<lambda>_. wr off (utility_get_NumBytes num))
         else
           let moveFrom = off + 4 + 1 + (ll + l) in
           bindS (\<lambda>s. liftS (skip_networks rd (unat num - 1 - i) moveFrom s) s) (\<lambda>endoff.
           let len = endoff - moveFrom in
           case mal (unat len) of
             None \<Rightarrow> liftS (Inl (Err BOAT_ERROR_COMMON_OUT_OF_MEMORY))
           | Some _ \<Rightarrow>
               bindS (\<lambda>s. throwS (Some BOAT_ERROR_STORAGE_FILE_READ_FAIL) (rd (unat len) moveFrom len s) s) (\<lambda>d.
               catchS (wr off d) (\<lambda>_.
                 bindS (wr 0 (utility_get_NumBytes num)) (\<lambda>_. liftS (Inl (Err BOAT_ERROR_STORAGE_FILE_WRITE_FAIL)))))))"

definition NetworkDelete :: "BoatProtocolType \<Rightarrow> (nat \<Rightarrow> bytes option) \<Rightarrow> u8 \<Rightarrow> nvram \<Rightarrow> unit res \<times> nvram" where
  "NetworkDelete protocol mal index s =
     (if of_nat BOAT_MAX_NETWORK_NUM < index then (Inl (Err BOAT_ERROR_NETWORK_INDEX_EXCEED), s)
      else
        let t = (if index = 0 then BOAT_STORE_TYPE_RAM else BOAT_STORE_TYPE_FLASH);
            rd = area_rd BOAT_STORE_NETWORK t;
            wr = area_wr mal BOAT_STORE_NETWORK t
        in case rd 4 0 4 s of
             Inl e \<Rightarrow> (Inl e, s)
           | Inr b \<Rightarrow>
               (case utility_check_NumBytes b of
                  Inl _ \<Rightarrow> (Inl (Err BOAT_ERROR_NETWORK_INEXISTENCE), s)
                | Inr num \<Rightarrow>
                    if num = 0 then (Inl (Err BOAT_ERROR_NETWORK_INEXISTENCE), s)
                    else if index = 0 then wr 0 [0, 0, 0, 0] s
                    else
                      (case find_network protocol rd (unat num) 0 index 4 s of
                         Inl e \<Rightarrow> (Inl e, s)
                       | Inr None \<Rightarrow> (Inl (Err BOAT_ERROR_NETWORK_INEXISTENCE), s)
                       | Inr (Some (i, off, l, ll)) \<Rightarrow>
                           bindS (wr 0 (utility_get_NumBytes (num - 1))) (\<lambda>_. delete_network_body mal num i off l ll) s)))"

subsection \<open>Reference notions\<close>

text \<open>A stored network: the three parts of its record.\<close>

record network_record =
  rec_protocol :: bytes
  rec_index :: u8
  rec_body :: bytes

definition network_enc :: "network_record \<Rightarrow> bytes" where
  "network_enc r = rec_protocol r @ [rec_index r] @ lv (rec_body r)"

definition rec_ok :: "network_record \<Rightarrow> bool" where
  "rec_ok r \<longleftrightarrow> length (rec_protocol r) = 4 \<and> field_ok (rec_body r) \<and> 2 \<le> length (rec_body r)"

text \<open>A network that can be stored and read again: its URL is a C string in the 127 bytes of the array and not empty.\<close>

definition net_url :: "BoatNetworkData \<Rightarrow> bytes" where
  "net_url d = takeWhile (\<lambda>x. x \<noteq> 0) (node_url_str d)"

definition net_ok :: "BoatNetworkData \<Rightarrow> bool" where
  "net_ok d \<longleftrightarrow> length (node_url_str d) = BOAT_ETH_NODE_URL_MAX_LEN \<and> 0 \<in> set (node_url_str d) \<and> net_url d \<noteq> []"

definition network_body :: "BoatNetworkData \<Rightarrow> bytes" where
  "network_body d = lv [networkIndex d] @ lv (u32_rep (chain_id d)) @ lv [eip155_compatibility d] @ lv (net_url d @ [0])"

definition network_record_of :: "BoatProtocolType \<Rightarrow> BoatNetworkData \<Rightarrow> network_record" where
  "network_record_of protocol d = \<lparr>rec_protocol = protocol_rep protocol, rec_index = networkIndex d, rec_body = network_body d\<rparr>"

text \<open>What reading the network \<open>d\<close> leaves in an object: the rest of the URL array keeps its old bytes.\<close>

definition read_into :: "BoatNetworkData \<Rightarrow> BoatNetworkData \<Rightarrow> BoatNetworkData" where
  "read_into d old = d\<lparr>node_url_str := net_url d @ [0] @ drop (length (net_url d) + 1) (node_url_str old)\<rparr>"

definition url_sized :: "BoatNetworkData \<Rightarrow> bool" where
  "url_sized d \<longleftrightarrow> length (node_url_str d) = BOAT_ETH_NODE_URL_MAX_LEN"

text \<open>The networks \<open>ds\<close> are those of the protocol among the records.\<close>

definition own_networks :: "BoatProtocolType \<Rightarrow> network_record list \<Rightarrow> BoatNetworkData list \<Rightarrow> bool" where
  "own_networks protocol rs ds \<longleftrightarrow>
     filter (\<lambda>r. rec_protocol r = protocol_rep protocol) rs = map (network_record_of protocol) ds \<and> list_all net_ok ds"

fun fill_networks :: "nat \<Rightarrow> BoatNetworkData list \<Rightarrow> BoatNetworkData list \<Rightarrow> BoatNetworkData list" where
  "fill_networks slot [] es = es"
| "fill_networks slot (d # ds) es = fill_networks (slot + 1) ds (es[slot := read_into d (es ! slot)])"

abbreviation network_content :: "nvram \<Rightarrow> bytes" where
  "network_content \<equiv> area_content BOAT_STORE_NETWORK BOAT_STORE_TYPE_FLASH"

abbreviation onetime_network_content :: "nvram \<Rightarrow> bytes" where
  "onetime_network_content \<equiv> area_content BOAT_STORE_NETWORK BOAT_STORE_TYPE_RAM"

text \<open>The persistent networks of a device, of all protocols, and its one-time network.\<close>

definition networks_in :: "network_record list \<Rightarrow> nvram \<Rightarrow> bool" where
  "networks_in rs s \<longleftrightarrow> holds network_enc rs (network_content s) \<and> list_all rec_ok rs \<and>
     distinct (map rec_index rs) \<and> list_all (\<lambda>r. persistent_index (rec_index r)) rs \<and> length rs \<le> BOAT_MAX_NETWORK_NUM"

definition onetime_network_in :: "network_record list \<Rightarrow> nvram \<Rightarrow> bool" where
  "onetime_network_in os s \<longleftrightarrow> holds network_enc os (onetime_network_content s) \<and> list_all rec_ok os \<and>
     list_all (\<lambda>r. rec_index r = 0) os \<and> length os \<le> 1"

text \<open>The first of the indices 1 to 5 that no network of any protocol has.\<close>

definition free_network_index :: "network_record list \<Rightarrow> nat option" where
  "free_network_index rs = find (\<lambda>j. (of_nat j :: u8) \<notin> rec_index ` set rs) [1..<6]"

definition is_network :: "BoatProtocolType \<Rightarrow> u8 \<Rightarrow> network_record \<Rightarrow> bool" where
  "is_network protocol index r \<longleftrightarrow> rec_index r = index \<and> rec_protocol r = protocol_rep protocol"

definition created_network :: "BoatNetworkConfig \<Rightarrow> u8 \<Rightarrow> BoatNetworkData" where
  "created_network cfg i =
     (let url = takeWhile (\<lambda>x. x \<noteq> 0) (cfg_node_url_str cfg) in
      \<lparr>networkIndex = i, chain_id = cfg_chain_id cfg, eip155_compatibility = cfg_eip155_compatibility cfg,
       node_url_str = url @ [0] @ replicate (126 - length url) 0\<rparr>)"

definition config_ok :: "BoatNetworkConfig \<Rightarrow> bool" where
  "config_ok cfg \<longleftrightarrow> length (cfg_node_url_str cfg) = BOAT_ETH_NODE_URL_MAX_LEN \<and> 0 \<in> set (cfg_node_url_str cfg) \<and> hd (cfg_node_url_str cfg) \<noteq> 0"

definition eth_cfg :: BoatNetworkConfig where
  "eth_cfg = \<lparr>cfg_chain_id = 5777, cfg_eip155_compatibility = 1, cfg_node_url_str = [0x68, 0x74, 0x74, 0x70] @ replicate 123 0\<rparr>"

subsection \<open>Correctness\<close>

lemma length_protocol_rep [simp]: "length (protocol_rep p) = 4"
  by (simp add: protocol_rep_def)

lemma protocol_rep_ne [simp]: "protocol_rep p \<noteq> []"
  by (simp add: protocol_rep_def)

lemma protocol_rep_inj: "protocol_rep p = protocol_rep q \<longleftrightarrow> p = q"
  by (cases p; cases q; simp add: protocol_rep_def)

lemma length_u32_rep [simp]: "length (u32_rep x) = 4"
  by (simp add: u32_rep_def)

lemma u32_of_rep: "u32_of_rep (u32_rep x) = x"
proof -
  define n1 where "n1 = unat x div 256"
  define n2 where "n2 = n1 div 256"
  define n3 where "n3 = n2 div 256"
  have d: "unat x div 256 ^ 2 = n2" "unat x div 256 ^ 3 = n3"
    by (simp_all add: n1_def n2_def n3_def flip: div_mult2_eq)
  have e: "unat x = 256 * n1 + unat x mod 256" "n1 = 256 * n2 + n1 mod 256" "n2 = 256 * n3 + n2 mod 256"
    by (simp_all add: n1_def n2_def n3_def)
  have "n3 < 256" using u32_bound [of x] d(2) by (simp add: less_mult_imp_div_less flip: d(2))
  then have "be_val (rev (u32_rep x)) = 256 * (256 * (256 * n3 + n2 mod 256) + n1 mod 256) + unat x mod 256"
    using unat_octet [of 0 x] unat_octet [of 1 x] unat_octet [of 2 x] unat_octet [of 3 x] d
    by (simp add: u32_rep_def n1_def)
  then have "be_val (rev (u32_rep x)) = unat x" using e by simp
  then show ?thesis by (simp add: u32_of_rep_def)
qed

lemma net_fields:
  assumes "net_ok d"
  shows "field_ok [networkIndex d]" "field_ok (u32_rep (chain_id d))" "field_ok [eip155_compatibility d]" "field_ok (net_url d @ [0])"
    "field_ok (network_body d)" "length (network_body d) = 10 + length (net_url d) + 1" "length (net_url d) < 127" "0 < length (net_url d)"
    "c_string (node_url_str d) = Inr (net_url d)"
proof -
  have z: "0 \<in> set (node_url_str d)" "length (node_url_str d) = 127" "net_url d \<noteq> []" using assms by (simp_all add: net_ok_def)
  then obtain x where x: "x \<in> set (node_url_str d)" "\<not> x \<noteq> 0" by blast
  have "length (takeWhile (\<lambda>x. x \<noteq> 0) xs) < length xs" if "0 \<in> set xs" for xs :: bytes
    using that by (induction xs) auto
  then show l: "length (net_url d) < 127" using z by (metis net_url_def)
  show "0 < length (net_url d)" using z(3) by simp
  show "field_ok [networkIndex d]" "field_ok (u32_rep (chain_id d))" "field_ok [eip155_compatibility d]"
    by (simp_all add: field_ok_def u32_rep_def)
  show "field_ok (net_url d @ [0])" using l by (simp add: field_ok_def)
  show b: "length (network_body d) = 10 + length (net_url d) + 1"
    using l by (simp add: network_body_def length_lv_short)
  then show "field_ok (network_body d)" using l by (auto simp: field_ok_def)
  show "c_string (node_url_str d) = Inr (net_url d)" using z by (simp add: c_string_def net_url_def)
qed

lemma network_record_ok: "net_ok d \<Longrightarrow> rec_ok (network_record_of protocol d)"
  using net_fields(5,6) [of d] by (simp add: rec_ok_def network_record_of_def)

lemma network_enc_size:
  "rec_ok r \<Longrightarrow> 8 \<le> length (network_enc r)"
  "net_ok d \<Longrightarrow> length (network_enc (network_record_of protocol d)) \<le> 145"
proof -
  show "8 \<le> length (network_enc r)" if "rec_ok r"
    using that length_lv_bounds(1) [of "rec_body r"] by (simp add: network_enc_def rec_ok_def)
  show "length (network_enc (network_record_of protocol d)) \<le> 145" if "net_ok d"
    using net_fields(6,7) [OF that] length_lv_bounds(2) [of "network_body d"] by (simp add: network_enc_def network_record_of_def)
qed

context storage_area
begin

lemma network_from_nvram:
  assumes s: "ok s" and c: "content s = pre @ lv (network_body d) @ post" and d: "net_ok d" and old: "url_sized old"
  shows "GetNetworkFromNvram rd (of_nat (length pre)) s old = (Inr (of_nat (length (lv (network_body d)))), read_into d old)"
proof -
  define A where "A = pre @ L_bytes (of_nat (length (network_body d)))"
  define n where "n = (of_nat (length (network_body d)) :: u32)"
  note f = net_fields [OF d]
  let ?i = "[networkIndex d]" and ?c = "u32_rep (chain_id d)" and ?e = "[eip155_compatibility d]" and ?u = "net_url d @ [0]"
  have ll: "length (lv ?i) = 2" "length (lv ?c) = 5" "length (lv ?e) = 2" "length (lv ?u) = length (net_url d) + 2"
    using f(7) by (simp_all add: length_lv_short)
  have b: "network_body d = lv ?i @ lv ?c @ lv ?e @ lv ?u" by (simp add: network_body_def)
  have cs: "content s = A @ lv ?i @ lv ?c @ lv ?e @ lv ?u @ post"
    using c unfolding A_def lv_def [of "network_body d"] by (simp add: b)
  have h: "\<exists>b. read_len rd (of_nat (length pre)) s = Inr (b, n, of_nat (length (L_bytes n)))"
    using read_len_lv [OF s c f(5)] f(6) length_lv_bounds(1) [of "network_body d"] by (simp add: n_def)
  have a: "of_nat (length pre) + of_nat (length (L_bytes n)) = (of_nat (length A) :: u32)" by (simp add: A_def n_def)
  have 1: "read_field rd (Some 1) (of_nat (length A)) n (\<lambda>d. [networkIndex d]) (\<lambda>b d. d\<lparr>networkIndex := hd b\<rparr>) s (of_nat (length A)) x =
      (Inr (of_nat (length (A @ lv ?i))), x\<lparr>networkIndex := networkIndex d\<rparr>)" for x
    using read_field_lv [OF s, of A "[]" ?i "lv ?c @ lv ?e @ lv ?u" post "length (network_body d)" "Some 1" "\<lambda>d. [networkIndex d]" x]
      cs b f(1) ll by (simp add: n_def)
  have 2: "read_field rd None (of_nat (length A)) n (\<lambda>d. u32_rep (chain_id d)) (\<lambda>b d. d\<lparr>chain_id := u32_of_rep b\<rparr>) s (of_nat (length (A @ lv ?i))) x =
      (Inr (of_nat (length (A @ lv ?i @ lv ?c))), x\<lparr>chain_id := chain_id d\<rparr>)" for x
    using read_field_lv [OF s, of A "lv ?i" ?c "lv ?e @ lv ?u" post "length (network_body d)" None "\<lambda>d. u32_rep (chain_id d)" x]
      cs b f(2) ll by (simp add: n_def u32_of_rep)
  have 3: "read_field rd None (of_nat (length A)) n (\<lambda>d. [eip155_compatibility d]) (\<lambda>b d. d\<lparr>eip155_compatibility := hd b\<rparr>) s (of_nat (length (A @ lv ?i @ lv ?c))) x =
      (Inr (of_nat (length (A @ lv ?i @ lv ?c @ lv ?e))), x\<lparr>eip155_compatibility := eip155_compatibility d\<rparr>)" for x
    using read_field_lv [OF s, of A "lv ?i @ lv ?c" ?e "lv ?u" post "length (network_body d)" None "\<lambda>d. [eip155_compatibility d]" x]
      cs b f(3) ll by (simp add: n_def)
  have 4: "read_field rd None (of_nat (length A)) n node_url_str (\<lambda>b d. d\<lparr>node_url_str := b\<rparr>) s (of_nat (length (A @ lv ?i @ lv ?c @ lv ?e))) x =
      (Inr (of_nat (length (A @ lv ?i @ lv ?c @ lv ?e @ lv ?u))), x\<lparr>node_url_str := ?u @ drop (length ?u) (node_url_str x)\<rparr>)" if "url_sized x" for x
    using read_field_room [OF s, of A "lv ?i @ lv ?c @ lv ?e" ?u "[]" post "length (network_body d)" None node_url_str x]
      cs b f(4,7,8) ll that by (simp add: n_def url_sized_def)
  have e: "n + of_nat (length (L_bytes n)) = of_nat (length (lv (network_body d)))"
    by (simp add: length_lv n_def)
  have z: "url_sized (old\<lparr>networkIndex := i, chain_id := k, eip155_compatibility := m\<rparr>)" for i k m
    using old by (simp add: url_sized_def)
  obtain b where "read_len rd (of_nat (length pre)) s = Inr (b, n, of_nat (length (L_bytes n)))" using h by blast
  then show ?thesis
    unfolding GetNetworkFromNvram_def
    by (simp only: bindS_def liftS_def Let_def prod.case sum.case a 1 2 3 4 [OF z] e) (cases old; cases d; simp add: read_into_def)
qed

lemma network_at:
  assumes s: "ok s" and c: "content s = pre @ network_enc r @ post" and r: "rec_ok r"
  shows "rd 4 (of_nat (length pre)) 4 s = Inr (rec_protocol r)"
    "rd 1 (of_nat (length pre) + 4) 1 s = Inr [rec_index r]"
    "\<exists>b. read_len rd (of_nat (length pre) + 4 + 1) s = Inr (b, of_nat (length (rec_body r)), of_nat (length (L_bytes (of_nat (length (rec_body r))))))"
    "of_nat (length pre) + 4 + 1 + (of_nat (length (rec_body r)) + of_nat (length (L_bytes (of_nat (length (rec_body r)))))) =
      (of_nat (length (pre @ network_enc r)) :: u32)"
proof -
  let ?p = "rec_protocol r" and ?i = "[rec_index r]" and ?b = "rec_body r"
  have z: "length ?p = 4" "field_ok ?b" "2 \<le> length ?b" using r by (simp_all add: rec_ok_def)
  have cs: "content s = pre @ ?p @ ?i @ lv ?b @ post" using c by (simp add: network_enc_def)
  have "rd 4 (of_nat (length pre)) (of_nat (length ?p)) s = Inr ?p"
    using z(1) by (intro rd_parts [OF s cs]) auto
  then show "rd 4 (of_nat (length pre)) 4 s = Inr ?p" using z(1) by simp
  show "rd 1 (of_nat (length pre) + 4) 1 s = Inr ?i"
    using rd_parts [OF s, of "pre @ ?p" ?i "lv ?b @ post" 1] cs z(1) by (simp add: add.commute)
  have "3 \<le> length (lv ?b @ post)" using length_lv_bounds(1) [of ?b] z(3) by simp
  then show "\<exists>b. read_len rd (of_nat (length pre) + 4 + 1) s = Inr (b, of_nat (length ?b), of_nat (length (L_bytes (of_nat (length ?b)))))"
    using read_len_lv [OF s, of "pre @ ?p @ ?i" ?b post] cs z by (simp add: add.commute add.left_commute)
  show "of_nat (length pre) + 4 + 1 + (of_nat (length ?b) + of_nat (length (L_bytes (of_nat (length ?b))))) =
      (of_nat (length (pre @ network_enc r)) :: u32)"
    using z(1) by (simp add: network_enc_def length_lv)
qed

lemma skip_networks_ok:
  assumes "ok s" "content s = pre @ concat (map network_enc rs) @ post" "list_all rec_ok rs"
  shows "skip_networks rd (length rs) (of_nat (length pre)) s = Inr (of_nat (length pre + length (concat (map network_enc rs))))"
  using assms(2,3)
proof (induction rs arbitrary: pre)
  case (Cons r rs)
  have r: "rec_ok r" and c: "content s = pre @ network_enc r @ concat (map network_enc rs) @ post" using Cons.prems by simp_all
  have "skip_networks rd (length rs) (of_nat (length (pre @ network_enc r))) s =
      Inr (of_nat (length (pre @ network_enc r) + length (concat (map network_enc rs))))"
    using Cons.prems by (intro Cons.IH) simp_all
  moreover note n = network_at [OF assms(1) c r]
  obtain b where b: "read_len rd (of_nat (length pre) + 4 + 1) s =
      Inr (b, of_nat (length (rec_body r)), of_nat (length (L_bytes (of_nat (length (rec_body r))))))" using n(3) by blast
  ultimately show ?case
    by (simp only: length_Cons skip_networks.simps b bindR_simps prod.case n(4)) simp
qed simp

lemma read_indices_ok:
  assumes "ok s" "content s = pre @ concat (map network_enc rs) @ post" "list_all rec_ok rs"
  shows "read_indices rd (length rs) (of_nat (length pre)) s = Inr (map rec_index rs)"
  using assms(2,3)
proof (induction rs arbitrary: pre)
  case (Cons r rs)
  have r: "rec_ok r" and c: "content s = pre @ network_enc r @ concat (map network_enc rs) @ post" using Cons.prems by simp_all
  have "read_indices rd (length rs) (of_nat (length (pre @ network_enc r))) s = Inr (map rec_index rs)"
    using Cons.prems by (intro Cons.IH) simp_all
  moreover note n = network_at [OF assms(1) c r]
  obtain b where b: "read_len rd (of_nat (length pre) + 4 + 1) s =
      Inr (b, of_nat (length (rec_body r)), of_nat (length (L_bytes (of_nat (length (rec_body r))))))" using n(3) by blast
  ultimately show ?case
    by (simp only: length_Cons read_indices.simps b bindR_simps prod.case n(2,4)) simp
qed simp

end

lemma url_sized_read_into: "net_ok d \<Longrightarrow> url_sized old \<Longrightarrow> url_sized (read_into d old)"
  using net_fields(7) [of d] by (simp add: url_sized_def read_into_def)

lemma list_all_update: "list_all P xs \<Longrightarrow> P x \<Longrightarrow> list_all P (xs[i := x])"
  by (auto simp: list_all_iff dest!: set_update_subset_insert [THEN subsetD])

lemma own_networks_Cons:
  "own_networks protocol (r # rs) ds \<longleftrightarrow>
     (if rec_protocol r = protocol_rep protocol
      then \<exists>d ds'. ds = d # ds' \<and> net_ok d \<and> r = network_record_of protocol d \<and> own_networks protocol rs ds'
      else own_networks protocol rs ds)"
  by (cases ds) (auto simp: own_networks_def)

lemma length_fill_networks [simp]: "length (fill_networks slot ds es) = length es"
  by (induction slot ds es rule: fill_networks.induct) simp_all

context storage_area
begin

lemma get_network_hit:
  assumes "ok s" "content s = pre @ concat (map network_enc (xs @ network_record_of protocol d # ys)) @ post" "list_all rec_ok xs"
    "list_all (\<lambda>r. \<not> is_network protocol (networkIndex d) r) xs" "net_ok d" "url_sized old"
  shows "get_network_loop protocol rd (length (xs @ network_record_of protocol d # ys)) (networkIndex d) (of_nat (length pre)) s old =
    (Inr (), read_into d old)"
  using assms(2-4)
proof (induction xs arbitrary: pre)
  case Nil
  let ?r = "network_record_of protocol d"
  have c: "content s = pre @ network_enc ?r @ concat (map network_enc ys) @ post" using Nil.prems by simp
  note n = network_at [OF assms(1) c network_record_ok [OF assms(5)]]
  have "content s = (pre @ rec_protocol ?r @ [rec_index ?r]) @ lv (network_body d) @ concat (map network_enc ys) @ post"
    using c by (simp add: network_enc_def network_record_of_def)
  from network_from_nvram [OF assms(1) this assms(5,6)]
  have "GetNetworkFromNvram rd (of_nat (length pre) + 4 + 1) s old = (Inr (of_nat (length (lv (network_body d)))), read_into d old)"
    by (simp add: network_record_of_def add.commute add.left_commute)
  then show ?case
    using n(1,2) by (simp add: network_record_of_def bindS_def liftS_def Let_def)
next
  case (Cons x xs)
  have x: "rec_ok x" and c: "content s = pre @ network_enc x @ concat (map network_enc (xs @ network_record_of protocol d # ys)) @ post"
    using Cons.prems by simp_all
  note n = network_at [OF assms(1) c x]
  obtain b where b: "read_len rd (of_nat (length pre) + 4 + 1) s =
      Inr (b, of_nat (length (rec_body x)), of_nat (length (L_bytes (of_nat (length (rec_body x))))))" using n(3) by blast
  have IH: "get_network_loop protocol rd (length (xs @ network_record_of protocol d # ys)) (networkIndex d)
      (of_nat (length (pre @ network_enc x))) s old = (Inr (), read_into d old)"
    using Cons.prems by (intro Cons.IH) simp_all
  have ne: "\<not> (rec_index x = networkIndex d \<and> rec_protocol x = protocol_rep protocol)"
    using Cons.prems(3) by (simp add: is_network_def)
  show ?case
    unfolding append_Cons length_Cons get_network_loop.simps
    by (simp only: bindS_def liftS_def Let_def n(1,2,4) b prod.case sum.case list.sel ne if_False IH)
qed

lemma get_network_miss:
  assumes "ok s" "content s = pre @ concat (map network_enc rs) @ post" "list_all rec_ok rs"
    "list_all (\<lambda>r. \<not> is_network protocol index r) rs"
  shows "get_network_loop protocol rd (length rs) index (of_nat (length pre)) s old = (Inl (Err BOAT_ERROR_NETWORK_INEXISTENCE), old)"
  using assms(2-4)
proof (induction rs arbitrary: pre)
  case (Cons r rs)
  have r: "rec_ok r" and c: "content s = pre @ network_enc r @ concat (map network_enc rs) @ post" using Cons.prems by simp_all
  note n = network_at [OF assms(1) c r]
  obtain b where b: "read_len rd (of_nat (length pre) + 4 + 1) s =
      Inr (b, of_nat (length (rec_body r)), of_nat (length (L_bytes (of_nat (length (rec_body r))))))" using n(3) by blast
  have IH: "get_network_loop protocol rd (length rs) index (of_nat (length (pre @ network_enc r))) s old =
      (Inl (Err BOAT_ERROR_NETWORK_INEXISTENCE), old)"
    using Cons.prems by (intro Cons.IH) simp_all
  have ne: "\<not> (rec_index r = index \<and> rec_protocol r = protocol_rep protocol)" using Cons.prems(3) by (simp add: is_network_def)
  show ?case
    unfolding length_Cons get_network_loop.simps
    by (simp only: bindS_def liftS_def Let_def n(1,2,4) b prod.case sum.case list.sel ne if_False IH)
qed (simp add: liftS_def)

lemma find_network_hit:
  assumes "ok s" "content s = pre @ concat (map network_enc (xs @ r # ys)) @ post" "list_all rec_ok (xs @ [r])"
    "list_all (\<lambda>r. \<not> is_network protocol index r) xs" "is_network protocol index r"
  shows "find_network protocol rd (length (xs @ r # ys)) i index (of_nat (length pre)) s =
    Inr (Some (i + length xs, of_nat (length (pre @ concat (map network_enc xs))),
       of_nat (length (rec_body r)), of_nat (length (L_bytes (of_nat (length (rec_body r)))))))"
  using assms(2-4)
proof (induction xs arbitrary: pre i)
  case Nil
  have r: "rec_ok r" and c: "content s = pre @ network_enc r @ concat (map network_enc ys) @ post" using Nil.prems by simp_all
  note n = network_at [OF assms(1) c r]
  obtain b where b: "read_len rd (of_nat (length pre) + 4 + 1) s =
      Inr (b, of_nat (length (rec_body r)), of_nat (length (L_bytes (of_nat (length (rec_body r))))))" using n(3) by blast
  have m: "rec_index r = index" "rec_protocol r = protocol_rep protocol" using assms(5) by (simp_all add: is_network_def)
  show ?case
    unfolding append_Nil length_Cons find_network.simps
    by (simp only: n(1,2) b m bindR_simps prod.case list.sel simp_thms if_True) simp
next
  case (Cons x xs)
  have x: "rec_ok x" and c: "content s = pre @ network_enc x @ concat (map network_enc (xs @ r # ys)) @ post"
    using Cons.prems by simp_all
  note n = network_at [OF assms(1) c x]
  obtain b where b: "read_len rd (of_nat (length pre) + 4 + 1) s =
      Inr (b, of_nat (length (rec_body x)), of_nat (length (L_bytes (of_nat (length (rec_body x))))))" using n(3) by blast
  have IH: "find_network protocol rd (length (xs @ r # ys)) (i + 1) index (of_nat (length (pre @ network_enc x))) s =
    Inr (Some (i + 1 + length xs, of_nat (length ((pre @ network_enc x) @ concat (map network_enc xs))),
       of_nat (length (rec_body r)), of_nat (length (L_bytes (of_nat (length (rec_body r)))))))"
    using Cons.prems by (intro Cons.IH) simp_all
  have ne: "\<not> (rec_index x = index \<and> rec_protocol x = protocol_rep protocol)" using Cons.prems(3) by (simp add: is_network_def)
  have o: "of_nat (length pre) + 4 + 1 + (of_nat (length (L_bytes (of_nat (length (rec_body x))))) + of_nat (length (rec_body x))) =
      (of_nat (length (pre @ network_enc x)) :: u32)"
    using n(4) by (simp only: ac_simps)
  show ?case
    unfolding append_Cons length_Cons find_network.simps
    by (simp only: n(1,2) b bindR_simps prod.case list.sel ne if_False o IH) simp
qed

lemma find_network_miss:
  assumes "ok s" "content s = pre @ concat (map network_enc rs) @ post" "list_all rec_ok rs"
    "list_all (\<lambda>r. \<not> is_network protocol index r) rs"
  shows "find_network protocol rd (length rs) i index (of_nat (length pre)) s = Inr None"
  using assms(2-4)
proof (induction rs arbitrary: pre i)
  case (Cons r rs)
  have r: "rec_ok r" and c: "content s = pre @ network_enc r @ concat (map network_enc rs) @ post" using Cons.prems by simp_all
  note n = network_at [OF assms(1) c r]
  obtain b where b: "read_len rd (of_nat (length pre) + 4 + 1) s =
      Inr (b, of_nat (length (rec_body r)), of_nat (length (L_bytes (of_nat (length (rec_body r))))))" using n(3) by blast
  have IH: "find_network protocol rd (length rs) (i + 1) index (of_nat (length (pre @ network_enc r))) s = Inr None"
    using Cons.prems by (intro Cons.IH) simp_all
  have ne: "\<not> (rec_index r = index \<and> rec_protocol r = protocol_rep protocol)" using Cons.prems(3) by (simp add: is_network_def)
  have o: "of_nat (length pre) + 4 + 1 + (of_nat (length (L_bytes (of_nat (length (rec_body r))))) + of_nat (length (rec_body r))) =
      (of_nat (length (pre @ network_enc r)) :: u32)"
    using n(4) by (simp only: ac_simps)
  show ?case
    unfolding length_Cons find_network.simps
    by (simp only: n(1,2) b bindR_simps prod.case list.sel ne if_False o IH)
qed simp

lemma network_list_loop_ok:
  assumes "ok s" "content s = pre @ concat (map network_enc rs) @ post" "list_all rec_ok rs" "own_networks protocol rs ds"
    "list_all url_sized (networks nl)" "slot + length ds \<le> length (networks nl)"
  shows "network_list_loop protocol rd (length rs) slot (of_nat (length pre)) s nl =
    (Inr (slot + length ds), nl\<lparr>networks := fill_networks slot ds (networks nl)\<rparr>) \<and>
    list_all url_sized (fill_networks slot ds (networks nl))"
  using assms(2-6)
proof (induction rs arbitrary: pre slot ds nl)
  case Nil
  then have "ds = []" by (simp add: own_networks_def)
  then show ?case using Nil.prems by simp
next
  case (Cons r rs)
  have r: "rec_ok r" and c: "content s = pre @ network_enc r @ concat (map network_enc rs) @ post" using Cons.prems by simp_all
  note n = network_at [OF assms(1) c r]
  have sh: "content s = (pre @ network_enc r) @ concat (map network_enc rs) @ post" "list_all rec_ok rs"
    using Cons.prems by simp_all
  show ?case
  proof (cases "rec_protocol r = protocol_rep protocol")
    case True
    then obtain d ds' where d: "ds = d # ds'" "net_ok d" "r = network_record_of protocol d" "own_networks protocol rs ds'"
      using Cons.prems(3) by (auto simp: own_networks_Cons)
    let ?e = "networks nl ! slot"
    let ?nl = "nl\<lparr>networks := (networks nl)[slot := read_into d ?e]\<rparr>"
    have e: "url_sized ?e" using Cons.prems(4,5) d(1) by (auto simp: list_all_iff)
    have "content s = (pre @ rec_protocol r @ [rec_index r]) @ lv (network_body d) @ concat (map network_enc rs) @ post"
      using c by (simp add: network_enc_def network_record_of_def d(3))
    from network_from_nvram [OF assms(1) this d(2) e]
    have g: "GetNetworkFromNvram rd (of_nat (length pre) + 4 + 1) s ?e = (Inr (of_nat (length (lv (network_body d)))), read_into d ?e)"
      using r by (simp add: rec_ok_def add.commute add.left_commute)
    have o: "of_nat (length pre) + 4 + 1 + of_nat (length (lv (network_body d))) = (of_nat (length (pre @ network_enc r)) :: u32)"
      by (simp add: network_enc_def d(3) network_record_of_def)
    have IH: "network_list_loop protocol rd (length rs) (slot + 1) (of_nat (length (pre @ network_enc r))) s ?nl =
        (Inr (slot + 1 + length ds'), ?nl\<lparr>networks := fill_networks (slot + 1) ds' (networks ?nl)\<rparr>) \<and>
        list_all url_sized (fill_networks (slot + 1) ds' (networks ?nl))"
      using Cons.prems d e by (intro Cons.IH [OF sh d(4)]) (simp_all add: list_all_update url_sized_read_into)
    have "\<not> length (networks nl) \<le> slot" using Cons.prems(5) d(1) by simp
    then have "network_list_loop protocol rd (length (r # rs)) slot (of_nat (length pre)) s nl =
        network_list_loop protocol rd (length rs) (slot + 1) (of_nat (length (pre @ network_enc r))) s ?nl"
      unfolding length_Cons network_list_loop.simps
      by (simp only: n(1) sum.case Let_def True simp_thms if_True if_False g prod.case o)
    then show ?thesis using IH d(1) by simp
  next
    case False
    then have d: "own_networks protocol rs ds" using Cons.prems(3) by (simp add: own_networks_Cons)
    obtain b where b: "read_len rd (of_nat (length pre) + 4 + 1) s =
      Inr (b, of_nat (length (rec_body r)), of_nat (length (L_bytes (of_nat (length (rec_body r))))))" using n(3) by blast
    have "network_list_loop protocol rd (length (r # rs)) slot (of_nat (length pre)) s nl =
        network_list_loop protocol rd (length rs) slot (of_nat (length (pre @ network_enc r))) s nl"
      unfolding length_Cons network_list_loop.simps
      by (simp only: n(1,4) b sum.case Let_def False if_False prod.case)
    then show ?thesis using Cons.IH [OF sh d Cons.prems(4,5)] by simp
  qed
qed

end

lemma network_len_ok:
  assumes "net_ok d"
  shows "Get_NetworkData_Len d = Inr (of_nat (length (lv (network_body d))))"
proof -
  note f = net_fields [OF assms]
  have "stored_len 1 + stored_len 4 + stored_len 1 + stored_len (of_nat (length (net_url d)) + 1) = of_nat (length (network_body d))"
    using stored_len_lv [of "[networkIndex d]"] stored_len_lv [of "u32_rep (chain_id d)"] stored_len_lv [of "[eip155_compatibility d]"]
      stored_len_lv [of "net_url d @ [0]"] by (simp add: network_body_def add.commute)
  then show ?thesis
    using f(9) stored_len_lv [of "network_body d"] by (simp add: Get_NetworkData_Len_def)
qed

lemma network_data_ok:
  assumes mal: "malloc_total mal" and d: "net_ok d" and b: "length buf = length (lv (network_body d))"
  shows "Get_Network_Data mal d (Some buf) = Inr (lv (network_body d), of_nat (length (lv (network_body d))))"
proof -
  note f = net_fields [OF d]
  let ?i = "[networkIndex d]" and ?c = "u32_rep (chain_id d)" and ?e = "[eip155_compatibility d]" and ?u = "net_url d @ [0]"
  have l: "length (lv ?i) = 2" "length (lv ?c) = 5" "length (lv ?e) = 2" "length (lv ?u) = length (net_url d) + 2"
    using f(7) by (simp_all add: length_lv_short)
  have bl: "length buf \<ge> 11 + length (net_url d)" using b f(6) length_lv_bounds(1) [of "network_body d"] by simp
  have 1: "append_field mal ?i (buf, 0) = Inr (lv ?i @ drop 2 buf, of_nat (length (lv ?i)))"
    using append_small [OF mal f(1), of buf "[]"] bl l by simp
  have 2: "append_field mal ?c (lv ?i @ drop 2 buf, of_nat (length (lv ?i))) =
      Inr ((lv ?i @ lv ?c) @ drop 7 buf, of_nat (length (lv ?i @ lv ?c)))"
    using append_small [OF mal f(2), of "drop 2 buf" "lv ?i"] bl l by simp
  have 3: "append_field mal ?e ((lv ?i @ lv ?c) @ drop 7 buf, of_nat (length (lv ?i @ lv ?c))) =
      Inr ((lv ?i @ lv ?c @ lv ?e) @ drop 9 buf, of_nat (length (lv ?i @ lv ?c @ lv ?e)))"
    using append_small [OF mal f(3), of "drop 7 buf" "lv ?i @ lv ?c"] bl l by simp
  have 4: "append_field mal ?u ((lv ?i @ lv ?c @ lv ?e) @ drop 9 buf, of_nat (length (lv ?i @ lv ?c @ lv ?e))) =
      Inr (network_body d @ drop (11 + length (net_url d)) buf, of_nat (length (network_body d)))"
    using append_small [OF mal f(4), of "drop 9 buf" "lv ?i @ lv ?c @ lv ?e"] bl l
    by (simp add: network_body_def add.commute [of _ 2] add.commute [of 9])
  obtain r where 5: "add_L_withOffset mal (network_body d @ drop (11 + length (net_url d)) buf) 0 (of_nat (length (network_body d))) =
      Inr (r, lv (network_body d), of_nat (length (lv (network_body d))))" "\<not> r < 0"
    using wrap_record [OF mal f(5), of "drop (11 + length (net_url d)) buf"] b f(6) bl by auto
  show ?thesis
    unfolding Get_Network_Data_def option.case 1 2 3 4 5(1) f(9) bindR_simps prod.case
    using 5(2) by simp
qed

lemmas network_area = area_is_storage [where f = BOAT_STORE_NETWORK]

lemma network_enc_ne: "rec_ok r \<Longrightarrow> network_enc r \<noteq> []"
  by (auto simp: network_enc_def)

lemma network_store_ok:
  assumes ok: "nvram_ok s" and mal: "malloc_total mal" and t: "t \<noteq> BOAT_STORE_TYPE_UNKNOWN"
    and num: "read_num (area_rd BOAT_STORE_NETWORK t) s = Inr num" "unat num < 5" "length rs = (if t = BOAT_STORE_TYPE_RAM then 0 else unat num)"
    and rs: "holds_prefix network_enc rs (area_content BOAT_STORE_NETWORK t s)" "list_all rec_ok rs" and d: "net_ok d"
    and fit: "4 + length (concat (map network_enc rs)) + length (network_enc (network_record_of protocol d)) \<le> area_cap BOAT_STORE_NETWORK t"
  shows "\<exists>s'. NetworkDataCtx_Store protocol mal d t s = (Inr (), s') \<and> nvram_ok s' \<and> area_frame BOAT_STORE_NETWORK t s s' \<and>
    holds network_enc (rs @ [network_record_of protocol d]) (area_content BOAT_STORE_NETWORK t s')"
proof -
  note A = network_area [OF mal t]
  let ?rd = "area_rd BOAT_STORE_NETWORK t" and ?wr = "area_wr mal BOAT_STORE_NETWORK t" and ?c = "area_content BOAT_STORE_NETWORK t"
  let ?p = "protocol_rep protocol" and ?i = "[networkIndex d]" and ?b = "lv (network_body d)" and ?off = "4 + length (concat (map network_enc rs))"
  have e: "network_enc (network_record_of protocol d) = ?p @ ?i @ ?b" by (simp add: network_enc_def network_record_of_def)
  have skip: "skip_networks ?rd (length rs) 4 s = Inr (of_nat ?off)"
  proof (cases "rs = []")
    case False
    then have "concat (map network_enc rs) \<noteq> []" using rs(2) network_enc_ne by (cases rs) auto
    then obtain pre rest where p: "?c s = pre @ concat (map network_enc rs) @ rest" "length pre = 4" using holds_prefix_split [OF rs(1)] by blast
    then show ?thesis using storage_area.skip_networks_ok [OF A ok p(1) rs(2)] by simp
  qed simp
  define num' where "num' = (if t = BOAT_STORE_TYPE_RAM then 0 else num)"
  have n': "num' = of_nat (length rs)" "unat num' = length rs" using num(3) by (auto simp: num'_def)
  have fit': "?off + length ?p + length ?i + length ?b \<le> area_cap BOAT_STORE_NETWORK t" using fit e by simp
  have bne: "?b \<noteq> []" using length_lv_bounds(1) [of "network_body d"] by auto
  obtain s1 where s1: "?wr (of_nat ?off) ?p s = (Inr (), s1)" "nvram_ok s1" "area_frame BOAT_STORE_NETWORK t s s1" "?c s1 = overlay (?c s) ?off ?p"
    using storage_area.wr_ok [OF A ok protocol_rep_ne, of ?off] fit' by auto
  obtain s2 where s2: "?wr (of_nat (?off + length ?p)) ?i s1 = (Inr (), s2)" "nvram_ok s2" "area_frame BOAT_STORE_NETWORK t s s2"
      "?c s2 = overlay (?c s) ?off (?p @ ?i)"
    using storage_area.wr_behind [OF A ok protocol_rep_ne _ _ s1(2-4), of ?i] fit' by auto
  obtain s3 where s3: "?wr (of_nat (?off + length (?p @ ?i))) ?b s2 = (Inr (), s3)" "nvram_ok s3" "area_frame BOAT_STORE_NETWORK t s s3"
      "?c s3 = overlay (?c s) ?off (network_enc (network_record_of protocol d))"
    using storage_area.wr_behind [OF A ok _ bne _ s2(2-4)] fit' e by auto
  have "length rs < 255" using num(2,3) by auto
  then obtain s4 where s4: "?wr 0 (utility_get_NumBytes (num' + 1)) s3 = (Inr (), s4)" "nvram_ok s4" "area_frame BOAT_STORE_NETWORK t s s4"
      "holds network_enc (rs @ [network_record_of protocol d]) (?c s4)"
    using storage_area.count_record [OF A ok rs(1) _ _ s3(2-4)] fit' n'(1) by auto
  have o: "of_nat (?off + length ?p) = (of_nat ?off + 4 :: u32)" "of_nat (?off + length (?p @ ?i)) = (of_nat ?off + 4 + 1 :: u32)"
    by (simp_all add: add.commute add.left_commute)
  have sz: "length ?b \<le> 65535" using length_lv_bounds(2) [of "network_body d"] net_fields(6,7) [OF d] by simp
  then have ul: "unat (of_nat (length ?b) :: u32) = length ?b" by (intro unat_of_nat_u32) simp
  obtain blk where blk: "mal (length ?b) = Some blk" "length blk = length ?b" using mal by (auto simp: malloc_total_def)
  have "NetworkDataCtx_Store protocol mal d t s = (Inr (), s4)"
    using num(1,2) skip network_len_ok [OF d] ul blk network_data_ok [OF mal d blk(2)] s1(1) s2(1) [unfolded o] s3(1) [unfolded o] s4(1) n'(2) sz
      store_prefix [of ?b mal BOAT_STORE_NETWORK _ "[]" t]
    by (simp add: NetworkDataCtx_Store_def Let_def bindS_def num'_def [symmetric])
  then show ?thesis using s4(2-4) by blast
qed

lemma takeWhile_less: "x \<in> set xs \<Longrightarrow> \<not> P x \<Longrightarrow> length (takeWhile P xs) < length xs"
  by (induction xs) auto

lemma created_network_ok:
  assumes "config_ok cfg"
  shows "net_ok (created_network cfg i)" "networkIndex (created_network cfg i) = i"
    "bindR (c_string (cfg_node_url_str cfg)) (\<lambda>url. buf_put (node_url_str NetworkDataInit) 0 (url @ [0])) = Inr (node_url_str (created_network cfg i))"
    "net_url (created_network cfg i) = takeWhile (\<lambda>x. x \<noteq> 0) (cfg_node_url_str cfg)"
proof -
  let ?u = "takeWhile (\<lambda>x. x \<noteq> 0) (cfg_node_url_str cfg)"
  have z: "length (cfg_node_url_str cfg) = 127" "0 \<in> set (cfg_node_url_str cfg)" "hd (cfg_node_url_str cfg) \<noteq> 0"
    using assms by (simp_all add: config_ok_def)
  have l: "length ?u < 127" using takeWhile_less [OF z(2), of "\<lambda>x. x \<noteq> 0"] z(1) by simp
  have ne: "?u \<noteq> []" using z by (cases "cfg_node_url_str cfg") auto
  have "takeWhile (\<lambda>x. x \<noteq> 0) (?u @ 0 # zs) = ?u" for zs by (simp add: takeWhile_append takeWhile_tail)
  then show u: "net_url (created_network cfg i) = ?u" by (simp add: net_url_def created_network_def Let_def)
  then show "net_ok (created_network cfg i)" using l ne by (simp add: net_ok_def created_network_def Let_def)
  show "networkIndex (created_network cfg i) = i" by (simp add: created_network_def Let_def)
  have "drop (Suc (length ?u)) (replicate 127 (0::u8)) = replicate (126 - length ?u) 0" by simp
  then show "bindR (c_string (cfg_node_url_str cfg)) (\<lambda>url. buf_put (node_url_str NetworkDataInit) 0 (url @ [0])) = Inr (node_url_str (created_network cfg i))"
    using z l by (simp add: c_string_def buf_put_def NetworkDataInit_def created_network_def Let_def)
qed

lemma flash_network_area:
  "malloc_total mal \<Longrightarrow> storage_area (area_rd BOAT_STORE_NETWORK BOAT_STORE_TYPE_FLASH) (area_wr mal BOAT_STORE_NETWORK BOAT_STORE_TYPE_FLASH)
     nvram_ok network_content 5120 (area_frame BOAT_STORE_NETWORK BOAT_STORE_TYPE_FLASH)"
  using network_area [of mal BOAT_STORE_TYPE_FLASH] by simp

lemma ram_network_area:
  "malloc_total mal \<Longrightarrow> storage_area (area_rd BOAT_STORE_NETWORK BOAT_STORE_TYPE_RAM) (area_wr mal BOAT_STORE_NETWORK BOAT_STORE_TYPE_RAM)
     nvram_ok onetime_network_content 1024 (area_frame BOAT_STORE_NETWORK BOAT_STORE_TYPE_RAM)"
  using network_area [of mal BOAT_STORE_TYPE_RAM] by simp

lemma read_num_holds:
  assumes A: "storage_area rd wr nvram_ok content cap frame" and ok: "nvram_ok s" and h: "holds enc rs (content s)" and c: "4 \<le> cap"
  shows "read_num rd s = Inr (of_nat (length rs))"
proof -
  obtain n where n: "read_num rd s = Inr n" "unat n = length rs"
    using storage_area.read_num_ok [OF A ok c] h by (auto simp: holds_def)
  from n(1) show ?thesis by (simp flip: n(2))
qed

lemma unused_index_find:
  "i + k < 256 \<Longrightarrow> unused_index k i bs = find (\<lambda>j. (of_nat j :: u8) \<notin> set bs) [i + 1..<i + 1 + k]"
proof (induction k arbitrary: i)
  case (Suc k)
  have "(\<exists>b\<in>set bs. unat b = i + 1) \<longleftrightarrow> (of_nat (i + 1) :: u8) \<in> set bs"
  proof
    assume "\<exists>b\<in>set bs. unat b = i + 1"
    then obtain b where b: "b \<in> set bs" "unat b = i + 1" by blast
    have "of_nat (unat b) \<in> set bs" using b(1) by simp
    then show "(of_nat (i + 1) :: u8) \<in> set bs" unfolding b(2) .
  next
    assume "(of_nat (i + 1) :: u8) \<in> set bs"
    moreover have "unat (of_nat (i + 1) :: u8) = i + 1" unfolding unat_of_nat using Suc.prems by simp
    ultimately show "\<exists>b\<in>set bs. unat b = i + 1" by blast
  qed
  then show ?case using Suc.IH [of "i + 1"] Suc.prems by (simp add: list_ex_iff upt_conv_Cons del: upt_Suc)
qed simp

lemma free_network_index_ok:
  assumes ok: "nvram_ok s" and rs: "networks_in rs s"
  shows "GetFreeNetworkIndex_From_Persistent s =
    (if length rs = 5 then Inl (Err BOAT_ERROR_NETWORK_INDEX_EXCEED) else Inr (the (free_network_index rs)))"
proof -
  note A = flash_network_area [OF heap_all_total]
  have h: "holds network_enc rs (network_content s)" and k: "list_all rec_ok rs" and l: "length rs \<le> 5"
    using rs by (simp_all add: networks_in_def)
  have num: "read_num (area_rd BOAT_STORE_NETWORK BOAT_STORE_TYPE_FLASH) s = Inr (of_nat (length rs))"
    by (rule read_num_holds [OF A ok h]) simp
  have u: "unat (of_nat (length rs) :: u8) = length rs" using l by (simp add: unat_of_nat)
  have "read_indices (area_rd BOAT_STORE_NETWORK BOAT_STORE_TYPE_FLASH) (length rs) 4 s = Inr (map rec_index rs)"
  proof (cases "rs = []")
    case False
    then obtain pre rest where p: "network_content s = pre @ concat (map network_enc rs) @ rest" "length pre = 4"
      using holds_split [OF h] by blast
    then show ?thesis using storage_area.read_indices_ok [OF A ok p(1) k] by simp
  qed simp
  moreover have "unused_index 5 0 (map rec_index rs) = free_network_index rs"
    by (simp add: unused_index_find free_network_index_def)
  moreover have "length rs \<noteq> 5 \<Longrightarrow> \<exists>i. free_network_index rs = Some i"
    using free_key_exists [of "map rec_index rs"] l by (auto simp: free_network_index_def)
  ultimately show ?thesis
    using num u l by (auto simp: GetFreeNetworkIndex_From_Persistent_def)
qed

lemma networks_nonempty:
  assumes "nvram_ok s" "networks_in rs s" "rs \<noteq> []"
  shows "\<exists>rest. network_content s = utility_get_NumBytes (of_nat (length rs)) @ concat (map network_enc rs) @ rest"
    "area_rd BOAT_STORE_NETWORK BOAT_STORE_TYPE_FLASH 4 0 4 s = Inr (utility_get_NumBytes (of_nat (length rs)))"
    "unat (of_nat (length rs) :: u8) = length rs" "(of_nat (length rs) :: u8) \<noteq> 0"
proof -
  show c: "\<exists>rest. network_content s = utility_get_NumBytes (of_nat (length rs)) @ concat (map network_enc rs) @ rest"
    using holds_content assms(2,3) unfolding networks_in_def by blast
  then show "area_rd BOAT_STORE_NETWORK BOAT_STORE_TYPE_FLASH 4 0 4 s = Inr (utility_get_NumBytes (of_nat (length rs)))"
    using storage_area.rd_parts [OF flash_network_area [OF heap_all_total] assms(1), of "[]" "utility_get_NumBytes (of_nat (length rs))" _ 4]
    by auto
  show n: "unat (of_nat (length rs) :: u8) = length rs" using assms(2) by (simp add: networks_in_def unat_of_nat)
  then show "(of_nat (length rs) :: u8) \<noteq> 0" using assms(3) by (simp add: word_unat_eq_iff)
qed

lemma persistent_flash: "persistent_index i \<Longrightarrow> \<not> of_nat 5 < i \<and> i \<noteq> 0"
  by (simp add: persistent_index_def word_less_nat_alt)

lemma get_network_found:
  assumes ok: "nvram_ok s" and rs: "networks_in rs s" and d: "network_record_of protocol d \<in> set rs" "net_ok d" and old: "url_sized old"
  shows "GetNetworkByIndex protocol (networkIndex d) s (Some old) = (Inr (), Some (read_into d old))"
proof -
  let ?r = "network_record_of protocol d"
  have ri: "rec_index ?r = networkIndex d" by (simp add: network_record_of_def)
  obtain xs ys where sp: "rs = xs @ ?r # ys" using d(1) by (auto simp: in_set_conv_decomp)
  have ne: "rs \<noteq> []" and k: "list_all rec_ok xs" and i: "persistent_index (networkIndex d)" and m: "networkIndex d \<notin> rec_index ` set xs"
    using rs sp ri by (auto simp: networks_in_def)
  note p = networks_nonempty [OF ok rs ne]
  obtain rest where cc: "network_content s = utility_get_NumBytes (of_nat (length rs)) @ concat (map network_enc (xs @ ?r # ys)) @ rest"
    using p(1) sp by blast
  have "list_all (\<lambda>r. \<not> is_network protocol (networkIndex d) r) xs" using m by (force simp: list_all_iff is_network_def)
  from storage_area.get_network_hit [OF flash_network_area [OF heap_all_total] ok cc k this d(2) old]
  have "get_network_loop protocol (area_rd BOAT_STORE_NETWORK BOAT_STORE_TYPE_FLASH) (length rs) (networkIndex d) 4 s old = (Inr (), read_into d old)"
    by (simp only: sp length_NumBytes of_nat_numeral)
  then show ?thesis
    using p(2-4) NumBytes_get persistent_flash [OF i] by (simp add: GetNetworkByIndex_def Let_def)
qed

lemma get_network_missing:
  assumes ok: "nvram_ok s" and rs: "networks_in rs s" and i: "list_all (\<lambda>r. \<not> is_network protocol i r) rs" "persistent_index i"
  shows "\<exists>e. GetNetworkByIndex protocol i s (Some old) = (Inl (Err e), Some old) \<and> (rs \<noteq> [] \<longrightarrow> e = BOAT_ERROR_NETWORK_INEXISTENCE)"
proof (cases "rs = []")
  case True
  then have "\<exists>num. read_num (area_rd BOAT_STORE_NETWORK BOAT_STORE_TYPE_FLASH) s = Inr num \<and> num = 0"
    using storage_area.read_num_ok [OF flash_network_area [OF heap_all_total] ok] rs by (auto simp: networks_in_def holds_def word_unat_eq_iff)
  then show ?thesis
    using True persistent_flash [OF i(2)] by (auto simp: GetNetworkByIndex_def Let_def read_num_def split: sum.splits fail.splits)
next
  case False
  note p = networks_nonempty [OF ok rs False]
  obtain rest where cc: "network_content s = utility_get_NumBytes (of_nat (length rs)) @ concat (map network_enc rs) @ rest"
    using p(1) by blast
  have "get_network_loop protocol (area_rd BOAT_STORE_NETWORK BOAT_STORE_TYPE_FLASH) (length rs) i 4 s old = (Inl (Err BOAT_ERROR_NETWORK_INEXISTENCE), old)"
    using storage_area.get_network_miss [OF flash_network_area [OF heap_all_total] ok cc _ i(1), of old] rs by (simp add: networks_in_def)
  then show ?thesis using False p(2-4) NumBytes_get persistent_flash [OF i(2)] by (simp add: GetNetworkByIndex_def Let_def)
qed

lemma networks_in_add:
  "networks_in rs s \<Longrightarrow> length rs < 5 \<Longrightarrow> rec_ok r \<Longrightarrow> persistent_index (rec_index r) \<Longrightarrow> rec_index r \<notin> rec_index ` set rs \<Longrightarrow>
    holds network_enc (rs @ [r]) (network_content s') \<Longrightarrow> networks_in (rs @ [r]) s'"
  by (auto simp: networks_in_def)

lemma create_network_ok:
  assumes ok: "nvram_ok s" and mal: "malloc_total mal" and rs: "networks_in rs s" "length rs < 5" and cfg: "config_ok cfg"
    and room: "149 + length (concat (map network_enc rs)) \<le> 5120"
  shows "\<exists>i s'. NetworkCreate protocol mal (Some cfg) BOAT_STORE_TYPE_FLASH s = (Inr i, s') \<and> i = of_nat (the (free_network_index rs)) \<and>
    persistent_index i \<and> i \<notin> rec_index ` set rs \<and> nvram_ok s' \<and> area_frame BOAT_STORE_NETWORK BOAT_STORE_TYPE_FLASH s s' \<and>
    networks_in (rs @ [network_record_of protocol (created_network cfg i)]) s'"
proof -
  obtain j where j: "free_network_index rs = Some j" "persistent_index (of_nat j)" "(of_nat j :: u8) \<notin> rec_index ` set rs"
    using free_key_exists [of "map rec_index rs"] rs(2) by (auto simp: free_network_index_def)
  let ?d = "created_network cfg (of_nat j)"
  note c = created_network_ok [OF cfg, of "of_nat j"]
  have h: "holds network_enc rs (network_content s)" and k: "list_all rec_ok rs" using rs by (simp_all add: networks_in_def)
  have num: "read_num (area_rd BOAT_STORE_NETWORK BOAT_STORE_TYPE_FLASH) s = Inr (of_nat (length rs))"
    by (rule read_num_holds [OF flash_network_area [OF mal] ok h]) simp
  have u: "unat (of_nat (length rs) :: u8) = length rs" using rs(2) by (simp add: unat_of_nat)
  have "4 + length (concat (map network_enc rs)) + length (network_enc (network_record_of protocol ?d)) \<le> area_cap BOAT_STORE_NETWORK BOAT_STORE_TYPE_FLASH"
    using room network_enc_size(2) [OF c(1), of protocol] by simp
  then obtain s' where s': "NetworkDataCtx_Store protocol mal ?d BOAT_STORE_TYPE_FLASH s = (Inr (), s')" "nvram_ok s'"
      "area_frame BOAT_STORE_NETWORK BOAT_STORE_TYPE_FLASH s s'" "holds network_enc (rs @ [network_record_of protocol ?d]) (network_content s')"
    using network_store_ok [OF ok mal _ num _ _ holds_prefix_holds [OF h] k c(1), of protocol] rs(2) u by auto
  have f: "GetFreeNetworkIndex_From_Persistent s = Inr j" using free_network_index_ok [OF ok rs(1)] rs(2) j(1) by simp
  have "\<lparr>networkIndex = of_nat j, chain_id = cfg_chain_id cfg, eip155_compatibility = cfg_eip155_compatibility cfg, node_url_str = node_url_str ?d\<rparr> = ?d"
    by (simp add: created_network_def Let_def)
  then have "NetworkCreate protocol mal (Some cfg) BOAT_STORE_TYPE_FLASH s = (Inr (of_nat j), s')"
    unfolding NetworkCreate_def option.case liftS_def bindS_def if_True c(3) using f s'(1) by (simp add: Let_def)
  moreover have "networks_in (rs @ [network_record_of protocol ?d]) s'"
    using networks_in_add [OF rs network_record_ok [OF c(1)] _ _ s'(4)] j(2,3) c(2) by (simp add: network_record_of_def)
  ultimately show ?thesis using s'(2,3) j by auto
qed

lemma networks_ne: "list_all rec_ok ys \<Longrightarrow> ys \<noteq> [] \<Longrightarrow> concat (map network_enc ys) \<noteq> []"
  using network_enc_ne by (cases ys) auto

lemma delete_network_body_ok:
  assumes ok: "nvram_ok s1" and mal: "malloc_total mal" and k: "list_all rec_ok (xs @ r # ys)" and l: "length (xs @ r # ys) < 256"
    and c: "drop 4 (network_content s1) = concat (map network_enc (xs @ r # ys)) @ rest" "4 \<le> length (network_content s1)"
    and w: "w = (if ys = [] then [0, 0, 0] else concat (map network_enc ys))"
    and wr: "area_wr mal BOAT_STORE_NETWORK BOAT_STORE_TYPE_FLASH (of_nat (4 + length (concat (map network_enc xs)))) w s1 = (Inr (), s2)"
  shows "delete_network_body mal (of_nat (length (xs @ r # ys))) (length xs) (of_nat (4 + length (concat (map network_enc xs))))
     (of_nat (length (rec_body r))) (of_nat (length (L_bytes (of_nat (length (rec_body r)))))) s1 = (Inr (), s2)"
proof (cases "ys = []")
  case True
  have "unat (of_nat (length (xs @ r # ys)) :: u8) = length xs + 1" using l True unfolding unat_of_nat by simp
  then show ?thesis using wr True by (simp add: delete_network_body_def w Let_def catchS_def)
next
  case False
  note A = flash_network_area [OF mal]
  let ?rd = "area_rd BOAT_STORE_NETWORK BOAT_STORE_TYPE_FLASH"
  let ?X = "concat (map network_enc xs)"
  let ?Y = "concat (map network_enc ys)"
  define pre where "pre = take 4 (network_content s1) @ ?X @ network_enc r"
  have cc: "network_content s1 = pre @ ?Y @ rest"
    using c(1) append_take_drop_id [of 4 "network_content s1"] by (simp add: pre_def)
  have ky: "list_all rec_ok ys" "rec_ok r" using k by simp_all
  have mf: "of_nat (4 + length ?X) + 4 + 1 + (of_nat (length (L_bytes (of_nat (length (rec_body r))))) + of_nat (length (rec_body r))) =
      (of_nat (length pre) :: u32)"
    using c(2) ky(2) by (simp add: pre_def network_enc_def length_lv rec_ok_def)
  have sk: "skip_networks ?rd (length ys) (of_nat (length pre)) s1 = Inr (of_nat (length pre + length ?Y))"
    using storage_area.skip_networks_ok [OF A ok cc ky(1)] by simp
  have yl: "length ?Y \<le> 5120" "?Y \<noteq> []"
    using cc storage_area.content_cap [OF A ok] networks_ne [OF ky(1) False] by simp_all
  have d: "of_nat (length pre + length ?Y) - of_nat (length pre) = (of_nat (length ?Y) :: u32)" by simp
  have ul: "unat (of_nat (length ?Y) :: u32) = length ?Y" using yl by (intro unat_of_nat_u32) simp
  obtain blk where blk: "mal (length ?Y) = Some blk" using mal by (auto simp: malloc_total_def)
  have rd: "?rd (length ?Y) (of_nat (length pre)) (of_nat (length ?Y)) s1 = Inr ?Y"
    using storage_area.rd_parts [OF A ok cc yl(2)] by simp
  have un: "unat (of_nat (length (xs @ r # ys)) :: u8) = length (xs @ r # ys)" using l unfolding unat_of_nat by simp
  have i: "(length xs = length (xs @ r # ys) - 1) = False" "length (xs @ r # ys) - 1 - length xs = length ys"
    using False by simp_all
  have w': "w = ?Y" using w False by simp
  show ?thesis
    unfolding delete_network_body_def Let_def bindS_def throwS_def liftS_def un i if_False mf sk sum.case prod.case d ul blk option.case rd
    using wr by (simp add: w' catchS_def)
qed

lemma delete_network_ok:
  assumes ok: "nvram_ok s" and mal: "malloc_total mal" and rs: "networks_in (xs @ r # ys) s" and r: "is_network protocol index r"
  shows "\<exists>s'. NetworkDelete protocol mal index s = (Inr (), s') \<and> nvram_ok s' \<and>
    area_frame BOAT_STORE_NETWORK BOAT_STORE_TYPE_FLASH s s' \<and> networks_in (xs @ ys) s'"
proof -
  note A = flash_network_area [OF mal]
  let ?rd = "area_rd BOAT_STORE_NETWORK BOAT_STORE_TYPE_FLASH" and ?wr = "area_wr mal BOAT_STORE_NETWORK BOAT_STORE_TYPE_FLASH"
  let ?rs = "xs @ r # ys"
  let ?X = "concat (map network_enc xs)"
  let ?w = "if ys = [] then [0, 0, 0] else concat (map network_enc ys)"
  have h: "holds network_enc ?rs (network_content s)" and k: "list_all rec_ok ?rs" and l: "length ?rs \<le> 5" and i: "persistent_index index"
    and m: "index \<notin> rec_index ` set xs"
    using rs r by (auto simp: networks_in_def is_network_def)
  have ne: "?rs \<noteq> []" by simp
  note p = networks_nonempty [OF ok rs ne]
  obtain rest where cc: "network_content s = utility_get_NumBytes (of_nat (length ?rs)) @ concat (map network_enc ?rs) @ rest"
    using p(1) by blast
  have nm: "list_all (\<lambda>r. \<not> is_network protocol index r) xs" using m by (force simp: list_all_iff is_network_def)
  have k1: "list_all rec_ok (xs @ [r])" using k by simp
  have fk: "find_network protocol ?rd (length ?rs) 0 index 4 s =
      Inr (Some (length xs, of_nat (4 + length ?X), of_nat (length (rec_body r)), of_nat (length (L_bytes (of_nat (length (rec_body r)))))))"
    using storage_area.find_network_hit [OF A ok cc k1 nm r, of 0] by simp
  have wne: "?w \<noteq> []" using networks_ne [of ys] k by simp
  have "length (concat (map network_enc ?rs)) \<le> 5120 - 4"
    using cc storage_area.content_cap [OF A ok] by simp
  then have fit: "4 + length ?X + length ?w \<le> 5120"
    using k network_enc_size(1) [of r] by auto
  obtain s1 s2 where w: "?wr 0 (utility_get_NumBytes (of_nat (length ?rs) - 1)) s = (Inr (), s1)" "nvram_ok s1"
      "drop 4 (network_content s1) = drop 4 (network_content s)" "4 \<le> length (network_content s1)"
      "?wr (of_nat (4 + length ?X)) ?w s1 = (Inr (), s2)" "nvram_ok s2"
      "area_frame BOAT_STORE_NETWORK BOAT_STORE_TYPE_FLASH s s2" "holds network_enc (xs @ ys) (network_content s2)"
    using storage_area.remove_record [OF A ok h _ wne _ fit] l by auto
  have d: "drop 4 (network_content s1) = concat (map network_enc ?rs) @ rest" using w(3) cc by simp
  have "length ?rs < 256" using l by simp
  then have b: "delete_network_body mal (of_nat (length ?rs)) (length xs) (of_nat (4 + length ?X)) (of_nat (length (rec_body r)))
      (of_nat (length (L_bytes (of_nat (length (rec_body r)))))) s1 = (Inr (), s2)"
    using delete_network_body_ok [OF w(2) mal k _ d w(4) refl w(5)] by simp
  have z: "(index = 0) = False" "(of_nat 5 < index) = False" "((of_nat (length ?rs) :: u8) = 0) = False" using persistent_flash [OF i] p(4) by simp_all
  have "NetworkDelete protocol mal index s = (Inr (), s2)"
    unfolding NetworkDelete_def Let_def z if_False p(2) sum.case NumBytes_get p(3) fk option.case prod.case bindS_def w(1) b by simp
  moreover have "networks_in (xs @ ys) s2" using rs w(8) by (auto simp: networks_in_def)
  ultimately show ?thesis using w(6,7) by blast
qed

lemma delete_network_missing:
  assumes ok: "nvram_ok s" and rs: "networks_in rs s" and i: "list_all (\<lambda>r. \<not> is_network protocol i r) rs" "persistent_index i"
  shows "\<exists>e. NetworkDelete protocol mal i s = (Inl (Err e), s) \<and> (rs \<noteq> [] \<longrightarrow> e = BOAT_ERROR_NETWORK_INEXISTENCE)"
proof (cases "rs = []")
  case True
  then have "\<exists>num. read_num (area_rd BOAT_STORE_NETWORK BOAT_STORE_TYPE_FLASH) s = Inr num \<and> num = 0"
    using storage_area.read_num_ok [OF flash_network_area [OF heap_all_total] ok] rs by (auto simp: networks_in_def holds_def word_unat_eq_iff)
  then show ?thesis
    using True persistent_flash [OF i(2)] by (auto simp: NetworkDelete_def Let_def read_num_def split: sum.splits fail.splits)
next
  case False
  note p = networks_nonempty [OF ok rs False]
  obtain rest where cc: "network_content s = utility_get_NumBytes (of_nat (length rs)) @ concat (map network_enc rs) @ rest"
    using p(1) by blast
  have "find_network protocol (area_rd BOAT_STORE_NETWORK BOAT_STORE_TYPE_FLASH) (length rs) 0 i 4 s = Inr None"
    using storage_area.find_network_miss [OF flash_network_area [OF heap_all_total] ok cc _ i(1), of 0] rs by (simp add: networks_in_def)
  then show ?thesis using False p(2-4) NumBytes_get persistent_flash [OF i(2)] by (simp add: NetworkDelete_def Let_def)
qed

lemma create_onetime_network_ok:
  assumes ok: "nvram_ok s" and mal: "malloc_total mal" and os: "onetime_network_in os s" and cfg: "config_ok cfg"
  shows "\<exists>s'. NetworkCreate protocol mal (Some cfg) BOAT_STORE_TYPE_RAM s = (Inr 0, s') \<and> nvram_ok s' \<and>
    area_frame BOAT_STORE_NETWORK BOAT_STORE_TYPE_RAM s s' \<and> onetime_network_in [network_record_of protocol (created_network cfg 0)] s'"
proof -
  let ?d = "created_network cfg 0"
  note c = created_network_ok [OF cfg, of 0]
  have h: "holds network_enc os (onetime_network_content s)" and l: "length os \<le> 1" using os by (simp_all add: onetime_network_in_def)
  have num: "read_num (area_rd BOAT_STORE_NETWORK BOAT_STORE_TYPE_RAM) s = Inr (of_nat (length os))"
    by (rule read_num_holds [OF ram_network_area [OF mal] ok h]) simp
  have u: "unat (of_nat (length os) :: u8) < 5" using l unfolding unat_of_nat by simp
  have "4 + length (concat (map network_enc [])) + length (network_enc (network_record_of protocol ?d)) \<le> area_cap BOAT_STORE_NETWORK BOAT_STORE_TYPE_RAM"
    using network_enc_size(2) [OF c(1), of protocol] by simp
  then obtain s' where s': "NetworkDataCtx_Store protocol mal ?d BOAT_STORE_TYPE_RAM s = (Inr (), s')" "nvram_ok s'"
      "area_frame BOAT_STORE_NETWORK BOAT_STORE_TYPE_RAM s s'" "holds network_enc [network_record_of protocol ?d] (onetime_network_content s')"
    using network_store_ok [OF ok mal _ num u, of "[]" ?d protocol] c(1) by (auto simp: holds_prefix_def)
  have "\<lparr>networkIndex = 0, chain_id = cfg_chain_id cfg, eip155_compatibility = cfg_eip155_compatibility cfg, node_url_str = node_url_str ?d\<rparr> = ?d"
    by (simp add: created_network_def Let_def)
  then have "NetworkCreate protocol mal (Some cfg) BOAT_STORE_TYPE_RAM s = (Inr 0, s')"
    unfolding NetworkCreate_def option.case liftS_def bindS_def c(3) using s'(1) by (simp add: Let_def)
  moreover have "onetime_network_in [network_record_of protocol ?d] s'"
    using s'(4) network_record_ok [OF c(1)] c(2) by (simp add: onetime_network_in_def network_record_of_def)
  ultimately show ?thesis using s'(2,3) by auto
qed

lemma onetime_num:
  assumes "nvram_ok s" "onetime_network_in os s"
  shows "area_rd BOAT_STORE_NETWORK BOAT_STORE_TYPE_RAM 4 0 4 s = Inr (take 4 (onetime_network_content s))"
    "os \<noteq> [] \<Longrightarrow> take 4 (onetime_network_content s) = utility_get_NumBytes 1"
    "read_num (area_rd BOAT_STORE_NETWORK BOAT_STORE_TYPE_RAM) s = Inr (of_nat (length os))"
proof -
  have h: "holds network_enc os (onetime_network_content s)" "length os \<le> 1" using assms(2) by (simp_all add: onetime_network_in_def)
  have "1024 = length (onetime_network_content s)" using assms(1) by (auto simp: area_content_def nvram_ok_def)
  then show "area_rd BOAT_STORE_NETWORK BOAT_STORE_TYPE_RAM 4 0 4 s = Inr (take 4 (onetime_network_content s))"
    using storage_area.rd_ok [OF ram_network_area [OF heap_all_total] assms(1), of 4 4 0] by simp
  show "read_num (area_rd BOAT_STORE_NETWORK BOAT_STORE_TYPE_RAM) s = Inr (of_nat (length os))"
    by (rule read_num_holds [OF ram_network_area [OF heap_all_total] assms(1) h(1)]) simp
  assume ne: "os \<noteq> []"
  then have "length os = 1" using h(2) by (cases os) simp_all
  then show "take 4 (onetime_network_content s) = utility_get_NumBytes 1"
    using holds_content [OF h(1) ne] by auto
qed

lemma get_onetime_network:
  assumes ok: "nvram_ok s" and os: "onetime_network_in [network_record_of protocol d] s" and d: "net_ok d" and old: "url_sized old"
  shows "GetNetworkByIndex protocol 0 s (Some old) = (Inr (), Some (read_into d old))"
proof -
  have i: "networkIndex d = 0" using os by (simp add: onetime_network_in_def network_record_of_def)
  have ne: "[network_record_of protocol d] \<noteq> []" by simp
  note p = onetime_num [OF ok os]
  obtain pre rest where cc: "onetime_network_content s = pre @ concat (map network_enc ([] @ network_record_of protocol d # [])) @ rest" "length pre = 4"
    using holds_split [of network_enc "[network_record_of protocol d]" "onetime_network_content s"] os by (auto simp: onetime_network_in_def)
  have g: "get_network_loop protocol (area_rd BOAT_STORE_NETWORK BOAT_STORE_TYPE_RAM) 1 0 4 s old = (Inr (), read_into d old)"
    using storage_area.get_network_hit [OF ram_network_area [OF heap_all_total] ok cc(1) _ _ d old] cc(2) i by simp
  have z: "(of_nat 5 < (0::u8)) = False" "(1 = (0::u8)) = False" by simp_all
  show ?thesis
    unfolding GetNetworkByIndex_def option.case Let_def z if_False simp_thms if_True p(1) p(2) [OF ne] sum.case NumBytes_get
    using g by simp
qed

lemma network_list_area:
  assumes A: "storage_area rd wr nvram_ok content cap frame" and ok: "nvram_ok s"
    and h: "holds network_enc rs (content s)" and k: "list_all rec_ok rs" and o: "own_networks protocol rs ds"
    and nl: "list_all url_sized (networks nl)" "slot + length ds \<le> length (networks nl)"
  shows "network_list_loop protocol rd (length rs) slot 4 s nl =
    (Inr (slot + length ds), nl\<lparr>networks := fill_networks slot ds (networks nl)\<rparr>) \<and>
    list_all url_sized (fill_networks slot ds (networks nl))"
proof (cases "rs = []")
  case True
  then have "ds = []" using o by (simp add: own_networks_def)
  then show ?thesis using True nl by simp
next
  case False
  then obtain pre rest where p: "content s = pre @ concat (map network_enc rs) @ rest" "length pre = 4"
    using holds_split [OF h] by blast
  then show ?thesis using storage_area.network_list_loop_ok [OF A ok p(1) k o nl] by simp
qed

lemma network_list_filled:
  assumes ok: "nvram_ok s" and rs: "networks_in rs s" "own_networks protocol rs ds"
    and os: "onetime_network_in os s" "own_networks protocol os es"
    and nl: "length (networks nl) = 6" "list_all url_sized (networks nl)"
  shows "GetNetworkList protocol s (Some nl) = (Inr (), Some (nl\<lparr>networkNum := of_nat (length rs + length os),
     networks := fill_networks (length ds) es (fill_networks 0 ds (networks nl))\<rparr>))"
proof -
  let ?F = "area_rd BOAT_STORE_NETWORK BOAT_STORE_TYPE_FLASH" and ?R = "area_rd BOAT_STORE_NETWORK BOAT_STORE_TYPE_RAM"
  note F = flash_network_area [OF heap_all_total] and R = ram_network_area [OF heap_all_total]
  have h: "holds network_enc rs (network_content s)" "list_all rec_ok rs" "length rs \<le> 5"
    and g: "holds network_enc os (onetime_network_content s)" "list_all rec_ok os" "length os \<le> 1"
    using rs(1) os(1) by (simp_all add: networks_in_def onetime_network_in_def)
  have dl: "length ds \<le> length rs" "length es \<le> length os"
    using arg_cong [OF rs(2) [unfolded own_networks_def, THEN conjunct1], of length] arg_cong [OF os(2) [unfolded own_networks_def, THEN conjunct1], of length]
    by (simp_all, metis length_filter_le, metis length_filter_le)
  have nF: "read_num ?F s = Inr (of_nat (length rs))" by (rule read_num_holds [OF F ok h(1)]) simp
  note nR = onetime_num(3,1) [OF ok os(1)]
  have u: "unat (of_nat (length rs) :: u8) = length rs" "unat (of_nat (length os) :: u8) = length os"
    using h(3) g(3) unfolding unat_of_nat by simp_all
  have l1: "network_list_loop protocol ?F (length rs) 0 4 s (nl\<lparr>networkNum := of_nat (length rs)\<rparr>) =
      (Inr (length ds), nl\<lparr>networkNum := of_nat (length rs), networks := fill_networks 0 ds (networks nl)\<rparr>)"
    and z: "list_all url_sized (fill_networks 0 ds (networks nl))"
    using network_list_area [OF F ok h(1,2) rs(2), of "nl\<lparr>networkNum := of_nat (length rs)\<rparr>" 0] nl dl h(3) by simp_all
  have l2: "network_list_loop protocol ?R (length os) (length ds) 4 s
      (nl\<lparr>networkNum := of_nat (length rs) + of_nat (length os), networks := fill_networks 0 ds (networks nl)\<rparr>) =
      (Inr (length ds + length es), nl\<lparr>networkNum := of_nat (length rs) + of_nat (length os),
         networks := fill_networks (length ds) es (fill_networks 0 ds (networks nl))\<rparr>)"
    using network_list_area [OF R ok g(1,2) os(2), of "nl\<lparr>networkNum := of_nat (length rs) + of_nat (length os),
      networks := fill_networks 0 ds (networks nl)\<rparr>" "length ds"] nl z dl h(3) g(3) by simp
  show ?thesis
    using l1 l2 by (cases nl) (simp add: GetNetworkList_def Let_def bindS_def liftS_def updS_def nF nR u)
qed

lemma fill_networks_nth:
  "slot + length ds \<le> length es \<Longrightarrow> k < length es \<Longrightarrow>
    fill_networks slot ds es ! k = (if slot \<le> k \<and> k < slot + length ds then read_into (ds ! (k - slot)) (es ! k) else es ! k)"
proof (induction slot ds es rule: fill_networks.induct)
  case (2 slot d ds es)
  then show ?case by (cases "k = slot") (auto simp: nth_Cons' Suc_diff_le)
qed auto

lemma read_into_fields:
  assumes "net_ok d"
  shows "networkIndex (read_into d old) = networkIndex d" "chain_id (read_into d old) = chain_id d"
    "eip155_compatibility (read_into d old) = eip155_compatibility d" "c_string (node_url_str (read_into d old)) = c_string (node_url_str d)"
proof -
  show "networkIndex (read_into d old) = networkIndex d" "chain_id (read_into d old) = chain_id d"
    "eip155_compatibility (read_into d old) = eip155_compatibility d" by (simp_all add: read_into_def)
  have "takeWhile (\<lambda>x. x \<noteq> 0) (net_url d @ 0 # zs) = net_url d" for zs
    unfolding net_url_def by (simp add: takeWhile_append takeWhile_tail)
  then show "c_string (node_url_str (read_into d old)) = c_string (node_url_str d)"
    using net_fields(9) [OF assms] by (simp add: c_string_def read_into_def)
qed

lemma created_network_string:
  assumes "config_ok cfg"
  shows "c_string (node_url_str (created_network cfg i)) = c_string (cfg_node_url_str cfg)"
  using net_fields(9) [OF created_network_ok(1) [OF assms], of i] created_network_ok(4) [OF assms, of i] assms
  by (simp add: c_string_def config_ok_def)

lemma networks_in_tail: "networks_in (xs @ r # ys) s \<Longrightarrow> rec_index r \<notin> rec_index ` set (xs @ ys)"
  by (auto simp: networks_in_def)

lemma blank_networks: "networks_in [] blank_device" "onetime_network_in [] blank_device"
  "networks_in [] blank_device_large" "onetime_network_in [] blank_device_large"
  by (simp_all add: networks_in_def onetime_network_in_def holds_def area_num_def area_content_def file_bytes_def blank_device_def
      blank_device_large_def utility_check_NumBytes_def)

lemma networks_in_frame: "area_frame f t s s' \<Longrightarrow> (BOAT_STORE_NETWORK, BOAT_STORE_TYPE_FLASH) \<noteq> (f, t) \<Longrightarrow> networks_in rs s \<Longrightarrow> networks_in rs s'"
  by (auto simp: networks_in_def area_frame_def intro: holds_zero_extends)

lemma onetime_network_frame: "area_frame f t s s' \<Longrightarrow> (BOAT_STORE_NETWORK, BOAT_STORE_TYPE_RAM) \<noteq> (f, t) \<Longrightarrow> onetime_network_in os s \<Longrightarrow> onetime_network_in os s'"
  by (auto simp: onetime_network_in_def area_frame_def intro: holds_zero_extends)

lemma counter_written:
  assumes ok: "nvram_ok s" and rs: "networks_in (ps @ [r]) s"
  shows "\<exists>s'. area_wr mal BOAT_STORE_NETWORK BOAT_STORE_TYPE_FLASH 0 (utility_get_NumBytes (of_nat (length (ps @ [r])) - 1)) s = (Inr (), s') \<and>
    nvram_ok s' \<and> networks_in ps s' \<and> drop 4 (network_content s') = drop 4 (network_content s)"
proof -
  note A = flash_network_area [OF heap_all_total]
  let ?wr = "area_wr heap_all BOAT_STORE_NETWORK BOAT_STORE_TYPE_FLASH" and ?num = "utility_get_NumBytes (of_nat (length ps))"
  have h: "holds network_enc (ps @ [r]) (network_content s)" and l: "length ps < 5" using rs by (simp_all add: networks_in_def)
  obtain rest where c: "network_content s = utility_get_NumBytes (of_nat (length (ps @ [r]))) @ concat (map network_enc (ps @ [r])) @ rest"
    using holds_content [OF h] by blast
  obtain s' where s': "?wr 0 ?num s = (Inr (), s')" "nvram_ok s'" "network_content s' = overlay (network_content s) 0 ?num"
    using storage_area.wr_ok [OF A ok NumBytes_ne, of 0 "of_nat (length ps)"] by auto
  have d: "drop 4 (network_content s') = drop 4 (network_content s)" by (simp add: s'(3) overlay_head)
  have "drop 4 (network_content s') = concat (map network_enc ps) @ (network_enc r @ rest)" by (simp add: d c)
  then have "holds network_enc ps (network_content s')" using l s'(3)
    by (intro holds_intro [of _ _ _ "network_enc r @ rest"]) (simp_all add: overlay_head)
  then have "networks_in ps s'" using rs by (auto simp: networks_in_def)
  moreover have "network_content s \<noteq> []" by (simp add: c)
  then have "area_wr mal BOAT_STORE_NETWORK BOAT_STORE_TYPE_FLASH 0 ?num s = (Inr (), s')"
    using counter_wr_no_malloc [OF ok, of BOAT_STORE_NETWORK mal] s'(1) by simp
  ultimately show ?thesis using s'(2) d by auto
qed

lemma foreign_not_network:
  assumes "distinct (map rec_index rs)" "r \<in> set rs" "rec_protocol r \<noteq> protocol_rep protocol"
  shows "list_all (\<lambda>q. \<not> is_network protocol (rec_index r) q) rs"
  using assms by (auto simp: list_all_iff is_network_def distinct_map dest: inj_onD)

text \<open>
  C18: A network that is created in the persistent store gets the least index from 1 to 5 that no network of any protocol has, and reading
  that index gives back its chain id, EIP-155 flag and URL; the networks that were there, of whatever protocol, stay readable.
\<close>

theorem create_network:
  assumes "nvram_ok s" "malloc_total mal" "networks_in rs s" "length rs < 5" "config_ok cfg"
    "149 + length (concat (map network_enc rs)) \<le> 5120" "url_sized old"
  shows "\<exists>i d s'. NetworkCreate protocol mal (Some cfg) BOAT_STORE_TYPE_FLASH s = (Inr i, s') \<and>
    i = of_nat (the (free_network_index rs)) \<and> i \<notin> rec_index ` set rs \<and>
    GetNetworkByIndex protocol i s' (Some old) = (Inr (), Some d) \<and> networkIndex d = i \<and> chain_id d = cfg_chain_id cfg \<and>
    eip155_compatibility d = cfg_eip155_compatibility cfg \<and> c_string (node_url_str d) = c_string (cfg_node_url_str cfg) \<and>
    (\<forall>p e. network_record_of p e \<in> set rs \<longrightarrow> net_ok e \<longrightarrow>
       GetNetworkByIndex p (networkIndex e) s' (Some old) = (Inr (), Some (read_into e old)))"
proof -
  obtain i s' where c: "NetworkCreate protocol mal (Some cfg) BOAT_STORE_TYPE_FLASH s = (Inr i, s')" "i = of_nat (the (free_network_index rs))"
      "i \<notin> rec_index ` set rs" "nvram_ok s'" "networks_in (rs @ [network_record_of protocol (created_network cfg i)]) s'"
    using create_network_ok [OF assms(1-6), of protocol] by blast
  note n = created_network_ok(1,2) [OF assms(5), of i]
  have g: "GetNetworkByIndex protocol i s' (Some old) = (Inr (), Some (read_into (created_network cfg i) old))"
    using get_network_found [OF c(4,5) _ n(1) assms(7)] n(2) by simp
  have o: "GetNetworkByIndex p (networkIndex e) s' (Some old) = (Inr (), Some (read_into e old))"
    if "network_record_of p e \<in> set rs" "net_ok e" for p e
    using get_network_found [OF c(4,5) _ that(2) assms(7)] that(1) by simp
  show ?thesis
    using c(1-3) g o read_into_fields [OF n(1), of old] n(2) created_network_string [OF assms(5), of i]
    by (intro exI [of _ i] exI [of _ "read_into (created_network cfg i) old"] exI [of _ s']) (simp add: created_network_def Let_def)
qed

lemma eth_cfg_ok: "config_ok eth_cfg"
  by (simp add: config_ok_def eth_cfg_def)

lemma init_sized: "url_sized NetworkDataInit"
  by (simp add: url_sized_def NetworkDataInit_def)

theorem create_network_witness:
  "\<exists>i d s'. NetworkCreate BOAT_PROTOCOL_ETHEREUM heap_all (Some eth_cfg) BOAT_STORE_TYPE_FLASH blank_device = (Inr i, s') \<and> i = 1 \<and>
    GetNetworkByIndex BOAT_PROTOCOL_ETHEREUM i s' (Some NetworkDataInit) = (Inr (), Some d) \<and> chain_id d = 5777"
proof -
  have "(of_nat (the (free_network_index [])) :: u8) = 1" by (simp add: free_network_index_def upt_conv_Cons)
  then show ?thesis
    using create_network [OF blank_device_ok(1) heap_all_total blank_networks(1) _ eth_cfg_ok _ init_sized, of BOAT_PROTOCOL_ETHEREUM]
    by (auto simp: eth_cfg_def)
qed

lemma one_network: "\<exists>s. nvram_ok s \<and> networks_in [network_record_of protocol (created_network eth_cfg 1)] s \<and> onetime_network_in [] s"
proof -
  have one: "(of_nat (the (free_network_index [])) :: u8) = 1" by (simp add: free_network_index_def upt_conv_Cons)
  have "\<exists>i s'. i = 1 \<and> nvram_ok s' \<and> area_frame BOAT_STORE_NETWORK BOAT_STORE_TYPE_FLASH blank_device s' \<and>
      networks_in [network_record_of protocol (created_network eth_cfg i)] s'"
    using create_network_ok [OF blank_device_ok(1) heap_all_total blank_networks(1) _ eth_cfg_ok, of protocol] one by auto
  then obtain s' where s': "nvram_ok s'" "area_frame BOAT_STORE_NETWORK BOAT_STORE_TYPE_FLASH blank_device s'"
      "networks_in [network_record_of protocol (created_network eth_cfg 1)] s'" by blast
  moreover have "onetime_network_in [] s'" by (rule onetime_network_frame [OF s'(2) _ blank_networks(2)]) simp
  ultimately show ?thesis by blast
qed

text \<open>
  C28: Deleting a network removes exactly it: afterwards its index is not found, and every other network, of its own or another protocol,
  reads as before.
\<close>

theorem delete_network:
  assumes "nvram_ok s" "malloc_total mal" "networks_in (xs @ network_record_of protocol d # ys) s" "url_sized old"
  shows "\<exists>s'. NetworkDelete protocol mal (networkIndex d) s = (Inr (), s') \<and> networks_in (xs @ ys) s' \<and>
    (\<exists>e. GetNetworkByIndex protocol (networkIndex d) s' (Some old) = (Inl (Err e), Some old)) \<and>
    (\<forall>p e. network_record_of p e \<in> set (xs @ ys) \<longrightarrow> net_ok e \<longrightarrow>
       GetNetworkByIndex p (networkIndex e) s' (Some old) = (Inr (), Some (read_into e old)))"
proof -
  let ?r = "network_record_of protocol d"
  have r: "is_network protocol (networkIndex d) ?r" by (simp add: is_network_def network_record_of_def)
  obtain s' where s': "NetworkDelete protocol mal (networkIndex d) s = (Inr (), s')" "nvram_ok s'" "networks_in (xs @ ys) s'"
    using delete_network_ok [OF assms(1-3) r] by blast
  have "persistent_index (networkIndex d)" "networkIndex d \<notin> rec_index ` set (xs @ ys)"
    using assms(3) networks_in_tail [OF assms(3)] by (auto simp: networks_in_def network_record_of_def)
  then have "\<exists>e. GetNetworkByIndex protocol (networkIndex d) s' (Some old) = (Inl (Err e), Some old)"
    using get_network_missing [OF s'(2,3), of protocol "networkIndex d" old] by (force simp: list_all_iff is_network_def)
  moreover have "GetNetworkByIndex p (networkIndex e) s' (Some old) = (Inr (), Some (read_into e old))"
    if "network_record_of p e \<in> set (xs @ ys)" "net_ok e" for p e
    by (rule get_network_found [OF s'(2,3) that assms(4)])
  ultimately show ?thesis using s' by blast
qed

theorem delete_network_witness:
  "\<exists>s s'. networks_in [network_record_of BOAT_PROTOCOL_QUORUM (created_network eth_cfg 1)] s \<and>
    NetworkDelete BOAT_PROTOCOL_QUORUM heap_all 1 s = (Inr (), s') \<and> networks_in [] s'"
proof -
  obtain s where s: "nvram_ok s" "networks_in [network_record_of BOAT_PROTOCOL_QUORUM (created_network eth_cfg 1)] s"
    using one_network [of BOAT_PROTOCOL_QUORUM] by blast
  have "networkIndex (created_network eth_cfg 1) = 1" by (rule created_network_ok(2) [OF eth_cfg_ok])
  then show ?thesis
    using delete_network [OF s(1) heap_all_total, of "[]" BOAT_PROTOCOL_QUORUM "created_network eth_cfg 1" "[]", OF _ init_sized] s(2) by auto
qed

text \<open>
  The protocols share one range of indices but not their networks: with the index of another protocol's network neither deletion nor
  reading finds anything, both answer with the code for a missing network, and the storage stays as it is.
\<close>

theorem foreign_network_untouched:
  assumes "nvram_ok s" "networks_in rs s" "r \<in> set rs" "rec_protocol r \<noteq> protocol_rep protocol"
  shows "NetworkDelete protocol mal (rec_index r) s = (Inl (Err BOAT_ERROR_NETWORK_INEXISTENCE), s) \<and>
    GetNetworkByIndex protocol (rec_index r) s (Some old) = (Inl (Err BOAT_ERROR_NETWORK_INEXISTENCE), Some old)"
proof -
  have n: "list_all (\<lambda>q. \<not> is_network protocol (rec_index r) q) rs" "persistent_index (rec_index r)" "rs \<noteq> []"
    using foreign_not_network [OF _ assms(3,4)] assms(2,3) by (auto simp: networks_in_def list_all_iff)
  have "NetworkDelete protocol mal (rec_index r) s = (Inl (Err BOAT_ERROR_NETWORK_INEXISTENCE), s)"
    using delete_network_missing [OF assms(1,2) n(1,2), of mal] n(3) by auto
  moreover have "GetNetworkByIndex protocol (rec_index r) s (Some old) = (Inl (Err BOAT_ERROR_NETWORK_INEXISTENCE), Some old)"
    using get_network_missing [OF assms(1,2) n(1,2), of old] n(3) by auto
  ultimately show ?thesis ..
qed

theorem foreign_network_untouched_witness:
  "\<exists>s. networks_in [network_record_of BOAT_PROTOCOL_PLATON (created_network eth_cfg 1)] s \<and>
    NetworkDelete BOAT_PROTOCOL_ETHEREUM heap_all 1 s = (Inl (Err BOAT_ERROR_NETWORK_INEXISTENCE), s)"
proof -
  let ?r = "network_record_of BOAT_PROTOCOL_PLATON (created_network eth_cfg 1)"
  obtain s where s: "nvram_ok s" "networks_in [?r] s" using one_network [of BOAT_PROTOCOL_PLATON] by blast
  have "rec_index ?r = 1" "rec_protocol ?r \<noteq> protocol_rep BOAT_PROTOCOL_ETHEREUM"
    using created_network_ok(2) [OF eth_cfg_ok, of 1] by (simp_all add: network_record_of_def protocol_rep_def)
  then show ?thesis using foreign_network_untouched [OF s, of ?r BOAT_PROTOCOL_ETHEREUM heap_all] s(2) by auto
qed

text \<open>
  C33: The network list holds the persistent networks of the protocol in storage order, then its one-time network, and leaves the other slots
  alone; but its count is that of the networks of all protocols, so with networks of other protocols around it exceeds the slots that were filled.
\<close>

theorem network_list:
  assumes "nvram_ok s" "networks_in rs s" "own_networks protocol rs ds" "onetime_network_in os s" "own_networks protocol os es"
    "length (networks nl) = 6" "list_all url_sized (networks nl)"
  shows "\<exists>nl'. GetNetworkList protocol s (Some nl) = (Inr (), Some nl') \<and> unat (networkNum nl') = length rs + length os \<and>
    length (networks nl') = 6 \<and>
    (\<forall>k < 6. networks nl' ! k = (if k < length (ds @ es) then read_into ((ds @ es) ! k) (networks nl ! k) else networks nl ! k))"
proof -
  let ?E = "fill_networks (length ds) es (fill_networks 0 ds (networks nl))"
  have l: "length rs \<le> 5" "length os \<le> 1" using assms(2,4) by (simp_all add: networks_in_def onetime_network_in_def)
  have dl: "length ds \<le> length rs" "length es \<le> length os"
    using arg_cong [OF assms(3) [unfolded own_networks_def, THEN conjunct1], of length] arg_cong [OF assms(5) [unfolded own_networks_def, THEN conjunct1], of length]
    by (simp_all, metis length_filter_le, metis length_filter_le)
  have "?E ! k = (if k < length (ds @ es) then read_into ((ds @ es) ! k) (networks nl ! k) else networks nl ! k)" if "k < 6" for k
    using that dl l assms(6) by (auto simp: fill_networks_nth nth_append)
  moreover have "unat (of_nat (length rs + length os) :: u8) = length rs + length os" using l unfolding unat_of_nat by simp
  ultimately show ?thesis using network_list_filled [OF assms] assms(6) by simp
qed

theorem network_list_witness:
  "\<exists>s nl nl'. networks_in [network_record_of BOAT_PROTOCOL_PLATON (created_network eth_cfg 1)] s \<and>
    GetNetworkList BOAT_PROTOCOL_ETHEREUM s (Some nl) = (Inr (), Some nl') \<and> unat (networkNum nl') = 1 \<and> networks nl' ! 0 = networks nl ! 0"
proof -
  let ?r = "network_record_of BOAT_PROTOCOL_PLATON (created_network eth_cfg 1)"
  let ?nl = "\<lparr>networkNum = 0, networks = replicate 6 NetworkDataInit\<rparr>"
  obtain s where s: "nvram_ok s" "networks_in [?r] s" "onetime_network_in [] s" using one_network [of BOAT_PROTOCOL_PLATON] by blast
  have "own_networks BOAT_PROTOCOL_ETHEREUM [?r] []" "own_networks BOAT_PROTOCOL_ETHEREUM [] []"
    by (simp_all add: own_networks_def network_record_of_def protocol_rep_def)
  moreover have "length (networks ?nl) = 6" "list_all url_sized (networks ?nl)" using init_sized by (simp_all add: list_all_iff)
  ultimately obtain nl' where "GetNetworkList BOAT_PROTOCOL_ETHEREUM s (Some ?nl) = (Inr (), Some nl')" "unat (networkNum nl') = 1"
      "\<forall>k < 6. networks nl' ! k = networks ?nl ! k"
    using network_list [OF s(1,2) _ s(3), of BOAT_PROTOCOL_ETHEREUM "[]" "[]" ?nl] by auto
  then show ?thesis using s(2) by (metis zero_less_numeral)
qed

text \<open>
  There is one one-time network: creating one replaces that of whichever protocol was there, it reads back under index 0, and
  the persistent networks are not affected.
\<close>

theorem create_onetime_network:
  assumes "nvram_ok s" "malloc_total mal" "onetime_network_in os s" "networks_in rs s" "config_ok cfg" "url_sized old"
  shows "\<exists>d s'. NetworkCreate protocol mal (Some cfg) BOAT_STORE_TYPE_RAM s = (Inr 0, s') \<and>
    GetNetworkByIndex protocol 0 s' (Some old) = (Inr (), Some d) \<and> chain_id d = cfg_chain_id cfg \<and>
    eip155_compatibility d = cfg_eip155_compatibility cfg \<and> c_string (node_url_str d) = c_string (cfg_node_url_str cfg) \<and>
    onetime_network_in [network_record_of protocol (created_network cfg 0)] s' \<and> networks_in rs s'"
proof -
  obtain s' where s': "NetworkCreate protocol mal (Some cfg) BOAT_STORE_TYPE_RAM s = (Inr 0, s')" "nvram_ok s'"
      "area_frame BOAT_STORE_NETWORK BOAT_STORE_TYPE_RAM s s'" "onetime_network_in [network_record_of protocol (created_network cfg 0)] s'"
    using create_onetime_network_ok [OF assms(1-3,5), of protocol] by blast
  note n = created_network_ok(1,2) [OF assms(5), of 0]
  have "networks_in rs s'" by (rule networks_in_frame [OF s'(3) _ assms(4)]) simp
  moreover have "GetNetworkByIndex protocol 0 s' (Some old) = (Inr (), Some (read_into (created_network cfg 0) old))"
    by (rule get_onetime_network [OF s'(2,4) n(1) assms(6)])
  ultimately show ?thesis
    using s'(1,4) read_into_fields [OF n(1), of old] created_network_string [OF assms(5), of 0]
    by (intro exI [of _ "read_into (created_network cfg 0) old"] exI [of _ s']) (simp add: created_network_def Let_def)
qed

theorem create_onetime_network_witness:
  "\<exists>s'. NetworkCreate BOAT_PROTOCOL_VENACHAIN heap_all (Some eth_cfg) BOAT_STORE_TYPE_RAM blank_device = (Inr 0, s') \<and>
    onetime_network_in [network_record_of BOAT_PROTOCOL_VENACHAIN (created_network eth_cfg 0)] s'"
  using create_onetime_network [OF blank_device_ok(1) heap_all_total blank_networks(2,1) eth_cfg_ok init_sized, of BOAT_PROTOCOL_VENACHAIN] by auto

text \<open>
  When the buffer for the move cannot be allocated, deletion reports that it is out of memory, but the counter has
  been decremented and is not put back: the network to be deleted is still there and the last one is lost.
\<close>

theorem delete_network_no_memory:
  assumes "nvram_ok s" "networks_in (xs @ r # ys) s" "is_network protocol index r" "ys \<noteq> []"
    "mal (length (concat (map network_enc ys))) = None"
  shows "\<exists>s'. NetworkDelete protocol mal index s = (Inl (Err BOAT_ERROR_COMMON_OUT_OF_MEMORY), s') \<and> networks_in (xs @ r # butlast ys) s'"
proof -
  note A = flash_network_area [OF heap_all_total]
  let ?rd = "area_rd BOAT_STORE_NETWORK BOAT_STORE_TYPE_FLASH" and ?rs = "xs @ r # ys" and ?X = "concat (map network_enc xs)" and ?Y = "concat (map network_enc ys)"
  have h: "holds network_enc ?rs (network_content s)" and k: "list_all rec_ok (xs @ [r])" "list_all rec_ok ys" and l: "length ?rs \<le> 5" and i: "persistent_index index"
    and m: "index \<notin> rec_index ` set xs"
    using assms(2,3) by (auto simp: networks_in_def is_network_def)
  have ne: "?rs \<noteq> []" by simp
  note p = networks_nonempty [OF assms(1,2) ne]
  obtain rest where cc: "network_content s = utility_get_NumBytes (of_nat (length ?rs)) @ concat (map network_enc ?rs) @ rest"
    using p(1) by blast
  have nm: "list_all (\<lambda>r. \<not> is_network protocol index r) xs" using m by (force simp: list_all_iff is_network_def)
  have fk: "find_network protocol ?rd (length ?rs) 0 index 4 s =
      Inr (Some (length xs, of_nat (4 + length ?X), of_nat (length (rec_body r)), of_nat (length (L_bytes (of_nat (length (rec_body r)))))))"
    using storage_area.find_network_hit [OF A assms(1) cc k(1) nm assms(3), of 0] by simp
  have "?rs = (xs @ r # butlast ys) @ [last ys]" using assms(4) by simp
  then obtain s1 where s1: "area_wr mal BOAT_STORE_NETWORK BOAT_STORE_TYPE_FLASH 0 (utility_get_NumBytes (of_nat (length ?rs) - 1)) s = (Inr (), s1)"
      "nvram_ok s1" "networks_in (xs @ r # butlast ys) s1" "drop 4 (network_content s1) = drop 4 (network_content s)"
    using counter_written [of s "xs @ r # butlast ys" "last ys" mal] assms(1,2) by metis
  define pre where "pre = take 4 (network_content s1) @ ?X @ network_enc r"
  have l4: "length (take 4 (network_content s1)) = 4"
    using holds_content [of network_enc "xs @ r # butlast ys" "network_content s1"] s1(3) by (auto simp: networks_in_def)
  have c1: "network_content s1 = pre @ ?Y @ rest"
    using s1(4) cc append_take_drop_id [of 4 "network_content s1"] by (simp add: pre_def)
  have mf: "of_nat (4 + length ?X) + 4 + 1 + (of_nat (length (L_bytes (of_nat (length (rec_body r))))) + of_nat (length (rec_body r))) =
      (of_nat (length pre) :: u32)"
    using l4 k(1) by (simp add: pre_def network_enc_def length_lv rec_ok_def)
  have sk: "skip_networks ?rd (length ys) (of_nat (length pre)) s1 = Inr (of_nat (length pre + length ?Y))"
    by (rule storage_area.skip_networks_ok [OF A s1(2) c1 k(2)])
  have d: "of_nat (length pre + length ?Y) - of_nat (length pre) = (of_nat (length ?Y) :: u32)" by simp
  have "length ?Y \<le> 5120" using c1 storage_area.content_cap [OF A s1(2)] by simp
  then have ul: "unat (of_nat (length ?Y) :: u32) = length ?Y" by (intro unat_of_nat_u32) simp
  have un: "unat (of_nat (length ?rs) :: u8) = length ?rs" by (rule p(3))
  have e: "(length xs = length ?rs - 1) = False" "length ?rs - 1 - length xs = length ys" using assms(4) by simp_all
  have b: "delete_network_body mal (of_nat (length ?rs)) (length xs) (of_nat (4 + length ?X)) (of_nat (length (rec_body r)))
      (of_nat (length (L_bytes (of_nat (length (rec_body r)))))) s1 = (Inl (Err BOAT_ERROR_COMMON_OUT_OF_MEMORY), s1)"
    unfolding delete_network_body_def Let_def bindS_def liftS_def un e if_False mf sk sum.case prod.case d ul assms(5) option.case ..
  have z: "(index = 0) = False" "(of_nat 5 < index) = False" "((of_nat (length ?rs) :: u8) = 0) = False" using persistent_flash [OF i] p(4) by simp_all
  have "NetworkDelete protocol mal index s = (Inl (Err BOAT_ERROR_COMMON_OUT_OF_MEMORY), s1)"
    unfolding NetworkDelete_def Let_def z if_False p(2) sum.case NumBytes_get p(3) fk option.case prod.case bindS_def s1(1) b ..
  then show ?thesis using s1(3) by blast
qed

theorem delete_network_no_memory_witness:
  "\<exists>s s' r r'. networks_in [r, r'] s \<and>
    NetworkDelete BOAT_PROTOCOL_ETHEREUM (\<lambda>n. None) (rec_index r) s = (Inl (Err BOAT_ERROR_COMMON_OUT_OF_MEMORY), s') \<and> networks_in [r] s'"
proof -
  let ?r = "network_record_of BOAT_PROTOCOL_ETHEREUM (created_network eth_cfg 1)"
  obtain s where s: "nvram_ok s" "networks_in [?r] s" using one_network [of BOAT_PROTOCOL_ETHEREUM] by blast
  have "149 + length (concat (map network_enc [?r])) \<le> 5120"
    using network_enc_size(2) [OF created_network_ok(1) [OF eth_cfg_ok], of BOAT_PROTOCOL_ETHEREUM 1] by simp
  then obtain i s' where s': "nvram_ok s'" "networks_in ([?r] @ [network_record_of BOAT_PROTOCOL_ETHEREUM (created_network eth_cfg i)]) s'"
    using create_network_ok [OF s(1) heap_all_total s(2) _ eth_cfg_ok, of BOAT_PROTOCOL_ETHEREUM] by auto
  have n: "is_network BOAT_PROTOCOL_ETHEREUM (rec_index ?r) ?r" by (simp add: is_network_def network_record_of_def)
  let ?q = "network_record_of BOAT_PROTOCOL_ETHEREUM (created_network eth_cfg i)"
  have rs: "networks_in ([] @ ?r # [?q]) s'" using s'(2) by simp
  obtain t where "NetworkDelete BOAT_PROTOCOL_ETHEREUM (\<lambda>n. None) (rec_index ?r) s' = (Inl (Err BOAT_ERROR_COMMON_OUT_OF_MEMORY), t)"
      "networks_in ([] @ ?r # butlast [?q]) t"
    using delete_network_no_memory [OF s'(1) rs n, of "\<lambda>n. None"] by auto
  then show ?thesis using rs by (metis append_Nil butlast.simps(2))
qed

end
