(* ===== verification/Boat_SendTx.thy ===== *)
theory Boat_SendTx
  imports Boat_Web3 Boat_Wallet Boat_Network Boat_Tlv
begin

text \<open>
  Sending a raw transaction: \<open>EthSendRawtx\<close> of \<open>sdk/protocol/boatethereum/boatethereum.c\<close> and its siblings of PlatON,
  PlatONE, Venachain and FISCO BCOS, which are one program with a few differences (\<open>TxProgram\<close>), the signature
  and hash calls of the platform port, and the reading of the node's answer.

  The hash functions, the ECDSA routine and cJSON are parameters. cJSON is a function \<open>json\<close> from a text to the parsed
  item, or \<open>None\<close> when the text is no JSON; of an item the code distinguishes null, strings, objects and the rest.
\<close>

abbreviation BOAT_ERROR_RLP_STRING_INIT_FAIL :: int where "BOAT_ERROR_RLP_STRING_INIT_FAIL \<equiv> - 10500000"
abbreviation BOAT_ERROR_RLP_ENCODER_APPEND_FAIL :: int where "BOAT_ERROR_RLP_ENCODER_APPEND_FAIL \<equiv> - 10500002"
abbreviation BOAT_ERROR_RLP_ENCODER_REPLACE_FAIL :: int where "BOAT_ERROR_RLP_ENCODER_REPLACE_FAIL \<equiv> - 10500003"
abbreviation BOAT_ERROR_COMMON_GEN_SIGN_FAIL :: int where "BOAT_ERROR_COMMON_GEN_SIGN_FAIL \<equiv> - 10110002"

text \<open>\<open>if (result != BOAT_SUCCESS) boat_throw(code, ...)\<close> with a code of its own.\<close>

definition recode :: "int \<Rightarrow> 'a res \<Rightarrow> 'a res" where
  "recode code r = (case r of Inl (Err _) \<Rightarrow> Inl (Err code) | _ \<Rightarrow> r)"

subsection \<open>Hash and signature\<close>

datatype BoatHashAlgType = BOAT_HASH_UNKNOWN | BOAT_HASH_KECCAK256 | BOAT_HASH_SHA256

definition BoatHash ::
  "(bytes \<Rightarrow> bytes) \<Rightarrow> (bytes \<Rightarrow> bytes) \<Rightarrow> BoatHashAlgType \<Rightarrow> bytes \<Rightarrow> bool \<Rightarrow> bytes res" where
  "BoatHash keccak sha256 type input hashed_ok =
     guardR (\<not> hashed_ok) BOAT_ERROR_COMMON_INVALID_ARGUMENT
     (case type of
        BOAT_HASH_KECCAK256 \<Rightarrow> Inr (keccak input)
      | BOAT_HASH_SHA256 \<Rightarrow> Inr (sha256 input)
      | BOAT_HASH_UNKNOWN \<Rightarrow> Inl (Err BOAT_ERROR_COMMON_INVALID_ARGUMENT))"

record BoatSignatureResult =
  native_format_used :: bool
  native_sign :: bytes
  pkcs_format_used :: bool
  pkcs_sign :: bytes
  pkcs_sign_length :: u32
  signPrefix_used :: bool
  signPrefix :: u8

text \<open>\<open>sign\<close> is \<open>BoAT_sign\<close>: from key type, key and digest to the signature, its length and the recovery prefix.\<close>

definition BoatSignature ::
  "(bytes \<Rightarrow> bytes) \<Rightarrow> (bytes \<Rightarrow> bytes \<Rightarrow> bytes \<Rightarrow> bytes res) \<Rightarrow> (bytes \<Rightarrow> bytes \<Rightarrow> bytes \<Rightarrow> (bytes \<times> u32 \<times> u8) res) \<Rightarrow>
     BoatKeypairPriKeyCtx \<Rightarrow> bytes option \<Rightarrow> bool \<Rightarrow> nvram \<Rightarrow> BoatSignatureResult res" where
  "BoatSignature hash aes_dec sign ctx digest result_ok s =
     (case digest of
        None \<Rightarrow> Inl (Err BOAT_ERROR_COMMON_INVALID_ARGUMENT)
      | Some d \<Rightarrow>
          guardR (\<not> result_ok) BOAT_ERROR_COMMON_INVALID_ARGUMENT
         (bindR (BoAT_Keystore_Sign hash aes_dec sign (prikey_type ctx) (keypair_index ctx) d s) (\<lambda>(signature, signatureLen, prefix).
          bindR (recode BOAT_ERROR (utility_signature_to_asn1 (Some signature) signatureLen True)) (\<lambda>(der, derLen).
          bindR (buf_put (replicate 139 0) 0 der) (\<lambda>pkcs.
          bindR (buf_get signature 0 64) (\<lambda>native.
          Inr \<lparr>native_format_used = True, native_sign = native, pkcs_format_used = True, pkcs_sign = pkcs,
               pkcs_sign_length = derLen, signPrefix_used = True, signPrefix = prefix\<rparr>))))))"

subsection \<open>Transactions and wallets\<close>

record BoatFieldMax =
  max_field :: bytes
  max_field_len :: u32

record TxFieldSig =
  r32B :: bytes
  s32B :: bytes
  r_len :: u8
  s_len :: u8

record BoatRawtxFields =
  nonce :: BoatFieldMax
  gasprice :: BoatFieldMax
  gaslimit :: BoatFieldMax
  recipient :: bytes
  tx_value :: BoatFieldMax
  tx_data :: BoatFieldVariable
  tx_v :: BoatFieldMax
  tx_sig :: TxFieldSig

record BoatPlatoneRawtxFields = BoatRawtxFields +
  txtype :: u64

record BoatFiscobcosRawtxFields = BoatRawtxFields +
  blocklimit :: BoatFieldMax
  chainid :: BoatFieldMax
  groupid :: BoatFieldMax
  extra_data :: BoatFieldVariable

record BoatAccountInfo =
  account_prikeyCtx :: BoatKeypairPriKeyCtx
  account_address :: bytes

record BoatWallet =
  account_info :: BoatAccountInfo
  network_info :: BoatNetworkData
  web3intf_context_ptr :: "Web3IntfContext option"

record 'r BoatTx =
  wallet_ptr :: "BoatWallet option"
  tx_hash :: BoatFieldMax
  is_sync_tx :: bool
  rawtx_fields :: 'r

subsection \<open>The answer of the node\<close>

datatype cJSON = cJSON_Null | cJSON_String bytes | cJSON_Object "(bytes \<times> cJSON) list" | cJSON_Other

definition cJSON_GetObjectItemCaseSensitive :: "cJSON \<Rightarrow> bytes \<Rightarrow> cJSON option" where
  "cJSON_GetObjectItemCaseSensitive j name = (case j of cJSON_Object ms \<Rightarrow> map_of ms name | _ \<Rightarrow> None)"

text \<open>
  The \<open>while\<close> loop that grows the result buffer, and the \<open>strcpy\<close> behind it. Texts of 2 GB are left out.
\<close>

function expand_loop ::
  "(nat \<Rightarrow> bytes option) \<Rightarrow> nat \<Rightarrow> BoatFieldVariable \<Rightarrow> unit res \<times> BoatFieldVariable" where
  "expand_loop mal n b =
     (if 2147483648 \<le> n then (Inl UB, b)
      else if unat (field_len b) \<le> n
      then (case BoatFieldVariable_malloc_size_expand mal WEB3_STRING_BUF_STEP_SIZE b of
              (Inl _, b2) \<Rightarrow> (Inl (Err BOAT_ERROR_COMMON_OUT_OF_MEMORY), b2)
            | (Inr _, b2) \<Rightarrow> expand_loop mal n b2)
      else (Inr (), b))"
  by pat_completeness auto
termination
  by (relation "measure (\<lambda>(mal, n, b). Suc n - unat (field_len b))")
    (auto simp: BoatFieldVariable_malloc_size_expand_def Let_def unat_grow split: option.splits)

declare expand_loop.simps [simp del]

definition store_result ::
  "(nat \<Rightarrow> bytes option) \<Rightarrow> bytes \<Rightarrow> BoatFieldVariable \<Rightarrow> unit res \<times> BoatFieldVariable" where
  "store_result mal text b =
     (case expand_loop mal (length text) b of
        (Inl e, b1) \<Rightarrow> (Inl e, b1)
      | (Inr _, b1) \<Rightarrow>
          (case field_ptr b1 of
             None \<Rightarrow> (Inl UB, b1)
           | Some m \<Rightarrow>
               (case buf_put m 0 (text @ [0]) of
                  Inl e \<Rightarrow> (Inl e, b1)
                | Inr m' \<Rightarrow> (Inr (), b1\<lparr>field_ptr := Some m'\<rparr>))))"

definition eth_parse_json_result ::
  "(bytes \<Rightarrow> cJSON option) \<Rightarrow> (nat \<Rightarrow> bytes option) \<Rightarrow> bytes option \<Rightarrow> bytes option \<Rightarrow> BoatFieldVariable option \<Rightarrow>
     unit res \<times> BoatFieldVariable option" where
  "eth_parse_json_result json mal json_string child_name result_out =
     (case (json_string, child_name, result_out) of
        (Some text, Some child, Some out) \<Rightarrow>
          (case json text of
             None \<Rightarrow> (Inl (Err BOAT_ERROR_WEB3_JSON_PARSE_FAIL), Some out)
           | Some item \<Rightarrow>
               (case cJSON_GetObjectItemCaseSensitive item (chars ''result'') of
                  None \<Rightarrow> (Inl (Err BOAT_ERROR_WEB3_JSON_GETOBJ_FAIL), Some out)
                | Some (cJSON_Object ms) \<Rightarrow>
                    (case cJSON_GetObjectItemCaseSensitive (cJSON_Object ms) child of
                       None \<Rightarrow> (Inl (Err BOAT_ERROR_WEB3_JSON_GETOBJ_FAIL), Some out)
                     | Some (cJSON_String t) \<Rightarrow> map_prod id Some (store_result mal t out)
                     | Some _ \<Rightarrow> (Inr (), Some out))
                | Some (cJSON_String t) \<Rightarrow> map_prod id Some (store_result mal t out)
                | Some cJSON_Null \<Rightarrow> (Inl (Err BOAT_ERROR_JSON_OBJ_IS_NULL), Some out)
                | Some cJSON_Other \<Rightarrow> (Inl (Err BOAT_ERROR_WEB3_JSON_PARSE_FAIL), Some out)))
      | _ \<Rightarrow> (Inl (Err BOAT_ERROR_COMMON_INVALID_ARGUMENT), result_out))"

subsection \<open>Building and signing\<close>

text \<open>
  What distinguishes the protocols: the fields before v, in two runs with an assignment between them, each with the
  information whether the result of appending it is checked; whether EIP-155 is supported; and the codes
  thrown when v, r and s cannot be initialised or put into the list.
\<close>

record 'r TxProgram =
  tx_fields :: "'r \<Rightarrow> (bool \<times> bytes option \<times> u32) list"
  tx_prepare :: "'r \<Rightarrow> 'r"
  tx_more_fields :: "'r \<Rightarrow> (bool \<times> bytes option \<times> u32) list"
  tx_eip155 :: bool
  tx_v_codes :: "int \<times> int"
  tx_r_codes :: "int \<times> int"
  tx_s_codes :: "int \<times> int"

definition add_field :: "bool \<times> bytes option \<times> u32 \<Rightarrow> RlpObject \<Rightarrow> RlpObject res" where
  "add_field f tx =
     (case f of (checked, p, n) \<Rightarrow>
        bindR (recode BOAT_ERROR_RLP_STRING_INIT_FAIL (RlpInitStringObject True p n)) (\<lambda>ob.
        case recode BOAT_ERROR_RLP_ENCODER_APPEND_FAIL (RlpEncoderAppendObjectToList (Some tx) (Some ob)) of
          Inr (_, tx') \<Rightarrow> Inr tx'
        | Inl UB \<Rightarrow> Inl UB
        | Inl (Err c) \<Rightarrow> if checked then Inl (Err c) else Inr tx))"

fun add_fields :: "(bool \<times> bytes option \<times> u32) list \<Rightarrow> RlpObject \<Rightarrow> RlpObject res" where
  "add_fields [] tx = Inr tx"
| "add_fields (f # fs) tx = bindR (add_field f tx) (add_fields fs)"

text \<open>The fields v, r and s as RLP strings, and the assignments to them.\<close>

definition set_v :: "u32 \<Rightarrow> ('a BoatRawtxFields_scheme) \<Rightarrow> 'a BoatRawtxFields_scheme" where
  "set_v v raw =
     (let t = UtilityUint32ToBigend v TRIMBIN_LEFTTRIM in
      raw\<lparr>tx_v := \<lparr>max_field = t @ drop (length t) (max_field (tx_v raw)), max_field_len = of_nat (length t)\<rparr>\<rparr>)"

definition v_field :: "'a BoatRawtxFields_scheme \<Rightarrow> bytes option \<times> u32" where
  "v_field raw = (Some (max_field (tx_v raw)), max_field_len (tx_v raw))"

definition r_field :: "'a BoatRawtxFields_scheme \<Rightarrow> bytes option \<times> u32" where
  "r_field raw = (Some (r32B (tx_sig raw)), ucast (r_len (tx_sig raw)))"

definition s_field :: "'a BoatRawtxFields_scheme \<Rightarrow> bytes option \<times> u32" where
  "s_field raw = (Some (s32B (tx_sig raw)), ucast (s_len (tx_sig raw)))"

definition init_append :: "int \<times> int \<Rightarrow> bytes option \<times> u32 \<Rightarrow> RlpObject \<Rightarrow> (int \<times> RlpObject) res" where
  "init_append codes f tx =
     (case (codes, f) of ((init_code, put_code), (p, n)) \<Rightarrow>
        bindR (recode init_code (RlpInitStringObject True p n)) (\<lambda>ob.
        bindR (recode put_code (RlpEncoderAppendObjectToList (Some tx) (Some ob))) (\<lambda>(i, tx').
        Inr (int i, tx'))))"

definition init_replace :: "int \<times> int \<Rightarrow> int \<Rightarrow> bytes option \<times> u32 \<Rightarrow> RlpObject \<Rightarrow> RlpObject res" where
  "init_replace codes index f tx =
     (case (codes, f) of ((init_code, put_code), (p, n)) \<Rightarrow>
        bindR (recode init_code (RlpInitStringObject True p n)) (\<lambda>ob.
        bindR (recode put_code (RlpEncoderReplaceObjectInList (Some tx) index (Some ob))) (\<lambda>(i, tx').
        Inr tx')))"

definition put_field :: "bool \<Rightarrow> int \<times> int \<Rightarrow> int \<Rightarrow> bytes option \<times> u32 \<Rightarrow> RlpObject \<Rightarrow> RlpObject res" where
  "put_field eip155 codes index f tx =
     (if eip155 then init_replace codes index f tx else bindR (init_append codes f tx) (\<lambda>(i, tx'). Inr tx'))"

text \<open>Step 1 for EIP-155: v is the chain identifier, r and s are empty.\<close>

definition eip155_fields ::
  "u32 \<Rightarrow> RlpObject \<Rightarrow> 'a BoatRawtxFields_scheme \<Rightarrow> ((int \<times> int \<times> int) \<times> RlpObject) res \<times> 'a BoatRawtxFields_scheme" where
  "eip155_fields chain tx raw =
     (let raw1 = set_v chain raw;
          raw2 = raw1\<lparr>tx_sig := (tx_sig raw1)\<lparr>r_len := 0, s_len := 0\<rparr>\<rparr>;
          codes = (BOAT_ERROR_RLP_STRING_INIT_FAIL, BOAT_ERROR_RLP_ENCODER_APPEND_FAIL)
      in (bindR (init_append codes (v_field raw2) tx) (\<lambda>(vi, tx1).
          bindR (init_append codes (r_field raw2) tx1) (\<lambda>(ri, tx2).
          bindR (init_append codes (s_field raw2) tx2) (\<lambda>(si, tx3).
          Inr ((vi, ri, si), tx3)))), raw2))"

text \<open>The list object after an encoding, and the bytes of its stream.\<close>

definition encode_tx ::
  "(unit res \<times> RlpObject option \<times> bytes) \<Rightarrow> (RlpObject \<times> RlpEncodedStreamObject) res" where
  "encode_tx r =
     (case r of
        (Inl e, _, _) \<Rightarrow> recode BOAT_ERROR_RLP_ENCODER_FAIL (Inl e)
      | (Inr _, Some ob, _) \<Rightarrow>
          (case RlpGetEncodedStream (Some ob) of None \<Rightarrow> Inl UB | Some st \<Rightarrow> Inr (ob, st))
      | (Inr _, None, _) \<Rightarrow> Inl UB)"

definition stream_bytes :: "RlpEncodedStreamObject \<Rightarrow> bytes res" where
  "stream_bytes st = (case stream_ptr st of None \<Rightarrow> Inl UB | Some m \<Rightarrow> buf_get m 0 (unat (stream_len st)))"

text \<open>Step 3: take over the signature and trim r and s in place.\<close>

definition take_signature ::
  "BoatSignatureResult \<Rightarrow> 'a BoatRawtxFields_scheme \<Rightarrow> unit res \<times> 'a BoatRawtxFields_scheme" where
  "take_signature sg raw =
     (case (if native_format_used sg
            then bindR (buf_get (native_sign sg) 0 32) (\<lambda>r. bindR (buf_get (native_sign sg) 32 32) (\<lambda>s. Inr (r, s)))
            else Inr (r32B (tx_sig raw), s32B (tx_sig raw))) of
        Inl e \<Rightarrow> (Inl e, raw)
      | Inr (r, s) \<Rightarrow>
          (case (UtilityTrimBin True (Some r) TRIMBIN_LEFTTRIM True, UtilityTrimBin True (Some s) TRIMBIN_LEFTTRIM True) of
             ((tr, rn), (ts, sn)) \<Rightarrow>
               (Inr (), raw\<lparr>tx_sig := \<lparr>r32B = tr @ drop rn r, s32B = ts @ drop sn s, r_len = of_nat rn, s_len = of_nat sn\<rparr>\<rparr>)))"

text \<open>Step 4 puts v, r and s into the list: over the three of step 1, or behind the other fields.\<close>

definition put_vrs ::
  "bool \<Rightarrow> 'r TxProgram \<Rightarrow> (int \<times> int \<times> int) \<Rightarrow> bytes option \<times> u32 \<Rightarrow> bytes option \<times> u32 \<Rightarrow> bytes option \<times> u32 \<Rightarrow> RlpObject \<Rightarrow> RlpObject res" where
  "put_vrs eip155 prog idx fv fr fs tx =
     (case idx of (vi, ri, si) \<Rightarrow>
        bindR (put_field eip155 (tx_v_codes prog) vi fv tx) (\<lambda>tx1.
        bindR (put_field eip155 (tx_r_codes prog) ri fr tx1) (\<lambda>tx2.
        put_field eip155 (tx_s_codes prog) si fs tx2)))"

text \<open>
  Step 1, the list without signature and its encoding; steps 2 and 3, the digest and its signature; step 4, the
  list with the signature. \<open>list_ok\<close> tells whether the descriptor array of the list can be allocated.
\<close>

definition encode_unsigned ::
  "(nat \<Rightarrow> bytes option) \<Rightarrow> bool \<Rightarrow> ('a BoatRawtxFields_scheme) TxProgram \<Rightarrow> bool \<Rightarrow> u32 \<Rightarrow> 'a BoatRawtxFields_scheme \<Rightarrow>
     ((int \<times> int \<times> int) \<times> RlpObject \<times> RlpEncodedStreamObject) res \<times> 'a BoatRawtxFields_scheme" where
  "encode_unsigned mal list_ok prog eip155 chain =
     bindS (liftS (if list_ok then RlpInitListObject True True else Inl UB)) (\<lambda>tx0.
     bindS (\<lambda>raw. (add_fields (tx_fields prog raw) tx0, raw)) (\<lambda>tx1.
     bindS (updS (tx_prepare prog)) (\<lambda>_.
     bindS (\<lambda>raw. (add_fields (tx_more_fields prog raw) tx1, raw)) (\<lambda>tx2.
     bindS (if eip155 then eip155_fields chain tx2 else liftS (Inr ((0, 0, 0), tx2))) (\<lambda>(idx, tx3).
     bindS (liftS (encode_tx (RlpEncode mal (Some tx3) None))) (\<lambda>(tx4, st).
     liftS (Inr (idx, tx4, st))))))))"

definition sign_digest ::
  "(bytes \<Rightarrow> bytes res) \<Rightarrow> (bytes \<Rightarrow> BoatSignatureResult res) \<Rightarrow> RlpEncodedStreamObject \<Rightarrow> 'a BoatRawtxFields_scheme \<Rightarrow>
     BoatSignatureResult res \<times> 'a BoatRawtxFields_scheme" where
  "sign_digest keccak sign st =
     bindS (liftS (bindR (stream_bytes st) keccak)) (\<lambda>digest.
     bindS (liftS (recode BOAT_ERROR_COMMON_GEN_SIGN_FAIL (sign digest))) (\<lambda>sg.
     bindS (take_signature sg) (\<lambda>_.
     liftS (Inr sg))))"

definition encode_signed ::
  "(nat \<Rightarrow> bytes option) \<Rightarrow> ('a BoatRawtxFields_scheme) TxProgram \<Rightarrow> bool \<Rightarrow> u32 \<Rightarrow> int \<times> int \<times> int \<Rightarrow> BoatSignatureResult \<Rightarrow>
     RlpObject \<Rightarrow> 'a BoatRawtxFields_scheme \<Rightarrow> RlpEncodedStreamObject res \<times> 'a BoatRawtxFields_scheme" where
  "encode_signed mal prog eip155 chain idx sg tx =
     bindS (updS (set_v (if eip155 then chain * 2 + (if signPrefix_used sg then ucast (signPrefix sg) else 0) + 35
                         else (if signPrefix_used sg then ucast (signPrefix sg) else 0) + 27))) (\<lambda>_.
     bindS (\<lambda>raw. (put_vrs eip155 prog idx (v_field raw) (r_field raw) (s_field raw) tx, raw)) (\<lambda>tx1.
     bindS (liftS (encode_tx (RlpReEncode mal (Some tx1) None))) (\<lambda>(tx2, st).
     liftS (Inr st))))"

definition sign_rawtx ::
  "(nat \<Rightarrow> bytes option) \<Rightarrow> bool \<Rightarrow> (bytes \<Rightarrow> bytes res) \<Rightarrow> (bytes \<Rightarrow> BoatSignatureResult res) \<Rightarrow>
     ('a BoatRawtxFields_scheme) TxProgram \<Rightarrow> bool \<Rightarrow> u32 \<Rightarrow> 'a BoatRawtxFields_scheme \<Rightarrow>
     RlpEncodedStreamObject res \<times> 'a BoatRawtxFields_scheme" where
  "sign_rawtx mal list_ok keccak sign prog eip155 chain =
     bindS (encode_unsigned mal list_ok prog eip155 chain) (\<lambda>(idx, tx, st).
     bindS (sign_digest keccak sign st) (\<lambda>sg.
     encode_signed mal prog eip155 chain idx sg tx))"

subsection \<open>Broadcasting\<close>

text \<open>
  The second half of the senders: the signed stream as HEX text, in a block of \<open>2 * stream_len + 3\<close> bytes that first serves to log
  the recipient, the call of the node by \<open>send\<close>, and the transaction hash out of its answer. A call that succeeds with a null
  response throws \<open>BOAT_SUCCESS\<close>.
\<close>

definition put_max :: "bytes \<times> nat \<Rightarrow> BoatFieldMax \<Rightarrow> BoatFieldMax res" where
  "put_max r f =
     (case r of (out, n) \<Rightarrow> bindR (buf_put (max_field f) 0 out) (\<lambda>b. Inr \<lparr>max_field = b, max_field_len = of_nat n\<rparr>))"

definition result_string :: "Web3IntfContext \<Rightarrow> bytes option res" where
  "result_string c =
     (case field_ptr (web3_result_string_buf c) of
        None \<Rightarrow> Inr None
      | Some m \<Rightarrow> bindR (c_string m) (\<lambda>s. Inr (Some s)))"

definition set_context :: "Web3IntfContext option \<Rightarrow> ('r, 'b) BoatTx_scheme \<Rightarrow> ('r, 'b) BoatTx_scheme" where
  "set_context ctx t = t\<lparr>wallet_ptr := map_option (\<lambda>wl. wl\<lparr>web3intf_context_ptr := ctx\<rparr>) (wallet_ptr t)\<rparr>"

text \<open>A response is parsed into the result buffer of the context.\<close>

definition parse_response ::
  "(bytes \<Rightarrow> cJSON option) \<Rightarrow> (nat \<Rightarrow> bytes option) \<Rightarrow> bytes \<Rightarrow> bytes \<Rightarrow> Web3IntfContext option \<Rightarrow>
     Web3IntfContext res \<times> Web3IntfContext option" where
  "parse_response json mal response child ctx =
     (case ctx of
        None \<Rightarrow> (Inl UB, None)
      | Some c \<Rightarrow>
          (case eth_parse_json_result json mal (Some response) (Some child) (Some (web3_result_string_buf c)) of
             (r, Some b) \<Rightarrow>
               (bindR r (\<lambda>_. Inr (c\<lparr>web3_result_string_buf := b\<rparr>)), Some (c\<lparr>web3_result_string_buf := b\<rparr>))
           | (r, None) \<Rightarrow> (Inl UB, Some c)))"

definition publish_tx ::
  "(bytes \<Rightarrow> cJSON option) \<Rightarrow> (nat \<Rightarrow> bytes option) \<Rightarrow>
     (Web3IntfContext option \<Rightarrow> bytes option \<Rightarrow> bytes \<Rightarrow> 'r \<Rightarrow> 'w \<Rightarrow> bytes option res \<times> Web3IntfContext option \<times> 'w) \<Rightarrow>
     BoatWallet \<Rightarrow> RlpEncodedStreamObject \<Rightarrow> ('r, 'b) BoatTx_scheme \<Rightarrow> 'w \<Rightarrow> unit res \<times> ('r, 'b) BoatTx_scheme \<times> 'w" where
  "publish_tx json mal send wl st t w =
     (case mal (unat (stream_len st * 2 + 2 + 1)) of
        None \<Rightarrow> (Inl (Err BOAT_ERROR_COMMON_OUT_OF_MEMORY), t, w)
      | Some block \<Rightarrow>
          (case bindR (stream_bytes st) (\<lambda>bs. bindR (c_string (node_url_str (network_info wl))) (\<lambda>url. Inr (bs, url))) of
             Inl e \<Rightarrow> (Inl e, t, w)
           | Inr (bs, url) \<Rightarrow>
               let hex = fst (UtilityBinToHex True (Some bs) BIN2HEX_LEFTTRIM_UNFMTDATA BIN2HEX_PREFIX_0x_YES False) in
               if length block < 43 \<or> length block < length hex + 1 then (Inl UB, t, w)
               else
                 (case send (web3intf_context_ptr wl) (Some url) hex (rawtx_fields t) w of
                    (Inl e, ctx, w1) \<Rightarrow> (Inl e, set_context ctx t, w1)
                  | (Inr None, ctx, w1) \<Rightarrow> (Inr (), set_context ctx t, w1)
                  | (Inr (Some response), ctx, w1) \<Rightarrow>
                      (case parse_response json mal response [] ctx of
                         (Inl e, ctx') \<Rightarrow> (Inl e, set_context ctx' t, w1)
                       | (Inr c, ctx') \<Rightarrow>
                           (case bindR (result_string c) (\<lambda>s. put_max (UtilityHexToBin True 32 s TRIMBIN_TRIM_NO False) (tx_hash t)) of
                              Inl e \<Rightarrow> (Inl e, set_context ctx' t, w1)
                            | Inr h \<Rightarrow> (Inr (), (set_context ctx' t)\<lparr>tx_hash := h\<rparr>, w1))))))"

text \<open>
  The whole sender. Without a transaction or wallet, or without memory for the list, the cleanup deletes the RLP list that has not
  been initialised, or only in part: undefined behaviour.
\<close>

definition SendRawtx ::
  "(bytes \<Rightarrow> cJSON option) \<Rightarrow> (nat \<Rightarrow> bytes option) \<Rightarrow> bool \<Rightarrow> (bytes \<Rightarrow> bytes res) \<Rightarrow>
     (BoatKeypairPriKeyCtx \<Rightarrow> bytes \<Rightarrow> BoatSignatureResult res) \<Rightarrow> ('a BoatRawtxFields_scheme) TxProgram \<Rightarrow>
     (Web3IntfContext option \<Rightarrow> bytes option \<Rightarrow> bytes \<Rightarrow> 'a BoatRawtxFields_scheme \<Rightarrow> 'w \<Rightarrow>
        bytes option res \<times> Web3IntfContext option \<times> 'w) \<Rightarrow>
     ('a BoatRawtxFields_scheme, 'b) BoatTx_scheme option \<Rightarrow> 'w \<Rightarrow>
     unit res \<times> ('a BoatRawtxFields_scheme, 'b) BoatTx_scheme option \<times> 'w" where
  "SendRawtx json mal list_ok keccak sign prog send tx w =
     (case tx of
        None \<Rightarrow> (Inl UB, None, w)
      | Some t \<Rightarrow>
          (case wallet_ptr t of
             None \<Rightarrow> (Inl UB, Some t, w)
           | Some wl \<Rightarrow>
               let t0 = t\<lparr>tx_hash := (tx_hash t)\<lparr>max_field_len := 0\<rparr>\<rparr>;
                   eip155 = (tx_eip155 prog \<and> eip155_compatibility (network_info wl) = 1)
               in case sign_rawtx mal list_ok keccak (sign (account_prikeyCtx (account_info wl))) prog eip155
                         (chain_id (network_info wl)) (rawtx_fields t0) of
                    (Inl e, raw) \<Rightarrow> (Inl e, Some (t0\<lparr>rawtx_fields := raw\<rparr>), w)
                  | (Inr st, raw) \<Rightarrow>
                      (case publish_tx json mal send wl st (t0\<lparr>rawtx_fields := raw\<rparr>) w of
                         (r, t', w') \<Rightarrow> (r, Some t', w'))))"

subsection \<open>The protocols\<close>

definition max_arg :: "BoatFieldMax \<Rightarrow> bytes option \<times> u32" where
  "max_arg f = (Some (max_field f), max_field_len f)"

definition var_arg :: "BoatFieldVariable \<Rightarrow> bytes option \<times> u32" where
  "var_arg f = (field_ptr f, field_len f)"

definition eth_program :: "('a BoatRawtxFields_scheme) TxProgram" where
  "eth_program =
     \<lparr>tx_fields = \<lambda>raw. [(True, max_arg (nonce raw)), (True, max_arg (gasprice raw)), (False, max_arg (gaslimit raw)),
        (True, (Some (recipient raw), 20)), (True, max_arg (tx_value raw)), (True, var_arg (tx_data raw))],
      tx_prepare = id, tx_more_fields = \<lambda>raw. [], tx_eip155 = True,
      tx_v_codes = (BOAT_ERROR_RLP_STRING_INIT_FAIL, BOAT_ERROR_RLP_ENCODER_REPLACE_FAIL),
      tx_r_codes = (BOAT_ERROR_RLP_ENCODER_FAIL, BOAT_ERROR_RLP_ENCODER_FAIL),
      tx_s_codes = (BOAT_ERROR_RLP_STRING_INIT_FAIL, BOAT_ERROR_RLP_ENCODER_FAIL)\<rparr>"

abbreviation append_codes :: "int \<times> int" where
  "append_codes \<equiv> (BOAT_ERROR_RLP_STRING_INIT_FAIL, BOAT_ERROR_RLP_ENCODER_APPEND_FAIL)"

definition platon_program :: "('a BoatRawtxFields_scheme) TxProgram" where
  "platon_program =
     \<lparr>tx_fields = \<lambda>raw. [(True, max_arg (nonce raw)), (True, max_arg (gasprice raw)), (True, max_arg (gaslimit raw)),
        (True, (Some (recipient raw), 20)), (True, max_arg (tx_value raw)), (True, var_arg (tx_data raw))],
      tx_prepare = id, tx_more_fields = \<lambda>raw. [], tx_eip155 = True,
      tx_v_codes = append_codes, tx_r_codes = append_codes, tx_s_codes = append_codes\<rparr>"

definition platone_program :: "BoatPlatoneRawtxFields TxProgram" where
  "platone_program =
     \<lparr>tx_fields = \<lambda>raw. [(True, max_arg (nonce raw)), (True, max_arg (gasprice raw)), (True, max_arg (gaslimit raw)),
        (True, (Some (recipient raw), 20)), (True, max_arg (tx_value raw)), (True, var_arg (tx_data raw)),
        (True, (Some (UtilityUint64ToBigend (txtype raw) TRIMBIN_LEFTTRIM),
                of_nat (length (UtilityUint64ToBigend (txtype raw) TRIMBIN_LEFTTRIM))))],
      tx_prepare = id, tx_more_fields = \<lambda>raw. [], tx_eip155 = True,
      tx_v_codes = append_codes, tx_r_codes = append_codes, tx_s_codes = append_codes\<rparr>"

definition fiscobcos_program :: "BoatFiscobcosRawtxFields TxProgram" where
  "fiscobcos_program =
     \<lparr>tx_fields = \<lambda>raw. [(True, max_arg (nonce raw)), (True, max_arg (gasprice raw)), (True, max_arg (gaslimit raw)),
        (True, max_arg (blocklimit raw)), (True, (Some (recipient raw), 20)), (True, max_arg (tx_value raw)),
        (False, var_arg (tx_data raw)), (True, max_arg (chainid raw)), (True, max_arg (groupid raw))],
      tx_prepare = \<lambda>raw. raw\<lparr>extra_data := (extra_data raw)\<lparr>field_len := 0\<rparr>\<rparr>,
      tx_more_fields = \<lambda>raw. [(True, var_arg (extra_data raw))], tx_eip155 = False,
      tx_v_codes = append_codes, tx_r_codes = append_codes, tx_s_codes = append_codes\<rparr>"

text \<open>The platform as the senders use it.\<close>

record 'w Platform =
  pf_rpc :: "'w Rpc"
  pf_malloc :: "nat \<Rightarrow> bytes option"
  pf_list_ok :: bool
  pf_keccak :: "bytes \<Rightarrow> bytes"
  pf_sha256 :: "bytes \<Rightarrow> bytes"
  pf_sign :: "BoatKeypairPriKeyCtx \<Rightarrow> bytes \<Rightarrow> BoatSignatureResult res"
  pf_json :: "bytes \<Rightarrow> cJSON option"

definition send_raw :: "'w Platform \<Rightarrow> string \<Rightarrow> Web3IntfContext option \<Rightarrow> bytes option \<Rightarrow> bytes \<Rightarrow> 'r \<Rightarrow> 'w \<Rightarrow>
     bytes option res \<times> Web3IntfContext option \<times> 'w" where
  "send_raw pf method ctx url hex raw w =
     web3_sendRawTransaction (pf_rpc pf) (pf_malloc pf) ctx url
       (Some \<lparr>srt_method_name_str = chars method, srt_signedtx_str = hex\<rparr>) w"

text \<open>The group identifier of FISCO BCOS is passed as HEX digits, in a buffer of 67 bytes.\<close>

definition send_fiscobcos :: "'w Platform \<Rightarrow> Web3IntfContext option \<Rightarrow> bytes option \<Rightarrow> bytes \<Rightarrow> BoatFiscobcosRawtxFields \<Rightarrow> 'w \<Rightarrow>
     bytes option res \<times> Web3IntfContext option \<times> 'w" where
  "send_fiscobcos pf ctx url hex raw w =
     (case buf_get (max_field (groupid raw)) 0 (unat (max_field_len (groupid raw))) of
        Inl e \<Rightarrow> (Inl e, ctx, w)
      | Inr g \<Rightarrow>
          web3_fiscobcos_sendRawTransaction (pf_rpc pf) (pf_malloc pf) ctx url
            (Some \<lparr>fsrt_groupid = fst (UtilityBinToHex True (Some g) BIN2HEX_LEFTTRIM_QUANTITY BIN2HEX_PREFIX_0x_NO False),
                   fsrt_signedtx_str = hex\<rparr>) w)"

definition pf_hash :: "'w Platform \<Rightarrow> bytes \<Rightarrow> bytes res" where
  "pf_hash pf m = BoatHash (pf_keccak pf) (pf_sha256 pf) BOAT_HASH_KECCAK256 m True"

definition EthSendRawtx ::
  "'w Platform \<Rightarrow> ('a BoatRawtxFields_scheme, 'b) BoatTx_scheme option \<Rightarrow> 'w \<Rightarrow>
     unit res \<times> ('a BoatRawtxFields_scheme, 'b) BoatTx_scheme option \<times> 'w" where
  "EthSendRawtx pf tx w =
     SendRawtx (pf_json pf) (pf_malloc pf) (pf_list_ok pf) (pf_hash pf) (pf_sign pf) eth_program
       (send_raw pf ''eth_sendRawTransaction'') tx w"

definition VenachainSendRawtx ::
  "'w Platform \<Rightarrow> ('a BoatRawtxFields_scheme, 'b) BoatTx_scheme option \<Rightarrow> 'w \<Rightarrow>
     unit res \<times> ('a BoatRawtxFields_scheme, 'b) BoatTx_scheme option \<times> 'w" where
  "VenachainSendRawtx pf tx w =
     SendRawtx (pf_json pf) (pf_malloc pf) (pf_list_ok pf) (pf_hash pf) (pf_sign pf) eth_program
       (send_raw pf ''eth_sendRawTransaction'') tx w"

definition PlatONSendRawtx ::
  "'w Platform \<Rightarrow> ('a BoatRawtxFields_scheme, 'b) BoatTx_scheme option \<Rightarrow> 'w \<Rightarrow>
     unit res \<times> ('a BoatRawtxFields_scheme, 'b) BoatTx_scheme option \<times> 'w" where
  "PlatONSendRawtx pf tx w =
     SendRawtx (pf_json pf) (pf_malloc pf) (pf_list_ok pf) (pf_hash pf) (pf_sign pf) platon_program
       (send_raw pf ''platon_sendRawTransaction'') tx w"

definition PlatoneSendRawtx ::
  "'w Platform \<Rightarrow> (BoatPlatoneRawtxFields, 'b) BoatTx_scheme option \<Rightarrow> 'w \<Rightarrow>
     unit res \<times> (BoatPlatoneRawtxFields, 'b) BoatTx_scheme option \<times> 'w" where
  "PlatoneSendRawtx pf tx w =
     SendRawtx (pf_json pf) (pf_malloc pf) (pf_list_ok pf) (pf_hash pf) (pf_sign pf) platone_program
       (send_raw pf ''eth_sendRawTransaction'') tx w"

definition FiscobcosSendRawtx ::
  "'w Platform \<Rightarrow> (BoatFiscobcosRawtxFields, 'b) BoatTx_scheme option \<Rightarrow> 'w \<Rightarrow>
     unit res \<times> (BoatFiscobcosRawtxFields, 'b) BoatTx_scheme option \<times> 'w" where
  "FiscobcosSendRawtx pf tx w =
     SendRawtx (pf_json pf) (pf_malloc pf) (pf_list_ok pf) (pf_hash pf) (pf_sign pf) fiscobcos_program
       (send_fiscobcos pf) tx w"

subsection \<open>Reference notions\<close>

text \<open>The string a pointer and a length stand for, and what a protocol puts into the list before v, r and s.\<close>

definition arg_ok :: "bool \<times> bytes option \<times> u32 \<Rightarrow> bool" where
  "arg_ok f \<longleftrightarrow> (case f of (_, p, n) \<Rightarrow> rlp_ok (RlpString p n))"

definition arg_string :: "bytes option \<times> u32 \<Rightarrow> bytes" where
  "arg_string f = (case f of (p, n) \<Rightarrow> (case p of None \<Rightarrow> [] | Some bs \<Rightarrow> take (unat n) bs))"

definition tx_args :: "'r TxProgram \<Rightarrow> 'r \<Rightarrow> (bool \<times> bytes option \<times> u32) list" where
  "tx_args prog raw = tx_fields prog raw @ tx_more_fields prog (tx_prepare prog raw)"

definition tx_items :: "'r TxProgram \<Rightarrow> 'r \<Rightarrow> rlp list" where
  "tx_items prog raw = map (\<lambda>f. Str (arg_string (snd f))) (tx_args prog raw)"

text \<open>The message that is signed, and the transaction that is broadcast, as EIP-155 and the yellow paper define them.\<close>

definition unsigned_tx :: "bool \<Rightarrow> nat \<Rightarrow> rlp list \<Rightarrow> rlp" where
  "unsigned_tx eip155 chain items = Lst (items @ (if eip155 then [Str (be_min chain), Str [], Str []] else []))"

definition signed_tx :: "bool \<Rightarrow> nat \<Rightarrow> rlp list \<Rightarrow> nat \<Rightarrow> bytes \<Rightarrow> bytes \<Rightarrow> rlp" where
  "signed_tx eip155 chain items parity r s =
     Lst (items @ [Str (be_min (if eip155 then 2 * chain + 35 + parity else 27 + parity)), Str (trim0 r), Str (trim0 s)])"

definition rawtx_sized :: "'a BoatRawtxFields_scheme \<Rightarrow> bool" where
  "rawtx_sized raw \<longleftrightarrow> length (max_field (tx_v raw)) = 4 \<and> length (r32B (tx_sig raw)) = 32 \<and> length (s32B (tx_sig raw)) = 32"

definition string_object :: "bytes option \<times> u32 \<Rightarrow> RlpObject" where
  "string_object f = (case f of (p, n) \<Rightarrow> RlpString p n)"

subsection \<open>Correctness\<close>

lemma recode_simps [simp]:
  "recode c (Inr x) = Inr x"
  "recode c (Inl (Err e)) = Inl (Err c)"
  "recode c (Inl UB) = Inl UB"
  by (simp_all add: recode_def)

lemma bindS_lift: "bindS (liftS (Inr a)) f s = f a s"
  by (simp add: bindS_def liftS_def)

lemma bindS_upd: "bindS (updS g) f s = f () (g s)"
  by (simp add: bindS_def updS_def)

lemma bindS_read: "X s = Inr a \<Longrightarrow> bindS (\<lambda>s. (X s, s)) f s = f a s"
  by (simp add: bindS_def)

lemma init_list: "RlpInitListObject True True = Inr (RlpList (Some []) \<lparr>stream_ptr = None, stream_len = 0\<rparr>)"
  by (simp add: RlpInitListObject_def)

lemma init_string: "rlp_ok (RlpString p n) \<Longrightarrow> RlpInitStringObject True p n = Inr (RlpString p n)"
  by (cases p) (auto simp: RlpInitStringObject_def)

lemma append_string:
  "length ds < 15 \<Longrightarrow> rlp_ok (RlpString p n) \<Longrightarrow>
     RlpEncoderAppendObjectToList (Some (RlpList (Some ds) st)) (Some (RlpString p n)) =
       Inr (length ds, RlpList (Some (ds @ [RlpString p n])) st)"
  by (cases p) (auto simp: RlpEncoderAppendObjectToList_def RlpCheckListDescriptorsCapacity_def MAX_RLP_LIST_DESC_NUM_def)

lemma add_fields_ok:
  "list_all arg_ok fs \<Longrightarrow> length ds + length fs \<le> 15 \<Longrightarrow>
     add_fields fs (RlpList (Some ds) st) = Inr (RlpList (Some (ds @ map (string_object \<circ> snd) fs)) st)"
proof (induction fs arbitrary: ds)
  case (Cons f fs)
  obtain c p n where f: "f = (c, p, n)" by (cases f)
  have "add_field f (RlpList (Some ds) st) = Inr (RlpList (Some (ds @ [RlpString p n])) st)"
    using Cons.prems by (simp add: add_field_def f arg_ok_def init_string append_string del: rlp_ok.simps)
  then show ?case using Cons f by (simp add: string_object_def)
qed simp

lemma init_append_ok:
  assumes "length ds < 15" "rlp_ok (string_object f)"
  shows "init_append codes f (RlpList (Some ds) st) = Inr (int (length ds), RlpList (Some (ds @ [string_object f])) st)"
  using assms
  by (cases f, cases codes) (simp add: init_append_def string_object_def init_string append_string del: rlp_ok.simps)

lemma init_replace_ok:
  assumes "k < length ds" "rlp_ok (string_object f)"
  shows "init_replace codes (int k) f (RlpList (Some ds) st) = Inr (RlpList (Some (ds[k := string_object f])) st)"
proof -
  obtain p n where f: "f = (p, n)" by (cases f)
  have "check_from_object c (RlpString p n) = Inr ()" for c using assms(2) by (cases p) (auto simp: f string_object_def)
  with assms show ?thesis
    by (cases codes)
      (simp add: init_replace_def RlpEncoderReplaceObjectInList_def init_string f string_object_def
        del: rlp_ok.simps check_from_object.simps)
qed

lemma encode_list:
  assumes "malloc_ok mal" "\<forall>n. mal n \<noteq> None" "list_all rlp_ok ds" "length ds \<le> 15"
    "length (rlp_enc (Lst (map rlp_of ds))) < 4294967295"
  obtains ds' st' where
    "encode_tx (RlpEncode mal (Some (RlpList (Some ds) st)) None) =
       Inr (RlpList (Some ds') st', \<lparr>stream_ptr = Some (rlp_enc (Lst (map rlp_of ds))),
              stream_len = of_nat (length (rlp_enc (Lst (map rlp_of ds))))\<rparr>)"
    "list_all rlp_ok ds'" "map rlp_of ds' = map rlp_of ds"
proof -
  obtain r ob pm where R: "rlp_encode mal (RlpList (Some ds) st) None = (r, ob, pm)" by (metis prod_cases3)
  have "enc_spec mal (RlpList (Some ds) st) None []"
    using assms by (intro encode_correct) (simp_all add: parent_ok_def MAX_RLP_LIST_DESC_NUM_def)
  then have S: "rlp_ok ob" "rlp_of ob = Lst (map rlp_of ds)" "r = Inr ()"
      "RlpGetEncodedStream (Some ob) = Some \<lparr>stream_ptr = Some (rlp_enc (Lst (map rlp_of ds))),
         stream_len = of_nat (length (rlp_enc (Lst (map rlp_of ds))))\<rparr>"
    using assms(2) by (auto simp: enc_spec_def R simp del: rlp_enc.simps rlp_encode.simps split: if_splits)
  then obtain ds' st' where o': "ob = RlpList (Some ds') st'"
    by (cases ob; cases "list_descriptors_ptr ob") auto
  show ?thesis
    by (rule that [of ds' st']) (use S o' in \<open>simp_all add: encode_tx_def RlpEncode_def R del: rlp_enc.simps rlp_encode.simps\<close>)
qed

lemma reencode_list:
  assumes "malloc_ok mal" "\<forall>n. mal n \<noteq> None" "list_all rlp_ok ds" "length ds \<le> 15"
    "length (rlp_enc (Lst (map rlp_of ds))) < 4294967295"
  obtains ob where
    "encode_tx (RlpReEncode mal (Some (RlpList (Some ds) st)) None) =
       Inr (ob, \<lparr>stream_ptr = Some (rlp_enc (Lst (map rlp_of ds))),
              stream_len = of_nat (length (rlp_enc (Lst (map rlp_of ds))))\<rparr>)"
proof -
  let ?ds = "delete_stream_loop ds"
  have d: "list_all rlp_ok ?ds" "map rlp_of ?ds = map rlp_of ds" "length ?ds = length ds"
    using delete_stream_keeps(2) [of ds] assms(3) by simp_all
  obtain ds' st' where "encode_tx (RlpEncode mal (Some (RlpList (Some ?ds) (fst (free_stream st)))) None) =
       Inr (RlpList (Some ds') st', \<lparr>stream_ptr = Some (rlp_enc (Lst (map rlp_of ?ds))),
              stream_len = of_nat (length (rlp_enc (Lst (map rlp_of ?ds))))\<rparr>)"
    using encode_list [OF assms(1,2) d(1), of "fst (free_stream st)"] assms(4,5) unfolding d(2,3) by metis
  then show ?thesis
    unfolding d(2) by (intro that) (simp add: RlpReEncode_def del: rlp_enc.simps)
qed

lemma rlp_of_string_object: "rlp_of (string_object f) = Str (arg_string f)"
  by (cases f) (simp add: string_object_def arg_string_def)

lemma Uint32_length: "length (UtilityUint32ToBigend x TRIMBIN_LEFTTRIM) \<le> 4"
  using length_dropWhile_le [of "\<lambda>b. b = 0" "be_octets 4 x"] by (simp add: Uint32_eq trim0_def)

lemma v_field_set_v:
  "arg_string (v_field (set_v v raw)) = UtilityUint32ToBigend v TRIMBIN_LEFTTRIM"
  "rlp_ok (string_object (v_field (set_v v raw)))"
proof -
  have "unat (of_nat (length (UtilityUint32ToBigend v TRIMBIN_LEFTTRIM)) :: u32) = length (UtilityUint32ToBigend v TRIMBIN_LEFTTRIM)"
    using Uint32_length [of v] by (intro unat_of_nat_u32) simp
  then show "arg_string (v_field (set_v v raw)) = UtilityUint32ToBigend v TRIMBIN_LEFTTRIM"
    "rlp_ok (string_object (v_field (set_v v raw)))"
    by (simp_all add: v_field_def set_v_def Let_def arg_string_def string_object_def)
qed

lemma set_v_keeps: "tx_sig (set_v v raw) = tx_sig raw" "r_field (set_v v raw) = r_field raw" "s_field (set_v v raw) = s_field raw"
  by (simp_all add: set_v_def r_field_def s_field_def Let_def)

lemma TrimBin_trim0: "UtilityTrimBin True (Some b) TRIMBIN_LEFTTRIM True = (trim0 b, length (trim0 b))"
  by (simp add: UtilityTrimBin_def trim_loop_eq)

lemma trim0_length: "length (trim0 b) \<le> length b"
  by (simp add: trim0_def length_dropWhile_le)

lemma u8_len: "n \<le> 32 \<Longrightarrow> unat (ucast (of_nat n :: u8) :: u32) = n"
  by (subst unat_ucast_up) (simp_all add: unat_of_nat)

lemma take_signature_ok:
  assumes "native_format_used sg" "length (native_sign sg) = 64"
  obtains raw' where "take_signature sg raw = (Inr (), raw')"
    "\<exists>x. raw' = raw\<lparr>tx_sig := x\<rparr>"
    "arg_string (r_field raw') = trim0 (take 32 (native_sign sg))" "rlp_ok (string_object (r_field raw'))"
    "arg_string (s_field raw') = trim0 (drop 32 (native_sign sg))" "rlp_ok (string_object (s_field raw'))"
proof -
  let ?r = "take 32 (native_sign sg)" and ?s = "drop 32 (native_sign sg)"
  have l: "length (trim0 ?r) \<le> 32" "length (trim0 ?s) \<le> 32" using trim0_length [of ?r] trim0_length [of ?s] assms(2) by simp_all
  have "buf_get (native_sign sg) 0 32 = Inr ?r" "buf_get (native_sign sg) 32 32 = Inr ?s"
    using assms(2) by (simp_all add: buf_get_def)
  then have t: "take_signature sg raw = (Inr (), raw\<lparr>tx_sig := \<lparr>r32B = trim0 ?r @ drop (length (trim0 ?r)) ?r,
      s32B = trim0 ?s @ drop (length (trim0 ?s)) ?s, r_len = of_nat (length (trim0 ?r)), s_len = of_nat (length (trim0 ?s))\<rparr>\<rparr>)"
    using assms(1) by (simp add: take_signature_def TrimBin_trim0)
  show ?thesis
    by (rule that [OF t]) (auto simp: r_field_def s_field_def arg_string_def string_object_def u8_len l)
qed

lemma eip155_ok:
  assumes "length ds \<le> 12" "list_all rlp_ok ds" "rawtx_sized raw"
  obtains ds' raw' where "eip155_fields chain (RlpList (Some ds) st) raw =
      (Inr ((int (length ds), int (length ds + 1), int (length ds + 2)), RlpList (Some ds') st), raw')"
    "list_all rlp_ok ds'" "map rlp_of ds' = map rlp_of ds @ [Str (UtilityUint32ToBigend chain TRIMBIN_LEFTTRIM), Str [], Str []]"
    "\<exists>v x. raw' = raw\<lparr>tx_v := v, tx_sig := x\<rparr>"
proof -
  let ?raw = "(set_v chain raw)\<lparr>tx_sig := (tx_sig (set_v chain raw))\<lparr>r_len := 0, s_len := 0\<rparr>\<rparr>"
  have v: "v_field ?raw = v_field (set_v chain raw)" by (simp add: v_field_def)
  have ok: "rlp_ok (string_object (v_field ?raw))" "rlp_ok (string_object (r_field ?raw))" "rlp_ok (string_object (s_field ?raw))"
    using v_field_set_v(2) [of chain raw] v by (simp_all add: r_field_def s_field_def string_object_def)
  have it: "arg_string (v_field ?raw) = UtilityUint32ToBigend chain TRIMBIN_LEFTTRIM" "arg_string (r_field ?raw) = []" "arg_string (s_field ?raw) = []"
    using v_field_set_v(1) [of chain raw] v by (simp_all add: r_field_def s_field_def arg_string_def)
  show ?thesis
  proof (rule that [of "ds @ [string_object (v_field ?raw), string_object (r_field ?raw), string_object (s_field ?raw)]" ?raw])
    show "eip155_fields chain (RlpList (Some ds) st) raw =
      (Inr ((int (length ds), int (length ds + 1), int (length ds + 2)),
         RlpList (Some (ds @ [string_object (v_field ?raw), string_object (r_field ?raw), string_object (s_field ?raw)])) st), ?raw)"
      using assms(1) ok by (simp add: eip155_fields_def Let_def init_append_ok)
    show "\<exists>v x. ?raw = raw\<lparr>tx_v := v, tx_sig := x\<rparr>" by (auto simp: set_v_def Let_def)
  qed (use assms ok it in \<open>simp_all add: rlp_of_string_object\<close>)
qed

lemma put_field_replace:
  "k < length ds \<Longrightarrow> rlp_ok (string_object f) \<Longrightarrow>
     put_field True codes (int k) f (RlpList (Some ds) st) = Inr (RlpList (Some (ds[k := string_object f])) st)"
  by (simp add: put_field_def init_replace_ok)

lemma put_field_append:
  "length ds < 15 \<Longrightarrow> rlp_ok (string_object f) \<Longrightarrow>
     put_field False codes i f (RlpList (Some ds) st) = Inr (RlpList (Some (ds @ [string_object f])) st)"
  by (simp add: put_field_def init_append_ok)

lemma put_vrs_ok:
  assumes "list_all rlp_ok ds" "length items \<le> 12"
    "map rlp_of ds = items @ (if eip155 then [x, y, z] else [])"
    "rlp_ok (string_object fv)" "rlp_ok (string_object fr)" "rlp_ok (string_object fs)"
    "eip155 \<longrightarrow> idx = (int (length items), int (length items + 1), int (length items + 2))"
  obtains ds' where "put_vrs eip155 prog idx fv fr fs (RlpList (Some ds) st) = Inr (RlpList (Some ds') st)"
    "list_all rlp_ok ds'" "map rlp_of ds' = items @ [Str (arg_string fv), Str (arg_string fr), Str (arg_string fs)]"
proof (cases eip155)
  case True
  let ?n = "length items"
  let ?ds = "ds[?n := string_object fv, Suc ?n := string_object fr, Suc (Suc ?n) := string_object fs]"
  have l: "length ds = ?n + 3" using arg_cong [OF assms(3), of length] True by simp
  have i: "idx = (int ?n, int (Suc ?n), int (Suc (Suc ?n)))" using assms(7) True by simp
  show ?thesis
  proof (rule that [of ?ds])
    show "put_vrs eip155 prog idx fv fr fs (RlpList (Some ds) st) = Inr (RlpList (Some ?ds) st)"
      unfolding i using True l assms(4-6) by (simp only: put_vrs_def prod.case put_field_replace length_list_update bindR_simps)
    show "list_all rlp_ok ?ds" using assms by (intro list_all_update)
    show "map rlp_of ?ds = items @ [Str (arg_string fv), Str (arg_string fr), Str (arg_string fs)]"
      using True by (simp add: map_update assms(3) rlp_of_string_object list_update_append)
  qed
next
  case False
  have "length ds = length items" using arg_cong [OF assms(3), of length] False by simp
  then show ?thesis
    using that [of "ds @ [string_object fv, string_object fr, string_object fs]"] assms False
    by (cases idx) (simp add: put_vrs_def put_field_append rlp_of_string_object)
qed

definition encoded_stream :: "rlp \<Rightarrow> RlpEncodedStreamObject" where
  "encoded_stream x = \<lparr>stream_ptr = Some (rlp_enc x), stream_len = of_nat (length (rlp_enc x))\<rparr>"

lemma objects_ok: "list_all arg_ok fs \<Longrightarrow> list_all rlp_ok (map (string_object \<circ> snd) fs)"
  by (auto simp: list_all_iff arg_ok_def string_object_def)

lemma objects_items: "map rlp_of (map (string_object \<circ> snd) fs) = map (\<lambda>f. Str (arg_string (snd f))) fs"
  by (simp add: rlp_of_string_object)

lemma eip155_step:
  assumes "length ds \<le> 12" "list_all rlp_ok ds" "rawtx_sized raw"
  obtains idx ds' raw' where
    "(if eip155 then eip155_fields chain (RlpList (Some ds) st) else liftS (Inr ((0, 0, 0), RlpList (Some ds) st))) raw =
       (Inr (idx, RlpList (Some ds') st), raw')"
    "list_all rlp_ok ds'"
    "map rlp_of ds' = map rlp_of ds @ (if eip155 then [Str (UtilityUint32ToBigend chain TRIMBIN_LEFTTRIM), Str [], Str []] else [])"
    "eip155 \<longrightarrow> idx = (int (length ds), int (length ds + 1), int (length ds + 2))"
    "\<exists>v x. raw' = raw\<lparr>tx_v := v, tx_sig := x\<rparr>"
proof (cases eip155)
  case True
  obtain ds' raw' where e: "eip155_fields chain (RlpList (Some ds) st) raw =
      (Inr ((int (length ds), int (length ds + 1), int (length ds + 2)), RlpList (Some ds') st), raw')"
    "list_all rlp_ok ds'" "map rlp_of ds' = map rlp_of ds @ [Str (UtilityUint32ToBigend chain TRIMBIN_LEFTTRIM), Str [], Str []]"
    "\<exists>v x. raw' = raw\<lparr>tx_v := v, tx_sig := x\<rparr>"
    using eip155_ok [OF assms, of chain st] .
  show ?thesis by (rule that [OF _ e(2) _ _ e(4)]) (simp_all only: True if_True e(1,3) simp_thms)
next
  case False
  have "\<exists>v x. raw = raw\<lparr>tx_v := v, tx_sig := x\<rparr>" by (intro exI [of _ "tx_v raw"] exI [of _ "tx_sig raw"]) simp
  then show ?thesis by (rule that [of "(0, 0, 0)" ds raw, rotated -1]) (simp_all add: False assms liftS_def)
qed

text \<open>
  The interface of a protocol's program: the assignment in the middle leaves v and the signature alone, and the list has room
  for v, r and s. Signing is proved once for every such program.
\<close>

locale tx_program =
  fixes prog :: "('a BoatRawtxFields_scheme) TxProgram"
  assumes prepare_v: "tx_v (tx_prepare prog raw) = tx_v raw"
    and prepare_sig: "tx_sig (tx_prepare prog raw) = tx_sig raw"
    and few_fields: "length (tx_args prog raw) \<le> 12"
begin

lemma encode_unsigned_ok:
  assumes mal: "malloc_ok mal" "\<forall>n. mal n \<noteq> None"
    and raw: "list_all arg_ok (tx_args prog raw)" "rawtx_sized raw"
    and chain: "eip155 \<Longrightarrow> chain \<noteq> 0"
    and size: "length (rlp_enc (unsigned_tx eip155 (unat chain) (tx_items prog raw))) < 4294967295"
  obtains idx ds st where "\<exists>v x. encode_unsigned mal True prog eip155 chain raw =
      (Inr (idx, RlpList (Some ds) st, encoded_stream (unsigned_tx eip155 (unat chain) (tx_items prog raw))),
       (tx_prepare prog raw)\<lparr>tx_v := v, tx_sig := x\<rparr>)"
    "list_all rlp_ok ds"
    "map rlp_of ds = tx_items prog raw @
       (if eip155 then [Str (UtilityUint32ToBigend chain TRIMBIN_LEFTTRIM), Str [], Str []] else [])"
    "eip155 \<longrightarrow> idx = (int (length (tx_items prog raw)), int (length (tx_items prog raw) + 1), int (length (tx_items prog raw) + 2))"
proof -
  let ?st0 = "\<lparr>stream_ptr = None, stream_len = 0\<rparr>" and ?items = "tx_items prog raw"
  define raw1 where "raw1 = tx_prepare prog raw"
  define ds0 where "ds0 = map (string_object \<circ> snd) (tx_fields prog raw)"
  define ds1 where "ds1 = map (string_object \<circ> snd) (tx_args prog raw)"
  have args: "list_all arg_ok (tx_fields prog raw)" "list_all arg_ok (tx_more_fields prog raw1)"
    "length (tx_fields prog raw) + length (tx_more_fields prog raw1) \<le> 12"
    using raw(1) few_fields [of raw] by (simp_all add: tx_args_def raw1_def)
  have b0: "bindS (\<lambda>raw. (add_fields (tx_fields prog raw) (RlpList (Some []) ?st0), raw)) f raw = f (RlpList (Some ds0) ?st0) raw" for f
    using add_fields_ok [OF args(1), of "[]"] args(3) by (simp add: bindS_def ds0_def)
  have b1: "bindS (\<lambda>raw. (add_fields (tx_more_fields prog raw) (RlpList (Some ds0) ?st0), raw)) f raw1 = f (RlpList (Some ds1) ?st0) raw1" for f
    using add_fields_ok [OF args(2), of ds0] args(3) by (simp add: bindS_def ds0_def ds1_def tx_args_def raw1_def)
  have ds1: "length ds1 \<le> 12" "list_all rlp_ok ds1" "map rlp_of ds1 = ?items"
    using few_fields [of raw] objects_ok [OF raw(1)] by (simp_all add: ds1_def tx_items_def objects_items [simplified])
  then have n1: "length ?items = length ds1" by (metis length_map)
  have sized1: "rawtx_sized raw1" using raw(2) by (simp add: rawtx_sized_def raw1_def prepare_v prepare_sig)
  obtain idx ds2 raw2 where e: "(if eip155 then eip155_fields chain (RlpList (Some ds1) ?st0) else liftS (Inr ((0, 0, 0), RlpList (Some ds1) ?st0))) raw1 =
        (Inr (idx, RlpList (Some ds2) ?st0), raw2)"
      "list_all rlp_ok ds2" "map rlp_of ds2 = map rlp_of ds1 @ (if eip155 then [Str (UtilityUint32ToBigend chain TRIMBIN_LEFTTRIM), Str [], Str []] else [])"
      "eip155 \<longrightarrow> idx = (int (length ds1), int (length ds1 + 1), int (length ds1 + 2))" "\<exists>v x. raw2 = raw1\<lparr>tx_v := v, tx_sig := x\<rparr>"
    using eip155_step [OF ds1(1,2) sized1, of eip155 chain ?st0] .
  have b2: "bindS (if eip155 then eip155_fields chain (RlpList (Some ds1) ?st0) else liftS (Inr ((0, 0, 0), RlpList (Some ds1) ?st0))) f raw1 =
      f (idx, RlpList (Some ds2) ?st0) raw2" for f
    by (simp only: bindS_def e(1)) simp
  have l2: "length ds2 \<le> 15" using arg_cong [OF e(3), of length] ds1(1) n1 by (simp split: if_splits)
  have u: "Lst (map rlp_of ds2) = unsigned_tx eip155 (unat chain) ?items"
    using e(3) [unfolded ds1(3)] chain by (simp add: unsigned_tx_def Uint32_be_min)
  obtain ds3 st3 where s3: "encode_tx (RlpEncode mal (Some (RlpList (Some ds2) ?st0)) None) =
       Inr (RlpList (Some ds3) st3, encoded_stream (unsigned_tx eip155 (unat chain) ?items))"
      "list_all rlp_ok ds3" "map rlp_of ds3 = map rlp_of ds2"
    using encode_list [OF mal e(2) l2, of ?st0] size unfolding u encoded_stream_def by blast
  have "encode_unsigned mal True prog eip155 chain raw =
      (Inr (idx, RlpList (Some ds3) st3, encoded_stream (unsigned_tx eip155 (unat chain) ?items)), raw2)"
    by (simp only: encode_unsigned_def bindS_lift bindS_upd b0 b1 b2 s3(1)
        if_True prod.case init_list raw1_def [symmetric]) (simp add: liftS_def)
  then have "\<exists>v x. encode_unsigned mal True prog eip155 chain raw =
      (Inr (idx, RlpList (Some ds3) st3, encoded_stream (unsigned_tx eip155 (unat chain) ?items)), (tx_prepare prog raw)\<lparr>tx_v := v, tx_sig := x\<rparr>)"
    using e(5) raw1_def by auto
  then show ?thesis using that [of idx ds3 st3] e(3,4) s3(2,3) n1 ds1(3) by simp
qed

lemma encode_signed_ok:
  assumes mal: "malloc_ok mal" "\<forall>n. mal n \<noteq> None"
    and ds: "list_all rlp_ok ds" "length items \<le> 12" "map rlp_of ds = items @ (if eip155 then [x, y, z] else [])"
      "eip155 \<longrightarrow> idx = (int (length items), int (length items + 1), int (length items + 2))"
    and chain: "eip155 \<Longrightarrow> 2 * unat chain + 290 < 4294967296"
    and sg: "arg_string (r_field raw) = trim0 r" "rlp_ok (string_object (r_field raw))"
      "arg_string (s_field raw) = trim0 s" "rlp_ok (string_object (s_field raw))" "signPrefix_used sg"
    and size: "length (rlp_enc (signed_tx eip155 (unat chain) items (unat (signPrefix sg)) r s)) < 4294967295"
  shows "\<exists>v. encode_signed mal prog eip155 chain idx sg (RlpList (Some ds) st) raw =
     (Inr (encoded_stream (signed_tx eip155 (unat chain) items (unat (signPrefix sg)) r s)), raw\<lparr>tx_v := v\<rparr>)"
proof -
  define v where "v = (if eip155 then chain * 2 + ucast (signPrefix sg) + 35 else ucast (signPrefix sg) + (27 :: u32))"
  let ?raw = "set_v v raw"
  let ?V = "if eip155 then 2 * unat chain + 35 + unat (signPrefix sg) else 27 + unat (signPrefix sg)"
  have p: "unat (ucast (signPrefix sg) :: u32) = unat (signPrefix sg)" "unat (signPrefix sg) < 256"
    using u8_bound [of "signPrefix sg"] by (simp_all add: unat_ucast_up)
  have uv: "unat v = ?V" using chain p by (auto simp: v_def unat_word_ariths)
  then have "v \<noteq> 0" by (auto simp: word_unat_eq_iff split: if_splits)
  then have bv: "arg_string (v_field ?raw) = be_min ?V" using uv by (simp add: v_field_set_v Uint32_be_min)
  obtain ds' where q: "put_vrs eip155 prog idx (v_field ?raw) (r_field ?raw) (s_field ?raw) (RlpList (Some ds) st) = Inr (RlpList (Some ds') st)"
      "list_all rlp_ok ds'" "map rlp_of ds' = items @ [Str (arg_string (v_field ?raw)), Str (arg_string (r_field ?raw)), Str (arg_string (s_field ?raw))]"
    using put_vrs_ok [where fv = "v_field ?raw" and fr = "r_field ?raw" and fs = "s_field ?raw" and idx = idx and prog = prog and st = st,
      OF ds(1-3) v_field_set_v(2)] ds(4) sg(2,4)
    unfolding set_v_keeps by blast
  have s: "Lst (map rlp_of ds') = signed_tx eip155 (unat chain) items (unat (signPrefix sg)) r s"
    using q(3) bv sg(1,3) by (simp add: signed_tx_def set_v_keeps)
  have l: "length ds' \<le> 15" using arg_cong [OF q(3), of length] ds(2) by simp
  obtain ob where c: "encode_tx (RlpReEncode mal (Some (RlpList (Some ds') st)) None) =
       Inr (ob, encoded_stream (signed_tx eip155 (unat chain) items (unat (signPrefix sg)) r s))"
    using reencode_list [OF mal q(2) l, of st] size unfolding s encoded_stream_def by blast
  have b: "bindS (\<lambda>raw. (put_vrs eip155 prog idx (v_field raw) (r_field raw) (s_field raw) (RlpList (Some ds) st), raw)) f ?raw =
      f (RlpList (Some ds') st) ?raw" for f
    by (simp add: bindS_def q(1))
  have "encode_signed mal prog eip155 chain idx sg (RlpList (Some ds) st) raw =
     (Inr (encoded_stream (signed_tx eip155 (unat chain) items (unat (signPrefix sg)) r s)), ?raw)"
    by (simp only: encode_signed_def bindS_upd sg(5) if_True v_def [symmetric] b c bindS_lift prod.case) (simp add: liftS_def)
  then show ?thesis by (auto simp: set_v_def Let_def)
qed

lemma sign_rawtx_ok:
  fixes raw :: "'a BoatRawtxFields_scheme" and chain :: u32
  assumes mal: "malloc_ok mal" "\<forall>n. mal n \<noteq> None"
    and raw: "list_all arg_ok (tx_args prog raw)" "rawtx_sized raw"
    and chain: "eip155 \<Longrightarrow> chain \<noteq> 0 \<and> 2 * unat chain + 290 < 4294967296"
    and size: "length (rlp_enc (unsigned_tx eip155 (unat chain) (tx_items prog raw))) < 4294967295"
      "length (rlp_enc (signed_tx eip155 (unat chain) (tx_items prog raw) (unat (signPrefix sg)) (take 32 (native_sign sg)) (drop 32 (native_sign sg))))
         < 4294967295"
    and sg: "keccak (rlp_enc (unsigned_tx eip155 (unat chain) (tx_items prog raw))) = Inr digest" "sign digest = Inr sg"
      "native_format_used sg" "length (native_sign sg) = 64" "signPrefix_used sg"
  shows "\<exists>v x. sign_rawtx mal True keccak sign prog eip155 chain raw =
     (Inr (encoded_stream (signed_tx eip155 (unat chain) (tx_items prog raw) (unat (signPrefix sg))
             (take 32 (native_sign sg)) (drop 32 (native_sign sg)))),
      (tx_prepare prog raw)\<lparr>tx_v := v, tx_sig := x\<rparr>)"
proof -
  let ?u = "unsigned_tx eip155 (unat chain) (tx_items prog raw)"
  have chain0: "eip155 \<Longrightarrow> chain \<noteq> 0" using chain by simp
  obtain idx ds st where e: "\<exists>v x. encode_unsigned mal True prog eip155 chain raw =
      (Inr (idx, RlpList (Some ds) st, encoded_stream ?u), (tx_prepare prog raw)\<lparr>tx_v := v, tx_sig := x\<rparr>)"
    "list_all rlp_ok ds"
    "map rlp_of ds = tx_items prog raw @
       (if eip155 then [Str (UtilityUint32ToBigend chain TRIMBIN_LEFTTRIM), Str [], Str []] else [])"
    "eip155 \<longrightarrow> idx = (int (length (tx_items prog raw)), int (length (tx_items prog raw) + 1), int (length (tx_items prog raw) + 2))"
    using encode_unsigned_ok [OF mal raw chain0 size(1)] by blast
  then obtain v x where E: "encode_unsigned mal True prog eip155 chain raw =
      (Inr (idx, RlpList (Some ds) st, encoded_stream ?u), (tx_prepare prog raw)\<lparr>tx_v := v, tx_sig := x\<rparr>)" by blast
  obtain raw3 where t: "take_signature sg ((tx_prepare prog raw)\<lparr>tx_v := v, tx_sig := x\<rparr>) = (Inr (), raw3)"
      "\<exists>y. raw3 = (tx_prepare prog raw)\<lparr>tx_v := v, tx_sig := x, tx_sig := y\<rparr>"
      "arg_string (r_field raw3) = trim0 (take 32 (native_sign sg))" "rlp_ok (string_object (r_field raw3))"
      "arg_string (s_field raw3) = trim0 (drop 32 (native_sign sg))" "rlp_ok (string_object (s_field raw3))"
    using take_signature_ok [OF sg(3,4)] by blast
  have b: "stream_bytes (encoded_stream ?u) = Inr (rlp_enc ?u)"
    using size(1) by (simp add: stream_bytes_def encoded_stream_def buf_get_def)
  have d: "sign_digest keccak sign (encoded_stream ?u) ((tx_prepare prog raw)\<lparr>tx_v := v, tx_sig := x\<rparr>) = (Inr sg, raw3)"
    by (simp only: sign_digest_def b bindR_simps sg(1,2) recode_simps bindS_lift) (simp add: bindS_def t(1) liftS_def)
  have n: "length (tx_items prog raw) \<le> 12" using few_fields [of raw] by (simp add: tx_items_def)
  have c2: "eip155 \<Longrightarrow> 2 * unat chain + 290 < 4294967296" using chain by simp
  obtain w where f: "encode_signed mal prog eip155 chain idx sg (RlpList (Some ds) st) raw3 =
     (Inr (encoded_stream (signed_tx eip155 (unat chain) (tx_items prog raw) (unat (signPrefix sg))
             (take 32 (native_sign sg)) (drop 32 (native_sign sg)))), raw3\<lparr>tx_v := w\<rparr>)"
    using encode_signed_ok [OF mal e(2) n e(3,4) c2 t(3-6) sg(5) size(2)] by blast
  have "sign_rawtx mal True keccak sign prog eip155 chain raw =
     (Inr (encoded_stream (signed_tx eip155 (unat chain) (tx_items prog raw) (unat (signPrefix sg))
             (take 32 (native_sign sg)) (drop 32 (native_sign sg)))), raw3\<lparr>tx_v := w\<rparr>)"
    by (simp add: sign_rawtx_def bindS_def E d f)
  moreover from t(2) obtain y where "raw3 = (tx_prepare prog raw)\<lparr>tx_v := v, tx_sig := x, tx_sig := y\<rparr>" ..
  then have "raw3\<lparr>tx_v := w\<rparr> = (tx_prepare prog raw)\<lparr>tx_v := w, tx_sig := y\<rparr>" by simp
  ultimately show ?thesis by (intro exI [of _ w] exI [of _ y]) simp
qed

end

end
