(* ===== verification/Boat_Broadcast.thy ===== *)
theory Boat_Broadcast
  imports Boat_SendTx
begin

text \<open>
  What the senders of \<open>Boat_SendTx\<close> achieve. The programs of the protocols are instances of the locale \<open>tx_program\<close>, so their
  signing is correct; publishing posts the HEX text of the signed stream and stores the hash the node answers. The
  properties at the end put both together with the wallet, the network record and the JSON-RPC client.
\<close>

subsection \<open>The answer of the node\<close>

lemma c_string_put: "0 \<notin> set t \<Longrightarrow> c_string (t @ [0] @ r) = Inr t"
  by (induction t) (auto simp: c_string_def)

lemma expand_loop_ok:
  "malloc_ok mal \<Longrightarrow> \<forall>k. mal k \<noteq> None \<Longrightarrow> n < 2147483648 \<Longrightarrow> buf_sized b \<Longrightarrow>
     \<exists>b'. expand_loop mal n b = (Inr (), b') \<and> buf_sized b' \<and> n < unat (field_len b')"
proof (induction mal n b rule: expand_loop.induct)
  case (1 mal n b)
  show ?case
  proof (cases "unat (field_len b) \<le> n")
    case False
    then show ?thesis using 1(4,5) by (subst expand_loop.simps) auto
  next
    case True
    obtain m where m: "mal (unat (field_len b + 1024)) = Some m" using 1(3) by auto
    let ?b = "\<lparr>field_ptr = Some m, field_len = field_len b + 1024\<rparr>"
    have e: "BoatFieldVariable_malloc_size_expand mal WEB3_STRING_BUF_STEP_SIZE b = (Inr (), ?b)"
      using m by (simp add: BoatFieldVariable_malloc_size_expand_def Let_def)
    have "buf_sized ?b" using m 1(2) by (simp add: buf_sized_def malloc_ok_def)
    then have "\<exists>b'. expand_loop mal n ?b = (Inr (), b') \<and> buf_sized b' \<and> n < unat (field_len b')"
      using 1(1) [OF _ True e [symmetric] refl] 1(2-4) by simp
    moreover have "expand_loop mal n b = expand_loop mal n ?b"
      using 1(4) True e by (subst expand_loop.simps) simp
    ultimately show ?thesis by simp
  qed
qed

lemma store_result_ok:
  assumes "malloc_ok mal" "\<forall>k. mal k \<noteq> None" "length t < 2147483648" "buf_sized b" "0 \<notin> set t"
  obtains b' m where "store_result mal t b = (Inr (), b')" "buf_sized b'" "field_ptr b' = Some m" "c_string m = Inr t"
proof -
  obtain b1 where b1: "expand_loop mal (length t) b = (Inr (), b1)" "buf_sized b1" "length t < unat (field_len b1)"
    using expand_loop_ok [OF assms(1-4)] by blast
  then obtain m where m: "field_ptr b1 = Some m" "length m = unat (field_len b1)" by (auto simp: buf_sized_def split: option.splits)
  let ?m = "t @ [0] @ drop (length t + 1) m"
  have "store_result mal t b = (Inr (), b1\<lparr>field_ptr := Some ?m\<rparr>)"
    using b1(1,3) m by (simp add: store_result_def buf_put_def)
  moreover have "buf_sized (b1\<lparr>field_ptr := Some ?m\<rparr>)" using b1(3) m by (simp add: buf_sized_def)
  ultimately show ?thesis using that c_string_put [OF assms(5), of "drop (length t + 1) m"] by simp
qed

text \<open>An answer whose result is the string \<open>t\<close>.\<close>

definition answers :: "(bytes \<Rightarrow> cJSON option) \<Rightarrow> bytes \<Rightarrow> bytes \<Rightarrow> bool" where
  "answers json response t \<longleftrightarrow>
     (\<exists>ms. json response = Some (cJSON_Object ms) \<and> map_of ms (chars ''result'') = Some (cJSON_String t)) \<and>
     length t < 2147483648 \<and> 0 \<notin> set t"

lemma parse_answer:
  assumes "malloc_ok mal" "\<forall>k. mal k \<noteq> None" "buf_sized b" "answers json response t"
  obtains b' m where "eth_parse_json_result json mal (Some response) (Some child) (Some b) = (Inr (), Some b')"
    "buf_sized b'" "field_ptr b' = Some m" "c_string m = Inr t"
proof -
  obtain ms where ms: "json response = Some (cJSON_Object ms)" "map_of ms (chars ''result'') = Some (cJSON_String t)"
    using assms(4) by (auto simp: answers_def)
  obtain b' m where "store_result mal t b = (Inr (), b')" "buf_sized b'" "field_ptr b' = Some m" "c_string m = Inr t"
    using store_result_ok [OF assms(1,2) _ assms(3), of t] assms(4) unfolding answers_def by metis
  then show ?thesis using that ms
    by (simp add: eth_parse_json_result_def cJSON_GetObjectItemCaseSensitive_def)
qed

subsection \<open>Publishing\<close>

lemma hex_digit_plain: "hex_half c \<noteq> None \<Longrightarrow> c \<noteq> 0 \<and> c \<noteq> 34 \<and> c \<noteq> 92 \<and> 32 \<le> c"
  by (auto simp: hex_half_def word_le_nat_alt split: if_splits)

definition hex_text :: "bytes \<Rightarrow> bytes" where
  "hex_text bs = [48, 120] @ hex_string bs"

lemma hex_text_plain: "plain (hex_text bs)" "0 \<notin> set (hex_text bs)" "length (hex_text bs) = 2 * length bs + 2"
  using is_hex_string [of bs] hex_digit_plain by (auto simp: is_hex_def hex_text_def plain_def list_all_iff)

lemma bin_to_hex_text: "bs \<noteq> [] \<Longrightarrow> fst (UtilityBinToHex True (Some bs) BIN2HEX_LEFTTRIM_UNFMTDATA BIN2HEX_PREFIX_0x_YES z) = hex_text bs"
proof -
  assume "bs \<noteq> []"
  then have "hex_string bs \<noteq> []" by (cases bs) simp_all
  with \<open>bs \<noteq> []\<close> show ?thesis by (simp add: UtilityBinToHex_def bin2hex_loop_done hex_text_def)
qed

lemma hex_text_to_bin:
  assumes "h \<noteq> []" "length h \<le> n"
  shows "UtilityHexToBin True n (Some (hex_text h)) TRIMBIN_TRIM_NO z = (h, length h)"
proof -
  have ne: "hex_string h \<noteq> []" "0 < n" using assms by (cases h, auto)+
  then have "hex_digits (hex_text h) = hex_string h" by (simp add: hex_text_def hex_digits_prefix)
  with ne show ?thesis
    using UtilityHexToBin_hex [of "hex_text h" n TRIMBIN_TRIM_NO z] assms by (simp add: Let_def hex_pad_def pack_hex_string)
qed

lemma stream_of: "length (rlp_enc x) < 4294967296 \<Longrightarrow> stream_bytes (encoded_stream x) = Inr (rlp_enc x)"
  by (simp add: stream_bytes_def encoded_stream_def buf_get_def del: rlp_enc.simps)

text \<open>The part of publishing before the call of the node, and the part behind it.\<close>

lemma publish_call:
  assumes "malloc_ok mal" "\<forall>k. mal k \<noteq> None" "20 \<le> length (rlp_enc x)" "length (rlp_enc x) < 2147483646"
    "c_string (node_url_str (network_info wl)) = Inr url"
    "send (web3intf_context_ptr wl) (Some url) (hex_text (rlp_enc x)) (rawtx_fields t) w = (r, ctx, w1)"
  shows "publish_tx json mal send wl (encoded_stream x) t w =
     (case r of
        Inl e \<Rightarrow> (Inl e, set_context ctx t, w1)
      | Inr None \<Rightarrow> (Inr (), set_context ctx t, w1)
      | Inr (Some response) \<Rightarrow>
          (case parse_response json mal response [] ctx of
             (Inl e, ctx') \<Rightarrow> (Inl e, set_context ctx' t, w1)
           | (Inr c, ctx') \<Rightarrow>
               (case bindR (result_string c) (\<lambda>s. put_max (UtilityHexToBin True 32 s TRIMBIN_TRIM_NO False) (tx_hash t)) of
                  Inl e \<Rightarrow> (Inl e, set_context ctx' t, w1)
                | Inr h \<Rightarrow> (Inr (), (set_context ctx' t)\<lparr>tx_hash := h\<rparr>, w1))))"
proof -
  let ?n = "2 * length (rlp_enc x) + 3"
  have "(of_nat (length (rlp_enc x)) :: u32) * 2 + 2 + 1 = of_nat ?n" by simp
  then have n: "unat (stream_len (encoded_stream x) * 2 + 2 + 1) = ?n"
    using assms(4) unat_of_nat_u32 [of ?n] by (simp only: encoded_stream_def RlpEncodedStreamObject.simps)
  obtain block where b: "mal ?n = Some block" using assms(2) by auto
  then have l: "length block = ?n" using assms(1) by (simp add: malloc_ok_def)
  have ne: "rlp_enc x \<noteq> []" using assms(3) by auto
  show ?thesis
    unfolding publish_tx_def n b
    using stream_of [of x] assms(3-6) l hex_text_plain(3) [of "rlp_enc x"] bin_to_hex_text [OF ne, of False]
    by (cases r) (simp_all add: Let_def del: rlp_enc.simps split: option.split)
qed

lemma answer_stored:
  assumes "malloc_ok mal" "\<forall>k. mal k \<noteq> None" "buf_sized (web3_result_string_buf c)"
    "answers json response (hex_text h)" "length h = 32" "length (max_field f) = 32"
  obtains c' where "parse_response json mal response [] (Some c) = (Inr c', Some c')"
    "bindR (result_string c') (\<lambda>s. put_max (UtilityHexToBin True 32 s TRIMBIN_TRIM_NO False) f) =
       Inr \<lparr>max_field = h, max_field_len = 32\<rparr>"
    "\<exists>b. c' = c\<lparr>web3_result_string_buf := b\<rparr> \<and> buf_sized b"
proof -
  obtain b m where b: "eth_parse_json_result json mal (Some response) (Some []) (Some (web3_result_string_buf c)) = (Inr (), Some b)"
    "buf_sized b" "field_ptr b = Some m" "c_string m = Inr (hex_text h)"
    using parse_answer [OF assms(1-4)] .
  have "h \<noteq> []" using assms(5) by auto
  then have "bindR (result_string (c\<lparr>web3_result_string_buf := b\<rparr>)) (\<lambda>s. put_max (UtilityHexToBin True 32 s TRIMBIN_TRIM_NO False) f) =
       Inr \<lparr>max_field = h, max_field_len = 32\<rparr>"
    using b assms(5,6) by (simp add: result_string_def hex_text_to_bin put_max_def buf_put_def)
  then show ?thesis
    by (rule that [of "c\<lparr>web3_result_string_buf := b\<rparr>", rotated 1]) (use b in \<open>auto simp: parse_response_def\<close>)
qed

subsection \<open>The programs of the protocols\<close>

interpretation eth_tx: tx_program eth_program
  by unfold_locales (simp_all add: eth_program_def tx_args_def)

interpretation platon_tx: tx_program platon_program
  by unfold_locales (simp_all add: platon_program_def tx_args_def)

interpretation platone_tx: tx_program platone_program
  by unfold_locales (simp_all add: platone_program_def tx_args_def)

interpretation fiscobcos_tx: tx_program fiscobcos_program
  by unfold_locales (simp_all add: fiscobcos_program_def tx_args_def)

subsection \<open>Sizes\<close>

lemma str_size: "length s \<le> 32 \<Longrightarrow> length (rlp_enc (Str s)) \<le> 37" "length s \<le> length (rlp_enc (Str s))"
  using length_rlp_head [of "length s" "0x80"] by auto

lemma list_size:
  assumes "length (concat (map rlp_enc xs)) < 4294967296"
  shows "length (rlp_enc (Lst xs)) \<le> length (concat (map rlp_enc xs)) + 5"
    "length (concat (map rlp_enc xs)) \<le> length (rlp_enc (Lst xs))"
  using length_rlp_head [OF assms, of "0xC0"] by (simp_all add: Let_def)

lemma be_min_size: "n < 4294967296 \<Longrightarrow> length (be_min n) \<le> 32"
  using length_be_min [of n] by (cases "n = 0") (simp_all add: be_min.simps [of 0])

lemma tx_sizes:
  assumes "length (concat (map rlp_enc items)) < 536870912" "length r \<le> 32" "length s \<le> 32" "parity < 256"
    "eip155 \<Longrightarrow> 2 * chain + 290 < 4294967296"
  shows "length (rlp_enc (unsigned_tx eip155 chain items)) < 536871040"
    "length (rlp_enc (signed_tx eip155 chain items parity r s)) < 536871040"
    "length (concat (map rlp_enc items)) \<le> length (rlp_enc (signed_tx eip155 chain items parity r s))"
proof -
  let ?u = "items @ (if eip155 then [Str (be_min chain), Str [], Str []] else [])"
  let ?s = "items @ [Str (be_min (if eip155 then 2 * chain + 35 + parity else 27 + parity)), Str (trim0 r), Str (trim0 s)]"
  have "length (rlp_enc (Str (be_min chain))) \<le> 37" if eip155
    using that assms(5) by (intro str_size(1) be_min_size) simp
  moreover have "length (rlp_enc (Str [])) \<le> 37" by (intro str_size(1)) simp
  ultimately have u: "length (concat (map rlp_enc ?u)) < 536871035" using assms(1) by (auto simp del: rlp_enc.simps)
  have "length (rlp_enc (Str (be_min (if eip155 then 2 * chain + 35 + parity else 27 + parity)))) \<le> 37"
    using assms(4,5) by (intro str_size(1) be_min_size) auto
  moreover have "length (rlp_enc (Str (trim0 r))) \<le> 37" "length (rlp_enc (Str (trim0 s))) \<le> 37"
    using trim0_length [of r] trim0_length [of s] assms(2,3) by (intro str_size(1); simp)+
  ultimately have v: "length (concat (map rlp_enc ?s)) < 536871035" using assms(1) by (simp del: rlp_enc.simps)
  show "length (rlp_enc (unsigned_tx eip155 chain items)) < 536871040"
    using list_size(1) [of ?u] u unfolding unsigned_tx_def by simp
  show "length (rlp_enc (signed_tx eip155 chain items parity r s)) < 536871040"
    using list_size(1) [of ?s] v unfolding signed_tx_def by simp
  have "length (concat (map rlp_enc items)) \<le> length (concat (map rlp_enc ?s))" by simp
  then show "length (concat (map rlp_enc items)) \<le> length (rlp_enc (signed_tx eip155 chain items parity r s))"
    using list_size(2) [of ?s] v unfolding signed_tx_def by simp
qed

lemma item_size: "Str s \<in> set items \<Longrightarrow> length s \<le> length (concat (map rlp_enc items))"
proof (induction items)
  case (Cons y ys)
  then show ?case using str_size(2) [of s] by (cases "y = Str s") (auto simp del: rlp_enc.simps)
qed simp

subsection \<open>Sending\<close>

text \<open>
  A platform with memory; a transaction whose buffers have their sizes, with a wallet, a client and a node URL; and whether the network
  makes the sender use EIP-155.
\<close>

definition platform_ok :: "'w Platform \<Rightarrow> bool" where
  "platform_ok pf \<longleftrightarrow> malloc_ok (pf_malloc pf) \<and> (\<forall>n. pf_malloc pf n \<noteq> None) \<and> pf_list_ok pf"

definition ready :: "('a BoatRawtxFields_scheme, 'b) BoatTx_scheme \<Rightarrow> BoatWallet \<Rightarrow> Web3IntfContext \<Rightarrow> bytes \<Rightarrow> bool" where
  "ready t wl c url \<longleftrightarrow> wallet_ptr t = Some wl \<and> web3intf_context_ptr wl = Some c \<and>
     buf_sized (web3_json_string_buf c) \<and> buf_sized (web3_result_string_buf c) \<and>
     c_string (node_url_str (network_info wl)) = Inr url \<and>
     rawtx_sized (rawtx_fields t) \<and> length (max_field (tx_hash t)) = 32"

definition uses_eip155 :: "BoatWallet \<Rightarrow> bool" where
  "uses_eip155 wl \<longleftrightarrow> eip155_compatibility (network_info wl) = 1"

definition wallet_chain :: "BoatWallet \<Rightarrow> nat" where
  "wallet_chain wl = unat (chain_id (network_info wl))"

definition chain_ok :: "BoatWallet \<Rightarrow> bool" where
  "chain_ok wl \<longleftrightarrow> 0 < wallet_chain wl \<and> 2 * wallet_chain wl + 290 < 4294967296"

text \<open>Signing: \<open>sg\<close> is what the signer makes of the digest of the message \<open>m\<close>.\<close>

definition signed_with :: "'w Platform \<Rightarrow> BoatWallet \<Rightarrow> rlp \<Rightarrow> BoatSignatureResult \<Rightarrow> bool" where
  "signed_with pf wl m sg \<longleftrightarrow>
     pf_sign pf (account_prikeyCtx (account_info wl)) (pf_keccak pf (rlp_enc m)) = Inr sg \<and>
     native_format_used sg \<and> length (native_sign sg) = 64 \<and> signPrefix_used sg"

abbreviation sig_r :: "BoatSignatureResult \<Rightarrow> bytes" where "sig_r sg \<equiv> take 32 (native_sign sg)"
abbreviation sig_s :: "BoatSignatureResult \<Rightarrow> bytes" where "sig_s sg \<equiv> drop 32 (native_sign sg)"

abbreviation signed_by :: "bool \<Rightarrow> nat \<Rightarrow> rlp list \<Rightarrow> BoatSignatureResult \<Rightarrow> rlp" where
  "signed_by eip155 chain items sg \<equiv> signed_tx eip155 chain items (unat (signPrefix sg)) (sig_r sg) (sig_s sg)"

context tx_program
begin

lemma SendRawtx_ok:
  assumes pf: "platform_ok pf" and t: "ready t wl c url" "list_all arg_ok (tx_args prog (rawtx_fields t))"
    and e: "eip155 \<longleftrightarrow> tx_eip155 prog \<and> uses_eip155 wl" "eip155 \<Longrightarrow> chain_ok wl"
    and size: "20 \<le> length (concat (map rlp_enc (tx_items prog (rawtx_fields t))))"
      "length (concat (map rlp_enc (tx_items prog (rawtx_fields t)))) < 536870912"
    and sg: "signed_with pf wl (unsigned_tx eip155 (wallet_chain wl) (tx_items prog (rawtx_fields t))) sg"
    and posted: "\<And>raw. (\<exists>v x. raw = (tx_prepare prog (rawtx_fields t))\<lparr>tx_v := v, tx_sig := x\<rparr>) \<Longrightarrow>
       send (Some c) (Some url) (hex_text (rlp_enc (signed_by eip155 (wallet_chain wl) (tx_items prog (rawtx_fields t)) sg))) raw w =
         (Inr (Some response), Some c', w1)"
    and answer: "buf_sized (web3_result_string_buf c')" "answers (pf_json pf) response (hex_text h)" "length h = 32"
  shows "\<exists>t'. SendRawtx (pf_json pf) (pf_malloc pf) (pf_list_ok pf) (pf_hash pf) (pf_sign pf) prog send (Some t) w = (Inr (), Some t', w1) \<and>
     tx_hash t' = \<lparr>max_field = h, max_field_len = 32\<rparr>"
proof -
  let ?items = "tx_items prog (rawtx_fields t)" and ?chain = "chain_id (network_info wl)"
  let ?s = "signed_by eip155 (wallet_chain wl) ?items sg"
  have mal: "malloc_ok (pf_malloc pf)" "\<forall>n. pf_malloc pf n \<noteq> None" "pf_list_ok pf" using pf by (simp_all add: platform_ok_def)
  have wl: "wallet_ptr t = Some wl" "web3intf_context_ptr wl = Some c" "c_string (node_url_str (network_info wl)) = Inr url"
    "rawtx_sized (rawtx_fields t)" "length (max_field (tx_hash t)) = 32"
    using t(1) by (simp_all add: ready_def)
  have sg': "native_format_used sg" "length (native_sign sg) = 64" "signPrefix_used sg"
    "pf_hash pf (rlp_enc (unsigned_tx eip155 (wallet_chain wl) ?items)) = Inr (pf_keccak pf (rlp_enc (unsigned_tx eip155 (wallet_chain wl) ?items)))"
    "pf_sign pf (account_prikeyCtx (account_info wl)) (pf_keccak pf (rlp_enc (unsigned_tx eip155 (wallet_chain wl) ?items))) = Inr sg"
    using sg by (simp_all add: signed_with_def pf_hash_def BoatHash_def)
  have ch: "eip155 \<Longrightarrow> ?chain \<noteq> 0 \<and> 2 * unat ?chain + 290 < 4294967296"
    using e(2) by (auto simp: chain_ok_def wallet_chain_def)
  have par: "unat (signPrefix sg) < 256" by (rule u8_bound)
  note z = tx_sizes [OF size(2) _ _ par, of "sig_r sg" "sig_s sg" eip155 "wallet_chain wl"]
  have z': "length (rlp_enc (unsigned_tx eip155 (wallet_chain wl) ?items)) < 536871040" "length (rlp_enc ?s) < 536871040"
    "20 \<le> length (rlp_enc ?s)"
    using z sg'(2) ch size(1) by (auto simp: wallet_chain_def)
  have "\<exists>v x. sign_rawtx (pf_malloc pf) True (pf_hash pf) (pf_sign pf (account_prikeyCtx (account_info wl))) prog eip155 ?chain (rawtx_fields t) =
     (Inr (encoded_stream (signed_by eip155 (unat ?chain) ?items sg)), (tx_prepare prog (rawtx_fields t))\<lparr>tx_v := v, tx_sig := x\<rparr>)"
    by (rule sign_rawtx_ok [OF mal(1,2) t(2) wl(4)])
      (use ch z'(1,2) sg' in \<open>simp_all add: wallet_chain_def del: rlp_enc.simps\<close>)
  then obtain v x where S: "sign_rawtx (pf_malloc pf) True (pf_hash pf) (pf_sign pf (account_prikeyCtx (account_info wl))) prog eip155 ?chain (rawtx_fields t) =
     (Inr (encoded_stream ?s), (tx_prepare prog (rawtx_fields t))\<lparr>tx_v := v, tx_sig := x\<rparr>)"
    by (auto simp: wallet_chain_def)
  let ?t = "t\<lparr>tx_hash := (tx_hash t)\<lparr>max_field_len := 0\<rparr>, rawtx_fields := (tx_prepare prog (rawtx_fields t))\<lparr>tx_v := v, tx_sig := x\<rparr>\<rparr>"
  obtain c2 where A: "parse_response (pf_json pf) (pf_malloc pf) response [] (Some c') = (Inr c2, Some c2)"
    "bindR (result_string c2) (\<lambda>s. put_max (UtilityHexToBin True 32 s TRIMBIN_TRIM_NO False) (tx_hash ?t)) = Inr \<lparr>max_field = h, max_field_len = 32\<rparr>"
    using answer_stored [OF mal(1,2) answer, of "tx_hash ?t"] wl(5) by auto
  have P: "publish_tx (pf_json pf) (pf_malloc pf) send wl (encoded_stream ?s) ?t w =
       (Inr (), (set_context (Some c2) ?t)\<lparr>tx_hash := \<lparr>max_field = h, max_field_len = 32\<rparr>\<rparr>, w1)"
    using publish_call [OF mal(1,2) z'(3) _ wl(3), of send ?t w "Inr (Some response)" "Some c'" w1 "pf_json pf"] z'(2) posted wl(2) A by auto
  have "SendRawtx (pf_json pf) (pf_malloc pf) (pf_list_ok pf) (pf_hash pf) (pf_sign pf) prog send (Some t) w =
     (Inr (), Some ((set_context (Some c2) ?t)\<lparr>tx_hash := \<lparr>max_field = h, max_field_len = 32\<rparr>\<rparr>), w1)"
    using S P wl(1) mal(3) e(1) by (simp add: SendRawtx_def Let_def uses_eip155_def)
  then show ?thesis by simp
qed

end

subsection \<open>The posted request\<close>

lemma itoa_digits_length: "n < 10 ^ Suc k \<Longrightarrow> length (itoa_digits 10 n) \<le> Suc k"
proof (induction k arbitrary: n)
  case (Suc k)
  then have "n div 10 < 10 ^ Suc k" by (simp add: less_mult_imp_div_less)
  then show ?case using Suc.IH [of "n div 10"] by (simp add: itoa_digits.simps [of 10 n])
qed (simp add: itoa_digits.simps)

lemma dec_text_length: "length (dec_text i) \<le> 10"
  using itoa_digits_length [of "unat i" 9] u32_bound [of i] by (simp add: dec_text_def)

text \<open>The JSON-RPC request object.\<close>

definition rpc_request :: "string \<Rightarrow> json list \<Rightarrow> u32 \<Rightarrow> json" where
  "rpc_request method params i =
     JObj [(chars ''jsonrpc'', JStr (chars ''2.0'')), (chars ''method'', JStr (chars method)),
           (chars ''params'', JArr params), (chars ''id'', JNum (dec_text i))]"

lemma request_posts:
  assumes "malloc_ok mal" "\<forall>n. mal n \<noteq> None" "buf_sized (web3_json_string_buf c)" "request_ok q"
    "length (request_text q (web3_message_id c + 1)) < 2147483648"
  obtains req b where "run_request rpc mal q (Some c) (Some url) w =
       (case exchange rpc url req w of (r, w') \<Rightarrow>
          (r, Some (c\<lparr>web3_message_id := web3_message_id c + 1, web3_json_string_buf := b\<rparr>), w'))"
     "json_parse req = Some (request_json q (web3_message_id c + 1))"
proof (rule web3_post_spec [of mal "request_text q (web3_message_id c + 1)" "c\<lparr>web3_message_id := web3_message_id c + 1\<rparr>" rpc url w])
  fix b
  assume "web3_post rpc mal (Inr (request_text q (web3_message_id c + 1))) url (c\<lparr>web3_message_id := web3_message_id c + 1\<rparr>) w =
      (case exchange rpc url (request_text q (web3_message_id c + 1)) w of
         (r, w') \<Rightarrow> (r, c\<lparr>web3_message_id := web3_message_id c + 1, web3_json_string_buf := b\<rparr>, w'))"
  then show ?thesis
    by (intro that [of b "request_text q (web3_message_id c + 1)"])
      (simp_all add: format_request request_text_parses assms(4) split: prod.splits)
qed (use assms in auto)

lemma sender_ok:
  fixes prog :: "('a BoatRawtxFields_scheme) TxProgram"
  assumes "tx_program prog" and pf: "platform_ok pf" and t: "ready t wl c url" "list_all arg_ok (tx_args prog (rawtx_fields t))"
    and e: "eip155 \<longleftrightarrow> tx_eip155 prog \<and> uses_eip155 wl" "eip155 \<Longrightarrow> chain_ok wl"
    and size: "20 \<le> length (concat (map rlp_enc (tx_items prog (rawtx_fields t))))"
      "length (concat (map rlp_enc (tx_items prog (rawtx_fields t)))) < 536870912"
    and sg: "signed_with pf wl (unsigned_tx eip155 (wallet_chain wl) (tx_items prog (rawtx_fields t))) sg"
    and posts: "\<And>hex. plain hex \<Longrightarrow> length hex < 2147483200 \<Longrightarrow>
       \<exists>req b. json_parse req = Some (request hex) \<and>
         (\<forall>v x. send (Some c) (Some url) hex ((tx_prepare prog (rawtx_fields t))\<lparr>tx_v := v, tx_sig := x\<rparr>) w =
           (case exchange (pf_rpc pf) url req w of (r, w') \<Rightarrow>
              (r, Some (c\<lparr>web3_message_id := web3_message_id c + 1, web3_json_string_buf := b\<rparr>), w')))"
    and node: "\<And>req. \<exists>response. fst (exchange (pf_rpc pf) url req w) = Inr (Some response) \<and> answers (pf_json pf) response (hex_text (txid req)) \<and>
       length (txid req) = 32"
  shows "\<exists>req t'. SendRawtx (pf_json pf) (pf_malloc pf) (pf_list_ok pf) (pf_hash pf) (pf_sign pf) prog send (Some t) w =
       (Inr (), Some t', snd (exchange (pf_rpc pf) url req w)) \<and>
     json_parse req = Some (request (hex_text (rlp_enc (signed_by eip155 (wallet_chain wl) (tx_items prog (rawtx_fields t)) sg)))) \<and>
     tx_hash t' = \<lparr>max_field = txid req, max_field_len = 32\<rparr>"
proof -
  let ?items = "tx_items prog (rawtx_fields t)" and ?raw = "\<lambda>v x. (tx_prepare prog (rawtx_fields t))\<lparr>tx_v := v, tx_sig := x\<rparr>"
  let ?hex = "hex_text (rlp_enc (signed_by eip155 (wallet_chain wl) ?items sg))"
  have "length (rlp_enc (signed_by eip155 (wallet_chain wl) ?items sg)) < 536871040"
    using tx_sizes(2) [OF size(2) _ _ u8_bound] sg e(2) by (simp add: signed_with_def chain_ok_def)
  then have "length ?hex < 2147483200" using hex_text_plain(3) by simp
  then obtain req b where s: "json_parse req = Some (request ?hex)"
    "\<forall>v x. send (Some c) (Some url) ?hex (?raw v x) w =
       (case exchange (pf_rpc pf) url req w of (r, w') \<Rightarrow>
          (r, Some (c\<lparr>web3_message_id := web3_message_id c + 1, web3_json_string_buf := b\<rparr>), w'))"
    using posts [OF hex_text_plain(1)] by blast
  obtain response where r: "fst (exchange (pf_rpc pf) url req w) = Inr (Some response)"
    "answers (pf_json pf) response (hex_text (txid req))" "length (txid req) = 32"
    using node by blast
  let ?c = "c\<lparr>web3_message_id := web3_message_id c + 1, web3_json_string_buf := b\<rparr>"
  have "send (Some c) (Some url) ?hex raw w = (Inr (Some response), Some ?c, snd (exchange (pf_rpc pf) url req w))"
    if "\<exists>v x. raw = ?raw v x" for raw
    using s(2) that r(1) by (auto split: prod.split)
  moreover have "buf_sized (web3_result_string_buf ?c)" using t(1) by (simp add: ready_def)
  ultimately show ?thesis
    using tx_program.SendRawtx_ok [OF assms(1) pf t e size sg, of send w response ?c "snd (exchange (pf_rpc pf) url req w)" "txid req"]
      r(2,3) s(1) by blast
qed

lemma send_raw_request:
  assumes "platform_ok pf" "buf_sized (web3_json_string_buf c)" "plain (chars method)" "length method < 100" "plain hex" "length hex < 2147483200"
  shows "\<exists>req b. json_parse req = Some (rpc_request method [JStr hex] (web3_message_id c + 1)) \<and>
     (\<forall>raw. send_raw pf method (Some c) (Some url) hex raw w =
       (case exchange (pf_rpc pf) url req w of (r, w') \<Rightarrow>
          (r, Some (c\<lparr>web3_message_id := web3_message_id c + 1, web3_json_string_buf := b\<rparr>), w')))"
proof -
  let ?q = "SendRawTransaction \<lparr>srt_method_name_str = chars method, srt_signedtx_str = hex\<rparr>"
  have ok: "request_ok ?q" using assms(3,5) by (simp add: request_ok_def)
  have size: "length (request_text ?q (web3_message_id c + 1)) < 2147483648"
    using assms(4,6) dec_text_length [of "web3_message_id c + 1"]
    by (simp add: request_text_def request_json_def request_sep_def quoted_def chars_def)
  have mal: "malloc_ok (pf_malloc pf)" "\<forall>n. pf_malloc pf n \<noteq> None" using assms(1) by (simp_all add: platform_ok_def)
  obtain req b where "run_request (pf_rpc pf) (pf_malloc pf) ?q (Some c) (Some url) w =
       (case exchange (pf_rpc pf) url req w of (r, w') \<Rightarrow>
          (r, Some (c\<lparr>web3_message_id := web3_message_id c + 1, web3_json_string_buf := b\<rparr>), w'))"
     "json_parse req = Some (request_json ?q (web3_message_id c + 1))"
    using request_posts [OF mal assms(2) ok size, of "pf_rpc pf" url w] .
  then show ?thesis
    by (intro exI [of _ req] exI [of _ b]) (simp add: send_raw_def rpc_request_def request_json_def)
qed

lemma raw_sender_ok:
  fixes prog :: "('a BoatRawtxFields_scheme) TxProgram"
  assumes "tx_program prog" and pf: "platform_ok pf" and t: "ready t wl c url" "list_all arg_ok (tx_args prog (rawtx_fields t))"
    and e: "eip155 \<longleftrightarrow> tx_eip155 prog \<and> uses_eip155 wl" "eip155 \<Longrightarrow> chain_ok wl"
    and size: "20 \<le> length (concat (map rlp_enc (tx_items prog (rawtx_fields t))))"
      "length (concat (map rlp_enc (tx_items prog (rawtx_fields t)))) < 536870912"
    and sg: "signed_with pf wl (unsigned_tx eip155 (wallet_chain wl) (tx_items prog (rawtx_fields t))) sg"
    and node: "\<And>req. \<exists>response. fst (exchange (pf_rpc pf) url req w) = Inr (Some response) \<and> answers (pf_json pf) response (hex_text (txid req)) \<and>
       length (txid req) = 32"
    and name: "plain (chars method)" "length method < 100"
  shows "\<exists>req t'. SendRawtx (pf_json pf) (pf_malloc pf) (pf_list_ok pf) (pf_hash pf) (pf_sign pf) prog (send_raw pf method) (Some t) w =
       (Inr (), Some t', snd (exchange (pf_rpc pf) url req w)) \<and>
     json_parse req = Some (rpc_request method
       [JStr (hex_text (rlp_enc (signed_by eip155 (wallet_chain wl) (tx_items prog (rawtx_fields t)) sg)))] (web3_message_id c + 1)) \<and>
     tx_hash t' = \<lparr>max_field = txid req, max_field_len = 32\<rparr>"
proof (rule sender_ok [OF assms(1) pf t e size sg _ node, of "\<lambda>hex. rpc_request method [JStr hex] (web3_message_id c + 1)"])
  fix hex :: bytes
  assume "plain hex" "length hex < 2147483200"
  then have "\<exists>req b. json_parse req = Some (rpc_request method [JStr hex] (web3_message_id c + 1)) \<and>
     (\<forall>raw :: 'a BoatRawtxFields_scheme. send_raw pf method (Some c) (Some url) hex raw w =
       (case exchange (pf_rpc pf) url req w of (r, w') \<Rightarrow>
          (r, Some (c\<lparr>web3_message_id := web3_message_id c + 1, web3_json_string_buf := b\<rparr>), w')))"
    using t(1) by (intro send_raw_request [OF pf _ name]) (simp_all add: ready_def)
  then obtain req b where "json_parse req = Some (rpc_request method [JStr hex] (web3_message_id c + 1))"
    "\<forall>raw :: 'a BoatRawtxFields_scheme. send_raw pf method (Some c) (Some url) hex raw w =
       (case exchange (pf_rpc pf) url req w of (r, w') \<Rightarrow>
          (r, Some (c\<lparr>web3_message_id := web3_message_id c + 1, web3_json_string_buf := b\<rparr>), w'))" by blast
  then show "\<exists>req b. json_parse req = Some (rpc_request method [JStr hex] (web3_message_id c + 1)) \<and>
     (\<forall>v x. send_raw pf method (Some c) (Some url) hex ((tx_prepare prog (rawtx_fields t))\<lparr>tx_v := v, tx_sig := x\<rparr>) w =
       (case exchange (pf_rpc pf) url req w of (r, w') \<Rightarrow>
          (r, Some (c\<lparr>web3_message_id := web3_message_id c + 1, web3_json_string_buf := b\<rparr>), w')))"
    by (intro exI [of _ req] exI [of _ b]) simp
qed

text \<open>The group of FISCO BCOS goes out as the HEX digits without leading zeros.\<close>

definition hex_quantity :: "bytes \<Rightarrow> bytes" where
  "hex_quantity bs = dropWhile (\<lambda>d. d = 48) (hex_string bs)"

lemma bin_to_hex_quantity:
  "hex_quantity bs \<noteq> [] \<Longrightarrow> fst (UtilityBinToHex True (Some bs) BIN2HEX_LEFTTRIM_QUANTITY BIN2HEX_PREFIX_0x_NO z) = hex_quantity bs"
  by (auto simp: UtilityBinToHex_def bin2hex_loop_quantity hex_quantity_def Let_def)

lemma send_fiscobcos_request:
  assumes "platform_ok pf" "buf_sized (web3_json_string_buf c)" "plain hex" "length hex < 2147483200"
    "unat (max_field_len (groupid raw)) \<le> length (max_field (groupid raw))" "length (max_field (groupid raw)) \<le> 32"
    "number (hex_quantity (take (unat (max_field_len (groupid raw))) (max_field (groupid raw))))"
  shows "\<exists>req b. json_parse req = Some (rpc_request ''sendRawTransaction''
       [JNum (hex_quantity (take (unat (max_field_len (groupid raw))) (max_field (groupid raw)))), JStr hex] (web3_message_id c + 1)) \<and>
     (\<forall>raw'. groupid raw' = groupid raw \<longrightarrow> send_fiscobcos pf (Some c) (Some url) hex raw' w =
       (case exchange (pf_rpc pf) url req w of (r, w') \<Rightarrow>
          (r, Some (c\<lparr>web3_message_id := web3_message_id c + 1, web3_json_string_buf := b\<rparr>), w')))"
proof -
  let ?g = "take (unat (max_field_len (groupid raw))) (max_field (groupid raw))"
  let ?q = "FiscobcosSendRawTransaction \<lparr>fsrt_groupid = hex_quantity ?g, fsrt_signedtx_str = hex\<rparr>"
  have ok: "request_ok ?q" using assms(3,7) by (simp add: request_ok_def plain_def chars_def)
  have "length (hex_quantity ?g) \<le> 64"
    using length_dropWhile_le [of "\<lambda>d. d = 48" "hex_string ?g"] assms(5,6) by (simp add: hex_quantity_def)
  then have size: "length (request_text ?q (web3_message_id c + 1)) < 2147483648"
    using assms(4) dec_text_length [of "web3_message_id c + 1"]
    by (simp add: request_text_def request_json_def request_sep_def quoted_def chars_def)
  have mal: "malloc_ok (pf_malloc pf)" "\<forall>n. pf_malloc pf n \<noteq> None" using assms(1) by (simp_all add: platform_ok_def)
  obtain req b where r: "run_request (pf_rpc pf) (pf_malloc pf) ?q (Some c) (Some url) w =
       (case exchange (pf_rpc pf) url req w of (r, w') \<Rightarrow>
          (r, Some (c\<lparr>web3_message_id := web3_message_id c + 1, web3_json_string_buf := b\<rparr>), w'))"
     "json_parse req = Some (request_json ?q (web3_message_id c + 1))"
    using request_posts [OF mal assms(2) ok size, of "pf_rpc pf" url w] .
  have "hex_quantity ?g \<noteq> []" using assms(7) by (simp add: number_def)
  then have "fst (UtilityBinToHex True (Some ?g) BIN2HEX_LEFTTRIM_QUANTITY BIN2HEX_PREFIX_0x_NO False) = hex_quantity ?g"
    by (rule bin_to_hex_quantity)
  moreover have "buf_get (max_field (groupid raw)) 0 (unat (max_field_len (groupid raw))) = Inr ?g"
    using assms(5) by (simp add: buf_get_def)
  ultimately show ?thesis
    using r by (intro exI [of _ req] exI [of _ b]) (simp add: send_fiscobcos_def rpc_request_def request_json_def)
qed

subsection \<open>The fields of a transaction\<close>

definition max_bytes :: "BoatFieldMax \<Rightarrow> bytes" where
  "max_bytes f = take (unat (max_field_len f)) (max_field f)"

definition max_fits :: "BoatFieldMax \<Rightarrow> bool" where
  "max_fits f \<longleftrightarrow> unat (max_field_len f) \<le> length (max_field f) \<and> length (max_field f) \<le> 32"

definition var_bytes :: "BoatFieldVariable \<Rightarrow> bytes" where
  "var_bytes f = (case field_ptr f of None \<Rightarrow> [] | Some b \<Rightarrow> take (unat (field_len f)) b)"

definition var_fits :: "BoatFieldVariable \<Rightarrow> bool" where
  "var_fits f \<longleftrightarrow> unat (field_len f) < 268435456 \<and>
     (case field_ptr f of None \<Rightarrow> field_len f = 0 | Some b \<Rightarrow> unat (field_len f) \<le> length b)"

text \<open>The six fields of an Ethereum transaction, and the ones of PlatONE and FISCO BCOS.\<close>

definition eth_items :: "'a BoatRawtxFields_scheme \<Rightarrow> rlp list" where
  "eth_items raw = [Str (max_bytes (nonce raw)), Str (max_bytes (gasprice raw)), Str (max_bytes (gaslimit raw)), Str (recipient raw),
     Str (max_bytes (tx_value raw)), Str (var_bytes (tx_data raw))]"

definition fields_ok :: "'a BoatRawtxFields_scheme \<Rightarrow> bool" where
  "fields_ok raw \<longleftrightarrow> max_fits (nonce raw) \<and> max_fits (gasprice raw) \<and> max_fits (gaslimit raw) \<and> length (recipient raw) = 20 \<and>
     max_fits (tx_value raw) \<and> var_fits (tx_data raw)"

definition platone_items :: "BoatPlatoneRawtxFields \<Rightarrow> rlp list" where
  "platone_items raw = eth_items raw @ [Str (UtilityUint64ToBigend (txtype raw) TRIMBIN_LEFTTRIM)]"

definition fiscobcos_items :: "BoatFiscobcosRawtxFields \<Rightarrow> rlp list" where
  "fiscobcos_items raw = [Str (max_bytes (nonce raw)), Str (max_bytes (gasprice raw)), Str (max_bytes (gaslimit raw)),
     Str (max_bytes (blocklimit raw)), Str (recipient raw), Str (max_bytes (tx_value raw)), Str (var_bytes (tx_data raw)),
     Str (max_bytes (chainid raw)), Str (max_bytes (groupid raw)), Str []]"

definition fiscobcos_fields_ok :: "BoatFiscobcosRawtxFields \<Rightarrow> bool" where
  "fiscobcos_fields_ok raw \<longleftrightarrow> fields_ok raw \<and> max_fits (blocklimit raw) \<and> max_fits (chainid raw) \<and> max_fits (groupid raw)"

lemma max_arg_facts:
  "arg_string (max_arg f) = max_bytes f" "max_fits f \<Longrightarrow> arg_ok (c, max_arg f)" "max_fits f \<Longrightarrow> length (rlp_enc (Str (max_bytes f))) \<le> 37"
  using str_size(1) [of "max_bytes f"]
  by (auto simp: max_arg_def max_bytes_def max_fits_def arg_string_def arg_ok_def simp del: rlp_enc.simps)

lemma var_arg_facts:
  "arg_string (var_arg f) = var_bytes f" "var_fits f \<Longrightarrow> arg_ok (c, var_arg f)"
  "var_fits f \<Longrightarrow> length (rlp_enc (Str (var_bytes f))) \<le> 268435461"
proof -
  show "arg_string (var_arg f) = var_bytes f" "var_fits f \<Longrightarrow> arg_ok (c, var_arg f)"
    by (auto simp: var_arg_def var_bytes_def var_fits_def arg_string_def arg_ok_def split: option.splits)
  assume "var_fits f"
  then have "length (var_bytes f) < 268435456" by (auto simp: var_fits_def var_bytes_def split: option.splits)
  then show "length (rlp_enc (Str (var_bytes f))) \<le> 268435461"
    using length_rlp_head [of "length (var_bytes f)" "0x80"] by auto
qed

lemma recipient_facts:
  "length a = 20 \<Longrightarrow> arg_string (Some a, 20) = a" "length a = 20 \<Longrightarrow> arg_ok (c, Some a, 20)"
  "length a = 20 \<Longrightarrow> length (rlp_enc (Str a)) \<le> 37" "length a = 20 \<Longrightarrow> 20 \<le> length (rlp_enc (Str a))"
  using str_size [of a] by (auto simp: arg_string_def arg_ok_def simp del: rlp_enc.simps)

lemmas field_facts = max_arg_facts var_arg_facts recipient_facts

lemma field_sizes:
  assumes "fields_ok raw"
  shows "length (rlp_enc (Str (max_bytes (nonce raw)))) \<le> 37" "length (rlp_enc (Str (max_bytes (gasprice raw)))) \<le> 37"
    "length (rlp_enc (Str (max_bytes (gaslimit raw)))) \<le> 37" "length (rlp_enc (Str (recipient raw))) \<le> 37"
    "20 \<le> length (rlp_enc (Str (recipient raw)))" "length (rlp_enc (Str (max_bytes (tx_value raw)))) \<le> 37"
    "length (rlp_enc (Str (var_bytes (tx_data raw)))) \<le> 268435461"
  using assms by (simp_all add: fields_ok_def max_arg_facts(3) var_arg_facts(3) recipient_facts(3,4) del: rlp_enc.simps)

lemma eth_items_size:
  assumes "fields_ok raw"
  shows "20 \<le> length (concat (map rlp_enc (eth_items raw)))" "length (concat (map rlp_enc (eth_items raw))) < 268440000"
  using field_sizes [OF assms] by (simp_all add: eth_items_def del: rlp_enc.simps)

lemma eth_items_ok:
  assumes "fields_ok raw" "prog = eth_program \<or> prog = platon_program"
  shows "tx_items prog raw = eth_items raw" "list_all arg_ok (tx_args prog raw)"
  using assms field_facts
  by (auto simp: fields_ok_def eth_items_def tx_items_def tx_args_def eth_program_def platon_program_def)

lemma txtype_arg:
  "arg_string (Some (UtilityUint64ToBigend x TRIMBIN_LEFTTRIM), of_nat (length (UtilityUint64ToBigend x TRIMBIN_LEFTTRIM))) =
     UtilityUint64ToBigend x TRIMBIN_LEFTTRIM"
  "arg_ok (c, Some (UtilityUint64ToBigend x TRIMBIN_LEFTTRIM), of_nat (length (UtilityUint64ToBigend x TRIMBIN_LEFTTRIM)))"
  "length (rlp_enc (Str (UtilityUint64ToBigend x TRIMBIN_LEFTTRIM))) \<le> 37"
proof -
  have l: "length (UtilityUint64ToBigend x TRIMBIN_LEFTTRIM) \<le> 8"
    using length_dropWhile_le [of "\<lambda>b. b = 0" "be_octets 8 x"] by (simp add: Uint64_eq trim0_def)
  then show "arg_string (Some (UtilityUint64ToBigend x TRIMBIN_LEFTTRIM), of_nat (length (UtilityUint64ToBigend x TRIMBIN_LEFTTRIM))) =
     UtilityUint64ToBigend x TRIMBIN_LEFTTRIM"
    "arg_ok (c, Some (UtilityUint64ToBigend x TRIMBIN_LEFTTRIM), of_nat (length (UtilityUint64ToBigend x TRIMBIN_LEFTTRIM)))"
    by (simp_all add: arg_string_def arg_ok_def)
  show "length (rlp_enc (Str (UtilityUint64ToBigend x TRIMBIN_LEFTTRIM))) \<le> 37" using l by (intro str_size(1)) simp
qed

lemma platone_items_ok:
  assumes "fields_ok raw"
  shows "tx_items platone_program raw = platone_items raw" "list_all arg_ok (tx_args platone_program raw)"
    "20 \<le> length (concat (map rlp_enc (platone_items raw)))" "length (concat (map rlp_enc (platone_items raw))) < 536870912"
proof -
  show "tx_items platone_program raw = platone_items raw" "list_all arg_ok (tx_args platone_program raw)"
    using assms field_facts txtype_arg(1,2)
    by (simp_all add: fields_ok_def eth_items_def platone_items_def tx_items_def tx_args_def platone_program_def)
  show "20 \<le> length (concat (map rlp_enc (platone_items raw)))" "length (concat (map rlp_enc (platone_items raw))) < 536870912"
    using eth_items_size [OF assms] txtype_arg(3) [of "txtype raw"] by (simp_all add: platone_items_def del: rlp_enc.simps)
qed

lemma empty_arg: "arg_string (p, 0) = []" "arg_ok (c, p, 0)" "length (rlp_enc (Str [])) \<le> 37"
  using str_size(1) [of "[]"] by (auto simp: arg_string_def arg_ok_def simp del: rlp_enc.simps split: option.splits)

lemma fiscobcos_items_ok:
  assumes "fiscobcos_fields_ok raw"
  shows "tx_items fiscobcos_program raw = fiscobcos_items raw" "list_all arg_ok (tx_args fiscobcos_program raw)"
    "20 \<le> length (concat (map rlp_enc (fiscobcos_items raw)))" "length (concat (map rlp_enc (fiscobcos_items raw))) < 536870912"
proof -
  have f: "fields_ok raw" "max_fits (blocklimit raw)" "max_fits (chainid raw)" "max_fits (groupid raw)"
    using assms by (simp_all add: fiscobcos_fields_ok_def)
  have "var_arg (extra_data raw\<lparr>field_len := 0\<rparr>) = (field_ptr (extra_data raw), 0)" by (simp add: var_arg_def)
  with f show "tx_items fiscobcos_program raw = fiscobcos_items raw" "list_all arg_ok (tx_args fiscobcos_program raw)"
    using field_facts empty_arg(1,2)
    by (simp_all add: fields_ok_def fiscobcos_items_def tx_items_def tx_args_def fiscobcos_program_def)
  show "20 \<le> length (concat (map rlp_enc (fiscobcos_items raw)))" "length (concat (map rlp_enc (fiscobcos_items raw))) < 536870912"
    using field_sizes [OF f(1)] max_arg_facts(3) [OF f(2)] max_arg_facts(3) [OF f(3)] max_arg_facts(3) [OF f(4)] empty_arg(3)
    by (simp_all add: fiscobcos_items_def del: rlp_enc.simps)
qed

text \<open>A node that answers every request with the transaction hash \<open>txid\<close> of it.\<close>

definition node_accepts :: "'w Platform \<Rightarrow> bytes \<Rightarrow> 'w \<Rightarrow> (bytes \<Rightarrow> bytes) \<Rightarrow> bool" where
  "node_accepts pf url w txid \<longleftrightarrow>
     (\<forall>req. length (txid req) = 32 \<and>
        (\<exists>response. fst (exchange (pf_rpc pf) url req w) = Inr (Some response) \<and> answers (pf_json pf) response (hex_text (txid req))))"

lemma node_acceptsD:
  "node_accepts pf url w txid \<Longrightarrow> \<exists>response. fst (exchange (pf_rpc pf) url req w) = Inr (Some response) \<and>
     answers (pf_json pf) response (hex_text (txid req)) \<and> length (txid req) = 32"
  by (auto simp: node_accepts_def)

lemma methods_plain: "plain (chars ''eth_sendRawTransaction'')" "plain (chars ''platon_sendRawTransaction'')"
  by (simp_all add: plain_def chars_def)

lemmas programs_tx = eth_tx.tx_program_axioms platon_tx.tx_program_axioms platone_tx.tx_program_axioms fiscobcos_tx.tx_program_axioms

abbreviation sent_tx :: "BoatWallet \<Rightarrow> rlp list \<Rightarrow> BoatSignatureResult \<Rightarrow> bytes" where
  "sent_tx wl items sg \<equiv> rlp_enc (signed_by (uses_eip155 wl) (wallet_chain wl) items sg)"

subsection \<open>Properties\<close>

text \<open>
  C3: Sending an Ethereum transaction from the wallet to the node: \<open>EthSendRawtx\<close>, \<open>VenachainSendRawtx\<close> and \<open>PlatONSendRawtx\<close> post to
  the node URL of the wallet exactly one request, which a JSON parser reads as the protocol's sendRawTransaction with one parameter: the HEX text of
  the RLP list of nonce, gas price, gas limit, recipient, value, data, v, r and s. v, r and s are the signature over the
  Keccak hash of the unsigned list, as EIP-155 has it on networks that use it and as the yellow paper has it elsewhere, and the hash that
  the node answers is in \<open>tx_hash\<close> afterwards.
\<close>

theorem transaction_sent:
  assumes "(send, method) \<in> {(EthSendRawtx pf, ''eth_sendRawTransaction''), (VenachainSendRawtx pf, ''eth_sendRawTransaction''),
      (PlatONSendRawtx pf, ''platon_sendRawTransaction'')}"
    "platform_ok pf" "ready t wl c url" "fields_ok (rawtx_fields t)" "uses_eip155 wl \<Longrightarrow> chain_ok wl"
    "signed_with pf wl (unsigned_tx (uses_eip155 wl) (wallet_chain wl) (eth_items (rawtx_fields t))) sg"
    "node_accepts pf url w txid"
  shows "\<exists>req t'. send (Some t) w = (Inr (), Some t', snd (exchange (pf_rpc pf) url req w)) \<and>
     json_parse req = Some (rpc_request method [JStr (hex_text (sent_tx wl (eth_items (rawtx_fields t)) sg))] (web3_message_id c + 1)) \<and>
     tx_hash t' = \<lparr>max_field = txid req, max_field_len = 32\<rparr>"
proof -
  note e = eth_items_ok [OF assms(4)] eth_items_size [OF assms(4)]
  have "\<exists>req t'. SendRawtx (pf_json pf) (pf_malloc pf) (pf_list_ok pf) (pf_hash pf) (pf_sign pf) prog (send_raw pf m) (Some t) w =
       (Inr (), Some t', snd (exchange (pf_rpc pf) url req w)) \<and>
     json_parse req = Some (rpc_request m [JStr (hex_text (sent_tx wl (eth_items (rawtx_fields t)) sg))] (web3_message_id c + 1)) \<and>
     tx_hash t' = \<lparr>max_field = txid req, max_field_len = 32\<rparr>"
    if p: "prog = eth_program \<or> prog = platon_program" "m = ''eth_sendRawTransaction'' \<or> m = ''platon_sendRawTransaction''" for prog m
    using raw_sender_ok [of prog pf t wl c url "uses_eip155 wl" sg w txid m]
      p programs_tx assms(2-6) e methods_plain node_acceptsD [OF assms(7)]
    by (auto simp: eth_program_def platon_program_def simp del: rlp_enc.simps)
  then show ?thesis
    using assms(1) unfolding EthSendRawtx_def VenachainSendRawtx_def PlatONSendRawtx_def by fastforce
qed

text \<open>A device, a wallet on chain 5, a transaction of it, and a node that records what it is sent.\<close>

definition sample_platform :: "bytes list Platform" where
  "sample_platform =
     \<lparr>pf_rpc = \<lparr>request_set = \<lambda>u s. (0, s), request_sync = \<lambda>t s. ((0, Some [123]), t # s)\<rparr>,
      pf_malloc = (\<lambda>n. Some (replicate n 0)), pf_list_ok = True, pf_keccak = (\<lambda>m. replicate 32 7), pf_sha256 = (\<lambda>m. replicate 32 8),
      pf_sign = (\<lambda>k d. Inr \<lparr>native_format_used = True, native_sign = replicate 64 9, pkcs_format_used = False, pkcs_sign = [],
                   pkcs_sign_length = 0, signPrefix_used = True, signPrefix = 1\<rparr>),
      pf_json = (\<lambda>r. Some (cJSON_Object [(chars ''result'', cJSON_String (hex_text (replicate 32 3)))]))\<rparr>"

definition sample_signature :: BoatSignatureResult where
  "sample_signature = \<lparr>native_format_used = True, native_sign = replicate 64 9, pkcs_format_used = False, pkcs_sign = [],
     pkcs_sign_length = 0, signPrefix_used = True, signPrefix = 1\<rparr>"

definition sample_wallet :: BoatWallet where
  "sample_wallet =
     \<lparr>account_info = \<lparr>account_prikeyCtx = \<lparr>keypair_index = 1, keypair_name = Some [107, 0], prikey_format = replicate 4 0,
        prikey_type = replicate 4 0, pubkey_content = replicate 64 0\<rparr>, account_address = replicate 20 1\<rparr>,
      network_info = \<lparr>networkIndex = 1, chain_id = 5, eip155_compatibility = 1, node_url_str = [104, 0]\<rparr>,
      web3intf_context_ptr = Some sample_context\<rparr>"

definition sample_fields :: BoatRawtxFields where
  "sample_fields =
     \<lparr>nonce = \<lparr>max_field = [4], max_field_len = 1\<rparr>, gasprice = \<lparr>max_field = [2], max_field_len = 1\<rparr>,
      gaslimit = \<lparr>max_field = [3, 0], max_field_len = 2\<rparr>, recipient = replicate 20 6, tx_value = \<lparr>max_field = [0], max_field_len = 0\<rparr>,
      tx_data = \<lparr>field_ptr = None, field_len = 0\<rparr>, tx_v = \<lparr>max_field = [0, 0, 0, 0], max_field_len = 0\<rparr>,
      tx_sig = \<lparr>r32B = replicate 32 0, s32B = replicate 32 0, r_len = 0, s_len = 0\<rparr>\<rparr>"

definition sample_tx :: "BoatRawtxFields BoatTx" where
  "sample_tx = \<lparr>wallet_ptr = Some sample_wallet, tx_hash = \<lparr>max_field = replicate 32 0, max_field_len = 0\<rparr>, is_sync_tx = False,
     rawtx_fields = sample_fields\<rparr>"

lemma sample_facts:
  "platform_ok sample_platform" "ready sample_tx sample_wallet sample_context [104]" "fields_ok sample_fields" "chain_ok sample_wallet"
  "signed_with sample_platform sample_wallet m sample_signature" "uses_eip155 sample_wallet" "wallet_chain sample_wallet = 5"
  "exchange (pf_rpc sample_platform) u req ws = (Inr (Some [123]), req # ws)"
  "node_accepts sample_platform u ws (\<lambda>req. replicate 32 3)" "rawtx_fields sample_tx = sample_fields"
proof -
  have "length (hex_text (replicate 32 3)) < 2147483648" "0 \<notin> set (hex_text (replicate 32 3))"
    using hex_text_plain(2,3) [of "replicate 32 3"] by simp_all
  then show "node_accepts sample_platform u ws (\<lambda>req. replicate 32 3)"
    by (simp add: node_accepts_def sample_platform_def exchange_def answers_def)
qed (simp_all add: sample_platform_def platform_ok_def malloc_ok_def ready_def sample_tx_def sample_wallet_def sample_fields_def
    sample_signature_def buf_sized_def c_string_def rawtx_sized_def fields_ok_def max_fits_def var_fits_def chain_ok_def wallet_chain_def
    signed_with_def uses_eip155_def exchange_def)

theorem transaction_sent_witness:
  "\<exists>req t'. EthSendRawtx sample_platform (Some sample_tx) [] = (Inr (), Some t', [req]) \<and>
     json_parse req = Some (rpc_request ''eth_sendRawTransaction''
       [JStr (hex_text (rlp_enc (signed_tx True 5 (eth_items sample_fields) 1 (replicate 32 9) (replicate 32 9))))] 7) \<and>
     tx_hash t' = \<lparr>max_field = replicate 32 3, max_field_len = 32\<rparr>"
  using transaction_sent [of "EthSendRawtx sample_platform" "''eth_sendRawTransaction''" sample_platform sample_tx sample_wallet
      sample_context "[104]" sample_signature "[]" "\<lambda>req. replicate 32 3"] sample_facts
  by (simp add: sample_signature_def del: rlp_enc.simps)

definition sample_platone_tx :: "BoatPlatoneRawtxFields BoatTx" where
  "sample_platone_tx = \<lparr>wallet_ptr = Some sample_wallet, tx_hash = \<lparr>max_field = replicate 32 0, max_field_len = 0\<rparr>, is_sync_tx = False,
     rawtx_fields = BoatRawtxFields.extend sample_fields \<lparr>txtype = 2\<rparr>\<rparr>"

lemma sample_platone_facts:
  "ready sample_platone_tx sample_wallet sample_context [104]" "fields_ok (rawtx_fields sample_platone_tx)"
  by (simp_all add: ready_def sample_platone_tx_def sample_wallet_def sample_fields_def BoatRawtxFields.defs buf_sized_def c_string_def
      rawtx_sized_def fields_ok_def max_fits_def var_fits_def)

text \<open>
  \<open>PlatoneSendRawtx\<close> sends the transaction of Ethereum with the transaction type as its seventh field, which is signed along
  with the others.
\<close>

theorem platone_transaction_sent:
  assumes "platform_ok pf" "ready t wl c url" "fields_ok (rawtx_fields t)" "uses_eip155 wl \<Longrightarrow> chain_ok wl"
    "signed_with pf wl (unsigned_tx (uses_eip155 wl) (wallet_chain wl) (platone_items (rawtx_fields t))) sg"
    "node_accepts pf url w txid"
  shows "\<exists>req t'. PlatoneSendRawtx pf (Some t) w = (Inr (), Some t', snd (exchange (pf_rpc pf) url req w)) \<and>
     json_parse req = Some (rpc_request ''eth_sendRawTransaction''
       [JStr (hex_text (sent_tx wl (platone_items (rawtx_fields t)) sg))] (web3_message_id c + 1)) \<and>
     tx_hash t' = \<lparr>max_field = txid req, max_field_len = 32\<rparr>"
  using raw_sender_ok [of platone_program pf t wl c url "uses_eip155 wl" sg w txid "''eth_sendRawTransaction''"]
    programs_tx(3) assms(1,2,4,5) platone_items_ok [OF assms(3)] methods_plain node_acceptsD [OF assms(6)]
  by (simp add: PlatoneSendRawtx_def platone_program_def del: rlp_enc.simps)

theorem platone_transaction_sent_witness:
  "\<exists>req t'. PlatoneSendRawtx sample_platform (Some sample_platone_tx) [] = (Inr (), Some t', [req]) \<and>
     json_parse req = Some (rpc_request ''eth_sendRawTransaction''
       [JStr (hex_text (rlp_enc (signed_tx True 5 (platone_items (rawtx_fields sample_platone_tx)) 1 (replicate 32 9) (replicate 32 9))))] 7) \<and>
     tx_hash t' = \<lparr>max_field = replicate 32 3, max_field_len = 32\<rparr>"
  using platone_transaction_sent [of sample_platform sample_platone_tx sample_wallet sample_context "[104]" sample_signature "[]"
      "\<lambda>req. replicate 32 3"] sample_facts sample_platone_facts
  by (simp add: sample_signature_def del: rlp_enc.simps)

lemma fiscobcos_sent:
  assumes "platform_ok pf" "ready t wl c url" "fiscobcos_fields_ok (rawtx_fields t)"
    "number (hex_quantity (max_bytes (groupid (rawtx_fields t))))"
    "signed_with pf wl (Lst (fiscobcos_items (rawtx_fields t))) sg" "node_accepts pf url w txid"
  shows "\<exists>req t'. FiscobcosSendRawtx pf (Some t) w = (Inr (), Some t', snd (exchange (pf_rpc pf) url req w)) \<and>
     json_parse req = Some (rpc_request ''sendRawTransaction'' [JNum (hex_quantity (max_bytes (groupid (rawtx_fields t)))),
       JStr (hex_text (rlp_enc (signed_by False 0 (fiscobcos_items (rawtx_fields t)) sg)))] (web3_message_id c + 1)) \<and>
     tx_hash t' = \<lparr>max_field = txid req, max_field_len = 32\<rparr>"
proof -
  let ?raw = "rawtx_fields t" and ?q = "hex_quantity (max_bytes (groupid (rawtx_fields t)))"
  note f = fiscobcos_items_ok [OF assms(3)]
  have g: "unat (max_field_len (groupid ?raw)) \<le> length (max_field (groupid ?raw))" "length (max_field (groupid ?raw)) \<le> 32"
    "buf_sized (web3_json_string_buf c)"
    using assms(2,3) by (simp_all add: fiscobcos_fields_ok_def max_fits_def ready_def)
  have keeps: "groupid ((tx_prepare fiscobcos_program ?raw)\<lparr>tx_v := v, tx_sig := x\<rparr>) = groupid ?raw" for v x
    by (simp add: fiscobcos_program_def)
  have posts: "\<exists>req b. json_parse req = Some (rpc_request ''sendRawTransaction'' [JNum ?q, JStr hex] (web3_message_id c + 1)) \<and>
     (\<forall>v x. send_fiscobcos pf (Some c) (Some url) hex ((tx_prepare fiscobcos_program ?raw)\<lparr>tx_v := v, tx_sig := x\<rparr>) w =
       (case exchange (pf_rpc pf) url req w of (r, w') \<Rightarrow>
          (r, Some (c\<lparr>web3_message_id := web3_message_id c + 1, web3_json_string_buf := b\<rparr>), w')))"
    if h: "plain hex" "length hex < 2147483200" for hex
  proof -
    obtain req b where "json_parse req = Some (rpc_request ''sendRawTransaction'' [JNum ?q, JStr hex] (web3_message_id c + 1))"
      "\<forall>raw'. groupid raw' = groupid ?raw \<longrightarrow> send_fiscobcos pf (Some c) (Some url) hex raw' w =
       (case exchange (pf_rpc pf) url req w of (r, w') \<Rightarrow>
          (r, Some (c\<lparr>web3_message_id := web3_message_id c + 1, web3_json_string_buf := b\<rparr>), w'))"
      using send_fiscobcos_request [OF assms(1) g(3) h g(1,2), of url w] assms(4) unfolding max_bytes_def by blast
    then show ?thesis by (intro exI [of _ req] exI [of _ b]) (simp add: keeps)
  qed
  have s: "signed_by False n items sg = signed_by False 0 items sg" "unsigned_tx False n items = Lst items" for n items
    by (simp_all add: signed_tx_def unsigned_tx_def)
  have e: "tx_eip155 fiscobcos_program = False" by (simp add: fiscobcos_program_def)
  show ?thesis
    unfolding FiscobcosSendRawtx_def f(1) [symmetric]
    by (rule sender_ok [of fiscobcos_program pf t wl c url False sg, unfolded s(1) [of "wallet_chain wl"]])
      (use programs_tx(4) assms(1,2,5) f e s(2) posts node_acceptsD [OF assms(6)] in \<open>simp_all del: rlp_enc.simps\<close>)
qed

lemma one_digit_group:
  assumes "g \<in> {1..9}"
  shows "hex_quantity [of_nat g] = dec_text (of_nat g)" "number (dec_text (of_nat g))"
proof -
  have "g = 1 \<or> g = 2 \<or> g = 3 \<or> g = 4 \<or> g = 5 \<or> g = 6 \<or> g = 7 \<or> g = 8 \<or> g = 9" using assms by auto
  then show "hex_quantity [of_nat g] = dec_text (of_nat g)"
    by (elim disjE) (simp_all add: hex_quantity_def halfbytechar_def dec_text_def itoa_digits.simps index_table_def)
  show "number (dec_text (of_nat g))" by (rule number_dec_text)
qed

text \<open>
  C26: \<open>FiscobcosSendRawtx\<close> sends, for a group whose number has one digit, the ten fields of FISCO BCOS and the signature over them
  to that group, without EIP-155 whatever the network says, and stores the hash that the node answers.
\<close>

theorem fiscobcos_transaction_sent:
  assumes "platform_ok pf" "ready t wl c url" "fiscobcos_fields_ok (rawtx_fields t)"
    "max_bytes (groupid (rawtx_fields t)) = [of_nat g]" "g \<in> {1..9}"
    "signed_with pf wl (Lst (fiscobcos_items (rawtx_fields t))) sg" "node_accepts pf url w txid"
  shows "\<exists>req t'. FiscobcosSendRawtx pf (Some t) w = (Inr (), Some t', snd (exchange (pf_rpc pf) url req w)) \<and>
     json_parse req = Some (rpc_request ''sendRawTransaction'' [JNum (dec_text (of_nat g)),
       JStr (hex_text (rlp_enc (signed_by False 0 (fiscobcos_items (rawtx_fields t)) sg)))] (web3_message_id c + 1)) \<and>
     tx_hash t' = \<lparr>max_field = txid req, max_field_len = 32\<rparr>"
  using fiscobcos_sent [OF assms(1-3) _ assms(6,7)] one_digit_group [OF assms(5)] assms(4) by simp

definition sample_fiscobcos_tx :: "u8 \<Rightarrow> BoatFiscobcosRawtxFields BoatTx" where
  "sample_fiscobcos_tx g = \<lparr>wallet_ptr = Some sample_wallet, tx_hash = \<lparr>max_field = replicate 32 0, max_field_len = 0\<rparr>, is_sync_tx = False,
     rawtx_fields = BoatRawtxFields.extend sample_fields \<lparr>blocklimit = \<lparr>max_field = [5], max_field_len = 1\<rparr>,
       chainid = \<lparr>max_field = [1], max_field_len = 1\<rparr>, groupid = \<lparr>max_field = [g], max_field_len = 1\<rparr>,
       extra_data = \<lparr>field_ptr = None, field_len = 0\<rparr>\<rparr>\<rparr>"

lemma sample_fiscobcos_facts:
  "ready (sample_fiscobcos_tx g) sample_wallet sample_context [104]" "fiscobcos_fields_ok (rawtx_fields (sample_fiscobcos_tx g))"
  "max_bytes (groupid (rawtx_fields (sample_fiscobcos_tx g))) = [g]"
  by (simp_all add: ready_def sample_fiscobcos_tx_def sample_wallet_def sample_fields_def BoatRawtxFields.defs buf_sized_def c_string_def
      rawtx_sized_def fiscobcos_fields_ok_def fields_ok_def max_fits_def var_fits_def max_bytes_def)

theorem fiscobcos_transaction_sent_witness:
  "\<exists>req t'. FiscobcosSendRawtx sample_platform (Some (sample_fiscobcos_tx 2)) [] = (Inr (), Some t', [req]) \<and>
     json_parse req = Some (rpc_request ''sendRawTransaction'' [JNum (dec_text 2),
       JStr (hex_text (rlp_enc (signed_by False 0 (fiscobcos_items (rawtx_fields (sample_fiscobcos_tx 2))) sample_signature)))] 7) \<and>
     tx_hash t' = \<lparr>max_field = replicate 32 3, max_field_len = 32\<rparr>"
  using fiscobcos_transaction_sent [of sample_platform "sample_fiscobcos_tx 2" sample_wallet sample_context "[104]" 2 sample_signature "[]"
      "\<lambda>req. replicate 32 3"] sample_facts sample_fiscobcos_facts
  by (simp del: rlp_enc.simps)

text \<open>
  A transaction for group 16 is sent to group 10: the group goes into the request as its HEX digits, where JSON-RPC has a
  decimal number.
\<close>

theorem fiscobcos_group_16:
  assumes "platform_ok pf" "ready t wl c url" "fiscobcos_fields_ok (rawtx_fields t)"
    "max_bytes (groupid (rawtx_fields t)) = [16]"
    "signed_with pf wl (Lst (fiscobcos_items (rawtx_fields t))) sg" "node_accepts pf url w txid"
  shows "\<exists>req t' tx. FiscobcosSendRawtx pf (Some t) w = (Inr (), Some t', snd (exchange (pf_rpc pf) url req w)) \<and>
     json_parse req = Some (rpc_request ''sendRawTransaction'' [JNum (dec_text 10), JStr tx] (web3_message_id c + 1))"
proof -
  have "hex_quantity [16] = dec_text 10"
    by (simp add: hex_quantity_def halfbytechar_def dec_text_def itoa_digits.simps index_table_def)
  then have "hex_quantity (max_bytes (groupid (rawtx_fields t))) = dec_text 10" "number (dec_text 10)"
    using assms(4) number_dec_text by simp_all
  then show ?thesis
    using fiscobcos_sent [OF assms(1-3) _ assms(5,6)] by fastforce
qed

theorem fiscobcos_group_16_witness:
  "\<exists>req t' tx. FiscobcosSendRawtx sample_platform (Some (sample_fiscobcos_tx 16)) [] = (Inr (), Some t', [req]) \<and>
     json_parse req = Some (rpc_request ''sendRawTransaction'' [JNum (dec_text 10), JStr tx] 7)"
  using fiscobcos_group_16 [of sample_platform "sample_fiscobcos_tx 16" sample_wallet sample_context "[104]" sample_signature "[]"
      "\<lambda>req. replicate 32 3"] sample_facts sample_fiscobcos_facts
  by simp

lemma publish_no_hash:
  "publish_tx json mal send wl st t w = (Inl e, t', w') \<Longrightarrow> tx_hash t' = tx_hash t"
  by (auto simp: publish_tx_def set_context_def Let_def split: option.splits sum.splits prod.splits if_splits)

text \<open>
  C25: A transaction that is not sent leaves no trace: when the signature cannot be made nothing has been posted, and whenever
  a sender fails, before or behind the request, the transaction has no hash.
\<close>

theorem failed_send:
  assumes "wallet_ptr t = Some wl" "SendRawtx json mal list_ok keccak sign prog send (Some t) w = (Inl e, Some t', w')"
  shows "max_field_len (tx_hash t') = 0 \<and>
     ((\<forall>d. \<exists>x. sign (account_prikeyCtx (account_info wl)) d = Inl x) \<longrightarrow> w' = w)"
proof (intro conjI impI)
  show "max_field_len (tx_hash t') = 0"
    using assms publish_no_hash by (force simp: SendRawtx_def Let_def split: prod.splits sum.splits)
  assume f: "\<forall>d. \<exists>x. sign (account_prikeyCtx (account_info wl)) d = Inl x"
  have "recode c (sign (account_prikeyCtx (account_info wl)) d) \<noteq> Inr s" for c d s
  proof -
    obtain x where "sign (account_prikeyCtx (account_info wl)) d = Inl x" using f by blast
    then show ?thesis by (cases x) simp_all
  qed
  then have "\<exists>x raw'. sign_rawtx mal list_ok keccak (sign (account_prikeyCtx (account_info wl))) prog eip155 chain raw = (Inl x, raw')"
    for eip155 chain raw
    by (auto simp: sign_rawtx_def sign_digest_def bindS_def liftS_def split: prod.splits sum.splits)
  then obtain x raw' where "sign_rawtx mal list_ok keccak (sign (account_prikeyCtx (account_info wl))) prog
      (tx_eip155 prog \<and> eip155_compatibility (network_info wl) = 1) (chain_id (network_info wl)) (rawtx_fields t) = (Inl x, raw')" by blast
  then show "w' = w" using assms by (simp add: SendRawtx_def Let_def)
qed

lemma sample_send_fails:
  "\<exists>t'. SendRawtx json (pf_malloc sample_platform) True (\<lambda>m. Inr d) (\<lambda>k d. Inl (Err (- 1))) eth_program send (Some sample_tx) w =
     (Inl (Err BOAT_ERROR_COMMON_GEN_SIGN_FAIL), Some t', w)"
proof -
  have pf: "malloc_ok (pf_malloc sample_platform)" "\<forall>n. pf_malloc sample_platform n \<noteq> None"
    using sample_facts(1) by (simp_all add: platform_ok_def)
  note f = eth_items_ok [OF sample_facts(3), of eth_program, simplified] eth_items_size [OF sample_facts(3)]
  have z: "length (rlp_enc (unsigned_tx True 5 (tx_items eth_program sample_fields))) < 4294967295"
    using tx_sizes(1) [of "eth_items sample_fields" "[]" "[]" 0 True 5] f by simp
  have rz: "rawtx_sized sample_fields" by (simp add: rawtx_sized_def sample_fields_def)
  have c: "True \<Longrightarrow> (5 :: u32) \<noteq> 0" by simp
  have z': "length (rlp_enc (unsigned_tx True (unat (5 :: u32)) (tx_items eth_program sample_fields))) < 4294967295" using z by simp
  obtain idx ds st where "\<exists>v x. encode_unsigned (pf_malloc sample_platform) True eth_program True 5 sample_fields =
      (Inr (idx, RlpList (Some ds) st, encoded_stream (unsigned_tx True (unat (5 :: u32)) (tx_items eth_program sample_fields))),
       (tx_prepare eth_program sample_fields)\<lparr>tx_v := v, tx_sig := x\<rparr>)"
    by (rule eth_tx.encode_unsigned_ok [OF pf f(2) rz c z']) blast
  then show ?thesis
    using stream_of [of "unsigned_tx True 5 (tx_items eth_program sample_fields)"] z
    by (auto simp: SendRawtx_def sample_tx_def sample_wallet_def eth_program_def sign_rawtx_def sign_digest_def bindS_def liftS_def Let_def)
qed

theorem failed_send_witness:
  "\<exists>t'. SendRawtx (\<lambda>r. None) (pf_malloc sample_platform) True (\<lambda>m. Inr [1]) (\<lambda>k d. Inl (Err (- 1))) eth_program
       (send_raw sample_platform ''eth_sendRawTransaction'') (Some sample_tx) [] = (Inl (Err BOAT_ERROR_COMMON_GEN_SIGN_FAIL), Some t', []) \<and>
     max_field_len (tx_hash t') = 0"
proof -
  have w: "wallet_ptr sample_tx = Some sample_wallet" by (simp add: sample_tx_def)
  obtain t' where t: "SendRawtx (\<lambda>r. None) (pf_malloc sample_platform) True (\<lambda>m. Inr [1]) (\<lambda>k d. Inl (Err (- 1))) eth_program
       (send_raw sample_platform ''eth_sendRawTransaction'') (Some sample_tx) [] = (Inl (Err BOAT_ERROR_COMMON_GEN_SIGN_FAIL), Some t', [])"
    using sample_send_fails [of "\<lambda>r. None" "[1]" "send_raw sample_platform ''eth_sendRawTransaction''" "[]"] by (elim exE)
  show ?thesis
    using t failed_send [OF w t] by (intro exI [of _ t']) simp
qed

lemma signed_by_stored_key:
  assumes "nvram_ok s" "prikeys rs s" "keypair_index k \<noteq> 0" "(keypair_index k, blob) \<in> set rs"
    "BoATSoftRotNvramDec hash aes_dec (Some blob) (Some 512) = Inr key" "sign (prikey_type k) key d = Inr (r @ x, 64, parity)"
    "length r = 32" "length x = 32"
  obtains sg where "BoatSignature hash aes_dec sign k (Some d) True s = Inr sg" "native_format_used sg" "signPrefix_used sg"
    "native_sign sg = r @ x" "signPrefix sg = parity"
proof -
  have g: "BoAT_GetPirkeyByIndex hash aes_dec (keypair_index k) True s = Inr key"
    using get_prikey_found [OF assms(1-4)] assms(5) by simp
  obtain der n where d: "utility_signature_to_asn1 (Some (r @ x)) 64 True = Inr (der, n)" "length der \<le> 139"
    using assms(7,8) by (auto simp: utility_signature_to_asn1_def byte_at_def buf_get_def Let_def)
  have "BoatSignature hash aes_dec sign k (Some d) True s =
     Inr \<lparr>native_format_used = True, native_sign = r @ x, pkcs_format_used = True, pkcs_sign = der @ drop (length der) (replicate 139 0),
       pkcs_sign_length = n, signPrefix_used = True, signPrefix = parity\<rparr>"
    using g assms(6-8) d by (simp add: BoatSignature_def BoAT_Keystore_Sign_def buf_put_def buf_get_def)
  then show ?thesis by (rule that) simp_all
qed

text \<open>The signer of the senders over the storage of the device.\<close>

definition device_sign ::
  "(bytes \<Rightarrow> bytes) \<Rightarrow> (bytes \<Rightarrow> bytes \<Rightarrow> bytes \<Rightarrow> bytes res) \<Rightarrow> (bytes \<Rightarrow> bytes \<Rightarrow> bytes \<Rightarrow> (bytes \<times> u32 \<times> u8) res) \<Rightarrow> nvram \<Rightarrow>
     BoatKeypairPriKeyCtx \<Rightarrow> bytes \<Rightarrow> BoatSignatureResult res" where
  "device_sign hash aes_dec sign s k d = BoatSignature hash aes_dec sign k (Some d) True s"

text \<open>
  C2: From the keystore to the chain: when the private key of the wallet's keypair has been stored under its index, sending an Ethereum
  transaction signs the Keccak hash of the unsigned transaction with that very key, decrypted from the store, and the request carries
  the two halves r and x of that signature and the recovery parity in v.
\<close>

theorem stored_key_signs:
  assumes store: "nvram_ok s0" "malloc_total mal" "prikeys rs s0" "length rs < 5" "i \<noteq> 0" "i \<notin> fst ` set rs"
      "cipher_ok hash salt aes_enc aes_dec" "length key = 32"
      "BoAT_Keystore_store_prikey mal hash salt aes_enc i (Some key) s0 = (Inr (), s)"
    and wallet: "keypair_index (account_prikeyCtx (account_info wl)) = i" "pf_sign pf = device_sign hash aes_dec sign s"
    and tx: "platform_ok pf" "ready t wl c url" "fields_ok (rawtx_fields t)" "uses_eip155 wl \<Longrightarrow> chain_ok wl"
    and ecdsa: "sign (prikey_type (account_prikeyCtx (account_info wl))) key
        (pf_keccak pf (rlp_enc (unsigned_tx (uses_eip155 wl) (wallet_chain wl) (eth_items (rawtx_fields t))))) = Inr (r @ x, 64, parity)"
      "length r = 32" "length x = 32"
    and node: "node_accepts pf url w txid"
  shows "\<exists>req t'. EthSendRawtx pf (Some t) w = (Inr (), Some t', snd (exchange (pf_rpc pf) url req w)) \<and>
     json_parse req = Some (rpc_request ''eth_sendRawTransaction''
       [JStr (hex_text (rlp_enc (signed_tx (uses_eip155 wl) (wallet_chain wl) (eth_items (rawtx_fields t)) (unat parity) r x)))]
       (web3_message_id c + 1))"
proof -
  let ?u = "unsigned_tx (uses_eip155 wl) (wallet_chain wl) (eth_items (rawtx_fields t))"
  obtain blob where b: "BoATSoftRotNvramEnc hash salt aes_enc (Some key) = Inr blob" "prikey_ok (i, blob)"
      "BoATSoftRotNvramDec hash aes_dec (Some blob) (Some 512) = Inr key"
    using enc_len_32 [OF store(7,8)] by blast
  have s: "nvram_ok s" "prikeys (rs @ [(i, blob)]) s"
    using store_prikey_ok [OF store(1-6) b(1,2)] store(9) by auto
  obtain sg where sg: "BoatSignature hash aes_dec sign (account_prikeyCtx (account_info wl)) (Some (pf_keccak pf (rlp_enc ?u))) True s = Inr sg"
      "native_format_used sg" "signPrefix_used sg" "native_sign sg = r @ x" "signPrefix sg = parity"
    by (rule signed_by_stored_key [where sign = sign, OF s _ _ b(3) ecdsa]) (use store(5) wallet(1) in auto)
  then have "signed_with pf wl ?u sg"
    using ecdsa(2,3) by (simp add: signed_with_def wallet(2) device_sign_def)
  then have "\<exists>req t'. SendRawtx (pf_json pf) (pf_malloc pf) (pf_list_ok pf) (pf_hash pf) (pf_sign pf) eth_program
         (send_raw pf ''eth_sendRawTransaction'') (Some t) w = (Inr (), Some t', snd (exchange (pf_rpc pf) url req w)) \<and>
     json_parse req = Some (rpc_request ''eth_sendRawTransaction'' [JStr (hex_text (sent_tx wl (eth_items (rawtx_fields t)) sg))]
       (web3_message_id c + 1)) \<and> tx_hash t' = \<lparr>max_field = txid req, max_field_len = 32\<rparr>"
    using raw_sender_ok [of eth_program pf t wl c url "uses_eip155 wl" sg w txid "''eth_sendRawTransaction''"]
      programs_tx(1) tx eth_items_ok [OF tx(3), of eth_program] eth_items_size [OF tx(3)] methods_plain(1) node_acceptsD [OF node]
    by (simp add: eth_program_def del: rlp_enc.simps)
  then show ?thesis
    using sg(4,5) ecdsa(2,3) unfolding EthSendRawtx_def by auto
qed

theorem stored_key_signs_witness:
  "\<exists>s req t'. BoAT_Keystore_store_prikey heap_all (\<lambda>xs. replicate 32 5) (replicate 16 9) (\<lambda>iv key d. Inr (map (\<lambda>b. b XOR 0x55) d)) 1
       (Some (replicate 32 7)) blank_device = (Inr (), s) \<and>
     EthSendRawtx (sample_platform\<lparr>pf_sign := device_sign (\<lambda>xs. replicate 32 5) (\<lambda>iv key d. Inr (map (\<lambda>b. b XOR 0x55) d))
       (\<lambda>t k d. if k = replicate 32 7 then Inr (replicate 32 1 @ replicate 32 2, 64, 1) else Inl (Err (- 1))) s\<rparr>) (Some sample_tx) [] =
       (Inr (), Some t', [req]) \<and>
     json_parse req = Some (rpc_request ''eth_sendRawTransaction''
       [JStr (hex_text (rlp_enc (signed_tx True 5 (eth_items sample_fields) 1 (replicate 32 1) (replicate 32 2))))] 7)"
proof -
  let ?sg = "\<lambda>(t :: bytes) k (d :: bytes). if k = replicate 32 7 then Inr (replicate 32 1 @ replicate 32 2, 64 :: u32, 1 :: u8) else Inl (Err (- 1))"
  note st = blank_device_ok(1) heap_all_total no_prikeys
  obtain s where s: "BoAT_Keystore_store_prikey heap_all (\<lambda>xs. replicate 32 5) (replicate 16 9) (\<lambda>iv key d. Inr (map (\<lambda>b. b XOR 0x55) d)) 1
       (Some (replicate 32 7)) blank_device = (Inr (), s)"
    using enc_len_32 [OF xor_cipher_ok, of "replicate 32 7" 1] store_prikey_ok [OF st, of 1] by fastforce
  let ?pf = "sample_platform\<lparr>pf_sign := device_sign (\<lambda>xs. replicate 32 5) (\<lambda>iv key d. Inr (map (\<lambda>b. b XOR 0x55) d)) ?sg s\<rparr>"
  have pf: "platform_ok ?pf" "node_accepts ?pf [104] [] (\<lambda>req. replicate 32 3)" "pf_keccak ?pf = (\<lambda>m. replicate 32 7)"
     "pf_rpc ?pf = pf_rpc sample_platform"
    using sample_facts(1) sample_facts(9) [of "[104]" "[]"] by (simp_all add: platform_ok_def node_accepts_def sample_platform_def)
  have i: "keypair_index (account_prikeyCtx (account_info sample_wallet)) = 1" by (simp add: sample_wallet_def)
  show ?thesis
    using stored_key_signs [OF st _ _ _ xor_cipher_ok _ s i, of ?pf ?sg sample_tx sample_context "[104]" "replicate 32 1" "replicate 32 2" 1 "[]"
        "\<lambda>req. replicate 32 3"] s pf sample_facts by simp
qed

end
