(* ===== verification/Boat_NetworkFamily.thy ===== *)
theory Boat_NetworkFamily
  imports Boat_Network
begin

text \<open>
  The network stores of the six protocols of the Ethereum family. Each of the six source files is \<open>Boat_Network\<close>'s program
  with its own function names and its own member of \<open>BoatProtocolType\<close>; functions that never look at the
  protocol are the same in all of them. \<open>family_defs\<close> collects the definitions.
\<close>

subsection \<open>Ethereum: \<open>sdk/network/ethereum/network_ethereum.c\<close>\<close>

definition BoATEth_GetNetworkFromNvram ::
  "(nat \<Rightarrow> u32 \<Rightarrow> u32 \<Rightarrow> 's \<Rightarrow> bytes res) \<Rightarrow> u32 \<Rightarrow> 's \<Rightarrow> BoatNetworkData \<Rightarrow> u32 res \<times> BoatNetworkData" where
  "BoATEth_GetNetworkFromNvram = GetNetworkFromNvram"

definition BoATEth_GetNetworkList ::
  "nvram \<Rightarrow> BoatNetworkContext option \<Rightarrow> unit res \<times> BoatNetworkContext option" where
  "BoATEth_GetNetworkList = GetNetworkList BOAT_PROTOCOL_ETHEREUM"

definition BoATEth_FreeNetworkContext ::
  "BoatNetworkContext \<Rightarrow> BoatNetworkContext res" where
  "BoATEth_FreeNetworkContext = FreeNetworkContext"

definition BoATEth_GetFreeNetworkIndex_From_Persistent ::
  "nvram \<Rightarrow> nat res" where
  "BoATEth_GetFreeNetworkIndex_From_Persistent = GetFreeNetworkIndex_From_Persistent"

definition BoATEth_Get_NetworkData_Len ::
  "BoatNetworkData \<Rightarrow> u32 res" where
  "BoATEth_Get_NetworkData_Len = Get_NetworkData_Len"

definition BoATEth_Get_Network_Data ::
  "(nat \<Rightarrow> bytes option) \<Rightarrow> BoatNetworkData \<Rightarrow> bytes option \<Rightarrow> (bytes \<times> u32) res" where
  "BoATEth_Get_Network_Data = Get_Network_Data"

definition BoATEthNetworkDataInit ::
  "BoatNetworkData" where
  "BoATEthNetworkDataInit = NetworkDataInit"

definition BoATEth_NetworkDataCtx_Store ::
  "(nat \<Rightarrow> bytes option) \<Rightarrow> BoatNetworkData \<Rightarrow> BoatStoreType \<Rightarrow> nvram \<Rightarrow> unit res \<times> nvram" where
  "BoATEth_NetworkDataCtx_Store = NetworkDataCtx_Store BOAT_PROTOCOL_ETHEREUM"

definition BoATEthNetworkCreate ::
  "(nat \<Rightarrow> bytes option) \<Rightarrow> BoatNetworkConfig option \<Rightarrow> BoatStoreType \<Rightarrow> nvram \<Rightarrow> u8 res \<times> nvram" where
  "BoATEthNetworkCreate = NetworkCreate BOAT_PROTOCOL_ETHEREUM"

definition BoATEthNetworkDelete ::
  "(nat \<Rightarrow> bytes option) \<Rightarrow> u8 \<Rightarrow> nvram \<Rightarrow> unit res \<times> nvram" where
  "BoATEthNetworkDelete = NetworkDelete BOAT_PROTOCOL_ETHEREUM"

definition BoATEth_GetNetworkByIndex ::
  "u8 \<Rightarrow> nvram \<Rightarrow> BoatNetworkData option \<Rightarrow> unit res \<times> BoatNetworkData option" where
  "BoATEth_GetNetworkByIndex = GetNetworkByIndex BOAT_PROTOCOL_ETHEREUM"

subsection \<open>PlatON: \<open>sdk/network/platon/network_platon.c\<close>\<close>

definition BoATPlatON_GetNetworkFromNvram ::
  "(nat \<Rightarrow> u32 \<Rightarrow> u32 \<Rightarrow> 's \<Rightarrow> bytes res) \<Rightarrow> u32 \<Rightarrow> 's \<Rightarrow> BoatNetworkData \<Rightarrow> u32 res \<times> BoatNetworkData" where
  "BoATPlatON_GetNetworkFromNvram = GetNetworkFromNvram"

definition BoATPlatON_GetNetworkList ::
  "nvram \<Rightarrow> BoatNetworkContext option \<Rightarrow> unit res \<times> BoatNetworkContext option" where
  "BoATPlatON_GetNetworkList = GetNetworkList BOAT_PROTOCOL_PLATON"

definition BoATPlatON_FreeNetworkContext ::
  "BoatNetworkContext \<Rightarrow> BoatNetworkContext res" where
  "BoATPlatON_FreeNetworkContext = FreeNetworkContext"

definition BoATPlatON_GetFreeNetworkIndex_From_Persistent ::
  "nvram \<Rightarrow> nat res" where
  "BoATPlatON_GetFreeNetworkIndex_From_Persistent = GetFreeNetworkIndex_From_Persistent"

definition BoATPlatON_Get_NetworkData_Len ::
  "BoatNetworkData \<Rightarrow> u32 res" where
  "BoATPlatON_Get_NetworkData_Len = Get_NetworkData_Len"

definition BoATPlatON_Get_Network_Data ::
  "(nat \<Rightarrow> bytes option) \<Rightarrow> BoatNetworkData \<Rightarrow> bytes option \<Rightarrow> (bytes \<times> u32) res" where
  "BoATPlatON_Get_Network_Data = Get_Network_Data"

definition BoATPlatONNetworkDataInit ::
  "BoatNetworkData" where
  "BoATPlatONNetworkDataInit = NetworkDataInit"

definition BoATPlatON_NetworkDataCtx_Store ::
  "(nat \<Rightarrow> bytes option) \<Rightarrow> BoatNetworkData \<Rightarrow> BoatStoreType \<Rightarrow> nvram \<Rightarrow> unit res \<times> nvram" where
  "BoATPlatON_NetworkDataCtx_Store = NetworkDataCtx_Store BOAT_PROTOCOL_PLATON"

definition BoATPlatONNetworkCreate ::
  "(nat \<Rightarrow> bytes option) \<Rightarrow> BoatNetworkConfig option \<Rightarrow> BoatStoreType \<Rightarrow> nvram \<Rightarrow> u8 res \<times> nvram" where
  "BoATPlatONNetworkCreate = NetworkCreate BOAT_PROTOCOL_PLATON"

definition BoATPlatONNetworkDelete ::
  "(nat \<Rightarrow> bytes option) \<Rightarrow> u8 \<Rightarrow> nvram \<Rightarrow> unit res \<times> nvram" where
  "BoATPlatONNetworkDelete = NetworkDelete BOAT_PROTOCOL_PLATON"

definition BoATPlatON_GetNetworkByIndex ::
  "u8 \<Rightarrow> nvram \<Rightarrow> BoatNetworkData option \<Rightarrow> unit res \<times> BoatNetworkData option" where
  "BoATPlatON_GetNetworkByIndex = GetNetworkByIndex BOAT_PROTOCOL_PLATON"

subsection \<open>PlatONE: \<open>sdk/network/platone/network_platone.c\<close>\<close>

definition BoATPlatone_GetNetworkFromNvram ::
  "(nat \<Rightarrow> u32 \<Rightarrow> u32 \<Rightarrow> 's \<Rightarrow> bytes res) \<Rightarrow> u32 \<Rightarrow> 's \<Rightarrow> BoatNetworkData \<Rightarrow> u32 res \<times> BoatNetworkData" where
  "BoATPlatone_GetNetworkFromNvram = GetNetworkFromNvram"

definition BoATPlatone_GetNetworkList ::
  "nvram \<Rightarrow> BoatNetworkContext option \<Rightarrow> unit res \<times> BoatNetworkContext option" where
  "BoATPlatone_GetNetworkList = GetNetworkList BOAT_PROTOCOL_PLATONE"

definition BoATPlatone_FreeNetworkContext ::
  "BoatNetworkContext \<Rightarrow> BoatNetworkContext res" where
  "BoATPlatone_FreeNetworkContext = FreeNetworkContext"

definition BoATPlatone_GetFreeNetworkIndex_From_Persistent ::
  "nvram \<Rightarrow> nat res" where
  "BoATPlatone_GetFreeNetworkIndex_From_Persistent = GetFreeNetworkIndex_From_Persistent"

definition BoATPlatone_Get_NetworkData_Len ::
  "BoatNetworkData \<Rightarrow> u32 res" where
  "BoATPlatone_Get_NetworkData_Len = Get_NetworkData_Len"

definition BoATPlatone_Get_Network_Data ::
  "(nat \<Rightarrow> bytes option) \<Rightarrow> BoatNetworkData \<Rightarrow> bytes option \<Rightarrow> (bytes \<times> u32) res" where
  "BoATPlatone_Get_Network_Data = Get_Network_Data"

definition BoATPlatoneNetworkDataInit ::
  "BoatNetworkData" where
  "BoATPlatoneNetworkDataInit = NetworkDataInit"

definition BoATPlatone_NetworkDataCtx_Store ::
  "(nat \<Rightarrow> bytes option) \<Rightarrow> BoatNetworkData \<Rightarrow> BoatStoreType \<Rightarrow> nvram \<Rightarrow> unit res \<times> nvram" where
  "BoATPlatone_NetworkDataCtx_Store = NetworkDataCtx_Store BOAT_PROTOCOL_PLATONE"

definition BoATPlatoneNetworkCreate ::
  "(nat \<Rightarrow> bytes option) \<Rightarrow> BoatNetworkConfig option \<Rightarrow> BoatStoreType \<Rightarrow> nvram \<Rightarrow> u8 res \<times> nvram" where
  "BoATPlatoneNetworkCreate = NetworkCreate BOAT_PROTOCOL_PLATONE"

definition BoATPlatoneNetworkDelete ::
  "(nat \<Rightarrow> bytes option) \<Rightarrow> u8 \<Rightarrow> nvram \<Rightarrow> unit res \<times> nvram" where
  "BoATPlatoneNetworkDelete = NetworkDelete BOAT_PROTOCOL_PLATONE"

definition BoATPlatone_GetNetworkByIndex ::
  "u8 \<Rightarrow> nvram \<Rightarrow> BoatNetworkData option \<Rightarrow> unit res \<times> BoatNetworkData option" where
  "BoATPlatone_GetNetworkByIndex = GetNetworkByIndex BOAT_PROTOCOL_PLATONE"

subsection \<open>Venachain: \<open>sdk/network/venachain/network_venachain.c\<close>\<close>

definition BoATVenachain_GetNetworkFromNvram ::
  "(nat \<Rightarrow> u32 \<Rightarrow> u32 \<Rightarrow> 's \<Rightarrow> bytes res) \<Rightarrow> u32 \<Rightarrow> 's \<Rightarrow> BoatNetworkData \<Rightarrow> u32 res \<times> BoatNetworkData" where
  "BoATVenachain_GetNetworkFromNvram = GetNetworkFromNvram"

definition BoATVenachain_GetNetworkList ::
  "nvram \<Rightarrow> BoatNetworkContext option \<Rightarrow> unit res \<times> BoatNetworkContext option" where
  "BoATVenachain_GetNetworkList = GetNetworkList BOAT_PROTOCOL_VENACHAIN"

definition BoATVenachain_FreeNetworkContext ::
  "BoatNetworkContext \<Rightarrow> BoatNetworkContext res" where
  "BoATVenachain_FreeNetworkContext = FreeNetworkContext"

definition BoATVenachain_GetFreeNetworkIndex_From_Persistent ::
  "nvram \<Rightarrow> nat res" where
  "BoATVenachain_GetFreeNetworkIndex_From_Persistent = GetFreeNetworkIndex_From_Persistent"

definition BoATVenachain_Get_NetworkData_Len ::
  "BoatNetworkData \<Rightarrow> u32 res" where
  "BoATVenachain_Get_NetworkData_Len = Get_NetworkData_Len"

definition BoATVenachain_Get_Network_Data ::
  "(nat \<Rightarrow> bytes option) \<Rightarrow> BoatNetworkData \<Rightarrow> bytes option \<Rightarrow> (bytes \<times> u32) res" where
  "BoATVenachain_Get_Network_Data = Get_Network_Data"

definition BoATVenachainNetworkDataInit ::
  "BoatNetworkData" where
  "BoATVenachainNetworkDataInit = NetworkDataInit"

definition BoATVenachain_NetworkDataCtx_Store ::
  "(nat \<Rightarrow> bytes option) \<Rightarrow> BoatNetworkData \<Rightarrow> BoatStoreType \<Rightarrow> nvram \<Rightarrow> unit res \<times> nvram" where
  "BoATVenachain_NetworkDataCtx_Store = NetworkDataCtx_Store BOAT_PROTOCOL_VENACHAIN"

definition BoatVenachainNetworkCreate ::
  "(nat \<Rightarrow> bytes option) \<Rightarrow> BoatNetworkConfig option \<Rightarrow> BoatStoreType \<Rightarrow> nvram \<Rightarrow> u8 res \<times> nvram" where
  "BoatVenachainNetworkCreate = NetworkCreate BOAT_PROTOCOL_VENACHAIN"

definition BoATVenachainNetworkDelete ::
  "(nat \<Rightarrow> bytes option) \<Rightarrow> u8 \<Rightarrow> nvram \<Rightarrow> unit res \<times> nvram" where
  "BoATVenachainNetworkDelete = NetworkDelete BOAT_PROTOCOL_VENACHAIN"

definition BoATVenachain_GetNetworkByIndex ::
  "u8 \<Rightarrow> nvram \<Rightarrow> BoatNetworkData option \<Rightarrow> unit res \<times> BoatNetworkData option" where
  "BoATVenachain_GetNetworkByIndex = GetNetworkByIndex BOAT_PROTOCOL_VENACHAIN"

subsection \<open>Quorum: \<open>sdk/network/quorum/network_quorum.c\<close>\<close>

definition BoATQuorum_GetNetworkFromNvram ::
  "(nat \<Rightarrow> u32 \<Rightarrow> u32 \<Rightarrow> 's \<Rightarrow> bytes res) \<Rightarrow> u32 \<Rightarrow> 's \<Rightarrow> BoatNetworkData \<Rightarrow> u32 res \<times> BoatNetworkData" where
  "BoATQuorum_GetNetworkFromNvram = GetNetworkFromNvram"

definition BoATQuorum_GetNetworkList ::
  "nvram \<Rightarrow> BoatNetworkContext option \<Rightarrow> unit res \<times> BoatNetworkContext option" where
  "BoATQuorum_GetNetworkList = GetNetworkList BOAT_PROTOCOL_QUORUM"

definition BoATQuorum_FreeNetworkContext ::
  "BoatNetworkContext \<Rightarrow> BoatNetworkContext res" where
  "BoATQuorum_FreeNetworkContext = FreeNetworkContext"

definition BoATQuorum_GetFreeNetworkIndex_From_Persistent ::
  "nvram \<Rightarrow> nat res" where
  "BoATQuorum_GetFreeNetworkIndex_From_Persistent = GetFreeNetworkIndex_From_Persistent"

definition BoATQuorum_Get_NetworkData_Len ::
  "BoatNetworkData \<Rightarrow> u32 res" where
  "BoATQuorum_Get_NetworkData_Len = Get_NetworkData_Len"

definition BoATQuorum_Get_Network_Data ::
  "(nat \<Rightarrow> bytes option) \<Rightarrow> BoatNetworkData \<Rightarrow> bytes option \<Rightarrow> (bytes \<times> u32) res" where
  "BoATQuorum_Get_Network_Data = Get_Network_Data"

definition BoATQuorumNetworkDataInit ::
  "BoatNetworkData" where
  "BoATQuorumNetworkDataInit = NetworkDataInit"

definition BoATQuorum_NetworkDataCtx_Store ::
  "(nat \<Rightarrow> bytes option) \<Rightarrow> BoatNetworkData \<Rightarrow> BoatStoreType \<Rightarrow> nvram \<Rightarrow> unit res \<times> nvram" where
  "BoATQuorum_NetworkDataCtx_Store = NetworkDataCtx_Store BOAT_PROTOCOL_QUORUM"

definition BoatQuorumNetworkCreate ::
  "(nat \<Rightarrow> bytes option) \<Rightarrow> BoatNetworkConfig option \<Rightarrow> BoatStoreType \<Rightarrow> nvram \<Rightarrow> u8 res \<times> nvram" where
  "BoatQuorumNetworkCreate = NetworkCreate BOAT_PROTOCOL_QUORUM"

definition BoATQuorumNetworkDelete ::
  "(nat \<Rightarrow> bytes option) \<Rightarrow> u8 \<Rightarrow> nvram \<Rightarrow> unit res \<times> nvram" where
  "BoATQuorumNetworkDelete = NetworkDelete BOAT_PROTOCOL_QUORUM"

definition BoATQuorum_GetNetworkByIndex ::
  "u8 \<Rightarrow> nvram \<Rightarrow> BoatNetworkData option \<Rightarrow> unit res \<times> BoatNetworkData option" where
  "BoATQuorum_GetNetworkByIndex = GetNetworkByIndex BOAT_PROTOCOL_QUORUM"

subsection \<open>FISCO BCOS: \<open>sdk/network/fiscobcos/network_fiscobcos.c\<close>\<close>

definition BoATFiscobcos_GetNetworkFromNvram ::
  "(nat \<Rightarrow> u32 \<Rightarrow> u32 \<Rightarrow> 's \<Rightarrow> bytes res) \<Rightarrow> u32 \<Rightarrow> 's \<Rightarrow> BoatNetworkData \<Rightarrow> u32 res \<times> BoatNetworkData" where
  "BoATFiscobcos_GetNetworkFromNvram = GetNetworkFromNvram"

definition BoATFiscobcos_GetNetworkList ::
  "nvram \<Rightarrow> BoatNetworkContext option \<Rightarrow> unit res \<times> BoatNetworkContext option" where
  "BoATFiscobcos_GetNetworkList = GetNetworkList BOAT_PROTOCOL_FISCOBCOS"

definition BoATFiscobcos_FreeNetworkContext ::
  "BoatNetworkContext \<Rightarrow> BoatNetworkContext res" where
  "BoATFiscobcos_FreeNetworkContext = FreeNetworkContext"

definition BoATFiscobcos_GetFreeNetworkIndex_From_Persistent ::
  "nvram \<Rightarrow> nat res" where
  "BoATFiscobcos_GetFreeNetworkIndex_From_Persistent = GetFreeNetworkIndex_From_Persistent"

definition BoATFiscobcos_Get_NetworkData_Len ::
  "BoatNetworkData \<Rightarrow> u32 res" where
  "BoATFiscobcos_Get_NetworkData_Len = Get_NetworkData_Len"

definition BoATFiscobcos_Get_Network_Data ::
  "(nat \<Rightarrow> bytes option) \<Rightarrow> BoatNetworkData \<Rightarrow> bytes option \<Rightarrow> (bytes \<times> u32) res" where
  "BoATFiscobcos_Get_Network_Data = Get_Network_Data"

definition BoATFiscobcosNetworkDataInit ::
  "BoatNetworkData" where
  "BoATFiscobcosNetworkDataInit = NetworkDataInit"

definition BoATFiscobcos_NetworkDataCtx_Store ::
  "(nat \<Rightarrow> bytes option) \<Rightarrow> BoatNetworkData \<Rightarrow> BoatStoreType \<Rightarrow> nvram \<Rightarrow> unit res \<times> nvram" where
  "BoATFiscobcos_NetworkDataCtx_Store = NetworkDataCtx_Store BOAT_PROTOCOL_FISCOBCOS"

definition BoATFiscobcosNetworkCreate ::
  "(nat \<Rightarrow> bytes option) \<Rightarrow> BoatNetworkConfig option \<Rightarrow> BoatStoreType \<Rightarrow> nvram \<Rightarrow> u8 res \<times> nvram" where
  "BoATFiscobcosNetworkCreate = NetworkCreate BOAT_PROTOCOL_FISCOBCOS"

definition BoATFiscobcosNetworkDelete ::
  "(nat \<Rightarrow> bytes option) \<Rightarrow> u8 \<Rightarrow> nvram \<Rightarrow> unit res \<times> nvram" where
  "BoATFiscobcosNetworkDelete = NetworkDelete BOAT_PROTOCOL_FISCOBCOS"

definition BoATFiscobcos_GetNetworkByIndex ::
  "u8 \<Rightarrow> nvram \<Rightarrow> BoatNetworkData option \<Rightarrow> unit res \<times> BoatNetworkData option" where
  "BoATFiscobcos_GetNetworkByIndex = GetNetworkByIndex BOAT_PROTOCOL_FISCOBCOS"

subsection \<open>The calls that change networks\<close>

definition network_creates ::
  "(nat \<Rightarrow> bytes option) \<Rightarrow> (BoatNetworkConfig option \<Rightarrow> BoatStoreType \<Rightarrow> nvram \<Rightarrow> u8 res \<times> nvram) set" where
  "network_creates mal = {BoATEthNetworkCreate mal,
     BoATPlatONNetworkCreate mal,
     BoATPlatoneNetworkCreate mal,
     BoatVenachainNetworkCreate mal,
     BoatQuorumNetworkCreate mal,
     BoATFiscobcosNetworkCreate mal}"

definition network_deletes :: "(nat \<Rightarrow> bytes option) \<Rightarrow> (u8 \<Rightarrow> nvram \<Rightarrow> unit res \<times> nvram) set" where
  "network_deletes mal = {BoATEthNetworkDelete mal,
     BoATPlatONNetworkDelete mal,
     BoATPlatoneNetworkDelete mal,
     BoATVenachainNetworkDelete mal,
     BoATQuorumNetworkDelete mal,
     BoATFiscobcosNetworkDelete mal}"

lemmas family_defs =
  BoATEth_GetNetworkFromNvram_def BoATEth_GetNetworkList_def BoATEth_FreeNetworkContext_def
  BoATEth_GetFreeNetworkIndex_From_Persistent_def BoATEth_Get_NetworkData_Len_def BoATEth_Get_Network_Data_def
  BoATEthNetworkDataInit_def BoATEth_NetworkDataCtx_Store_def BoATEthNetworkCreate_def
  BoATEthNetworkDelete_def BoATEth_GetNetworkByIndex_def BoATPlatON_GetNetworkFromNvram_def
  BoATPlatON_GetNetworkList_def BoATPlatON_FreeNetworkContext_def BoATPlatON_GetFreeNetworkIndex_From_Persistent_def
  BoATPlatON_Get_NetworkData_Len_def BoATPlatON_Get_Network_Data_def BoATPlatONNetworkDataInit_def
  BoATPlatON_NetworkDataCtx_Store_def BoATPlatONNetworkCreate_def BoATPlatONNetworkDelete_def
  BoATPlatON_GetNetworkByIndex_def BoATPlatone_GetNetworkFromNvram_def BoATPlatone_GetNetworkList_def
  BoATPlatone_FreeNetworkContext_def BoATPlatone_GetFreeNetworkIndex_From_Persistent_def BoATPlatone_Get_NetworkData_Len_def
  BoATPlatone_Get_Network_Data_def BoATPlatoneNetworkDataInit_def BoATPlatone_NetworkDataCtx_Store_def
  BoATPlatoneNetworkCreate_def BoATPlatoneNetworkDelete_def BoATPlatone_GetNetworkByIndex_def
  BoATVenachain_GetNetworkFromNvram_def BoATVenachain_GetNetworkList_def BoATVenachain_FreeNetworkContext_def
  BoATVenachain_GetFreeNetworkIndex_From_Persistent_def BoATVenachain_Get_NetworkData_Len_def BoATVenachain_Get_Network_Data_def
  BoATVenachainNetworkDataInit_def BoATVenachain_NetworkDataCtx_Store_def BoatVenachainNetworkCreate_def
  BoATVenachainNetworkDelete_def BoATVenachain_GetNetworkByIndex_def BoATQuorum_GetNetworkFromNvram_def
  BoATQuorum_GetNetworkList_def BoATQuorum_FreeNetworkContext_def BoATQuorum_GetFreeNetworkIndex_From_Persistent_def
  BoATQuorum_Get_NetworkData_Len_def BoATQuorum_Get_Network_Data_def BoATQuorumNetworkDataInit_def
  BoATQuorum_NetworkDataCtx_Store_def BoatQuorumNetworkCreate_def BoATQuorumNetworkDelete_def
  BoATQuorum_GetNetworkByIndex_def BoATFiscobcos_GetNetworkFromNvram_def BoATFiscobcos_GetNetworkList_def
  BoATFiscobcos_FreeNetworkContext_def BoATFiscobcos_GetFreeNetworkIndex_From_Persistent_def BoATFiscobcos_Get_NetworkData_Len_def
  BoATFiscobcos_Get_Network_Data_def BoATFiscobcosNetworkDataInit_def BoATFiscobcos_NetworkDataCtx_Store_def
  BoATFiscobcosNetworkCreate_def BoATFiscobcosNetworkDelete_def BoATFiscobcos_GetNetworkByIndex_def

lemma network_creates_cases: "c \<in> network_creates mal \<Longrightarrow> \<exists>protocol. c = NetworkCreate protocol mal"
  by (auto simp: network_creates_def family_defs)

lemma network_deletes_cases: "d \<in> network_deletes mal \<Longrightarrow> \<exists>protocol. d = NetworkDelete protocol mal"
  by (auto simp: network_deletes_def family_defs)

end
