(* ===== verification/Boat_TxApi.thy ===== *)
theory Boat_TxApi
  imports Boat_Broadcast Boat_NetworkFamily
begin

text \<open>
  The wallet and transaction calls of the application, \<open>sdk/wallet/api_ethereum.c\<close>, and the copies of that program in
  \<open>api_venachain.c\<close> and \<open>api_platone.c\<close>: opening a wallet, filling a transaction (with what the
  application gives or what the node answers), sending it and waiting for its receipt.

  A transaction holds its wallet, so a call works on the pair of a transaction and a world, and the wallet that the application sees
  is the one in the transaction. A C string is the list of its characters. Local variables that the code leaves
  uninitialised are arguments (\<open>junk\<close>). What differs between the chains is collected in a record.
\<close>

abbreviation BOAT_ERROR_COMMON_TX_PENDING :: int where "BOAT_ERROR_COMMON_TX_PENDING \<equiv> - 10100003"
abbreviation BOAT_ERROR_COMMON_UTILITY :: int where "BOAT_ERROR_COMMON_UTILITY \<equiv> - 10100004"
abbreviation BOAT_ERROR_WALLET_RESULT_PARSE_FAIL :: int where "BOAT_ERROR_WALLET_RESULT_PARSE_FAIL \<equiv> - 10200003"
abbreviation BOAT_ERROR_WEB3_GET_GASPRICE_FAIL :: int where "BOAT_ERROR_WEB3_GET_GASPRICE_FAIL \<equiv> - 10700004"

abbreviation BOAT_ETH_NONCE_AUTO :: u64 where "BOAT_ETH_NONCE_AUTO \<equiv> 0xFFFFFFFFFFFFFFFF"
abbreviation BOAT_ETH_NODE_URL_MAX_LEN :: nat where "BOAT_ETH_NODE_URL_MAX_LEN \<equiv> 127"

text \<open>An assignment that can fail.\<close>

definition putS :: "('s \<Rightarrow> 's res) \<Rightarrow> 's \<Rightarrow> unit res \<times> 's" where
  "putS f s = (case f s of Inl e \<Rightarrow> (Inl e, s) | Inr s' \<Rightarrow> (Inr (), s'))"

text \<open>A call through a transaction pointer that is checked for null, and through one that is not.\<close>

definition with_tx :: "('t \<times> 'w \<Rightarrow> 'a res \<times> 't \<times> 'w) \<Rightarrow> 't option \<Rightarrow> 'w \<Rightarrow> 'a res \<times> 't option \<times> 'w" where
  "with_tx f tx w =
     (case tx of
        None \<Rightarrow> (Inl (Err BOAT_ERROR_COMMON_INVALID_ARGUMENT), None, w)
      | Some t \<Rightarrow> (case f (t, w) of (r, t', w') \<Rightarrow> (r, Some t', w')))"

definition unchecked_tx :: "('t \<times> 'w \<Rightarrow> 'a res \<times> 't \<times> 'w) \<Rightarrow> 't option \<Rightarrow> 'w \<Rightarrow> 'a res \<times> 't option \<times> 'w" where
  "unchecked_tx f tx w =
     (case tx of
        None \<Rightarrow> (Inl UB, None, w)
      | Some t \<Rightarrow> (case f (t, w) of (r, t', w') \<Rightarrow> (r, Some t', w')))"

subsection \<open>Asking the node\<close>

text \<open>A call of the JSON-RPC client through the wallet of the transaction.\<close>

definition ask_node ::
  "(Web3IntfContext option \<Rightarrow> bytes option \<Rightarrow> 'w \<Rightarrow> bytes option res \<times> Web3IntfContext option \<times> 'w) \<Rightarrow>
     ('r, 'b) BoatTx_scheme \<times> 'w \<Rightarrow> bytes option res \<times> ('r, 'b) BoatTx_scheme \<times> 'w" where
  "ask_node call s =
     (case s of (t, w) \<Rightarrow>
        (case wallet_ptr t of
           None \<Rightarrow> (Inl UB, s)
         | Some wl \<Rightarrow>
             (case c_string (node_url_str (network_info wl)) of
                Inl e \<Rightarrow> (Inl e, s)
              | Inr url \<Rightarrow>
                  (case call (web3intf_context_ptr wl) (Some url) w of (r, ctx, w') \<Rightarrow> (r, set_context ctx t, w')))))"

text \<open>An answer parsed into the result buffer of the wallet's client, and the text in that buffer.\<close>

definition read_answer ::
  "'w Platform \<Rightarrow> bytes \<Rightarrow> string \<Rightarrow> ('r, 'b) BoatTx_scheme \<times> 'w \<Rightarrow> bytes option res \<times> ('r, 'b) BoatTx_scheme \<times> 'w" where
  "read_answer pf response child s =
     (case s of (t, w) \<Rightarrow>
        (case wallet_ptr t of
           None \<Rightarrow> (Inl UB, s)
         | Some wl \<Rightarrow>
             (case parse_response (pf_json pf) (pf_malloc pf) response (chars child) (web3intf_context_ptr wl) of
                (Inl e, ctx) \<Rightarrow> (Inl e, set_context ctx t, w)
              | (Inr c, ctx) \<Rightarrow> (result_string c, set_context ctx t, w))))"

text \<open>\<open>ParseRpcResponseStringResult\<close> and \<open>ParseRpcResponseResult\<close>, for the application.\<close>

definition ParseRpcResponseStringResult ::
  "'w Platform \<Rightarrow> bytes option \<Rightarrow> BoatFieldVariable option \<Rightarrow> unit res \<times> BoatFieldVariable option" where
  "ParseRpcResponseStringResult pf json_string result_out =
     eth_parse_json_result (pf_json pf) (pf_malloc pf) json_string (Some []) result_out"

definition ParseRpcResponseResult ::
  "'w Platform \<Rightarrow> bytes option \<Rightarrow> bytes option \<Rightarrow> BoatFieldVariable option \<Rightarrow> unit res \<times> BoatFieldVariable option" where
  "ParseRpcResponseResult pf json_string child_name result_out =
     (if child_name = None then (Inl (Err BOAT_ERROR_COMMON_INVALID_ARGUMENT), result_out)
      else eth_parse_json_result (pf_json pf) (pf_malloc pf) json_string child_name result_out)"

subsection \<open>Filling a transaction\<close>

text \<open>
  What differs between the chains: the methods of the node, the text of the own address, the sender, the data of a transfer, the seconds between two polls for
  a receipt, and the pause itself.
\<close>

record ('t, 'w) TxApi =
  api_nonce_method :: string
  api_gasprice_method :: string
  api_receipt_method :: string
  api_address :: "'t \<Rightarrow> bytes res"
  api_send :: "'t option \<Rightarrow> 'w \<Rightarrow> unit res \<times> 't option \<times> 'w"
  api_transfer_data :: "BoatFieldVariable option"
  api_interval :: int
  api_sleep :: "'w \<Rightarrow> 'w"

definition hex_field :: "bytes option \<Rightarrow> BoatFieldMax \<Rightarrow> BoatFieldMax res" where
  "hex_field s f = put_max (UtilityHexToBin True 32 s TRIMBIN_LEFTTRIM True) f"

definition address_text :: "bytes \<Rightarrow> bytes" where
  "address_text a = fst (UtilityBinToHex True (Some a) BIN2HEX_LEFTTRIM_UNFMTDATA BIN2HEX_PREFIX_0x_YES False)"

definition on_raw :: "('r \<Rightarrow> 'r) \<Rightarrow> ('r, 'b) BoatTx_scheme \<times> 'w \<Rightarrow> unit res \<times> ('r, 'b) BoatTx_scheme \<times> 'w" where
  "on_raw f = updS (\<lambda>(t, w). (t\<lparr>rawtx_fields := f (rawtx_fields t)\<rparr>, w))"

definition put_raw :: "('r \<Rightarrow> 'r res) \<Rightarrow> ('r, 'b) BoatTx_scheme \<times> 'w \<Rightarrow> unit res \<times> ('r, 'b) BoatTx_scheme \<times> 'w" where
  "put_raw f = putS (\<lambda>(t, w). bindR (f (rawtx_fields t)) (\<lambda>raw. Inr (t\<lparr>rawtx_fields := raw\<rparr>, w)))"

definition needs_wallet ::
  "(('r, 'b) BoatTx_scheme \<times> 'w \<Rightarrow> 'a res \<times> ('r, 'b) BoatTx_scheme \<times> 'w) \<Rightarrow>
     ('r, 'b) BoatTx_scheme \<times> 'w \<Rightarrow> 'a res \<times> ('r, 'b) BoatTx_scheme \<times> 'w" where
  "needs_wallet f s =
     (if wallet_ptr (fst s) = None then (Inl (Err BOAT_ERROR_COMMON_INVALID_ARGUMENT), s) else f s)"

definition TxSetNonce ::
  "'w Platform \<Rightarrow> (('a BoatRawtxFields_scheme, 'b) BoatTx_scheme, 'w) TxApi \<Rightarrow> u64 \<Rightarrow>
     ('a BoatRawtxFields_scheme, 'b) BoatTx_scheme \<times> 'w \<Rightarrow> unit res \<times> ('a BoatRawtxFields_scheme, 'b) BoatTx_scheme \<times> 'w" where
  "TxSetNonce pf api n = needs_wallet (\<lambda>s.
     if n = BOAT_ETH_NONCE_AUTO
     then bindS (liftS (api_address api (fst s))) (\<lambda>address.
          bindS (ask_node (\<lambda>ctx url. web3_getTransactionCount (pf_rpc pf) (pf_malloc pf) ctx url
                   (Some \<lparr>gtc_method_name_str = chars (api_nonce_method api), gtc_address_str = address,
                          gtc_block_num_str = chars ''latest''\<rparr>))) (\<lambda>answer.
          case answer of
            None \<Rightarrow> liftS (Inr ())
          | Some response \<Rightarrow>
              bindS (read_answer pf response '''') (\<lambda>text.
              put_raw (\<lambda>raw. bindR (hex_field text (nonce raw)) (\<lambda>f. Inr (raw\<lparr>nonce := f\<rparr>)))))) s
     else put_raw (\<lambda>raw.
            let b = UtilityUint64ToBigend n TRIMBIN_LEFTTRIM in
            bindR (put_max (b, length b) (nonce raw)) (\<lambda>f. Inr (raw\<lparr>nonce := f\<rparr>))) s)"

definition TxSetGasPrice ::
  "'w Platform \<Rightarrow> (('a BoatRawtxFields_scheme, 'b) BoatTx_scheme, 'w) TxApi \<Rightarrow> BoatFieldMax option \<Rightarrow>
     ('a BoatRawtxFields_scheme, 'b) BoatTx_scheme \<times> 'w \<Rightarrow> unit res \<times> ('a BoatRawtxFields_scheme, 'b) BoatTx_scheme \<times> 'w" where
  "TxSetGasPrice pf api price = needs_wallet (
     case price of
       Some p \<Rightarrow> on_raw (\<lambda>raw. raw\<lparr>gasprice := p\<rparr>)
     | None \<Rightarrow>
         bindS (catchS (ask_node (\<lambda>ctx url. web3_gasPrice (pf_rpc pf) (pf_malloc pf) ctx url (chars (api_gasprice_method api))))
                  (\<lambda>e. liftS (Inr None))) (\<lambda>answer.
         case answer of
           None \<Rightarrow> liftS (Inl (Err BOAT_ERROR_WEB3_GET_GASPRICE_FAIL))
         | Some response \<Rightarrow>
             bindS (read_answer pf response '''') (\<lambda>text.
             put_raw (\<lambda>raw. bindR (hex_field text (gasprice raw)) (\<lambda>f. Inr (raw\<lparr>gasprice := f\<rparr>))))))"

definition TxSetGasLimit ::
  "BoatFieldMax option \<Rightarrow> ('a BoatRawtxFields_scheme, 'b) BoatTx_scheme \<times> 'w \<Rightarrow>
     unit res \<times> ('a BoatRawtxFields_scheme, 'b) BoatTx_scheme \<times> 'w" where
  "TxSetGasLimit limit =
     (case limit of
        Some l \<Rightarrow> on_raw (\<lambda>raw. raw\<lparr>gaslimit := l\<rparr>)
      | None \<Rightarrow> liftS (Inl (Err BOAT_ERROR_COMMON_INVALID_ARGUMENT)))"

definition TxSetRecipient ::
  "bytes \<Rightarrow> ('a BoatRawtxFields_scheme, 'b) BoatTx_scheme \<times> 'w \<Rightarrow>
     unit res \<times> ('a BoatRawtxFields_scheme, 'b) BoatTx_scheme \<times> 'w" where
  "TxSetRecipient a = put_raw (\<lambda>raw. bindR (buf_get a 0 20) (\<lambda>d. Inr (raw\<lparr>recipient := d\<rparr>)))"

definition TxSetValue ::
  "BoatFieldMax option \<Rightarrow> ('a BoatRawtxFields_scheme, 'b) BoatTx_scheme \<times> 'w \<Rightarrow>
     unit res \<times> ('a BoatRawtxFields_scheme, 'b) BoatTx_scheme \<times> 'w" where
  "TxSetValue amount =
     on_raw (\<lambda>raw. case amount of
       Some v \<Rightarrow> raw\<lparr>tx_value := v\<rparr> | None \<Rightarrow> raw\<lparr>tx_value := (tx_value raw)\<lparr>max_field_len := 0\<rparr>\<rparr>)"

definition TxSetData ::
  "BoatFieldVariable option \<Rightarrow> ('a BoatRawtxFields_scheme, 'b) BoatTx_scheme \<times> 'w \<Rightarrow>
     unit res \<times> ('a BoatRawtxFields_scheme, 'b) BoatTx_scheme \<times> 'w" where
  "TxSetData payload =
     on_raw (\<lambda>raw. case payload of
       Some d \<Rightarrow> raw\<lparr>tx_data := d\<rparr> | None \<Rightarrow> raw\<lparr>tx_data := (tx_data raw)\<lparr>field_len := 0\<rparr>\<rparr>)"

text \<open>
  \<open>TxInit\<close>: the checks of the arguments, then the fields that the application gives as HEX text. \<open>zero\<close> are the cleared fields; \<open>junk\<close>
  is the stack of the local variables.
\<close>

definition init_args_ok :: "bytes option \<Rightarrow> bytes option \<Rightarrow> bytes \<Rightarrow> bool" where
  "init_args_ok gasprice_str gaslimit_str recipient_str \<longleftrightarrow>
     (gasprice_str \<noteq> None \<longrightarrow> UtilityStringIsHex gasprice_str) \<and> (gaslimit_str \<noteq> None \<longrightarrow> UtilityStringIsHex gaslimit_str) \<and>
     UtilityStringIsHex (Some recipient_str) \<and> UtilityStringLenCheck recipient_str = 0 \<and> length recipient_str = 42"

definition init_gas ::
  "'w Platform \<Rightarrow> (('a BoatRawtxFields_scheme, 'b) BoatTx_scheme, 'w) TxApi \<Rightarrow> BoatFieldMax \<Rightarrow> bytes option \<Rightarrow> bytes option \<Rightarrow>
     ('a BoatRawtxFields_scheme, 'b) BoatTx_scheme \<times> 'w \<Rightarrow> unit res \<times> ('a BoatRawtxFields_scheme, 'b) BoatTx_scheme \<times> 'w" where
  "init_gas pf api junk gasprice_str gaslimit_str =
     bindS (case gasprice_str of
              Some p \<Rightarrow> bindS (liftS (hex_field (Some p) junk)) (\<lambda>f. TxSetGasPrice pf api (Some f))
            | None \<Rightarrow> TxSetGasPrice pf api None) (\<lambda>_.
     bindS (liftS (hex_field gaslimit_str junk)) (\<lambda>f.
     TxSetGasLimit (Some f)))"

definition init_fields ::
  "'w Platform \<Rightarrow> (('a BoatRawtxFields_scheme, 'b) BoatTx_scheme, 'w) TxApi \<Rightarrow> BoatFieldMax \<Rightarrow> bytes \<Rightarrow>
     bytes option \<Rightarrow> bytes option \<Rightarrow> bytes \<Rightarrow>
     ('a BoatRawtxFields_scheme, 'b) BoatTx_scheme \<times> 'w \<Rightarrow> unit res \<times> ('a BoatRawtxFields_scheme, 'b) BoatTx_scheme \<times> 'w" where
  "init_fields pf api junk junk_addr gasprice_str gaslimit_str recipient_str =
     bindS (init_gas pf api junk gasprice_str gaslimit_str) (\<lambda>_.
     bindS (liftS (let (out, n) = UtilityHexToBin True 20 (Some recipient_str) TRIMBIN_TRIM_NO True in
                   guardR (n = 0) BOAT_ERROR_COMMON_UTILITY (buf_put junk_addr 0 out))) (\<lambda>a.
     bindS (TxSetRecipient a) (\<lambda>_.
     TxSetValue None)))"

definition TxInit ::
  "'w Platform \<Rightarrow> (('a BoatRawtxFields_scheme, 'b) BoatTx_scheme, 'w) TxApi \<Rightarrow> 'a BoatRawtxFields_scheme \<Rightarrow> BoatFieldMax \<Rightarrow> bytes \<Rightarrow>
     BoatWallet option \<Rightarrow> ('a BoatRawtxFields_scheme, 'b) BoatTx_scheme option \<Rightarrow> bool \<Rightarrow> bytes option \<Rightarrow> bytes option \<Rightarrow> bytes option \<Rightarrow>
     'w \<Rightarrow> unit res \<times> ('a BoatRawtxFields_scheme, 'b) BoatTx_scheme option \<times> 'w" where
  "TxInit pf api zero junk junk_addr wl_ptr tx is_sync gasprice_str gaslimit_str recipient_str w =
     (case (wl_ptr, tx, recipient_str) of
        (Some wl, Some t, Some r) \<Rightarrow>
          if \<not> init_args_ok gasprice_str gaslimit_str r then (Inl (Err BOAT_ERROR_COMMON_INVALID_ARGUMENT), tx, w)
          else (case init_fields pf api junk junk_addr gasprice_str gaslimit_str r
                       (t\<lparr>wallet_ptr := Some wl, rawtx_fields := zero, is_sync_tx := is_sync\<rparr>, w) of
                  (res, t', w') \<Rightarrow> (res, Some t', w'))
      | _ \<Rightarrow> (Inl (Err BOAT_ERROR_COMMON_INVALID_ARGUMENT), tx, w))"

subsection \<open>Sending and the receipt\<close>

text \<open>
  The polling loop: what its last round leaves in \<open>result\<close> and in the seconds that are left. A parsed status that is not in the
  buffer is a null pointer for \<open>strcmp\<close>; the two outcomes of \<open>strcmp\<close> only differ in what they log. The interval is a positive constant of
  the chain, 2 or 3; the condition that it is positive makes the recursion total.
\<close>

function receipt_loop ::
  "'w Platform \<Rightarrow> (('r, 'b) BoatTx_scheme, 'w) TxApi \<Rightarrow> bytes \<Rightarrow> int \<Rightarrow> ('r, 'b) BoatTx_scheme \<times> 'w \<Rightarrow>
     (unit res \<times> int) \<times> ('r, 'b) BoatTx_scheme \<times> 'w" where
  "receipt_loop pf api hash timeout s =
     (case ask_node (\<lambda>ctx url. web3_getTransactionReceiptStatus (pf_rpc pf) (pf_malloc pf) ctx url
              (Some \<lparr>gtr_method_name_str = chars (api_receipt_method api), gtr_tx_hash_str = hash\<rparr>))
            (fst s, api_sleep api (snd s)) of
        (Inl e, s1) \<Rightarrow> ((Inl e, timeout), s1)
      | (Inr None, s1) \<Rightarrow> ((Inr (), timeout), s1)
      | (Inr (Some response), s1) \<Rightarrow>
          (case read_answer pf response ''status'' s1 of
             (Inr None, s2) \<Rightarrow> ((Inl UB, timeout), s2)
           | (Inr (Some status), s2) \<Rightarrow> ((Inr (), timeout), s2)
           | (Inl UB, s2) \<Rightarrow> ((Inl UB, timeout), s2)
           | (Inl (Err e), s2) \<Rightarrow>
               if e \<noteq> BOAT_ERROR_JSON_OBJ_IS_NULL then ((Inl (Err BOAT_ERROR_WALLET_RESULT_PARSE_FAIL), timeout), s2)
               else if 0 < timeout - api_interval api \<and> 0 < api_interval api
               then receipt_loop pf api hash (timeout - api_interval api) s2
               else ((Inl (Err e), timeout - api_interval api), s2)))"
  by pat_completeness auto
termination
  by (relation "measure (\<lambda>(pf, api, hash, timeout, s). nat timeout)") auto

declare receipt_loop.simps [simp del]

definition TxGetReceipt ::
  "'w Platform \<Rightarrow> (('r, 'b) BoatTx_scheme, 'w) TxApi \<Rightarrow> ('r, 'b) BoatTx_scheme \<times> 'w \<Rightarrow> unit res \<times> ('r, 'b) BoatTx_scheme \<times> 'w" where
  "TxGetReceipt pf api s =
     bindS (liftS (buf_get (max_field (tx_hash (fst s))) 0 (unat (max_field_len (tx_hash (fst s)))))) (\<lambda>hash s.
       case receipt_loop pf api (address_text hash) 30 s of
         ((r, timeout), s') \<Rightarrow>
           (if timeout \<le> 0 \<and> r \<noteq> Inl UB then Inl (Err BOAT_ERROR_COMMON_TX_PENDING) else r, s')) s"

definition send_tx ::
  "(('r, 'b) BoatTx_scheme, 'w) TxApi \<Rightarrow> ('r, 'b) BoatTx_scheme \<times> 'w \<Rightarrow> unit res \<times> ('r, 'b) BoatTx_scheme \<times> 'w" where
  "send_tx api s =
     (case api_send api (Some (fst s)) (snd s) of
        (r, Some t', w') \<Rightarrow> (r, t', w')
      | (r, None, w') \<Rightarrow> (Inl UB, fst s, w'))"

definition SendRawtxWithReceipt ::
  "'w Platform \<Rightarrow> (('r, 'b) BoatTx_scheme, 'w) TxApi \<Rightarrow> ('r, 'b) BoatTx_scheme \<times> 'w \<Rightarrow> unit res \<times> ('r, 'b) BoatTx_scheme \<times> 'w" where
  "SendRawtxWithReceipt pf api = bindS (send_tx api) (\<lambda>_. TxGetReceipt pf api)"

definition TxSend ::
  "'w Platform \<Rightarrow> (('r, 'b) BoatTx_scheme, 'w) TxApi \<Rightarrow> ('r, 'b) BoatTx_scheme \<times> 'w \<Rightarrow> unit res \<times> ('r, 'b) BoatTx_scheme \<times> 'w" where
  "TxSend pf api = needs_wallet (\<lambda>s. if is_sync_tx (fst s) then SendRawtxWithReceipt pf api s else send_tx api s)"

definition Transfer ::
  "'w Platform \<Rightarrow> (('a BoatRawtxFields_scheme, 'b) BoatTx_scheme, 'w) TxApi \<Rightarrow> BoatFieldMax \<Rightarrow> bytes option \<Rightarrow>
     ('a BoatRawtxFields_scheme, 'b) BoatTx_scheme \<times> 'w \<Rightarrow> unit res \<times> ('a BoatRawtxFields_scheme, 'b) BoatTx_scheme \<times> 'w" where
  "Transfer pf api junk value_hex_str = needs_wallet (
     case value_hex_str of
       None \<Rightarrow> liftS (Inl (Err BOAT_ERROR_COMMON_INVALID_ARGUMENT))
     | Some v \<Rightarrow>
         bindS (TxSetNonce pf api BOAT_ETH_NONCE_AUTO) (\<lambda>_.
         bindS (liftS (hex_field (Some v) junk)) (\<lambda>f.
         bindS (TxSetValue (Some f)) (\<lambda>_.
         bindS (TxSetData (api_transfer_data api)) (\<lambda>_.
         TxSend pf api)))))"

subsection \<open>Wallets\<close>

text \<open>
  \<open>WalletInit\<close>: \<open>block\<close> is the wallet that \<open>BoatMalloc\<close> yields, not cleared; \<open>web3\<close> is what \<open>web3_init\<close> returns.
\<close>

definition WalletInit ::
  "(nat \<Rightarrow> bytes option) \<Rightarrow> (bytes \<Rightarrow> bytes) \<Rightarrow> (u8 \<Rightarrow> nvram \<Rightarrow> BoatNetworkData option \<Rightarrow> unit res \<times> BoatNetworkData option) \<Rightarrow>
     BoatWallet option \<Rightarrow> Web3IntfContext option res \<Rightarrow> u8 \<Rightarrow> u8 \<Rightarrow> nvram \<Rightarrow> BoatWallet option res" where
  "WalletInit mal keccak get_network block web3 walletIndex network_index s =
     (case block of
        None \<Rightarrow> Inr None
      | Some wl \<Rightarrow>
          (case (BoATKeypair_GetKeypairByIndex mal walletIndex s (Some (account_prikeyCtx (account_info wl))),
                 get_network network_index s (Some (network_info wl))) of
             ((Inl UB, _), _) \<Rightarrow> Inl UB
           | ((Inl (Err _), _), _) \<Rightarrow> Inr None
           | ((Inr _, k), (Inl UB, _)) \<Rightarrow> Inl UB
           | ((Inr _, k), (Inl (Err _), _)) \<Rightarrow> Inr None
           | ((Inr _, Some k), (Inr _, Some n)) \<Rightarrow>
               bindR web3 (\<lambda>ctx.
               case ctx of
                 None \<Rightarrow> Inr None
               | Some c \<Rightarrow>
                   bindR (buf_get (pubkey_content k) 0 64) (\<lambda>pub.
                   bindR (buf_get (keccak pub) 12 20) (\<lambda>a.
                   Inr (Some \<lparr>account_info = \<lparr>account_prikeyCtx = k, account_address = a\<rparr>, network_info = n,
                              web3intf_context_ptr = Some c\<rparr>))))
           | _ \<Rightarrow> Inl UB))"

text \<open>\<open>WalletDeInit\<close>: the number of blocks it frees.\<close>

definition WalletDeInit :: "BoatWallet option \<Rightarrow> nat" where
  "WalletDeInit wl_ptr =
     (case wl_ptr of
        None \<Rightarrow> 0
      | Some wl \<Rightarrow> (if keypair_name (account_prikeyCtx (account_info wl)) \<noteq> None then 1 else 0) +
                   web3_deinit (web3intf_context_ptr wl) + 1)"

text \<open>A function that returns a null pointer on every error.\<close>

definition or_null :: "'a option res \<Rightarrow> 'a option res" where
  "or_null r = (case r of Inl (Err _) \<Rightarrow> Inr None | _ \<Rightarrow> r)"

definition WalletGetBalance ::
  "'w Platform \<Rightarrow> string \<Rightarrow> bytes \<Rightarrow> BoatWallet option \<Rightarrow> bytes option \<Rightarrow> 'w \<Rightarrow> bytes option res \<times> BoatWallet option \<times> 'w" where
  "WalletGetBalance pf method junk_addr wl_ptr alt_address_str w =
     (case wl_ptr of
        None \<Rightarrow> (Inr None, None, w)
      | Some wl \<Rightarrow>
          (case bindR (case alt_address_str of
                         None \<Rightarrow> Inr (account_address (account_info wl))
                       | Some a \<Rightarrow> buf_put junk_addr 0 (fst (UtilityHexToBin True 20 (Some a) TRIMBIN_TRIM_NO True)))
                  (\<lambda>a. bindR (c_string (node_url_str (network_info wl))) (\<lambda>url. Inr (a, url))) of
             Inl e \<Rightarrow> (Inl e, wl_ptr, w)
           | Inr (a, url) \<Rightarrow>
               (case web3_getBalance (pf_rpc pf) (pf_malloc pf) (web3intf_context_ptr wl) (Some url)
                       (Some \<lparr>gb_method_name_str = chars method, gb_address_str = address_text a,
                              gb_block_num_str = chars ''latest''\<rparr>) w of
                  (r, ctx, w') \<Rightarrow> (or_null r, Some (wl\<lparr>web3intf_context_ptr := ctx\<rparr>), w'))))"

definition WalletChangeNodeUrl :: "BoatWallet option \<Rightarrow> bytes option \<Rightarrow> unit res \<times> BoatWallet option" where
  "WalletChangeNodeUrl wl_ptr newUrl =
     (case (wl_ptr, newUrl) of
        (Some wl, Some u) \<Rightarrow>
          if BOAT_ETH_NODE_URL_MAX_LEN \<le> length u then (Inl (Err BOAT_ERROR_COMMON_INVALID_ARGUMENT), wl_ptr)
          else (case buf_put (node_url_str (network_info wl)) 0 (u @ [0]) of
                  Inl e \<Rightarrow> (Inl e, wl_ptr)
                | Inr b \<Rightarrow> (Inr (), Some (wl\<lparr>network_info := (network_info wl)\<lparr>node_url_str := b\<rparr>\<rparr>)))
      | _ \<Rightarrow> (Inl (Err BOAT_ERROR_COMMON_INVALID_ARGUMENT), wl_ptr))"

definition WalletChangeChainID :: "BoatWallet option \<Rightarrow> u32 \<Rightarrow> unit res \<times> BoatWallet option" where
  "WalletChangeChainID wl_ptr newChainID =
     (case wl_ptr of
        None \<Rightarrow> (Inl (Err BOAT_ERROR_COMMON_INVALID_ARGUMENT), None)
      | Some wl \<Rightarrow> (Inr (), Some (wl\<lparr>network_info := (network_info wl)\<lparr>chain_id := newChainID\<rparr>\<rparr>)))"

definition WalletChangeEIP155Comp :: "BoatWallet option \<Rightarrow> u8 \<Rightarrow> unit res \<times> BoatWallet option" where
  "WalletChangeEIP155Comp wl_ptr eip155 =
     (case wl_ptr of
        None \<Rightarrow> (Inl (Err BOAT_ERROR_COMMON_INVALID_ARGUMENT), None)
      | Some wl \<Rightarrow> (Inr (), Some (wl\<lparr>network_info := (network_info wl)\<lparr>eip155_compatibility := eip155\<rparr>\<rparr>)))"

subsection \<open>Calling a contract\<close>

text \<open>
  The call of a contract function without a transaction. \<open>UtilityStringLenCheck\<close> is also applied to
  binary parameters: it reads the memory behind them when they contain no zero byte.
\<close>

definition mem_len_check :: "bytes option \<Rightarrow> int res" where
  "mem_len_check p =
     (case p of
        None \<Rightarrow> Inl UB
      | Some m \<Rightarrow> if 0 \<in> set (take BOAT_STRING_MAX_LEN m) then Inr 0
                  else if length m < BOAT_STRING_MAX_LEN then Inl UB else Inr BOAT_ERROR)"

definition call_node ::
  "'w Platform \<Rightarrow> bytes \<Rightarrow> ('a BoatRawtxFields_scheme, 'b) BoatTx_scheme \<times> 'w \<Rightarrow>
     bytes option res \<times> ('a BoatRawtxFields_scheme, 'b) BoatTx_scheme \<times> 'w" where
  "call_node pf hex s =
     ask_node (\<lambda>ctx url. web3_call (pf_rpc pf) (pf_malloc pf) ctx url
       (Some \<lparr>call_method_name_str = chars ''eth_call'', call_from = [], call_to = address_text (recipient (rawtx_fields (fst s))),
              call_gas = chars ''0x1fffff'', call_gasPrice = chars ''0x8250de00'', call_data = hex,
              call_block_num_str = chars ''latest''\<rparr>)) s"

text \<open>The memory block of \<open>BCHAR *BoatEthCallContractFunc\<close>'s parameters and their length.\<close>

definition eth_call_data :: "(bytes \<Rightarrow> bytes) \<Rightarrow> bytes option \<Rightarrow> bytes option \<Rightarrow> u32 \<Rightarrow> bytes option res" where
  "eth_call_data keccak func_proto_str func_param_ptr func_param_len =
     (if func_param_ptr = None \<and> func_param_len \<noteq> 0 then Inr None
      else if of_nat BOAT_STRING_MAX_LEN < func_param_len then Inr None
      else case func_proto_str of
        None \<Rightarrow> Inl UB
      | Some proto \<Rightarrow>
          bindR (if UtilityStringLenCheck proto \<noteq> 0 then mem_len_check func_param_ptr else Inr 0) (\<lambda>check.
          if check \<noteq> 0 then Inr None
          else
            bindR (buf_get (keccak proto) 0 4) (\<lambda>selector.
            bindR (case func_param_ptr of None \<Rightarrow> Inr [] | Some m \<Rightarrow> buf_get m 0 (unat func_param_len)) (\<lambda>params.
            Inr (Some (address_text selector @
              fst (UtilityBinToHex True (Some params) BIN2HEX_LEFTTRIM_UNFMTDATA BIN2HEX_PREFIX_0x_NO False)))))))"

definition CallContractFunc ::
  "'w Platform \<Rightarrow> bytes option \<Rightarrow> bytes option \<Rightarrow> u32 \<Rightarrow> ('a BoatRawtxFields_scheme, 'b) BoatTx_scheme option \<Rightarrow> 'w \<Rightarrow>
     bytes option res \<times> ('a BoatRawtxFields_scheme, 'b) BoatTx_scheme option \<times> 'w" where
  "CallContractFunc pf func_proto_str func_param_ptr func_param_len tx w =
     (case with_tx (needs_wallet (bindS (liftS (eth_call_data (pf_keccak pf) func_proto_str func_param_ptr func_param_len)) (\<lambda>hex.
                case hex of None \<Rightarrow> liftS (Inr None) | Some h \<Rightarrow> call_node pf h))) tx w of
        (r, tx', w') \<Rightarrow> (or_null r, tx', w'))"

text \<open>The variant whose parameters are an RLP encoding. The transaction is not checked.\<close>

definition rlp_call_data :: "bytes option \<Rightarrow> u32 \<Rightarrow> bytes option res" where
  "rlp_call_data rlp_param_ptr rlp_param_len =
     (if rlp_param_ptr = None \<and> rlp_param_len \<noteq> 0 then Inr None
      else if of_nat BOAT_STRING_MAX_LEN < rlp_param_len then Inr None
      else
        bindR (mem_len_check rlp_param_ptr) (\<lambda>check.
        if check \<noteq> 0 then Inr None
        else
          bindR (case rlp_param_ptr of None \<Rightarrow> Inl UB | Some m \<Rightarrow> buf_get m 0 (unat rlp_param_len)) (\<lambda>params.
          Inr (Some (address_text params)))))"

definition CallContractRlp ::
  "'w Platform \<Rightarrow> bytes option \<Rightarrow> u32 \<Rightarrow> ('a BoatRawtxFields_scheme, 'b) BoatTx_scheme option \<Rightarrow> 'w \<Rightarrow>
     bytes option res \<times> ('a BoatRawtxFields_scheme, 'b) BoatTx_scheme option \<times> 'w" where
  "CallContractRlp pf rlp_param_ptr rlp_param_len tx w =
     (case rlp_call_data rlp_param_ptr rlp_param_len of
        Inl e \<Rightarrow> (Inl e, tx, w)
      | Inr None \<Rightarrow> (Inr None, tx, w)
      | Inr (Some h) \<Rightarrow>
          (case tx of
             None \<Rightarrow> (Inl UB, tx, w)
           | Some t \<Rightarrow> (case call_node pf h (t, w) of (r, t', w') \<Rightarrow> (or_null r, Some t', w'))))"

subsection \<open>Ethereum\<close>

text \<open>The cleared fields of a transaction, and the text of the own address.\<close>

definition zero_max :: "nat \<Rightarrow> BoatFieldMax" where
  "zero_max n = \<lparr>max_field = replicate n 0, max_field_len = 0\<rparr>"

definition zero_fields :: BoatRawtxFields where
  "zero_fields = \<lparr>nonce = zero_max 32, gasprice = zero_max 32, gaslimit = zero_max 32, recipient = replicate 20 0,
     tx_value = zero_max 32, tx_data = \<lparr>field_ptr = None, field_len = 0\<rparr>, tx_v = zero_max 4,
     tx_sig = \<lparr>r32B = replicate 32 0, s32B = replicate 32 0, r_len = 0, s_len = 0\<rparr>\<rparr>"

definition own_address :: "('r, 'b) BoatTx_scheme \<Rightarrow> bytes res" where
  "own_address t = (case wallet_ptr t of None \<Rightarrow> Inl UB | Some wl \<Rightarrow> Inr (address_text (account_address (account_info wl))))"

definition eth_api :: "'w Platform \<Rightarrow> ('w \<Rightarrow> 'w) \<Rightarrow> (('a BoatRawtxFields_scheme, 'b) BoatTx_scheme, 'w) TxApi" where
  "eth_api pf sleep =
     \<lparr>api_nonce_method = ''eth_getTransactionCount'', api_gasprice_method = ''eth_gasPrice'',
      api_receipt_method = ''eth_getTransactionReceipt'', api_address = own_address, api_send = EthSendRawtx pf,
      api_transfer_data = None, api_interval = 3, api_sleep = sleep\<rparr>"

subsection \<open>Exchanges with the node\<close>

text \<open>A transaction with a wallet whose client can be used: the buffers have their sizes, the URL is a C string.\<close>

definition connected :: "('r, 'b) BoatTx_scheme \<Rightarrow> bytes \<Rightarrow> Web3IntfContext \<Rightarrow> bool" where
  "connected t url c \<longleftrightarrow>
     (\<exists>wl. wallet_ptr t = Some wl \<and> web3intf_context_ptr wl = Some c \<and> c_string (node_url_str (network_info wl)) = Inr url) \<and>
     buf_sized (web3_json_string_buf c) \<and> buf_sized (web3_result_string_buf c)"

lemma set_context_twice: "set_context a (set_context b t) = set_context a t"
  by (cases "wallet_ptr t") (simp_all add: set_context_def)

lemma set_context_keeps [simp]:
  "tx_hash (set_context a t) = tx_hash t" "rawtx_fields (set_context a t) = rawtx_fields t"
  "is_sync_tx (set_context a t) = is_sync_tx t"
  by (simp_all add: set_context_def)

lemma connected_set:
  "connected t url c \<Longrightarrow> buf_sized (web3_json_string_buf c') \<Longrightarrow> buf_sized (web3_result_string_buf c') \<Longrightarrow>
     connected (set_context (Some c') t) url c'"
  by (auto simp: connected_def set_context_def)

lemma request_posts_sized:
  assumes "malloc_ok mal" "\<forall>n. mal n \<noteq> None" "buf_sized (web3_json_string_buf c)" "request_ok q"
    "length (request_text q (web3_message_id c + 1)) < 2147483648"
  obtains req b where "run_request rpc mal q (Some c) (Some url) w =
       (case exchange rpc url req w of (r, w') \<Rightarrow>
          (r, Some (c\<lparr>web3_message_id := web3_message_id c + 1, web3_json_string_buf := b\<rparr>), w'))"
     "json_parse req = Some (request_json q (web3_message_id c + 1))" "buf_sized b"
proof (rule web3_post_spec [of mal "request_text q (web3_message_id c + 1)" "c\<lparr>web3_message_id := web3_message_id c + 1\<rparr>" rpc url w])
  fix b
  assume "web3_post rpc mal (Inr (request_text q (web3_message_id c + 1))) url (c\<lparr>web3_message_id := web3_message_id c + 1\<rparr>) w =
      (case exchange rpc url (request_text q (web3_message_id c + 1)) w of
         (r, w') \<Rightarrow> (r, c\<lparr>web3_message_id := web3_message_id c + 1, web3_json_string_buf := b\<rparr>, w'))"
    "formatted mal (request_text q (web3_message_id c + 1)) (web3_json_string_buf (c\<lparr>web3_message_id := web3_message_id c + 1\<rparr>)) (Inr ()) b"
  then show ?thesis
    by (intro that [of b "request_text q (web3_message_id c + 1)"])
      (simp_all add: format_request request_text_parses assms(4) formatted_def split: prod.splits)
qed (use assms in auto)

lemma ask_ok:
  assumes "platform_ok pf" "connected t url c" "request_ok q" "length (request_text q (web3_message_id c + 1)) < 2147483648"
  obtains req c' where
    "ask_node (\<lambda>ctx u. run_request (pf_rpc pf) (pf_malloc pf) q ctx u) (t, w) =
       (fst (exchange (pf_rpc pf) url req w), set_context (Some c') t, snd (exchange (pf_rpc pf) url req w))"
    "json_parse req = Some (request_json q (web3_message_id c + 1))" "connected (set_context (Some c') t) url c'"
    "web3_message_id c' = web3_message_id c + 1"
proof -
  obtain wl where wl: "wallet_ptr t = Some wl" "web3intf_context_ptr wl = Some c" "c_string (node_url_str (network_info wl)) = Inr url"
    "buf_sized (web3_json_string_buf c)" "buf_sized (web3_result_string_buf c)"
    using assms(2) by (auto simp: connected_def)
  have mal: "malloc_ok (pf_malloc pf)" "\<forall>n. pf_malloc pf n \<noteq> None" using assms(1) by (simp_all add: platform_ok_def)
  obtain req b where r: "run_request (pf_rpc pf) (pf_malloc pf) q (Some c) (Some url) w =
       (case exchange (pf_rpc pf) url req w of (r, w') \<Rightarrow>
          (r, Some (c\<lparr>web3_message_id := web3_message_id c + 1, web3_json_string_buf := b\<rparr>), w'))"
     "json_parse req = Some (request_json q (web3_message_id c + 1))" "buf_sized b"
    by (rule request_posts_sized [OF mal wl(4) assms(3,4), of "pf_rpc pf" url w])
  let ?c = "c\<lparr>web3_message_id := web3_message_id c + 1, web3_json_string_buf := b\<rparr>"
  have "connected (set_context (Some ?c) t) url ?c" using connected_set [OF assms(2)] r(3) wl(5) by simp
  then show ?thesis
    using r wl by (intro that [of req ?c]) (simp_all add: ask_node_def split: prod.splits)
qed

text \<open>Answers whose result, or whose member \<open>child\<close> of the result, is the string \<open>text\<close>; answers whose result is null.\<close>

definition answers_with :: "(bytes \<Rightarrow> cJSON option) \<Rightarrow> bytes \<Rightarrow> string \<Rightarrow> bytes \<Rightarrow> bool" where
  "answers_with json response child str \<longleftrightarrow>
     (\<exists>ms. json response = Some (cJSON_Object ms) \<and>
        (map_of ms (chars ''result'') = Some (cJSON_String str) \<or>
         (\<exists>cs. map_of ms (chars ''result'') = Some (cJSON_Object cs) \<and> map_of cs (chars child) = Some (cJSON_String str)))) \<and>
     length str < 2147483648 \<and> 0 \<notin> set str"

definition answers_null :: "(bytes \<Rightarrow> cJSON option) \<Rightarrow> bytes \<Rightarrow> bool" where
  "answers_null json response \<longleftrightarrow>
     (\<exists>ms. json response = Some (cJSON_Object ms) \<and> map_of ms (chars ''result'') = Some cJSON_Null)"

lemma read_answer_ok:
  assumes "platform_ok pf" "connected t url c" "answers_with (pf_json pf) response child str"
  obtains c' where "read_answer pf response child (t, w) = (Inr (Some str), set_context (Some c') t, w)"
    "connected (set_context (Some c') t) url c'" "web3_message_id c' = web3_message_id c"
proof -
  obtain wl where wl: "wallet_ptr t = Some wl" "web3intf_context_ptr wl = Some c" "c_string (node_url_str (network_info wl)) = Inr url"
    "buf_sized (web3_json_string_buf c)" "buf_sized (web3_result_string_buf c)"
    using assms(2) by (auto simp: connected_def)
  have mal: "malloc_ok (pf_malloc pf)" "\<forall>n. pf_malloc pf n \<noteq> None" using assms(1) by (simp_all add: platform_ok_def)
  have s: "length str < 2147483648" "0 \<notin> set str" using assms(3) by (simp_all add: answers_with_def)
  obtain b m where b: "store_result (pf_malloc pf) str (web3_result_string_buf c) = (Inr (), b)" "buf_sized b" "field_ptr b = Some m"
    "c_string m = Inr str"
    by (rule store_result_ok [OF mal s(1) wl(5) s(2)])
  then have "eth_parse_json_result (pf_json pf) (pf_malloc pf) (Some response) (Some (chars child)) (Some (web3_result_string_buf c)) =
      (Inr (), Some b)"
    using assms(3) by (auto simp: answers_with_def eth_parse_json_result_def cJSON_GetObjectItemCaseSensitive_def)
  then have "read_answer pf response child (t, w) = (Inr (Some str), set_context (Some (c\<lparr>web3_result_string_buf := b\<rparr>)) t, w)"
    using wl(1,2) b(3,4) by (simp add: read_answer_def parse_response_def result_string_def)
  moreover have "connected (set_context (Some (c\<lparr>web3_result_string_buf := b\<rparr>)) t) url (c\<lparr>web3_result_string_buf := b\<rparr>)"
    using connected_set [OF assms(2)] wl(4) b(2) by simp
  ultimately show ?thesis by (rule that) simp
qed

lemma read_null:
  assumes "connected t url c" "answers_null (pf_json pf) response"
  shows "read_answer pf response child (t, w) = (Inl (Err BOAT_ERROR_JSON_OBJ_IS_NULL), set_context (Some c) t, w)"
  using assms
  by (auto simp: connected_def answers_null_def read_answer_def parse_response_def eth_parse_json_result_def
      cJSON_GetObjectItemCaseSensitive_def)

lemma connected_same: "connected t url c \<Longrightarrow> set_context (Some c) t = t"
  by (auto simp: connected_def set_context_def)

subsection \<open>Waiting for the receipt\<close>

text \<open>
  \<open>clock\<close> counts the requests that the world has seen. A node that does not know the receipt of a transaction for the first \<open>n\<close>
  requests and answers it from then on.
\<close>

definition counts_requests :: "'w Rpc \<Rightarrow> ('w \<Rightarrow> 'w) \<Rightarrow> ('w \<Rightarrow> nat) \<Rightarrow> bool" where
  "counts_requests rpc sleep clock \<longleftrightarrow>
     (\<forall>w. clock (sleep w) = clock w) \<and> (\<forall>u w. clock (snd (request_set rpc u w)) = clock w) \<and>
     (\<forall>m w. clock (snd (request_sync rpc m w)) = clock w + 1)"

definition receipt_after :: "'w Platform \<Rightarrow> bytes \<Rightarrow> ('w \<Rightarrow> nat) \<Rightarrow> nat \<Rightarrow> string \<Rightarrow> bytes \<Rightarrow> bool" where
  "receipt_after pf url clock n method hash \<longleftrightarrow>
     (\<forall>req i w. json_parse req = Some (rpc_request method [JStr hash] i) \<longrightarrow>
        (\<exists>response. fst (exchange (pf_rpc pf) url req w) = Inr (Some response) \<and>
           (if clock w < n then answers_null (pf_json pf) response
            else \<exists>status. answers_with (pf_json pf) response ''status'' status)))"

lemma exchange_counts:
  assumes "counts_requests rpc sleep clock" "fst (exchange rpc url req w) = Inr r"
  shows "clock (snd (exchange rpc url req w)) = clock w + 1"
proof -
  obtain code w1 where 1: "request_set rpc url w = (code, w1)" by (cases "request_set rpc url w")
  obtain code2 r2 w2 where 2: "request_sync rpc req w1 = ((code2, r2), w2)" by (metis prod_cases3 prod.exhaust)
  have "clock w1 = clock w" "clock w2 = clock w1 + 1"
    using assms(1) 1 2 unfolding counts_requests_def by (metis snd_conv)+
  then show ?thesis using assms(2) 1 2 by (simp add: exchange_def split: if_splits)
qed

lemma receipt_request:
  assumes "platform_ok pf" "connected t url c" "plain (chars method)" "length method < 100" "plain hash" "length hash < 1000"
  obtains req c' where
    "ask_node (\<lambda>ctx url. web3_getTransactionReceiptStatus (pf_rpc pf) (pf_malloc pf) ctx url
         (Some \<lparr>gtr_method_name_str = chars method, gtr_tx_hash_str = hash\<rparr>)) (t, w) =
       (fst (exchange (pf_rpc pf) url req w), set_context (Some c') t, snd (exchange (pf_rpc pf) url req w))"
    "json_parse req = Some (rpc_request method [JStr hash] (web3_message_id c + 1))" "connected (set_context (Some c') t) url c'"
proof -
  let ?q = "GetTransactionReceipt \<lparr>gtr_method_name_str = chars method, gtr_tx_hash_str = hash\<rparr>"
  have "request_ok ?q" using assms(3,5) by (simp add: request_ok_def)
  moreover have "length (request_text ?q (web3_message_id c + 1)) < 2147483648"
    using assms(4,6) dec_text_length [of "web3_message_id c + 1"]
    by (simp add: request_text_def request_json_def request_sep_def quoted_def chars_def)
  ultimately obtain req c' where
    "ask_node (\<lambda>ctx u. run_request (pf_rpc pf) (pf_malloc pf) ?q ctx u) (t, w) =
       (fst (exchange (pf_rpc pf) url req w), set_context (Some c') t, snd (exchange (pf_rpc pf) url req w))"
    "json_parse req = Some (request_json ?q (web3_message_id c + 1))" "connected (set_context (Some c') t) url c'"
    by (rule ask_ok [OF assms(1,2)])
  moreover have "run_request (pf_rpc pf) (pf_malloc pf) ?q = (\<lambda>ctx url. web3_getTransactionReceiptStatus (pf_rpc pf) (pf_malloc pf) ctx url
       (Some \<lparr>gtr_method_name_str = chars method, gtr_tx_hash_str = hash\<rparr>))"
    by (intro ext) simp
  ultimately show ?thesis by (intro that [of req c']) (simp_all add: rpc_request_def request_json_def)
qed

lemma receipt_round:
  assumes pf: "platform_ok pf" "counts_requests (pf_rpc pf) (api_sleep api) clock"
      "receipt_after pf url clock n (api_receipt_method api) hash"
    and q: "plain (chars (api_receipt_method api))" "length (api_receipt_method api) < 100" "plain hash" "length hash < 1000"
    and i: "0 < api_interval api" and t: "connected t url c"
  obtains c' w' where "connected (set_context (Some c') t) url c'" "clock w' = clock w + 1"
    "receipt_loop pf api hash timeout (t, w) =
       (if n \<le> clock w then ((Inr (), timeout), set_context (Some c') t, w')
        else if 0 < timeout - api_interval api
        then receipt_loop pf api hash (timeout - api_interval api) (set_context (Some c') t, w')
        else ((Inl (Err BOAT_ERROR_JSON_OBJ_IS_NULL), timeout - api_interval api), set_context (Some c') t, w'))"
proof -
  let ?w = "api_sleep api w"
  have cw: "clock ?w = clock w" using pf(2) by (simp add: counts_requests_def)
  obtain req c1 where r: "ask_node (\<lambda>ctx url. web3_getTransactionReceiptStatus (pf_rpc pf) (pf_malloc pf) ctx url
         (Some \<lparr>gtr_method_name_str = chars (api_receipt_method api), gtr_tx_hash_str = hash\<rparr>)) (t, ?w) =
       (fst (exchange (pf_rpc pf) url req ?w), set_context (Some c1) t, snd (exchange (pf_rpc pf) url req ?w))"
    "json_parse req = Some (rpc_request (api_receipt_method api) [JStr hash] (web3_message_id c + 1))"
    "connected (set_context (Some c1) t) url c1"
    by (rule receipt_request [OF pf(1) t q])
  obtain response where a: "fst (exchange (pf_rpc pf) url req ?w) = Inr (Some response)"
    "if clock w < n then answers_null (pf_json pf) response else \<exists>status. answers_with (pf_json pf) response ''status'' status"
    using pf(3) r(2) cw unfolding receipt_after_def by metis
  let ?w1 = "snd (exchange (pf_rpc pf) url req ?w)"
  have cw1: "clock ?w1 = clock w + 1" using exchange_counts [OF pf(2) a(1)] cw by simp
  show ?thesis
  proof (cases "clock w < n")
    case True
    have nl: "read_answer pf response ''status'' (set_context (Some c1) t, ?w1) =
        (Inl (Err BOAT_ERROR_JSON_OBJ_IS_NULL), set_context (Some c1) t, ?w1)"
      using read_null [OF r(3), of pf response] a(2) True connected_same [OF r(3)] by simp
    show ?thesis
      by (rule that [OF r(3) cw1]) (subst receipt_loop.simps, use True i in \<open>simp add: r(1) a(1) nl linorder_not_le\<close>)
  next
    case False
    then obtain status where st: "answers_with (pf_json pf) response ''status'' status" using a(2) by auto
    obtain c2 where c2: "read_answer pf response ''status'' (set_context (Some c1) t, ?w1) =
        (Inr (Some status), set_context (Some c2) (set_context (Some c1) t), ?w1)"
      "connected (set_context (Some c2) (set_context (Some c1) t)) url c2"
      by (rule read_answer_ok [OF pf(1) r(3) st])
    show ?thesis
      by (rule that [of c2 ?w1])
        (use c2 cw1 False in \<open>simp_all add: set_context_twice, subst receipt_loop.simps, simp add: r(1) a(1) set_context_twice\<close>)
  qed
qed

lemma receipt_loop_reports:
  assumes pf: "platform_ok pf" "counts_requests (pf_rpc pf) (api_sleep api) clock"
      "receipt_after pf url clock n (api_receipt_method api) hash"
    and q: "plain (chars (api_receipt_method api))" "length (api_receipt_method api) < 100" "plain hash" "length hash < 1000"
    and i: "0 < api_interval api"
  shows "connected t url c \<Longrightarrow> \<exists>r timeout c' w'.
     receipt_loop pf api hash (int (Suc k) * api_interval api) (t, w) = ((r, timeout), set_context (Some c') t, w') \<and>
     (if n \<le> clock w + k then r = Inr () \<and> 0 < timeout \<and> clock w' = max n (clock w) + 1
      else r = Inl (Err BOAT_ERROR_JSON_OBJ_IS_NULL) \<and> timeout = 0 \<and> clock w' = clock w + Suc k)"
proof (induction k arbitrary: t c w)
  case 0
  obtain c' w' where "clock w' = clock w + 1" "receipt_loop pf api hash (1 * api_interval api) (t, w) =
       (if n \<le> clock w then ((Inr (), 1 * api_interval api), set_context (Some c') t, w')
        else if 0 < 1 * api_interval api - api_interval api
        then receipt_loop pf api hash (1 * api_interval api - api_interval api) (set_context (Some c') t, w')
        else ((Inl (Err BOAT_ERROR_JSON_OBJ_IS_NULL), 1 * api_interval api - api_interval api), set_context (Some c') t, w'))"
    by (rule receipt_round [OF pf q i 0])
  then show ?case using i by auto
next
  case (Suc k)
  let ?T = "int (Suc (Suc k)) * api_interval api"
  have m: "?T - api_interval api = int (Suc k) * api_interval api" "0 < int (Suc k) * api_interval api" "0 < ?T"
    by (simp add: algebra_simps) (intro mult_pos_pos i; simp)+
  obtain c1 w1 where c1: "connected (set_context (Some c1) t) url c1" "clock w1 = clock w + 1"
    "receipt_loop pf api hash ?T (t, w) =
       (if n \<le> clock w then ((Inr (), ?T), set_context (Some c1) t, w1)
        else if 0 < ?T - api_interval api
        then receipt_loop pf api hash (?T - api_interval api) (set_context (Some c1) t, w1)
        else ((Inl (Err BOAT_ERROR_JSON_OBJ_IS_NULL), ?T - api_interval api), set_context (Some c1) t, w1))"
    by (rule receipt_round [OF pf q i Suc.prems])
  show ?case
  proof (cases "n \<le> clock w")
    case True
    then show ?thesis using c1(2,3) m(3) by auto
  next
    case False
    then have l: "receipt_loop pf api hash ?T (t, w) = receipt_loop pf api hash (int (Suc k) * api_interval api) (set_context (Some c1) t, w1)"
      using c1(3) m(1,2) by (simp only: if_True if_False)
    obtain r timeout c2 w2 where s: "receipt_loop pf api hash (int (Suc k) * api_interval api) (set_context (Some c1) t, w1) =
        ((r, timeout), set_context (Some c2) t, w2)"
      "if n \<le> clock w1 + k then r = Inr () \<and> 0 < timeout \<and> clock w2 = max n (clock w1) + 1
       else r = Inl (Err BOAT_ERROR_JSON_OBJ_IS_NULL) \<and> timeout = 0 \<and> clock w2 = clock w1 + Suc k"
      using Suc.IH [OF c1(1), of w1] unfolding set_context_twice by blast
    show ?thesis
      unfolding l s(1)
      by (rule exI [of _ r], rule exI [of _ timeout], rule exI [of _ c2], rule exI [of _ w2])
        (use s(2) c1(2) False in \<open>auto split: if_splits\<close>)
  qed
qed

lemma address_text_eq: "address_text bs = (if bs = [] then [] else hex_text bs)"
  by (simp add: address_text_def bin_to_hex_text) (simp add: UtilityBinToHex_def)

lemma address_text_plain: "plain (address_text bs)" "length (address_text bs) \<le> 2 * length bs + 2"
  using hex_text_plain(1,3) [of bs] by (auto simp: address_text_eq plain_def)

lemma TxGetReceipt_ok:
  assumes pf: "platform_ok pf" "counts_requests (pf_rpc pf) (api_sleep api) clock"
      "receipt_after pf url clock n (api_receipt_method api) (address_text (max_bytes (tx_hash t)))"
    and q: "plain (chars (api_receipt_method api))" "length (api_receipt_method api) < 100"
    and i: "0 < api_interval api" "int (Suc k) * api_interval api = 30"
    and t: "connected t url c" "max_fits (tx_hash t)"
  obtains c' w' where
    "TxGetReceipt pf api (t, w) = (if n \<le> clock w + k then Inr () else Inl (Err BOAT_ERROR_COMMON_TX_PENDING), set_context (Some c') t, w')"
    "clock w' = (if n \<le> clock w + k then max n (clock w) + 1 else clock w + Suc k)"
proof -
  have "length (max_bytes (tx_hash t)) \<le> 32" using t(2) by (simp add: max_fits_def max_bytes_def)
  then have h: "length (address_text (max_bytes (tx_hash t))) < 1000"
    using address_text_plain(2) [of "max_bytes (tx_hash t)"] by simp
  have g: "buf_get (max_field (tx_hash t)) 0 (unat (max_field_len (tx_hash t))) = Inr (max_bytes (tx_hash t))"
    using t(2) by (simp add: buf_get_def max_fits_def max_bytes_def)
  obtain r timeout c' w' where
    "receipt_loop pf api (address_text (max_bytes (tx_hash t))) 30 (t, w) = ((r, timeout), set_context (Some c') t, w')"
    "if n \<le> clock w + k then r = Inr () \<and> 0 < timeout \<and> clock w' = max n (clock w) + 1
      else r = Inl (Err BOAT_ERROR_JSON_OBJ_IS_NULL) \<and> timeout = 0 \<and> clock w' = clock w + Suc k"
    using receipt_loop_reports [OF pf q address_text_plain(1) h i(1) t(1), of k w] unfolding i(2) by blast
  then show ?thesis
    by (intro that [of c' w']) (auto simp: TxGetReceipt_def bindS_def liftS_def g split: if_splits)
qed

text \<open>Whatever a node answers, the loop ends: \<open>clock\<close> is bounded by the number of rounds.\<close>

lemma web3_post_counts:
  assumes "counts_requests rpc sleep clock"
  shows "web3_post rpc mal fmt u c w = (r, c', w') \<Longrightarrow> clock w' \<le> clock w + 1"
proof -
  have s: "request_set rpc u w = (code, w1) \<Longrightarrow> clock w1 = clock w" for code w1 w
    using assms by (metis counts_requests_def snd_conv)
  have p: "request_sync rpc m w1 = (x, w2) \<Longrightarrow> clock w2 = clock w1 + 1" for m w1 x w2
    using assms by (metis counts_requests_def snd_conv)
  show "web3_post rpc mal fmt u c w = (r, c', w') \<Longrightarrow> clock w' \<le> clock w + 1"
    by (auto simp: web3_post_def dest!: s p split: sum.splits prod.splits if_splits)
qed

lemma ask_counts:
  assumes "counts_requests (pf_rpc pf) sleep clock"
    "ask_node (\<lambda>ctx url. web3_getTransactionReceiptStatus (pf_rpc pf) mal ctx url p) (t, w) = (r, t', w')"
  shows "clock w' \<le> clock w + 1"
  using assms(2)
  by (auto simp: ask_node_def web3_getTransactionReceiptStatus_def web3_entry_def Let_def
      dest: web3_post_counts [OF assms(1)] split: option.splits sum.splits prod.splits)

lemma read_answer_world: "read_answer pf response child (t, w) = (r, t', w') \<Longrightarrow> w' = w"
  by (auto simp: read_answer_def split: option.splits sum.splits prod.splits)

lemma receipt_loop_bounded:
  assumes "counts_requests (pf_rpc pf) (api_sleep api) clock" "0 < api_interval api"
  shows "receipt_loop pf api hash timeout (t, w) = (x, t', w') \<Longrightarrow> timeout \<le> int (Suc k) * api_interval api \<Longrightarrow>
     clock w' \<le> clock w + Suc k"
proof (induction k arbitrary: timeout t w)
  have sl: "clock (api_sleep api w) = clock w" for w using assms(1) by (simp add: counts_requests_def)
  note st = ask_counts [OF assms(1)]
  {
    case 0
    then show ?case
      using assms(2)
      by (subst (asm) receipt_loop.simps)
        (auto simp: sl dest!: st read_answer_world split: sum.splits prod.splits option.splits fail.splits if_splits)
  next
    case (Suc k)
    have m: "timeout - api_interval api \<le> int (Suc k) * api_interval api"
      using Suc.prems(2) by (simp add: algebra_simps)
    show ?case
      using Suc.prems(1)
      by (subst (asm) receipt_loop.simps)
        (auto simp: sl dest!: st read_answer_world Suc.IH [OF _ m] split: sum.splits prod.splits option.splits fail.splits if_splits)
  }
qed

lemma TxGetReceipt_bounded:
  assumes "counts_requests (pf_rpc pf) (api_sleep api) clock" "0 < api_interval api" "30 \<le> int (Suc k) * api_interval api"
    "TxGetReceipt pf api (t, w) = (r, t', w')"
  shows "clock w' \<le> clock w + Suc k"
  using assms(4)
  by (auto simp: TxGetReceipt_def bindS_def liftS_def dest: receipt_loop_bounded [OF assms(1,2) _ assms(3)] split: sum.splits prod.splits)

end
