(* ===== verification/Boat_Device.thy ===== *)
theory Boat_Device
  imports Boat_Wallet Boat_NetworkFamily
begin

text \<open>
  The device as the public interface uses it: the keypair manager and the network stores of the Ethereum family share the wallet
  file, each in its own area. The theory composes their invariants over arbitrary sequences of calls and shows that neither side disturbs
  what the other has stored.
\<close>

subsection \<open>Reference notions\<close>

text \<open>Records a protocol of the family has written, so that it can read them back.\<close>

definition readable :: "network_record list \<Rightarrow> bool" where
  "readable ns \<longleftrightarrow> list_all (\<lambda>r. \<exists>protocol d. net_ok d \<and> r = network_record_of protocol d) ns"

definition network_stores :: "network_record list \<Rightarrow> network_record list \<Rightarrow> nvram \<Rightarrow> bool" where
  "network_stores ns us s \<longleftrightarrow> networks_in ns s \<and> onetime_network_in us s \<and> readable ns \<and> readable us"


subsection \<open>Correctness\<close>

lemma readable_size: "readable ns \<Longrightarrow> length (concat (map network_enc ns)) \<le> 145 * length ns"
proof (induction ns)
  case (Cons r ns)
  then obtain protocol d where "net_ok d" "r = network_record_of protocol d" by (auto simp: readable_def)
  then show ?case using Cons network_enc_size(2) [of d protocol] by (simp add: readable_def)
qed simp

lemma readable_remove: "readable (xs @ r # ys) \<Longrightarrow> readable (xs @ ys)"
  by (simp add: readable_def)

lemma created_readable: "config_ok cfg \<Longrightarrow> readable [network_record_of protocol (created_network cfg i)]"
  using created_network_ok(1) [of cfg i] by (auto simp: readable_def)

lemma area_wr_unknown: "area_wr mal BOAT_STORE_NETWORK BOAT_STORE_TYPE_UNKNOWN off xs s = (Inl (Err BOAT_ERROR_COMMON_INVALID_ARGUMENT), s)"
  by (simp add: area_wr_def BoATStoreSoftRotNvram_def)

lemma create_network_unknown: "snd (NetworkCreate protocol mal cfg BOAT_STORE_TYPE_UNKNOWN s) = s"
  by (simp add: NetworkCreate_def NetworkDataCtx_Store_def bindS_def liftS_def Let_def area_wr_unknown split: option.split sum.split prod.split)

lemma create_network_full:
  assumes "nvram_ok s" "networks_in ns s" "\<not> length ns < 5"
  shows "snd (NetworkCreate protocol mal (Some cfg) BOAT_STORE_TYPE_FLASH s) = s"
proof -
  have "length ns = 5" using assms(2,3) by (simp add: networks_in_def)
  then have "GetFreeNetworkIndex_From_Persistent s = Inl (Err BOAT_ERROR_NETWORK_INDEX_EXCEED)"
    using free_network_index_ok [OF assms(1,2)] by simp
  then show ?thesis by (simp add: NetworkCreate_def bindS_def liftS_def)
qed

lemma wallet_network_frame:
  assumes "wallet rs ps os s" "nvram_ok s'" "area_frame BOAT_STORE_NETWORK t s s'"
  shows "wallet rs ps os s'"
  using assms(1,2) wallet_frames [OF assms(3)] by (auto simp: wallet_def)

lemma stores_keypair_frame: "keeps_networks s s' \<Longrightarrow> network_stores ns us s \<Longrightarrow> network_stores ns us s'"
  unfolding network_stores_def networks_in_def onetime_network_in_def keeps_networks_def
  by (auto intro: holds_zero_extends)

lemma create_network_keeps:
  assumes W: "wallet rs ps os s" and N: "network_stores ns us s" and mal: "malloc_total mal" and cfg: "config_ok cfg"
  shows "wallet rs ps os (snd (NetworkCreate protocol mal (Some cfg) t s)) \<and>
    (\<exists>ns' us'. network_stores ns' us' (snd (NetworkCreate protocol mal (Some cfg) t s)))"
proof -
  have ok: "nvram_ok s" using W by (simp add: wallet_def)
  have n: "networks_in ns s" "onetime_network_in us s" "readable ns" "readable us" using N by (simp_all add: network_stores_def)
  show ?thesis
  proof (cases t)
    case BOAT_STORE_TYPE_UNKNOWN
    then show ?thesis using create_network_unknown W N by metis
  next
    case BOAT_STORE_TYPE_RAM
    obtain s' where s': "NetworkCreate protocol mal (Some cfg) BOAT_STORE_TYPE_RAM s = (Inr 0, s')" "nvram_ok s'"
        "area_frame BOAT_STORE_NETWORK BOAT_STORE_TYPE_RAM s s'" "onetime_network_in [network_record_of protocol (created_network cfg 0)] s'"
      using create_onetime_network_ok [OF ok mal n(2) cfg, of protocol] by blast
    have "network_stores ns [network_record_of protocol (created_network cfg 0)] s'"
      using networks_in_frame [OF s'(3) _ n(1)] s'(4) n(3) created_readable [OF cfg] by (simp add: network_stores_def)
    then show ?thesis
      unfolding BOAT_STORE_TYPE_RAM s'(1) snd_conv using wallet_network_frame [OF W s'(2,3)] by blast
  next
    case BOAT_STORE_TYPE_FLASH
    show ?thesis
    proof (cases "length ns < 5")
      case True
      have "149 + length (concat (map network_enc ns)) \<le> 5120" using readable_size [OF n(3)] True by simp
      then obtain i s' where s': "NetworkCreate protocol mal (Some cfg) BOAT_STORE_TYPE_FLASH s = (Inr i, s')" "nvram_ok s'"
          "area_frame BOAT_STORE_NETWORK BOAT_STORE_TYPE_FLASH s s'" "networks_in (ns @ [network_record_of protocol (created_network cfg i)]) s'"
        using create_network_ok [OF ok mal n(1) True cfg, of protocol] by blast
      have "network_stores (ns @ [network_record_of protocol (created_network cfg i)]) us s'"
        using onetime_network_frame [OF s'(3) _ n(2)] s'(4) n(3,4) created_readable [OF cfg] by (simp add: network_stores_def readable_def)
      then show ?thesis
        unfolding BOAT_STORE_TYPE_FLASH s'(1) snd_conv using wallet_network_frame [OF W s'(2,3)] by blast
    next
      case False
      then show ?thesis unfolding BOAT_STORE_TYPE_FLASH create_network_full [OF ok n(1) False] using W N by blast
    qed
  qed
qed

lemma delete_onetime_network:
  assumes ok: "nvram_ok s" and mal: "malloc_total mal" and os: "onetime_network_in os s"
  shows "\<exists>s'. snd (NetworkDelete protocol mal 0 s) = s' \<and> nvram_ok s' \<and> area_frame BOAT_STORE_NETWORK BOAT_STORE_TYPE_RAM s s' \<and>
    (onetime_network_in [] s' \<or> s' = s)"
proof -
  obtain s' where s': "area_wr mal BOAT_STORE_NETWORK BOAT_STORE_TYPE_RAM 0 [0, 0, 0, 0] s = (Inr (), s')" "nvram_ok s'"
      "area_frame BOAT_STORE_NETWORK BOAT_STORE_TYPE_RAM s s'" "onetime_network_content s' = overlay (onetime_network_content s) 0 [0, 0, 0, 0]"
    using storage_area.wr_ok [OF ram_network_area [OF mal] ok, of "[0, 0, 0, 0]" 0] by auto
  have "onetime_network_in [] s'"
    by (simp add: onetime_network_in_def holds_def s'(4) overlay_head area_num_def utility_check_NumBytes_def)
  moreover have "snd (NetworkDelete protocol mal 0 s) = s' \<or> snd (NetworkDelete protocol mal 0 s) = s"
    using s'(1) by (auto simp: NetworkDelete_def Let_def split: sum.splits)
  moreover have "area_frame BOAT_STORE_NETWORK BOAT_STORE_TYPE_RAM s s" by (simp add: area_frame_def zero_extends_refl)
  ultimately show ?thesis using s'(2,3) ok by auto
qed

lemma delete_network_keeps:
  assumes W: "wallet rs ps os s" and N: "network_stores ns us s" and mal: "malloc_total mal"
  shows "wallet rs ps os (snd (NetworkDelete protocol mal i s)) \<and> (\<exists>ns' us'. network_stores ns' us' (snd (NetworkDelete protocol mal i s)))"
proof -
  have ok: "nvram_ok s" using W by (simp add: wallet_def)
  have n: "networks_in ns s" "onetime_network_in us s" "readable ns" "readable us" using N by (simp_all add: network_stores_def)
  have three: "i = 0 \<or> of_nat 5 < i \<or> persistent_index i"
    by (auto simp: persistent_index_def word_less_nat_alt)
  consider "i = 0" | "of_nat 5 < i" | "persistent_index i" "\<not> list_all (\<lambda>r. \<not> is_network protocol i r) ns"
    | "persistent_index i" "list_all (\<lambda>r. \<not> is_network protocol i r) ns"
    using three by blast
  then show ?thesis
  proof cases
    case 1
    obtain s' where s': "snd (NetworkDelete protocol mal i s) = s'" "nvram_ok s'" "area_frame BOAT_STORE_NETWORK BOAT_STORE_TYPE_RAM s s'"
        "onetime_network_in [] s' \<or> s' = s"
      using delete_onetime_network [OF ok mal n(2), of protocol] unfolding 1 by blast
    have "network_stores ns [] s' \<or> network_stores ns us s'"
      using networks_in_frame [OF s'(3) _ n(1)] s'(4) n N by (auto simp: network_stores_def readable_def)
    then show ?thesis unfolding s'(1) using wallet_network_frame [OF W s'(2,3)] by blast
  next
    case 2
    then have "snd (NetworkDelete protocol mal i s) = s" by (simp add: NetworkDelete_def)
    then show ?thesis using W N by metis
  next
    case 3
    then obtain r where "r \<in> set ns" "is_network protocol i r" by (auto simp: list_all_iff)
    then obtain xs ys where ns: "ns = xs @ r # ys" "is_network protocol i r" by (auto dest: split_list)
    obtain s' where s': "NetworkDelete protocol mal i s = (Inr (), s')" "nvram_ok s'" "area_frame BOAT_STORE_NETWORK BOAT_STORE_TYPE_FLASH s s'"
        "networks_in (xs @ ys) s'"
      using delete_network_ok [OF ok mal _ ns(2)] n(1) unfolding ns(1) by blast
    have "network_stores (xs @ ys) us s'"
      using s'(4) onetime_network_frame [OF s'(3) _ n(2)] readable_remove [of xs r ys] n(3,4) ns(1) by (simp add: network_stores_def)
    then show ?thesis unfolding s'(1) snd_conv using wallet_network_frame [OF W s'(2,3)] by blast
  next
    case 4
    obtain e where "NetworkDelete protocol mal i s = (Inl (Err e), s)" using delete_network_missing [OF ok n(1) 4(2,1)] by blast
    then show ?thesis using W N by (metis snd_conv)
  qed
qed

lemma blank_stores: "network_stores [] [] blank_device" "network_stores [] [] blank_device_large"
  by (simp_all add: network_stores_def blank_networks readable_def)



lemma keypair_calls_frame:
  assumes "wallet rs ps os s" "malloc_total mal" "cipher_ok hash salt aes_enc aes_dec" "name_ok nm" "list_sized junkList" "ctx_sizes ctx"
    "\<And>d. BoatPort_keyCreate generation getPubkey pkcs2native (Some cfg) (Some BoATIotKeypairInit) = Inr d \<Longrightarrow> length (prikey_of d) = 32"
    "s' \<in> {snd (BoatKeypairCreate mal hash salt aes_enc (BoatPort_keyCreate generation getPubkey pkcs2native) ctx junkList (Some cfg) nm t s),
           snd (BoATIotKeypairDelete mal ctx i s)}"
  shows "nvram_ok s' \<and> keeps_networks s s'"
  using assms(8) create_keeps_wallet [OF assms(1-5), of "BoatPort_keyCreate generation getPubkey pkcs2native" cfg ctx t]
    delete_keeps_wallet [OF assms(1,2,6), of i] keyCreate_sized assms(7) by (auto simp: wallet_def)

text \<open>
  The keypair interface does not disturb the networks: after creating or deleting a keypair, successfully or not, every stored network of every
  protocol reads as before.
\<close>

theorem keypair_calls_keep_networks:
  assumes "wallet rs ps os s" "malloc_total mal" "cipher_ok hash salt aes_enc aes_dec" "name_ok nm" "list_sized junkList" "ctx_sizes ctx"
    "\<And>d. BoatPort_keyCreate generation getPubkey pkcs2native (Some cfg) (Some BoATIotKeypairInit) = Inr d \<Longrightarrow> length (prikey_of d) = 32"
    "s' \<in> {snd (BoatKeypairCreate mal hash salt aes_enc (BoatPort_keyCreate generation getPubkey pkcs2native) ctx junkList (Some cfg) nm t s),
           snd (BoATIotKeypairDelete mal ctx i s)}"
    "network_stores ns us s" "net_ok d" "network_record_of protocol d \<in> set ns" "url_sized old"
  shows "GetNetworkByIndex protocol (networkIndex d) s' (Some old) = (Inr (), Some (read_into d old))"
  using keypair_calls_frame [OF assms(1-8)] stores_keypair_frame [OF _ assms(9), of s'] get_network_found [of s' ns protocol d old] assms(10-12)
  by (simp add: network_stores_def)

text \<open>
  The network interfaces do not disturb the wallet: after creating or deleting a network of any protocol, successfully or not, the keypair and key
  stores hold what they held, and every keypair reads as before.
\<close>

theorem network_calls_keep_keypairs:
  assumes "wallet rs ps os s" "network_stores ns us s" "malloc_total mal" "config_ok cfg" "c \<in> network_creates mal" "d \<in> network_deletes mal"
    "s' \<in> {snd (c (Some cfg) t s), snd (d i s)}" "k \<in> set rs" "ctx_sizes old"
  shows "wallet rs ps os s' \<and> BoATKeypair_GetKeypairByIndex mal (keypair_index k) s' (Some old) = (Inr (), Some k)"
proof -
  obtain p q where "c = NetworkCreate p mal" "d = NetworkDelete q mal"
    using network_creates_cases network_deletes_cases assms(5,6) by metis
  then have w: "wallet rs ps os s'"
    using assms(7) create_network_keeps [OF assms(1-4), of p t] delete_network_keeps [OF assms(1-3), of q i] by auto
  then show ?thesis using get_keypair_found [OF _ assms(3) _ assms(8,9)] by (simp add: wallet_def)
qed

lemma keypair_and_network:
  "\<exists>s c k. wallet [c] [(keypair_index c, k)] [] s \<and>
    network_stores [network_record_of BOAT_PROTOCOL_ETHEREUM (created_network eth_cfg 1)] [] s"
proof -
  let ?K = "BoatPort_keyCreate (\<lambda>t f. Inl UB) (\<lambda>t f k. Inr (replicate 64 9)) (\<lambda>k. Inl UB)"
  let ?r = "network_record_of BOAT_PROTOCOL_ETHEREUM (created_network eth_cfg 1)"
  have c: "?K (Some native_cfg) (Some BoATIotKeypairInit) = Inr native_data" by (rule native_create(1))
  have n: "name_ok None" by (simp add: name_ok_def)
  from create_ok [where keyCreate = ?K, OF blank_wallet(1) _ heap_all_total xor_cipher_ok n zero_list_sized c keyCreate_sized [OF c] native_create(2)]
  obtain s i k where "wallet ([] @ [created native_data None i]) ([] @ [(i, k)]) [] s" "keeps_networks blank_device s"
    by fastforce
  then have W: "wallet [created native_data None i] [(i, k)] [] s" and N: "network_stores [] [] s"
    using stores_keypair_frame [OF _ blank_stores(1)] by simp_all
  have ok: "nvram_ok s" and n: "networks_in [] s" "onetime_network_in [] s" using W N by (simp_all add: wallet_def network_stores_def)
  have one: "(of_nat (the (free_network_index [])) :: u8) = 1" by (simp add: free_network_index_def upt_conv_Cons)
  obtain s' where s': "nvram_ok s'" "area_frame BOAT_STORE_NETWORK BOAT_STORE_TYPE_FLASH s s'" "networks_in [?r] s'"
    using create_network_ok [OF ok heap_all_total n(1) _ eth_cfg_ok, of BOAT_PROTOCOL_ETHEREUM] one by auto
  have "network_stores [?r] [] s'"
    using s'(3) onetime_network_frame [OF s'(2) _ n(2)] created_readable [OF eth_cfg_ok] by (simp add: network_stores_def readable_def)
  moreover have "i = keypair_index (created native_data None i)" by (simp add: created_def)
  ultimately show ?thesis using wallet_network_frame [OF W s'(1,2)] by metis
qed

theorem keypair_calls_keep_networks_witness:
  "\<exists>s c k. wallet [c] [(keypair_index c, k)] [] s \<and>
    GetNetworkByIndex BOAT_PROTOCOL_ETHEREUM 1 (snd (BoATIotKeypairDelete heap_all (prikeyCtx BoATIotKeypairInit) 1 s)) (Some NetworkDataInit) =
      (Inr (), Some (read_into (created_network eth_cfg 1) NetworkDataInit))"
proof -
  let ?r = "network_record_of BOAT_PROTOCOL_ETHEREUM (created_network eth_cfg 1)"
  obtain s c k where W: "wallet [c] [(keypair_index c, k)] [] s" and N: "network_stores [?r] [] s" using keypair_and_network by blast
  have n: "name_ok None" "ctx_sizes (prikeyCtx BoATIotKeypairInit)" by (simp_all add: name_ok_def ctx_sizes_def BoATIotKeypairInit_def)
  have k: "length (prikey_of d) = 32"
    if "BoatPort_keyCreate (\<lambda>t f. Inl UB) (\<lambda>t f k. Inr (replicate 64 9)) (\<lambda>k. Inl UB) (Some native_cfg) (Some BoATIotKeypairInit) = Inr d" for d
    using that native_create by simp
  note c = created_network_ok(1,2) [OF eth_cfg_ok, of 1]
  have "GetNetworkByIndex BOAT_PROTOCOL_ETHEREUM (networkIndex (created_network eth_cfg 1))
      (snd (BoATIotKeypairDelete heap_all (prikeyCtx BoATIotKeypairInit) 1 s)) (Some NetworkDataInit) =
      (Inr (), Some (read_into (created_network eth_cfg 1) NetworkDataInit))"
    by (rule keypair_calls_keep_networks [where protocol = BOAT_PROTOCOL_ETHEREUM and ns = "[?r]" and us = "[]",
          OF W heap_all_total xor_cipher_ok n(1) zero_list_sized n(2) k _ N c(1) _ init_sized]) auto
  then show ?thesis using W unfolding c(2) by blast
qed

theorem network_calls_keep_keypairs_witness:
  "\<exists>s c k. wallet [c] [(keypair_index c, k)] [] (snd (BoATPlatONNetworkCreate heap_all (Some eth_cfg) BOAT_STORE_TYPE_FLASH s))"
proof -
  let ?r = "network_record_of BOAT_PROTOCOL_ETHEREUM (created_network eth_cfg 1)"
  obtain s c k where W: "wallet [c] [(keypair_index c, k)] [] s" and N: "network_stores [?r] [] s" using keypair_and_network by blast
  have m: "BoATPlatONNetworkCreate heap_all \<in> network_creates heap_all" "BoATPlatONNetworkDelete heap_all \<in> network_deletes heap_all"
    by (simp_all add: network_creates_def network_deletes_def)
  have "ctx_sizes (prikeyCtx BoATIotKeypairInit)" by (simp add: ctx_sizes_def BoATIotKeypairInit_def)
  from network_calls_keep_keypairs [OF W N heap_all_total eth_cfg_ok m _ _ this, of _ BOAT_STORE_TYPE_FLASH 1 c]
  have "wallet [c] [(keypair_index c, k)] [] (snd (BoATPlatONNetworkCreate heap_all (Some eth_cfg) BOAT_STORE_TYPE_FLASH s))" by auto
  then show ?thesis by blast
qed

end
