(* ===== verification/Boat_Application.thy ===== *)
theory Boat_Application
  imports Boat_TxApi Boat_Device
begin

text \<open>
  The calls of \<open>Boat_TxApi\<close> as the application has them, for the three chains with Ethereum's program, and what an application
  achieves with them: a wallet out of the stores, a transaction out of HEX texts, a transfer, and its receipt.
\<close>

subsection \<open>Ethereum: \<open>sdk/wallet/api_ethereum.c\<close>\<close>

definition BoatEthWalletInit ::
  "(nat \<Rightarrow> bytes option) \<Rightarrow> (bytes \<Rightarrow> bytes) \<Rightarrow> BoatWallet option \<Rightarrow> Web3IntfContext option res \<Rightarrow> u8 \<Rightarrow> u8 \<Rightarrow>
     nvram \<Rightarrow> BoatWallet option res" where
  "BoatEthWalletInit mal keccak = WalletInit mal keccak BoATEth_GetNetworkByIndex"

definition BoatEthWalletDeInit ::
  "BoatWallet option \<Rightarrow> nat" where
  "BoatEthWalletDeInit = WalletDeInit"

definition BoatEthWalletGetBalance ::
  "'w Platform \<Rightarrow> bytes \<Rightarrow> BoatWallet option \<Rightarrow> bytes option \<Rightarrow> 'w \<Rightarrow>
     bytes option res \<times> BoatWallet option \<times> 'w" where
  "BoatEthWalletGetBalance pf = WalletGetBalance pf ''eth_getBalance''"

definition BoatEthParseRpcResponseStringResult ::
  "'w Platform \<Rightarrow> bytes option \<Rightarrow> BoatFieldVariable option \<Rightarrow> unit res \<times> BoatFieldVariable option" where
  "BoatEthParseRpcResponseStringResult = ParseRpcResponseStringResult"

definition BoatEthParseRpcResponseResult ::
  "'w Platform \<Rightarrow> bytes option \<Rightarrow> bytes option \<Rightarrow> BoatFieldVariable option \<Rightarrow> unit res \<times> BoatFieldVariable option" where
  "BoatEthParseRpcResponseResult = ParseRpcResponseResult"

definition BoatEthTxSetNonce ::
  "'w Platform \<Rightarrow> ('w \<Rightarrow> 'w) \<Rightarrow> u64 \<Rightarrow> (BoatRawtxFields, 'b) BoatTx_scheme option \<Rightarrow> 'w \<Rightarrow> unit res \<times> (BoatRawtxFields, 'b) BoatTx_scheme option \<times> 'w" where
  "BoatEthTxSetNonce pf sleep n = with_tx (TxSetNonce pf (eth_api pf sleep) n)"

definition BoatEthTxSetGasPrice ::
  "'w Platform \<Rightarrow> ('w \<Rightarrow> 'w) \<Rightarrow> BoatFieldMax option \<Rightarrow>
     (BoatRawtxFields, 'b) BoatTx_scheme option \<Rightarrow> 'w \<Rightarrow> unit res \<times> (BoatRawtxFields, 'b) BoatTx_scheme option \<times> 'w" where
  "BoatEthTxSetGasPrice pf sleep price = with_tx (TxSetGasPrice pf (eth_api pf sleep) price)"

definition BoatEthTxSetGasLimit ::
  "BoatFieldMax option \<Rightarrow> (BoatRawtxFields, 'b) BoatTx_scheme option \<Rightarrow> 'w \<Rightarrow> unit res \<times> (BoatRawtxFields, 'b) BoatTx_scheme option \<times> 'w" where
  "BoatEthTxSetGasLimit limit = with_tx (TxSetGasLimit limit)"

definition BoatEthTxSetRecipient ::
  "bytes \<Rightarrow> (BoatRawtxFields, 'b) BoatTx_scheme option \<Rightarrow> 'w \<Rightarrow> unit res \<times> (BoatRawtxFields, 'b) BoatTx_scheme option \<times> 'w" where
  "BoatEthTxSetRecipient a = with_tx (TxSetRecipient a)"

definition BoatEthTxSetValue ::
  "BoatFieldMax option \<Rightarrow> (BoatRawtxFields, 'b) BoatTx_scheme option \<Rightarrow> 'w \<Rightarrow> unit res \<times> (BoatRawtxFields, 'b) BoatTx_scheme option \<times> 'w" where
  "BoatEthTxSetValue amount = with_tx (TxSetValue amount)"

definition BoatEthTxSetData ::
  "BoatFieldVariable option \<Rightarrow> (BoatRawtxFields, 'b) BoatTx_scheme option \<Rightarrow> 'w \<Rightarrow> unit res \<times> (BoatRawtxFields, 'b) BoatTx_scheme option \<times> 'w" where
  "BoatEthTxSetData payload = with_tx (TxSetData payload)"

definition BoatEthTxInit ::
  "'w Platform \<Rightarrow> ('w \<Rightarrow> 'w) \<Rightarrow> BoatFieldMax \<Rightarrow> bytes \<Rightarrow> BoatWallet option \<Rightarrow> (BoatRawtxFields, 'b) BoatTx_scheme option \<Rightarrow>
     bool \<Rightarrow> bytes option \<Rightarrow> bytes option \<Rightarrow> bytes option \<Rightarrow> 'w \<Rightarrow> unit res \<times> (BoatRawtxFields, 'b) BoatTx_scheme option \<times> 'w" where
  "BoatEthTxInit pf sleep = TxInit pf (eth_api pf sleep) zero_fields"

definition BoatEthGetTransactionReceipt ::
  "'w Platform \<Rightarrow> ('w \<Rightarrow> 'w) \<Rightarrow> (BoatRawtxFields, 'b) BoatTx_scheme option \<Rightarrow> 'w \<Rightarrow> unit res \<times> (BoatRawtxFields, 'b) BoatTx_scheme option \<times> 'w" where
  "BoatEthGetTransactionReceipt pf sleep = unchecked_tx (TxGetReceipt pf (eth_api pf sleep))"

definition BoatEthSendRawtxWithReceipt ::
  "'w Platform \<Rightarrow> ('w \<Rightarrow> 'w) \<Rightarrow> (BoatRawtxFields, 'b) BoatTx_scheme option \<Rightarrow> 'w \<Rightarrow> unit res \<times> (BoatRawtxFields, 'b) BoatTx_scheme option \<times> 'w" where
  "BoatEthSendRawtxWithReceipt pf sleep = unchecked_tx (SendRawtxWithReceipt pf (eth_api pf sleep))"

definition BoatEthTxSend ::
  "'w Platform \<Rightarrow> ('w \<Rightarrow> 'w) \<Rightarrow> (BoatRawtxFields, 'b) BoatTx_scheme option \<Rightarrow> 'w \<Rightarrow> unit res \<times> (BoatRawtxFields, 'b) BoatTx_scheme option \<times> 'w" where
  "BoatEthTxSend pf sleep = with_tx (TxSend pf (eth_api pf sleep))"

definition BoatEthTransfer ::
  "'w Platform \<Rightarrow> ('w \<Rightarrow> 'w) \<Rightarrow> BoatFieldMax \<Rightarrow> bytes option \<Rightarrow>
     (BoatRawtxFields, 'b) BoatTx_scheme option \<Rightarrow> 'w \<Rightarrow> unit res \<times> (BoatRawtxFields, 'b) BoatTx_scheme option \<times> 'w" where
  "BoatEthTransfer pf sleep junk value_hex_str = with_tx (Transfer pf (eth_api pf sleep) junk value_hex_str)"

definition BoatEthCallContractFunc ::
  "'w Platform \<Rightarrow> bytes option \<Rightarrow> bytes option \<Rightarrow> u32 \<Rightarrow>
     (BoatRawtxFields, 'b) BoatTx_scheme option \<Rightarrow> 'w \<Rightarrow> bytes option res \<times> (BoatRawtxFields, 'b) BoatTx_scheme option \<times> 'w" where
  "BoatEthCallContractFunc = CallContractFunc"

definition BoatEthWalletChangeNodeUrl ::
  "BoatWallet option \<Rightarrow> bytes option \<Rightarrow> unit res \<times> BoatWallet option" where
  "BoatEthWalletChangeNodeUrl = WalletChangeNodeUrl"

definition BoatEthWalletChangeChainID ::
  "BoatWallet option \<Rightarrow> u32 \<Rightarrow> unit res \<times> BoatWallet option" where
  "BoatEthWalletChangeChainID = WalletChangeChainID"

definition BoatEthWalletChangeEIP155Comp ::
  "BoatWallet option \<Rightarrow> u8 \<Rightarrow> unit res \<times> BoatWallet option" where
  "BoatEthWalletChangeEIP155Comp = WalletChangeEIP155Comp"

subsection \<open>Venachain: \<open>sdk/wallet/api_venachain.c\<close>\<close>

definition venachain_api :: "'w Platform \<Rightarrow> ('w \<Rightarrow> 'w) \<Rightarrow> (('a BoatRawtxFields_scheme, 'b) BoatTx_scheme, 'w) TxApi" where
  "venachain_api pf sleep = (eth_api pf sleep)\<lparr>api_send := VenachainSendRawtx pf\<rparr>"

definition BoatVenachainWalletInit ::
  "(nat \<Rightarrow> bytes option) \<Rightarrow> (bytes \<Rightarrow> bytes) \<Rightarrow> BoatWallet option \<Rightarrow> Web3IntfContext option res \<Rightarrow> u8 \<Rightarrow> u8 \<Rightarrow>
     nvram \<Rightarrow> BoatWallet option res" where
  "BoatVenachainWalletInit mal keccak = WalletInit mal keccak BoATVenachain_GetNetworkByIndex"

definition BoatVenachainWalletDeInit ::
  "BoatWallet option \<Rightarrow> nat" where
  "BoatVenachainWalletDeInit = WalletDeInit"

definition BoatVenachainWalletGetBalance ::
  "'w Platform \<Rightarrow> bytes \<Rightarrow> BoatWallet option \<Rightarrow> bytes option \<Rightarrow> 'w \<Rightarrow>
     bytes option res \<times> BoatWallet option \<times> 'w" where
  "BoatVenachainWalletGetBalance pf = WalletGetBalance pf ''eth_getBalance''"

definition BoatVenachainParseRpcResponseStringResult ::
  "'w Platform \<Rightarrow> bytes option \<Rightarrow> BoatFieldVariable option \<Rightarrow> unit res \<times> BoatFieldVariable option" where
  "BoatVenachainParseRpcResponseStringResult = ParseRpcResponseStringResult"

definition BoatVenachainParseRpcResponseResult ::
  "'w Platform \<Rightarrow> bytes option \<Rightarrow> bytes option \<Rightarrow> BoatFieldVariable option \<Rightarrow> unit res \<times> BoatFieldVariable option" where
  "BoatVenachainParseRpcResponseResult = ParseRpcResponseResult"

definition BoatVenachainTxSetNonce ::
  "'w Platform \<Rightarrow> ('w \<Rightarrow> 'w) \<Rightarrow> u64 \<Rightarrow> (BoatRawtxFields, 'b) BoatTx_scheme option \<Rightarrow> 'w \<Rightarrow> unit res \<times> (BoatRawtxFields, 'b) BoatTx_scheme option \<times> 'w" where
  "BoatVenachainTxSetNonce pf sleep n = with_tx (TxSetNonce pf (venachain_api pf sleep) n)"

definition BoatVenachainTxSetGasPrice ::
  "'w Platform \<Rightarrow> ('w \<Rightarrow> 'w) \<Rightarrow> BoatFieldMax option \<Rightarrow>
     (BoatRawtxFields, 'b) BoatTx_scheme option \<Rightarrow> 'w \<Rightarrow> unit res \<times> (BoatRawtxFields, 'b) BoatTx_scheme option \<times> 'w" where
  "BoatVenachainTxSetGasPrice pf sleep price = with_tx (TxSetGasPrice pf (venachain_api pf sleep) price)"

definition BoatVenachainTxSetGasLimit ::
  "BoatFieldMax option \<Rightarrow> (BoatRawtxFields, 'b) BoatTx_scheme option \<Rightarrow> 'w \<Rightarrow> unit res \<times> (BoatRawtxFields, 'b) BoatTx_scheme option \<times> 'w" where
  "BoatVenachainTxSetGasLimit limit = with_tx (TxSetGasLimit limit)"

definition BoatVenachainTxSetRecipient ::
  "bytes \<Rightarrow> (BoatRawtxFields, 'b) BoatTx_scheme option \<Rightarrow> 'w \<Rightarrow> unit res \<times> (BoatRawtxFields, 'b) BoatTx_scheme option \<times> 'w" where
  "BoatVenachainTxSetRecipient a = with_tx (TxSetRecipient a)"

definition BoatVenachainTxSetValue ::
  "BoatFieldMax option \<Rightarrow> (BoatRawtxFields, 'b) BoatTx_scheme option \<Rightarrow> 'w \<Rightarrow> unit res \<times> (BoatRawtxFields, 'b) BoatTx_scheme option \<times> 'w" where
  "BoatVenachainTxSetValue amount = with_tx (TxSetValue amount)"

definition BoatVenachainTxSetData ::
  "BoatFieldVariable option \<Rightarrow> (BoatRawtxFields, 'b) BoatTx_scheme option \<Rightarrow> 'w \<Rightarrow> unit res \<times> (BoatRawtxFields, 'b) BoatTx_scheme option \<times> 'w" where
  "BoatVenachainTxSetData payload = with_tx (TxSetData payload)"

definition BoatVenachainTxInit ::
  "'w Platform \<Rightarrow> ('w \<Rightarrow> 'w) \<Rightarrow> BoatFieldMax \<Rightarrow> bytes \<Rightarrow> BoatWallet option \<Rightarrow> (BoatRawtxFields, 'b) BoatTx_scheme option \<Rightarrow>
     bool \<Rightarrow> bytes option \<Rightarrow> bytes option \<Rightarrow> bytes option \<Rightarrow> 'w \<Rightarrow> unit res \<times> (BoatRawtxFields, 'b) BoatTx_scheme option \<times> 'w" where
  "BoatVenachainTxInit pf sleep = TxInit pf (venachain_api pf sleep) zero_fields"

definition BoatVenachainGetTransactionReceipt ::
  "'w Platform \<Rightarrow> ('w \<Rightarrow> 'w) \<Rightarrow> (BoatRawtxFields, 'b) BoatTx_scheme option \<Rightarrow> 'w \<Rightarrow> unit res \<times> (BoatRawtxFields, 'b) BoatTx_scheme option \<times> 'w" where
  "BoatVenachainGetTransactionReceipt pf sleep = unchecked_tx (TxGetReceipt pf (venachain_api pf sleep))"

definition BoatVenachainSendRawtxWithReceipt ::
  "'w Platform \<Rightarrow> ('w \<Rightarrow> 'w) \<Rightarrow> (BoatRawtxFields, 'b) BoatTx_scheme option \<Rightarrow> 'w \<Rightarrow> unit res \<times> (BoatRawtxFields, 'b) BoatTx_scheme option \<times> 'w" where
  "BoatVenachainSendRawtxWithReceipt pf sleep = unchecked_tx (SendRawtxWithReceipt pf (venachain_api pf sleep))"

definition BoatVenachainTxSend ::
  "'w Platform \<Rightarrow> ('w \<Rightarrow> 'w) \<Rightarrow> (BoatRawtxFields, 'b) BoatTx_scheme option \<Rightarrow> 'w \<Rightarrow> unit res \<times> (BoatRawtxFields, 'b) BoatTx_scheme option \<times> 'w" where
  "BoatVenachainTxSend pf sleep = with_tx (TxSend pf (venachain_api pf sleep))"

definition BoatVenachainTransfer ::
  "'w Platform \<Rightarrow> ('w \<Rightarrow> 'w) \<Rightarrow> BoatFieldMax \<Rightarrow> bytes option \<Rightarrow>
     (BoatRawtxFields, 'b) BoatTx_scheme option \<Rightarrow> 'w \<Rightarrow> unit res \<times> (BoatRawtxFields, 'b) BoatTx_scheme option \<times> 'w" where
  "BoatVenachainTransfer pf sleep junk value_hex_str = with_tx (Transfer pf (venachain_api pf sleep) junk value_hex_str)"

definition BoatVenachainCallContractFunc ::
  "'w Platform \<Rightarrow> bytes option \<Rightarrow> u32 \<Rightarrow>
     (BoatRawtxFields, 'b) BoatTx_scheme option \<Rightarrow> 'w \<Rightarrow> bytes option res \<times> (BoatRawtxFields, 'b) BoatTx_scheme option \<times> 'w" where
  "BoatVenachainCallContractFunc = CallContractRlp"

definition BoatVenachainWalletChangeNodeUrl ::
  "BoatWallet option \<Rightarrow> bytes option \<Rightarrow> unit res \<times> BoatWallet option" where
  "BoatVenachainWalletChangeNodeUrl = WalletChangeNodeUrl"

definition BoatVenachainWalletChangeChainID ::
  "BoatWallet option \<Rightarrow> u32 \<Rightarrow> unit res \<times> BoatWallet option" where
  "BoatVenachainWalletChangeChainID = WalletChangeChainID"

definition BoatVenachainWalletChangeEIP155Comp ::
  "BoatWallet option \<Rightarrow> u8 \<Rightarrow> unit res \<times> BoatWallet option" where
  "BoatVenachainWalletChangeEIP155Comp = WalletChangeEIP155Comp"

subsection \<open>PlatONE: \<open>sdk/wallet/api_platone.c\<close>\<close>

definition zero_platone_fields :: BoatPlatoneRawtxFields where
  "zero_platone_fields = BoatRawtxFields.extend zero_fields \<lparr>txtype = 0\<rparr>"

definition platone_api :: "'w Platform \<Rightarrow> ('w \<Rightarrow> 'w) \<Rightarrow> ((BoatPlatoneRawtxFields, 'b) BoatTx_scheme, 'w) TxApi" where
  "platone_api pf sleep =
     \<lparr>api_nonce_method = ''eth_getTransactionCount'', api_gasprice_method = ''eth_gasPrice'',
      api_receipt_method = ''eth_getTransactionReceipt'', api_address = own_address, api_send = PlatoneSendRawtx pf,
      api_transfer_data = Some \<lparr>field_ptr = Some (UtilityUint64ToBigend 0 TRIMBIN_TRIM_NO), field_len = 8\<rparr>, api_interval = 3, api_sleep = sleep\<rparr>"

definition BoatPlatoneTxSetTxtype :: "u64 \<Rightarrow> (BoatPlatoneRawtxFields, 'b) BoatTx_scheme option \<Rightarrow> 'w \<Rightarrow> unit res \<times> (BoatPlatoneRawtxFields, 'b) BoatTx_scheme option \<times> 'w" where
  "BoatPlatoneTxSetTxtype kind = with_tx (on_raw (\<lambda>raw. raw\<lparr>txtype := kind\<rparr>))"

definition BoatPlatoneWalletInit ::
  "(nat \<Rightarrow> bytes option) \<Rightarrow> (bytes \<Rightarrow> bytes) \<Rightarrow> BoatWallet option \<Rightarrow> Web3IntfContext option res \<Rightarrow> u8 \<Rightarrow> u8 \<Rightarrow>
     nvram \<Rightarrow> BoatWallet option res" where
  "BoatPlatoneWalletInit mal keccak = WalletInit mal keccak BoATPlatone_GetNetworkByIndex"

definition BoatPlatoneWalletDeInit ::
  "BoatWallet option \<Rightarrow> nat" where
  "BoatPlatoneWalletDeInit = WalletDeInit"

definition BoatPlatoneWalletGetBalance ::
  "'w Platform \<Rightarrow> bytes \<Rightarrow> BoatWallet option \<Rightarrow> bytes option \<Rightarrow> 'w \<Rightarrow>
     bytes option res \<times> BoatWallet option \<times> 'w" where
  "BoatPlatoneWalletGetBalance pf = WalletGetBalance pf ''eth_getBalance''"

definition BoatPlatoneParseRpcResponseStringResult ::
  "'w Platform \<Rightarrow> bytes option \<Rightarrow> BoatFieldVariable option \<Rightarrow> unit res \<times> BoatFieldVariable option" where
  "BoatPlatoneParseRpcResponseStringResult = ParseRpcResponseStringResult"

definition BoatPlatoneParseRpcResponseResult ::
  "'w Platform \<Rightarrow> bytes option \<Rightarrow> bytes option \<Rightarrow> BoatFieldVariable option \<Rightarrow> unit res \<times> BoatFieldVariable option" where
  "BoatPlatoneParseRpcResponseResult = ParseRpcResponseResult"

definition BoatPlatoneTxSetNonce ::
  "'w Platform \<Rightarrow> ('w \<Rightarrow> 'w) \<Rightarrow> u64 \<Rightarrow> (BoatPlatoneRawtxFields, 'b) BoatTx_scheme option \<Rightarrow> 'w \<Rightarrow> unit res \<times> (BoatPlatoneRawtxFields, 'b) BoatTx_scheme option \<times> 'w" where
  "BoatPlatoneTxSetNonce pf sleep n = with_tx (TxSetNonce pf (platone_api pf sleep) n)"

definition BoatPlatoneTxSetGasPrice ::
  "'w Platform \<Rightarrow> ('w \<Rightarrow> 'w) \<Rightarrow> BoatFieldMax option \<Rightarrow>
     (BoatPlatoneRawtxFields, 'b) BoatTx_scheme option \<Rightarrow> 'w \<Rightarrow> unit res \<times> (BoatPlatoneRawtxFields, 'b) BoatTx_scheme option \<times> 'w" where
  "BoatPlatoneTxSetGasPrice pf sleep price = with_tx (TxSetGasPrice pf (platone_api pf sleep) price)"

definition BoatPlatoneTxSetGasLimit ::
  "BoatFieldMax option \<Rightarrow> (BoatPlatoneRawtxFields, 'b) BoatTx_scheme option \<Rightarrow> 'w \<Rightarrow> unit res \<times> (BoatPlatoneRawtxFields, 'b) BoatTx_scheme option \<times> 'w" where
  "BoatPlatoneTxSetGasLimit limit = with_tx (TxSetGasLimit limit)"

definition BoatPlatoneTxSetRecipient ::
  "bytes \<Rightarrow> (BoatPlatoneRawtxFields, 'b) BoatTx_scheme option \<Rightarrow> 'w \<Rightarrow> unit res \<times> (BoatPlatoneRawtxFields, 'b) BoatTx_scheme option \<times> 'w" where
  "BoatPlatoneTxSetRecipient a = with_tx (TxSetRecipient a)"

definition BoatPlatoneTxSetValue ::
  "BoatFieldMax option \<Rightarrow> (BoatPlatoneRawtxFields, 'b) BoatTx_scheme option \<Rightarrow> 'w \<Rightarrow> unit res \<times> (BoatPlatoneRawtxFields, 'b) BoatTx_scheme option \<times> 'w" where
  "BoatPlatoneTxSetValue amount = with_tx (TxSetValue amount)"

definition BoatPlatoneTxSetData ::
  "BoatFieldVariable option \<Rightarrow> (BoatPlatoneRawtxFields, 'b) BoatTx_scheme option \<Rightarrow> 'w \<Rightarrow> unit res \<times> (BoatPlatoneRawtxFields, 'b) BoatTx_scheme option \<times> 'w" where
  "BoatPlatoneTxSetData payload = with_tx (TxSetData payload)"

definition BoatPlatoneTxInit ::
  "'w Platform \<Rightarrow> ('w \<Rightarrow> 'w) \<Rightarrow> BoatFieldMax \<Rightarrow> bytes \<Rightarrow> BoatWallet option \<Rightarrow> (BoatPlatoneRawtxFields, 'b) BoatTx_scheme option \<Rightarrow>
     bool \<Rightarrow> bytes option \<Rightarrow> bytes option \<Rightarrow> bytes option \<Rightarrow> u64 \<Rightarrow> 'w \<Rightarrow> unit res \<times> (BoatPlatoneRawtxFields, 'b) BoatTx_scheme option \<times> 'w" where
  "BoatPlatoneTxInit pf sleep junk junk_addr wl_ptr tx is_sync gasprice_str gaslimit_str recipient_str kind w =
     (case TxInit pf (platone_api pf sleep) zero_platone_fields junk junk_addr wl_ptr tx is_sync gasprice_str gaslimit_str recipient_str w of
        (Inl e, tx', w') \<Rightarrow> (Inl e, tx', w')
      | (Inr _, tx', w') \<Rightarrow> BoatPlatoneTxSetTxtype kind tx' w')"

definition BoatPlatoneGetTransactionReceipt ::
  "'w Platform \<Rightarrow> ('w \<Rightarrow> 'w) \<Rightarrow> (BoatPlatoneRawtxFields, 'b) BoatTx_scheme option \<Rightarrow> 'w \<Rightarrow> unit res \<times> (BoatPlatoneRawtxFields, 'b) BoatTx_scheme option \<times> 'w" where
  "BoatPlatoneGetTransactionReceipt pf sleep = unchecked_tx (TxGetReceipt pf (platone_api pf sleep))"

definition BoatPlatoneSendRawtxWithReceipt ::
  "'w Platform \<Rightarrow> ('w \<Rightarrow> 'w) \<Rightarrow> (BoatPlatoneRawtxFields, 'b) BoatTx_scheme option \<Rightarrow> 'w \<Rightarrow> unit res \<times> (BoatPlatoneRawtxFields, 'b) BoatTx_scheme option \<times> 'w" where
  "BoatPlatoneSendRawtxWithReceipt pf sleep = unchecked_tx (SendRawtxWithReceipt pf (platone_api pf sleep))"

definition BoatPlatoneTxSend ::
  "'w Platform \<Rightarrow> ('w \<Rightarrow> 'w) \<Rightarrow> (BoatPlatoneRawtxFields, 'b) BoatTx_scheme option \<Rightarrow> 'w \<Rightarrow> unit res \<times> (BoatPlatoneRawtxFields, 'b) BoatTx_scheme option \<times> 'w" where
  "BoatPlatoneTxSend pf sleep = with_tx (TxSend pf (platone_api pf sleep))"

definition BoatPlatoneTransfer ::
  "'w Platform \<Rightarrow> ('w \<Rightarrow> 'w) \<Rightarrow> BoatFieldMax \<Rightarrow> bytes option \<Rightarrow>
     (BoatPlatoneRawtxFields, 'b) BoatTx_scheme option \<Rightarrow> 'w \<Rightarrow> unit res \<times> (BoatPlatoneRawtxFields, 'b) BoatTx_scheme option \<times> 'w" where
  "BoatPlatoneTransfer pf sleep junk value_hex_str = with_tx (Transfer pf (platone_api pf sleep) junk value_hex_str)"

definition BoatPlatoneCallContractFunc ::
  "'w Platform \<Rightarrow> bytes option \<Rightarrow> u32 \<Rightarrow>
     (BoatPlatoneRawtxFields, 'b) BoatTx_scheme option \<Rightarrow> 'w \<Rightarrow> bytes option res \<times> (BoatPlatoneRawtxFields, 'b) BoatTx_scheme option \<times> 'w" where
  "BoatPlatoneCallContractFunc = CallContractRlp"

definition BoatPlatoneWalletChangeNodeUrl ::
  "BoatWallet option \<Rightarrow> bytes option \<Rightarrow> unit res \<times> BoatWallet option" where
  "BoatPlatoneWalletChangeNodeUrl = WalletChangeNodeUrl"

definition BoatPlatoneWalletChangeChainID ::
  "BoatWallet option \<Rightarrow> u32 \<Rightarrow> unit res \<times> BoatWallet option" where
  "BoatPlatoneWalletChangeChainID = WalletChangeChainID"

definition BoatPlatoneWalletChangeEIP155Comp ::
  "BoatWallet option \<Rightarrow> u8 \<Rightarrow> unit res \<times> BoatWallet option" where
  "BoatPlatoneWalletChangeEIP155Comp = WalletChangeEIP155Comp"

subsection \<open>Numbers as HEX texts\<close>

text \<open>\<open>s\<close> is a HEX text with prefix, of at most 64 digits, for the number \<open>n\<close>.\<close>

definition hex_number :: "bytes \<Rightarrow> nat \<Rightarrow> bool" where
  "hex_number s n \<longleftrightarrow> (\<exists>d. (s = 48 # 120 # d \<or> s = 48 # 88 # d) \<and> d \<noteq> [] \<and> length d \<le> 64 \<and> is_hex d \<and> hex_val d = n)"

lemma trim0_be_min: "trim0 bs = be_min (be_val bs)"
proof (cases "trim0 bs = []")
  case True
  then have "be_val bs = 0" using be_val_zeros [of bs] by (simp add: trim0_def)
  with True show ?thesis by (simp add: be_min.simps [of 0])
next
  case False
  have v: "be_val (trim0 bs) = be_val bs" by (simp add: trim0_def be_val_dropWhile)
  have "0 < be_val bs"
    using be_val_lower [of "hd (trim0 bs)" "tl (trim0 bs)"] False trim0_hd [OF False] unfolding v [symmetric]
    by (cases "trim0 bs") (auto intro: less_le_trans [of 0 "256 ^ _"])
  then show ?thesis
    using be_trim_unique [of "trim0 bs" "be_min (be_val bs)"] be_min_hd False trim0_hd [OF False] by (simp add: v be_val_be_min)
qed

lemma put_max_ok:
  assumes "length b \<le> length (max_field f)" "length (max_field f) \<le> 32"
  obtains g where "put_max (b, length b) f = Inr g" "max_bytes g = b" "length (max_field g) = length (max_field f)" "max_fits g"
  using assms
  by (intro that [of "\<lparr>max_field = b @ drop (length b) (max_field f), max_field_len = of_nat (length b)\<rparr>"])
    (simp_all add: put_max_def buf_put_def max_bytes_def max_fits_def)

lemma hex_number_bin:
  assumes "hex_number s n"
  shows "UtilityHexToBin True 32 (Some s) TRIMBIN_LEFTTRIM True = (be_min n, length (be_min n))" "length (be_min n) \<le> 32"
proof -
  obtain d where d: "s = 48 # 120 # d \<or> s = 48 # 88 # d" "d \<noteq> []" "length d \<le> 64" "is_hex d" "hex_val d = n"
    using assms by (auto simp: hex_number_def)
  have h: "hex_digits s = d" using d(1,2) by (auto simp: hex_digits_def skip_0x_def)
  let ?p = "pack (hex_pad d)"
  have p: "be_val ?p = n" "length ?p \<le> 32"
    using pack_val [of "hex_pad d"] d(3,5) by (auto simp: hex_pad_def elim!: oddE)
  then have t: "trim0 ?p = be_min n" by (simp add: trim0_be_min)
  show l: "length (be_min n) \<le> 32"
    unfolding t [symmetric] using p(2) length_dropWhile_le [of "\<lambda>b. b = 0" ?p] by (simp add: trim0_def)
  show "UtilityHexToBin True 32 (Some s) TRIMBIN_LEFTTRIM True = (be_min n, length (be_min n))"
    using UtilityHexToBin_hex [of s 32 TRIMBIN_LEFTTRIM True] d(4) l by (simp add: h Let_def t)
qed

lemma hex_field_ok:
  assumes "hex_number s n" "length (max_field f) = 32"
  obtains g where "hex_field (Some s) f = Inr g" "max_bytes g = be_min n" "length (max_field g) = 32" "max_fits g"
proof -
  obtain g where "put_max (be_min n, length (be_min n)) f = Inr g" "max_bytes g = be_min n" "length (max_field g) = length (max_field f)"
    "max_fits g"
    using put_max_ok [of "be_min n" f] hex_number_bin(2) [OF assms(1)] assms(2) by auto
  then show ?thesis
    using that assms hex_number_bin(1) [OF assms(1)] by (simp add: hex_field_def)
qed

lemma Uint64_item:
  "UtilityUint64ToBigend x TRIMBIN_LEFTTRIM = (if x = 0 then [0] else be_min (unat x))"
proof -
  have "be_val (be_octets 8 x) = unat x" using unsigned_less [of x, where ?'a = nat] by (simp add: be_val_octets)
  moreover have "be_min n = [] \<longleftrightarrow> n = 0" for n using be_min_hd [of n] by (cases "n = 0") (auto simp: be_min.simps [of 0])
  ultimately show ?thesis by (simp add: Uint64_eq trim0_be_min unat_eq_zero)
qed

lemma hex_number_is_hex: "hex_number s n \<Longrightarrow> UtilityStringIsHex (Some s)"
  using string_checks [of s] by (auto simp: hex_number_def)

text \<open>The fields that an initialised transaction has: the buffers have their sizes.\<close>

definition sized_fields :: "'a BoatRawtxFields_scheme \<Rightarrow> bool" where
  "sized_fields raw \<longleftrightarrow> length (max_field (nonce raw)) = 32 \<and> length (max_field (gasprice raw)) = 32 \<and>
     length (max_field (gaslimit raw)) = 32 \<and> length (max_field (tx_value raw)) = 32 \<and> fields_ok raw \<and> rawtx_sized raw"

lemma zero_sized: "sized_fields zero_fields" "sized_fields zero_platone_fields"
  by (simp_all add: sized_fields_def zero_fields_def zero_platone_fields_def zero_max_def fields_ok_def max_fits_def var_fits_def
      rawtx_sized_def BoatRawtxFields.defs)

lemma zero_items: "eth_items zero_fields = [Str [], Str [], Str [], Str (replicate 20 0), Str [], Str []]"
  "eth_items zero_platone_fields = eth_items zero_fields"
  by (simp_all add: zero_fields_def zero_platone_fields_def zero_max_def eth_items_def max_bytes_def var_bytes_def BoatRawtxFields.defs)

subsection \<open>Filling a transaction\<close>

text \<open>The recipient \<open>a\<close>, 20 bytes, as a HEX text.\<close>

definition address_of :: "bytes \<Rightarrow> bytes \<Rightarrow> bool" where
  "address_of s a \<longleftrightarrow> (\<exists>d. (s = 48 # 120 # d \<or> s = 48 # 88 # d) \<and> length d = 40 \<and> is_hex d \<and> a = pack d)"

lemma address_of_facts:
  assumes "address_of s a"
  shows "UtilityStringIsHex (Some s)" "UtilityStringLenCheck s = 0" "length s = 42" "length a = 20"
    "UtilityHexToBin True 20 (Some s) TRIMBIN_TRIM_NO True = (a, 20)"
proof -
  obtain d where d: "s = 48 # 120 # d \<or> s = 48 # 88 # d" "length d = 40" "is_hex d" "a = pack d"
    using assms by (auto simp: address_of_def)
  have "d \<noteq> []" using d(2) by auto
  then have h: "hex_digits s = d" using d(1) by (auto simp: hex_digits_def skip_0x_def)
  show l: "length a = 20" using pack_val [of d] d(2,4) by simp
  show "UtilityStringIsHex (Some s)" "UtilityStringLenCheck s = 0" "length s = 42"
    using string_checks [of s] d by auto
  have "hex_pad d = d" using d(2) by (simp add: hex_pad_def)
  then show "UtilityHexToBin True 20 (Some s) TRIMBIN_TRIM_NO True = (a, 20)"
    using UtilityHexToBin_hex [of s 20 TRIMBIN_TRIM_NO True] d(3,4) l by (simp add: h Let_def)
qed

lemma put_all: "length b = length a \<Longrightarrow> buf_put a 0 b = Inr b"
  by (simp add: buf_put_def)

lemma raw_steps [simp]:
  "on_raw f (t, w) = (Inr (), t\<lparr>rawtx_fields := f (rawtx_fields t)\<rparr>, w)"
  "put_raw g (t, w) = (case g (rawtx_fields t) of Inl e \<Rightarrow> (Inl e, t, w) | Inr raw \<Rightarrow> (Inr (), t\<lparr>rawtx_fields := raw\<rparr>, w))"
  by (simp_all add: on_raw_def updS_def put_raw_def putS_def split: sum.split)

lemma init_gas_ok:
  assumes "hex_number p gp" "hex_number l gl" "length (max_field junk) = 32" "wallet_ptr t \<noteq> None"
  obtains g h where "init_gas pf api junk (Some p) (Some l) (t, w) =
      (Inr (), t\<lparr>rawtx_fields := (rawtx_fields t)\<lparr>gasprice := g, gaslimit := h\<rparr>\<rparr>, w)"
    "max_bytes g = be_min gp" "length (max_field g) = 32" "max_fits g"
    "max_bytes h = be_min gl" "length (max_field h) = 32" "max_fits h"
proof -
  obtain g where g: "hex_field (Some p) junk = Inr g" "max_bytes g = be_min gp" "length (max_field g) = 32" "max_fits g"
    by (rule hex_field_ok [OF assms(1,3)])
  obtain h where h: "hex_field (Some l) junk = Inr h" "max_bytes h = be_min gl" "length (max_field h) = 32" "max_fits h"
    by (rule hex_field_ok [OF assms(2,3)])
  have "init_gas pf api junk (Some p) (Some l) (t, w) = (Inr (), t\<lparr>rawtx_fields := (rawtx_fields t)\<lparr>gasprice := g, gaslimit := h\<rparr>\<rparr>, w)"
    using assms(4) g(1) h(1) by (auto simp: init_gas_def bindS_def liftS_def TxSetGasPrice_def needs_wallet_def TxSetGasLimit_def)
  then show ?thesis using g h that by blast
qed

lemma TxInit_ok:
  assumes "hex_number p gp" "hex_number l gl" "address_of r a" "length (max_field junk) = 32" "length junk_addr = 20"
  obtains g h where "TxInit pf api zero junk junk_addr (Some wl) (Some t) sync (Some p) (Some l) (Some r) w =
      (Inr (), Some (t\<lparr>wallet_ptr := Some wl, is_sync_tx := sync, rawtx_fields :=
         zero\<lparr>gasprice := g, gaslimit := h, recipient := a, tx_value := (tx_value zero)\<lparr>max_field_len := 0\<rparr>\<rparr>\<rparr>), w)"
    "max_bytes g = be_min gp" "length (max_field g) = 32" "max_fits g"
    "max_bytes h = be_min gl" "length (max_field h) = 32" "max_fits h"
proof -
  note r = address_of_facts [OF assms(3)]
  let ?t = "t\<lparr>wallet_ptr := Some wl, rawtx_fields := zero, is_sync_tx := sync\<rparr>"
  obtain g h where g: "init_gas pf api junk (Some p) (Some l) (?t, w) =
      (Inr (), ?t\<lparr>rawtx_fields := (rawtx_fields ?t)\<lparr>gasprice := g, gaslimit := h\<rparr>\<rparr>, w)"
    "max_bytes g = be_min gp" "length (max_field g) = 32" "max_fits g"
    "max_bytes h = be_min gl" "length (max_field h) = 32" "max_fits h"
    by (rule init_gas_ok [OF assms(1,2,4), of ?t pf api w]) simp_all
  have "init_args_ok (Some p) (Some l) r"
    using r hex_number_is_hex [OF assms(1)] hex_number_is_hex [OF assms(2)] by (simp add: init_args_ok_def)
  then have "TxInit pf api zero junk junk_addr (Some wl) (Some t) sync (Some p) (Some l) (Some r) w =
      (Inr (), Some (t\<lparr>wallet_ptr := Some wl, is_sync_tx := sync, rawtx_fields :=
         zero\<lparr>gasprice := g, gaslimit := h, recipient := a, tx_value := (tx_value zero)\<lparr>max_field_len := 0\<rparr>\<rparr>\<rparr>), w)"
    using r(4,5) assms(5) g(1)
    by (simp add: TxInit_def init_fields_def bindS_lift bindS_def liftS_def TxSetRecipient_def TxSetValue_def put_all buf_get_def)
  then show ?thesis using g that by blast
qed

text \<open>Nonce, value and data set one after the other.\<close>

lemma fill_ok:
  assumes "sized_fields raw" "rawtx_fields t = raw" "n \<noteq> BOAT_ETH_NONCE_AUTO" "max_fits v" "var_fits d" "wallet_ptr t \<noteq> None"
  obtains k where "TxSetNonce pf api n (t, w) = (Inr (), t\<lparr>rawtx_fields := raw\<lparr>nonce := k\<rparr>\<rparr>, w)"
    "fields_ok (raw\<lparr>nonce := k, tx_value := v, tx_data := d\<rparr>)" "rawtx_sized (raw\<lparr>nonce := k, tx_value := v, tx_data := d\<rparr>)"
    "eth_items (raw\<lparr>nonce := k, tx_value := v, tx_data := d\<rparr>) =
       [Str (if n = 0 then [0] else be_min (unat n)), Str (max_bytes (gasprice raw)), Str (max_bytes (gaslimit raw)), Str (recipient raw),
        Str (max_bytes v), Str (var_bytes d)]"
proof -
  let ?b = "UtilityUint64ToBigend n TRIMBIN_LEFTTRIM"
  have "length ?b \<le> 8"
    using length_dropWhile_le [of "\<lambda>b. b = 0" "be_octets 8 n"] by (simp add: Uint64_eq trim0_def)
  then obtain k where k: "put_max (?b, length ?b) (nonce raw) = Inr k" "max_bytes k = ?b" "max_fits k"
    using put_max_ok [of ?b "nonce raw"] assms(1) by (auto simp: sized_fields_def)
  show ?thesis
  proof (rule that [of k])
    show "TxSetNonce pf api n (t, w) = (Inr (), t\<lparr>rawtx_fields := raw\<lparr>nonce := k\<rparr>\<rparr>, w)"
      using assms(2,3,6) k(1) by (auto simp: TxSetNonce_def needs_wallet_def)
  qed (use assms(1,4,5) k in \<open>auto simp: sized_fields_def fields_ok_def rawtx_sized_def eth_items_def Uint64_item\<close>)
qed

subsection \<open>Values from the node\<close>

text \<open>The node answers every request for \<open>method\<close> with these parameters with a HEX text for \<open>n\<close>.\<close>

definition node_tells :: "'w Platform \<Rightarrow> bytes \<Rightarrow> 'w \<Rightarrow> string \<Rightarrow> json list \<Rightarrow> nat \<Rightarrow> bool" where
  "node_tells pf url w method params n \<longleftrightarrow>
     (\<forall>req i. json_parse req = Some (rpc_request method params i) \<longrightarrow>
        (\<exists>response str. fst (exchange (pf_rpc pf) url req w) = Inr (Some response) \<and> answers_with (pf_json pf) response [] str \<and>
           hex_number str n))"

lemma set_raw_connected: "connected (t\<lparr>rawtx_fields := raw\<rparr>) url c = connected t url c"
  by (simp add: connected_def)

lemma node_number:
  assumes pf: "platform_ok pf" "connected t url c" "request_ok q" "length (request_text q (web3_message_id c + 1)) < 2147483648"
    and call: "call = run_request (pf_rpc pf) (pf_malloc pf) q" "request_json q = rpc_request method params"
    and node: "node_tells pf url w method params n"
  obtains req response c1 c2 str where
    "ask_node (\<lambda>ctx u. call ctx u) (t, w) = (Inr (Some response), set_context (Some c1) t, snd (exchange (pf_rpc pf) url req w))"
    "read_answer pf response [] (set_context (Some c1) t, snd (exchange (pf_rpc pf) url req w)) =
       (Inr (Some str), set_context (Some c2) t, snd (exchange (pf_rpc pf) url req w))"
    "json_parse req = Some (rpc_request method params (web3_message_id c + 1))" "hex_number str n"
    "connected (set_context (Some c2) t) url c2" "web3_message_id c2 = web3_message_id c + 1"
proof -
  obtain req c1 where r: "ask_node (\<lambda>ctx u. call ctx u) (t, w) =
       (fst (exchange (pf_rpc pf) url req w), set_context (Some c1) t, snd (exchange (pf_rpc pf) url req w))"
    "json_parse req = Some (rpc_request method params (web3_message_id c + 1))" "connected (set_context (Some c1) t) url c1"
    "web3_message_id c1 = web3_message_id c + 1"
    unfolding call(1) call(2) [symmetric] by (rule ask_ok [OF pf])
  obtain response str where a: "fst (exchange (pf_rpc pf) url req w) = Inr (Some response)"
    "answers_with (pf_json pf) response [] str" "hex_number str n"
    using node r(2) unfolding node_tells_def by blast
  obtain c2 where c2: "read_answer pf response [] (set_context (Some c1) t, snd (exchange (pf_rpc pf) url req w)) =
      (Inr (Some str), set_context (Some c2) (set_context (Some c1) t), snd (exchange (pf_rpc pf) url req w))"
    "connected (set_context (Some c2) (set_context (Some c1) t)) url c2" "web3_message_id c2 = web3_message_id c1"
    by (rule read_answer_ok [OF pf(1) r(3) a(2)])
  show ?thesis
    by (rule that [of response c1 req str c2]) (use r a c2 in \<open>simp_all add: set_context_twice\<close>)
qed

lemma nonce_auto:
  assumes pf: "platform_ok pf" "connected t url c" "length (max_field (nonce (rawtx_fields t))) = 32"
    and api: "plain (chars (api_nonce_method api))" "length (api_nonce_method api) < 100" "api_address api t = Inr addr" "plain addr"
      "length addr < 1000"
    and node: "node_tells pf url w (api_nonce_method api) [JStr addr, JStr (chars ''latest'')] n"
  obtains req c' g where
    "TxSetNonce pf api BOAT_ETH_NONCE_AUTO (t, w) = (Inr (), (set_context (Some c') t)\<lparr>rawtx_fields := (rawtx_fields t)\<lparr>nonce := g\<rparr>\<rparr>,
       snd (exchange (pf_rpc pf) url req w))"
    "json_parse req = Some (rpc_request (api_nonce_method api) [JStr addr, JStr (chars ''latest'')] (web3_message_id c + 1))"
    "connected (set_context (Some c') t) url c'" "web3_message_id c' = web3_message_id c + 1"
    "max_bytes g = be_min n" "length (max_field g) = 32" "max_fits g"
proof -
  let ?q = "GetTransactionCount \<lparr>gtc_method_name_str = chars (api_nonce_method api), gtc_address_str = addr,
     gtc_block_num_str = chars ''latest''\<rparr>"
  have q: "request_ok ?q" "request_json ?q = rpc_request (api_nonce_method api) [JStr addr, JStr (chars ''latest'')]"
    using api(1,4) by (simp_all add: request_ok_def plain_def chars_def request_json_def rpc_request_def fun_eq_iff)
  have size: "length (request_text ?q (web3_message_id c + 1)) < 2147483648"
    using api(2,5) dec_text_length [of "web3_message_id c + 1"]
    by (simp add: request_text_def request_json_def request_sep_def quoted_def chars_def)
  have e: "(\<lambda>ctx url. web3_getTransactionCount (pf_rpc pf) (pf_malloc pf) ctx url
                   (Some \<lparr>gtc_method_name_str = chars (api_nonce_method api), gtc_address_str = addr,
                          gtc_block_num_str = chars ''latest''\<rparr>)) = run_request (pf_rpc pf) (pf_malloc pf) ?q"
    by (intro ext) simp
  obtain req response c1 c2 str where r:
    "ask_node (run_request (pf_rpc pf) (pf_malloc pf) ?q) (t, w) =
       (Inr (Some response), set_context (Some c1) t, snd (exchange (pf_rpc pf) url req w))"
    "read_answer pf response [] (set_context (Some c1) t, snd (exchange (pf_rpc pf) url req w)) =
       (Inr (Some str), set_context (Some c2) t, snd (exchange (pf_rpc pf) url req w))"
    "json_parse req = Some (rpc_request (api_nonce_method api) [JStr addr, JStr (chars ''latest'')] (web3_message_id c + 1))"
    "hex_number str n" "connected (set_context (Some c2) t) url c2" "web3_message_id c2 = web3_message_id c + 1"
    by (rule node_number [OF pf(1,2) q(1) size refl q(2) node])
  obtain g where g: "hex_field (Some str) (nonce (rawtx_fields t)) = Inr g" "max_bytes g = be_min n" "length (max_field g) = 32" "max_fits g"
    by (rule hex_field_ok [OF r(4) pf(3)])
  have "wallet_ptr t \<noteq> None" using pf(2) by (auto simp: connected_def)
  then have "TxSetNonce pf api BOAT_ETH_NONCE_AUTO (t, w) = (Inr (), (set_context (Some c2) t)\<lparr>rawtx_fields := (rawtx_fields t)\<lparr>nonce := g\<rparr>\<rparr>,
       snd (exchange (pf_rpc pf) url req w))"
    using r(1,2) g(1) api(3) by (simp add: TxSetNonce_def needs_wallet_def e bindS_def liftS_def)
  then show ?thesis using r g by (intro that)
qed

lemma gas_price_auto:
  assumes pf: "platform_ok pf" "connected t url c" "length (max_field (gasprice (rawtx_fields t))) = 32"
    and api: "plain (chars (api_gasprice_method api))" "length (api_gasprice_method api) < 100"
    and node: "node_tells pf url w (api_gasprice_method api) [] n"
  obtains req c' g where
    "TxSetGasPrice pf api None (t, w) = (Inr (), (set_context (Some c') t)\<lparr>rawtx_fields := (rawtx_fields t)\<lparr>gasprice := g\<rparr>\<rparr>,
       snd (exchange (pf_rpc pf) url req w))"
    "json_parse req = Some (rpc_request (api_gasprice_method api) [] (web3_message_id c + 1))"
    "connected (set_context (Some c') t) url c'" "web3_message_id c' = web3_message_id c + 1"
    "max_bytes g = be_min n" "length (max_field g) = 32" "max_fits g"
proof -
  let ?q = "GasPrice (chars (api_gasprice_method api))"
  have q: "request_ok ?q" "request_json ?q = rpc_request (api_gasprice_method api) []"
    using api(1) by (simp_all add: request_ok_def plain_def chars_def request_json_def rpc_request_def fun_eq_iff)
  have size: "length (request_text ?q (web3_message_id c + 1)) < 2147483648"
    using api(2) dec_text_length [of "web3_message_id c + 1"]
    by (simp add: request_text_def request_json_def request_sep_def quoted_def chars_def)
  have e: "(\<lambda>ctx url. web3_gasPrice (pf_rpc pf) (pf_malloc pf) ctx url (chars (api_gasprice_method api))) =
      run_request (pf_rpc pf) (pf_malloc pf) ?q"
    by (intro ext) simp
  obtain req response c1 c2 str where r:
    "ask_node (run_request (pf_rpc pf) (pf_malloc pf) ?q) (t, w) =
       (Inr (Some response), set_context (Some c1) t, snd (exchange (pf_rpc pf) url req w))"
    "read_answer pf response [] (set_context (Some c1) t, snd (exchange (pf_rpc pf) url req w)) =
       (Inr (Some str), set_context (Some c2) t, snd (exchange (pf_rpc pf) url req w))"
    "json_parse req = Some (rpc_request (api_gasprice_method api) [] (web3_message_id c + 1))"
    "hex_number str n" "connected (set_context (Some c2) t) url c2" "web3_message_id c2 = web3_message_id c + 1"
    by (rule node_number [OF pf(1,2) q(1) size refl q(2) node])
  obtain g where g: "hex_field (Some str) (gasprice (rawtx_fields t)) = Inr g" "max_bytes g = be_min n" "length (max_field g) = 32" "max_fits g"
    by (rule hex_field_ok [OF r(4) pf(3)])
  have "wallet_ptr t \<noteq> None" using pf(2) by (auto simp: connected_def)
  then have "TxSetGasPrice pf api None (t, w) = (Inr (), (set_context (Some c2) t)\<lparr>rawtx_fields := (rawtx_fields t)\<lparr>gasprice := g\<rparr>\<rparr>,
       snd (exchange (pf_rpc pf) url req w))"
    using r(1,2) g(1) by (simp add: TxSetGasPrice_def needs_wallet_def e bindS_def catchS_def)
  then show ?thesis using r g by (intro that)
qed

subsection \<open>Sending\<close>

text \<open>A wallet with a usable client and a URL.\<close>

definition opened :: "BoatWallet \<Rightarrow> bytes \<Rightarrow> Web3IntfContext \<Rightarrow> bool" where
  "opened wl url c \<longleftrightarrow> web3intf_context_ptr wl = Some c \<and> c_string (node_url_str (network_info wl)) = Inr url \<and>
     buf_sized (web3_json_string_buf c) \<and> buf_sized (web3_result_string_buf c)"

lemma opened_connected: "wallet_ptr t = Some wl \<Longrightarrow> connected t url c \<longleftrightarrow> opened wl url c"
  by (auto simp: connected_def opened_def)

lemma same_account [simp]:
  "signed_with pf (wl\<lparr>web3intf_context_ptr := x\<rparr>) m sg = signed_with pf wl m sg"
  "uses_eip155 (wl\<lparr>web3intf_context_ptr := x\<rparr>) = uses_eip155 wl" "wallet_chain (wl\<lparr>web3intf_context_ptr := x\<rparr>) = wallet_chain wl"
  "chain_ok (wl\<lparr>web3intf_context_ptr := x\<rparr>) = chain_ok wl"
  by (simp_all add: signed_with_def uses_eip155_def wallet_chain_def chain_ok_def)

lemma eth_sent:
  assumes "platform_ok pf" "wallet_ptr t = Some wl" "opened wl url c" "fields_ok (rawtx_fields t)" "rawtx_sized (rawtx_fields t)"
    "length (max_field (tx_hash t)) = 32" "uses_eip155 wl \<Longrightarrow> chain_ok wl"
    "signed_with pf wl (unsigned_tx (uses_eip155 wl) (wallet_chain wl) (eth_items (rawtx_fields t))) sg"
    "node_accepts pf url w txid"
  obtains req t' where "EthSendRawtx pf (Some t) w = (Inr (), Some t', snd (exchange (pf_rpc pf) url req w))"
    "json_parse req = Some (rpc_request ''eth_sendRawTransaction'' [JStr (hex_text (sent_tx wl (eth_items (rawtx_fields t)) sg))] (web3_message_id c + 1))"
    "tx_hash t' = \<lparr>max_field = txid req, max_field_len = 32\<rparr>"
proof -
  have "ready t wl c url" using assms(2,3,5,6) by (simp add: ready_def opened_def)
  note e = eth_items_ok [OF assms(4), of eth_program] eth_items_size [OF assms(4)]
  have "\<exists>req t'. SendRawtx (pf_json pf) (pf_malloc pf) (pf_list_ok pf) (pf_hash pf) (pf_sign pf) eth_program
         (send_raw pf ''eth_sendRawTransaction'') (Some t) w = (Inr (), Some t', snd (exchange (pf_rpc pf) url req w)) \<and>
       json_parse req = Some (rpc_request ''eth_sendRawTransaction''
         [JStr (hex_text (sent_tx wl (eth_items (rawtx_fields t)) sg))] (web3_message_id c + 1)) \<and>
       tx_hash t' = \<lparr>max_field = txid req, max_field_len = 32\<rparr>"
    using raw_sender_ok [of eth_program pf t wl c url "uses_eip155 wl" sg w txid "''eth_sendRawTransaction''"]
      programs_tx(1) assms(1,7,8) \<open>ready t wl c url\<close> e methods_plain(1) node_acceptsD [OF assms(9)]
    by (simp add: eth_program_def del: rlp_enc.simps)
  then show ?thesis using that unfolding EthSendRawtx_def by blast
qed

lemma async_send:
  assumes "EthSendRawtx pf (Some t) w = (r, Some t', w')" "wallet_ptr t \<noteq> None" "\<not> is_sync_tx t"
  shows "TxSend pf (eth_api pf sleep) (t, w) = (r, t', w')"
  using assms by (cases "wallet_ptr t") (simp_all add: TxSend_def needs_wallet_def send_tx_def eth_api_def)

subsection \<open>Properties\<close>

text \<open>
  C1: From HEX texts to the chain: an application that initialises an Ethereum transaction with HEX texts for gas price, gas limit and
  recipient, sets nonce, value and data and sends it, posts to the wallet's node one eth_sendRawTransaction whose RLP list holds exactly these
  numbers in their shortest big-endian form, the 20 bytes of the recipient, the value and the data, and the signature over them. The
  exception is the nonce 0, for which the list holds a zero byte in place of the empty string.
\<close>

theorem order_sent:
  assumes "platform_ok pf" "opened wl url c" "length (max_field (tx_hash t)) = 32" "length (max_field junk) = 32" "length junk_addr = 20"
    "hex_number p price" "hex_number l limit" "address_of r a" "n \<noteq> BOAT_ETH_NONCE_AUTO" "max_fits v" "var_fits d"
    "uses_eip155 wl \<Longrightarrow> chain_ok wl"
    "items = [Str (if n = 0 then [0] else be_min (unat n)), Str (be_min price), Str (be_min limit), Str a, Str (max_bytes v), Str (var_bytes d)]"
    "signed_with pf wl (unsigned_tx (uses_eip155 wl) (wallet_chain wl) items) sg" "node_accepts pf url w txid"
  shows "\<exists>t1 t2 t3 t4 t5 req.
     BoatEthTxInit pf sleep junk junk_addr (Some wl) (Some t) False (Some p) (Some l) (Some r) w = (Inr (), Some t1, w) \<and>
     BoatEthTxSetNonce pf sleep n (Some t1) w = (Inr (), Some t2, w) \<and>
     BoatEthTxSetValue (Some v) (Some t2) w = (Inr (), Some t3, w) \<and>
     BoatEthTxSetData (Some d) (Some t3) w = (Inr (), Some t4, w) \<and>
     BoatEthTxSend pf sleep (Some t4) w = (Inr (), Some t5, snd (exchange (pf_rpc pf) url req w)) \<and>
     json_parse req = Some (rpc_request ''eth_sendRawTransaction'' [JStr (hex_text (sent_tx wl items sg))] (web3_message_id c + 1)) \<and>
     tx_hash t5 = \<lparr>max_field = txid req, max_field_len = 32\<rparr>"
proof -
  obtain g h where i: "TxInit pf (eth_api pf sleep) zero_fields junk junk_addr (Some wl) (Some t) False (Some p) (Some l) (Some r) w =
      (Inr (), Some (t\<lparr>wallet_ptr := Some wl, is_sync_tx := False, rawtx_fields :=
         zero_fields\<lparr>gasprice := g, gaslimit := h, recipient := a, tx_value := (tx_value zero_fields)\<lparr>max_field_len := 0\<rparr>\<rparr>\<rparr>), w)"
    "max_bytes g = be_min price" "length (max_field g) = 32" "max_fits g"
    "max_bytes h = be_min limit" "length (max_field h) = 32" "max_fits h"
    by (rule TxInit_ok [OF assms(6-8,4,5)])
  let ?r1 = "zero_fields\<lparr>gasprice := g, gaslimit := h, recipient := a, tx_value := (tx_value zero_fields)\<lparr>max_field_len := 0\<rparr>\<rparr>"
  let ?t1 = "t\<lparr>wallet_ptr := Some wl, is_sync_tx := False, rawtx_fields := ?r1\<rparr>"
  have sized: "sized_fields ?r1"
    using i(3,4,6,7) address_of_facts(4) [OF assms(8)] zero_sized(1)
    by (simp add: sized_fields_def fields_ok_def rawtx_sized_def max_fits_def)
  obtain k where k: "TxSetNonce pf (eth_api pf sleep) n (?t1, w) = (Inr (), ?t1\<lparr>rawtx_fields := ?r1\<lparr>nonce := k\<rparr>\<rparr>, w)"
    "fields_ok (?r1\<lparr>nonce := k, tx_value := v, tx_data := d\<rparr>)" "rawtx_sized (?r1\<lparr>nonce := k, tx_value := v, tx_data := d\<rparr>)"
    "eth_items (?r1\<lparr>nonce := k, tx_value := v, tx_data := d\<rparr>) = [Str (if n = 0 then [0] else be_min (unat n)),
       Str (max_bytes (gasprice ?r1)), Str (max_bytes (gaslimit ?r1)), Str (recipient ?r1), Str (max_bytes v), Str (var_bytes d)]"
    by (rule fill_ok [OF sized _ assms(9-11), of ?t1 pf "eth_api pf sleep" w]) simp_all
  let ?r4 = "?r1\<lparr>nonce := k, tx_value := v, tx_data := d\<rparr>"
  let ?t2 = "?t1\<lparr>rawtx_fields := ?r1\<lparr>nonce := k\<rparr>\<rparr>" and ?t3 = "?t1\<lparr>rawtx_fields := ?r1\<lparr>nonce := k, tx_value := v\<rparr>\<rparr>"
  let ?t4 = "?t1\<lparr>rawtx_fields := ?r4\<rparr>"
  have it: "eth_items ?r4 = items" using assms(13) k(4) i(2,5) by simp
  obtain req t5 where s: "EthSendRawtx pf (Some ?t4) w = (Inr (), Some t5, snd (exchange (pf_rpc pf) url req w))"
    "json_parse req = Some (rpc_request ''eth_sendRawTransaction'' [JStr (hex_text (sent_tx wl items sg))] (web3_message_id c + 1))"
    "tx_hash t5 = \<lparr>max_field = txid req, max_field_len = 32\<rparr>"
  proof (rule eth_sent [of pf ?t4 wl url c sg w txid])
    show "signed_with pf wl (unsigned_tx (uses_eip155 wl) (wallet_chain wl) (eth_items (rawtx_fields ?t4))) sg"
      using assms(14) it by simp
  qed (use assms(1-3,12,15) k(2,3) it in \<open>auto simp del: rlp_enc.simps\<close>)
  have "BoatEthTxSetNonce pf sleep n (Some ?t1) w = (Inr (), Some ?t2, w)"
    using k(1) by (simp add: BoatEthTxSetNonce_def with_tx_def)
  moreover have "BoatEthTxSetValue (Some v) (Some ?t2) w = (Inr (), Some ?t3, w)"
    "BoatEthTxSetData (Some d) (Some ?t3) w = (Inr (), Some ?t4, w)"
    by (simp_all add: BoatEthTxSetValue_def BoatEthTxSetData_def with_tx_def TxSetValue_def TxSetData_def)
  moreover have "BoatEthTxSend pf sleep (Some ?t4) w = (Inr (), Some t5, snd (exchange (pf_rpc pf) url req w))"
    using async_send [OF s(1)] by (simp add: BoatEthTxSend_def with_tx_def)
  ultimately show ?thesis
    using i(1) s(2,3) unfolding BoatEthTxInit_def by blast
qed

lemma address_of_hex_text: "length a = 20 \<Longrightarrow> address_of (hex_text a) a"
  by (auto simp: address_of_def hex_text_def is_hex_string pack_hex_string intro!: exI [of _ "hex_string a"])

lemma hex_number_hex_text: "a \<noteq> [] \<Longrightarrow> length a \<le> 32 \<Longrightarrow> hex_number (hex_text a) (be_val a)"
proof -
  assume a: "a \<noteq> []" "length a \<le> 32"
  then have "hex_string a \<noteq> []" using length_hex_string [of a] by (metis length_0_conv mult_eq_0_iff zero_neq_numeral)
  then show ?thesis
    using a(2) is_hex_string [of a] hex_val_hex_string [of a] unfolding hex_number_def hex_text_def
    by (intro exI [of _ "hex_string a"]) simp
qed

lemma sample_texts: "hex_number [48, 120, 50] 2" "hex_number [48, 120, 51, 48, 48] 768"
  by (simp_all add: hex_number_def is_hex_def hex_half_def nib_def)

lemma sample_opened: "opened sample_wallet [104] sample_context" "length (max_field (tx_hash sample_tx)) = 32"
  using sample_facts(2) by (simp_all add: ready_def opened_def)

theorem order_sent_witness:
  "\<exists>t1 t2 t3 t4 t5 req.
     BoatEthTxInit sample_platform id (zero_max 32) (replicate 20 0) (Some sample_wallet) (Some sample_tx) False (Some [48, 120, 50])
       (Some [48, 120, 51, 48, 48]) (Some (hex_text (replicate 20 6))) [] = (Inr (), Some t1, []) \<and>
     BoatEthTxSetNonce sample_platform id 0 (Some t1) [] = (Inr (), Some t2, []) \<and>
     BoatEthTxSetValue (Some (zero_max 32)) (Some t2) ([] :: bytes list) = (Inr (), Some t3, []) \<and>
     BoatEthTxSetData (Some \<lparr>field_ptr = Some [1, 2], field_len = 2\<rparr>) (Some t3) ([] :: bytes list) = (Inr (), Some t4, []) \<and>
     BoatEthTxSend sample_platform id (Some t4) [] = (Inr (), Some t5, [req]) \<and>
     json_parse req = Some (rpc_request ''eth_sendRawTransaction'' [JStr (hex_text (sent_tx sample_wallet
       [Str [0], Str (be_min 2), Str (be_min 768), Str (replicate 20 6), Str [], Str [1, 2]] sample_signature))] 7) \<and>
     tx_hash t5 = \<lparr>max_field = replicate 32 3, max_field_len = 32\<rparr>"
proof -
  have snd: "[req] = snd (exchange (pf_rpc sample_platform) [104] req [])" for req using sample_facts(8) by simp
  have u: "sent_tx sample_wallet items sg = rlp_enc (signed_by (uses_eip155 sample_wallet) (wallet_chain sample_wallet) items sg)" for items sg
    by (rule refl)
  have seven: "(7 :: u32) = web3_message_id sample_context + 1" by simp
  show ?thesis
    unfolding snd seven
    by (rule order_sent [of sample_platform sample_wallet "[104]" sample_context sample_tx "zero_max 32" "replicate 20 0" "[48, 120, 50]" 2
      "[48, 120, 51, 48, 48]" 768 "hex_text (replicate 20 6)" "replicate 20 6" 0 "zero_max 32" "\<lparr>field_ptr = Some [1, 2], field_len = 2\<rparr>"
      "[Str [0], Str (be_min 2), Str (be_min 768), Str (replicate 20 6), Str [], Str [1, 2]]" sample_signature "[]"
      "\<lambda>req. replicate 32 3" id])
      (use sample_facts sample_opened sample_texts address_of_hex_text [of "replicate 20 6"] in
        \<open>simp_all add: zero_max_def max_fits_def var_fits_def max_bytes_def var_bytes_def\<close>)
qed

text \<open>
  C10: \<open>BoatEthTransfer\<close> asks the node for the transaction count of the wallet's address and then sends one transaction, whose nonce is
  that count and whose value is the number of the HEX text, without data; the signature covers just these fields. The hash of the
  transaction is the node's answer to the second request.
\<close>

theorem transfer_sent:
  assumes "platform_ok pf" "wallet_ptr t = Some wl" "opened wl url c" "sized_fields (rawtx_fields t)" "\<not> is_sync_tx t"
    "length (max_field (tx_hash t)) = 32" "length (account_address (account_info wl)) = 20" "length (max_field junk) = 32"
    "hex_number amount_text amount" "uses_eip155 wl \<Longrightarrow> chain_ok wl"
    "node_tells pf url w ''eth_getTransactionCount'' [JStr (hex_text (account_address (account_info wl))), JStr (chars ''latest'')] count"
    "\<And>req. node_accepts pf url (snd (exchange (pf_rpc pf) url req w)) txid"
    "items = [Str (be_min count), Str (max_bytes (gasprice (rawtx_fields t))), Str (max_bytes (gaslimit (rawtx_fields t))),
       Str (recipient (rawtx_fields t)), Str (be_min amount), Str []]"
    "signed_with pf wl (unsigned_tx (uses_eip155 wl) (wallet_chain wl) items) sg"
  shows "\<exists>req1 req2 t'. BoatEthTransfer pf sleep junk (Some amount_text) (Some t) w =
       (Inr (), Some t', snd (exchange (pf_rpc pf) url req2 (snd (exchange (pf_rpc pf) url req1 w)))) \<and>
     json_parse req1 = Some (rpc_request ''eth_getTransactionCount''
       [JStr (hex_text (account_address (account_info wl))), JStr (chars ''latest'')] (web3_message_id c + 1)) \<and>
     json_parse req2 = Some (rpc_request ''eth_sendRawTransaction'' [JStr (hex_text (sent_tx wl items sg))] (web3_message_id c + 2)) \<and>
     tx_hash t' = \<lparr>max_field = txid req2, max_field_len = 32\<rparr>"
proof -
  let ?api = "eth_api pf sleep" and ?raw = "rawtx_fields t" and ?a = "hex_text (account_address (account_info wl))"
  have con: "connected t url c" using assms(2,3) opened_connected by blast
  have ne: "account_address (account_info wl) \<noteq> []" using assms(7) by auto
  have none: "api_transfer_data ?api = None" by (simp add: eth_api_def)
  have addr: "api_address ?api t = Inr ?a" "api_nonce_method ?api = ''eth_getTransactionCount''"
    using assms(2) ne by (simp_all add: eth_api_def own_address_def address_text_eq)
  have size: "length (max_field (nonce ?raw)) = 32" using assms(4) by (simp add: sized_fields_def)
  obtain req1 c1 k where n: "TxSetNonce pf ?api BOAT_ETH_NONCE_AUTO (t, w) =
      (Inr (), (set_context (Some c1) t)\<lparr>rawtx_fields := ?raw\<lparr>nonce := k\<rparr>\<rparr>, snd (exchange (pf_rpc pf) url req1 w))"
    "json_parse req1 = Some (rpc_request ''eth_getTransactionCount'' [JStr ?a, JStr (chars ''latest'')] (web3_message_id c + 1))"
    "connected (set_context (Some c1) t) url c1" "web3_message_id c1 = web3_message_id c + 1"
    "max_bytes k = be_min count" "length (max_field k) = 32" "max_fits k"
    by (rule nonce_auto [OF assms(1) con size, of ?api ?a w count, unfolded addr(2)])
      (use assms(7,11) hex_text_plain(1,3) [of "account_address (account_info wl)"] addr(1) in \<open>simp_all add: plain_def chars_def\<close>)
  obtain v where v: "hex_field (Some amount_text) junk = Inr v" "max_bytes v = be_min amount" "length (max_field v) = 32" "max_fits v"
    by (rule hex_field_ok [OF assms(9,8)])
  let ?r = "?raw\<lparr>nonce := k, tx_value := v, tx_data := (tx_data ?raw)\<lparr>field_len := 0\<rparr>\<rparr>"
  let ?t = "(set_context (Some c1) t)\<lparr>rawtx_fields := ?r\<rparr>" and ?w = "snd (exchange (pf_rpc pf) url req1 w)"
  let ?wl = "wl\<lparr>web3intf_context_ptr := Some c1\<rparr>"
  have wl: "wallet_ptr ?t = Some ?wl" "opened ?wl url c1"
    using assms(2) n(3) opened_connected [of "set_context (Some c1) t" ?wl url c1] by (simp_all add: set_context_def)
  have ok: "fields_ok ?r" "rawtx_sized ?r"
    using assms(4) n(7) v(4) by (auto simp: sized_fields_def fields_ok_def rawtx_sized_def var_fits_def split: option.splits)
  have it: "eth_items ?r = items"
    using n(5) v(2) assms(13) by (simp add: eth_items_def var_bytes_def split: option.split)
  obtain req2 t' where s: "EthSendRawtx pf (Some ?t) ?w = (Inr (), Some t', snd (exchange (pf_rpc pf) url req2 ?w))"
    "json_parse req2 = Some (rpc_request ''eth_sendRawTransaction'' [JStr (hex_text (sent_tx wl items sg))] (web3_message_id c + 2))"
    "tx_hash t' = \<lparr>max_field = txid req2, max_field_len = 32\<rparr>"
  proof (rule eth_sent [of pf ?t ?wl url c1 sg ?w txid])
    show "signed_with pf ?wl (unsigned_tx (uses_eip155 ?wl) (wallet_chain ?wl) (eth_items (rawtx_fields ?t))) sg"
      using assms(14) it by simp
    fix req2 t'
    assume "EthSendRawtx pf (Some ?t) ?w = (Inr (), Some t', snd (exchange (pf_rpc pf) url req2 ?w))"
      "json_parse req2 = Some (rpc_request ''eth_sendRawTransaction'' [JStr (hex_text (sent_tx ?wl (eth_items (rawtx_fields ?t)) sg))] (web3_message_id c1 + 1))"
      "tx_hash t' = \<lparr>max_field = txid req2, max_field_len = 32\<rparr>"
    then show thesis using it n(4) by (intro that [of t' req2]) (simp_all add: add.commute del: rlp_enc.simps)
  qed (use assms(1,6,10,12) wl ok in simp_all)
  have "TxSend pf ?api (?t, ?w) = (Inr (), t', snd (exchange (pf_rpc pf) url req2 ?w))"
    using async_send [OF s(1)] wl(1) assms(5) by simp
  then have "BoatEthTransfer pf sleep junk (Some amount_text) (Some t) w = (Inr (), Some t', snd (exchange (pf_rpc pf) url req2 ?w))"
    using n(1) v(1) assms(2)
    by (simp add: BoatEthTransfer_def with_tx_def Transfer_def needs_wallet_def bindS_def liftS_def TxSetValue_def TxSetData_def none)
  with n(2) s(2,3) show ?thesis by blast
qed

lemma sample_tells: "node_tells sample_platform url ws method params (be_val (replicate 32 3))"
proof -
  have "answers_with (pf_json sample_platform) [123] [] (hex_text (replicate 32 3))"
    using hex_text_plain(2,3) [of "replicate 32 3"] by (simp add: answers_with_def sample_platform_def)
  then show ?thesis
    using sample_facts(8) [of url _ ws] hex_number_hex_text [of "replicate 32 3"] unfolding node_tells_def by fastforce
qed

definition sample_transfer_tx :: "BoatRawtxFields BoatTx" where
  "sample_transfer_tx = sample_tx\<lparr>rawtx_fields := zero_fields\<rparr>"

theorem transfer_sent_witness:
  "\<exists>req1 req2 t'. BoatEthTransfer sample_platform id (zero_max 32) (Some [48, 120, 50]) (Some sample_transfer_tx) [] = (Inr (), Some t', [req2, req1]) \<and>
     json_parse req1 = Some (rpc_request ''eth_getTransactionCount'' [JStr (hex_text (replicate 20 1)), JStr (chars ''latest'')] 7) \<and>
     json_parse req2 = Some (rpc_request ''eth_sendRawTransaction'' [JStr (hex_text (sent_tx sample_wallet
       [Str (be_min (be_val (replicate 32 3))), Str [], Str [], Str (replicate 20 0), Str (be_min 2), Str []] sample_signature))] 8) \<and>
     tx_hash t' = \<lparr>max_field = replicate 32 3, max_field_len = 32\<rparr>"
proof -
  have z: "max_bytes (gasprice zero_fields) = []" "max_bytes (gaslimit zero_fields) = []" "recipient zero_fields = replicate 20 0"
    by (simp_all add: zero_fields_def zero_max_def max_bytes_def)
  have a: "account_address (account_info sample_wallet) = replicate 20 1" by (simp add: sample_wallet_def)
  have t: "wallet_ptr sample_transfer_tx = Some sample_wallet" "rawtx_fields sample_transfer_tx = zero_fields" "\<not> is_sync_tx sample_transfer_tx"
    "length (max_field (tx_hash sample_transfer_tx)) = 32"
    by (simp_all add: sample_transfer_tx_def sample_tx_def)
  show ?thesis
    using transfer_sent [of sample_platform sample_transfer_tx sample_wallet "[104]" sample_context "zero_max 32" "[48, 120, 50]" 2 "[]"
        "be_val (replicate 32 3)" "\<lambda>req. replicate 32 3"
        "[Str (be_min (be_val (replicate 32 3))), Str [], Str [], Str (replicate 20 0), Str (be_min 2), Str []]" sample_signature id]
      sample_facts sample_opened sample_texts sample_tells t zero_sized
    by (simp add: a z zero_max_def del: rlp_enc.simps replicate.simps be_val_Cons numeral_eq_Suc)
qed

text \<open>
  C11: Waiting for a receipt: when the node has the receipt of the transaction from the \<open>n\<close>-th poll on, \<open>n\<close> less than 10, the wait ends
  with success right after the poll that gets it, whatever status the receipt has; otherwise it gives up after exactly ten polls and
  reports the transaction as pending. The transaction itself is left as it is.
\<close>

theorem receipt_reported:
  assumes "get_receipt \<in> {BoatEthGetTransactionReceipt pf sleep, BoatVenachainGetTransactionReceipt pf sleep}"
    "platform_ok pf" "wallet_ptr t = Some wl" "opened wl url c" "max_fits (tx_hash t)" "counts_requests (pf_rpc pf) sleep clock"
    "receipt_after pf url clock (clock w + n) ''eth_getTransactionReceipt'' (address_text (max_bytes (tx_hash t)))"
  shows "\<exists>t' w'. get_receipt (Some t) w = (if n < 10 then Inr () else Inl (Err BOAT_ERROR_COMMON_TX_PENDING), Some t', w') \<and>
     clock w' = clock w + (if n < 10 then n + 1 else 10) \<and> rawtx_fields t' = rawtx_fields t \<and> tx_hash t' = tx_hash t"
proof -
  have con: "connected t url c" using assms(3,4) opened_connected by blast
  have "\<exists>t' w'. TxGetReceipt pf api (t, w) = (if n < 10 then Inr () else Inl (Err BOAT_ERROR_COMMON_TX_PENDING), t', w') \<and>
     clock w' = clock w + (if n < 10 then n + 1 else 10) \<and> rawtx_fields t' = rawtx_fields t \<and> tx_hash t' = tx_hash t"
    if a: "api_sleep api = sleep" "api_receipt_method api = ''eth_getTransactionReceipt''" "api_interval api = 3" for api
  proof -
    obtain c' w' where "TxGetReceipt pf api (t, w) =
        (if clock w + n \<le> clock w + 9 then Inr () else Inl (Err BOAT_ERROR_COMMON_TX_PENDING), set_context (Some c') t, w')"
      "clock w' = (if clock w + n \<le> clock w + 9 then max (clock w + n) (clock w) + 1 else clock w + Suc 9)"
      by (rule TxGetReceipt_ok [where k = 9 and api = api and w = w, unfolded a, OF assms(2,6,7)])
        (use con assms(5) in \<open>simp_all add: plain_def chars_def\<close>)
    then show ?thesis by (intro exI [of _ "set_context (Some c') t"] exI [of _ w']) auto
  qed
  from this [of "eth_api pf sleep"] this [of "venachain_api pf sleep"] show ?thesis
    using assms(1)
    by (auto simp: BoatEthGetTransactionReceipt_def BoatVenachainGetTransactionReceipt_def unchecked_tx_def eth_api_def venachain_api_def)
qed

text \<open>A node that answers the first two requests with null and then with a receipt.\<close>

definition receipt_platform :: "bytes list Platform" where
  "receipt_platform = sample_platform
     \<lparr>pf_rpc := \<lparr>request_set = \<lambda>u s. (0, s), request_sync = \<lambda>m s. ((0, Some [if length s < 2 then 1 else 2]), m # s)\<rparr>,
      pf_json := \<lambda>r. Some (cJSON_Object [(chars ''result'', if r = [1] then cJSON_Null
        else cJSON_Object [(chars ''status'', cJSON_String [48, 120, 48])])])\<rparr>"

lemma receipt_platform_facts:
  "platform_ok receipt_platform" "counts_requests (pf_rpc receipt_platform) id length"
  "receipt_after receipt_platform url length 2 method hash"
proof -
  show "platform_ok receipt_platform" "counts_requests (pf_rpc receipt_platform) id length"
    using sample_facts(1) by (simp_all add: receipt_platform_def platform_ok_def counts_requests_def)
  have "answers_with (pf_json receipt_platform) [2] ''status'' [48, 120, 48]" "answers_null (pf_json receipt_platform) [1]"
    by (simp_all add: receipt_platform_def answers_with_def answers_null_def chars_def)
  moreover have "fst (exchange (pf_rpc receipt_platform) url req w) = Inr (Some [if length w < 2 then 1 else 2])" for req w
    by (simp add: receipt_platform_def exchange_def)
  ultimately show "receipt_after receipt_platform url length 2 method hash"
    unfolding receipt_after_def by auto
qed

theorem receipt_reported_witness:
  "\<exists>t' w'. BoatEthGetTransactionReceipt receipt_platform id (Some sample_tx) [] = (Inr (), Some t', w') \<and> length w' = 3 \<and>
     rawtx_fields t' = sample_fields"
proof -
  have t: "wallet_ptr sample_tx = Some sample_wallet" "max_fits (tx_hash sample_tx)" "rawtx_fields sample_tx = sample_fields"
    by (simp_all add: sample_tx_def max_fits_def)
  show ?thesis
    using receipt_reported [of "BoatEthGetTransactionReceipt receipt_platform id" receipt_platform id sample_tx sample_wallet "[104]"
        sample_context length "[]" 2] receipt_platform_facts(1,2) t sample_opened(1)
      receipt_platform_facts(3) [of "[104]" "''eth_getTransactionReceipt''" "address_text (max_bytes (tx_hash sample_tx))"]
    by (simp add: numeral_2_eq_2 numeral_3_eq_3) blast
qed

text \<open>
  C12: Whatever the node answers, and whether it answers at all, waiting for a receipt ends, on each of the three chains, after at most ten
  requests.
\<close>

theorem receipt_wait_bounded:
  assumes "counts_requests (pf_rpc pf) sleep clock"
    "BoatEthGetTransactionReceipt pf sleep tx w = (r, tx', w') \<or> BoatVenachainGetTransactionReceipt pf sleep tx w = (r, tx', w') \<or>
     BoatPlatoneGetTransactionReceipt pf sleep tx2 w = (r, tx2', w')"
  shows "clock w' \<le> clock w + 10"
  using assms(2) TxGetReceipt_bounded [of pf "eth_api pf sleep" clock 9] TxGetReceipt_bounded [of pf "venachain_api pf sleep" clock 9]
      TxGetReceipt_bounded [of pf "platone_api pf sleep" clock 9] assms(1)
    by (fastforce simp: BoatEthGetTransactionReceipt_def BoatVenachainGetTransactionReceipt_def BoatPlatoneGetTransactionReceipt_def
        unchecked_tx_def eth_api_def venachain_api_def platone_api_def split: option.splits prod.splits)

lemma receipt_platform_silent:
  "counts_requests (pf_rpc (receipt_platform\<lparr>pf_rpc := \<lparr>request_set = \<lambda>u s. (0, s), request_sync = \<lambda>m s. ((- 1, None), m # s)\<rparr>\<rparr>)) id length"
  by (simp add: counts_requests_def)

theorem receipt_wait_bounded_witness:
  "length (snd (snd (BoatEthGetTransactionReceipt receipt_platform id (Some sample_tx) []))) \<le> 10"
proof -
  obtain r tx' w' where "BoatEthGetTransactionReceipt receipt_platform id (Some sample_tx) [] = (r, tx', w')" by (metis prod_cases3)
  then show ?thesis
    using receipt_wait_bounded [OF receipt_platform_facts(2), of "Some sample_tx" "[]" r tx' w'] by simp
qed

text \<open>
  C4: Opening a wallet: with the indices of a stored keypair and of a stored network of the chain, \<open>WalletInit\<close> yields a wallet
  that has this keypair, the chain id, EIP-155 setting and URL of this network and a new JSON-RPC client with empty buffers, and whose address is
  the last 20 bytes of the Keccak hash of the public key. With the index of a keypair or network that is not stored it yields none.
\<close>

theorem wallet_opened:
  assumes "(init, protocol) \<in> {(BoatEthWalletInit, BOAT_PROTOCOL_ETHEREUM), (BoatVenachainWalletInit, BOAT_PROTOCOL_VENACHAIN),
      (BoatPlatoneWalletInit, BOAT_PROTOCOL_PLATONE)}"
    "nvram_ok s" "malloc_total mal" "keypairs_in ks s" "networks_in ns s" "\<And>m. length (keccak m) = 32"
    "ctx_sizes (account_prikeyCtx (account_info block))" "url_sized (network_info block)" "length j = 1024" "length q = 1024"
  shows "(\<forall>k d. k \<in> set ks \<and> network_record_of protocol d \<in> set ns \<and> net_ok d \<longrightarrow>
     (\<exists>wl c. init mal keccak (Some block) (web3_init True (Some j) (Some q) random True) (keypair_index k) (networkIndex d) s = Inr (Some wl) \<and>
       account_prikeyCtx (account_info wl) = k \<and> account_address (account_info wl) = drop 12 (keccak (pubkey_content k)) \<and>
       chain_id (network_info wl) = chain_id d \<and> eip155_compatibility (network_info wl) = eip155_compatibility d \<and>
       opened wl (net_url d) c \<and> web3_message_id c = random)) \<and>
    (\<forall>i n. persistent_index i \<and> persistent_index n \<and>
         (i \<notin> keypair_index ` set ks \<or> list_all (\<lambda>r. \<not> is_network protocol n r) ns) \<longrightarrow>
     init mal keccak (Some block) (web3_init True (Some j) (Some q) random True) i n s = Inr None)"
proof -
  have init: "init mal keccak b c i n s = WalletInit mal keccak (GetNetworkByIndex protocol) b c i n s" for b c i n s
    using assms(1)
    by (auto simp: BoatEthWalletInit_def BoatVenachainWalletInit_def BoatPlatoneWalletInit_def BoATEth_GetNetworkByIndex_def
        BoATVenachain_GetNetworkByIndex_def BoATPlatone_GetNetworkByIndex_def)
  have found: "\<exists>wl c. init mal keccak (Some block) (web3_init True (Some j) (Some q) random True) (keypair_index k) (networkIndex d) s = Inr (Some wl) \<and>
       account_prikeyCtx (account_info wl) = k \<and> account_address (account_info wl) = drop 12 (keccak (pubkey_content k)) \<and>
       chain_id (network_info wl) = chain_id d \<and> eip155_compatibility (network_info wl) = eip155_compatibility d \<and>
       opened wl (net_url d) c \<and> web3_message_id c = random"
    if k: "k \<in> set ks" and d: "network_record_of protocol d \<in> set ns" "net_ok d" for k d
  proof -
    have "length (pubkey_content k) = 64" using k assms(4) by (auto simp: keypairs_in_def list_all_iff kp_ok_def ctx_sizes_def)
    then have p: "buf_get (pubkey_content k) 0 64 = Inr (pubkey_content k)" by (simp add: buf_get_def)
    have a: "buf_get (keccak m) 12 20 = Inr (drop 12 (keccak m))" for m using assms(6) [of m] by (simp add: buf_get_def)
    show ?thesis
      using get_keypair_found [OF assms(2,3,4) k assms(7)] get_network_found [OF assms(2,5) d assms(8)] read_into_fields [OF d(2)]
        net_fields(9) [OF d(2)] assms(9,10) p a
      by (simp add: init WalletInit_def web3_init_def opened_def buf_sized_def)
  qed
  have missing: "init mal keccak (Some block) (web3_init True (Some j) (Some q) random True) i n s = Inr None"
    if "persistent_index i" "persistent_index n" "i \<notin> keypair_index ` set ks \<or> list_all (\<lambda>r. \<not> is_network protocol n r) ns" for i n
  proof (cases "i \<in> keypair_index ` set ks")
    case True
    then obtain k where k: "k \<in> set ks" "keypair_index k = i" by blast
    have "list_all (\<lambda>r. \<not> is_network protocol n r) ns" using True that(3) by simp
    from get_network_missing [OF assms(2,5) this that(2)]
    obtain e where "GetNetworkByIndex protocol n s (Some (network_info block)) = (Inl (Err e), Some (network_info block))" by blast
    then show ?thesis
      using get_keypair_found [OF assms(2,3,4) k(1) assms(7)] k(2) by (simp add: init WalletInit_def)
  next
    case False
    from get_keypair_missing [OF assms(2-4) False that(1) assms(7)] show ?thesis
      by (auto simp: init WalletInit_def split: prod.split sum.split fail.split)
  qed
  show ?thesis using found missing by blast
qed

text \<open>An uninitialised block for a wallet.\<close>

definition sample_block :: BoatWallet where
  "sample_block = sample_wallet\<lparr>network_info := NetworkDataInit\<rparr>"

theorem wallet_opened_witness:
  "\<exists>s k wl c. BoatEthWalletInit heap_all (\<lambda>m. replicate 32 7) (Some sample_block) (web3_init True (Some (replicate 1024 0)) (Some (replicate 1024 0)) 9 True)
       (keypair_index k) 1 s = Inr (Some wl) \<and>
     account_prikeyCtx (account_info wl) = k \<and> account_address (account_info wl) = replicate 20 7 \<and> chain_id (network_info wl) = 5777 \<and>
     opened wl (net_url (created_network eth_cfg 1)) c \<and> web3_message_id c = 9"
proof -
  let ?d = "created_network eth_cfg 1"
  obtain s k key where W: "wallet [k] [(keypair_index k, key)] [] s" and N: "network_stores [network_record_of BOAT_PROTOCOL_ETHEREUM ?d] [] s"
    using keypair_and_network by blast
  have s: "nvram_ok s" "keypairs_in [k] s" "networks_in [network_record_of BOAT_PROTOCOL_ETHEREUM ?d] s"
    using W N by (simp_all add: wallet_def network_stores_def)
  have b: "ctx_sizes (account_prikeyCtx (account_info sample_block))" "url_sized (network_info sample_block)"
    using init_sized by (simp_all add: sample_block_def sample_wallet_def ctx_sizes_def)
  note c = created_network_ok(1,2) [OF eth_cfg_ok, of 1]
  have chain: "chain_id ?d = 5777" by (simp add: created_network_def eth_cfg_def Let_def)
  have "\<exists>wl c. BoatEthWalletInit heap_all (\<lambda>m. replicate 32 7) (Some sample_block)
       (web3_init True (Some (replicate 1024 0)) (Some (replicate 1024 0)) 9 True) (keypair_index k) (networkIndex ?d) s = Inr (Some wl) \<and>
       account_prikeyCtx (account_info wl) = k \<and> account_address (account_info wl) = drop 12 (replicate 32 7) \<and>
       chain_id (network_info wl) = chain_id ?d \<and> eip155_compatibility (network_info wl) = eip155_compatibility ?d \<and>
       opened wl (net_url ?d) c \<and> web3_message_id c = 9"
    using wallet_opened [of BoatEthWalletInit BOAT_PROTOCOL_ETHEREUM s heap_all "[k]" "[network_record_of BOAT_PROTOCOL_ETHEREUM ?d]"
        "\<lambda>m. replicate 32 7" sample_block "replicate 1024 0" "replicate 1024 0" 9] s heap_all_total b c(1)
    by simp
  then have "\<exists>wl c. BoatEthWalletInit heap_all (\<lambda>m. replicate 32 7) (Some sample_block)
       (web3_init True (Some (replicate 1024 0)) (Some (replicate 1024 0)) 9 True) (keypair_index k) 1 s = Inr (Some wl) \<and>
       account_prikeyCtx (account_info wl) = k \<and> account_address (account_info wl) = replicate 20 7 \<and>
       chain_id (network_info wl) = 5777 \<and> opened wl (net_url ?d) c \<and> web3_message_id c = 9"
    unfolding c(2) chain drop_replicate by fastforce
  then show ?thesis by (intro exI [of _ s] exI [of _ k])
qed

end
