(* ===== verification/Boat_Bech32.thy ===== *)
theory Boat_Bech32
  imports Boat_Web3
begin

text \<open>
  \<open>sdk/protocol/boatplaton/boatplatonbech32.c\<close>: PlatON addresses in the Bech32 format of BIP-173. The regrouping of
  bits, the checksum, and the encoder and decoder of an address.
\<close>

unbundle bit_operations_syntax

subsection \<open>The code\<close>

definition BECH32ALPHABET :: bytes where
  "BECH32ALPHABET = chars ''qpzry9x8gf2tvdw0s3jn54khce6mua7l''"

text \<open>The table of the 7-bit characters; \<open>- 1\<close> marks what is no character of the alphabet.\<close>

definition CHARSET_REV :: "int list" where
  "CHARSET_REV =
    [-1, -1, -1, -1, -1, -1, -1, -1, -1, -1, -1, -1, -1, -1, -1, -1,
     -1, -1, -1, -1, -1, -1, -1, -1, -1, -1, -1, -1, -1, -1, -1, -1,
     -1, -1, -1, -1, -1, -1, -1, -1, -1, -1, -1, -1, -1, -1, -1, -1,
     15, -1, 10, 17, 21, 20, 26, 30,  7,  5, -1, -1, -1, -1, -1, -1,
     -1, 29, -1, 24, 13, 25,  9,  8, 23, -1, 18, 22, 31, 27, 19, -1,
      1,  0,  3, 16, 11, 28, 12, 14,  6,  4,  2, -1, -1, -1, -1, -1,
     -1, 29, -1, 24, 13, 25,  9,  8, 23, -1, 18, 22, 31, 27, 19, -1,
      1,  0,  3, 16, 11, 28, 12, 14,  6,  4,  2, -1, -1, -1, -1, -1]"

text \<open>
  \<open>BoatConvertBits\<close>: the accumulator is a 32-bit word, the counters stay below \<open>fromBits + toBits\<close>. The inner loop, which would not
  end for \<open>toBits = 0\<close>, is only used with 5 and 8.
\<close>

fun emit_groups :: "nat \<Rightarrow> u32 \<Rightarrow> nat \<Rightarrow> bytes \<times> nat" where
  "emit_groups toBits acc bits =
     (if 0 < toBits \<and> toBits \<le> bits
      then case emit_groups toBits acc (bits - toBits) of
        (out, rest) \<Rightarrow> (ucast (drop_bit (bits - toBits) acc AND (push_bit toBits 1 - 1)) # out, rest)
      else ([], bits))"

declare emit_groups.simps [simp del]

fun convert_loop :: "nat \<Rightarrow> nat \<Rightarrow> bytes \<Rightarrow> u32 \<Rightarrow> nat \<Rightarrow> bytes \<times> u32 \<times> nat" where
  "convert_loop fromBits toBits [] acc bits = ([], acc, bits)"
| "convert_loop fromBits toBits (v # vs) acc bits =
     (let acc' = (push_bit fromBits acc OR ucast v) AND (push_bit (fromBits + toBits - 1) 1 - 1) in
      case emit_groups toBits acc' (bits + fromBits) of
        (out, bits') \<Rightarrow> (case convert_loop fromBits toBits vs acc' bits' of (out', r) \<Rightarrow> (out @ out', r)))"

definition BoatConvertBits :: "bytes \<Rightarrow> nat \<Rightarrow> nat \<Rightarrow> bytes" where
  "BoatConvertBits inp fromBits toBits =
     (case convert_loop fromBits toBits inp 0 0 of
        (out, acc, bits) \<Rightarrow>
          out @ (if 0 < bits then [ucast (push_bit (toBits - bits) acc AND (push_bit toBits 1 - 1))] else []))"

definition BoatExpandHrp :: "bytes \<Rightarrow> bytes" where
  "BoatExpandHrp hrp =
     map (\<lambda>c. drop_bit 5 (c AND 0x7f) AND 0x07) hrp @ [0] @ map (\<lambda>c. (c AND 0x7f) AND 0x1f) hrp"

definition polymod_step :: "u32 \<Rightarrow> u8 \<Rightarrow> u32" where
  "polymod_step chk v =
     (let b = drop_bit 25 chk AND 0x1f in
      push_bit 5 (chk AND 0x1ffffff) XOR ucast v
        XOR (if b AND 0x01 \<noteq> 0 then 0x3b6a57b2 else 0) XOR (if b AND 0x02 \<noteq> 0 then 0x26508e6d else 0)
        XOR (if b AND 0x04 \<noteq> 0 then 0x1ea119fa else 0) XOR (if b AND 0x08 \<noteq> 0 then 0x3d4233dd else 0)
        XOR (if b AND 0x10 \<noteq> 0 then 0x2a1462b3 else 0))"

text \<open>The three rounds of the loop: the expanded prefix, the data, and the cleared output.\<close>

definition BoatBech32Polymod :: "bytes \<Rightarrow> bytes \<Rightarrow> bytes" where
  "BoatBech32Polymod hrp dat =
     (let chk = foldl polymod_step (foldl polymod_step (foldl polymod_step 1 hrp) dat) (replicate 6 0) XOR 1 in
      map (\<lambda>i. ucast (drop_bit (5 * (5 - i)) chk AND 0x1F)) [0..<6])"

definition bech32_char :: "u8 \<Rightarrow> u8" where
  "bech32_char v = BECH32ALPHABET ! unat v"

text \<open>
  The encoder works on the \<open>inlen\<close> bytes at \<open>in\<close> and the \<open>hrplen\<close> bytes at \<open>hrp\<close>, and writes to the object \<open>out\<close>. \<open>base32Data\<close>, which
  has \<open>base32OutLen\<close> elements, is read as a whole after \<open>BoatConvertBits\<close> has written it.
\<close>

definition BoatPlatONBech32Encode ::
  "bytes option \<Rightarrow> u32 \<Rightarrow> bytes option \<Rightarrow> bytes option \<Rightarrow> u8 \<Rightarrow> int res \<times> bytes option" where
  "BoatPlatONBech32Encode inp inlen out hrp hrplen =
     (case (inp, out, hrp) of
        (Some i, Some buf, Some h) \<Rightarrow>
          if hrplen = 0 \<or> 83 < hrplen then (Inl (Err (- 1)), out)
          else
            (let base32OutLen = (inlen div 5) * 8 + ((inlen mod 5) * 8 + 4) div 5 in
             case bindR (buf_get i 0 (unat inlen)) (\<lambda>bs.
                  bindR (buf_get h 0 (unat hrplen)) (\<lambda>prefix.
                  let base32Data = BoatConvertBits bs 8 5;
                      bech32Chk = BoatBech32Polymod (BoatExpandHrp prefix) base32Data in
                  if length base32Data \<noteq> unat base32OutLen then Inl UB
                  else buf_put buf 0 (prefix @ [49] @ map bech32_char base32Data @ map bech32_char bech32Chk @ [0]))) of
               Inl e \<Rightarrow> (Inl e, out)
             | Inr b \<Rightarrow> (Inr (int (unat hrplen) + 1 + int (unat base32OutLen) + 6), Some b))
      | _ \<Rightarrow> (Inl (Err (- 1)), out))"

text \<open>
  The decoder works on the \<open>inlen\<close> characters at \<open>in\<close> and writes to the object \<open>out\<close>. A character outside the table is a read
  outside it.
\<close>

definition charset_rev :: "u8 \<Rightarrow> u8 res" where
  "charset_rev c = (if unat c < 128 then Inr (word_of_int (CHARSET_REV ! unat c)) else Inl UB)"

fun mapR :: "('a \<Rightarrow> 'b res) \<Rightarrow> 'a list \<Rightarrow> 'b list res" where
  "mapR f [] = Inr []"
| "mapR f (x # xs) = bindR (f x) (\<lambda>y. bindR (mapR f xs) (\<lambda>ys. Inr (y # ys)))"

definition BoatPlatONBech32Decode :: "bytes option \<Rightarrow> bytes option \<Rightarrow> nat res \<times> bytes option" where
  "BoatPlatONBech32Decode inp out =
     (case (inp, out) of
        (Some s, Some buf) \<Rightarrow>
          (let hrp = takeWhile (\<lambda>c. c \<noteq> 49) s; hrplen = length hrp; datalen = int (length s) - int hrplen - 1 - 6 in
           if hrplen = 0 \<or> hrplen = length s then (Inl (Err (- 1)), out)
           else if 83 < hrplen then (Inl (Err (- 1)), out)
           else if datalen \<le> 0 then (Inl (Err (- 1)), out)
           else
             (case mapR charset_rev (take (nat datalen) (drop (hrplen + 1) s)) of
                Inl e \<Rightarrow> (Inl e, out)
              | Inr dat \<Rightarrow>
                  if drop (hrplen + 1 + nat datalen) s \<noteq> map bech32_char (BoatBech32Polymod (BoatExpandHrp hrp) dat)
                  then (Inl (Err (- 1)), out)
                  else (let bs = BoatConvertBits dat 5 8 in
                        case buf_put buf 0 bs of Inl e \<Rightarrow> (Inl e, out) | Inr b \<Rightarrow> (Inr (length bs), Some b))))
      | _ \<Rightarrow> (Inl (Err (- 1)), out))"

subsection \<open>Regrouping bits\<close>

text \<open>The lowest \<open>n\<close> bits of a word, the highest first.\<close>

definition bits_of :: "nat \<Rightarrow> 'a::len word \<Rightarrow> bool list" where
  "bits_of n w = map (bit w) (rev [0..<n])"

lemma length_bits_of [simp]: "length (bits_of n w) = n"
  by (simp add: bits_of_def)

lemma nth_bits_of: "i < n \<Longrightarrow> bits_of n w ! i = bit w (n - 1 - i)"
  by (simp add: bits_of_def rev_nth)

lemma bits_of_0 [simp]: "bits_of 0 w = []"
  by (simp add: bits_of_def)

lemma bits_of_eq_Nil [simp]: "bits_of n w = [] \<longleftrightarrow> n = 0"
  by (simp add: bits_of_def)

lemma bits_of_eq_iff: "bits_of n v = bits_of n w \<longleftrightarrow> (\<forall>i < n. bit v i = bit w i)"
  by (auto simp: bits_of_def)

lemma bits_of_split: "t \<le> b \<Longrightarrow> bits_of b w = bits_of t (drop_bit (b - t) w) @ bits_of (b - t) w"
  by (rule nth_equalityI) (auto simp: nth_append nth_bits_of bit_drop_bit_eq intro: arg_cong [where f = "bit w"])

definition below :: "nat \<Rightarrow> bytes \<Rightarrow> bool" where
  "below n vs \<longleftrightarrow> (\<forall>v \<in> set vs. \<forall>i. bit v i \<longrightarrow> i < n)"

lemma group_bits:
  assumes "t \<le> 8"
  shows "bits_of t (ucast ((x :: u32) AND (push_bit t 1 - 1)) :: u8) = bits_of t x"
    "bit (ucast ((x :: u32) AND (push_bit t 1 - 1)) :: u8) i \<Longrightarrow> i < t"
proof -
  have "push_bit t 1 - 1 = (mask t :: u32)" by (simp add: mask_eq_exp_minus_1 push_bit_of_1)
  then show "bits_of t (ucast (x AND (push_bit t 1 - 1)) :: u8) = bits_of t x"
    "bit (ucast (x AND (push_bit t 1 - 1)) :: u8) i \<Longrightarrow> i < t"
    using assms by (auto simp: bits_of_eq_iff bit_unsigned_iff bit_and_iff bit_mask_iff)
qed

lemma emit_groups_bits:
  assumes "0 < t" "t \<le> 8"
  shows "emit_groups t acc b = (out, r) \<Longrightarrow>
     concat (map (bits_of t) out) @ bits_of r acc = bits_of b acc \<and> r < t \<and> below t out"
proof (induction b arbitrary: out r rule: less_induct)
  case (less b)
  show ?case
  proof (cases "t \<le> b")
    case True
    obtain o1 where e: "emit_groups t acc (b - t) = (o1, r)"
      "out = ucast (drop_bit (b - t) acc AND (push_bit t 1 - 1)) # o1"
      using less.prems True assms(1) by (subst (asm) emit_groups.simps) (auto split: prod.splits)
    have "b - t < b" using True assms(1) by simp
    from less.IH [OF this e(1)] show ?thesis
      using bits_of_split [OF True, of acc] group_bits [OF assms(2), of "drop_bit (b - t) acc"]
      by (auto simp: e(2) below_def)
  next
    case False
    then show ?thesis using less.prems by (subst (asm) emit_groups.simps) (auto simp: below_def)
  qed
qed

lemma accumulate_bits:
  assumes "b < t" "f + t \<le> 32" "f \<le> 8" "\<And>i. bit v i \<Longrightarrow> i < f"
  shows "bits_of (b + f) ((push_bit f acc OR ucast (v :: u8)) AND (push_bit (f + t - 1) 1 - 1) :: u32) = bits_of b acc @ bits_of f v"
proof -
  have m: "push_bit (f + t - 1) 1 - 1 = (mask (f + t - 1) :: u32)" by (simp add: mask_eq_exp_minus_1 push_bit_of_1)
  show ?thesis
    unfolding m
  proof (rule nth_equalityI)
    fix i assume "i < length (bits_of (b + f) ((push_bit f acc OR ucast v) AND mask (f + t - 1) :: u32))"
    then have i: "i < b + f" by simp
    show "bits_of (b + f) ((push_bit f acc OR ucast v) AND mask (f + t - 1) :: u32) ! i = (bits_of b acc @ bits_of f v) ! i"
    proof (cases "i < b")
      case True
      moreover have "\<not> bit v (b + f - 1 - i)" using assms(4) [of "b + f - 1 - i"] True by auto
      ultimately show ?thesis
        using assms i by (simp add: nth_append nth_bits_of bit_and_iff bit_or_iff bit_push_bit_iff bit_unsigned_iff bit_mask_iff)
          (auto intro!: arg_cong [where f = "bit acc"])
    next
      case False
      then have "b + f - 1 - i < f" "b + f - 1 - i = f - 1 - (i - b)" "b + f - 1 - i < f + t - 1" using i assms(1) by auto
      then show ?thesis
        using assms i False by (simp add: nth_append nth_bits_of bit_and_iff bit_or_iff bit_push_bit_iff bit_unsigned_iff bit_mask_iff)
    qed
  qed simp
qed

lemma belowD: "below n vs \<Longrightarrow> k < length vs \<Longrightarrow> bit (vs ! k) i \<Longrightarrow> i < n"
  using nth_mem [of k vs] by (auto simp: below_def)

lemma below_Cons [simp]: "below n (v # vs) \<longleftrightarrow> (\<forall>i. bit v i \<longrightarrow> i < n) \<and> below n vs"
  by (auto simp: below_def)

lemma below_append [simp]: "below n (xs @ ys) \<longleftrightarrow> below n xs \<and> below n ys"
  by (auto simp: below_def)

lemma below_Nil [simp]: "below n []"
  by (simp add: below_def)

lemma below_8: "below 8 vs"
  by (auto simp: below_def dest: bit_imp_le_length)

lemma convert_loop_bits:
  assumes "0 < t" "t \<le> 8" "f \<le> 8"
  shows "convert_loop f t vs acc b = (out, acc', b') \<Longrightarrow> b < t \<Longrightarrow> below f vs \<Longrightarrow>
     concat (map (bits_of t) out) @ bits_of b' acc' = bits_of b acc @ concat (map (bits_of f) vs) \<and> b' < t \<and> below t out"
proof (induction vs arbitrary: acc b out)
  case (Cons v vs)
  let ?acc = "(push_bit f acc OR ucast v) AND (push_bit (f + t - 1) 1 - 1)"
  obtain o1 b1 where 1: "emit_groups t ?acc (b + f) = (o1, b1)" by (cases "emit_groups t ?acc (b + f)")
  obtain o2 where 2: "convert_loop f t vs ?acc b1 = (o2, acc', b')" "out = o1 @ o2"
    using Cons.prems(1) 1 by (auto simp: Let_def split: prod.splits)
  have a: "bits_of (b + f) ?acc = bits_of b acc @ bits_of f v"
    using accumulate_bits [of b t f v acc] Cons.prems(2,3) assms by simp
  note e = emit_groups_bits [OF assms(1,2) 1]
  have "concat (map (bits_of t) o2) @ bits_of b' acc' = bits_of b1 ?acc @ concat (map (bits_of f) vs) \<and> b' < t \<and> below t o2"
    by (rule Cons.IH [OF 2(1)]) (use e Cons.prems(3) in auto)
  then show ?case using e a 2(2) by simp
qed simp

text \<open>The groups hold the bits of the input, padded with zeros to a whole group.\<close>

lemma convert_bits:
  assumes "0 < t" "t \<le> 8" "f \<le> 8" "below f vs"
  obtains pad where "concat (map (bits_of t) (BoatConvertBits vs f t)) = concat (map (bits_of f) vs) @ replicate pad False" "pad < t"
    "below t (BoatConvertBits vs f t)"
proof -
  obtain out acc b where c: "convert_loop f t vs 0 0 = (out, acc, b)" by (metis prod_cases3)
  have b: "concat (map (bits_of t) out) @ bits_of b acc = concat (map (bits_of f) vs)" "b < t" "below t out"
    using convert_loop_bits [OF assms(1-3) c assms(1,4)] by simp_all
  show ?thesis
  proof (cases "b = 0")
    case True
    then show ?thesis using b c assms(1) by (intro that [of 0]) (simp_all add: BoatConvertBits_def)
  next
    case False
    have "bits_of t (push_bit (t - b) acc) = bits_of b acc @ replicate (t - b) False"
      using b(2) assms(2) by (intro nth_equalityI) (auto simp: nth_append nth_bits_of bit_push_bit_iff
        dest: bit_imp_le_length intro!: arg_cong [where f = "bit acc"])
    then show ?thesis
      using False b c group_bits [OF assms(2), of "push_bit (t - b) acc"]
      by (intro that [of "t - b"]) (simp_all add: BoatConvertBits_def flip: b(1))
  qed
qed

lemma length_groups: "length (concat (map (bits_of t) xs)) = t * length xs"
  by (induction xs) simp_all

lemma groups_inject:
  assumes "0 < t"
  shows "concat (map (bits_of t) xs) = concat (map (bits_of t) ys) \<Longrightarrow> below t xs \<Longrightarrow> below t ys \<Longrightarrow> xs = ys"
proof (induction xs arbitrary: ys)
  case Nil
  then show ?case using assms by (cases ys) auto
next
  case (Cons x xs)
  then obtain y ys' where y: "ys = y # ys'" using assms by (cases ys) auto
  have "bits_of t x = bits_of t y" "concat (map (bits_of t) xs) = concat (map (bits_of t) ys')"
    using Cons.prems(1) by (simp_all add: y)
  moreover from this(1) have "x = y"
    using Cons.prems(2,3) by (intro bit_eqI) (metis below_Cons bits_of_eq_iff y)
  ultimately show ?case using Cons y by simp
qed

lemma groups_length:
  assumes "0 < t" "concat (map (bits_of t) xs) = concat (map (bits_of f) vs) @ replicate pad False" "pad < t"
  shows "length xs = (f * length vs + t - 1) div t"
proof -
  have "t * length xs = f * length vs + pad"
    using arg_cong [OF assms(2), of length] by (simp add: length_groups)
  then show ?thesis using assms(1,3) by (intro div_nat_eqI [symmetric]) (simp_all add: algebra_simps)
qed

lemma convert_length: "length (BoatConvertBits vs 8 5) = (8 * length vs + 4) div 5"
proof -
  obtain pad where "concat (map (bits_of 5) (BoatConvertBits vs 8 5)) = concat (map (bits_of 8) vs) @ replicate pad False" "pad < 5"
    by (rule convert_bits [of 5 8 vs]) (simp_all add: below_8)
  from groups_length [OF _ this] show ?thesis by simp
qed

lemma convert_below: "below 5 (BoatConvertBits vs 8 5)"
  by (rule convert_bits [of 5 8 vs]) (simp_all add: below_8)

lemma convert_back:
  "BoatConvertBits (BoatConvertBits vs 8 5) 5 8 = vs @ (if 5 dvd 8 * length vs then [] else [0])"
proof -
  let ?g = "BoatConvertBits vs 8 5"
  obtain pad where p: "concat (map (bits_of 5) ?g) = concat (map (bits_of 8) vs) @ replicate pad False" "pad < 5" "below 5 ?g"
    by (rule convert_bits [of 5 8 vs]) (simp_all add: below_8)
  obtain pad2 where q: "concat (map (bits_of 8) (BoatConvertBits ?g 5 8)) = concat (map (bits_of 5) ?g) @ replicate pad2 False" "pad2 < 8"
    by (rule convert_bits [of 8 5 ?g]) (simp_all add: p(3))
  have l: "5 * length ?g = 8 * length vs + pad" "8 * length (BoatConvertBits ?g 5 8) = 8 * length vs + pad + pad2"
    using arg_cong [OF p(1), of length] arg_cong [OF q(1), of length] by (simp_all add: length_groups)
  have "pad + pad2 = 0 \<or> pad + pad2 = 8" using l(2) p(2) q(2) by presburger
  moreover have z: "replicate 8 False = bits_of 8 (0 :: u8)" by (rule nth_equalityI) (simp_all add: nth_bits_of)
  moreover have "pad = 0 \<longleftrightarrow> 5 dvd 8 * length vs" using l(1) p(2) by presburger
  ultimately have "concat (map (bits_of 8) (BoatConvertBits ?g 5 8)) =
      concat (map (bits_of 8) (vs @ (if 5 dvd 8 * length vs then [] else [0])))"
    using p(1,2) q(1,2) by (auto simp: replicate_add [symmetric])
  then show ?thesis by (rule groups_inject [rotated]) (simp_all add: below_8)
qed

subsection \<open>The checksum\<close>

text \<open>
  The 30-bit remainder is linear in its start and in the symbols, over exclusive or. The checksum of the
  specification: the remainder of prefix, data and checksum is 1.
\<close>

definition spec_polymod :: "bytes \<Rightarrow> u32" where
  "spec_polymod vs = foldl polymod_step 1 vs"

definition pick :: "u32 \<Rightarrow> nat \<Rightarrow> u32 \<Rightarrow> u32" where
  "pick chk n g = (if bit chk n then g else 0)"

lemma pick_xor: "pick (a XOR b) n g = pick a n g XOR pick b n g"
  by (simp add: pick_def bit_xor_iff)

lemma polymod_step_pick:
  "polymod_step chk v = push_bit 5 (chk AND 0x1ffffff) XOR ucast v XOR pick chk 25 0x3b6a57b2 XOR pick chk 26 0x26508e6d
     XOR pick chk 27 0x1ea119fa XOR pick chk 28 0x3d4233dd XOR pick chk 29 0x2a1462b3"
proof -
  have "(drop_bit 25 chk AND 0x1f) AND m \<noteq> 0 \<longleftrightarrow> bit chk (25 + n)" if "m = push_bit n 1" "n < 5" for m :: u32 and n
  proof -
    have f: "(0x1f :: u32) = mask 5" by (simp add: mask_eq_exp_minus_1)
    have "w AND push_bit n 1 \<noteq> 0 \<longleftrightarrow> bit w n" for w :: u32
      by (simp add: push_bit_of_1 and_exp_eq_0_iff_not_bit)
    then show ?thesis using that by (simp add: f bit_and_iff bit_mask_iff bit_drop_bit_eq)
  qed
  from this [of 1 0] this [of 2 1] this [of 4 2] this [of 8 3] this [of 16 4] show ?thesis
    by (simp add: polymod_step_def pick_def Let_def)
qed

lemma polymod_step_xor: "polymod_step (a XOR b) (v XOR w) = polymod_step a v XOR polymod_step b w"
  by (simp add: polymod_step_pick pick_xor bit.conj_xor_distrib2 push_bit_xor unsigned_xor_eq ac_simps)

lemma polymod_xor:
  "length vs = length ws \<Longrightarrow>
     foldl polymod_step (a XOR b) (map2 (XOR) vs ws) = foldl polymod_step a vs XOR foldl polymod_step b ws"
  by (induction vs ws arbitrary: a b rule: list_induct2) (simp_all add: polymod_step_xor)

definition short30 :: "u32 \<Rightarrow> bool" where
  "short30 c \<longleftrightarrow> take_bit 30 c = c"

lemma short30_xor [intro]: "short30 a \<Longrightarrow> short30 b \<Longrightarrow> short30 (a XOR b)"
  by (simp add: short30_def take_bit_xor)

lemma short30_step: "short30 (polymod_step c v)"
proof -
  have "short30 (push_bit 5 (c AND 0x1ffffff))"
  proof -
    have m: "(0x1ffffff :: u32) = mask 25" by (simp add: mask_eq_exp_minus_1)
    show ?thesis
      unfolding short30_def m by (auto intro!: bit_eqI simp: bit_take_bit_iff bit_push_bit_iff bit_and_iff bit_mask_iff)
  qed
  moreover have "short30 (ucast v)"
  proof -
    have "n < 30" if "bit v n" for n using bit_imp_le_length [OF that] by simp
    then show ?thesis unfolding short30_def by (auto intro!: bit_eqI simp: bit_take_bit_iff bit_unsigned_iff)
  qed
  moreover have "short30 (pick c n g)" if "short30 g" for n g using that by (simp add: pick_def short30_def)
  moreover have "short30 0x3b6a57b2" "short30 0x26508e6d" "short30 0x1ea119fa" "short30 0x3d4233dd" "short30 0x2a1462b3"
    by (simp_all add: short30_def)
  ultimately show ?thesis by (simp add: polymod_step_pick short30_xor)
qed

lemma short30_polymod: "short30 c \<Longrightarrow> short30 (foldl polymod_step c vs)"
  by (induction vs arbitrary: c) (simp_all add: short30_step)

lemma polymod_zero: "foldl polymod_step 0 (replicate n 0) = 0"
  by (induction n) (simp_all add: polymod_step_pick pick_def)

text \<open>A step loses nothing: the generator's lowest coefficient is invertible.\<close>

lemma step_zero_kernel:
  assumes "polymod_step c 0 = 0" "short30 c"
  shows "c = 0"
proof -
  have low: "(push_bit 5 x :: u32) AND 0x1f = 0" for x :: u32
  proof -
    have m: "(0x1f :: u32) = mask 5" by (simp add: mask_eq_exp_minus_1)
    show ?thesis unfolding m by (auto intro!: bit_eqI simp: bit_push_bit_iff bit_and_iff bit_mask_iff)
  qed
  have "(pick c 25 0x3b6a57b2 XOR pick c 26 0x26508e6d XOR pick c 27 0x1ea119fa XOR pick c 28 0x3d4233dd XOR pick c 29 0x2a1462b3)
      AND 0x1f = 0"
    using arg_cong [OF assms(1) [unfolded polymod_step_pick], of "\<lambda>x. x AND 0x1f"]
    unfolding bit.conj_xor_distrib2 low by simp
  then have b: "\<not> bit c 25" "\<not> bit c 26" "\<not> bit c 27" "\<not> bit c 28" "\<not> bit c 29"
    by (cases "bit c 25"; cases "bit c 26"; cases "bit c 27"; cases "bit c 28"; cases "bit c 29"; simp add: pick_def)+
  then have z: "push_bit 5 (c AND 0x1ffffff) = 0" using assms(1) by (simp add: polymod_step_pick pick_def)
  have m: "(0x1ffffff :: u32) = mask 25" by (simp add: mask_eq_exp_minus_1)
  show ?thesis
  proof (rule bit_eqI)
    fix n
    have "\<not> bit c n" if "n < 25"
      using arg_cong [OF z, of "\<lambda>w. bit w (n + 5)"] that unfolding m by (simp add: bit_push_bit_iff bit_and_iff bit_mask_iff)
    moreover have "\<not> bit c n" if "30 \<le> n"
      using assms(2) that unfolding short30_def by (metis bit_take_bit_iff linorder_not_le)
    moreover have "n = 25 \<or> n = 26 \<or> n = 27 \<or> n = 28 \<or> n = 29" if "25 \<le> n" "n < 30" using that by presburger
    ultimately show "bit c n = bit 0 n" using b by (metis bit_0_eq bot_apply bot_bool_def linorder_not_le)
  qed
qed

lemma zeros_kernel: "foldl polymod_step c (replicate n 0) = 0 \<Longrightarrow> short30 c \<Longrightarrow> c = 0"
  by (induction n arbitrary: c) (simp_all, use short30_step step_zero_kernel in blast)

text \<open>The six symbols of the checksum are the groups of a 30-bit word and bring the remainder to 1.\<close>

definition groups6 :: "u32 \<Rightarrow> bytes" where
  "groups6 c = map (\<lambda>i. ucast (drop_bit (5 * (5 - i)) c AND 0x1F)) [0..<6]"

lemma BoatBech32Polymod_eq:
  "BoatBech32Polymod hrp dat = groups6 (foldl polymod_step 1 (hrp @ dat @ replicate 6 0) XOR 1)"
  by (simp add: BoatBech32Polymod_def groups6_def del: replicate.simps)

lemma length_groups6 [simp]: "length (groups6 c) = 6"
  by (simp add: groups6_def)

lemma low5: "(0x1F :: u32) = mask 5"
  by (simp add: mask_eq_exp_minus_1)

lemma groups6_below: "below 5 (groups6 c)"
  by (auto simp: groups6_def below_def low5 bit_unsigned_iff bit_and_iff bit_mask_iff simp del: upt.simps)

lemma step_join:
  assumes "short30 c" "k < 6"
  shows "polymod_step (drop_bit (5 * (6 - k)) c) (ucast (drop_bit (5 * (5 - k)) c AND 0x1F)) = drop_bit (5 * (5 - k)) c"
proof -
  let ?h = "drop_bit (5 * (6 - k)) c"
  have s: "\<not> bit c n" if "30 \<le> n" for n
    using assms(1) that unfolding short30_def by (metis bit_take_bit_iff linorder_not_le)
  have h: "\<not> bit ?h n" if "25 \<le> n" for n using that assms(2) by (auto simp: bit_drop_bit_eq intro!: s)
  have m: "(0x1ffffff :: u32) = mask 25" by (simp add: mask_eq_exp_minus_1)
  have e: "6 - k = Suc (5 - k)" using assms(2) by simp
  have "polymod_step ?h v = push_bit 5 (?h AND mask 25) XOR ucast v" for v
    using h by (simp add: polymod_step_pick pick_def m)
  moreover have "push_bit 5 (?h AND mask 25) XOR ucast (ucast (drop_bit (5 * (5 - k)) c AND mask 5) :: u8) = drop_bit (5 * (5 - k)) c"
  proof (rule bit_eqI)
    fix n
    show "bit (push_bit 5 (?h AND mask 25) XOR ucast (ucast (drop_bit (5 * (5 - k)) c AND mask 5) :: u8)) n =
        bit (drop_bit (5 * (5 - k)) c) n"
    proof (cases "n < 5")
      case True
      then show ?thesis by (simp add: bit_xor_iff bit_push_bit_iff bit_unsigned_iff bit_and_iff bit_mask_iff)
    next
      case False
      then have i: "5 * (6 - k) + (n - 5) = 5 * (5 - k) + n" using e by simp
      have "\<not> bit c (5 * (5 - k) + n)" if "30 \<le> 5 * (5 - k) + n" using that by (rule s)
      moreover have "30 \<le> 5 * (5 - k) + n" if "\<not> n - 5 < 25" using that False by simp
      ultimately have "n - 5 < 25" if "bit c (5 * (5 - k) + n)" using that by blast
      then show ?thesis
        using False h [of "n - 5"]
        by (auto simp: bit_xor_iff bit_push_bit_iff bit_unsigned_iff bit_and_iff bit_mask_iff bit_drop_bit_eq i
            dest: bit_imp_le_length)
    qed
  qed
  ultimately show ?thesis by (simp only: low5)
qed

lemma polymod_groups6: "short30 c \<Longrightarrow> foldl polymod_step 0 (groups6 c) = c"
proof -
  assume c: "short30 c"
  have "foldl polymod_step 0 (map (\<lambda>i. ucast (drop_bit (5 * (5 - i)) c AND 0x1F)) [0..<k]) = drop_bit (5 * (6 - k)) c"
    if "k \<le> 6" for k
    using that
  proof (induction k)
    case 0
    have "take_bit 30 c = c" using c by (simp add: short30_def)
    then have "drop_bit 30 c = 0" by (metis drop_bit_take_bit diff_self_eq_0 take_bit_0)
    then show ?case by simp
  next
    case (Suc k)
    then show ?case using step_join [OF c, of k] by simp
  qed
  from this [of 6] show ?thesis by (simp add: groups6_def)
qed

lemma checksum_verifies: "foldl polymod_step 1 (hrp @ dat @ BoatBech32Polymod hrp dat) = 1"
proof -
  let ?c = "foldl polymod_step 1 (hrp @ dat)"
  let ?C = "foldl polymod_step ?c (replicate 6 0) XOR 1"
  have s1: "short30 1" by (simp add: short30_def)
  have C: "short30 ?C" by (rule short30_xor [OF short30_polymod [OF short30_polymod [OF s1]] s1])
  have z: "map2 (XOR) (replicate 6 0) (groups6 ?C) = groups6 ?C"
    by (rule nth_equalityI) simp_all
  have "foldl polymod_step ?c (groups6 ?C) = foldl polymod_step ?c (replicate 6 0) XOR foldl polymod_step 0 (groups6 ?C)"
    using polymod_xor [of "replicate 6 0" "groups6 ?C" ?c 0] unfolding z by simp
  also have "\<dots> = 1" unfolding polymod_groups6 [OF C] by simp
  finally show ?thesis by (simp add: BoatBech32Polymod_eq)
qed

text \<open>The checksums of two data parts that differ in one symbol differ.\<close>

lemma checksum_separates:
  assumes "q < length dat" "v \<noteq> dat ! q"
  shows "BoatBech32Polymod hrp (dat[q := v]) \<noteq> BoatBech32Polymod hrp dat"
proof
  assume eq: "BoatBech32Polymod hrp (dat[q := v]) = BoatBech32Polymod hrp dat"
  define F where "F d = foldl polymod_step 1 (hrp @ d @ replicate 6 0)" for d
  have s1: "short30 1" by (simp add: short30_def)
  have F: "short30 (F d XOR 1)" for d unfolding F_def by (intro short30_xor short30_polymod s1)
  have "groups6 (F (dat[q := v]) XOR 1) = groups6 (F dat XOR 1)" using eq by (simp add: BoatBech32Polymod_eq F_def)
  then have "F (dat[q := v]) XOR 1 = F dat XOR 1" using polymod_groups6 F by metis
  from arg_cong [OF this, of "\<lambda>x. x XOR 1"] have same: "F (dat[q := v]) = F dat" by (simp add: xor.assoc)
  let ?d = "replicate (length hrp + q) 0 @ [v XOR dat ! q] @ replicate (length dat - Suc q + 6) 0"
  have d: "map2 (XOR) (hrp @ dat[q := v] @ replicate 6 0) (hrp @ dat @ replicate 6 0) = ?d"
    using assms(1) by (intro nth_equalityI) (auto simp: nth_append nth_Cons split: nat.split)
  have "F (dat[q := v]) XOR F dat = foldl polymod_step (1 XOR 1) ?d"
    unfolding F_def d [symmetric] by (rule polymod_xor [symmetric]) simp
  also have "\<dots> = foldl polymod_step (ucast (v XOR dat ! q)) (replicate (length dat - Suc q + 6) 0)"
    by (simp only: foldl_append polymod_zero xor_self_eq) (simp add: polymod_step_pick pick_def)
  finally have "foldl polymod_step (ucast (v XOR dat ! q)) (replicate (length dat - Suc q + 6) 0) = 0"
    using same by simp
  moreover have "short30 (ucast (v XOR dat ! q))"
    using short30_step [of 0 "v XOR dat ! q"] by (simp add: polymod_step_pick pick_def)
  ultimately have "ucast (v XOR dat ! q) = (0 :: u32)" by (rule zeros_kernel)
  then have "bit (ucast (v XOR dat ! q) :: u32) n = bit (0 :: u32) n" for n by (rule arg_cong)
  then have "\<not> bit (v XOR dat ! q) n" for n
    using bit_imp_le_length [of "v XOR dat ! q" n] by (auto simp: bit_unsigned_iff)
  then have "v = dat ! q" by (intro bit_eqI) (auto simp: bit_xor_iff)
  then show False using assms(2) by simp
qed

subsection \<open>Encoding and decoding\<close>

text \<open>The text of an address.\<close>

definition bech32_symbols :: "bytes \<Rightarrow> bytes \<Rightarrow> bytes" where
  "bech32_symbols hrp a = (let d = BoatConvertBits a 8 5 in d @ BoatBech32Polymod (BoatExpandHrp hrp) d)"

definition bech32_text :: "bytes \<Rightarrow> bytes \<Rightarrow> bytes" where
  "bech32_text hrp a = hrp @ [49] @ map bech32_char (bech32_symbols hrp a)"

lemma bech32_symbols_below: "below 5 (bech32_symbols hrp a)"
  by (simp add: bech32_symbols_def Let_def convert_below BoatBech32Polymod_eq groups6_below)

lemma length_bech32_symbols [simp]: "length (bech32_symbols hrp a) = (8 * length a + 4) div 5 + 6"
  by (simp add: bech32_symbols_def Let_def convert_length BoatBech32Polymod_eq)

lemma out_length:
  assumes "n < 500000000"
  shows "unat ((of_nat n div 5) * 8 + ((of_nat n mod 5) * 8 + 4) div 5 :: u32) = (8 * n + 4) div 5"
proof -
  have n: "unat (of_nat n :: u32) = n" using assms by (simp add: unat_of_nat)
  have d: "unat (of_nat n div 5 :: u32) = n div 5" "unat (of_nat n mod 5 :: u32) = n mod 5"
    using n by (simp_all add: unat_div unat_mod)
  have m: "unat ((of_nat n mod 5) * 8 :: u32) = n mod 5 * 8" using d(2) by (simp add: unat_word_ariths)
  have "unat ((of_nat n mod 5) * 8 + 4 :: u32) = n mod 5 * 8 + 4" using m by (simp add: unat_word_ariths)
  then have "unat (((of_nat n mod 5) * 8 + 4) div 5 :: u32) = (n mod 5 * 8 + 4) div 5" by (simp add: unat_div)
  moreover have "unat ((of_nat n div 5) * 8 :: u32) = n div 5 * 8" using d(1) assms by (simp add: unat_word_ariths)
  moreover have "n div 5 * 8 + (n mod 5 * 8 + 4) div 5 = (8 * n + 4) div 5" by presburger
  moreover have "(8 * n + 4) div 5 < 4294967296" using assms by simp
  ultimately show ?thesis by (simp add: unat_word_ariths)
qed

lemma encode_ok:
  assumes "0 < length hrp" "length hrp \<le> 83" "length a < 500000000" "length (bech32_text hrp a) < length buf"
  shows "BoatPlatONBech32Encode (Some a) (of_nat (length a)) (Some buf) (Some (hrp @ rest)) (of_nat (length hrp)) =
     (Inr (int (length (bech32_text hrp a))),
      Some (bech32_text hrp a @ [0] @ drop (length (bech32_text hrp a) + 1) buf))"
proof -
  have h: "unat (of_nat (length hrp) :: u8) = length hrp" using assms(2) by (simp add: unat_of_nat)
  have "\<not> 83 < (of_nat (length hrp) :: u8)" "(of_nat (length hrp) :: u8) \<noteq> 0"
    using h assms(1,2) by (simp_all add: word_less_nat_alt unat_eq_zero [symmetric] del: unat_eq_zero)
  moreover have "unat (of_nat (length a) :: u32) = length a" using assms(3) by (simp add: unat_of_nat)
  ultimately show ?thesis
    using assms(4) h out_length [OF assms(3)]
    by (simp add: BoatPlatONBech32Encode_def Let_def buf_get_def convert_length buf_put_def bech32_text_def bech32_symbols_def
        BoatBech32Polymod_eq ac_simps)
qed

lemma encoded_text:
  assumes "BoatPlatONBech32Encode (Some a) (of_nat (length a)) (Some buf) (Some hrp) (of_nat (length hrp)) = (Inr n, Some str)"
    "0 < length hrp" "length hrp \<le> 83" "length a < 500000000" "length hrp + 1 + (8 * length a + 4) div 5 + 6 < length buf"
  shows "nat n = length (bech32_text hrp a)" "take (nat n) str = bech32_text hrp a"
proof -
  have "length (bech32_text hrp a) < length buf" using assms(5) by (simp add: bech32_text_def)
  then show "nat n = length (bech32_text hrp a)" "take (nat n) str = bech32_text hrp a"
    using encode_ok [OF assms(2-4), of buf "[]"] assms(1) by auto
qed

lemma alphabet_table:
  "map (\<lambda>c. CHARSET_REV ! unat c) BECH32ALPHABET = map int [0..<32]" "list_all (\<lambda>c. unat c < 128) BECH32ALPHABET"
  by code_simp+

lemma bech32_symbol_less: "(\<And>i. bit v i \<Longrightarrow> i < 5) \<Longrightarrow> unat (v :: u8) < 32"
proof -
  assume "\<And>i. bit v i \<Longrightarrow> i < 5"
  then have "v = take_bit 5 v" by (intro bit_eqI) (auto simp: bit_take_bit_iff)
  then have "unat v = take_bit 5 (unat v)" by (metis unsigned_take_bit_eq)
  then show ?thesis using take_bit_nat_less_exp [of 5 "unat v"] by simp
qed

lemma charset_rev_char:
  assumes "\<And>i. bit v i \<Longrightarrow> i < 5"
  shows "charset_rev (bech32_char v) = Inr v"
proof -
  have v: "unat v < 32" by (rule bech32_symbol_less [OF assms])
  have l: "length BECH32ALPHABET = 32" by (simp add: BECH32ALPHABET_def chars_def)
  have "CHARSET_REV ! unat (BECH32ALPHABET ! unat v) = int (unat v)"
    using arg_cong [OF alphabet_table(1), of "\<lambda>l. l ! unat v"] v l by simp
  moreover have "unat (BECH32ALPHABET ! unat v) < 128" using alphabet_table(2) v l by (simp add: list_all_length)
  ultimately show ?thesis by (simp add: charset_rev_def bech32_char_def)
qed

lemma mapR_charset: "below 5 vs \<Longrightarrow> mapR charset_rev (map bech32_char vs) = Inr vs"
  by (induction vs) (simp_all add: charset_rev_char)

lemma chars_inject: "map bech32_char vs = map bech32_char ws \<Longrightarrow> below 5 vs \<Longrightarrow> below 5 ws \<Longrightarrow> vs = ws"
  by (metis mapR_charset sum.inject(2))

lemma decode_split:
  assumes "49 \<notin> set hrp" "0 < length hrp" "length hrp \<le> 83" "6 < length rest"
  shows "BoatPlatONBech32Decode (Some (hrp @ [49] @ rest)) (Some buf) =
     (case mapR charset_rev (take (length rest - 6) rest) of
        Inl e \<Rightarrow> (Inl e, Some buf)
      | Inr dat \<Rightarrow>
          if drop (length rest - 6) rest \<noteq> map bech32_char (BoatBech32Polymod (BoatExpandHrp hrp) dat) then (Inl (Err (- 1)), Some buf)
          else (case buf_put buf 0 (BoatConvertBits dat 5 8) of
                  Inl e \<Rightarrow> (Inl e, Some buf) | Inr b \<Rightarrow> (Inr (length (BoatConvertBits dat 5 8)), Some b)))"
proof -
  have t: "takeWhile (\<lambda>c. c \<noteq> 49) (hrp @ [49] @ rest) = hrp" using assms(1) by (induction hrp) auto
  have d: "int (length (hrp @ [49] @ rest)) - int (length hrp) - 1 - 6 = int (length rest - 6)"
    using assms(4) by simp
  have e: "drop (length hrp + 1) (hrp @ [49] @ rest) = rest" by simp
  then have "drop (length hrp + 1 + (length rest - 6)) (hrp @ [49] @ rest) = drop (length rest - 6) rest"
    by (metis add.commute drop_drop)
  with e show ?thesis
    using assms(2-4)
    unfolding BoatPlatONBech32Decode_def option.case prod.case t d Let_def nat_int by (simp only: length_append) simp
qed

lemma charset_other:
  assumes "unat c < 128" "CHARSET_REV ! unat c \<noteq> CHARSET_REV ! unat (bech32_char v)" "\<And>i. bit v i \<Longrightarrow> i < 5"
  obtains u where "charset_rev c = Inr u" "u \<noteq> v"
proof -
  have r: "list_all (\<lambda>x. x = - 1 \<or> (0 \<le> x \<and> x < 32)) CHARSET_REV" "length CHARSET_REV = 128" by code_simp+
  have v: "word_of_int (CHARSET_REV ! unat (bech32_char v)) = v" "unat (bech32_char v) < 128"
    using charset_rev_char [of v, OF assms(3)] by (simp_all add: charset_rev_def split: if_splits)
  have in_table: "CHARSET_REV ! k = - 1 \<or> (0 \<le> CHARSET_REV ! k \<and> CHARSET_REV ! k < 32)" if "k < 128" for k
    using r that by (simp add: list_all_length)
  have u: "uint (word_of_int x :: u8) = (if x = - 1 then 255 else x)" if "x = - 1 \<or> (0 \<le> x \<and> x < 32)" for x
    using that by (auto simp: uint_word_of_int)
  have "word_of_int (CHARSET_REV ! unat c) \<noteq> v"
    using u [OF in_table [OF assms(1)]] u [OF in_table [OF v(2)]] v(1) assms(2) in_table [OF assms(1)] in_table [OF v(2)]
    by (auto split: if_splits)
  then show ?thesis using assms(1) by (intro that) (simp_all add: charset_rev_def)
qed

lemma mapR_update:
  "mapR f xs = Inr ys \<Longrightarrow> f x = Inr y \<Longrightarrow> mapR f (xs[q := x]) = Inr (ys[q := y])"
proof (induction xs arbitrary: ys q)
  case (Cons a xs)
  then obtain b bs where "f a = Inr b" "mapR f xs = Inr bs" "ys = b # bs" by (auto simp: bindR_eq_Inr)
  then show ?case using Cons by (cases q) auto
qed simp

lemma decode_text:
  assumes "0 < length hrp" "length hrp \<le> 83" "49 \<notin> set hrp" "0 < length a" "length a' \<le> length out"
    "a' = a @ (if 5 dvd length a then [] else [0])"
  shows "BoatPlatONBech32Decode (Some (bech32_text hrp a)) (Some out) = (Inr (length a'), Some (a' @ drop (length a') out))"
proof -
  have p: "0 < (8 * length a + 4) div 5" using assms(4) by presburger
  have s: "bech32_symbols hrp a = BoatConvertBits a 8 5 @ BoatBech32Polymod (BoatExpandHrp hrp) (BoatConvertBits a 8 5)"
    by (simp add: bech32_symbols_def Let_def)
  have d: "5 dvd 8 * length a \<longleftrightarrow> 5 dvd length a" by presburger
  show ?thesis
    unfolding bech32_text_def
    by (subst decode_split [OF assms(3,1,2)])
      (use p assms(5,6) in \<open>simp_all add: s convert_length BoatBech32Polymod_eq take_map drop_map mapR_charset convert_below
         convert_back d buf_put_def\<close>)
qed

lemma text_symbol:
  assumes "length hrp < k" "k < length hrp + 1 + length (bech32_symbols hrp a)"
  shows "CHARSET_REV ! unat (bech32_text hrp a ! k) \<noteq> - 1"
proof -
  let ?v = "bech32_symbols hrp a ! (k - length hrp - 1)"
  have "bech32_text hrp a ! k = bech32_char ?v" using assms by (simp add: bech32_text_def nth_append)
  moreover have b: "bit ?v i \<Longrightarrow> i < 5" for i
    using bech32_symbols_below by (rule belowD) (use assms in auto)
  ultimately have "charset_rev (bech32_text hrp a ! k) = Inr ?v" "unat ?v < 32"
    using charset_rev_char [of ?v, OF b] bech32_symbol_less [of ?v, OF b] by simp_all
  moreover from this(2) have "?v \<noteq> word_of_int (- 1)" by (auto simp: unsigned_minus_1_eq_mask mask_eq_exp_minus_1)
  ultimately show ?thesis by (auto simp: charset_rev_def split: if_splits)
qed

lemma decode_long:
  assumes "0 < length hrp" "length hrp \<le> 83" "49 \<notin> set hrp" "0 < length a" "length out < length a"
  shows "BoatPlatONBech32Decode (Some (bech32_text hrp a)) (Some out) = (Inl UB, Some out)"
proof -
  have p: "0 < (8 * length a + 4) div 5" using assms(4) by presburger
  have s: "bech32_symbols hrp a = BoatConvertBits a 8 5 @ BoatBech32Polymod (BoatExpandHrp hrp) (BoatConvertBits a 8 5)"
    by (simp add: bech32_symbols_def Let_def)
  show ?thesis
    unfolding bech32_text_def
    by (subst decode_split [OF assms(3,1,2)])
      (use p assms(5) in \<open>simp_all add: s convert_length BoatBech32Polymod_eq take_map drop_map mapR_charset convert_below
         convert_back buf_put_def\<close>)
qed

lemma decode_substituted:
  assumes "0 < length hrp" "length hrp \<le> 83" "49 \<notin> set hrp" "0 < length a" "length hrp < p" "p < length (bech32_text hrp a)"
    "unat c < 128" "CHARSET_REV ! unat c \<noteq> CHARSET_REV ! unat (bech32_text hrp a ! p)"
  shows "BoatPlatONBech32Decode (Some ((bech32_text hrp a)[p := c])) (Some out) = (Inl (Err (- 1)), Some out)"
proof -
  let ?d = "BoatConvertBits a 8 5"
  let ?e = "BoatExpandHrp hrp"
  let ?k = "BoatBech32Polymod ?e ?d"
  have t: "bech32_text hrp a = hrp @ [49] @ map bech32_char (?d @ ?k)"
    by (simp add: bech32_text_def bech32_symbols_def Let_def)
  define q where "q = p - length hrp - 1"
  have q: "p = length hrp + 1 + q" "q < length ?d + 6"
    using assms(5,6) by (simp_all add: q_def t BoatBech32Polymod_eq)
  have u: "(bech32_text hrp a)[p := c] = hrp @ [49] @ (map bech32_char (?d @ ?k))[q := c]"
    unfolding t q(1) by (simp add: list_update_append)
  have "bech32_text hrp a ! p = bech32_char ((?d @ ?k) ! q)"
    using q by (simp add: t nth_append BoatBech32Polymod_eq)
  then have c: "CHARSET_REV ! unat c \<noteq> CHARSET_REV ! unat (bech32_char ((?d @ ?k) ! q))" using assms(8) by simp
  have k: "below 5 ?d" "below 5 ?k" "length ?k = 6" by (simp_all add: convert_below groups6_below BoatBech32Polymod_eq)
  have "5 \<le> 8 * length a + 4" using assms(4) by linarith
  then have p0: "0 < length ?d" by (simp add: convert_length div_greater_zero_iff)
  show ?thesis
  proof (cases "q < length ?d")
    case True
    have "\<And>i. bit (?d ! q) i \<Longrightarrow> i < 5" using k(1) True by (auto simp: below_def)
    then obtain v where v: "charset_rev c = Inr v" "v \<noteq> ?d ! q"
      using charset_other [OF assms(7), of "?d ! q"] c True by (auto simp: nth_append)
    have "BoatBech32Polymod ?e (?d[q := v]) \<noteq> ?k" by (rule checksum_separates [OF True v(2)])
    then have "map bech32_char ?k \<noteq> map bech32_char (BoatBech32Polymod ?e (?d[q := v]))"
      using chars_inject [OF _ k(2)] by (metis BoatBech32Polymod_eq groups6_below)
    moreover have "mapR charset_rev ((map bech32_char ?d)[q := c]) = Inr (?d[q := v])"
      by (rule mapR_update [OF mapR_charset [OF k(1)] v(1)])
    ultimately show ?thesis
      unfolding u using True k(3) p0
      by (subst decode_split [OF assms(3,1,2)]) (simp_all add: list_update_append)
  next
    case False
    then have "(map bech32_char ?k)[q - length ?d := c] \<noteq> map bech32_char ?k"
      using c q(2) k(3) by (auto simp: nth_append dest!: arg_cong [where f = "\<lambda>l. l ! (q - length ?d)"])
    then show ?thesis
      unfolding u using False k(3) p0 q(2)
      by (subst decode_split [OF assms(3,1,2)]) (simp_all add: list_update_append mapR_charset [OF k(1)])
  qed
qed

text \<open>The checksum of BIP-173, as its reference implementation computes it.\<close>

definition bip173_generator :: "u32 list" where
  "bip173_generator = [0x3b6a57b2, 0x26508e6d, 0x1ea119fa, 0x3d4233dd, 0x2a1462b3]"

definition bip173_polymod :: "bytes \<Rightarrow> u32" where
  "bip173_polymod values = foldl (\<lambda>chk v.
     let top = chk div 2 ^ 25 in
     foldl (\<lambda>c i. if bit top i then c XOR bip173_generator ! i else c) ((chk mod 2 ^ 25) * 32 XOR ucast v) [0..<5]) 1 values"

definition bip173_expand :: "bytes \<Rightarrow> bytes" where
  "bip173_expand hrp = map (\<lambda>c. c div 32) hrp @ [0] @ map (\<lambda>c. c mod 32) hrp"

lemma bip173_polymod_eq: "bip173_polymod values = foldl polymod_step 1 values"
proof -
  have m: "(0x1ffffff :: u32) = mask 25" by (simp add: mask_eq_exp_minus_1)
  have "(let top = chk div 2 ^ 25 in
     foldl (\<lambda>c i. if bit top i then c XOR bip173_generator ! i else c) ((chk mod 2 ^ 25) * 32 XOR ucast v) [0..<5]) = polymod_step chk v"
    for chk and v :: u8
  proof -
    have "(chk mod 2 ^ 25) * 32 = push_bit 5 (chk AND mask 25)"
      by (simp add: push_bit_eq_mult take_bit_eq_mod flip: take_bit_eq_mask)
    moreover have "(if bit (chk div 2 ^ 25) i then c XOR g else c) = c XOR pick chk (25 + i) g" for c g i
    proof -
      have "bit (chk div 2 ^ 25) i = bit chk (25 + i)" by (metis bit_drop_bit_eq comp_apply drop_bit_eq_div)
      then show ?thesis by (simp add: pick_def)
    qed
    moreover have "foldl (\<lambda>c i. c XOR pick chk (25 + i) (bip173_generator ! i)) x [0..<5] =
        x XOR pick chk 25 0x3b6a57b2 XOR pick chk 26 0x26508e6d XOR pick chk 27 0x1ea119fa XOR pick chk 28 0x3d4233dd
          XOR pick chk 29 0x2a1462b3" for x
    proof -
      have "[0..<5] = [0, 1, 2, 3, 4 :: nat]" by (simp add: upt_rec)
      then show ?thesis by (simp add: bip173_generator_def xor.assoc)
    qed
    ultimately show ?thesis unfolding Let_def polymod_step_pick m by (simp only: xor.assoc)
  qed
  then show ?thesis by (simp add: bip173_polymod_def)
qed

lemma bip173_expand_eq: "\<forall>c \<in> set hrp. c < 128 \<Longrightarrow> BoatExpandHrp hrp = bip173_expand hrp"
proof -
  have m: "(0x7f :: u8) = mask 7" "(0x1f :: u8) = mask 5" "(7 :: u8) = mask 3" by (simp_all add: mask_eq_exp_minus_1)
  have "drop_bit 5 (c AND 0x7f) AND 7 = c div 32 \<and> (c AND 0x7f) AND 0x1f = c mod 32" if "c < 128" for c :: u8
  proof -
    have "unat c < 2 ^ 7" using that by (simp add: word_less_nat_alt)
    then have "c = take_bit 7 c" by (simp add: word_unat_eq_iff unsigned_take_bit_eq take_bit_nat_eq_self)
    then have b: "i < 7" if "bit c i" for i using that by (metis bit_take_bit_iff)
    have "n < 2" if "bit c (5 + n)" for n using b [OF that] by simp
    then have b2: "n < 2" "n < 3" if "bit c (5 + n)" for n using that by fastforce+
    have "c div 32 = drop_bit 5 c" "c mod 32 = take_bit 5 c" by (simp_all add: drop_bit_eq_div take_bit_eq_mod)
    then show ?thesis
      unfolding m
      by (auto intro!: bit_eqI simp: bit_drop_bit_eq bit_and_iff bit_mask_iff bit_take_bit_iff dest: b b2)
  qed
  then show "\<forall>c \<in> set hrp. c < 128 \<Longrightarrow> BoatExpandHrp hrp = bip173_expand hrp"
    by (simp add: BoatExpandHrp_def bip173_expand_def)
qed

subsection \<open>Properties\<close>

text \<open>
  C14: The encoder writes the address that BIP-173 prescribes: the prefix, the separator 1, the symbols that hold the bits of the
  address in groups of five, padded with less than five zeros, and six symbols with which the checksum of BIP-173's reference implementation comes
  out as 1. A terminator follows, the rest of the buffer is left alone, and the result is the length of the text.
\<close>

theorem bech32_encoded:
  assumes "0 < length hrp" "length hrp \<le> 83" "\<forall>c \<in> set hrp. c < 128" "length a < 500000000"
    "length hrp + 1 + (8 * length a + 4) div 5 + 6 < length buf"
  shows "\<exists>symbols checksum str.
     BoatPlatONBech32Encode (Some a) (of_nat (length a)) (Some buf) (Some (hrp @ rest)) (of_nat (length hrp)) =
       (Inr (int (length str)), Some (str @ [0] @ drop (length str + 1) buf)) \<and>
     str = hrp @ chars ''1'' @ map bech32_char (symbols @ checksum) \<and> below 5 (symbols @ checksum) \<and> length checksum = 6 \<and>
     (\<exists>pad < 5. concat (map (bits_of 5) symbols) = concat (map (bits_of 8) a) @ replicate pad False) \<and>
     bip173_polymod (bip173_expand hrp @ symbols @ checksum) = 1"
proof -
  let ?d = "BoatConvertBits a 8 5"
  let ?c = "BoatBech32Polymod (BoatExpandHrp hrp) ?d"
  obtain pad where "concat (map (bits_of 5) ?d) = concat (map (bits_of 8) a) @ replicate pad False" "pad < 5"
    by (rule convert_bits [of 5 8 a]) (simp_all add: below_8)
  moreover have "bip173_polymod (bip173_expand hrp @ ?d @ ?c) = 1"
    using checksum_verifies [of "BoatExpandHrp hrp" ?d] by (simp add: bip173_polymod_eq bip173_expand_eq [OF assms(3)])
  moreover have "bech32_text hrp a = hrp @ chars ''1'' @ map bech32_char (?d @ ?c)" "below 5 (?d @ ?c)" "length ?c = 6"
    using bech32_symbols_below [of hrp a]
    by (simp_all add: bech32_text_def bech32_symbols_def Let_def chars_def BoatBech32Polymod_eq)
  moreover have "length (bech32_text hrp a) < length buf" using assms(5) by (simp add: bech32_text_def)
  ultimately show ?thesis
    using encode_ok [OF assms(1,2,4), of buf rest] by (intro exI [of _ ?d] exI [of _ ?c] exI [of _ "bech32_text hrp a"]) auto
qed

theorem bech32_encoded_witness:
  "fst (BoatPlatONBech32Encode (Some (replicate 20 7)) 20 (Some (replicate 45 0)) (Some (chars ''lat'' @ [0])) 3) = Inr 42"
  using bech32_encoded [of "chars ''lat''" "replicate 20 7" "replicate 45 0" "[0]"]
  by (auto simp: chars_def dest!: arg_cong [where f = length] simp: length_groups simp del: map_replicate)

text \<open>
  C15: Decoding gives the address back, followed by one zero byte when its bits do not fill the symbols, which they do for the 20 bytes of
  an account.
\<close>

theorem bech32_roundtrip:
  assumes "BoatPlatONBech32Encode (Some a) (of_nat (length a)) (Some buf) (Some hrp) (of_nat (length hrp)) = (Inr n, Some str)"
    "0 < length hrp" "length hrp \<le> 83" "49 \<notin> set hrp" "0 < length a" "length a < 500000000"
    "length hrp + 1 + (8 * length a + 4) div 5 + 6 < length buf" "length a' \<le> length out"
    "a' = a @ (if 5 dvd length a then [] else [0])"
  shows "BoatPlatONBech32Decode (Some (take (nat n) str)) (Some out) = (Inr (length a'), Some (a' @ drop (length a') out))"
proof -
  show ?thesis
    unfolding encoded_text(2) [OF assms(1-3,6,7)] by (rule decode_text [OF assms(2-5,8,9)])
qed

theorem bech32_roundtrip_witness:
  "\<exists>str. BoatPlatONBech32Encode (Some (replicate 20 7)) 20 (Some (replicate 45 0)) (Some (chars ''lat'')) 3 = (Inr 42, Some str) \<and>
     BoatPlatONBech32Decode (Some (take 42 str)) (Some (replicate 21 0)) = (Inr 20, Some (replicate 20 7 @ [0]))"
proof -
  obtain str where e: "BoatPlatONBech32Encode (Some (replicate 20 7)) 20 (Some (replicate 45 0)) (Some (chars ''lat'')) 3 = (Inr 42, Some str)"
    using encode_ok [of "chars ''lat''" "replicate 20 7" "replicate 45 0" "[]"] by (simp add: bech32_text_def chars_def)
  then show ?thesis
    using bech32_roundtrip [of "replicate 20 7" "replicate 45 0" "chars ''lat''" 42 str "replicate 20 7" "replicate 21 0"]
    by (simp add: chars_def drop_replicate)
qed

text \<open>
  C16: A substituted character is detected: whatever 7-bit character replaces one behind the separator of an encoded address, decoding
  fails and writes nothing, unless it is the same letter in the other case.
\<close>

theorem bech32_substitution_detected:
  assumes "BoatPlatONBech32Encode (Some a) (of_nat (length a)) (Some buf) (Some hrp) (of_nat (length hrp)) = (Inr n, Some str)"
    "0 < length hrp" "length hrp \<le> 83" "49 \<notin> set hrp" "0 < length a" "length a < 500000000"
    "length hrp + 1 + (8 * length a + 4) div 5 + 6 < length buf"
    "length hrp < p" "p < nat n" "unat c < 128" "CHARSET_REV ! unat c \<noteq> CHARSET_REV ! unat (str ! p)"
  shows "BoatPlatONBech32Decode (Some ((take (nat n) str)[p := c])) (Some out) = (Inl (Err (- 1)), Some out)"
proof -
  note n = encoded_text [OF assms(1-3,6,7)]
  have "str ! p = bech32_text hrp a ! p" using n(2) assms(9) by (metis nth_take)
  then show ?thesis
    unfolding n(2) using decode_substituted [OF assms(2-5,8)] assms(9-11) by (simp add: n(1))
qed

theorem bech32_substitution_detected_witness:
  "\<exists>str. BoatPlatONBech32Encode (Some (replicate 20 7)) 20 (Some (replicate 45 0)) (Some (chars ''lat'')) 3 = (Inr 42, Some str) \<and>
     BoatPlatONBech32Decode (Some ((take 42 str)[9 := 0])) (Some []) = (Inl (Err (- 1)), Some [])"
proof -
  let ?t = "bech32_text (chars ''lat'') (replicate 20 7)"
  obtain str where e: "BoatPlatONBech32Encode (Some (replicate 20 7)) 20 (Some (replicate 45 0)) (Some (chars ''lat'')) 3 = (Inr 42, Some str)"
    using encode_ok [of "chars ''lat''" "replicate 20 7" "replicate 45 0" "[]"] by (simp add: bech32_text_def chars_def)
  then have "take 42 str = ?t"
    using encoded_text(2) [of "replicate 20 7" "replicate 45 0" "chars ''lat''" 42 str] by (simp add: chars_def)
  from arg_cong [OF this, of "\<lambda>s. s ! 9"] have "str ! 9 = ?t ! 9" by simp
  moreover have "CHARSET_REV ! unat (?t ! 9) \<noteq> - 1" by (rule text_symbol) (simp_all add: chars_def)
  ultimately have "CHARSET_REV ! unat (str ! 9) \<noteq> - 1" by simp
  moreover have "CHARSET_REV ! 0 = - 1" by (simp add: CHARSET_REV_def)
  ultimately show ?thesis
    using e bech32_substitution_detected [of "replicate 20 7" "replicate 45 0" "chars ''lat''" 42 str 9 0 "[]"]
    by (intro exI [of _ str]) (simp add: chars_def)
qed

end
