(* ===== verification/Boat_PlatonApi.thy ===== *)
theory Boat_PlatonApi
  imports Boat_Application Boat_Bech32
begin

text \<open>
  \<open>sdk/wallet/api_platon.c\<close>: the wallet and transaction calls of PlatON. The program of \<open>Boat_TxApi\<close> with Bech32 addresses: the
  transaction holds the own address as text, the recipient comes as text and is kept as text and as 20 bytes.
\<close>

subsection \<open>The calls\<close>

record BoatPlatONRawtxFields = BoatRawtxFields +
  recipientbech32 :: bytes

record BoatPlatONTx = "BoatPlatONRawtxFields BoatTx" +
  platon_address :: bytes

definition zero_platon_fields :: BoatPlatONRawtxFields where
  "zero_platon_fields = BoatRawtxFields.extend zero_fields \<lparr>recipientbech32 = replicate 45 0\<rparr>"

definition platon_api :: "'w Platform \<Rightarrow> ('w \<Rightarrow> 'w) \<Rightarrow> (BoatPlatONTx, 'w) TxApi" where
  "platon_api pf sleep =
     \<lparr>api_nonce_method = ''platon_getTransactionCount'', api_gasprice_method = ''platon_gasPrice'',
      api_receipt_method = ''platon_getTransactionReceipt'', api_address = (\<lambda>t. c_string (platon_address t)), api_send = PlatONSendRawtx pf,
      api_transfer_data = None, api_interval = 2, api_sleep = sleep\<rparr>"

definition BoatPlatONWalletInit ::
  "(nat \<Rightarrow> bytes option) \<Rightarrow> (bytes \<Rightarrow> bytes) \<Rightarrow> BoatWallet option \<Rightarrow> Web3IntfContext option res \<Rightarrow> u8 \<Rightarrow> u8 \<Rightarrow>
     nvram \<Rightarrow> BoatWallet option res" where
  "BoatPlatONWalletInit mal keccak = WalletInit mal keccak BoATPlatON_GetNetworkByIndex"

definition BoatPlatONWalletDeInit :: "BoatWallet option \<Rightarrow> nat" where
  "BoatPlatONWalletDeInit = WalletDeInit"

text \<open>The own address, as a C string in the object \<open>buf\<close>.\<close>

definition own_bech32 :: "BoatWallet \<Rightarrow> bytes \<Rightarrow> bytes \<Rightarrow> int res \<times> bytes option" where
  "own_bech32 wl hrp buf =
     BoatPlatONBech32Encode (Some (account_address (account_info wl))) 20 (Some buf) (Some hrp) (of_nat (length hrp))"

text \<open>The block for the address has 50 bytes; an error of the encoder is not checked.\<close>

definition BoatPlatONWalletGetBalance ::
  "'w Platform \<Rightarrow> BoatWallet option \<Rightarrow> bytes option \<Rightarrow> 'w \<Rightarrow> bytes option res \<times> BoatWallet option \<times> 'w" where
  "BoatPlatONWalletGetBalance pf wl_ptr hrp_str w =
     (case (wl_ptr, hrp_str) of
        (Some wl, Some hrp) \<Rightarrow>
          (case pf_malloc pf 50 of
             None \<Rightarrow> (Inr None, wl_ptr, w)
           | Some block \<Rightarrow>
               (case own_bech32 wl hrp block of
                  (Inl UB, _) \<Rightarrow> (Inl UB, wl_ptr, w)
                | (_, None) \<Rightarrow> (Inl UB, wl_ptr, w)
                | (_, Some b) \<Rightarrow>
                    (case bindR (c_string b) (\<lambda>a. bindR (c_string (node_url_str (network_info wl))) (\<lambda>url. Inr (a, url))) of
                       Inl e \<Rightarrow> (Inl e, wl_ptr, w)
                     | Inr (a, url) \<Rightarrow>
                         (case web3_getBalance (pf_rpc pf) (pf_malloc pf) (web3intf_context_ptr wl) (Some url)
                                 (Some \<lparr>gb_method_name_str = chars ''platon_getBalance'', gb_address_str = a,
                                        gb_block_num_str = chars ''latest''\<rparr>) w of
                            (r, ctx, w') \<Rightarrow> (or_null r, Some (wl\<lparr>web3intf_context_ptr := ctx\<rparr>), w')))))
      | _ \<Rightarrow> (Inr None, wl_ptr, w))"

definition BoatPlatONParseRpcResponseStringResult ::
  "'w Platform \<Rightarrow> bytes option \<Rightarrow> BoatFieldVariable option \<Rightarrow> unit res \<times> BoatFieldVariable option" where
  "BoatPlatONParseRpcResponseStringResult = ParseRpcResponseStringResult"

definition BoatPlatONParseRpcResponseResult ::
  "'w Platform \<Rightarrow> bytes option \<Rightarrow> bytes option \<Rightarrow> BoatFieldVariable option \<Rightarrow> unit res \<times> BoatFieldVariable option" where
  "BoatPlatONParseRpcResponseResult = ParseRpcResponseResult"

definition BoatPlatONTxSetNonce :: "'w Platform \<Rightarrow> ('w \<Rightarrow> 'w) \<Rightarrow> u64 \<Rightarrow> BoatPlatONTx option \<Rightarrow> 'w \<Rightarrow> unit res \<times> BoatPlatONTx option \<times> 'w" where
  "BoatPlatONTxSetNonce pf sleep n = with_tx (TxSetNonce pf (platon_api pf sleep) n)"

definition BoatPlatONTxSetGasPrice ::
  "'w Platform \<Rightarrow> ('w \<Rightarrow> 'w) \<Rightarrow> BoatFieldMax option \<Rightarrow> BoatPlatONTx option \<Rightarrow> 'w \<Rightarrow> unit res \<times> BoatPlatONTx option \<times> 'w" where
  "BoatPlatONTxSetGasPrice pf sleep price = with_tx (TxSetGasPrice pf (platon_api pf sleep) price)"

definition BoatPlatONTxSetGasLimit :: "BoatFieldMax option \<Rightarrow> BoatPlatONTx option \<Rightarrow> 'w \<Rightarrow> unit res \<times> BoatPlatONTx option \<times> 'w" where
  "BoatPlatONTxSetGasLimit limit = with_tx (TxSetGasLimit limit)"

definition BoatPlatONTxSetRecipient :: "bytes \<Rightarrow> BoatPlatONTx option \<Rightarrow> 'w \<Rightarrow> unit res \<times> BoatPlatONTx option \<times> 'w" where
  "BoatPlatONTxSetRecipient a = with_tx (TxSetRecipient a)"

definition BoatPlatONTxSetValue :: "BoatFieldMax option \<Rightarrow> BoatPlatONTx option \<Rightarrow> 'w \<Rightarrow> unit res \<times> BoatPlatONTx option \<times> 'w" where
  "BoatPlatONTxSetValue amount = with_tx (TxSetValue amount)"

definition BoatPlatONTxSetData :: "BoatFieldVariable option \<Rightarrow> BoatPlatONTx option \<Rightarrow> 'w \<Rightarrow> unit res \<times> BoatPlatONTx option \<times> 'w" where
  "BoatPlatONTxSetData payload = with_tx (TxSetData payload)"

text \<open>
  \<open>TxInit\<close>: the recipient is decoded into the local \<open>recipient[20]\<close>, whose content before is \<open>junk_addr\<close>, and its text
  is copied to the 45 bytes of \<open>recipientbech32\<close>.
\<close>

definition decode_recipient :: "bytes \<Rightarrow> bytes \<Rightarrow> bytes res" where
  "decode_recipient junk_addr recipient_str =
     (case BoatPlatONBech32Decode (Some recipient_str) (Some junk_addr) of
        (Inl UB, _) \<Rightarrow> Inl UB
      | (Inl (Err _), _) \<Rightarrow> Inl (Err BOAT_ERROR_COMMON_INVALID_ARGUMENT)
      | (Inr n, b) \<Rightarrow> guardR (n = 0) BOAT_ERROR_COMMON_INVALID_ARGUMENT (case b of None \<Rightarrow> Inl UB | Some a \<Rightarrow> Inr a))"

definition init_platon_fields ::
  "'w Platform \<Rightarrow> ('w \<Rightarrow> 'w) \<Rightarrow> BoatFieldMax \<Rightarrow> bytes \<Rightarrow> bytes option \<Rightarrow> bytes option \<Rightarrow> bytes \<Rightarrow>
     BoatPlatONTx \<times> 'w \<Rightarrow> unit res \<times> BoatPlatONTx \<times> 'w" where
  "init_platon_fields pf sleep junk junk_addr gasprice_str gaslimit_str recipient_str =
     bindS (init_gas pf (platon_api pf sleep) junk gasprice_str gaslimit_str) (\<lambda>_.
     bindS (liftS (decode_recipient junk_addr recipient_str)) (\<lambda>a.
     bindS (put_raw (\<lambda>raw. bindR (buf_put (replicate 45 0) 0 recipient_str) (\<lambda>b. Inr (raw\<lparr>recipientbech32 := b\<rparr>)))) (\<lambda>_.
     bindS (TxSetRecipient a) (\<lambda>_.
     TxSetValue None))))"

definition platon_args_ok :: "bytes option \<Rightarrow> bytes option \<Rightarrow> bytes \<Rightarrow> bool" where
  "platon_args_ok gasprice_str gaslimit_str recipient_str \<longleftrightarrow>
     (gasprice_str \<noteq> None \<longrightarrow> UtilityStringIsHex gasprice_str) \<and> (gaslimit_str \<noteq> None \<longrightarrow> UtilityStringIsHex gaslimit_str) \<and>
     UtilityStringLenCheck recipient_str = 0"

definition BoatPlatONTxInit ::
  "'w Platform \<Rightarrow> ('w \<Rightarrow> 'w) \<Rightarrow> BoatFieldMax \<Rightarrow> bytes \<Rightarrow> BoatWallet option \<Rightarrow> BoatPlatONTx option \<Rightarrow>
     bool \<Rightarrow> bytes option \<Rightarrow> bytes option \<Rightarrow> bytes option \<Rightarrow> bytes option \<Rightarrow> 'w \<Rightarrow> unit res \<times> BoatPlatONTx option \<times> 'w" where
  "BoatPlatONTxInit pf sleep junk junk_addr wl_ptr tx is_sync gasprice_str gaslimit_str recipient_str hrp_str w =
     (case (wl_ptr, tx, recipient_str, hrp_str) of
        (Some wl, Some t, Some r, Some hrp) \<Rightarrow>
          if \<not> platon_args_ok gasprice_str gaslimit_str r then (Inl (Err BOAT_ERROR_COMMON_INVALID_ARGUMENT), tx, w)
          else
            (let t1 = t\<lparr>wallet_ptr := Some wl, rawtx_fields := zero_platon_fields\<rparr> in
             case own_bech32 wl hrp (platon_address t1) of
               (Inr _, Some b) \<Rightarrow>
                 (case init_platon_fields pf sleep junk junk_addr gasprice_str gaslimit_str r
                         (t1\<lparr>is_sync_tx := is_sync, platon_address := b\<rparr>, w) of
                    (res, t', w') \<Rightarrow> (res, Some t', w'))
             | (Inl (Err _), _) \<Rightarrow> (Inl (Err BOAT_ERROR_COMMON_INVALID_ARGUMENT), Some t1, w)
             | _ \<Rightarrow> (Inl UB, Some t1, w))
      | _ \<Rightarrow> (Inl (Err BOAT_ERROR_COMMON_INVALID_ARGUMENT), tx, w))"

definition BoatPlatONGetTransactionReceipt ::
  "'w Platform \<Rightarrow> ('w \<Rightarrow> 'w) \<Rightarrow> BoatPlatONTx option \<Rightarrow> 'w \<Rightarrow> unit res \<times> BoatPlatONTx option \<times> 'w" where
  "BoatPlatONGetTransactionReceipt pf sleep = unchecked_tx (TxGetReceipt pf (platon_api pf sleep))"

definition BoatPlatONSendRawtxWithReceipt ::
  "'w Platform \<Rightarrow> ('w \<Rightarrow> 'w) \<Rightarrow> BoatPlatONTx option \<Rightarrow> 'w \<Rightarrow> unit res \<times> BoatPlatONTx option \<times> 'w" where
  "BoatPlatONSendRawtxWithReceipt pf sleep = unchecked_tx (SendRawtxWithReceipt pf (platon_api pf sleep))"

definition BoatPlatONTxSend :: "'w Platform \<Rightarrow> ('w \<Rightarrow> 'w) \<Rightarrow> BoatPlatONTx option \<Rightarrow> 'w \<Rightarrow> unit res \<times> BoatPlatONTx option \<times> 'w" where
  "BoatPlatONTxSend pf sleep = with_tx (TxSend pf (platon_api pf sleep))"

definition BoatPlatONTransfer ::
  "'w Platform \<Rightarrow> ('w \<Rightarrow> 'w) \<Rightarrow> BoatFieldMax \<Rightarrow> bytes option \<Rightarrow> BoatPlatONTx option \<Rightarrow> 'w \<Rightarrow> unit res \<times> BoatPlatONTx option \<times> 'w" where
  "BoatPlatONTransfer pf sleep junk value_hex_str = with_tx (Transfer pf (platon_api pf sleep) junk value_hex_str)"

definition platon_call_node ::
  "'w Platform \<Rightarrow> bytes \<Rightarrow> BoatPlatONTx \<times> 'w \<Rightarrow> bytes option res \<times> BoatPlatONTx \<times> 'w" where
  "platon_call_node pf hex s =
     bindS (liftS (c_string (platon_address (fst s)))) (\<lambda>own.
     bindS (liftS (c_string (recipientbech32 (rawtx_fields (fst s))))) (\<lambda>callee.
     ask_node (\<lambda>ctx url. platon_web3_call (pf_rpc pf) (pf_malloc pf) ctx url
       (Some \<lparr>call_method_name_str = chars ''platon_call'', call_from = own, call_to = callee,
              call_gas = chars ''0x1fffff'', call_gasPrice = chars ''0x12a05f200'', call_data = hex,
              call_block_num_str = chars ''latest''\<rparr>)))) s"

definition BoatPlatONCallContractFunc ::
  "'w Platform \<Rightarrow> bytes option \<Rightarrow> u32 \<Rightarrow> BoatPlatONTx option \<Rightarrow> 'w \<Rightarrow> bytes option res \<times> BoatPlatONTx option \<times> 'w" where
  "BoatPlatONCallContractFunc pf rlp_param_ptr rlp_param_len tx w =
     (case rlp_call_data rlp_param_ptr rlp_param_len of
        Inl e \<Rightarrow> (Inl e, tx, w)
      | Inr None \<Rightarrow> (Inr None, tx, w)
      | Inr (Some h) \<Rightarrow>
          (case tx of
             None \<Rightarrow> (Inl UB, tx, w)
           | Some t \<Rightarrow> (case platon_call_node pf h (t, w) of (r, t', w') \<Rightarrow> (or_null r, Some t', w'))))"

subsection \<open>Filling a transaction\<close>

lemma text_length: "length a = 20 \<Longrightarrow> length (bech32_text hrp a) = length hrp + 39"
  by (simp add: bech32_text_def)

lemma own_bech32_ok:
  assumes "length (account_address (account_info wl)) = 20" "0 < length hrp" "length hrp \<le> 5" "length buf = 45"
  shows "own_bech32 wl hrp buf = (Inr (int (length hrp + 39)), Some (bech32_text hrp (account_address (account_info wl)) @ [0] @
     drop (length hrp + 40) buf))"
  using encode_ok [of hrp "account_address (account_info wl)" buf "[]"] assms
  by (simp add: own_bech32_def text_length ac_simps)

lemma decode_recipient_ok:
  assumes "length a = 20" "length junk_addr = 20" "0 < length hrp" "length hrp \<le> 83" "49 \<notin> set hrp"
  shows "decode_recipient junk_addr (bech32_text hrp a) = Inr a"
  using decode_text [OF assms(3-5), of a a junk_addr] assms(1,2) by (simp add: decode_recipient_def)

lemma decode_recipient_substituted:
  assumes "0 < length hrp" "length hrp \<le> 83" "49 \<notin> set hrp" "0 < length a" "length hrp < p" "p < length (bech32_text hrp a)"
    "unat c < 128" "CHARSET_REV ! unat c \<noteq> CHARSET_REV ! unat (bech32_text hrp a ! p)"
  shows "decode_recipient junk_addr ((bech32_text hrp a)[p := c]) = Inl (Err BOAT_ERROR_COMMON_INVALID_ARGUMENT)"
  by (simp add: decode_recipient_def decode_substituted [OF assms])

lemma decode_recipient_long:
  assumes "length junk_addr < length a" "0 < length hrp" "length hrp \<le> 83" "49 \<notin> set hrp"
  shows "decode_recipient junk_addr (bech32_text hrp a) = Inl UB"
proof -
  have "0 < length a" using assms(1) by (cases a) auto
  from decode_long [OF assms(2-4) this] assms(1) show ?thesis by (simp add: decode_recipient_def)
qed

lemma zero_platon_sized: "sized_fields zero_platon_fields"
  by (simp add: sized_fields_def zero_fields_def zero_platon_fields_def zero_max_def fields_ok_def max_fits_def var_fits_def
      rawtx_sized_def BoatRawtxFields.defs)

text \<open>Up to the recipient an initialisation succeeds.\<close>

lemma platon_init_start:
  assumes "hex_number p gp" "hex_number l gl" "length (max_field junk) = 32" "length (account_address (account_info wl)) = 20"
    "length (platon_address t) = 45" "0 < length hrp" "length hrp \<le> 5" "UtilityStringLenCheck r = 0"
  obtains g h t1 where "BoatPlatONTxInit pf sleep junk junk_addr (Some wl) (Some t) sync (Some p) (Some l) (Some r) (Some hrp) w =
      (case bindS (liftS (decode_recipient junk_addr r)) (\<lambda>a.
         bindS (put_raw (\<lambda>raw. bindR (buf_put (replicate 45 0) 0 r) (\<lambda>b. Inr (raw\<lparr>recipientbech32 := b\<rparr>)))) (\<lambda>_.
         bindS (TxSetRecipient a) (\<lambda>_. TxSetValue None))) (t1, w) of (res, t', w') \<Rightarrow> (res, Some t', w'))"
    "t1 = t\<lparr>wallet_ptr := Some wl, is_sync_tx := sync,
       platon_address := bech32_text hrp (account_address (account_info wl)) @ [0] @ drop (length hrp + 40) (platon_address t),
       rawtx_fields := zero_platon_fields\<lparr>gasprice := g, gaslimit := h\<rparr>\<rparr>"
    "max_bytes g = be_min gp" "length (max_field g) = 32" "max_fits g"
    "max_bytes h = be_min gl" "length (max_field h) = 32" "max_fits h"
proof -
  let ?addr = "bech32_text hrp (account_address (account_info wl)) @ [0] @ drop (length hrp + 40) (platon_address t)"
  let ?t0 = "t\<lparr>wallet_ptr := Some wl, rawtx_fields := zero_platon_fields, is_sync_tx := sync, platon_address := ?addr\<rparr>"
  obtain g h where g: "init_gas pf (platon_api pf sleep) junk (Some p) (Some l) (?t0, w) =
      (Inr (), ?t0\<lparr>rawtx_fields := (rawtx_fields ?t0)\<lparr>gasprice := g, gaslimit := h\<rparr>\<rparr>, w)"
    "max_bytes g = be_min gp" "length (max_field g) = 32" "max_fits g"
    "max_bytes h = be_min gl" "length (max_field h) = 32" "max_fits h"
    by (rule init_gas_ok [OF assms(1-3), of ?t0 pf "platon_api pf sleep" w]) simp_all
  have "platon_args_ok (Some p) (Some l) r"
    using hex_number_is_hex [OF assms(1)] hex_number_is_hex [OF assms(2)] assms(8) by (simp add: platon_args_ok_def)
  then have "BoatPlatONTxInit pf sleep junk junk_addr (Some wl) (Some t) sync (Some p) (Some l) (Some r) (Some hrp) w =
      (case bindS (liftS (decode_recipient junk_addr r)) (\<lambda>a.
         bindS (put_raw (\<lambda>raw. bindR (buf_put (replicate 45 0) 0 r) (\<lambda>b. Inr (raw\<lparr>recipientbech32 := b\<rparr>)))) (\<lambda>_.
         bindS (TxSetRecipient a) (\<lambda>_. TxSetValue None)))
         (?t0\<lparr>rawtx_fields := zero_platon_fields\<lparr>gasprice := g, gaslimit := h\<rparr>\<rparr>, w) of (res, t', w') \<Rightarrow> (res, Some t', w'))"
    using own_bech32_ok [OF assms(4,6,7,5)] g(1)
    by (simp add: BoatPlatONTxInit_def Let_def init_platon_fields_def bindS_def)
  then show ?thesis by (rule that [where g = g and h = h]) (use g in simp_all)
qed

lemma platon_init_fails:
  assumes "hex_number p gp" "hex_number l gl" "length (max_field junk) = 32" "length (account_address (account_info wl)) = 20"
    "length (platon_address t) = 45" "0 < length hrp" "length hrp \<le> 5" "length r < 4096" "decode_recipient junk_addr r = Inl e"
  obtains t1 where "BoatPlatONTxInit pf sleep junk junk_addr (Some wl) (Some t) sync (Some p) (Some l) (Some r) (Some hrp) w = (Inl e, Some t1, w)"
proof -
  have "UtilityStringLenCheck r = 0" using assms(8) string_checks [of r] by simp
  then obtain t1 where "BoatPlatONTxInit pf sleep junk junk_addr (Some wl) (Some t) sync (Some p) (Some l) (Some r) (Some hrp) w =
      (case bindS (liftS (decode_recipient junk_addr r)) (\<lambda>a.
         bindS (put_raw (\<lambda>raw. bindR (buf_put (replicate 45 0) 0 r) (\<lambda>b. Inr (raw\<lparr>recipientbech32 := b\<rparr>)))) (\<lambda>_.
         bindS (TxSetRecipient a) (\<lambda>_. TxSetValue None))) (t1, w) of (res, t', w') \<Rightarrow> (res, Some t', w'))"
    by (rule platon_init_start [OF assms(1-7)])
  then show ?thesis by (intro that [of t1]) (simp add: assms(9) bindS_def liftS_def)
qed

lemma platon_async_send:
  assumes "PlatONSendRawtx pf (Some t) w = (r, Some t', w')" "wallet_ptr t \<noteq> None" "\<not> is_sync_tx t"
  shows "TxSend pf (platon_api pf sleep) (t, w) = (r, t', w')"
  using assms by (cases "wallet_ptr t") (simp_all add: TxSend_def needs_wallet_def send_tx_def platon_api_def)

lemma platon_sent:
  assumes "platform_ok pf" "wallet_ptr t = Some wl" "opened wl url c" "fields_ok (rawtx_fields t)" "rawtx_sized (rawtx_fields t)"
    "length (max_field (tx_hash t)) = 32" "uses_eip155 wl \<Longrightarrow> chain_ok wl"
    "signed_with pf wl (unsigned_tx (uses_eip155 wl) (wallet_chain wl) (eth_items (rawtx_fields t))) sg"
    "node_accepts pf url w txid"
  obtains req t' where "PlatONSendRawtx pf (Some t) w = (Inr (), Some t', snd (exchange (pf_rpc pf) url req w))"
    "json_parse req = Some (rpc_request ''platon_sendRawTransaction'' [JStr (hex_text (sent_tx wl (eth_items (rawtx_fields t)) sg))] (web3_message_id c + 1))"
    "tx_hash t' = \<lparr>max_field = txid req, max_field_len = 32\<rparr>"
proof -
  have "ready t wl c url" using assms(2,3,5,6) by (simp add: ready_def opened_def)
  note e = eth_items_ok [OF assms(4), of platon_program] eth_items_size [OF assms(4)]
  have "\<exists>req t'. SendRawtx (pf_json pf) (pf_malloc pf) (pf_list_ok pf) (pf_hash pf) (pf_sign pf) platon_program
         (send_raw pf ''platon_sendRawTransaction'') (Some t) w = (Inr (), Some t', snd (exchange (pf_rpc pf) url req w)) \<and>
       json_parse req = Some (rpc_request ''platon_sendRawTransaction''
         [JStr (hex_text (sent_tx wl (eth_items (rawtx_fields t)) sg))] (web3_message_id c + 1)) \<and>
       tx_hash t' = \<lparr>max_field = txid req, max_field_len = 32\<rparr>"
    using raw_sender_ok [of platon_program pf t wl c url "uses_eip155 wl" sg w txid "''platon_sendRawTransaction''"]
      programs_tx(2) assms(1,7,8) \<open>ready t wl c url\<close> e methods_plain(2) node_acceptsD [OF assms(9)]
    by (simp add: platon_program_def del: rlp_enc.simps)
  then show ?thesis using that unfolding PlatONSendRawtx_def by blast
qed

subsection \<open>Properties\<close>

text \<open>
  C13: A PlatON transaction from texts to the chain: gas price and gas limit are given as HEX texts, the recipient as the Bech32 text of its 20
  bytes, with a prefix of up to six characters. The initialised transaction holds the recipient's text and the text of the
  own address, as a C string; what is posted to the node is one platon_sendRawTransaction with exactly these numbers, the recipient's bytes, the
  value and the data, and the signature over them.
\<close>

theorem platon_order_sent:
  assumes "platform_ok pf" "opened wl url c" "length (max_field (tx_hash t)) = 32" "length (platon_address t) = 45"
    "length (max_field junk) = 32" "length junk_addr = 20" "hex_number p price" "hex_number l limit"
    "length (account_address (account_info wl)) = 20" "0 < length hrp" "length hrp \<le> 5"
    "r = bech32_text to_hrp a" "length a = 20" "0 < length to_hrp" "length to_hrp \<le> 6" "49 \<notin> set to_hrp"
    "n \<noteq> BOAT_ETH_NONCE_AUTO" "max_fits v" "var_fits d" "uses_eip155 wl \<Longrightarrow> chain_ok wl"
    "items = [Str (if n = 0 then [0] else be_min (unat n)), Str (be_min price), Str (be_min limit), Str a, Str (max_bytes v), Str (var_bytes d)]"
    "signed_with pf wl (unsigned_tx (uses_eip155 wl) (wallet_chain wl) items) sg" "node_accepts pf url w txid"
  shows "\<exists>t1 t2 t3 t4 t5 req.
     BoatPlatONTxInit pf sleep junk junk_addr (Some wl) (Some t) False (Some p) (Some l) (Some r) (Some hrp) w = (Inr (), Some t1, w) \<and>
     recipientbech32 (rawtx_fields t1) = r @ replicate (45 - length r) 0 \<and>
     take (length hrp + 40) (platon_address t1) = bech32_text hrp (account_address (account_info wl)) @ [0] \<and>
     BoatPlatONTxSetNonce pf sleep n (Some t1) w = (Inr (), Some t2, w) \<and>
     BoatPlatONTxSetValue (Some v) (Some t2) w = (Inr (), Some t3, w) \<and>
     BoatPlatONTxSetData (Some d) (Some t3) w = (Inr (), Some t4, w) \<and>
     BoatPlatONTxSend pf sleep (Some t4) w = (Inr (), Some t5, snd (exchange (pf_rpc pf) url req w)) \<and>
     json_parse req = Some (rpc_request ''platon_sendRawTransaction'' [JStr (hex_text (sent_tx wl items sg))] (web3_message_id c + 1)) \<and>
     tx_hash t5 = \<lparr>max_field = txid req, max_field_len = 32\<rparr>"
proof -
  have r: "length r = length to_hrp + 39" using assms(12,13) by (simp add: text_length)
  then have "UtilityStringLenCheck r = 0" using assms(15) string_checks [of r] by simp
  then obtain g h t0 where i: "BoatPlatONTxInit pf sleep junk junk_addr (Some wl) (Some t) False (Some p) (Some l) (Some r) (Some hrp) w =
      (case bindS (liftS (decode_recipient junk_addr r)) (\<lambda>a.
         bindS (put_raw (\<lambda>raw. bindR (buf_put (replicate 45 0) 0 r) (\<lambda>b. Inr (raw\<lparr>recipientbech32 := b\<rparr>)))) (\<lambda>_.
         bindS (TxSetRecipient a) (\<lambda>_. TxSetValue None))) (t0, w) of (res, t', w') \<Rightarrow> (res, Some t', w'))"
    and t0: "t0 = t\<lparr>wallet_ptr := Some wl, is_sync_tx := False,
       platon_address := bech32_text hrp (account_address (account_info wl)) @ [0] @ drop (length hrp + 40) (platon_address t),
       rawtx_fields := zero_platon_fields\<lparr>gasprice := g, gaslimit := h\<rparr>\<rparr>"
    and g: "max_bytes g = be_min price" "length (max_field g) = 32" "max_fits g"
    "max_bytes h = be_min limit" "length (max_field h) = 32" "max_fits h"
    by (rule platon_init_start [OF assms(7,8,5,9,4,10,11)])
  have dec: "decode_recipient junk_addr r = Inr a"
    unfolding assms(12) using assms(13,6,14-16) by (intro decode_recipient_ok) simp_all
  let ?r1 = "zero_platon_fields\<lparr>gasprice := g, gaslimit := h, recipientbech32 := r @ replicate (45 - length r) 0, recipient := a,
     tx_value := (tx_value zero_platon_fields)\<lparr>max_field_len := 0\<rparr>\<rparr>"
  let ?t1 = "t0\<lparr>rawtx_fields := ?r1\<rparr>"
  have put: "buf_put (replicate 45 0) 0 r = Inr (r @ replicate (45 - length r) 0)"
    using assms(15) r by (simp add: buf_put_def drop_replicate)
  have init: "BoatPlatONTxInit pf sleep junk junk_addr (Some wl) (Some t) False (Some p) (Some l) (Some r) (Some hrp) w = (Inr (), Some ?t1, w)"
    using assms(13) by (simp add: i dec bindS_def liftS_def put TxSetRecipient_def buf_get_def TxSetValue_def t0)
  have w1: "wallet_ptr ?t1 = Some wl" "\<not> is_sync_tx ?t1" "tx_hash ?t1 = tx_hash t" by (simp_all add: t0)
  have sized: "sized_fields ?r1"
    using g(2,3,5,6) assms(13) zero_platon_sized by (simp add: sized_fields_def fields_ok_def rawtx_sized_def max_fits_def)
  obtain k where k: "TxSetNonce pf (platon_api pf sleep) n (?t1, w) = (Inr (), ?t1\<lparr>rawtx_fields := ?r1\<lparr>nonce := k\<rparr>\<rparr>, w)"
    "fields_ok (?r1\<lparr>nonce := k, tx_value := v, tx_data := d\<rparr>)" "rawtx_sized (?r1\<lparr>nonce := k, tx_value := v, tx_data := d\<rparr>)"
    "eth_items (?r1\<lparr>nonce := k, tx_value := v, tx_data := d\<rparr>) = [Str (if n = 0 then [0] else be_min (unat n)),
       Str (max_bytes (gasprice ?r1)), Str (max_bytes (gaslimit ?r1)), Str (recipient ?r1), Str (max_bytes v), Str (var_bytes d)]"
    by (rule fill_ok [OF sized _ assms(17-19), of ?t1 pf "platon_api pf sleep" w]) (simp_all add: t0)
  let ?t4 = "?t1\<lparr>rawtx_fields := ?r1\<lparr>nonce := k, tx_value := v, tx_data := d\<rparr>\<rparr>"
  have it: "eth_items (?r1\<lparr>nonce := k, tx_value := v, tx_data := d\<rparr>) = items" using assms(21) k(4) g(1,4) by simp
  obtain req t5 where s: "PlatONSendRawtx pf (Some ?t4) w = (Inr (), Some t5, snd (exchange (pf_rpc pf) url req w))"
    "json_parse req = Some (rpc_request ''platon_sendRawTransaction'' [JStr (hex_text (sent_tx wl items sg))] (web3_message_id c + 1))"
    "tx_hash t5 = \<lparr>max_field = txid req, max_field_len = 32\<rparr>"
  proof (rule platon_sent [of pf ?t4 wl url c sg w txid])
    show "signed_with pf wl (unsigned_tx (uses_eip155 wl) (wallet_chain wl) (eth_items (rawtx_fields ?t4))) sg"
      using assms(22) it by simp
  qed (use assms(1-3,20,23) w1 k(2,3) it in \<open>auto simp del: rlp_enc.simps\<close>)
  have "BoatPlatONTxSend pf sleep (Some ?t4) w = (Inr (), Some t5, snd (exchange (pf_rpc pf) url req w))"
    using platon_async_send [OF s(1)] w1 by (simp add: BoatPlatONTxSend_def with_tx_def)
  moreover have "take (length hrp + 40) (platon_address ?t1) = bech32_text hrp (account_address (account_info wl)) @ [0]"
    using assms(9) by (simp add: t0 text_length)
  ultimately show ?thesis
    using init k(1) s(2,3)
    by (intro exI [of _ ?t1] exI [of _ "?t1\<lparr>rawtx_fields := ?r1\<lparr>nonce := k\<rparr>\<rparr>"]
        exI [of _ "?t1\<lparr>rawtx_fields := ?r1\<lparr>nonce := k, tx_value := v\<rparr>\<rparr>"] exI [of _ ?t4] exI [of _ t5] exI [of _ req])
      (simp add: BoatPlatONTxSetNonce_def BoatPlatONTxSetValue_def BoatPlatONTxSetData_def with_tx_def TxSetValue_def TxSetData_def
        del: rlp_enc.simps)
qed

definition sample_platon_tx :: BoatPlatONTx where
  "sample_platon_tx = \<lparr>wallet_ptr = None, tx_hash = zero_max 32, is_sync_tx = True, rawtx_fields = zero_platon_fields,
     platon_address = replicate 45 0\<rparr>"

abbreviation lat :: bytes where "lat \<equiv> [108, 97, 116]"

theorem platon_order_sent_witness:
  "\<exists>t1 t2 t3 t4 t5 req.
     BoatPlatONTxInit sample_platform id (zero_max 32) (replicate 20 0) (Some sample_wallet) (Some sample_platon_tx) False (Some [48, 120, 50])
       (Some [48, 120, 51, 48, 48]) (Some (bech32_text lat (replicate 20 6))) (Some lat) [] = (Inr (), Some t1, []) \<and>
     take 43 (platon_address t1) = bech32_text lat (replicate 20 1) @ [0] \<and>
     BoatPlatONTxSetNonce sample_platform id 9 (Some t1) [] = (Inr (), Some t2, []) \<and>
     BoatPlatONTxSetValue (Some (zero_max 32)) (Some t2) ([] :: bytes list) = (Inr (), Some t3, []) \<and>
     BoatPlatONTxSetData (Some \<lparr>field_ptr = Some [1, 2], field_len = 2\<rparr>) (Some t3) ([] :: bytes list) = (Inr (), Some t4, []) \<and>
     BoatPlatONTxSend sample_platform id (Some t4) [] = (Inr (), Some t5, [req]) \<and>
     json_parse req = Some (rpc_request ''platon_sendRawTransaction'' [JStr (hex_text (sent_tx sample_wallet
       [Str (be_min 9), Str (be_min 2), Str (be_min 768), Str (replicate 20 6), Str [], Str [1, 2]] sample_signature))] 7) \<and>
     tx_hash t5 = \<lparr>max_field = replicate 32 3, max_field_len = 32\<rparr>"
proof -
  have ex: "snd (exchange (pf_rpc sample_platform) [104] req []) = [req]" for req using sample_facts(8) by simp
  have seven: "(7 :: u32) = web3_message_id sample_context + 1" by simp
  have own: "account_address (account_info sample_wallet) = replicate 20 1" "length lat + 40 = 43" by (simp_all add: sample_wallet_def)
  have tx: "length (max_field (tx_hash sample_platon_tx)) = 32" "length (platon_address sample_platon_tx) = 45"
    by (simp_all add: sample_platon_tx_def zero_max_def)
  have "\<exists>t1 t2 t3 t4 t5 req.
     BoatPlatONTxInit sample_platform id (zero_max 32) (replicate 20 0) (Some sample_wallet) (Some sample_platon_tx) False (Some [48, 120, 50])
       (Some [48, 120, 51, 48, 48]) (Some (bech32_text lat (replicate 20 6))) (Some lat) [] = (Inr (), Some t1, []) \<and>
     recipientbech32 (rawtx_fields t1) = bech32_text lat (replicate 20 6) @ replicate (45 - length (bech32_text lat (replicate 20 6))) 0 \<and>
     take (length lat + 40) (platon_address t1) = bech32_text lat (account_address (account_info sample_wallet)) @ [0] \<and>
     BoatPlatONTxSetNonce sample_platform id 9 (Some t1) [] = (Inr (), Some t2, []) \<and>
     BoatPlatONTxSetValue (Some (zero_max 32)) (Some t2) ([] :: bytes list) = (Inr (), Some t3, []) \<and>
     BoatPlatONTxSetData (Some \<lparr>field_ptr = Some [1, 2], field_len = 2\<rparr>) (Some t3) ([] :: bytes list) = (Inr (), Some t4, []) \<and>
     BoatPlatONTxSend sample_platform id (Some t4) [] = (Inr (), Some t5, snd (exchange (pf_rpc sample_platform) [104] req [])) \<and>
     json_parse req = Some (rpc_request ''platon_sendRawTransaction'' [JStr (hex_text (sent_tx sample_wallet
       [Str (be_min 9), Str (be_min 2), Str (be_min 768), Str (replicate 20 6), Str [], Str [1, 2]] sample_signature))]
       (web3_message_id sample_context + 1)) \<and>
     tx_hash t5 = \<lparr>max_field = replicate 32 3, max_field_len = 32\<rparr>"
    by (rule platon_order_sent [of sample_platform sample_wallet "[104]" sample_context sample_platon_tx "zero_max 32" "replicate 20 0"
      "[48, 120, 50]" 2 "[48, 120, 51, 48, 48]" 768 lat "bech32_text lat (replicate 20 6)" lat "replicate 20 6" 9 "zero_max 32"
      "\<lparr>field_ptr = Some [1, 2], field_len = 2\<rparr>"
      "[Str (be_min 9), Str (be_min 2), Str (be_min 768), Str (replicate 20 6), Str [], Str [1, 2]]" sample_signature "[]"
      "\<lambda>req. replicate 32 3" id])
      (use sample_facts sample_opened(1) sample_texts tx own(1) in
        \<open>simp_all add: zero_max_def max_fits_def var_fits_def max_bytes_def var_bytes_def del: rlp_enc.simps\<close>)
  then show ?thesis unfolding ex own seven by (elim exE conjE) (intro exI conjI; assumption)
qed

text \<open>
  C17: A mistyped recipient is refused: when a character behind the separator of the recipient's text is another one, of 7 bits and
  not the same letter in the other case, the initialisation reports an invalid argument, and nothing is sent.
\<close>

theorem platon_recipient_checked:
  assumes "hex_number p price" "hex_number l limit" "length (max_field junk) = 32" "length (account_address (account_info wl)) = 20"
    "length (platon_address t) = 45" "0 < length hrp" "length hrp \<le> 5" "length (bech32_text to_hrp a) < 4096"
    "0 < length to_hrp" "length to_hrp \<le> 83" "49 \<notin> set to_hrp" "0 < length a" "length to_hrp < k" "k < length (bech32_text to_hrp a)"
    "unat ch < 128" "CHARSET_REV ! unat ch \<noteq> CHARSET_REV ! unat (bech32_text to_hrp a ! k)"
  shows "\<exists>t1. BoatPlatONTxInit pf sleep junk junk_addr (Some wl) (Some t) sync (Some p) (Some l) (Some ((bech32_text to_hrp a)[k := ch])) (Some hrp) w =
     (Inl (Err BOAT_ERROR_COMMON_INVALID_ARGUMENT), Some t1, w)"
proof -
  have "length ((bech32_text to_hrp a)[k := ch]) < 4096" using assms(8) by simp
  then obtain t1 where "BoatPlatONTxInit pf sleep junk junk_addr (Some wl) (Some t) sync (Some p) (Some l)
      (Some ((bech32_text to_hrp a)[k := ch])) (Some hrp) w = (Inl (Err BOAT_ERROR_COMMON_INVALID_ARGUMENT), Some t1, w)"
    by (rule platon_init_fails [OF assms(1-7) _ decode_recipient_substituted [OF assms(9-16)]])
  then show ?thesis by (rule exI)
qed

lemma sample_own: "length (account_address (account_info sample_wallet)) = 20" "length (platon_address sample_platon_tx) = 45"
  by (simp_all add: sample_wallet_def sample_platon_tx_def)

theorem platon_recipient_checked_witness:
  "\<exists>t1. BoatPlatONTxInit sample_platform id (zero_max 32) (replicate 20 0) (Some sample_wallet) (Some sample_platon_tx) False (Some [48, 120, 50])
     (Some [48, 120, 51, 48, 48]) (Some ((bech32_text lat (replicate 20 6))[9 := 0])) (Some lat) [] =
       (Inl (Err BOAT_ERROR_COMMON_INVALID_ARGUMENT), Some t1, [])"
proof -
  have "CHARSET_REV ! unat (bech32_text lat (replicate 20 6) ! 9) \<noteq> - 1" by (rule text_symbol) simp_all
  moreover have "CHARSET_REV ! 0 = - 1" by (simp add: CHARSET_REV_def)
  moreover have "length (max_field (zero_max 32)) = 32" by (simp add: zero_max_def)
  ultimately show ?thesis
    using platon_recipient_checked [of "[48, 120, 50]" 2 "[48, 120, 51, 48, 48]" 768 "zero_max 32" sample_wallet sample_platon_tx lat lat
      "replicate 20 6" 9 0 sample_platform id "replicate 20 0" False "[]"] sample_texts sample_own text_length [of "replicate 20 6" lat]
    by simp
qed

text \<open>
  A recipient of more than 20 bytes overflows: its text is a well-formed address, passes every check, and is
  decoded behind the end of the 20 bytes on the stack.
\<close>

theorem platon_recipient_overflow:
  assumes "hex_number p price" "hex_number l limit" "length (max_field junk) = 32" "length (account_address (account_info wl)) = 20"
    "length (platon_address t) = 45" "0 < length hrp" "length hrp \<le> 5" "length (bech32_text to_hrp a) < 4096"
    "0 < length to_hrp" "length to_hrp \<le> 83" "49 \<notin> set to_hrp" "length junk_addr = 20" "20 < length a"
  shows "fst (BoatPlatONTxInit pf sleep junk junk_addr (Some wl) (Some t) sync (Some p) (Some l) (Some (bech32_text to_hrp a)) (Some hrp) w) = Inl UB"
proof -
  have "decode_recipient junk_addr (bech32_text to_hrp a) = Inl UB"
    using assms(12,13) by (intro decode_recipient_long assms(9-11)) simp
  then obtain t1 where "BoatPlatONTxInit pf sleep junk junk_addr (Some wl) (Some t) sync (Some p) (Some l)
      (Some (bech32_text to_hrp a)) (Some hrp) w = (Inl UB, Some t1, w)"
    by (rule platon_init_fails [OF assms(1-8)])
  then show ?thesis by simp
qed

theorem platon_recipient_overflow_witness:
  "fst (BoatPlatONTxInit sample_platform id (zero_max 32) (replicate 20 0) (Some sample_wallet) (Some sample_platon_tx) False (Some [48, 120, 50])
     (Some [48, 120, 51, 48, 48]) (Some (bech32_text lat (replicate 32 6))) (Some lat) []) = Inl UB"
  using platon_recipient_overflow [of "[48, 120, 50]" 2 "[48, 120, 51, 48, 48]" 768 "zero_max 32" sample_wallet sample_platon_tx lat lat
      "replicate 32 6" "replicate 20 0" sample_platform id False "[]"] sample_texts sample_own
  by (simp add: bech32_text_def zero_max_def)

text \<open>
  Waiting for a PlatON receipt, of which the node is asked every two seconds, for fifteen polls at most: a receipt that is there from the
  \<open>n\<close>-th poll on ends the wait with success right after that poll.
\<close>

theorem platon_receipt_reported:
  assumes "platform_ok pf" "wallet_ptr t = Some wl" "opened wl url c" "max_fits (tx_hash t)" "counts_requests (pf_rpc pf) sleep clock"
    "receipt_after pf url clock (clock w + n) ''platon_getTransactionReceipt'' (address_text (max_bytes (tx_hash t)))"
  shows "\<exists>t' w'. BoatPlatONGetTransactionReceipt pf sleep (Some t) w = (if n < 15 then Inr () else Inl (Err BOAT_ERROR_COMMON_TX_PENDING), Some t', w') \<and>
     clock w' = clock w + (if n < 15 then n + 1 else 15) \<and> rawtx_fields t' = rawtx_fields t \<and> tx_hash t' = tx_hash t"
proof -
  have con: "connected t url c" using assms(2,3) opened_connected by blast
  let ?api = "platon_api pf sleep"
  have a: "api_sleep ?api = sleep" "api_receipt_method ?api = ''platon_getTransactionReceipt''" "api_interval ?api = 2"
    by (simp_all add: platon_api_def)
  obtain c' w' where "TxGetReceipt pf ?api (t, w) =
      (if clock w + n \<le> clock w + 14 then Inr () else Inl (Err BOAT_ERROR_COMMON_TX_PENDING), set_context (Some c') t, w')"
    "clock w' = (if clock w + n \<le> clock w + 14 then max (clock w + n) (clock w) + 1 else clock w + Suc 14)"
    by (rule TxGetReceipt_ok [where k = 14 and api = ?api and w = w, unfolded a, OF assms(1,5,6)])
      (use con assms(4) in \<open>simp_all add: plain_def chars_def\<close>)
  then show ?thesis
    by (intro exI [of _ "set_context (Some c') t"] exI [of _ w']) (auto simp: BoatPlatONGetTransactionReceipt_def unchecked_tx_def)
qed

end
