(* ===== verification/Boat_Varint.thy ===== *)
theory Boat_Varint
  imports Boat_Prelude
begin

text \<open>
  The integers of the protobuf wire format, translated from \<open>sdk/third-party/protobuf-c/src/protobuf-c.c\<close>: seven bits to a byte, the
  lowest group first, the top bit of a byte set when another follows. The reference is \<open>varint\<close>, the groups of a natural number, and
  \<open>varint_val\<close>, the number of some groups: every packing routine of the library, each unrolled in its own way, writes \<open>varint\<close> of
  its argument, and every parsing routine reads \<open>varint_val\<close> modulo the width of its result.
\<close>

subsection \<open>The code\<close>

fun uint32_groups :: "nat \<Rightarrow> u32 \<Rightarrow> bytes" where
  "uint32_groups 0 v = [ucast v]"
| "uint32_groups (Suc k) v = (if 0x80 \<le> v then ucast (v OR 0x80) # uint32_groups k (drop_bit 7 v) else [ucast v])"

text \<open>Four nested conditionals, each writing a byte and shifting, and the last byte.\<close>

definition uint32_pack :: "u32 \<Rightarrow> bytes" where
  "uint32_pack v = uint32_groups 4 v"

definition int32_pack :: "u32 \<Rightarrow> bytes" where
  "int32_pack v =
     (if v <s 0
      then [ucast v OR 0x80, ucast (signed_drop_bit 7 v) OR 0x80, ucast (signed_drop_bit 14 v) OR 0x80,
            ucast (signed_drop_bit 21 v) OR 0x80, ucast (signed_drop_bit 28 v) OR 0x80, 0xff, 0xff, 0xff, 0xff, 0x01]
      else uint32_pack v)"

text \<open>
  The loop over the upper groups is that of the smaller integers; it ends by itself, because \<open>hi\<close> has 29 bits at its start, and the
  bound 4 is never reached.
\<close>

definition uint64_pack :: "u64 \<Rightarrow> bytes" where
  "uint64_pack v =
     (let hi = ucast (drop_bit 32 v) :: u32; lo = ucast v :: u32 in
      if hi = 0 then uint32_pack lo
      else
        [ucast (lo OR 0x80), ucast (drop_bit 7 lo OR 0x80), ucast (drop_bit 14 lo OR 0x80), ucast (drop_bit 21 lo OR 0x80)] @
        (if hi < 8 then [ucast (push_bit 4 hi OR drop_bit 28 lo)]
         else ucast (push_bit 4 (hi AND 7) OR drop_bit 28 lo OR 0x80) # uint32_groups 4 (drop_bit 3 hi)))"

definition uint32_size :: "u32 \<Rightarrow> nat" where
  "uint32_size v = (if v < 2 ^ 7 then 1 else if v < 2 ^ 14 then 2 else if v < 2 ^ 21 then 3 else if v < 2 ^ 28 then 4 else 5)"

definition int32_size :: "u32 \<Rightarrow> nat" where
  "int32_size v =
     (if v <s 0 then 10 else if v <s 2 ^ 7 then 1 else if v <s 2 ^ 14 then 2 else if v <s 2 ^ 21 then 3
      else if v <s 2 ^ 28 then 4 else 5)"

definition uint64_size :: "u64 \<Rightarrow> nat" where
  "uint64_size v =
     (let upper_v = ucast (drop_bit 32 v) :: u32 in
      if upper_v = 0 then uint32_size (ucast v)
      else if upper_v < 2 ^ 3 then 5 else if upper_v < 2 ^ 10 then 6 else if upper_v < 2 ^ 17 then 7
      else if upper_v < 2 ^ 24 then 8 else if upper_v < 2 ^ 31 then 9 else 10)"

definition get_tag_size :: "u32 \<Rightarrow> nat" where
  "get_tag_size number =
     (if number < 2 ^ 4 then 1 else if number < 2 ^ 11 then 2 else if number < 2 ^ 18 then 3 else if number < 2 ^ 25 then 4 else 5)"

definition tag_pack :: "u32 \<Rightarrow> bytes" where
  "tag_pack number = (if number < 2 ^ 29 then uint32_pack (push_bit 3 number) else uint64_pack (push_bit 3 (ucast number)))"

text \<open>The groups of bytes, each masked and shifted into place.\<close>

fun join_groups :: "nat \<Rightarrow> bytes \<Rightarrow> 'a::len word" where
  "join_groups shift [] = 0"
| "join_groups shift (b # bs) = push_bit shift (ucast (b AND 0x7f)) OR join_groups (shift + 7) bs"

text \<open>The fifth byte is not masked.\<close>

definition parse_uint32 :: "bytes \<Rightarrow> u32" where
  "parse_uint32 d = join_groups 0 (take 4 d) OR (if 4 < length d then push_bit 28 (ucast (d ! 4)) else 0)"

definition parse_int32 :: "bytes \<Rightarrow> u32" where
  "parse_int32 d = parse_uint32 d"

definition parse_uint64 :: "bytes \<Rightarrow> u64" where
  "parse_uint64 d = (if length d < 5 then ucast (parse_uint32 d) else join_groups 0 d)"

definition parse_boolean :: "bytes \<Rightarrow> bool" where
  "parse_boolean d = list_ex (\<lambda>b. b AND 0x7f \<noteq> 0) d"

text \<open>The number of bytes up to the first without the top bit, among the first \<open>k\<close>: the loop of three scanners.\<close>

fun varint_len :: "nat \<Rightarrow> bytes \<Rightarrow> nat option" where
  "varint_len 0 bs = None"
| "varint_len (Suc k) [] = None"
| "varint_len (Suc k) (b # bs) = (if b AND 0x80 = 0 then Some 1 else map_option Suc (varint_len k bs))"

definition scan_varint :: "bytes \<Rightarrow> nat option" where
  "scan_varint d = varint_len 10 d"

definition INT_MAX :: u64 where "INT_MAX = 2147483647"

text \<open>The length of prefix and data, and of the prefix.\<close>

definition scan_length_prefixed_data :: "bytes \<Rightarrow> (nat \<times> nat) option" where
  "scan_length_prefixed_data d =
     (case varint_len 5 d of
        None \<Rightarrow> None
      | Some hdr_len \<Rightarrow>
          let val = join_groups 0 (take hdr_len d) :: u64 in
          if INT_MAX < val then None
          else if length d < hdr_len + unat val then None
          else Some (hdr_len + unat val, hdr_len))"

text \<open>Tag, wire type and the number of bytes used.\<close>

fun tag_groups :: "nat \<Rightarrow> u32 \<Rightarrow> nat \<Rightarrow> nat \<Rightarrow> bytes \<Rightarrow> (u32 \<times> nat) option" where
  "tag_groups 0 t shift rv d = None"
| "tag_groups (Suc k) t shift rv [] = None"
| "tag_groups (Suc k) t shift rv (b # d) =
     (if b AND 0x80 \<noteq> 0 then tag_groups k (t OR push_bit shift (ucast (b AND 0x7f))) (shift + 7) (rv + 1) d
      else Some (t OR push_bit shift (ucast b), rv + 1))"

fun parse_tag_and_wiretype :: "bytes \<Rightarrow> (u32 \<times> u8 \<times> nat) option" where
  "parse_tag_and_wiretype [] = None"
| "parse_tag_and_wiretype (b # d) =
     (let t = drop_bit 3 (ucast (b AND 0x7f)) :: u32; wt = b AND 7 in
      if b AND 0xf8 = 0 then None
      else if b AND 0x80 = 0 then Some (t, wt, 1)
      else map_option (\<lambda>(t', rv). (t', wt, rv)) (tag_groups 4 t 4 1 d))"

subsection \<open>The reference\<close>

fun varint :: "nat \<Rightarrow> bytes" where
  "varint n = (if n < 128 then [of_nat n] else of_nat (n mod 128 + 128) # varint (n div 128))"

declare varint.simps [simp del]

fun varint_val :: "bytes \<Rightarrow> nat" where
  "varint_val [] = 0"
| "varint_val (b # bs) = unat (b AND 0x7f) + 128 * varint_val bs"

lemma varint_small: "n < 128 \<Longrightarrow> varint n = [of_nat n]"
  by (simp add: varint.simps)

lemma varint_big: "128 \<le> n \<Longrightarrow> varint n = of_nat (n mod 128 + 128) # varint (n div 128)"
  by (simp add: varint.simps)

lemma varint_ne [simp]: "varint n \<noteq> []"
  by (simp add: varint.simps)

lemma and_7f_take: "(b :: u8) AND 0x7f = take_bit 7 b"
proof -
  have "(0x7f :: u8) = mask 7" by (simp add: mask_eq_exp_minus_1)
  then show ?thesis by (simp only: take_bit_eq_mask)
qed

lemma and_7f: "unat ((b :: u8) AND 0x7f) = unat b mod 128"
  unfolding and_7f_take unat_take_bit by simp

lemma and_80: "(b :: u8) AND 0x80 = 0 \<longleftrightarrow> unat b < 128"
proof -
  have "(0x80 :: u8) = 2 ^ 7" by simp
  then have "b AND 0x80 = 0 \<longleftrightarrow> \<not> bit b 7"
    by (simp only: and_exp_eq_0_iff_not_bit)
  also have "bit b 7 = bit (unat b) 7" by (simp only: bit_unsigned_iff possible_bit_def) simp
  also have "(\<not> bit (unat b) 7) \<longleftrightarrow> even (unat b div 128)" by (simp add: bit_iff_odd)
  also have "\<dots> \<longleftrightarrow> unat b < 128"
  proof (cases "unat b < 128")
    case False
    then have "unat b div 128 = 1" using u8_bound [of b] by (intro div_nat_eqI) simp_all
    then show ?thesis using False by simp
  qed simp
  finally show ?thesis .
qed


lemma varint_head: "unat (word_of_nat (n mod 128) + 128 :: u8) = n mod 128 + 128"
proof -
  have "word_of_nat (n mod 128) + 128 = (word_of_nat (n mod 128 + 128) :: u8)" by simp
  also have "unat \<dots> = (n mod 128 + 128) mod 256" unfolding unat_of_nat by simp
  also have "\<dots> = n mod 128 + 128" by (rule mod_less) (simp add: mod_less_divisor less_le_trans)
  finally show ?thesis .
qed

lemma varint_val_varint: "varint_val (varint n) = n"
proof (induction n rule: varint.induct)
  case (1 n)
  show ?case
  proof (cases "n < 128")
    case True
    then show ?thesis by (simp add: varint_small and_7f unat_of_nat)
  next
    case False
    then show ?thesis
      using 1 by (simp add: varint_big and_7f varint_head)
  qed
qed

lemma varint_val_take: "varint_val (take k (varint n)) = n mod 128 ^ k"
proof (induction k arbitrary: n)
  case (Suc k)
  show ?case
  proof (cases "n < 128")
    case True
    then have "n mod 128 ^ Suc k = n" by (intro mod_less) (simp add: less_le_trans)
    then show ?thesis using True by (simp add: varint_small and_7f unat_of_nat)
  next
    case False
    have "n mod 128 ^ Suc k = n mod 128 + 128 * (n div 128 mod 128 ^ k)" by (simp add: mod_mult2_eq)
    then show ?thesis using False Suc by (simp add: varint_big and_7f varint_head)
  qed
qed simp

lemma varint_len_varint: "n < 128 ^ Suc k \<Longrightarrow> varint_len (Suc k) (varint n @ rest) = Some (length (varint n))"
proof (induction k arbitrary: n)
  case 0
  then show ?case by (simp add: varint_small and_80 unat_of_nat)
next
  case (Suc k)
  show ?case
  proof (cases "n < 128")
    case True
    then show ?thesis by (simp add: varint_small and_80 unat_of_nat)
  next
    case False
    moreover have "n div 128 < 128 ^ Suc k" using Suc.prems by (simp add: less_mult_imp_div_less mult.commute)
    ultimately show ?thesis using Suc.IH by (simp add: varint_big and_80 varint_head)
  qed
qed

lemma varint_length: "n < 128 ^ Suc k \<Longrightarrow> 128 ^ k \<le> n \<or> k = 0 \<Longrightarrow> length (varint n) = Suc k"
proof (induction k arbitrary: n)
  case 0
  then show ?case by (simp add: varint_small)
next
  case (Suc k)
  have n: "128 ^ Suc k \<le> n" using Suc.prems by simp
  have "(128 :: nat) ^ 1 \<le> 128 ^ Suc k" by (rule power_increasing) simp_all
  then have b: "128 \<le> n" using le_trans [OF _ n, of 128] by (simp only: power_one_right)
  have "n div 128 < 128 ^ Suc k" using Suc.prems(1) by (simp add: less_mult_imp_div_less mult.commute)
  moreover have "128 ^ k \<le> n div 128" using n div_le_mono [OF n, of 128] by simp
  ultimately show ?case using Suc.IH [of "n div 128"] b by (simp add: varint_big)
qed

lemma varint_len_bounds: "varint_len k d = Some n \<Longrightarrow> 0 < n \<and> n \<le> length d \<and> n \<le> k"
  by (induction k d arbitrary: n rule: varint_len.induct) (auto split: if_splits)

subsection \<open>Packing writes the reference\<close>

lemma bit_80: "bit (0x80 :: 'a::len word) n \<longleftrightarrow> n = 7 \<and> 7 < LENGTH('a)"
proof -
  have "(0x80 :: 'a word) = 2 ^ 7" by simp
  then show ?thesis by (simp only: bit_exp_iff possible_bit_word) auto
qed

lemma low_group: "8 \<le> LENGTH('a) \<Longrightarrow> ucast ((v :: 'a::len word) OR 0x80) = (word_of_nat (unat v mod 128) + 128 :: u8)"
proof -
  assume l: "8 \<le> LENGTH('a)"
  have "ucast (v OR 0x80) = (take_bit 7 (ucast v) OR 0x80 :: u8)"
    using l by (intro bit_word_eqI) (auto simp: bit_simps bit_80 simp del: bit_numeral_word_iff)
  also have "\<dots> = take_bit 7 (ucast v) + 0x80"
    by (rule disjunctive_add_eq_or [symmetric]) (intro bit_word_eqI, auto simp: bit_simps bit_80 simp del: bit_numeral_word_iff)
  also have "take_bit 7 (ucast v) = (word_of_nat (unat v mod 128) :: u8)"
    by (rule word_unat_eq_iff [THEN iffD2]) (simp add: unat_take_bit unat_ucast_u8 unat_of_nat mod_mod_cancel)
  finally show ?thesis by simp
qed

lemma uint32_groups_varint: "unat v < 128 ^ Suc k \<Longrightarrow> uint32_groups k v = varint (unat v)"
proof (induction k arbitrary: v)
  case 0
  then show ?case by (simp add: varint_small)
next
  case (Suc k)
  have c: "0x80 \<le> v \<longleftrightarrow> 128 \<le> unat v" by (simp add: word_le_nat_alt)
  have s: "unat (drop_bit 7 v) = unat v div 128" by (simp add: unat_drop_bit)
  then have "unat (drop_bit 7 v) < 128 ^ Suc k" using Suc.prems by (simp add: less_mult_imp_div_less mult.commute)
  then show ?case using Suc.IH [of "drop_bit 7 v"] s
    by (cases "128 \<le> unat v") (simp_all add: c varint_big varint_small low_group)
qed

lemma uint32_pack_varint: "uint32_pack v = varint (unat v)"
proof -
  have "unat v < 128 ^ Suc 4" using u32_bound [of v] by simp
  then show ?thesis unfolding uint32_pack_def by (rule uint32_groups_varint)
qed

lemma uint32_size_varint: "uint32_size v = length (varint (unat v))"
proof -
  have u: "unat v < 128 ^ Suc 4" using u32_bound [of v] by simp
  show ?thesis
    using varint_length [of "unat v" 0] varint_length [of "unat v" 1] varint_length [of "unat v" 2]
      varint_length [of "unat v" 3] varint_length [of "unat v" 4] u
    by (simp add: uint32_size_def word_less_nat_alt)
qed

lemma varint_step:
  "8 \<le> LENGTH('a) \<Longrightarrow> 128 \<le> unat v \<Longrightarrow> varint (unat (v :: 'a::len word)) = ucast (v OR 0x80) # varint (unat (drop_bit 7 v))"
  by (simp add: varint_big low_group unat_drop_bit)

lemma varint_last: "8 \<le> LENGTH('a) \<Longrightarrow> unat v < 128 \<Longrightarrow> varint (unat (v :: 'a::len word)) = [ucast v]"
  by (simp add: varint_small word_unat_eq_iff unat_ucast_u8 unat_of_nat)

lemma drop_bit_large: "2 ^ (n + 7) \<le> unat (v :: 'a::len word) \<Longrightarrow> 128 \<le> unat (drop_bit n v)"
  using div_le_mono [of "2 ^ (n + 7)" "unat v" "2 ^ n"] by (simp add: unat_drop_bit power_add)

lemma and_7: "(x :: 'a::len word) AND 7 = take_bit 3 x"
proof -
  have "(7 :: 'a word) = mask 3" by (simp add: mask_eq_exp_minus_1)
  then show ?thesis by (simp only: take_bit_eq_mask)
qed

lemma hi_lo: "unat (v :: u64) = unat (ucast (drop_bit 32 v) :: u32) * 2 ^ 32 + unat (ucast v :: u32)"
proof -
  have "unat (ucast v :: u32) = unat v mod 2 ^ 32" by (simp add: unsigned_ucast_eq take_bit_eq_mod)
  moreover have "unat (ucast (drop_bit 32 v) :: u32) = unat v div 2 ^ 32"
    using u64_bound [of v] by (simp add: unsigned_ucast_eq take_bit_eq_mod unat_drop_bit)
  ultimately show ?thesis by simp
qed

lemma uint64_pack_varint: "uint64_pack v = varint (unat v)"
proof -
  define hi lo where "hi = (ucast (drop_bit 32 v) :: u32)" and "lo = (ucast v :: u32)"
  have n: "unat v = unat hi * 2 ^ 32 + unat lo" unfolding hi_def lo_def by (rule hi_lo)
  show ?thesis
  proof (cases "hi = 0")
    case True
    then show ?thesis using n by (simp add: uint64_pack_def hi_def lo_def Let_def uint32_pack_varint)
  next
    case False
    then have "1 \<le> unat hi" by (simp add: unat_gt_0 Suc_le_eq)
    then have big: "2 ^ 32 \<le> unat v" using n by simp
    have g: "ucast (drop_bit 7 lo OR 0x80) = (ucast (drop_bit 7 v OR 0x80) :: u8)" "ucast (lo OR 0x80) = (ucast (v OR 0x80) :: u8)"
      "ucast (drop_bit 14 lo OR 0x80) = (ucast (drop_bit 14 v OR 0x80) :: u8)"
      "ucast (drop_bit 21 lo OR 0x80) = (ucast (drop_bit 21 v OR 0x80) :: u8)"
      "ucast (push_bit 4 hi OR drop_bit 28 lo) = (ucast (drop_bit 28 v) :: u8)"
      "ucast (push_bit 4 (hi AND 7) OR drop_bit 28 lo OR 0x80) = (ucast (drop_bit 28 v OR 0x80) :: u8)"
      unfolding lo_def hi_def and_7
      by (intro bit_word_eqI; auto simp: bit_simps bit_80 simp del: bit_numeral_word_iff)+
    have l: "128 \<le> unat v" "128 \<le> unat (drop_bit 7 v)" "128 \<le> unat (drop_bit 14 v)" "128 \<le> unat (drop_bit 21 v)"
      using big by (intro drop_bit_large | simp)+
    have d: "drop_bit 7 (drop_bit 7 v) = drop_bit 14 v" "drop_bit 7 (drop_bit 14 v) = drop_bit 21 v"
      "drop_bit 7 (drop_bit 21 v) = drop_bit 28 v" "drop_bit 7 (drop_bit 28 v) = drop_bit 35 v"
      by (simp_all add: drop_bit_drop_bit)
    have four: "varint (unat v) = [ucast (lo OR 0x80), ucast (drop_bit 7 lo OR 0x80), ucast (drop_bit 14 lo OR 0x80),
        ucast (drop_bit 21 lo OR 0x80)] @ varint (unat (drop_bit 28 v))"
      using l by (simp add: varint_step [of v] varint_step [of "drop_bit 7 v"] varint_step [of "drop_bit 14 v"] varint_step [of "drop_bit 21 v"] d g)
    have u28: "unat (drop_bit 28 v) = unat hi * 16 + unat lo div 2 ^ 28"
      using n by (simp add: unat_drop_bit)
    have lo28: "unat lo div 2 ^ 28 < 16" using u32_bound [of lo] by (intro less_mult_imp_div_less) simp
    show ?thesis
    proof (cases "hi < 8")
      case True
      then have "unat hi < 8" by (simp add: word_less_nat_alt)
      then have "unat (drop_bit 28 v) < 128" using u28 lo28 by simp
      then show ?thesis
        using four True False g(5) varint_last [of "drop_bit 28 v"]
        by (simp add: uint64_pack_def hi_def [symmetric] lo_def [symmetric] Let_def)
    next
      case big8: False
      then have "8 \<le> unat hi" by (simp add: word_less_nat_alt)
      then have b: "128 \<le> unat (drop_bit 28 v)" using u28 by simp
      have "unat (drop_bit 3 hi) = unat (drop_bit 35 v)"
        using u64_bound [of v] by (simp add: hi_def unat_drop_bit unsigned_ucast_eq take_bit_eq_mod div_mult2_eq [symmetric])
      moreover have "unat (drop_bit 3 hi) < 128 ^ Suc 4"
        using u32_bound [of hi] by (simp add: unat_drop_bit less_mult_imp_div_less)
      ultimately have "uint32_groups 4 (drop_bit 3 hi) = varint (unat (drop_bit 35 v))"
        using uint32_groups_varint [of "drop_bit 3 hi" 4] by simp
      then show ?thesis
        using four big8 False g(6) b
        by (simp add: uint64_pack_def hi_def [symmetric] lo_def [symmetric] Let_def varint_step [of "drop_bit 28 v"] d)
    qed
  qed
qed

lemma int32_pack_varint: "int32_pack v = (if v <s 0 then varint (unat (scast v :: u64)) else varint (unat v))"
proof (cases "v <s 0")
  case True
  let ?w = "scast v :: u64"
  have s: "bit v 31" using True bit_last_iff [of v] by (simp add: word_sless_alt)
  have b: "bit ?w n \<longleftrightarrow> n < 64 \<and> bit v (min n 31)" for n
    by (auto simp: bit_simps min_def)
  have g: "ucast v OR 0x80 = (ucast (?w OR 0x80) :: u8)" "ucast (signed_drop_bit 7 v) OR 0x80 = (ucast (drop_bit 7 ?w OR 0x80) :: u8)"
    "ucast (signed_drop_bit 14 v) OR 0x80 = (ucast (drop_bit 14 ?w OR 0x80) :: u8)"
    "ucast (signed_drop_bit 21 v) OR 0x80 = (ucast (drop_bit 21 ?w OR 0x80) :: u8)"
    by (intro bit_word_eqI; auto simp: bit_simps bit_80 b min_def simp del: bit_numeral_word_iff)+
  have g28: "ucast (signed_drop_bit 28 v) OR 0x80 = (ucast (drop_bit 28 ?w OR 0x80) :: u8)"
  proof (rule bit_word_eqI)
    show "bit (ucast (signed_drop_bit 28 v) OR 0x80 :: u8) n = bit (ucast (drop_bit 28 ?w OR 0x80) :: u8) n" for n
      by (cases "n = 3") (auto simp: bit_simps bit_80 b min_def simp del: bit_numeral_word_iff)
  qed
  have ff: "ucast (drop_bit k ?w OR 0x80) = (0xff :: u8)" if "31 \<le> k" "k \<le> 56" for k
  proof -
    have "ucast (drop_bit k ?w OR 0x80) = (- 1 :: u8)"
      using that s by (intro bit_word_eqI) (auto simp: bit_simps bit_80 b min_def simp del: bit_numeral_word_iff)
    then show ?thesis by simp
  qed
  have "bit (unat ?w) 63" using b [of 63] s by (simp only: bit_unsigned_iff possible_bit_def) simp
  then have "unat ?w div 2 ^ 63 \<noteq> 0" unfolding bit_iff_odd by (metis even_zero)
  then have big: "2 ^ 63 \<le> unat ?w" by (metis div_less not_le)
  have l: "128 \<le> unat (drop_bit k ?w)" if "k \<le> 56" for k
    using big power_increasing [of "k + 7" 63 "2 :: nat"] that by (intro drop_bit_large) simp
  have "unat (drop_bit 63 ?w) = 1"
    using big u64_bound [of ?w] unfolding unat_drop_bit by (intro div_nat_eqI) simp_all
  then have last: "varint (unat (drop_bit 63 ?w)) = [1]" by (simp add: varint_small)
  have c: "varint (unat (drop_bit k ?w)) = ucast (drop_bit k ?w OR 0x80) # varint (unat (drop_bit (k + 7) ?w))" if "k \<le> 56" for k
    using varint_step [of "drop_bit k ?w"] l [OF that] by (simp add: drop_bit_drop_bit add.commute)
  have "varint (unat ?w) = [ucast (?w OR 0x80), ucast (drop_bit 7 ?w OR 0x80), ucast (drop_bit 14 ?w OR 0x80),
      ucast (drop_bit 21 ?w OR 0x80), ucast (drop_bit 28 ?w OR 0x80), 0xff, 0xff, 0xff, 0xff, 1]"
    using c [of 0] c [of 7] c [of 14] c [of 21] c [of 28] c [of 35] c [of 42] c [of 49] c [of 56] last ff [of 35] ff [of 42] ff [of 49] ff [of 56]
    by simp
  then show ?thesis using True by (simp add: int32_pack_def g g28)
qed (simp add: int32_pack_def uint32_pack_varint)

lemmas varint_lengths = varint_length [of _ 0] varint_length [of _ 1] varint_length [of _ 2] varint_length [of _ 3]
  varint_length [of _ 4] varint_length [of _ 5] varint_length [of _ 6] varint_length [of _ 7] varint_length [of _ 8] varint_length [of _ 9]

lemma uint64_size_varint: "uint64_size v = length (varint (unat v))"
proof -
  define hi lo where "hi = (ucast (drop_bit 32 v) :: u32)" and "lo = (ucast v :: u32)"
  have n: "unat v = unat hi * 2 ^ 32 + unat lo" unfolding hi_def lo_def by (rule hi_lo)
  have lo: "unat lo < 2 ^ 32" "unat hi < 2 ^ 32" using u32_bound [of lo] u32_bound [of hi] by simp_all
  show ?thesis
  proof (cases "hi = 0")
    case True
    then show ?thesis using n by (simp add: uint64_size_def hi_def lo_def Let_def uint32_size_varint)
  next
    case False
    then have "1 \<le> unat hi" by (simp add: unat_gt_0 Suc_le_eq)
    then show ?thesis
      using False n lo varint_lengths [of "unat v"]
      by (simp add: uint64_size_def hi_def [symmetric] Let_def word_less_nat_alt split: if_splits)
  qed
qed

lemma int32_size_varint: "int32_size v = length (int32_pack v)"
proof (cases "v <s 0")
  case False
  then have "0 \<le> sint v" by (simp add: word_sless_alt)
  then have s: "sint v = int (unat v)"
    using sint_less [of v] by (simp add: uint_sint [of v] take_bit_int_eq_self)
  obtain n where n: "unat v = n" by blast
  show ?thesis using False varint_lengths [of n] u32_bound [of v] s
    by (simp add: int32_size_def int32_pack_varint word_sless_alt n del: unat_eq_zero)
qed (simp add: int32_size_def int32_pack_def)

subsection \<open>Tags\<close>

lemma unat_push_bit: "unat v * 2 ^ k < 2 ^ LENGTH('a) \<Longrightarrow> unat (push_bit k (v :: 'a::len word)) = unat v * 2 ^ k"
proof -
  assume b: "unat v * 2 ^ k < 2 ^ LENGTH('a)"
  have "take_bit LENGTH('a) (push_bit k (unat v)) = push_bit k (unat v)"
    by (rule take_bit_nat_eq_self) (simp only: push_bit_eq_mult b)
  then show ?thesis unfolding unsigned_push_bit_eq by (simp only: push_bit_eq_mult [of k "unat v"])
qed

lemma tag_pack_varint: "tag_pack n = varint (8 * unat n)"
proof (cases "n < 2 ^ 29")
  case True
  then have "unat (push_bit 3 n) = 8 * unat n" by (subst unat_push_bit) (simp_all add: word_less_nat_alt)
  then show ?thesis using True by (simp add: tag_pack_def uint32_pack_varint)
next
  case False
  have "unat (ucast n :: u64) = unat n" using u32_bound [of n] by (simp add: unsigned_ucast_eq take_bit_nat_eq_self)
  then have "unat (push_bit 3 (ucast n :: u64)) = 8 * unat n"
    using u32_bound [of n] by (subst unat_push_bit) simp_all
  then show ?thesis using False by (simp add: tag_pack_def uint64_pack_varint)
qed

lemma get_tag_size_varint: "get_tag_size n = length (varint (8 * unat n))"
proof -
  obtain m where m: "unat n = m" "m < 4294967296" using u32_bound [of n] by blast
  show ?thesis using varint_lengths [of "8 * m"] m(2) by (simp add: get_tag_size_def word_less_nat_alt m(1))
qed

lemma or_wire: "unat w < 8 \<Longrightarrow> push_bit 3 x OR w = push_bit 3 x + (w :: u8)"
proof -
  assume "unat w < 8"
  then have "take_bit 3 w = w" by (simp add: word_unat_eq_iff unat_take_bit)
  then have "bit w n \<Longrightarrow> n < 3" for n by (metis bit_take_bit_iff)
  then show ?thesis by (intro disjunctive_add_eq_or [symmetric] bit_word_eqI) (fastforce simp: bit_simps)
qed

lemma tag_wire: "unat w < 8 \<Longrightarrow> (hd (varint (8 * n)) OR w) # tl (varint (8 * n)) = varint (8 * n + unat w)"
proof -
  assume w: "unat w < 8"
  have or: "word_of_nat (8 * m) OR w = (word_of_nat (8 * m) + w :: u8)" for m
    using or_wire [OF w, of "word_of_nat m"] by (simp add: push_bit_eq_mult mult.commute)
  show ?thesis
  proof (cases "8 * n < 128")
    case True
    then have "8 * n + unat w < 128" using w by presburger
    then show ?thesis using True or [of n] by (simp add: varint_small)
  next
    case False
    define q r where "q = n div 16" and "r = n mod 16"
    have n: "n = 16 * q + r" "r < 16" unfolding q_def r_def by simp_all
    have s: "8 * r + unat w < 128" using n(2) w by simp
    have group: "(128 * q + x) mod 128 = x" "(128 * q + x) div 128 = q" if "x < 128" for x using that by simp_all
    have "8 * n + unat w = 128 * q + (8 * r + unat w)" using n(1) by simp
    then have d: "(8 * n + unat w) mod 128 = 8 * r + unat w" "(8 * n + unat w) div 128 = q"
      using group [OF s] by (simp_all only:)
    have "8 * n = 128 * q + 8 * r" using n(1) by simp
    then have e: "8 * n mod 128 = 8 * r" "8 * n div 128 = q" using n(2) by simp_all
    have l: "128 \<le> 8 * n" "128 \<le> 8 * n + unat w" using False by simp_all
    note b = varint_big [OF l(1), unfolded e] varint_big [OF l(2), unfolded d]
    have "word_of_nat (8 * r + 128) OR w = (word_of_nat (8 * r + unat w + 128) :: u8)"
      using or [of "r + 16"] by (simp add: add_ac)
    then show ?thesis unfolding b by simp
  qed
qed

subsection \<open>Parsing reads the reference\<close>

lemma ucast_group: "8 \<le> LENGTH('a) \<Longrightarrow> (ucast ((b :: u8) AND 0x7f) :: 'a::len word) = of_nat (unat (b AND 0x7f))"
  by simp

lemma or_group: "(ucast ((b :: u8) AND 0x7f) :: 'a::len word) OR push_bit 7 x = ucast (b AND 0x7f) + push_bit 7 x"
  unfolding and_7f_take
  by (intro disjunctive_add_eq_or [symmetric] bit_word_eqI) (auto simp: bit_simps)

lemma join_groups_val: "join_groups s bs = push_bit s (word_of_nat (varint_val bs) :: 'a::len word)"
proof (induction bs arbitrary: s)
  case (Cons b bs)
  have "ucast (b AND 0x7f) OR push_bit 7 (word_of_nat (varint_val bs)) = (word_of_nat (varint_val (b # bs)) :: 'a word)"
    unfolding or_group by (simp add: push_bit_eq_mult mult.commute)
  then show ?case using Cons [of "s + 7"] by (simp flip: push_bit_push_bit push_bit_or add: add.commute)
qed simp

lemma parse_uint32_val: "parse_uint32 d = word_of_nat (varint_val (take 5 d))"
proof -
  have last: "push_bit 28 (ucast b) = (push_bit 28 (ucast (b AND 0x7f)) :: u32)" for b :: u8
    unfolding and_7f_take by (rule bit_word_eqI) (auto simp: bit_simps)
  have app: "join_groups s (xs @ ys) = (join_groups s xs OR join_groups (s + 7 * length xs) ys :: u32)" for s xs ys
  proof (induction xs arbitrary: s)
    case (Cons b xs)
    have e: "s + 7 + 7 * length xs = s + 7 * length (b # xs)" by simp
    have "join_groups (s + 7) (xs @ ys) = (join_groups (s + 7) xs OR join_groups (s + 7 * length (b # xs)) ys :: u32)"
      using Cons.IH [of "s + 7"] unfolding e .
    then show ?case unfolding append_Cons join_groups.simps or.assoc by (rule arg_cong)
  qed simp
  have "parse_uint32 d = join_groups 0 (take 5 d)"
  proof (cases "4 < length d")
    case True
    then have "take 5 d = take 4 d @ [d ! 4]" using take_Suc_conv_app_nth [OF True] by simp
    then show ?thesis using True by (simp add: parse_uint32_def app flip: last)
  qed (simp add: parse_uint32_def)
  then show ?thesis by (simp add: join_groups_val)
qed

lemma parse_uint32_pack: "parse_uint32 (uint32_pack v) = v"
  using u32_bound [of v] by (simp add: parse_uint32_val uint32_pack_varint varint_val_take)

lemma parse_int32_pack: "parse_int32 (int32_pack v) = v"
proof (cases "v <s 0")
  case True
  have "varint_val (take 5 (int32_pack v)) = unat (scast v :: u64) mod 2 ^ 35"
    using True by (simp add: int32_pack_varint varint_val_take)
  moreover have "word_of_nat (unat (scast v :: u64) mod 2 ^ 35) = v"
  proof (rule word_unat_eq_iff [THEN iffD2])
    have "unat (word_of_nat (unat (scast v :: u64) mod 2 ^ 35) :: u32) = unat (scast v :: u64) mod 2 ^ 35 mod 2 ^ 32"
      by (simp add: unat_of_nat)
    also have "\<dots> = unat (scast v :: u64) mod 2 ^ 32" by (rule mod_mod_cancel) simp
    also have "\<dots> = unat (ucast (scast v :: u64) :: u32)" by (simp add: unsigned_ucast_eq take_bit_eq_mod)
    also have "(ucast (scast v :: u64) :: u32) = v" by (rule bit_word_eqI) (simp add: bit_simps)
    finally show "unat (word_of_nat (unat (scast v :: u64) mod 2 ^ 35) :: u32) = unat v" .
  qed
  ultimately show ?thesis by (simp add: parse_int32_def parse_uint32_val)
next
  case False
  then show ?thesis
    using parse_uint32_pack [of v] by (simp add: parse_int32_def int32_pack_def)
qed

lemma parse_uint64_pack: "parse_uint64 (uint64_pack v) = v"
proof (cases "length (varint (unat v)) < 5")
  case True
  have "varint_val (take 5 (varint (unat v))) = unat v" using True by (simp add: varint_val_varint)
  moreover have "unat v < 2 ^ 32"
    using True varint_val_take [of 5 "unat v"] varint_val_take [of 4 "unat v"] by (simp add: varint_val_varint)
  moreover have "unat (ucast x :: u64) = unat x" for x :: u32
    using u32_bound [of x] by (simp add: unsigned_ucast_eq take_bit_nat_eq_self)
  ultimately show ?thesis
    using True by (simp add: parse_uint64_def uint64_pack_varint parse_uint32_val word_unat_eq_iff del: of_nat_unat)
next
  case False
  then show ?thesis by (simp add: parse_uint64_def uint64_pack_varint join_groups_val varint_val_varint)
qed

lemma parse_boolean_pack: "parse_boolean [if b then 1 else 0] = b"
  by (simp add: parse_boolean_def)

lemma scan_length_prefixed:
  assumes "length b < 2 ^ 31"
  shows "scan_length_prefixed_data (varint (length b) @ b @ rest) = Some (length (varint (length b)) + length b, length (varint (length b)))"
proof -
  have "varint_len 5 (varint (length b) @ b @ rest) = Some (length (varint (length b)))"
    using varint_len_varint [of "length b" 4 "b @ rest"] assms by simp
  moreover have "unat (word_of_nat (length b) :: u64) = length b" using assms by (simp add: unat_of_nat)
  moreover have "\<not> INT_MAX < word_of_nat (length b)"
    using assms by (simp add: INT_MAX_def word_less_nat_alt unat_of_nat)
  ultimately show ?thesis by (simp add: scan_length_prefixed_data_def join_groups_val varint_val_varint Let_def)
qed

lemma low_byte: "unat (b :: u8) < 128 \<Longrightarrow> b AND 0x7f = b"
  by (simp add: word_unat_eq_iff and_7f)

lemma tag_groups_join:
  "varint_len k bs = Some n \<Longrightarrow> tag_groups k t s rv (bs @ rest) = Some (t OR join_groups s (take n bs), rv + n)"
proof (induction k bs arbitrary: n t s rv rule: varint_len.induct)
  case (3 k b bs)
  show ?case
  proof (cases "b AND 0x80 = 0")
    case True
    then have "b AND 0x7f = b" by (intro low_byte) (simp only: and_80)
    then show ?thesis using True 3(2) by auto
  next
    case False
    then obtain m where "varint_len k bs = Some m" "n = Suc m" using 3(2) by auto
    then show ?thesis using False 3(1) by (simp add: or.assoc)
  qed
qed simp_all

lemma tag_groups_varint:
  "m < 128 ^ Suc k \<Longrightarrow> tag_groups (Suc k) t s rv (varint m @ rest) = Some (t OR push_bit s (word_of_nat m), rv + length (varint m))"
  using tag_groups_join [OF varint_len_varint [of m k "[]"], of t s rv rest] by (simp add: join_groups_val varint_val_varint)

lemma and_f8: "unat (b :: u8) \<ge> 8 \<Longrightarrow> b AND 0xf8 \<noteq> 0"
proof
  assume b: "8 \<le> unat b" "b AND 0xf8 = 0"
  have m: "(0xf8 :: u8) = NOT (mask 3)" by (simp add: mask_eq_exp_minus_1)
  have "bit b n \<Longrightarrow> n < 3" for n
    using b(2) bit_and_iff [of b "NOT (mask 3)" n] bit_imp_le_length [of b n] unfolding m by (auto simp: bit_simps)
  then have "b = take_bit 3 b" by (intro bit_word_eqI) (auto simp: bit_simps)
  then have "unat b = unat b mod 8" using unat_take_bit [of 3 b] by simp
  then show False using b(1) mod_less_divisor [of 8 "unat b"] by simp
qed

lemma parse_tag_varint:
  assumes "0 < n" "n < 2 ^ 29" "unat w < 8"
  shows "parse_tag_and_wiretype (varint (8 * n + unat w) @ rest) = Some (word_of_nat n, w, length (varint (8 * n + unat w)))"
proof (cases "8 * n + unat w < 128")
  case True
  let ?b = "word_of_nat (8 * n + unat w) :: u8"
  have b: "unat ?b = 8 * n + unat w" using True by (simp only: unat_of_nat) simp
  then have f: "?b AND 0xf8 \<noteq> 0" "?b AND 0x80 = 0" "?b AND 0x7f = ?b"
    using True assms(1) and_f8 [of ?b] and_80 [of ?b] low_byte [of ?b] by simp_all
  have "unat (take_bit 3 ?b) = unat w" using assms(3) by (simp only: unat_take_bit b) simp
  then have w: "?b AND 7 = w" by (simp only: and_7 word_unat_eq_iff)
  have "unat (ucast ?b :: u32) = 8 * n + unat w" by (rule trans [OF unat_ucast_up b]) simp_all
  then have "unat (drop_bit 3 (ucast ?b :: u32)) = n" using assms(3) by (simp only: unat_drop_bit) simp
  then have "drop_bit 3 (ucast ?b :: u32) = word_of_nat n" using assms(2) by (simp only: word_unat_eq_iff) simp
  then show ?thesis using f w by (simp only: varint_small [OF True] append_Cons append_Nil parse_tag_and_wiretype.simps Let_def if_False if_True) simp
next
  case False
  define q r where "q = n div 16" and "r = n mod 16"
  have n: "n = 16 * q + r" "r < 16" unfolding q_def r_def by simp_all
  have m: "8 * n + unat w = 128 * q + (8 * r + unat w)" "8 * r + unat w < 128" using n assms(3) by simp_all
  have d: "(8 * n + unat w) mod 128 = 8 * r + unat w" "(8 * n + unat w) div 128 = q"
    using m(2) unfolding m(1) by simp_all
  let ?b = "word_of_nat (8 * r + unat w + 128) :: u8"
  have b: "unat ?b = 8 * r + unat w + 128" using m(2) by (simp only: unat_of_nat) simp
  have v: "varint (8 * n + unat w) = ?b # varint q" using False varint_big [of "8 * n + unat w"] by (simp only: d)
  have f: "?b AND 0xf8 \<noteq> 0" "?b AND 0x80 \<noteq> 0" using and_f8 [of ?b] and_80 [of ?b] b by simp_all
  have "(8 * r + unat w + 128) mod 8 = unat w" using assms(3) by presburger
  then have "unat (take_bit 3 ?b) = unat w" by (simp only: unat_take_bit b) simp
  then have w: "?b AND 7 = w" by (simp only: and_7 word_unat_eq_iff)
  have "unat (?b AND 0x7f) = 8 * r + unat w" using m(2) by (simp only: and_7f b) simp
  then have u: "unat (ucast (?b AND 0x7f) :: u32) = 8 * r + unat w" by (simp add: unat_ucast_up)
  have "unat (drop_bit 3 (ucast (?b AND 0x7f) :: u32)) = r" using assms(3) by (simp only: unat_drop_bit u) simp
  then have t0: "drop_bit 3 (ucast (?b AND 0x7f) :: u32) = word_of_nat r" using n(2) by (simp only: word_unat_eq_iff) simp
  have q: "q < 128 ^ Suc 3" using assms(2) n by simp
  have "unat (push_bit 4 (word_of_nat q) OR word_of_nat r :: u32) = n"
    using q n assms(2) by (subst unat_push_or) simp_all
  then have t: "word_of_nat r OR push_bit 4 (word_of_nat q) = (word_of_nat n :: u32)"
    using assms(2) by (simp only: word_unat_eq_iff or.commute) simp
  have g: "tag_groups 4 (word_of_nat r) 4 1 (varint q @ rest) = Some (word_of_nat n, 1 + length (varint q))"
    using tag_groups_varint [OF q, of "word_of_nat r" 4 1 rest] by (simp only: t) simp
  show ?thesis
    using f by (simp only: v append_Cons parse_tag_and_wiretype.simps Let_def if_False t0 w g option.map prod.case) simp
qed

end
