(* ===== verification/Boat_Protobuf.thy ===== *)
theory Boat_Protobuf
  imports Boat_Varint
begin

text \<open>
  Packing and unpacking of protobuf messages, translated from \<open>sdk/third-party/protobuf-c/src/protobuf-c.c\<close>. The library works on
  tables: a message descriptor lists its fields in the order of their numbers, each with its type, its label and, for a field
  that holds messages, their descriptor. The generated \<open>*.pb-c.c\<close> files consist of such tables, and their functions call the
  library with the table of the message.

  A C message is a structure whose members the descriptor finds by their offsets; here it is the list of its members in the order of the
  fields. The tables of this repository use nine types and the labels NONE and REPEATED only, without the flag for packed arrays; the
  model has those. Fields that are not in the table are kept with the message, as the library does. The allocator is taken to succeed.

  The theorems: the size announced is the number of bytes written, unpacking what was packed gives the message back, and
  whatever unpacking accepts is a message of the descriptor.
\<close>

subsection \<open>Descriptors and messages\<close>

datatype ProtobufCLabel = PROTOBUF_C_LABEL_REPEATED | PROTOBUF_C_LABEL_NONE

datatype ProtobufCType =
    PROTOBUF_C_TYPE_INT32 | PROTOBUF_C_TYPE_INT64 | PROTOBUF_C_TYPE_UINT32 | PROTOBUF_C_TYPE_UINT64
  | PROTOBUF_C_TYPE_BOOL | PROTOBUF_C_TYPE_ENUM | PROTOBUF_C_TYPE_STRING | PROTOBUF_C_TYPE_BYTES | PROTOBUF_C_TYPE_MESSAGE

text \<open>
  Name, fields, the indices of the fields sorted by name, and the ranges of field numbers: first number and index of its field.
  A field: its name, number, label, type and the descriptor of its messages.
\<close>

datatype ProtobufCMessageDescriptor =
  MessageDescriptor (msg_name: string) (msg_fields: "ProtobufCFieldDescriptor list") (fields_sorted_by_name: "nat list")
    (field_ranges: "(int \<times> nat) list")
and ProtobufCFieldDescriptor =
  FieldDescriptor (fd_name: string) (fd_id: u32) (fd_label: ProtobufCLabel) (fd_type: ProtobufCType)
    (fd_descriptor: "ProtobufCMessageDescriptor option")

text \<open>
  A string member is null, the shared empty string that is the default of every string field, or a block of bytes up to its
  terminator. The tags of unknown fields come with their wire type and data.
\<close>

datatype ProtobufCString = NullString | EmptyString | Str bytes

datatype ProtobufCMessage = Message (members: "ProtobufCValue list") (unknown_fields: "(u32 \<times> u8 \<times> bytes) list")
and ProtobufCValue =
    Word32 u32
  | Word64 u64
  | Boolean bool
  | String ProtobufCString
  | Bytes bytes
  | SubMessage "ProtobufCMessage option"
  | Repeated "ProtobufCValue list"

definition WIRE_VARINT :: u8 where "WIRE_VARINT = 0"
definition WIRE_LENGTH_PREFIXED :: u8 where "WIRE_LENGTH_PREFIXED = 2"

fun wire_type :: "ProtobufCType \<Rightarrow> u8" where
  "wire_type PROTOBUF_C_TYPE_STRING = WIRE_LENGTH_PREFIXED"
| "wire_type PROTOBUF_C_TYPE_BYTES = WIRE_LENGTH_PREFIXED"
| "wire_type PROTOBUF_C_TYPE_MESSAGE = WIRE_LENGTH_PREFIXED"
| "wire_type _ = WIRE_VARINT"

text \<open>What \<open>strlen\<close> delimits.\<close>

fun str_content :: "ProtobufCString \<Rightarrow> bytes" where
  "str_content NullString = []"
| "str_content EmptyString = []"
| "str_content (Str s) = takeWhile (\<lambda>c. c \<noteq> 0) s"

subsection \<open>Size\<close>

definition prefixed_size :: "nat \<Rightarrow> nat" where
  "prefixed_size n = uint32_size (of_nat n) + n"

text \<open>
  A field of its own may be null, which counts as empty; an element of an array may not: \<open>repeated_field_get_packed_size\<close> takes \<open>strlen\<close>
  or the size of it without a test.
\<close>

fun value_size :: "(ProtobufCMessage \<Rightarrow> nat res) \<Rightarrow> ProtobufCType \<Rightarrow> ProtobufCValue \<Rightarrow> nat res" where
  "value_size sub PROTOBUF_C_TYPE_ENUM (Word32 x) = Inr (int32_size x)"
| "value_size sub PROTOBUF_C_TYPE_INT32 (Word32 x) = Inr (int32_size x)"
| "value_size sub PROTOBUF_C_TYPE_UINT32 (Word32 x) = Inr (uint32_size x)"
| "value_size sub PROTOBUF_C_TYPE_INT64 (Word64 x) = Inr (uint64_size x)"
| "value_size sub PROTOBUF_C_TYPE_UINT64 (Word64 x) = Inr (uint64_size x)"
| "value_size sub PROTOBUF_C_TYPE_BOOL (Boolean b) = Inr 1"
| "value_size sub PROTOBUF_C_TYPE_STRING (String s) = Inr (prefixed_size (length (str_content s)))"
| "value_size sub PROTOBUF_C_TYPE_BYTES (Bytes b) = Inr (prefixed_size (length b))"
| "value_size sub PROTOBUF_C_TYPE_MESSAGE (SubMessage m) =
     bindR (case m of None \<Rightarrow> Inr 0 | Some s \<Rightarrow> sub s) (\<lambda>n. Inr (prefixed_size n))"
| "value_size sub _ _ = Inr 0"

fun element_size :: "(ProtobufCMessage \<Rightarrow> nat res) \<Rightarrow> ProtobufCType \<Rightarrow> ProtobufCValue \<Rightarrow> nat res" where
  "element_size sub PROTOBUF_C_TYPE_STRING (String NullString) = Inl UB"
| "element_size sub PROTOBUF_C_TYPE_MESSAGE (SubMessage None) = Inl UB"
| "element_size sub t v = value_size sub t v"

fun sum_sizes :: "nat res list \<Rightarrow> nat res" where
  "sum_sizes [] = Inr 0"
| "sum_sizes (r # rs) = bindR r (\<lambda>n. bindR (sum_sizes rs) (\<lambda>k. Inr (n + k)))"

fun field_is_zeroish :: "ProtobufCValue \<Rightarrow> bool" where
  "field_is_zeroish (Boolean b) = (\<not> b)"
| "field_is_zeroish (Word32 x) = (x = 0)"
| "field_is_zeroish (Word64 x) = (x = 0)"
| "field_is_zeroish (String s) = (str_content s = [])"
| "field_is_zeroish (Bytes b) = (b = [])"
| "field_is_zeroish (SubMessage m) = (m = None)"
| "field_is_zeroish (Repeated vs) = True"

definition field_size :: "(ProtobufCMessage \<Rightarrow> nat res) \<Rightarrow> u32 \<Rightarrow> ProtobufCLabel \<Rightarrow> ProtobufCType \<Rightarrow> ProtobufCValue \<Rightarrow> nat res" where
  "field_size sub number l t v =
     (case l of
        PROTOBUF_C_LABEL_NONE \<Rightarrow>
          if field_is_zeroish v then Inr 0 else bindR (value_size sub t v) (\<lambda>n. Inr (get_tag_size number + n))
      | PROTOBUF_C_LABEL_REPEATED \<Rightarrow>
          (case v of
             Repeated vs \<Rightarrow> bindR (sum_sizes (map (element_size sub t) vs)) (\<lambda>n. Inr (get_tag_size number * length vs + n))
           | _ \<Rightarrow> Inr 0))"

definition unknown_field_get_packed_size :: "u32 \<times> u8 \<times> bytes \<Rightarrow> nat" where
  "unknown_field_get_packed_size u = (case u of (t, w, d) \<Rightarrow> get_tag_size t + length d)"

primrec protobuf_c_message_get_packed_size :: "ProtobufCMessageDescriptor \<Rightarrow> ProtobufCMessage \<Rightarrow> nat res"
and field_get_packed_size :: "ProtobufCFieldDescriptor \<Rightarrow> ProtobufCValue \<Rightarrow> nat res" where
  "protobuf_c_message_get_packed_size (MessageDescriptor n fs ix rs) = (\<lambda>m.
     bindR (sum_sizes (map2 (\<lambda>f v. f v) (map field_get_packed_size fs) (members m))) (\<lambda>k.
       Inr (k + sum_list (map unknown_field_get_packed_size (unknown_fields m)))))"
| "field_get_packed_size (FieldDescriptor n i l t d) = (\<lambda>v.
     field_size (case map_option protobuf_c_message_get_packed_size d of None \<Rightarrow> (\<lambda>_. Inr 0) | Some g \<Rightarrow> g) i l t v)"

subsection \<open>Packing\<close>

definition prefixed_pack :: "bytes \<Rightarrow> bytes" where
  "prefixed_pack b = uint32_pack (of_nat (length b)) @ b"

text \<open>
  \<open>prefixed_message_pack\<close> packs the message behind one byte, moves it when its length takes more, and writes the length:
  length and message.
\<close>

fun value_pack :: "(ProtobufCMessage \<Rightarrow> bytes) \<Rightarrow> ProtobufCType \<Rightarrow> ProtobufCValue \<Rightarrow> bytes" where
  "value_pack sub PROTOBUF_C_TYPE_ENUM (Word32 x) = int32_pack x"
| "value_pack sub PROTOBUF_C_TYPE_INT32 (Word32 x) = int32_pack x"
| "value_pack sub PROTOBUF_C_TYPE_UINT32 (Word32 x) = uint32_pack x"
| "value_pack sub PROTOBUF_C_TYPE_INT64 (Word64 x) = uint64_pack x"
| "value_pack sub PROTOBUF_C_TYPE_UINT64 (Word64 x) = uint64_pack x"
| "value_pack sub PROTOBUF_C_TYPE_BOOL (Boolean b) = [if b then 1 else 0]"
| "value_pack sub PROTOBUF_C_TYPE_STRING (String s) = (if s = NullString then [0] else prefixed_pack (str_content s))"
| "value_pack sub PROTOBUF_C_TYPE_BYTES (Bytes b) = prefixed_pack b"
| "value_pack sub PROTOBUF_C_TYPE_MESSAGE (SubMessage m) = (case m of None \<Rightarrow> [0] | Some s \<Rightarrow> prefixed_pack (sub s))"
| "value_pack sub _ _ = []"

definition tag_with :: "u32 \<Rightarrow> u8 \<Rightarrow> bytes" where
  "tag_with number w = (let t = tag_pack number in (hd t OR w) # tl t)"

definition required_field_pack :: "(ProtobufCMessage \<Rightarrow> bytes) \<Rightarrow> u32 \<Rightarrow> ProtobufCType \<Rightarrow> ProtobufCValue \<Rightarrow> bytes" where
  "required_field_pack sub number t v = tag_with number (wire_type t) @ value_pack sub t v"

definition field_pack_with :: "(ProtobufCMessage \<Rightarrow> bytes) \<Rightarrow> u32 \<Rightarrow> ProtobufCLabel \<Rightarrow> ProtobufCType \<Rightarrow> ProtobufCValue \<Rightarrow> bytes" where
  "field_pack_with sub number l t v =
     (case l of
        PROTOBUF_C_LABEL_NONE \<Rightarrow> if field_is_zeroish v then [] else required_field_pack sub number t v
      | PROTOBUF_C_LABEL_REPEATED \<Rightarrow>
          (case v of Repeated vs \<Rightarrow> concat (map (required_field_pack sub number t) vs) | _ \<Rightarrow> []))"

definition unknown_field_pack :: "u32 \<times> u8 \<times> bytes \<Rightarrow> bytes" where
  "unknown_field_pack u = (case u of (t, w, d) \<Rightarrow> tag_with t w @ d)"

primrec protobuf_c_message_pack :: "ProtobufCMessageDescriptor \<Rightarrow> ProtobufCMessage \<Rightarrow> bytes"
and field_pack :: "ProtobufCFieldDescriptor \<Rightarrow> ProtobufCValue \<Rightarrow> bytes" where
  "protobuf_c_message_pack (MessageDescriptor n fs ix rs) = (\<lambda>m.
     concat (map2 (\<lambda>f v. f v) (map field_pack fs) (members m)) @ concat (map unknown_field_pack (unknown_fields m)))"
| "field_pack (FieldDescriptor n i l t d) = (\<lambda>v.
     field_pack_with (case map_option protobuf_c_message_pack d of None \<Rightarrow> (\<lambda>_. []) | Some g \<Rightarrow> g) i l t v)"

subsection \<open>Finding the field of a tag\<close>

text \<open>
  Binary search among the ranges; the last entry of the table is a sentinel that carries the number of fields. \<open>start\<close> and \<open>n\<close> delimit
  the ranges still considered.
\<close>

function range_search :: "(int \<times> nat) list \<Rightarrow> int \<Rightarrow> nat \<Rightarrow> nat \<Rightarrow> int" where
  "range_search ranges v start n =
     (if 1 < n then
        let mid = start + n div 2;
            s = fst (ranges ! mid);
            size = int (snd (ranges ! (mid + 1))) - int (snd (ranges ! mid))
        in if v < s then range_search ranges v start (mid - start)
           else if s + size \<le> v then range_search ranges v (mid + 1) (start + n - (mid + 1))
           else v - s + int (snd (ranges ! mid))
      else if 0 < n then
        let s = fst (ranges ! start);
            i = snd (ranges ! start);
            size = int (snd (ranges ! (start + 1))) - int i
        in if s \<le> v \<and> v < s + size then v - s + int i else - 1
      else - 1)"
  by pat_completeness auto
termination by (relation "measure (\<lambda>(ranges, v, start, n). n)") auto

declare range_search.simps [simp del]

definition int_range_lookup :: "(int \<times> nat) list \<Rightarrow> int \<Rightarrow> int" where
  "int_range_lookup ranges v = range_search ranges v 0 (length ranges - 1)"

text \<open>The field found last is tried before the search.\<close>

definition find_field :: "ProtobufCFieldDescriptor list \<Rightarrow> (int \<times> nat) list \<Rightarrow> nat option \<Rightarrow> u32 \<Rightarrow> nat option" where
  "find_field fs ranges last_field t =
     (case last_field of
        Some i \<Rightarrow>
          if fd_id (fs ! i) = t then Some i
          else (let k = int_range_lookup ranges (sint t) in if k < 0 then None else Some (nat k))
      | None \<Rightarrow> (let k = int_range_lookup ranges (sint t) in if k < 0 then None else Some (nat k)))"

subsection \<open>Scanning\<close>

text \<open>A member of the packed message: tag, wire type, length of the length prefix, index of its field, and its bytes.\<close>

record ScannedMember =
  sm_tag :: u32
  sm_wire_type :: u8
  sm_length_prefix_len :: nat
  sm_field :: "nat option"
  sm_data :: bytes

definition member_len :: "u8 \<Rightarrow> bytes \<Rightarrow> (nat \<times> nat) option" where
  "member_len w at =
     (if w = WIRE_VARINT then map_option (\<lambda>n. (n, 0)) (varint_len 10 at)
      else if w = 1 then (if length at < 8 then None else Some (8, 0))
      else if w = WIRE_LENGTH_PREFIXED then scan_length_prefixed_data at
      else if w = 5 then (if length at < 4 then None else Some (4, 0))
      else None)"

lemma tag_groups_pos: "tag_groups k t s rv d = Some (t', n) \<Longrightarrow> rv < n"
  by (induction k t s rv d arbitrary: n rule: tag_groups.induct) (auto split: if_splits)

lemma parse_tag_pos: "parse_tag_and_wiretype d = Some (t, w, n) \<Longrightarrow> 0 < n"
  using tag_groups_pos by (cases d) (auto simp: Let_def split: if_splits, force)

function (sequential) scan_members ::
  "ProtobufCFieldDescriptor list \<Rightarrow> (int \<times> nat) list \<Rightarrow> nat option \<Rightarrow> bytes \<Rightarrow> ScannedMember list option" where
  "scan_members fs ranges last_field [] = Some []"
| "scan_members fs ranges last_field at =
     (case parse_tag_and_wiretype at of
        None \<Rightarrow> None
      | Some (t, w, used) \<Rightarrow>
          let field = find_field fs ranges last_field t;
              last' = (if field = None then last_field else field);
              at' = drop used at
          in case member_len w at' of
               None \<Rightarrow> None
             | Some (n, pref) \<Rightarrow>
                 map_option
                   (Cons \<lparr>sm_tag = t, sm_wire_type = w, sm_length_prefix_len = pref, sm_field = field, sm_data = take n at'\<rparr>)
                   (scan_members fs ranges last' (drop n at')))"
  by pat_completeness auto
termination
  by (relation "measure (\<lambda>(fs, ranges, last_field, at). length at)")
    (auto simp del: parse_tag_and_wiretype.simps dest!: parse_tag_pos)

declare scan_members.simps(2) [simp del]

subsection \<open>Parsing members\<close>

text \<open>
  Two occurrences of a field that holds one message are merged: what the later one lacks is taken from the earlier one. For numbers
  the C test reads the descriptor pointer of both messages and never takes the earlier value.
\<close>

fun merge_value :: "(ProtobufCMessage \<Rightarrow> ProtobufCMessage \<Rightarrow> ProtobufCMessage) \<Rightarrow> ProtobufCValue \<Rightarrow> ProtobufCValue \<Rightarrow> ProtobufCValue" where
  "merge_value sub (Repeated es) (Repeated ls) = Repeated (es @ ls)"
| "merge_value sub (SubMessage (Some em)) (SubMessage (Some lm)) = SubMessage (Some (sub em lm))"
| "merge_value sub (SubMessage (Some em)) (SubMessage None) = SubMessage (Some em)"
| "merge_value sub (Bytes e) (Bytes l) = Bytes (if e \<noteq> [] \<and> l = [] then e else l)"
| "merge_value sub (String e) (String l) = String (if e \<noteq> EmptyString \<and> l = EmptyString then e else l)"
| "merge_value sub e l = l"

primrec merge_messages :: "ProtobufCMessageDescriptor \<Rightarrow> ProtobufCMessage \<Rightarrow> ProtobufCMessage \<Rightarrow> ProtobufCMessage"
and merge_field :: "ProtobufCFieldDescriptor \<Rightarrow> ProtobufCValue \<Rightarrow> ProtobufCValue \<Rightarrow> ProtobufCValue" where
  "merge_messages (MessageDescriptor n fs ix rs) = (\<lambda>earlier latter.
     Message (map2 (\<lambda>f p. f (fst p) (snd p)) (map merge_field fs) (zip (members earlier) (members latter))) (unknown_fields latter))"
| "merge_field (FieldDescriptor n i l t d) = merge_value (case map_option merge_messages d of None \<Rightarrow> (\<lambda>e l. l) | Some g \<Rightarrow> g)"

definition parse_required_member ::
  "ProtobufCType \<Rightarrow> (bytes \<Rightarrow> ProtobufCMessage option) \<Rightarrow> (ProtobufCValue \<Rightarrow> ProtobufCValue \<Rightarrow> ProtobufCValue) \<Rightarrow>
     ScannedMember \<Rightarrow> ProtobufCValue option \<Rightarrow> ProtobufCValue option" where
  "parse_required_member t sub merge sm earlier =
     (let d = sm_data sm; w = sm_wire_type sm; body = drop (sm_length_prefix_len sm) d in
      case t of
        PROTOBUF_C_TYPE_ENUM \<Rightarrow> if w \<noteq> WIRE_VARINT then None else Some (Word32 (parse_int32 d))
      | PROTOBUF_C_TYPE_INT32 \<Rightarrow> if w \<noteq> WIRE_VARINT then None else Some (Word32 (parse_int32 d))
      | PROTOBUF_C_TYPE_UINT32 \<Rightarrow> if w \<noteq> WIRE_VARINT then None else Some (Word32 (parse_uint32 d))
      | PROTOBUF_C_TYPE_INT64 \<Rightarrow> if w \<noteq> WIRE_VARINT then None else Some (Word64 (parse_uint64 d))
      | PROTOBUF_C_TYPE_UINT64 \<Rightarrow> if w \<noteq> WIRE_VARINT then None else Some (Word64 (parse_uint64 d))
      | PROTOBUF_C_TYPE_BOOL \<Rightarrow> Some (Boolean (parse_boolean d))
      | PROTOBUF_C_TYPE_STRING \<Rightarrow> if w \<noteq> WIRE_LENGTH_PREFIXED then None else Some (String (Str body))
      | PROTOBUF_C_TYPE_BYTES \<Rightarrow> if w \<noteq> WIRE_LENGTH_PREFIXED then None else Some (Bytes body)
      | PROTOBUF_C_TYPE_MESSAGE \<Rightarrow>
          if w \<noteq> WIRE_LENGTH_PREFIXED then None
          else map_option (\<lambda>m. case earlier of None \<Rightarrow> SubMessage (Some m) | Some e \<Rightarrow> merge e (SubMessage (Some m))) (sub body))"

definition is_packable_type :: "ProtobufCType \<Rightarrow> bool" where
  "is_packable_type t \<longleftrightarrow> t \<noteq> PROTOBUF_C_TYPE_STRING \<and> t \<noteq> PROTOBUF_C_TYPE_BYTES \<and> t \<noteq> PROTOBUF_C_TYPE_MESSAGE"

text \<open>The elements of a packed array.\<close>

fun packed_element :: "ProtobufCType \<Rightarrow> bytes \<Rightarrow> ProtobufCValue" where
  "packed_element PROTOBUF_C_TYPE_UINT32 d = Word32 (parse_uint32 d)"
| "packed_element PROTOBUF_C_TYPE_INT64 d = Word64 (parse_uint64 d)"
| "packed_element PROTOBUF_C_TYPE_UINT64 d = Word64 (parse_uint64 d)"
| "packed_element t d = Word32 (parse_int32 d)"

function (sequential) packed_elements :: "ProtobufCType \<Rightarrow> bytes \<Rightarrow> ProtobufCValue list option" where
  "packed_elements t [] = Some []"
| "packed_elements t at =
     (case scan_varint at of
        None \<Rightarrow> None
      | Some s \<Rightarrow> map_option (Cons (packed_element t (take s at))) (packed_elements t (drop s at)))"
  by pat_completeness auto
termination
  by (relation "measure (\<lambda>(t, at). length at)") (auto simp: scan_varint_def dest!: varint_len_bounds)

definition parse_packed_repeated_member :: "ProtobufCType \<Rightarrow> bytes \<Rightarrow> ProtobufCValue list option" where
  "parse_packed_repeated_member t at =
     (if t = PROTOBUF_C_TYPE_BOOL
      then (if list_all (\<lambda>b. b \<le> 1) at then Some (map (\<lambda>b. Boolean (b = 1)) at) else None)
      else packed_elements t at)"

text \<open>What a field is parsed with: label, type, and the functions of its messages.\<close>

type_synonym field_parser =
  "ProtobufCLabel \<times> ProtobufCType \<times> (bytes \<Rightarrow> ProtobufCMessage option) \<times> (ProtobufCValue \<Rightarrow> ProtobufCValue \<Rightarrow> ProtobufCValue)"

definition parse_member :: "field_parser list \<Rightarrow> ScannedMember \<Rightarrow> ProtobufCMessage \<Rightarrow> ProtobufCMessage option" where
  "parse_member ps sm m =
     (case sm_field sm of
        None \<Rightarrow> Some (Message (members m) (unknown_fields m @ [(sm_tag sm, sm_wire_type sm, sm_data sm)]))
      | Some i \<Rightarrow>
          (case ps ! i of (l, t, sub, merge) \<Rightarrow>
            (case l of
               PROTOBUF_C_LABEL_NONE \<Rightarrow>
                 map_option (\<lambda>v. Message ((members m)[i := v]) (unknown_fields m))
                   (parse_required_member t sub merge sm (Some (members m ! i)))
             | PROTOBUF_C_LABEL_REPEATED \<Rightarrow>
                 (case members m ! i of
                    Repeated vs \<Rightarrow>
                      map_option (\<lambda>ws. Message ((members m)[i := Repeated (vs @ ws)]) (unknown_fields m))
                        (if sm_wire_type sm = WIRE_LENGTH_PREFIXED \<and> is_packable_type t
                         then parse_packed_repeated_member t (drop (sm_length_prefix_len sm) (sm_data sm))
                         else map_option (\<lambda>v. [v]) (parse_required_member t sub merge sm None))
                  | _ \<Rightarrow> None))))"

fun parse_members :: "field_parser list \<Rightarrow> ScannedMember list \<Rightarrow> ProtobufCMessage \<Rightarrow> ProtobufCMessage option" where
  "parse_members ps [] m = Some m"
| "parse_members ps (sm # sms) m = (case parse_member ps sm m of None \<Rightarrow> None | Some m' \<Rightarrow> parse_members ps sms m')"

text \<open>What the generated \<open>init\<close> functions set.\<close>

fun field_init :: "ProtobufCLabel \<Rightarrow> ProtobufCType \<Rightarrow> ProtobufCValue" where
  "field_init PROTOBUF_C_LABEL_REPEATED t = Repeated []"
| "field_init PROTOBUF_C_LABEL_NONE PROTOBUF_C_TYPE_INT64 = Word64 0"
| "field_init PROTOBUF_C_LABEL_NONE PROTOBUF_C_TYPE_UINT64 = Word64 0"
| "field_init PROTOBUF_C_LABEL_NONE PROTOBUF_C_TYPE_BOOL = Boolean False"
| "field_init PROTOBUF_C_LABEL_NONE PROTOBUF_C_TYPE_STRING = String EmptyString"
| "field_init PROTOBUF_C_LABEL_NONE PROTOBUF_C_TYPE_BYTES = Bytes []"
| "field_init PROTOBUF_C_LABEL_NONE PROTOBUF_C_TYPE_MESSAGE = SubMessage None"
| "field_init PROTOBUF_C_LABEL_NONE t = Word32 0"

text \<open>The slabs for scanned members, each twice as large as the one before and the first of 16, hold \<open>16 * (2 ^ 23 - 1)\<close> of them.\<close>

definition MAX_SCANNED_MEMBERS :: nat where "MAX_SCANNED_MEMBERS = 16 * (2 ^ 23 - 1)"

definition unpack_with :: "ProtobufCFieldDescriptor list \<Rightarrow> (int \<times> nat) list \<Rightarrow> field_parser list \<Rightarrow> bytes \<Rightarrow> ProtobufCMessage option" where
  "unpack_with fs ranges ps d =
     (case scan_members fs ranges (if fs = [] then None else Some 0) d of
        None \<Rightarrow> None
      | Some sms \<Rightarrow>
          if MAX_SCANNED_MEMBERS < length sms then None
          else parse_members ps sms (Message (map (\<lambda>(l, t, _). field_init l t) ps) []))"

primrec protobuf_c_message_unpack :: "ProtobufCMessageDescriptor \<Rightarrow> bytes \<Rightarrow> ProtobufCMessage option"
and field_parser :: "ProtobufCFieldDescriptor \<Rightarrow> field_parser" where
  "protobuf_c_message_unpack (MessageDescriptor n fs ix rs) = unpack_with fs rs (map field_parser fs)"
| "field_parser (FieldDescriptor n i l t d) =
     (l, t, (case map_option protobuf_c_message_unpack d of None \<Rightarrow> (\<lambda>_. None) | Some g \<Rightarrow> g), merge_field (FieldDescriptor n i l t d))"

subsection \<open>Reference notions\<close>

text \<open>Messages of a descriptor. The elements of a repeated field are not null.\<close>

fun value_typed :: "(ProtobufCMessage \<Rightarrow> bool) \<Rightarrow> ProtobufCType \<Rightarrow> ProtobufCValue \<Rightarrow> bool" where
  "value_typed sub PROTOBUF_C_TYPE_ENUM (Word32 x) = True"
| "value_typed sub PROTOBUF_C_TYPE_INT32 (Word32 x) = True"
| "value_typed sub PROTOBUF_C_TYPE_UINT32 (Word32 x) = True"
| "value_typed sub PROTOBUF_C_TYPE_INT64 (Word64 x) = True"
| "value_typed sub PROTOBUF_C_TYPE_UINT64 (Word64 x) = True"
| "value_typed sub PROTOBUF_C_TYPE_BOOL (Boolean b) = True"
| "value_typed sub PROTOBUF_C_TYPE_STRING (String s) = True"
| "value_typed sub PROTOBUF_C_TYPE_BYTES (Bytes b) = True"
| "value_typed sub PROTOBUF_C_TYPE_MESSAGE (SubMessage m) = (case m of None \<Rightarrow> True | Some s \<Rightarrow> sub s)"
| "value_typed sub _ _ = False"

definition field_typed :: "(ProtobufCMessage \<Rightarrow> bool) \<Rightarrow> ProtobufCLabel \<Rightarrow> ProtobufCType \<Rightarrow> ProtobufCValue \<Rightarrow> bool" where
  "field_typed sub l t v =
     (case l of
        PROTOBUF_C_LABEL_NONE \<Rightarrow> value_typed sub t v
      | PROTOBUF_C_LABEL_REPEATED \<Rightarrow>
          (case v of Repeated vs \<Rightarrow> list_all (\<lambda>v. value_typed sub t v \<and> v \<noteq> String NullString \<and> v \<noteq> SubMessage None) vs | _ \<Rightarrow> False))"

primrec message_typed :: "ProtobufCMessageDescriptor \<Rightarrow> ProtobufCMessage \<Rightarrow> bool"
and typed_field :: "ProtobufCFieldDescriptor \<Rightarrow> ProtobufCValue \<Rightarrow> bool" where
  "message_typed (MessageDescriptor n fs ix rs) = (\<lambda>m.
     length (members m) = length fs \<and> list_all (\<lambda>(f, v). f v) (zip (map typed_field fs) (members m)))"
| "typed_field (FieldDescriptor n i l t d) =
     field_typed (case map_option message_typed d of None \<Rightarrow> (\<lambda>_. True) | Some g \<Rightarrow> g) l t"

text \<open>Messages whose arrays have no null elements, so that their size can be computed.\<close>

fun value_sound :: "(ProtobufCMessage \<Rightarrow> bool) \<Rightarrow> ProtobufCType \<Rightarrow> ProtobufCValue \<Rightarrow> bool" where
  "value_sound sub PROTOBUF_C_TYPE_MESSAGE (SubMessage (Some m)) = sub m"
| "value_sound sub _ _ = True"

fun element_sound :: "(ProtobufCMessage \<Rightarrow> bool) \<Rightarrow> ProtobufCType \<Rightarrow> ProtobufCValue \<Rightarrow> bool" where
  "element_sound sub PROTOBUF_C_TYPE_STRING (String NullString) = False"
| "element_sound sub PROTOBUF_C_TYPE_MESSAGE (SubMessage None) = False"
| "element_sound sub t v = value_sound sub t v"

definition field_sound :: "(ProtobufCMessage \<Rightarrow> bool) \<Rightarrow> ProtobufCLabel \<Rightarrow> ProtobufCType \<Rightarrow> ProtobufCValue \<Rightarrow> bool" where
  "field_sound sub l t v =
     (case l of
        PROTOBUF_C_LABEL_NONE \<Rightarrow> value_sound sub t v
      | PROTOBUF_C_LABEL_REPEATED \<Rightarrow> (case v of Repeated vs \<Rightarrow> list_all (element_sound sub t) vs | _ \<Rightarrow> True))"

primrec no_null_elements :: "ProtobufCMessageDescriptor \<Rightarrow> ProtobufCMessage \<Rightarrow> bool"
and sound_field :: "ProtobufCFieldDescriptor \<Rightarrow> ProtobufCValue \<Rightarrow> bool" where
  "no_null_elements (MessageDescriptor n fs ix rs) = (\<lambda>m. list_all (\<lambda>(f, v). f v) (zip (map sound_field fs) (members m)))"
| "sound_field (FieldDescriptor n i l t d) =
     field_sound (case map_option no_null_elements d of None \<Rightarrow> (\<lambda>_. True) | Some g \<Rightarrow> g) l t"

primrec all_known :: "ProtobufCMessage \<Rightarrow> bool" and value_known :: "ProtobufCValue \<Rightarrow> bool" where
  "all_known (Message vs us) \<longleftrightarrow> us = [] \<and> list_all (\<lambda>b. b) (map value_known vs)"
| "value_known (Word32 x) = True"
| "value_known (Word64 x) = True"
| "value_known (Boolean b) = True"
| "value_known (String s) = True"
| "value_known (Bytes b) = True"
| "value_known (SubMessage m) = (case map_option all_known m of None \<Rightarrow> True | Some b \<Rightarrow> b)"
| "value_known (Repeated vs) = list_all (\<lambda>b. b) (map value_known vs)"

text \<open>The message as it is unpacked: strings end at their terminator, and a field that is not packed has its initial value.\<close>

fun value_norm :: "(ProtobufCMessage \<Rightarrow> ProtobufCMessage) \<Rightarrow> ProtobufCValue \<Rightarrow> ProtobufCValue" where
  "value_norm sub (String s) = String (Str (str_content s))"
| "value_norm sub (SubMessage m) = SubMessage (map_option sub m)"
| "value_norm sub v = v"

definition field_norm :: "(ProtobufCMessage \<Rightarrow> ProtobufCMessage) \<Rightarrow> ProtobufCLabel \<Rightarrow> ProtobufCType \<Rightarrow> ProtobufCValue \<Rightarrow> ProtobufCValue" where
  "field_norm sub l t v =
     (case l of
        PROTOBUF_C_LABEL_NONE \<Rightarrow> if field_is_zeroish v then field_init l t else value_norm sub v
      | PROTOBUF_C_LABEL_REPEATED \<Rightarrow> (case v of Repeated vs \<Rightarrow> Repeated (map (value_norm sub) vs) | _ \<Rightarrow> v))"

primrec message_norm :: "ProtobufCMessageDescriptor \<Rightarrow> ProtobufCMessage \<Rightarrow> ProtobufCMessage"
and norm_field :: "ProtobufCFieldDescriptor \<Rightarrow> ProtobufCValue \<Rightarrow> ProtobufCValue" where
  "message_norm (MessageDescriptor n fs ix rs) = (\<lambda>m.
     Message (map2 (\<lambda>f v. f v) (map norm_field fs) (members m)) [])"
| "norm_field (FieldDescriptor n i l t d) =
     field_norm (case map_option message_norm d of None \<Rightarrow> (\<lambda>m. m) | Some g \<Rightarrow> g) l t"

text \<open>
  The ranges are in order and do not overlap, and the numbers of the fields of a range follow each other. A descriptor is sound
  when its table is and so are the descriptors it refers to.
\<close>

definition table_ok :: "ProtobufCFieldDescriptor list \<Rightarrow> (int \<times> nat) list \<Rightarrow> bool" where
  "table_ok fs rs \<longleftrightarrow>
     (if rs = [] then fs = []
      else snd (hd rs) = 0 \<and> snd (last rs) = length fs \<and>
        list_all (\<lambda>j. snd (rs ! j) < snd (rs ! (j + 1)) \<and>
            (j + 2 < length rs \<longrightarrow> fst (rs ! j) + int (snd (rs ! (j + 1))) - int (snd (rs ! j)) \<le> fst (rs ! (j + 1))) \<and>
            list_all (\<lambda>i. sint (fd_id (fs ! i)) = fst (rs ! j) + int i - int (snd (rs ! j))) [snd (rs ! j)..<snd (rs ! (j + 1))])
          [0..<length rs - 1])"

primrec descriptor_ok :: "ProtobufCMessageDescriptor \<Rightarrow> bool" and field_descriptor_ok :: "ProtobufCFieldDescriptor \<Rightarrow> bool" where
  "descriptor_ok (MessageDescriptor n fs ix rs) \<longleftrightarrow>
     list_all (\<lambda>b. b) (map field_descriptor_ok fs) \<and> table_ok fs rs"
| "field_descriptor_ok (FieldDescriptor n i l t d) \<longleftrightarrow>
     0 < i \<and> i < 2 ^ 29 \<and> (t = PROTOBUF_C_TYPE_MESSAGE \<longrightarrow> d \<noteq> None) \<and> (case map_option descriptor_ok d of None \<Rightarrow> True | Some b \<Rightarrow> b)"

text \<open>The functions of the messages a field holds.\<close>

definition sub_size :: "ProtobufCFieldDescriptor \<Rightarrow> ProtobufCMessage \<Rightarrow> nat res" where
  "sub_size f = (case fd_descriptor f of None \<Rightarrow> (\<lambda>_. Inr 0) | Some d \<Rightarrow> protobuf_c_message_get_packed_size d)"
definition sub_sound :: "ProtobufCFieldDescriptor \<Rightarrow> ProtobufCMessage \<Rightarrow> bool" where
  "sub_sound f = (case fd_descriptor f of None \<Rightarrow> (\<lambda>_. True) | Some d \<Rightarrow> no_null_elements d)"
definition sub_pack :: "ProtobufCFieldDescriptor \<Rightarrow> ProtobufCMessage \<Rightarrow> bytes" where
  "sub_pack f = (case fd_descriptor f of None \<Rightarrow> (\<lambda>_. []) | Some d \<Rightarrow> protobuf_c_message_pack d)"
definition sub_unpack :: "ProtobufCFieldDescriptor \<Rightarrow> bytes \<Rightarrow> ProtobufCMessage option" where
  "sub_unpack f = (case fd_descriptor f of None \<Rightarrow> (\<lambda>_. None) | Some d \<Rightarrow> protobuf_c_message_unpack d)"
definition sub_merge :: "ProtobufCFieldDescriptor \<Rightarrow> ProtobufCMessage \<Rightarrow> ProtobufCMessage \<Rightarrow> ProtobufCMessage" where
  "sub_merge f = (case fd_descriptor f of None \<Rightarrow> (\<lambda>e l. l) | Some d \<Rightarrow> merge_messages d)"
definition sub_typed :: "ProtobufCFieldDescriptor \<Rightarrow> ProtobufCMessage \<Rightarrow> bool" where
  "sub_typed f = (case fd_descriptor f of None \<Rightarrow> (\<lambda>_. True) | Some d \<Rightarrow> message_typed d)"
definition sub_norm :: "ProtobufCFieldDescriptor \<Rightarrow> ProtobufCMessage \<Rightarrow> ProtobufCMessage" where
  "sub_norm f = (case fd_descriptor f of None \<Rightarrow> (\<lambda>m. m) | Some d \<Rightarrow> message_norm d)"

lemma field_functions:
  "field_get_packed_size f = field_size (sub_size f) (fd_id f) (fd_label f) (fd_type f)"
  "field_pack f = field_pack_with (sub_pack f) (fd_id f) (fd_label f) (fd_type f)"
  "merge_field f = merge_value (sub_merge f)"
  "field_parser f = (fd_label f, fd_type f, sub_unpack f, merge_value (sub_merge f))"
  "typed_field f = field_typed (sub_typed f) (fd_label f) (fd_type f)"
  "sound_field f = field_sound (sub_sound f) (fd_label f) (fd_type f)"
  "norm_field f = field_norm (sub_norm f) (fd_label f) (fd_type f)"
  "field_descriptor_ok f \<longleftrightarrow> 0 < fd_id f \<and> fd_id f < 2 ^ 29 \<and> (fd_type f = PROTOBUF_C_TYPE_MESSAGE \<longrightarrow> fd_descriptor f \<noteq> None) \<and>
     (\<forall>d. fd_descriptor f = Some d \<longrightarrow> descriptor_ok d)"
  by (cases f; auto simp: sub_size_def sub_pack_def sub_merge_def sub_unpack_def sub_typed_def sub_sound_def sub_norm_def
      split: option.splits)+

lemma message_functions:
  "protobuf_c_message_get_packed_size d m =
     bindR (sum_sizes (map2 field_get_packed_size (msg_fields d) (members m))) (\<lambda>k.
       Inr (k + sum_list (map unknown_field_get_packed_size (unknown_fields m))))"
  "protobuf_c_message_pack d m = concat (map2 field_pack (msg_fields d) (members m)) @ concat (map unknown_field_pack (unknown_fields m))"
  "protobuf_c_message_unpack d = unpack_with (msg_fields d) (field_ranges d) (map field_parser (msg_fields d))"
  "message_typed d m \<longleftrightarrow> list_all2 typed_field (msg_fields d) (members m)"
  "no_null_elements d m \<longleftrightarrow> list_all (\<lambda>(f, v). sound_field f v) (zip (msg_fields d) (members m))"
  "message_norm d m = Message (map2 norm_field (msg_fields d) (members m)) []"
  "descriptor_ok d \<longleftrightarrow> list_all field_descriptor_ok (msg_fields d) \<and> table_ok (msg_fields d) (field_ranges d)"
  by (cases d; auto simp: list_all2_iff list_all_iff zip_map1 split_def in_set_conv_nth comp_def)+

subsection \<open>The table lookup\<close>

text \<open>The range \<open>j\<close> of a table: its first number and the number behind its last.\<close>

definition range_lo :: "(int \<times> nat) list \<Rightarrow> nat \<Rightarrow> int" where
  "range_lo rs j = fst (rs ! j)"
definition range_hi :: "(int \<times> nat) list \<Rightarrow> nat \<Rightarrow> int" where
  "range_hi rs j = fst (rs ! j) + int (snd (rs ! (j + 1))) - int (snd (rs ! j))"

lemma range_search_spec:
  assumes "\<And>j k. j < k \<Longrightarrow> k < N \<Longrightarrow> range_hi rs j \<le> range_lo rs k" "\<And>j. j < N \<Longrightarrow> range_lo rs j < range_hi rs j" "start + n \<le> N"
  shows "(\<forall>j. start \<le> j \<longrightarrow> j < start + n \<longrightarrow> range_lo rs j \<le> v \<longrightarrow> v < range_hi rs j \<longrightarrow>
      range_search rs v start n = v - range_lo rs j + int (snd (rs ! j))) \<and>
    ((\<forall>j. start \<le> j \<longrightarrow> j < start + n \<longrightarrow> \<not> (range_lo rs j \<le> v \<and> v < range_hi rs j)) \<longrightarrow> range_search rs v start n = - 1)"
  using assms(3)
proof (induction n arbitrary: start rule: less_induct)
  case (less n)
  note sorted = assms(1) and pos = assms(2)
  have lohi: "range_lo rs j \<le> range_lo rs k" "range_hi rs j \<le> range_hi rs k" if "j \<le> k" "k < N" for j k
    using sorted [of j k] pos [of j] pos [of k] that by (cases "j = k"; simp)+
  consider "n = 0" | "n = 1" | "1 < n" by linarith
  then show ?case
  proof cases
    case 1
    then show ?thesis by (simp add: range_search.simps)
  next
    case 2
    have "(\<forall>j. start \<le> j \<longrightarrow> j < Suc start \<longrightarrow> P j) \<longleftrightarrow> P start" for P
      by (metis le_antisym lessI less_Suc_eq_le order_refl)
    then show ?thesis using 2 by (auto simp: range_search.simps [of rs v start "Suc 0"] range_lo_def range_hi_def Let_def)
  next
    case 3
    define mid where "mid = start + n div 2"
    have m: "start < mid" "mid < start + n" "mid < N" "mid - start < n" "start + n - (mid + 1) < n"
      using 3 less.prems by (auto simp: mid_def)
    have step: "range_search rs v start n =
        (if v < range_lo rs mid then range_search rs v start (mid - start)
         else if range_hi rs mid \<le> v then range_search rs v (mid + 1) (start + n - (mid + 1))
         else v - range_lo rs mid + int (snd (rs ! mid)))"
      using 3 by (simp add: range_search.simps [of rs v start n] mid_def range_lo_def range_hi_def Let_def add_diff_eq)
    consider "v < range_lo rs mid" | "range_hi rs mid \<le> v" | "range_lo rs mid \<le> v" "v < range_hi rs mid" by linarith
    then show ?thesis
    proof cases
      case 1
      then have "j < mid" if "range_lo rs j \<le> v" "j < start + n" for j
        using lohi(1) [of mid j] that less.prems by (intro not_le_imp_less notI) simp
      moreover have "start + (mid - start) = mid" using m by simp
      ultimately show ?thesis using less.IH [of "mid - start" start] m step 1 by simp
    next
      case 2
      then have "mid < j" if "v < range_hi rs j" for j
        using lohi(2) [of j mid] that m by (intro not_le_imp_less notI) simp
      moreover have "mid + 1 + (start + n - (mid + 1)) = start + n" "\<not> v < range_lo rs mid" using m 2 pos [of mid] by simp_all
      moreover have "mid + 1 + (start + n - (mid + 1)) \<le> N" using less.prems m by simp
      ultimately show ?thesis using less.IH [of "start + n - (mid + 1)" "mid + 1"] m step 2 by (simp add: Suc_le_eq)
    next
      case 3
      then have "j = mid" if "range_lo rs j \<le> v" "v < range_hi rs j" "j < start + n" for j
        using sorted [of j mid] sorted [of mid j] that m less.prems by (cases j mid rule: linorder_cases) auto
      moreover have "range_search rs v start n = v - range_lo rs mid + int (snd (rs ! mid))" using step 3 by simp
      moreover have "start \<le> mid" using m by simp
      ultimately show ?thesis using 3 m(2) by metis
    qed
  qed
qed

lemma segment: "snd (rs ! 0) \<le> i \<Longrightarrow> i < snd (rs ! k) \<Longrightarrow> \<exists>j < k. snd (rs ! j) \<le> i \<and> i < snd ((rs :: (int \<times> nat) list) ! (j + 1))"
proof (induction k)
  case (Suc k)
  show ?case
  proof (cases "i < snd (rs ! k)")
    case True
    then show ?thesis using Suc less_SucI by blast
  next
    case False
    then show ?thesis using Suc.prems by (intro exI [of _ k]) simp
  qed
qed simp

lemma table_okD:
  assumes "table_ok fs rs" "rs \<noteq> []"
  shows "snd (rs ! 0) = 0" "snd (rs ! (length rs - 1)) = length fs"
    "j < length rs - 1 \<Longrightarrow> range_lo rs j < range_hi rs j"
    "j + 1 < length rs - 1 \<Longrightarrow> range_hi rs j \<le> range_lo rs (j + 1)"
    "j < length rs - 1 \<Longrightarrow> snd (rs ! j) \<le> i \<Longrightarrow> i < snd (rs ! (j + 1)) \<Longrightarrow>
       sint (fd_id (fs ! i)) = range_lo rs j + int i - int (snd (rs ! j))"
  using assms unfolding table_ok_def list_all_iff
  by (auto simp: hd_conv_nth last_conv_nth range_lo_def range_hi_def)

lemma ranges_sorted:
  assumes "table_ok fs rs" "rs \<noteq> []" "j < k" "k < length rs - 1"
  shows "range_hi rs j \<le> range_lo rs k"
  using assms(3,4)
proof (induction k)
  case (Suc k)
  show ?case
  proof (cases "j = k")
    case True
    then show ?thesis using table_okD(4) [OF assms(1,2), of k] Suc.prems by simp
  next
    case False
    then have "range_hi rs j \<le> range_lo rs k" using Suc by simp
    then show ?thesis using table_okD(3) [OF assms(1,2), of k] table_okD(4) [OF assms(1,2), of k] Suc.prems by simp
  qed
qed simp

lemma lookup_field:
  assumes "table_ok fs rs" "i < length fs"
  shows "int_range_lookup rs (sint (fd_id (fs ! i))) = int i"
proof -
  have ne: "rs \<noteq> []" using assms by (auto simp: table_ok_def)
  note T = table_okD [OF assms(1) ne]
  obtain j where j: "j < length rs - 1" "snd (rs ! j) \<le> i" "i < snd (rs ! (j + 1))"
    using segment [of rs i "length rs - 1"] T(1,2) assms(2) by auto
  note v = T(5) [OF j]
  have "range_lo rs j \<le> sint (fd_id (fs ! i))" "sint (fd_id (fs ! i)) < range_hi rs j"
    using j v by (simp_all add: range_lo_def range_hi_def)
  then show ?thesis
    using range_search_spec [OF ranges_sorted [OF assms(1) ne] T(3), where start = 0 and n = "length rs - 1" and v = "sint (fd_id (fs ! i))"] j v
    by (simp add: int_range_lookup_def)
qed

lemma lookup_sound:
  assumes "table_ok fs rs" "0 \<le> int_range_lookup rs v"
  shows "nat (int_range_lookup rs v) < length fs \<and> sint (fd_id (fs ! nat (int_range_lookup rs v))) = v"
proof -
  have ne: "rs \<noteq> []" using assms by (auto simp: int_range_lookup_def range_search.simps)
  note T = table_okD [OF assms(1) ne]
  note S = range_search_spec [OF ranges_sorted [OF assms(1) ne] T(3), where start = 0 and n = "length rs - 1" and v = v, folded int_range_lookup_def]
  obtain j where j: "j < length rs - 1" "range_lo rs j \<le> v" "v < range_hi rs j"
  proof (rule ccontr)
    assume "\<not> thesis"
    then have "\<forall>j < length rs - 1. \<not> (range_lo rs j \<le> v \<and> v < range_hi rs j)" using that by blast
    then have "int_range_lookup rs v = - 1" using S by simp
    then show False using assms(2) by simp
  qed
  then have k: "int_range_lookup rs v = v - range_lo rs j + int (snd (rs ! j))" using S by simp
  define i where "i = nat (int_range_lookup rs v)"
  have i: "int i = v - range_lo rs j + int (snd (rs ! j))" using assms(2) k by (simp add: i_def)
  have s: "snd (rs ! j) \<le> i" "i < snd (rs ! (j + 1))" using i j by (simp_all add: range_lo_def range_hi_def)
  have mono: "snd (rs ! a) \<le> snd (rs ! b)" if "a \<le> b" "b \<le> length rs - 1" for a b
    using that
  proof (induction b)
    case (Suc b)
    then show ?case using T(3) [of b] by (cases "a = Suc b") (auto simp: range_lo_def range_hi_def)
  qed simp
  have "snd (rs ! (j + 1)) \<le> length fs" using mono [of "j + 1" "length rs - 1"] j(1) T(2) by simp
  then have "i < length fs" using s by simp
  moreover have "sint (fd_id (fs ! i)) = v" using T(5) [OF j(1) s] i by simp
  ultimately show ?thesis by (simp add: i_def)
qed

subsection \<open>Bytes written\<close>

lemma length_tag_with: "length (tag_with number w) = get_tag_size number"
  by (simp add: tag_with_def Let_def tag_pack_varint get_tag_size_varint Suc_diff_le)

lemma length_prefixed_pack: "length (prefixed_pack b) = prefixed_size (length b)"
  by (simp add: prefixed_pack_def prefixed_size_def uint32_pack_varint uint32_size_varint)

lemma length_numbers:
  "length (int32_pack x) = int32_size x" "length (uint32_pack x) = uint32_size x" "length (uint64_pack y) = uint64_size y"
  by (simp_all add: int32_size_varint uint32_pack_varint uint32_size_varint uint64_pack_varint uint64_size_varint)

lemmas length_pack = length_numbers length_prefixed_pack length_tag_with

lemma value_size_length:
  assumes "\<And>m. sz m = (if good m then Inr (length (pack m)) else Inl UB)"
  shows "value_size sz t v = (if value_sound good t v then Inr (length (value_pack pack t v)) else Inl UB)"
proof -
  have "prefixed_size 0 = 1" by (simp add: prefixed_size_def uint32_size_def)
  then show ?thesis
    using assms by (cases "(pack, t, v)" rule: value_pack.cases) (auto simp: length_pack split: option.splits)
qed

lemma element_size_length:
  assumes "\<And>m. sz m = (if good m then Inr (length (pack m)) else Inl UB)"
  shows "element_size sz t v = (if element_sound good t v then Inr (length (value_pack pack t v)) else Inl UB)"
  using value_size_length [of sz good pack t v, OF assms]
  by (cases "(sz, t, v)" rule: element_size.cases) simp_all

lemma sum_sizes_length:
  "(\<And>x. x \<in> set xs \<Longrightarrow> g x = (if P x then Inr (h x) else Inl UB)) \<Longrightarrow>
    sum_sizes (map g xs) = (if list_all P xs then Inr (sum_list (map h xs)) else Inl UB)"
  by (induction xs) auto

lemma field_size_length:
  assumes "\<And>m. sz m = (if good m then Inr (length (pack m)) else Inl UB)"
  shows "field_size sz i l t v = (if field_sound good l t v then Inr (length (field_pack_with pack i l t v)) else Inl UB)"
proof -
  have r: "length (concat (map (required_field_pack pack i t) vs)) = get_tag_size i * length vs + sum_list (map (\<lambda>v. length (value_pack pack t v)) vs)" for vs
    by (induction vs) (simp_all add: required_field_pack_def length_tag_with)
  have e: "sum_sizes (map (element_size sz t) vs) =
      (if list_all (element_sound good t) vs then Inr (sum_list (map (\<lambda>v. length (value_pack pack t v)) vs)) else Inl UB)" for vs
    by (rule sum_sizes_length) (rule element_size_length [OF assms])
  have z: "value_sound good t v" if "field_is_zeroish v"
    using that by (cases "(good, t, v)" rule: value_sound.cases) simp_all
  show ?thesis
    unfolding field_pack_with_def field_size_def field_sound_def value_size_length [of sz good pack t v, OF assms]
    using z by (cases l; cases v) (auto simp: e r required_field_pack_def length_tag_with)
qed

lemma sub_descriptor: "f \<in> set (msg_fields d) \<Longrightarrow> fd_descriptor f = Some e \<Longrightarrow> size e < size d"
proof (cases d)
  case (MessageDescriptor n fs ix rs)
  assume "f \<in> set (msg_fields d)" "fd_descriptor f = Some e"
  have "size e < size f" using \<open>fd_descriptor f = Some e\<close> by (cases f) auto
  also have "size f < size d"
    using \<open>f \<in> set (msg_fields d)\<close> MessageDescriptor size_list_estimation' [of f fs "size f" size] by (simp add: less_Suc_eq_le)
  finally show ?thesis .
qed

text \<open>Induction over a descriptor and those its fields refer to.\<close>

lemma descriptor_induct:
  assumes "\<And>d. (\<And>f e. f \<in> set (msg_fields d) \<Longrightarrow> fd_descriptor f = Some e \<Longrightarrow> P e) \<Longrightarrow> P d"
  shows "P d"
proof (induction "size d" arbitrary: d rule: less_induct)
  case less
  show ?case by (rule assms) (use less sub_descriptor in blast)
qed

lemma map2_cong: "(\<And>f v. f \<in> set fs \<Longrightarrow> v \<in> set vs \<Longrightarrow> g f v = h f v) \<Longrightarrow> map2 g fs vs = map2 h fs vs"
  by (intro map_cong) (auto dest: set_zip_leftD set_zip_rightD)

lemma packed_size_length:
  "protobuf_c_message_get_packed_size d m = (if no_null_elements d m then Inr (length (protobuf_c_message_pack d m)) else Inl UB)"
proof (induction d arbitrary: m rule: descriptor_induct)
  case (1 d)
  have "sub_size f s = (if sub_sound f s then Inr (length (sub_pack f s)) else Inl UB)" if "f \<in> set (msg_fields d)" for f s
    using 1 [OF that] by (simp add: sub_pack_def sub_size_def sub_sound_def split: option.split)
  then have "field_get_packed_size f v = (if sound_field f v then Inr (length (field_pack f v)) else Inl UB)" if "f \<in> set (msg_fields d)" for f v
    using field_size_length [where pack = "sub_pack f" and sz = "sub_size f" and good = "sub_sound f"] that by (simp add: field_functions)
  then have "sum_sizes (map (\<lambda>(f, v). field_get_packed_size f v) (zip (msg_fields d) (members m))) =
      (if list_all (\<lambda>(f, v). sound_field f v) (zip (msg_fields d) (members m))
       then Inr (sum_list (map (\<lambda>(f, v). length (field_pack f v)) (zip (msg_fields d) (members m)))) else Inl UB)"
    by (intro sum_sizes_length) (auto dest: set_zip_leftD)
  moreover have "length \<circ> unknown_field_pack = unknown_field_get_packed_size"
    by (rule ext) (simp add: unknown_field_pack_def unknown_field_get_packed_size_def length_tag_with split: prod.split)
  ultimately show ?case by (simp add: message_functions length_concat comp_def split_def cong: map_cong)
qed

text \<open>The messages of a descriptor have no null elements.\<close>

lemma typed_sound: "message_typed d m \<Longrightarrow> no_null_elements d m"
proof (induction d arbitrary: m rule: descriptor_induct)
  case (1 d)
  have "sub_typed f s \<Longrightarrow> sub_sound f s" if "f \<in> set (msg_fields d)" for f s
    using 1(1) [OF that] by (simp add: sub_typed_def sub_sound_def split: option.splits)
  moreover have "field_typed P l t v \<Longrightarrow> field_sound Q l t v" if "\<And>s. P s \<Longrightarrow> Q s" for P Q l t v
  proof -
    have v: "value_typed P t u \<Longrightarrow> value_sound Q t u" for u
      using that by (cases "(P, t, u)" rule: value_typed.cases) (auto split: option.splits)
    have e: "value_typed P t u \<Longrightarrow> u \<noteq> String NullString \<Longrightarrow> u \<noteq> SubMessage None \<Longrightarrow> element_sound Q t u" for u
      using v [of u] by (cases "(Q, t, u)" rule: element_sound.cases) auto
    show "field_typed P l t v \<Longrightarrow> field_sound Q l t v"
      using v e by (cases l) (auto simp: field_typed_def field_sound_def list_all_iff split: ProtobufCValue.splits)
  qed
  ultimately have "typed_field f v \<Longrightarrow> sound_field f v" if "f \<in> set (msg_fields d)" for f v
    using that by (simp add: field_functions) blast
  then show ?case
    using 1(2) by (fastforce simp: message_functions list_all2_iff list_all_iff dest: set_zip_leftD)
qed

subsection \<open>Unpacking what was packed\<close>

lemma tag_with_varint: "unat w < 8 \<Longrightarrow> tag_with number w = varint (8 * unat number + unat w)"
  by (simp add: tag_with_def Let_def tag_pack_varint tag_wire)

lemma wire_type_small: "unat (wire_type t) < 8"
  by (cases t) (simp_all add: WIRE_VARINT_def WIRE_LENGTH_PREFIXED_def)

definition prefix_len :: "ProtobufCType \<Rightarrow> bytes \<Rightarrow> nat" where
  "prefix_len t b = (if wire_type t = WIRE_LENGTH_PREFIXED then the (varint_len 5 b) else 0)"

definition member_of :: "nat \<Rightarrow> u32 \<Rightarrow> ProtobufCType \<Rightarrow> bytes \<Rightarrow> ScannedMember" where
  "member_of i number t b = \<lparr>sm_tag = number, sm_wire_type = wire_type t, sm_length_prefix_len = prefix_len t b, sm_field = Some i, sm_data = b\<rparr>"

lemma varint_scanned:
  assumes "b = varint n" "n < 2 ^ 64"
  shows "member_len WIRE_VARINT (b @ rest) = Some (length b, 0)"
proof -
  have "n < 128 ^ Suc 9" using assms(2) by simp
  then show ?thesis using varint_len_varint [of n 9 rest] assms(1) by (simp add: member_len_def)
qed

lemma prefixed_scanned:
  assumes "length c < 2 ^ 31"
  shows "member_len WIRE_LENGTH_PREFIXED (prefixed_pack c @ rest) = Some (length (prefixed_pack c), length (varint (length c)))"
    "the (varint_len 5 (prefixed_pack c)) = length (varint (length c))" "drop (length (varint (length c))) (prefixed_pack c) = c"
proof -
  have p: "prefixed_pack c = varint (length c) @ c" using assms by (simp add: prefixed_pack_def uint32_pack_varint)
  show "member_len WIRE_LENGTH_PREFIXED (prefixed_pack c @ rest) = Some (length (prefixed_pack c), length (varint (length c)))"
    using scan_length_prefixed [OF assms, of rest] by (simp add: p member_len_def WIRE_VARINT_def WIRE_LENGTH_PREFIXED_def)
  show "the (varint_len 5 (prefixed_pack c)) = length (varint (length c))"
    using varint_len_varint [of "length c" 4 c] assms by (simp add: p)
  show "drop (length (varint (length c))) (prefixed_pack c) = c" by (simp add: p)
qed

text \<open>The values that are written in a packed message, and how they are found and parsed again.\<close>

definition present :: "ProtobufCValue \<Rightarrow> bool" where
  "present v \<longleftrightarrow> v \<noteq> String NullString \<and> v \<noteq> SubMessage None"

lemma u32_below: "unat (x :: u32) < 2 ^ 64"
  using u32_bound [of x] by simp

lemma u64_below: "unat (x :: u64) < 2 ^ 64"
  using u64_bound [of x] by simp

lemma int32_below: "int32_pack x = varint n \<Longrightarrow> n < 2 ^ 64"
  using u32_below u64_below by (metis int32_pack_varint varint_val_varint)

lemma wire_types_differ [simp]: "WIRE_VARINT \<noteq> WIRE_LENGTH_PREFIXED" "WIRE_LENGTH_PREFIXED \<noteq> WIRE_VARINT"
  by (simp_all add: WIRE_VARINT_def WIRE_LENGTH_PREFIXED_def)

lemma integers_scanned:
  "member_len WIRE_VARINT (int32_pack x @ rest) = Some (length (int32_pack x), 0)"
  "member_len WIRE_VARINT (uint32_pack x @ rest) = Some (length (uint32_pack x), 0)"
  "member_len WIRE_VARINT (uint64_pack y @ rest) = Some (length (uint64_pack y), 0)"
  "member_len WIRE_VARINT (0 # rest) = Some (1, 0)" "member_len WIRE_VARINT (1 # rest) = Some (1, 0)"
proof -
  obtain n where n: "int32_pack x = varint n" by (cases "x <s 0") (auto simp: int32_pack_varint)
  show "member_len WIRE_VARINT (int32_pack x @ rest) = Some (length (int32_pack x), 0)"
    by (rule varint_scanned [OF n int32_below [OF n]])
  show "member_len WIRE_VARINT (uint32_pack x @ rest) = Some (length (uint32_pack x), 0)"
    by (rule varint_scanned [OF uint32_pack_varint u32_below])
  show "member_len WIRE_VARINT (uint64_pack y @ rest) = Some (length (uint64_pack y), 0)"
    by (rule varint_scanned [OF uint64_pack_varint u64_below])
  show "member_len WIRE_VARINT (0 # rest) = Some (1, 0)" "member_len WIRE_VARINT (1 # rest) = Some (1, 0)"
    using varint_scanned [of "[0]" 0 rest] varint_scanned [of "[1]" 1 rest] by (simp_all add: varint_small)
qed

lemma prefixed_member:
  assumes "length (prefixed_pack c) < 2 ^ 31"
  shows "member_len WIRE_LENGTH_PREFIXED (prefixed_pack c @ rest) =
      Some (length (prefixed_pack c), the (varint_len 5 (prefixed_pack c)))"
    "drop (the (varint_len 5 (prefixed_pack c))) (prefixed_pack c) = c"
proof -
  have "length c < 2 ^ 31" using assms by (simp add: prefixed_pack_def)
  then show "member_len WIRE_LENGTH_PREFIXED (prefixed_pack c @ rest) =
      Some (length (prefixed_pack c), the (varint_len 5 (prefixed_pack c)))"
    "drop (the (varint_len 5 (prefixed_pack c))) (prefixed_pack c) = c"
    using prefixed_scanned [of c] by simp_all
qed

lemma value_scanned:
  assumes "value_typed typed t v" "present v" "length (value_pack pack t v) < 2 ^ 31"
  shows "member_len (wire_type t) (value_pack pack t v @ rest) =
    Some (length (value_pack pack t v), prefix_len t (value_pack pack t v))"
  using assms
  by (cases "(typed, t, v)" rule: value_typed.cases)
    (auto simp: prefix_len_def present_def integers_scanned prefixed_member split: option.splits)

lemma value_parsed:
  assumes "value_typed typed t v" "present v" "length (value_pack pack t v) < 2 ^ 31"
    "\<And>m. v = SubMessage (Some m) \<Longrightarrow> unpack (pack m) = Some (norm m)"
    "\<And>m. earlier = None \<or> (\<exists>e. earlier = Some e \<and> merge e (SubMessage (Some m)) = SubMessage (Some m))"
  shows "parse_required_member t unpack merge (member_of i number t (value_pack pack t v)) earlier = Some (value_norm norm v)"
  using assms
  by (cases "(typed, t, v)" rule: value_typed.cases)
    (auto simp: parse_required_member_def member_of_def prefix_len_def present_def prefixed_member parse_int32_pack parse_uint32_pack
      parse_uint64_pack parse_boolean_pack split: option.splits)

lemma scan_step:
  "at \<noteq> [] \<Longrightarrow> parse_tag_and_wiretype at = Some (t, w, used) \<Longrightarrow> member_len w (drop used at) = Some (n, pref) \<Longrightarrow>
    scan_members fs rs last_field at =
      map_option (Cons \<lparr>sm_tag = t, sm_wire_type = w, sm_length_prefix_len = pref, sm_field = find_field fs rs last_field t, sm_data = take n (drop used at)\<rparr>)
        (scan_members fs rs (if find_field fs rs last_field t = None then last_field else find_field fs rs last_field t) (drop n (drop used at)))"
  by (cases at) (simp_all add: scan_members.simps(2) Let_def)

definition valid_index :: "ProtobufCFieldDescriptor list \<Rightarrow> nat option \<Rightarrow> bool" where
  "valid_index fs k \<longleftrightarrow> (case k of None \<Rightarrow> True | Some j \<Rightarrow> j < length fs)"

lemma find_field_known:
  assumes "table_ok fs rs" "i < length fs" "valid_index fs last_field"
  shows "find_field fs rs last_field (fd_id (fs ! i)) = Some i"
proof -
  note l = lookup_field [OF assms(1)]
  have e: "j = i" if "j < length fs" "fd_id (fs ! j) = fd_id (fs ! i)" for j
    using l [OF that(1)] l [OF assms(2)] that(2) by (metis of_nat_eq_iff)
  show ?thesis
  proof (cases last_field)
    case None
    then show ?thesis by (simp add: find_field_def l [OF assms(2)])
  next
    case (Some j)
    then have "j < length fs" using assms(3) by (simp add: valid_index_def)
    then show ?thesis
      using e [of j] by (cases "fd_id (fs ! j) = fd_id (fs ! i)") (simp_all add: find_field_def Some l [OF assms(2)])
  qed
qed

lemma scan_member:
  assumes "table_ok fs rs" "i < length fs" "valid_index fs last_field" "field_descriptor_ok (fs ! i)"
    "value_typed typed (fd_type (fs ! i)) v" "present v" "length (value_pack pack (fd_type (fs ! i)) v) < 2 ^ 31"
  shows "scan_members fs rs last_field (required_field_pack pack (fd_id (fs ! i)) (fd_type (fs ! i)) v @ rest) =
    map_option (Cons (member_of i (fd_id (fs ! i)) (fd_type (fs ! i)) (value_pack pack (fd_type (fs ! i)) v))) (scan_members fs rs (Some i) rest)"
proof -
  let ?id = "fd_id (fs ! i)" and ?t = "fd_type (fs ! i)" and ?b = "value_pack pack (fd_type (fs ! i)) v"
  let ?tag = "varint (8 * unat ?id + unat (wire_type ?t))"
  have id: "0 < unat ?id" "unat ?id < 2 ^ 29" using assms(4) by (simp_all add: field_functions word_less_nat_alt)
  have at: "required_field_pack pack ?id ?t v @ rest = ?tag @ ?b @ rest"
    by (simp add: required_field_pack_def tag_with_varint [OF wire_type_small])
  have "scan_members fs rs last_field (?tag @ ?b @ rest) =
    map_option (Cons (member_of i ?id ?t ?b)) (scan_members fs rs (Some i) rest)"
  proof -
    have p: "parse_tag_and_wiretype (?tag @ ?b @ rest) = Some (?id, wire_type ?t, length ?tag)"
      using parse_tag_varint [OF id wire_type_small [of ?t], of "?b @ rest"] by (simp only: of_nat_unat ucast_id)
    have d: "drop (length ?tag) (?tag @ ?b @ rest) = ?b @ rest" by (rule append_eq_conv_conj [THEN iffD1, THEN conjunct2, symmetric]) (rule refl)
    have ne: "?tag @ ?b @ rest \<noteq> []" by simp
    have l: "member_len (wire_type ?t) (drop (length ?tag) (?tag @ ?b @ rest)) = Some (length ?b, prefix_len ?t ?b)"
      unfolding d by (rule value_scanned [OF assms(5-7)])
    have "take (length ?b) (?b @ rest) = ?b" "drop (length ?b) (?b @ rest) = rest" by simp_all
    then show ?thesis
      unfolding scan_step [OF ne p l] d find_field_known [OF assms(1-3)] member_of_def by (simp only: option.distinct if_False)
  qed
  then show ?thesis by (simp only: at)
qed

definition field_members :: "nat \<Rightarrow> ProtobufCFieldDescriptor \<Rightarrow> ProtobufCValue \<Rightarrow> ScannedMember list" where
  "field_members i f v =
     map (\<lambda>v. member_of i (fd_id f) (fd_type f) (value_pack (sub_pack f) (fd_type f) v))
       (case fd_label f of
          PROTOBUF_C_LABEL_NONE \<Rightarrow> if field_is_zeroish v then [] else [v]
        | PROTOBUF_C_LABEL_REPEATED \<Rightarrow> (case v of Repeated vs \<Rightarrow> vs | _ \<Rightarrow> []))"

lemma scan_repeated:
  assumes "table_ok fs rs" "i < length fs" "field_descriptor_ok (fs ! i)"
    "list_all (\<lambda>v. value_typed typed (fd_type (fs ! i)) v \<and> present v) vs"
    "length (concat (map (required_field_pack pack (fd_id (fs ! i)) (fd_type (fs ! i))) vs)) < 2 ^ 31" "valid_index fs last_field"
  shows "\<exists>last'. valid_index fs last' \<and>
    scan_members fs rs last_field (concat (map (required_field_pack pack (fd_id (fs ! i)) (fd_type (fs ! i))) vs) @ rest) =
    map_option (\<lambda>r. map (\<lambda>v. member_of i (fd_id (fs ! i)) (fd_type (fs ! i)) (value_pack pack (fd_type (fs ! i)) v)) vs @ r)
      (scan_members fs rs last' rest)"
  using assms(4-6)
proof (induction vs arbitrary: last_field)
  case Nil
  then show ?case by (auto simp: option.map_id0 [unfolded id_def])
next
  case (Cons v vs)
  have "valid_index fs (Some i)" using assms(2) by (simp add: valid_index_def)
  then obtain last' where "valid_index fs last'"
      "scan_members fs rs (Some i) (concat (map (required_field_pack pack (fd_id (fs ! i)) (fd_type (fs ! i))) vs) @ rest) =
       map_option (\<lambda>r. map (\<lambda>v. member_of i (fd_id (fs ! i)) (fd_type (fs ! i)) (value_pack pack (fd_type (fs ! i)) v)) vs @ r)
         (scan_members fs rs last' rest)"
    using Cons.IH [of "Some i"] Cons.prems by auto
  moreover have "length (value_pack pack (fd_type (fs ! i)) v) < 2 ^ 31" using Cons.prems(2) by (simp add: required_field_pack_def)
  ultimately show ?case
    using scan_member [OF assms(1,2) Cons.prems(3) assms(3), of typed v pack
        "concat (map (required_field_pack pack (fd_id (fs ! i)) (fd_type (fs ! i))) vs) @ rest"] Cons.prems(1)
    by (intro exI [of _ last']) (simp add: option.map_comp comp_def)
qed

lemma repeated_present:
  "field_typed typed PROTOBUF_C_LABEL_REPEATED t (Repeated vs) \<Longrightarrow> list_all (\<lambda>v. value_typed typed t v \<and> present v) vs"
  by (simp add: field_typed_def present_def)

lemma not_zeroish_present: "\<not> field_is_zeroish v \<Longrightarrow> present v"
  by (auto simp: present_def)

lemma scan_field:
  assumes "table_ok fs rs" "i < length fs" "field_descriptor_ok (fs ! i)" "typed_field (fs ! i) v"
    "length (field_pack (fs ! i) v) < 2 ^ 31" "valid_index fs last_field"
  shows "\<exists>last'. valid_index fs last' \<and>
    scan_members fs rs last_field (field_pack (fs ! i) v @ rest) = map_option (\<lambda>r. field_members i (fs ! i) v @ r) (scan_members fs rs last' rest)"
proof -
  define vs where "vs = (case fd_label (fs ! i) of
      PROTOBUF_C_LABEL_NONE \<Rightarrow> if field_is_zeroish v then [] else [v]
    | PROTOBUF_C_LABEL_REPEATED \<Rightarrow> (case v of Repeated vs \<Rightarrow> vs | _ \<Rightarrow> []))"
  have p: "field_pack (fs ! i) v = concat (map (required_field_pack (sub_pack (fs ! i)) (fd_id (fs ! i)) (fd_type (fs ! i))) vs)"
    by (simp add: field_functions field_pack_with_def vs_def split: ProtobufCLabel.split ProtobufCValue.split)
  have "list_all (\<lambda>v. value_typed (sub_typed (fs ! i)) (fd_type (fs ! i)) v \<and> present v) vs"
    using assms(4) repeated_present not_zeroish_present
    by (auto simp: field_functions vs_def field_typed_def split: ProtobufCLabel.splits ProtobufCValue.splits)
  then show ?thesis
    using scan_repeated [OF assms(1-3) _ _ assms(6), of "sub_typed (fs ! i)" vs "sub_pack (fs ! i)" rest] assms(5) p
    by (simp add: field_members_def vs_def)
qed

text \<open>The functions of a field give its messages back, when they are packed in at most \<open>L\<close> bytes.\<close>

definition gives_back :: "nat \<Rightarrow> ProtobufCFieldDescriptor \<Rightarrow> bool" where
  "gives_back L f \<longleftrightarrow> (fd_type f = PROTOBUF_C_TYPE_MESSAGE \<longrightarrow> (\<forall>s. sub_typed f s \<longrightarrow> all_known s \<longrightarrow> length (sub_pack f s) \<le> L \<longrightarrow> sub_unpack f (sub_pack f s) = Some (sub_norm f s)))"

lemma submessage_given_back:
  assumes "gives_back L f" "value_typed (sub_typed f) (fd_type f) (SubMessage (Some s))" "value_known (SubMessage (Some s))"
    "length (value_pack (sub_pack f) (fd_type f) (SubMessage (Some s))) \<le> L"
  shows "sub_unpack f (sub_pack f s) = Some (sub_norm f s)"
proof -
  have "fd_type f = PROTOBUF_C_TYPE_MESSAGE" using assms(2) by (cases "fd_type f") simp_all
  then show ?thesis using assms by (simp add: gives_back_def prefixed_pack_def)
qed

lemma parse_repeated:
  assumes "i < length fs" "gives_back L (fs ! i)" "L < 2 ^ 31" "fd_label (fs ! i) = PROTOBUF_C_LABEL_REPEATED"
    "list_all (\<lambda>v. value_typed (sub_typed (fs ! i)) (fd_type (fs ! i)) v \<and> present v) vs" "list_all value_known vs"
    "list_all (\<lambda>v. length (value_pack (sub_pack (fs ! i)) (fd_type (fs ! i)) v) \<le> L) vs"
    "i < length (members m)" "members m ! i = Repeated ws"
  shows "parse_members (map field_parser fs)
      (map (\<lambda>v. member_of i (fd_id (fs ! i)) (fd_type (fs ! i)) (value_pack (sub_pack (fs ! i)) (fd_type (fs ! i)) v)) vs @ r) m =
    parse_members (map field_parser fs) r
      (Message ((members m)[i := Repeated (ws @ map (value_norm (sub_norm (fs ! i))) vs)]) (unknown_fields m))"
  using assms(5-9)
proof (induction vs arbitrary: m ws)
  case Nil
  then have "(members m)[i := Repeated ws] = members m" by (metis list_update_id)
  then show ?case by (cases m) simp
next
  case (Cons v vs)
  let ?f = "fs ! i" and ?t = "fd_type (fs ! i)"
  let ?sm = "member_of i (fd_id ?f) ?t (value_pack (sub_pack ?f) ?t v)"
  let ?m = "Message ((members m)[i := Repeated (ws @ [value_norm (sub_norm ?f) v])]) (unknown_fields m)"
  have p: "parse_required_member ?t (sub_unpack ?f) (merge_value (sub_merge ?f)) ?sm None = Some (value_norm (sub_norm ?f) v)"
    using Cons.prems submessage_given_back [OF assms(2)] assms(3)
    by (intro value_parsed [where typed = "sub_typed ?f"]) auto
  have w: "\<not> (sm_wire_type ?sm = WIRE_LENGTH_PREFIXED \<and> is_packable_type ?t)"
    by (cases ?t) (simp_all add: member_of_def is_packable_type_def)
  have "parse_member (map field_parser fs) ?sm m = Some ?m"
    using p w assms(1,4) Cons.prems(5)
    by (auto simp: parse_member_def field_functions member_of_def [of i])
  moreover have "parse_members (map field_parser fs)
      (map (\<lambda>v. member_of i (fd_id ?f) ?t (value_pack (sub_pack ?f) ?t v)) vs @ r) ?m =
    parse_members (map field_parser fs) r
      (Message ((members ?m)[i := Repeated ((ws @ [value_norm (sub_norm ?f) v]) @ map (value_norm (sub_norm ?f)) vs)]) (unknown_fields ?m))"
    using Cons.prems by (intro Cons.IH) simp_all
  ultimately show ?case by simp
qed

lemma merge_into_init: "merge_value sub (field_init PROTOBUF_C_LABEL_NONE t) (SubMessage (Some s)) = SubMessage (Some s)"
  by (cases t) simp_all

lemma parse_field:
  assumes "i < length fs" "gives_back L (fs ! i)" "L < 2 ^ 31" "typed_field (fs ! i) v" "value_known v" "length (field_pack (fs ! i) v) \<le> L"
    "i < length (members m)" "members m ! i = field_init (fd_label (fs ! i)) (fd_type (fs ! i))"
  shows "parse_members (map field_parser fs) (field_members i (fs ! i) v @ r) m =
    parse_members (map field_parser fs) r (Message ((members m)[i := norm_field (fs ! i) v]) (unknown_fields m))"
proof (cases "fd_label (fs ! i)")
  case PROTOBUF_C_LABEL_REPEATED
  then obtain vs where v: "v = Repeated vs" using assms(4) by (cases v) (simp_all add: field_functions field_typed_def)
  have "list_all (\<lambda>v. length (value_pack (sub_pack (fs ! i)) (fd_type (fs ! i)) v) \<le> L) vs"
  proof (clarsimp simp: list_all_iff)
    fix w assume "w \<in> set vs"
    then have "length (required_field_pack (sub_pack (fs ! i)) (fd_id (fs ! i)) (fd_type (fs ! i)) w) \<le> length (field_pack (fs ! i) v)"
      using PROTOBUF_C_LABEL_REPEATED v
      by (auto simp: field_functions field_pack_with_def length_concat intro: member_le_sum_list)
    then show "length (value_pack (sub_pack (fs ! i)) (fd_type (fs ! i)) w) \<le> L" using assms(6) by (simp add: required_field_pack_def)
  qed
  then show ?thesis
    using parse_repeated [OF assms(1-3) PROTOBUF_C_LABEL_REPEATED, of vs m "[]" r] assms(4,5,7,8) v PROTOBUF_C_LABEL_REPEATED
      repeated_present [of "sub_typed (fs ! i)" "fd_type (fs ! i)" vs]
    by (simp add: field_functions field_members_def field_norm_def list_all_iff)
next
  case PROTOBUF_C_LABEL_NONE
  let ?f = "fs ! i" and ?t = "fd_type (fs ! i)"
  show ?thesis
  proof (cases "field_is_zeroish v")
    case True
    have "(members m)[i := field_init PROTOBUF_C_LABEL_NONE ?t] = members m" using assms(8) PROTOBUF_C_LABEL_NONE by (metis list_update_id)
    then show ?thesis using True PROTOBUF_C_LABEL_NONE by (cases m) (simp add: field_functions field_members_def field_norm_def)
  next
    case False
    have t: "value_typed (sub_typed ?f) ?t v" using assms(4) PROTOBUF_C_LABEL_NONE by (simp add: field_functions field_typed_def)
    have l: "length (value_pack (sub_pack ?f) ?t v) \<le> L"
      using assms(6) False PROTOBUF_C_LABEL_NONE by (simp add: field_functions field_pack_with_def required_field_pack_def)
    have "parse_required_member ?t (sub_unpack ?f) (merge_value (sub_merge ?f)) (member_of i (fd_id ?f) ?t (value_pack (sub_pack ?f) ?t v))
        (Some (members m ! i)) = Some (value_norm (sub_norm ?f) v)"
      using t l assms(3,5,8) submessage_given_back [OF assms(2)] not_zeroish_present [OF False] PROTOBUF_C_LABEL_NONE
      by (intro value_parsed [where typed = "sub_typed ?f"]) (auto simp: merge_into_init)
    then show ?thesis
      using False PROTOBUF_C_LABEL_NONE assms(1)
      by (simp add: field_functions field_members_def field_norm_def parse_member_def member_of_def [of i])
  qed
qed

lemma length_part: "x \<in> set xs \<Longrightarrow> length x \<le> length (concat xs)"
  by (induction xs) auto

lemma unpack_fields:
  assumes "table_ok fs rs" "list_all field_descriptor_ok fs" "list_all2 typed_field fs vs" "list_all value_known vs"
    "\<And>f. f \<in> set fs \<Longrightarrow> gives_back L f" "length (concat (map2 field_pack fs vs)) \<le> L" "L < 2 ^ 31"
    "k \<le> length fs" "valid_index fs last_field"
  shows "\<exists>sms. scan_members fs rs last_field (concat (map2 field_pack (drop k fs) (drop k vs))) = Some sms \<and>
    parse_members (map field_parser fs) sms
      (Message (take k (map2 norm_field fs vs) @ drop k (map (\<lambda>f. field_init (fd_label f) (fd_type f)) fs)) []) =
    Some (Message (map2 norm_field fs vs) [])"
  using assms(8,9)
proof (induction "length fs - k" arbitrary: k last_field)
  case 0
  then show ?case using assms(3) by (simp add: list_all2_iff)
next
  case (Suc n)
  let ?N = "map2 norm_field fs vs" and ?I = "map (\<lambda>f. field_init (fd_label f) (fd_type f)) fs"
  have k: "k < length fs" "length vs = length fs" using Suc.hyps(2) assms(3) by (simp_all add: list_all2_iff)
  then have kv: "k < length vs" by simp
  have f: "field_descriptor_ok (fs ! k)" "typed_field (fs ! k) (vs ! k)" "value_known (vs ! k)" "gives_back L (fs ! k)"
    using assms(2-5) k by (simp_all add: list_all_length list_all2_conv_all_nth)
  have "field_pack (fs ! k) (vs ! k) \<in> set (map2 field_pack fs vs)"
    using k by (force simp: in_set_conv_nth intro!: exI [of _ k])
  then have l: "length (field_pack (fs ! k) (vs ! k)) \<le> L" using length_part [of _ "map2 field_pack fs vs"] assms(6) by fastforce
  let ?rest = "concat (map2 field_pack (drop (Suc k) fs) (drop (Suc k) vs))"
  have d: "concat (map2 field_pack (drop k fs) (drop k vs)) = field_pack (fs ! k) (vs ! k) @ ?rest"
    by (simp add: Cons_nth_drop_Suc [OF k(1), symmetric] Cons_nth_drop_Suc [OF kv, symmetric])
  obtain last' where s: "valid_index fs last'"
      "scan_members fs rs last_field (field_pack (fs ! k) (vs ! k) @ ?rest) = map_option (\<lambda>r. field_members k (fs ! k) (vs ! k) @ r) (scan_members fs rs last' ?rest)"
    using scan_field [OF assms(1) k(1) f(1,2) _ Suc.prems(2)] l assms(7) by fastforce
  have "n = length fs - Suc k" "Suc k \<le> length fs" using Suc.hyps(2) k by simp_all
  then obtain sms where r: "scan_members fs rs last' ?rest = Some sms"
      "parse_members (map field_parser fs) sms (Message (take (Suc k) ?N @ drop (Suc k) ?I) []) = Some (Message ?N [])"
    using Suc.hyps(1) s(1) by blast
  have u: "(take k ?N @ drop k ?I)[k := norm_field (fs ! k) (vs ! k)] = take (Suc k) ?N @ drop (Suc k) ?I"
    using k by (simp add: list_update_append take_Suc_conv_app_nth Cons_nth_drop_Suc [OF k(1), symmetric] drop_map)
  have "parse_members (map field_parser fs) (field_members k (fs ! k) (vs ! k) @ sms) (Message (take k ?N @ drop k ?I) []) =
      parse_members (map field_parser fs) sms (Message (take (Suc k) ?N @ drop (Suc k) ?I) [])"
    using parse_field [OF k(1) f(4) assms(7) f(2,3) l, of "Message (take k ?N @ drop k ?I) []" sms] k
    by (simp add: u nth_append)
  then show ?case using d s(2) r by simp
qed

lemma scan_length: "scan_members fs rs last_field at = Some sms \<Longrightarrow> length sms \<le> length at"
proof (induction fs rs last_field at arbitrary: sms rule: scan_members.induct)
  case (2 fs rs last_field v va)
  let ?at = "v # va"
  obtain t w used n pref r where p: "parse_tag_and_wiretype ?at = Some (t, w, used)" "member_len w (drop used ?at) = Some (n, pref)"
      "scan_members fs rs (if find_field fs rs last_field t = None then last_field else find_field fs rs last_field t) (drop n (drop used ?at)) = Some r"
      "length sms = Suc (length r)"
    using 2(2) by (auto simp: scan_members.simps(2) Let_def simp del: parse_tag_and_wiretype.simps split: option.splits prod.splits)
  have "length r \<le> length (drop n (drop used ?at))" by (rule 2(1)) (use p in simp_all)
  moreover have "0 < used" by (rule parse_tag_pos [OF p(1)])
  ultimately show ?case using p(4) by simp
qed simp

text \<open>Unpacking a packed message gives the message, in its normal form.\<close>

lemma unpack_pack:
  assumes "descriptor_ok d" "message_typed d m" "all_known m" "length (protobuf_c_message_pack d m) \<le> MAX_SCANNED_MEMBERS"
  shows "protobuf_c_message_unpack d (protobuf_c_message_pack d m) = Some (message_norm d m)"
  using assms
proof (induction d arbitrary: m rule: descriptor_induct)
  case (1 d)
  let ?fs = "msg_fields d" and ?rs = "field_ranges d" and ?vs = "members m" and ?L = MAX_SCANNED_MEMBERS
  have ok: "list_all field_descriptor_ok ?fs" "table_ok ?fs ?rs" using "1.prems"(1) by (simp_all add: message_functions)
  have un: "unknown_fields m = []" "list_all value_known ?vs" using "1.prems"(3) by (cases m; simp add: list_all_iff)+
  have typed: "list_all2 typed_field ?fs ?vs" using "1.prems"(2) by (simp add: message_functions)
  have p: "protobuf_c_message_pack d m = concat (map2 field_pack ?fs ?vs)" using un by (simp add: message_functions)
  have g: "gives_back ?L f" if "f \<in> set ?fs" for f
    using "1.IH" [OF that] ok that
    by (auto simp: gives_back_def sub_pack_def sub_unpack_def sub_norm_def sub_typed_def list_all_iff field_functions split: option.splits)
  have v: "valid_index ?fs (if ?fs = [] then None else Some 0)" by (simp add: valid_index_def)
  obtain sms where s: "scan_members ?fs ?rs (if ?fs = [] then None else Some 0) (protobuf_c_message_pack d m) = Some sms"
      "parse_members (map field_parser ?fs) sms (Message (map (\<lambda>f. field_init (fd_label f) (fd_type f)) ?fs) []) =
        Some (Message (map2 norm_field ?fs ?vs) [])"
    using unpack_fields [OF ok(2,1) typed un(2) g _ _ _ v, of 0] "1.prems"(4) p by (auto simp: MAX_SCANNED_MEMBERS_def)
  have "length sms \<le> ?L" using scan_length [OF s(1)] "1.prems"(4) by simp
  moreover have "(\<lambda>(l, t, _). field_init l t) \<circ> field_parser = (\<lambda>f. field_init (fd_label f) (fd_type f))"
    by (rule ext) (simp add: field_functions)
  ultimately show ?case using s by (simp add: message_functions unpack_with_def)
qed

subsection \<open>Whatever is unpacked is a message of the descriptor\<close>

lemma packed_elements_typed: "packed_elements t at = Some vs \<Longrightarrow> is_packable_type t \<Longrightarrow> t \<noteq> PROTOBUF_C_TYPE_BOOL \<Longrightarrow>
    list_all (\<lambda>v. value_typed typed t v \<and> v \<noteq> String NullString \<and> v \<noteq> SubMessage None) vs"
proof (induction t at arbitrary: vs rule: packed_elements.induct)
  case (2 t v va)
  have "value_typed typed t (packed_element t d) \<and> packed_element t d \<noteq> String NullString \<and> packed_element t d \<noteq> SubMessage None" for d
    using 2(3,4) by (cases t) (simp_all add: is_packable_type_def)
  then show ?case using 2 by (auto split: option.splits)
qed simp

lemma packed_typed:
  assumes "parse_packed_repeated_member t at = Some vs" "is_packable_type t"
  shows "list_all (\<lambda>v. value_typed typed t v \<and> v \<noteq> String NullString \<and> v \<noteq> SubMessage None) vs"
proof (cases "t = PROTOBUF_C_TYPE_BOOL")
  case True
  then show ?thesis using assms(1) by (auto simp: parse_packed_repeated_member_def list_all_iff split: if_splits)
next
  case False
  then show ?thesis using assms packed_elements_typed by (simp add: parse_packed_repeated_member_def)
qed

definition merge_typed :: "ProtobufCFieldDescriptor \<Rightarrow> bool" where
  "merge_typed f \<longleftrightarrow> (\<forall>e l. sub_typed f e \<longrightarrow> sub_typed f l \<longrightarrow> sub_typed f (sub_merge f e l))"

lemma merge_value_typed:
  assumes "merge_typed f" "value_typed (sub_typed f) t e" "value_typed (sub_typed f) t l"
  shows "value_typed (sub_typed f) t (merge_value (sub_merge f) e l)"
  using assms
  by (cases "(sub_merge f, e, l)" rule: merge_value.cases; cases t) (auto simp: merge_typed_def split: option.splits)

lemma merge_field_typed:
  assumes "merge_typed f" "typed_field f e" "typed_field f l"
  shows "typed_field f (merge_field f e l)"
proof (cases "fd_label f")
  case PROTOBUF_C_LABEL_REPEATED
  then show ?thesis using assms by (cases e; cases l) (simp_all add: field_functions field_typed_def)
next
  case PROTOBUF_C_LABEL_NONE
  then show ?thesis using assms merge_value_typed by (simp add: field_functions field_typed_def)
qed

lemma merge_messages_eq: "merge_messages d e l = Message (map2 (\<lambda>f p. merge_field f (fst p) (snd p)) (msg_fields d) (zip (members e) (members l))) (unknown_fields l)"
  by (cases d) (simp add: zip_map1 comp_def split_def)

lemma merge_messages_typed: "message_typed d e \<Longrightarrow> message_typed d l \<Longrightarrow> message_typed d (merge_messages d e l)"
proof (induction d arbitrary: e l rule: descriptor_induct)
  case (1 d)
  have "merge_typed f" if "f \<in> set (msg_fields d)" for f
    using "1.IH" [OF that] by (auto simp: merge_typed_def sub_typed_def sub_merge_def split: option.split)
  then show ?case
    using "1.prems" merge_field_typed by (simp add: message_functions merge_messages_eq list_all2_conv_all_nth)
qed

lemma merge_typed_all: "merge_typed f"
  by (auto simp: merge_typed_def sub_typed_def sub_merge_def merge_messages_typed split: option.split)

lemma parse_required_typed:
  assumes "parse_required_member (fd_type f) (sub_unpack f) (merge_value (sub_merge f)) sm earlier = Some v"
    "\<And>b s. sub_unpack f b = Some s \<Longrightarrow> sub_typed f s" "\<And>e. earlier = Some e \<Longrightarrow> value_typed (sub_typed f) (fd_type f) e"
  shows "value_typed (sub_typed f) (fd_type f) v"
    "earlier = None \<Longrightarrow> v \<noteq> String NullString \<and> v \<noteq> SubMessage None"
proof -
  show "value_typed (sub_typed f) (fd_type f) v"
    using assms merge_value_typed [OF merge_typed_all, of f "fd_type f"]
    by (cases "fd_type f") (auto simp: parse_required_member_def Let_def split: if_splits option.splits)
  show "earlier = None \<Longrightarrow> v \<noteq> String NullString \<and> v \<noteq> SubMessage None"
    using assms(1) by (cases "fd_type f") (auto simp: parse_required_member_def Let_def split: if_splits)
qed

lemma parse_member_typed:
  assumes "parse_member (map field_parser fs) sm m = Some m'" "list_all2 typed_field fs (members m)"
    "\<And>f b s. f \<in> set fs \<Longrightarrow> sub_unpack f b = Some s \<Longrightarrow> sub_typed f s" "valid_index fs (sm_field sm)"
  shows "list_all2 typed_field fs (members m')"
proof (cases "sm_field sm")
  case None
  then show ?thesis using assms(1,2) by (auto simp: parse_member_def)
next
  case (Some i)
  then have i: "i < length fs" "length (members m) = length fs" "typed_field (fs ! i) (members m ! i)"
    using assms(2,4) by (simp_all add: valid_index_def list_all2_conv_all_nth)
  have upd: "list_all2 typed_field fs ((members m)[i := v])" if "typed_field (fs ! i) v" for v
    using assms(2) that i by (simp add: list_all2_conv_all_nth nth_list_update)
  have sub: "sub_unpack (fs ! i) b = Some s \<Longrightarrow> sub_typed (fs ! i) s" for b s using assms(3) i by simp
  show ?thesis
  proof (cases "fd_label (fs ! i)")
    case PROTOBUF_C_LABEL_NONE
    then obtain v where v: "parse_required_member (fd_type (fs ! i)) (sub_unpack (fs ! i)) (merge_value (sub_merge (fs ! i))) sm (Some (members m ! i)) = Some v"
        "members m' = (members m)[i := v]"
      using assms(1) Some i(1) by (auto simp: parse_member_def field_functions)
    have "value_typed (sub_typed (fs ! i)) (fd_type (fs ! i)) v"
      using i(3) PROTOBUF_C_LABEL_NONE by (intro parse_required_typed(1) [OF v(1) sub]) (simp_all add: field_functions field_typed_def)
    then show ?thesis using upd [of v] v(2) PROTOBUF_C_LABEL_NONE by (simp add: field_functions field_typed_def)
  next
    case PROTOBUF_C_LABEL_REPEATED
    then obtain vs where vs: "members m ! i = Repeated vs"
      using assms(1) Some i(1) by (auto simp: parse_member_def field_functions split: ProtobufCValue.splits)
    then obtain ws where ws: "members m' = (members m)[i := Repeated (vs @ ws)]"
        "is_packable_type (fd_type (fs ! i)) \<and> parse_packed_repeated_member (fd_type (fs ! i)) (drop (sm_length_prefix_len sm) (sm_data sm)) = Some ws \<or>
         (\<exists>v. ws = [v] \<and> parse_required_member (fd_type (fs ! i)) (sub_unpack (fs ! i)) (merge_value (sub_merge (fs ! i))) sm None = Some v)"
      using assms(1) Some i(1) PROTOBUF_C_LABEL_REPEATED by (auto simp: parse_member_def field_functions split: if_splits)
    have "list_all (\<lambda>v. value_typed (sub_typed (fs ! i)) (fd_type (fs ! i)) v \<and> v \<noteq> String NullString \<and> v \<noteq> SubMessage None) ws"
      using ws(2) packed_typed parse_required_typed [OF _ sub, where earlier = None] by fastforce
    then have "typed_field (fs ! i) (Repeated (vs @ ws))"
      using i(3) vs PROTOBUF_C_LABEL_REPEATED by (simp add: field_functions field_typed_def)
    then show ?thesis using upd ws(1) by simp
  qed
qed

lemma parse_members_typed:
  assumes "\<And>f b s. f \<in> set fs \<Longrightarrow> sub_unpack f b = Some s \<Longrightarrow> sub_typed f s"
  shows "parse_members (map field_parser fs) sms m = Some m' \<Longrightarrow> list_all2 typed_field fs (members m) \<Longrightarrow>
    list_all (\<lambda>sm. valid_index fs (sm_field sm)) sms \<Longrightarrow> list_all2 typed_field fs (members m')"
proof (induction sms arbitrary: m)
  case (Cons sm sms)
  then obtain m1 where "parse_member (map field_parser fs) sm m = Some m1" "parse_members (map field_parser fs) sms m1 = Some m'"
    by (auto split: option.splits)
  then show ?case using Cons parse_member_typed [OF _ _ assms] by auto
qed simp

lemma find_field_valid: "table_ok fs rs \<Longrightarrow> valid_index fs last_field \<Longrightarrow> valid_index fs (find_field fs rs last_field t)"
  using lookup_sound [of fs rs "sint t"] by (auto simp: find_field_def valid_index_def Let_def split: option.splits if_splits)

lemma scan_valid:
  "scan_members fs rs last_field at = Some sms \<Longrightarrow> table_ok fs rs \<Longrightarrow> valid_index fs last_field \<Longrightarrow>
    list_all (\<lambda>sm. valid_index fs (sm_field sm)) sms"
proof (induction fs rs last_field at arbitrary: sms rule: scan_members.induct)
  case (2 fs rs last_field v va)
  let ?at = "v # va" and ?f = "find_field fs rs last_field"
  obtain t w used n pref r where p: "parse_tag_and_wiretype ?at = Some (t, w, used)" "member_len w (drop used ?at) = Some (n, pref)"
      "scan_members fs rs (if ?f t = None then last_field else ?f t) (drop n (drop used ?at)) = Some r"
      "\<exists>sm. sms = sm # r \<and> sm_field sm = ?f t"
    using 2(2) by (auto simp: scan_members.simps(2) Let_def simp del: parse_tag_and_wiretype.simps split: option.splits prod.splits)
  have "valid_index fs (?f t)" by (rule find_field_valid [OF 2(3,4)])
  moreover have "list_all (\<lambda>sm. valid_index fs (sm_field sm)) r"
    by (rule 2(1) [OF p(1) refl refl refl refl refl p(2) refl p(3) 2(3)]) (use calculation 2(4) in simp)
  ultimately show ?case using p(4) by auto
qed simp

lemma init_typed: "typed_field f (field_init (fd_label f) (fd_type f))"
  by (cases "fd_label f"; cases "fd_type f") (simp_all add: field_functions field_typed_def)

lemma unpack_typed: "descriptor_ok d \<Longrightarrow> protobuf_c_message_unpack d b = Some m \<Longrightarrow> message_typed d m"
proof (induction d arbitrary: b m rule: descriptor_induct)
  case (1 d)
  let ?fs = "msg_fields d" and ?rs = "field_ranges d"
  have ok: "list_all field_descriptor_ok ?fs" "table_ok ?fs ?rs" using "1.prems"(1) by (simp_all add: message_functions)
  have sub: "sub_typed f s" if "f \<in> set ?fs" "sub_unpack f b = Some s" for f b s
    using "1.IH" [OF that(1)] ok that by (auto simp: sub_unpack_def sub_typed_def list_all_iff field_functions split: option.splits)
  obtain sms where s: "scan_members ?fs ?rs (if ?fs = [] then None else Some 0) b = Some sms"
      "parse_members (map field_parser ?fs) sms (Message (map (\<lambda>(l, t, _). field_init l t) (map field_parser ?fs)) []) = Some m"
    using "1.prems"(2) by (auto simp: message_functions unpack_with_def split: option.splits if_splits)
  have "list_all (\<lambda>sm. valid_index ?fs (sm_field sm)) sms"
    by (rule scan_valid [OF s(1) ok(2)]) (simp add: valid_index_def)
  moreover have "list_all2 typed_field ?fs (map (\<lambda>(l, t, _). field_init l t) (map field_parser ?fs))"
    by (simp add: list_all2_conv_all_nth field_functions(4) init_typed)
  ultimately show ?case using parse_members_typed [OF sub s(2)] by (simp add: message_functions)
qed

subsection \<open>Properties\<close>

text \<open>
  A message of three fields, one of which holds messages of the same kind without it.
\<close>

definition sample_part :: ProtobufCMessageDescriptor where
  "sample_part = MessageDescriptor ''part'' [FieldDescriptor ''text'' 1 PROTOBUF_C_LABEL_NONE PROTOBUF_C_TYPE_STRING None] [0] [(1, 0), (0, 1)]"

definition sample_descriptor :: ProtobufCMessageDescriptor where
  "sample_descriptor = MessageDescriptor ''sample''
     [FieldDescriptor ''number'' 1 PROTOBUF_C_LABEL_NONE PROTOBUF_C_TYPE_UINT32 None,
      FieldDescriptor ''bytes'' 2 PROTOBUF_C_LABEL_NONE PROTOBUF_C_TYPE_BYTES None,
      FieldDescriptor ''parts'' 5 PROTOBUF_C_LABEL_REPEATED PROTOBUF_C_TYPE_MESSAGE (Some sample_part)]
     [1, 0, 2] [(1, 0), (5, 2), (0, 3)]"

definition sample_message :: ProtobufCMessage where
  "sample_message = Message [Word32 300, Bytes [1, 2, 3], Repeated [SubMessage (Some (Message [String (Str [65, 66, 0])] []))]] []"

lemma sample_ok:
  "descriptor_ok sample_descriptor" "message_typed sample_descriptor sample_message" "all_known sample_message"
  by (simp_all add: sample_descriptor_def sample_part_def sample_message_def table_ok_def field_typed_def upt_rec)

lemma sample_pack: "protobuf_c_message_pack sample_descriptor sample_message = [8, 0xAC, 2, 0x12, 3, 1, 2, 3, 0x2A, 4, 0x0A, 2, 65, 66]"
  by code_simp

text \<open>
  C20: For every descriptor and message, the announced size is exactly the number of bytes that packing writes, so a buffer of that size is
  never overrun and no byte of it is left unwritten; only where an array has a null element, somewhere in the message, is there no size:
  computing it dereferences the null pointer.
\<close>

theorem pack_in_bounds:
  "protobuf_c_message_get_packed_size d m = (if no_null_elements d m then Inr (length (protobuf_c_message_pack d m)) else Inl UB)"
  by (rule packed_size_length)

text \<open>
  C8: Unpacking what was packed gives the message back, for every sound descriptor and every message of it: all numbers, bytes, arrays and
  nested messages as they were, strings up to their terminator, and fields that were not sent with their default.
\<close>

theorem pack_then_unpack:
  assumes "descriptor_ok d" "message_typed d m" "all_known m" "length (protobuf_c_message_pack d m) \<le> MAX_SCANNED_MEMBERS"
  shows "protobuf_c_message_unpack d (protobuf_c_message_pack d m) = Some (message_norm d m)"
  using assms by (rule unpack_pack)

theorem pack_then_unpack_witness:
  "protobuf_c_message_unpack sample_descriptor [8, 0xAC, 2, 0x12, 3, 1, 2, 3, 0x2A, 4, 0x0A, 2, 65, 66] =
     Some (Message [Word32 300, Bytes [1, 2, 3], Repeated [SubMessage (Some (Message [String (Str [65, 66])] []))]] [])"
proof -
  have "length (protobuf_c_message_pack sample_descriptor sample_message) \<le> MAX_SCANNED_MEMBERS"
    by (simp add: sample_pack MAX_SCANNED_MEMBERS_def)
  moreover have "message_norm sample_descriptor sample_message =
      Message [Word32 300, Bytes [1, 2, 3], Repeated [SubMessage (Some (Message [String (Str [65, 66])] []))]] []"
    by code_simp
  ultimately show ?thesis using pack_then_unpack [OF sample_ok] by (simp only: sample_pack)
qed

text \<open>
  C21: Whatever bytes arrive, unpacking either refuses them or gives a message of the descriptor: as many members as fields, each of the type
  and label of its field, down to the nested messages, and no null element in an array.
\<close>

theorem unpacked_is_typed:
  assumes "descriptor_ok d" "protobuf_c_message_unpack d b = Some m"
  shows "message_typed d m"
  using assms by (rule unpack_typed)

theorem unpacked_is_typed_witness:
  "\<exists>m. protobuf_c_message_unpack sample_descriptor [8, 0xAC, 2, 0x12, 3, 1, 2, 3, 0x2A, 4, 0x0A, 2, 65, 66] = Some m \<and>
     message_typed sample_descriptor m"
proof -
  have "length (protobuf_c_message_pack sample_descriptor sample_message) \<le> MAX_SCANNED_MEMBERS"
    by (simp add: sample_pack MAX_SCANNED_MEMBERS_def)
  from unpack_pack [OF sample_ok this] show ?thesis
    using unpacked_is_typed [OF sample_ok(1)] unfolding sample_pack by blast
qed

end
