(* ===== verification/Boat_ProtoNetwork.thy ===== *)
theory Boat_ProtoNetwork
  imports Boat_Network Boat_Protobuf
begin

text \<open>
  The network stores of CITA, ChainMaker, Hyperledger Fabric and HW-BCS (\<open>sdk/network/*/network_*.c\<close>). They keep their networks in the same
  storage area as those of the Ethereum family and with the same records, protocol, index and length, but the body of a record is
  a packed protobuf message. Up to names and the member of \<open>BoatProtocolType\<close>, the functions for the
  free index and for the deletion of a network are those of the Ethereum family, and reading, listing and storing are the same in the four
  files. The definitions here, translated from \<open>sdk/network/cita/network_cita.c\<close>, take what differs as the argument \<open>N\<close>: the protocol, the message
  descriptor, the index of a network, and the two translations between the data of a network and its message.
\<close>

record 'd ProtoNetwork =
  pn_protocol :: BoatProtocolType
  pn_descriptor :: ProtobufCMessageDescriptor
  pn_index :: "'d \<Rightarrow> u8"
  pn_to_message :: "(nat \<Rightarrow> bytes option) \<Rightarrow> 'd \<Rightarrow> ProtobufCMessage res"
  pn_from_message :: "(nat \<Rightarrow> bytes option) \<Rightarrow> ProtobufCMessage \<Rightarrow> 'd \<Rightarrow> unit res \<times> 'd"

record 'd ProtoContext =
  pc_networkNum :: u8
  pc_networks :: "'d list"

subsection \<open>Reading networks\<close>

text \<open>Every failure of the translation is reported as \<open>BOAT_ERROR\<close>.\<close>

definition proto_GetNetworkFromNvram ::
  "'d ProtoNetwork \<Rightarrow> (nat \<Rightarrow> bytes option) \<Rightarrow> (nat \<Rightarrow> u32 \<Rightarrow> u32 \<Rightarrow> 's \<Rightarrow> bytes res) \<Rightarrow> u32 \<Rightarrow> 's \<Rightarrow> 'd \<Rightarrow> u32 res \<times> 'd" where
  "proto_GetNetworkFromNvram N mal rd startAddr s =
     bindS (liftS (read_len rd startAddr s)) (\<lambda>(_, nlen, nll).
       case mal (unat nlen) of
         None \<Rightarrow> liftS (Inl (Err BOAT_ERROR_COMMON_OUT_OF_MEMORY))
       | Some _ \<Rightarrow>
           bindS (liftS (rd (unat nlen) (startAddr + nll) nlen s)) (\<lambda>b.
             case protobuf_c_message_unpack (pn_descriptor N) b of
               None \<Rightarrow> liftS (Inl (Err BOAT_ERROR))
             | Some m \<Rightarrow>
                 bindS (catchS (pn_from_message N mal m) (\<lambda>_. liftS (Inl (Err BOAT_ERROR)))) (\<lambda>_.
                   liftS (Inr (nlen + nll)))))"

fun proto_network_list_loop ::
  "'d ProtoNetwork \<Rightarrow> (nat \<Rightarrow> bytes option) \<Rightarrow> (nat \<Rightarrow> u32 \<Rightarrow> u32 \<Rightarrow> 's \<Rightarrow> bytes res) \<Rightarrow> nat \<Rightarrow> nat \<Rightarrow> u32 \<Rightarrow> 's \<Rightarrow>
     'd ProtoContext \<Rightarrow> nat res \<times> 'd ProtoContext" where
  "proto_network_list_loop N mal rd 0 slot off s nl = (Inr slot, nl)"
| "proto_network_list_loop N mal rd (Suc k) slot off s nl =
     (case rd 4 off 4 s of
        Inl e \<Rightarrow> (Inl e, nl)
      | Inr p \<Rightarrow>
          let off' = off + 4 + 1 in
          if p = protocol_rep (pn_protocol N) then
            if length (pc_networks nl) \<le> slot then (Inl UB, nl)
            else
              (case proto_GetNetworkFromNvram N mal rd off' s (pc_networks nl ! slot) of
                 (r, d) \<Rightarrow>
                   let nl' = nl\<lparr>pc_networks := (pc_networks nl)[slot := d]\<rparr> in
                   (case r of
                      Inl e \<Rightarrow> (Inl e, nl')
                    | Inr n \<Rightarrow> proto_network_list_loop N mal rd k (slot + 1) (off' + n) s nl'))
          else
            (case read_len rd off' s of
               Inl e \<Rightarrow> (Inl e, nl)
             | Inr (_, l, ll) \<Rightarrow> proto_network_list_loop N mal rd k slot (off' + (l + ll)) s nl))"

definition proto_GetNetworkList ::
  "'d ProtoNetwork \<Rightarrow> (nat \<Rightarrow> bytes option) \<Rightarrow> nvram \<Rightarrow> 'd ProtoContext option \<Rightarrow> unit res \<times> 'd ProtoContext option" where
  "proto_GetNetworkList N mal s networkList =
     (case networkList of
        None \<Rightarrow> (Inl (Err BOAT_ERROR_COMMON_INVALID_ARGUMENT), None)
      | Some nl \<Rightarrow>
          let rdF = area_rd BOAT_STORE_NETWORK BOAT_STORE_TYPE_FLASH;
              rdR = area_rd BOAT_STORE_NETWORK BOAT_STORE_TYPE_RAM
          in map_prod id Some
            (bindS (liftS (read_num rdF s)) (\<lambda>num.
             bindS (updS (\<lambda>nl. nl\<lparr>pc_networkNum := num\<rparr>)) (\<lambda>_.
             bindS (proto_network_list_loop N mal rdF (unat num) 0 4 s) (\<lambda>slot.
             bindS (liftS (read_num rdR s)) (\<lambda>num1.
             bindS (updS (\<lambda>nl. nl\<lparr>pc_networkNum := pc_networkNum nl + num1\<rparr>)) (\<lambda>_.
             bindS (proto_network_list_loop N mal rdR (unat num1) slot 4 s) (\<lambda>_.
             liftS (case rdR 4 0 4 s of Inl e \<Rightarrow> Inl e | Inr _ \<Rightarrow> Inr ()))))))) nl))"

fun proto_get_network_loop ::
  "'d ProtoNetwork \<Rightarrow> (nat \<Rightarrow> bytes option) \<Rightarrow> (nat \<Rightarrow> u32 \<Rightarrow> u32 \<Rightarrow> 's \<Rightarrow> bytes res) \<Rightarrow> nat \<Rightarrow> u8 \<Rightarrow> u32 \<Rightarrow> 's \<Rightarrow> 'd \<Rightarrow> unit res \<times> 'd" where
  "proto_get_network_loop N mal rd 0 index off s = liftS (Inl (Err BOAT_ERROR_NETWORK_INEXISTENCE))"
| "proto_get_network_loop N mal rd (Suc k) index off s =
     bindS (liftS (rd 4 off 4 s)) (\<lambda>p.
     bindS (liftS (rd 1 (off + 4) 1 s)) (\<lambda>b.
     let off' = off + 4 + 1 in
     if hd b = index \<and> p = protocol_rep (pn_protocol N)
     then bindS (proto_GetNetworkFromNvram N mal rd off' s) (\<lambda>_. liftS (Inr ()))
     else bindS (liftS (read_len rd off' s)) (\<lambda>(_, l, ll).
       proto_get_network_loop N mal rd k index (off' + (l + ll)) s)))"

definition proto_GetNetworkByIndex ::
  "'d ProtoNetwork \<Rightarrow> (nat \<Rightarrow> bytes option) \<Rightarrow> u8 \<Rightarrow> nvram \<Rightarrow> 'd option \<Rightarrow> unit res \<times> 'd option" where
  "proto_GetNetworkByIndex N mal index s networkData =
     (case networkData of
        None \<Rightarrow> (Inl (Err BOAT_ERROR_COMMON_INVALID_ARGUMENT), None)
      | Some d \<Rightarrow>
          if of_nat BOAT_MAX_NETWORK_NUM < index then (Inl (Err BOAT_ERROR_NETWORK_INDEX_EXCEED), Some d)
          else
            let rd = area_rd BOAT_STORE_NETWORK (if index = 0 then BOAT_STORE_TYPE_RAM else BOAT_STORE_TYPE_FLASH)
            in case rd 4 0 4 s of
                 Inl e \<Rightarrow> (Inl e, Some d)
               | Inr b \<Rightarrow>
                   (case utility_check_NumBytes b of
                      Inl _ \<Rightarrow> (Inl (Err BOAT_ERROR_NETWORK_INEXISTENCE), Some d)
                    | Inr num \<Rightarrow>
                        if num = 0 then (Inl (Err BOAT_ERROR_NETWORK_INEXISTENCE), Some d)
                        else map_prod id Some (proto_get_network_loop N mal rd (unat num) index 4 s d)))"

subsection \<open>Storing networks\<close>

text \<open>
  From the message of the network to the bytes of the body with their length in front, in a buffer of exactly that size. The result of
  \<open>add_L_withOffset\<close> is not looked at.
\<close>

definition proto_pack_network ::
  "(nat \<Rightarrow> bytes option) \<Rightarrow> ProtobufCMessageDescriptor \<Rightarrow> ProtobufCMessage \<Rightarrow> (bytes \<times> u32) res" where
  "proto_pack_network mal desc m =
     bindR (protobuf_c_message_get_packed_size desc m) (\<lambda>size.
      let networkLength = of_nat size :: u32;
          networkLengthLen = of_int (UtilityGetTLV_LL_from_len networkLength)
      in guardR (networkLength = 0) BOAT_ERROR
        (case mal (unat (networkLength + networkLengthLen)) of
           None \<Rightarrow> Inl (Err BOAT_ERROR_COMMON_OUT_OF_MEMORY)
         | Some networkbuf \<Rightarrow>
             bindR (buf_put networkbuf 0 (protobuf_c_message_pack desc m)) (\<lambda>buf.
             let networkLength' = of_nat (length (protobuf_c_message_pack desc m)) in
             guardR (networkLength' = 0) BOAT_ERROR
            (bindR (add_L_withOffset mal buf 0 networkLength') (\<lambda>(_, buf', off). Inr (buf', off))))))"

definition proto_Get_Network_Data :: "'d ProtoNetwork \<Rightarrow> (nat \<Rightarrow> bytes option) \<Rightarrow> 'd \<Rightarrow> (bytes \<times> u32) res" where
  "proto_Get_Network_Data N mal d = bindR (pn_to_message N mal d) (proto_pack_network mal (pn_descriptor N))"

definition proto_NetworkDataCtx_Store ::
  "'d ProtoNetwork \<Rightarrow> (nat \<Rightarrow> bytes option) \<Rightarrow> 'd \<Rightarrow> BoatStoreType \<Rightarrow> nvram \<Rightarrow> unit res \<times> nvram" where
  "proto_NetworkDataCtx_Store N mal d storeType s =
     (let rd = area_rd BOAT_STORE_NETWORK storeType;
          wr = area_wr mal BOAT_STORE_NETWORK storeType
      in case
        bindR (read_num rd s) (\<lambda>num.
        guardR (BOAT_MAX_NETWORK_NUM \<le> unat num) BOAT_ERROR_NETWORK_INDEX_EXCEED
       (let num' = (if storeType = BOAT_STORE_TYPE_RAM then 0 else num) in
        bindR (skip_networks rd (unat num') 4 s) (\<lambda>off.
        bindR (proto_Get_Network_Data N mal d) (\<lambda>(buf, n).
          Inr (num', off, buf, n))))) of
        Inl e \<Rightarrow> (Inl e, s)
      | Inr (num', off, buf, n) \<Rightarrow>
          bindS (wr off (protocol_rep (pn_protocol N))) (\<lambda>_.
          bindS (wr (off + 4) [pn_index N d]) (\<lambda>_.
          bindS (BoATStoreSoftRotNvram mal BOAT_STORE_NETWORK (off + 4 + 1) (Some buf) n storeType) (\<lambda>_.
            wr 0 (utility_get_NumBytes (num' + 1))))) s)"

text \<open>The end of the create functions: an index is chosen, the data is put together by \<open>mk\<close> and stored.\<close>

definition proto_create_with ::
  "'d ProtoNetwork \<Rightarrow> (nat \<Rightarrow> bytes option) \<Rightarrow> (u8 \<Rightarrow> 'd res) \<Rightarrow> BoatStoreType \<Rightarrow> nvram \<Rightarrow> u8 res \<times> nvram" where
  "proto_create_with N mal mk storeType =
     (\<lambda>s. bindS (liftS (if storeType = BOAT_STORE_TYPE_FLASH then GetFreeNetworkIndex_From_Persistent s else Inr 0)) (\<lambda>i.
          bindS (liftS (mk (of_nat i))) (\<lambda>d.
          bindS (proto_NetworkDataCtx_Store N mal d storeType) (\<lambda>_. liftS (Inr (of_nat i))))) s)"

subsection \<open>What a chain provides\<close>

text \<open>
  The interface between the common program and a chain, in two steps: networks that meet \<open>ok_net\<close> have a message, packed as \<open>body\<close>;
  and from it they are read into an object that meets \<open>fits\<close>, which then holds \<open>into\<close>.
\<close>

definition proto_record :: "'d ProtoNetwork \<Rightarrow> ('d \<Rightarrow> bytes) \<Rightarrow> 'd \<Rightarrow> network_record" where
  "proto_record N body d = \<lparr>rec_protocol = protocol_rep (pn_protocol N), rec_index = pn_index N d, rec_body = body d\<rparr>"

definition proto_own_networks :: "'d ProtoNetwork \<Rightarrow> ('d \<Rightarrow> bool) \<Rightarrow> ('d \<Rightarrow> bytes) \<Rightarrow> network_record list \<Rightarrow> 'd list \<Rightarrow> bool" where
  "proto_own_networks N ok_net body rs ds \<longleftrightarrow>
     filter (\<lambda>r. rec_protocol r = protocol_rep (pn_protocol N)) rs = map (proto_record N body) ds \<and> list_all ok_net ds"

fun fill_protos :: "('d \<Rightarrow> 'd \<Rightarrow> 'd) \<Rightarrow> nat \<Rightarrow> 'd list \<Rightarrow> 'd list \<Rightarrow> 'd list" where
  "fill_protos into slot [] es = es"
| "fill_protos into slot (d # ds) es = fill_protos into (slot + 1) ds (es[slot := into d (es ! slot)])"

lemma length_fill_protos [simp]: "length (fill_protos into slot ds es) = length es"
  by (induction into slot ds es rule: fill_protos.induct) simp_all

lemma fill_protos_nth:
  "slot + length ds \<le> length es \<Longrightarrow> k < length es \<Longrightarrow>
    fill_protos into slot ds es ! k = (if slot \<le> k \<and> k < slot + length ds then into (ds ! (k - slot)) (es ! k) else es ! k)"
proof (induction into slot ds es rule: fill_protos.induct)
  case (2 into slot d ds es)
  then show ?case by (cases "k = slot") (auto simp: nth_Cons' Suc_diff_le)
qed auto

lemma proto_record_sel [simp]:
  "rec_protocol (proto_record N body d) = protocol_rep (pn_protocol N)" "rec_index (proto_record N body d) = pn_index N d"
  "rec_body (proto_record N body d) = body d"
  by (simp_all add: proto_record_def)

lemma proto_own_networks_Cons:
  "proto_own_networks N ok_net body (r # rs) ds \<longleftrightarrow>
     (if rec_protocol r = protocol_rep (pn_protocol N)
      then \<exists>d ds'. ds = d # ds' \<and> ok_net d \<and> r = proto_record N body d \<and> proto_own_networks N ok_net body rs ds'
      else proto_own_networks N ok_net body rs ds)"
  by (cases ds) (auto simp: proto_own_networks_def)

lemma own_length: "proto_own_networks N ok_net body rs ds \<Longrightarrow> length ds \<le> length rs"
  unfolding proto_own_networks_def by (metis length_filter_le length_map)

text \<open>The record of a body and the space it takes.\<close>

definition proto_capacity :: "('d \<Rightarrow> bytes) \<Rightarrow> 'd \<Rightarrow> nat" where
  "proto_capacity body d = 5 + length (lv (body d))"

locale proto_writer =
  fixes N :: "'d ProtoNetwork"
    and ok_net :: "'d \<Rightarrow> bool"
    and body :: "'d \<Rightarrow> bytes"
  assumes to_message: "malloc_total mal \<Longrightarrow> ok_net d \<Longrightarrow>
      \<exists>m. pn_to_message N mal d = Inr m \<and> protobuf_c_message_pack (pn_descriptor N) m = body d \<and> no_null_elements (pn_descriptor N) m"
    and body_sized: "ok_net d \<Longrightarrow> field_ok (body d) \<and> 2 \<le> length (body d)"

locale proto_network = proto_writer +
  fixes fits :: "'d \<Rightarrow> bool"
    and into :: "'d \<Rightarrow> 'd \<Rightarrow> 'd"
  assumes from_message: "malloc_total mal \<Longrightarrow> ok_net d \<Longrightarrow> fits old \<Longrightarrow>
      \<exists>m. protobuf_c_message_unpack (pn_descriptor N) (body d) = Some m \<and> pn_from_message N mal m old = (Inr (), into d old)"
    and fits_into: "ok_net d \<Longrightarrow> fits old \<Longrightarrow> fits (into d old)"

text \<open>What reading a message into an object comes to.\<close>

definition proto_read :: "'d ProtoNetwork \<Rightarrow> (nat \<Rightarrow> bytes option) \<Rightarrow> ProtobufCMessage \<Rightarrow> 'd \<Rightarrow> unit res \<times> 'd" where
  "proto_read N mal m = catchS (pn_from_message N mal m) (\<lambda>_. liftS (Inl (Err BOAT_ERROR)))"

lemma proto_from_nvram:
  assumes A: "storage_area rd wr ok content cap frame" and s: "ok s" and c: "content s = pre @ lv b @ post"
    and f: "field_ok b" "2 \<le> length b" and mal: "malloc_total mal" and m: "protobuf_c_message_unpack (pn_descriptor N) b = Some m"
  shows "proto_GetNetworkFromNvram N mal rd (of_nat (length pre)) s old =
    bindS (proto_read N mal m) (\<lambda>_. liftS (Inr (of_nat (length (lv b))))) old"
proof -
  define n where "n = (of_nat (length b) :: u32)"
  have u: "unat n = length b" using f(1) unfolding n_def field_ok_def by (intro unat_of_nat_u32) simp
  have "3 \<le> length (lv b @ post)" using length_lv_bounds(1) [of b] f(2) by simp
  then obtain lb where b: "read_len rd (of_nat (length pre)) s = Inr (lb, n, of_nat (length (L_bytes n)))"
    using storage_area.read_len_lv [OF A s c f(1)] by (auto simp: n_def)
  have cs: "content s = (pre @ L_bytes n) @ b @ post" using c by (simp add: lv_def n_def)
  have "b \<noteq> []" using f(2) by auto
  then have "rd (length b) (of_nat (length (pre @ L_bytes n))) (of_nat (length b)) s = Inr b"
    using storage_area.rd_parts [OF A s cs] by simp
  then have r: "rd (unat n) (of_nat (length pre) + of_nat (length (L_bytes n))) n s = Inr b" unfolding u by (simp add: n_def)
  obtain blk where blk: "mal (unat n) = Some blk" using mal by (auto simp: malloc_total_def)
  have e: "n + of_nat (length (L_bytes n)) = of_nat (length (lv b))" by (simp add: length_lv n_def)
  show ?thesis
    unfolding proto_GetNetworkFromNvram_def
    by (simp only: bindS_def liftS_def b sum.case prod.case blk option.case r m e proto_read_def)
qed

text \<open>The first network of the chain with the index is the one that is read.\<close>

lemma proto_hit:
  assumes A: "storage_area rd wr ok content cap frame" and s: "ok s"
    and c: "content s = pre @ concat (map network_enc (xs @ r # ys)) @ post" "list_all rec_ok (xs @ [r])"
      "list_all (\<lambda>r. \<not> is_network (pn_protocol N) index r) xs" "is_network (pn_protocol N) index r"
    and mal: "malloc_total mal" and m: "protobuf_c_message_unpack (pn_descriptor N) (rec_body r) = Some m"
  shows "proto_get_network_loop N mal rd (length (xs @ r # ys)) index (of_nat (length pre)) s old = proto_read N mal m old"
  using c
proof (induction xs arbitrary: pre)
  case Nil
  have r: "rec_ok r" and c: "content s = pre @ network_enc r @ concat (map network_enc ys) @ post" using Nil.prems by simp_all
  note n = storage_area.network_at [OF A s c r]
  have c': "content s = (pre @ rec_protocol r @ [rec_index r]) @ lv (rec_body r) @ concat (map network_enc ys) @ post"
    using c by (simp add: network_enc_def)
  have f: "field_ok (rec_body r)" "2 \<le> length (rec_body r)" "length (rec_protocol r) = 4" using r by (simp_all add: rec_ok_def)
  have "proto_GetNetworkFromNvram N mal rd (of_nat (length pre) + 4 + 1) s old =
      bindS (proto_read N mal m) (\<lambda>_. liftS (Inr (of_nat (length (lv (rec_body r)))))) old"
    using proto_from_nvram [where N = N, OF A s c' f(1,2) mal m] f(3) by (simp add: add.commute add.left_commute)
  then show ?case
    using n(1,2) Nil.prems(4) by (auto simp: bindS_def liftS_def Let_def is_network_def split: prod.splits sum.splits)
next
  case (Cons x xs)
  have x: "rec_ok x" and c: "content s = pre @ network_enc x @ concat (map network_enc (xs @ r # ys)) @ post"
    using Cons.prems by simp_all
  note n = storage_area.network_at [OF A s c x]
  obtain b where b: "read_len rd (of_nat (length pre) + 4 + 1) s =
      Inr (b, of_nat (length (rec_body x)), of_nat (length (L_bytes (of_nat (length (rec_body x))))))" using n(3) by blast
  have IH: "proto_get_network_loop N mal rd (length (xs @ r # ys)) index (of_nat (length (pre @ network_enc x))) s old = proto_read N mal m old"
    using Cons.prems by (intro Cons.IH) simp_all
  have ne: "\<not> (rec_index x = index \<and> rec_protocol x = protocol_rep (pn_protocol N))"
    using Cons.prems(3) by (simp add: is_network_def)
  show ?case
    unfolding append_Cons length_Cons proto_get_network_loop.simps
    by (simp only: bindS_def liftS_def Let_def n(1,2,4) b prod.case sum.case list.sel ne if_False IH)
qed

lemma proto_miss:
  assumes A: "storage_area rd wr ok content cap frame" and s: "ok s"
    and c: "content s = pre @ concat (map network_enc rs) @ post" "list_all rec_ok rs"
      "list_all (\<lambda>r. \<not> is_network (pn_protocol N) index r) rs"
  shows "proto_get_network_loop N mal rd (length rs) index (of_nat (length pre)) s old = (Inl (Err BOAT_ERROR_NETWORK_INEXISTENCE), old)"
  using c
proof (induction rs arbitrary: pre)
  case (Cons r rs)
  have r: "rec_ok r" and c: "content s = pre @ network_enc r @ concat (map network_enc rs) @ post" using Cons.prems by simp_all
  note n = storage_area.network_at [OF A s c r]
  obtain b where b: "read_len rd (of_nat (length pre) + 4 + 1) s =
      Inr (b, of_nat (length (rec_body r)), of_nat (length (L_bytes (of_nat (length (rec_body r))))))" using n(3) by blast
  have IH: "proto_get_network_loop N mal rd (length rs) index (of_nat (length (pre @ network_enc r))) s old =
      (Inl (Err BOAT_ERROR_NETWORK_INEXISTENCE), old)"
    using Cons.prems by (intro Cons.IH) simp_all
  have ne: "\<not> (rec_index r = index \<and> rec_protocol r = protocol_rep (pn_protocol N))" using Cons.prems(3) by (simp add: is_network_def)
  show ?case
    unfolding length_Cons proto_get_network_loop.simps
    by (simp only: bindS_def liftS_def Let_def n(1,2,4) b prod.case sum.case list.sel ne if_False IH)
qed (simp add: liftS_def)

lemma proto_found:
  assumes ok: "nvram_ok s" and rs: "networks_in rs s" and r: "r \<in> set rs" "rec_protocol r = protocol_rep (pn_protocol N)"
    and mal: "malloc_total mal" and m: "protobuf_c_message_unpack (pn_descriptor N) (rec_body r) = Some m"
  shows "proto_GetNetworkByIndex N mal (rec_index r) s (Some old) = map_prod id Some (proto_read N mal m old)"
proof -
  obtain xs ys where sp: "rs = xs @ r # ys" using r(1) by (auto simp: in_set_conv_decomp)
  have ne: "rs \<noteq> []" and k: "list_all rec_ok (xs @ [r])" and i: "persistent_index (rec_index r)" and q: "rec_index r \<notin> rec_index ` set xs"
    using rs sp by (auto simp: networks_in_def)
  note p = networks_nonempty [OF ok rs ne]
  obtain rest where cc: "network_content s = utility_get_NumBytes (of_nat (length rs)) @ concat (map network_enc (xs @ r # ys)) @ rest"
    using p(1) sp by blast
  have n1: "list_all (\<lambda>q. \<not> is_network (pn_protocol N) (rec_index r) q) xs" 
    unfolding list_all_iff is_network_def using q by (metis image_eqI)
  have n2: "is_network (pn_protocol N) (rec_index r) r" using r(2) by (simp add: is_network_def)
  from proto_hit [where N = N, OF flash_network_area [OF heap_all_total] ok cc k n1 n2 mal m]
  have "proto_get_network_loop N mal (area_rd BOAT_STORE_NETWORK BOAT_STORE_TYPE_FLASH) (length rs) (rec_index r) 4 s old = proto_read N mal m old"
    by (simp only: sp length_NumBytes of_nat_numeral)
  then show ?thesis
    using p(2-4) NumBytes_get persistent_flash [OF i] by (simp add: proto_GetNetworkByIndex_def Let_def)
qed

lemma proto_missing:
  assumes ok: "nvram_ok s" and rs: "networks_in rs s" and i: "list_all (\<lambda>r. \<not> is_network (pn_protocol N) i r) rs" "persistent_index i"
  shows "\<exists>e. proto_GetNetworkByIndex N mal i s (Some old) = (Inl (Err e), Some old) \<and> (rs \<noteq> [] \<longrightarrow> e = BOAT_ERROR_NETWORK_INEXISTENCE)"
proof (cases "rs = []")
  case True
  then have "\<exists>num. read_num (area_rd BOAT_STORE_NETWORK BOAT_STORE_TYPE_FLASH) s = Inr num \<and> num = 0"
    using storage_area.read_num_ok [OF flash_network_area [OF heap_all_total] ok] rs by (auto simp: networks_in_def holds_def word_unat_eq_iff)
  then show ?thesis
    using True persistent_flash [OF i(2)] by (auto simp: proto_GetNetworkByIndex_def Let_def read_num_def split: sum.splits fail.splits)
next
  case False
  note p = networks_nonempty [OF ok rs False]
  obtain rest where cc: "network_content s = utility_get_NumBytes (of_nat (length rs)) @ concat (map network_enc rs) @ rest"
    using p(1) by blast
  have "proto_get_network_loop N mal (area_rd BOAT_STORE_NETWORK BOAT_STORE_TYPE_FLASH) (length rs) i 4 s old =
      (Inl (Err BOAT_ERROR_NETWORK_INEXISTENCE), old)"
    using proto_miss [where N = N, OF flash_network_area [OF heap_all_total] ok cc _ i(1), of mal old] rs by (simp add: networks_in_def)
  then show ?thesis using False p(2-4) NumBytes_get persistent_flash [OF i(2)] by (simp add: proto_GetNetworkByIndex_def Let_def)
qed

lemma proto_found_onetime:
  assumes ok: "nvram_ok s" and os: "onetime_network_in [r] s" and r: "rec_protocol r = protocol_rep (pn_protocol N)"
    and mal: "malloc_total mal" and m: "protobuf_c_message_unpack (pn_descriptor N) (rec_body r) = Some m"
  shows "proto_GetNetworkByIndex N mal 0 s (Some old) = map_prod id Some (proto_read N mal m old)"
proof -
  have i: "is_network (pn_protocol N) 0 r" "list_all rec_ok ([] @ [r])" using os r by (simp_all add: onetime_network_in_def is_network_def)
  have ne: "[r] \<noteq> []" by simp
  note p = onetime_num [OF ok os]
  obtain pre rest where cc: "onetime_network_content s = pre @ concat (map network_enc ([] @ r # [])) @ rest" "length pre = 4"
    using holds_split [of network_enc "[r]" "onetime_network_content s"] os by (auto simp: onetime_network_in_def)
  have g: "proto_get_network_loop N mal (area_rd BOAT_STORE_NETWORK BOAT_STORE_TYPE_RAM) 1 0 4 s old = proto_read N mal m old"
    using proto_hit [where N = N, OF ram_network_area [OF heap_all_total] ok cc(1) i(2) _ i(1) mal m] cc(2) by simp
  have z: "(of_nat 5 < (0::u8)) = False" "(1 = (0::u8)) = False" by simp_all
  show ?thesis
    unfolding proto_GetNetworkByIndex_def option.case Let_def z if_False simp_thms if_True p(1) p(2) [OF ne] sum.case NumBytes_get
    using g by simp
qed

lemma fits_mal: "malloc_total mal \<Longrightarrow> \<exists>blk. mal n = Some blk \<and> length blk = n"
  by (auto simp: malloc_total_def)

text \<open>Packing: the record body with its length in front fills the buffer.\<close>

lemma pack_network_ok:
  assumes mal: "malloc_total mal" and b: "protobuf_c_message_pack desc m = b" "field_ok b" "2 \<le> length b" and m: "no_null_elements desc m"
  shows "proto_pack_network mal desc m = Inr (lv b, of_nat (length (lv b)))"
proof -
  define n where "n = (of_nat (length b) :: u32)"
  have sz: "protobuf_c_message_get_packed_size desc m = Inr (length b)" using packed_size_length [of desc m] b(1) m by simp
  have u: "unat n = length b" using b(2) unfolding n_def field_ok_def by (intro unat_of_nat_u32) simp
  have nz: "(n = 0) = False" using u b(3) by (auto simp: word_unat_eq_iff)
  have "n + of_int (UtilityGetTLV_LL_from_len n) = of_nat (length (lv b))"
    using stored_len_lv [of b] by (simp add: stored_len_def n_def)
  moreover have "unat (of_nat (length (lv b)) :: u32) = length (lv b)"
    using length_lv_bounds(2) [of b] b(2) by (intro unat_of_nat_u32) (simp add: field_ok_def)
  ultimately have l: "unat (n + of_int (UtilityGetTLV_LL_from_len n)) = length (lv b)" by simp
  obtain blk where blk: "mal (length (lv b)) = Some blk" "length blk = length (lv b)" using fits_mal [OF mal] by blast
  have p: "buf_put blk 0 b = Inr (b @ drop (length b) blk)" using blk(2) length_lv_bounds(1) [of b] by (simp add: buf_put_def)
  have "length (lv b) = length (b @ drop (length b) blk)" using blk(2) length_lv_bounds(1) [of b] by simp
  from wrap_record [OF mal b(2) this]
  obtain r where w: "add_L_withOffset mal (b @ drop (length b) blk) 0 n = Inr (r, lv b, of_nat (length (lv b)))"
    unfolding n_def by blast
  show ?thesis
    unfolding proto_pack_network_def sz bindR_simps Let_def b(1) n_def [symmetric] nz guardR_simps l blk(1) option.case p bindR_simps w prod.case ..
qed

context proto_writer
begin

lemma record_ok: "ok_net d \<Longrightarrow> rec_ok (proto_record N body d)"
  using body_sized by (simp add: rec_ok_def)

lemma record_size: "length (network_enc (proto_record N body d)) = proto_capacity body d"
  by (simp add: network_enc_def proto_capacity_def)

lemma data_ok:
  assumes "malloc_total mal" "ok_net d"
  shows "proto_Get_Network_Data N mal d = Inr (lv (body d), of_nat (length (lv (body d))))"
  using to_message [OF assms] body_sized [OF assms(2)] pack_network_ok [OF assms(1)]
  by (auto simp: proto_Get_Network_Data_def)

lemma store:
  assumes ok: "nvram_ok s" and mal: "malloc_total mal" and t: "t \<noteq> BOAT_STORE_TYPE_UNKNOWN"
    and num: "read_num (area_rd BOAT_STORE_NETWORK t) s = Inr num" "unat num < 5" "length rs = (if t = BOAT_STORE_TYPE_RAM then 0 else unat num)"
    and rs: "holds_prefix network_enc rs (area_content BOAT_STORE_NETWORK t s)" "list_all rec_ok rs" and d: "ok_net d"
    and fit: "4 + length (concat (map network_enc rs)) + proto_capacity body d \<le> area_cap BOAT_STORE_NETWORK t"
  shows "\<exists>s'. proto_NetworkDataCtx_Store N mal d t s = (Inr (), s') \<and> nvram_ok s' \<and> area_frame BOAT_STORE_NETWORK t s s' \<and>
    holds network_enc (rs @ [proto_record N body d]) (area_content BOAT_STORE_NETWORK t s')"
proof -
  note A = network_area [OF mal t]
  let ?rd = "area_rd BOAT_STORE_NETWORK t" and ?wr = "area_wr mal BOAT_STORE_NETWORK t" and ?c = "area_content BOAT_STORE_NETWORK t"
  let ?p = "protocol_rep (pn_protocol N)" and ?i = "[pn_index N d]" and ?b = "lv (body d)" and ?off = "4 + length (concat (map network_enc rs))"
  have e: "network_enc (proto_record N body d) = ?p @ ?i @ ?b" by (simp add: network_enc_def)
  have skip: "skip_networks ?rd (length rs) 4 s = Inr (of_nat ?off)"
  proof (cases "rs = []")
    case False
    then have "concat (map network_enc rs) \<noteq> []" using rs(2) network_enc_ne by (cases rs) auto
    then obtain pre rest where p: "?c s = pre @ concat (map network_enc rs) @ rest" "length pre = 4" using holds_prefix_split [OF rs(1)] by blast
    then show ?thesis using storage_area.skip_networks_ok [OF A ok p(1) rs(2)] by simp
  qed simp
  define num' where "num' = (if t = BOAT_STORE_TYPE_RAM then 0 else num)"
  have n': "num' = of_nat (length rs)" "unat num' = length rs" using num(3) by (auto simp: num'_def)
  have fit': "?off + length ?p + length ?i + length ?b \<le> area_cap BOAT_STORE_NETWORK t" using fit by (simp add: proto_capacity_def)
  have bne: "?b \<noteq> []" using length_lv_bounds(1) [of "body d"] by auto
  obtain s1 where s1: "?wr (of_nat ?off) ?p s = (Inr (), s1)" "nvram_ok s1" "area_frame BOAT_STORE_NETWORK t s s1" "?c s1 = overlay (?c s) ?off ?p"
    using storage_area.wr_ok [OF A ok protocol_rep_ne, of ?off] fit' by auto
  obtain s2 where s2: "?wr (of_nat (?off + length ?p)) ?i s1 = (Inr (), s2)" "nvram_ok s2" "area_frame BOAT_STORE_NETWORK t s s2"
      "?c s2 = overlay (?c s) ?off (?p @ ?i)"
    using storage_area.wr_behind [OF A ok protocol_rep_ne _ _ s1(2-4), of ?i] fit' by auto
  obtain s3 where s3: "?wr (of_nat (?off + length (?p @ ?i))) ?b s2 = (Inr (), s3)" "nvram_ok s3" "area_frame BOAT_STORE_NETWORK t s s3"
      "?c s3 = overlay (?c s) ?off (network_enc (proto_record N body d))"
    using storage_area.wr_behind [OF A ok _ bne _ s2(2-4)] fit' e by auto
  have "length rs < 255" using num(2,3) by auto
  then obtain s4 where s4: "?wr 0 (utility_get_NumBytes (num' + 1)) s3 = (Inr (), s4)" "nvram_ok s4" "area_frame BOAT_STORE_NETWORK t s s4"
      "holds network_enc (rs @ [proto_record N body d]) (?c s4)"
    using storage_area.count_record [OF A ok rs(1) _ _ s3(2-4)] fit' e n'(1) by auto
  have o: "of_nat (?off + length ?p) = (of_nat ?off + 4 :: u32)" "of_nat (?off + length (?p @ ?i)) = (of_nat ?off + 4 + 1 :: u32)"
    by (simp_all add: add.commute add.left_commute)
  have sz: "length ?b < 4294967296" using length_lv_bounds(2) [of "body d"] body_sized [OF d] by (simp add: field_ok_def)
  have "proto_NetworkDataCtx_Store N mal d t s = (Inr (), s4)"
    using num(1,2) skip data_ok [OF mal d] s1(1) s2(1) [unfolded o] s3(1) [unfolded o] s4(1) n'(2) sz
      store_prefix [of ?b mal BOAT_STORE_NETWORK _ "[]" t]
    by (simp add: proto_NetworkDataCtx_Store_def Let_def bindS_def num'_def [symmetric])
  then show ?thesis using s4(2-4) by blast
qed

lemma create:
  assumes ok: "nvram_ok s" and mal: "malloc_total mal" and rs: "networks_in rs s" "length rs < 5"
    and mk: "\<And>i. mk i = Inr (d i) \<and> ok_net (d i) \<and> pn_index N (d i) = i"
    and room: "\<And>i. 4 + length (concat (map network_enc rs)) + proto_capacity body (d i) \<le> 5120"
  shows "\<exists>i s'. proto_create_with N mal mk BOAT_STORE_TYPE_FLASH s = (Inr i, s') \<and> i = of_nat (the (free_network_index rs)) \<and>
    persistent_index i \<and> i \<notin> rec_index ` set rs \<and> nvram_ok s' \<and> area_frame BOAT_STORE_NETWORK BOAT_STORE_TYPE_FLASH s s' \<and>
    networks_in (rs @ [proto_record N body (d i)]) s'"
proof -
  obtain j where j: "free_network_index rs = Some j" "persistent_index (of_nat j)" "(of_nat j :: u8) \<notin> rec_index ` set rs"
    using free_key_exists [of "map rec_index rs"] rs(2) by (auto simp: free_network_index_def)
  let ?d = "d (of_nat j)"
  have c: "mk (of_nat j) = Inr ?d" "ok_net ?d" "pn_index N ?d = of_nat j" using mk by simp_all
  have h: "holds network_enc rs (network_content s)" and k: "list_all rec_ok rs" using rs by (simp_all add: networks_in_def)
  have num: "read_num (area_rd BOAT_STORE_NETWORK BOAT_STORE_TYPE_FLASH) s = Inr (of_nat (length rs))"
    by (rule read_num_holds [OF flash_network_area [OF mal] ok h]) simp
  have u: "unat (of_nat (length rs) :: u8) = length rs" using rs(2) by (simp add: unat_of_nat)
  have "4 + length (concat (map network_enc rs)) + proto_capacity body ?d \<le> area_cap BOAT_STORE_NETWORK BOAT_STORE_TYPE_FLASH"
    using room [of "of_nat j"] by simp
  then obtain s' where s': "proto_NetworkDataCtx_Store N mal ?d BOAT_STORE_TYPE_FLASH s = (Inr (), s')" "nvram_ok s'"
      "area_frame BOAT_STORE_NETWORK BOAT_STORE_TYPE_FLASH s s'" "holds network_enc (rs @ [proto_record N body ?d]) (network_content s')"
    using store [OF ok mal _ num _ _ holds_prefix_holds [OF h] k c(2)] rs(2) u by auto
  have f: "GetFreeNetworkIndex_From_Persistent s = Inr j" using free_network_index_ok [OF ok rs(1)] rs(2) j(1) by simp
  have "proto_create_with N mal mk BOAT_STORE_TYPE_FLASH s = (Inr (of_nat j), s')"
    using f s'(1) c(1) by (simp add: proto_create_with_def bindS_def liftS_def)
  moreover have "networks_in (rs @ [proto_record N body ?d]) s'"
    using networks_in_add [OF rs record_ok [OF c(2)] _ _ s'(4)] j(2,3) c(3) by simp
  ultimately show ?thesis using s'(2,3) j by auto
qed

lemma create_onetime:
  assumes ok: "nvram_ok s" and mal: "malloc_total mal" and os: "onetime_network_in os s"
    and mk: "mk 0 = Inr d" "ok_net d" "pn_index N d = 0" and room: "4 + proto_capacity body d \<le> 1024"
  shows "\<exists>s'. proto_create_with N mal mk BOAT_STORE_TYPE_RAM s = (Inr 0, s') \<and> nvram_ok s' \<and>
    area_frame BOAT_STORE_NETWORK BOAT_STORE_TYPE_RAM s s' \<and> onetime_network_in [proto_record N body d] s'"
proof -
  have h: "holds network_enc os (onetime_network_content s)" and l: "length os \<le> 1" using os by (simp_all add: onetime_network_in_def)
  have num: "read_num (area_rd BOAT_STORE_NETWORK BOAT_STORE_TYPE_RAM) s = Inr (of_nat (length os))"
    by (rule read_num_holds [OF ram_network_area [OF mal] ok h]) simp
  have u: "unat (of_nat (length os) :: u8) < 5" using l unfolding unat_of_nat by simp
  have "4 + length (concat (map network_enc [])) + proto_capacity body d \<le> area_cap BOAT_STORE_NETWORK BOAT_STORE_TYPE_RAM"
    using room by simp
  then obtain s' where s': "proto_NetworkDataCtx_Store N mal d BOAT_STORE_TYPE_RAM s = (Inr (), s')" "nvram_ok s'"
      "area_frame BOAT_STORE_NETWORK BOAT_STORE_TYPE_RAM s s'" "holds network_enc [proto_record N body d] (onetime_network_content s')"
    using store [OF ok mal _ num u, of "[]" d] mk(2) by (auto simp: holds_prefix_def)
  have "proto_create_with N mal mk BOAT_STORE_TYPE_RAM s = (Inr 0, s')"
    using s'(1) mk(1) by (simp add: proto_create_with_def bindS_def liftS_def)
  moreover have "onetime_network_in [proto_record N body d] s'"
    using s'(4) record_ok [OF mk(2)] mk(3) by (simp add: onetime_network_in_def)
  ultimately show ?thesis using s'(2,3) by auto
qed

end

context proto_network
begin

lemma read_ok:
  assumes "malloc_total mal" "ok_net d" "fits old"
  shows "\<exists>m. protobuf_c_message_unpack (pn_descriptor N) (body d) = Some m \<and> proto_read N mal m old = (Inr (), into d old)"
  using from_message [OF assms] by (auto simp: proto_read_def catchS_def)

lemma from_nvram:
  assumes A: "storage_area rd wr ok content cap frame" and s: "ok s" and c: "content s = pre @ lv (body d) @ post"
    and d: "ok_net d" "malloc_total mal" "fits old"
  shows "proto_GetNetworkFromNvram N mal rd (of_nat (length pre)) s old = (Inr (of_nat (length (lv (body d)))), into d old)"
proof -
  obtain m where m: "protobuf_c_message_unpack (pn_descriptor N) (body d) = Some m" "proto_read N mal m old = (Inr (), into d old)"
    using read_ok [OF d(2,1,3)] by blast
  show ?thesis
    using proto_from_nvram [where N = N, OF A s c _ _ d(2) m(1), of old] body_sized [OF d(1)] m(2) by (simp add: bindS_def liftS_def)
qed

lemma found:
  assumes "nvram_ok s" "networks_in rs s" "proto_record N body d \<in> set rs" "ok_net d" "malloc_total mal" "fits old"
  shows "proto_GetNetworkByIndex N mal (pn_index N d) s (Some old) = (Inr (), Some (into d old))"
  using read_ok [OF assms(5,4,6)] proto_found [where N = N, OF assms(1-3) _ assms(5), of _ old] by auto

lemma get_onetime:
  assumes "nvram_ok s" "onetime_network_in [proto_record N body d] s" "ok_net d" "malloc_total mal" "fits old"
  shows "proto_GetNetworkByIndex N mal 0 s (Some old) = (Inr (), Some (into d old))"
  using read_ok [OF assms(4,3,5)] proto_found_onetime [where N = N, OF assms(1,2) _ assms(4), of _ old] by auto

lemma list_loop:
  assumes A: "storage_area rd wr ok content cap frame" and s: "ok s" and mal: "malloc_total mal"
    and c: "content s = pre @ concat (map network_enc rs) @ post" "list_all rec_ok rs" "proto_own_networks N ok_net body rs ds"
      "list_all fits (pc_networks nl)" "slot + length ds \<le> length (pc_networks nl)"
  shows "proto_network_list_loop N mal rd (length rs) slot (of_nat (length pre)) s nl =
    (Inr (slot + length ds), nl\<lparr>pc_networks := fill_protos into slot ds (pc_networks nl)\<rparr>) \<and>
    list_all fits (fill_protos into slot ds (pc_networks nl))"
  using c
proof (induction rs arbitrary: pre slot ds nl)
  case Nil
  then have "ds = []" by (simp add: proto_own_networks_def)
  then show ?case using Nil.prems by simp
next
  case (Cons r rs)
  have r: "rec_ok r" and c: "content s = pre @ network_enc r @ concat (map network_enc rs) @ post" using Cons.prems by simp_all
  note n = storage_area.network_at [OF A s c r]
  have sh: "content s = (pre @ network_enc r) @ concat (map network_enc rs) @ post" "list_all rec_ok rs"
    using Cons.prems by simp_all
  show ?case
  proof (cases "rec_protocol r = protocol_rep (pn_protocol N)")
    case True
    then obtain d ds' where d: "ds = d # ds'" "ok_net d" "r = proto_record N body d" "proto_own_networks N ok_net body rs ds'"
      using Cons.prems(3) by (auto simp: proto_own_networks_Cons)
    let ?e = "pc_networks nl ! slot"
    let ?nl = "nl\<lparr>pc_networks := (pc_networks nl)[slot := into d ?e]\<rparr>"
    have e: "fits ?e" using Cons.prems(4,5) d(1) by (auto simp: list_all_iff)
    have "content s = (pre @ rec_protocol r @ [rec_index r]) @ lv (body d) @ concat (map network_enc rs) @ post"
      using c by (simp add: network_enc_def d(3))
    from from_nvram [OF A s this d(2) mal e]
    have g: "proto_GetNetworkFromNvram N mal rd (of_nat (length pre) + 4 + 1) s ?e = (Inr (of_nat (length (lv (body d)))), into d ?e)"
      using r by (simp add: rec_ok_def add.commute add.left_commute)
    have o: "of_nat (length pre) + 4 + 1 + of_nat (length (lv (body d))) = (of_nat (length (pre @ network_enc r)) :: u32)"
      by (simp add: network_enc_def d(3))
    have IH: "proto_network_list_loop N mal rd (length rs) (slot + 1) (of_nat (length (pre @ network_enc r))) s ?nl =
        (Inr (slot + 1 + length ds'), ?nl\<lparr>pc_networks := fill_protos into (slot + 1) ds' (pc_networks ?nl)\<rparr>) \<and>
        list_all fits (fill_protos into (slot + 1) ds' (pc_networks ?nl))"
      using Cons.prems d e by (intro Cons.IH [OF sh d(4)]) (simp_all add: list_all_update fits_into)
    have "\<not> length (pc_networks nl) \<le> slot" using Cons.prems(5) d(1) by simp
    then have "proto_network_list_loop N mal rd (length (r # rs)) slot (of_nat (length pre)) s nl =
        proto_network_list_loop N mal rd (length rs) (slot + 1) (of_nat (length (pre @ network_enc r))) s ?nl"
      unfolding length_Cons proto_network_list_loop.simps
      by (simp only: n(1) sum.case Let_def True simp_thms if_True if_False g prod.case o)
    then show ?thesis using IH d(1) by simp
  next
    case False
    then have d: "proto_own_networks N ok_net body rs ds" using Cons.prems(3) by (simp add: proto_own_networks_Cons)
    obtain b where b: "read_len rd (of_nat (length pre) + 4 + 1) s =
      Inr (b, of_nat (length (rec_body r)), of_nat (length (L_bytes (of_nat (length (rec_body r))))))" using n(3) by blast
    have "proto_network_list_loop N mal rd (length (r # rs)) slot (of_nat (length pre)) s nl =
        proto_network_list_loop N mal rd (length rs) slot (of_nat (length (pre @ network_enc r))) s nl"
      unfolding length_Cons proto_network_list_loop.simps
      by (simp only: n(1,4) b sum.case Let_def False if_False prod.case)
    then show ?thesis using Cons.IH [OF sh d Cons.prems(4,5)] by simp
  qed
qed

lemma list_area:
  assumes A: "storage_area rd wr nvram_ok content cap frame" and ok: "nvram_ok s" and mal: "malloc_total mal"
    and h: "holds network_enc rs (content s)" and k: "list_all rec_ok rs" and o: "proto_own_networks N ok_net body rs ds"
    and nl: "list_all fits (pc_networks nl)" "slot + length ds \<le> length (pc_networks nl)"
  shows "proto_network_list_loop N mal rd (length rs) slot 4 s nl =
    (Inr (slot + length ds), nl\<lparr>pc_networks := fill_protos into slot ds (pc_networks nl)\<rparr>) \<and>
    list_all fits (fill_protos into slot ds (pc_networks nl))"
proof (cases "rs = []")
  case True
  then have "ds = []" using o by (simp add: proto_own_networks_def)
  then show ?thesis using True nl by simp
next
  case False
  then obtain pre rest where p: "content s = pre @ concat (map network_enc rs) @ rest" "length pre = 4"
    using holds_split [OF h] by blast
  then show ?thesis using list_loop [OF A ok mal p(1) k o nl] by simp
qed

lemma list_start:
  assumes ok: "nvram_ok s" and mal: "malloc_total mal" and rs: "networks_in rs s" "proto_own_networks N ok_net body rs ds"
    and os: "onetime_network_in os s"
    and nl: "length ds \<le> length (pc_networks nl)" "list_all fits (pc_networks nl)"
  shows "read_num (area_rd BOAT_STORE_NETWORK BOAT_STORE_TYPE_FLASH) s = Inr (of_nat (length rs))"
    "read_num (area_rd BOAT_STORE_NETWORK BOAT_STORE_TYPE_RAM) s = Inr (of_nat (length os))"
    "unat (of_nat (length rs) :: u8) = length rs" "unat (of_nat (length os) :: u8) = length os"
    "proto_network_list_loop N mal (area_rd BOAT_STORE_NETWORK BOAT_STORE_TYPE_FLASH) (length rs) 0 4 s (nl\<lparr>pc_networkNum := of_nat (length rs)\<rparr>) =
      (Inr (length ds), nl\<lparr>pc_networkNum := of_nat (length rs), pc_networks := fill_protos into 0 ds (pc_networks nl)\<rparr>)"
    "list_all fits (fill_protos into 0 ds (pc_networks nl))"
proof -
  note F = flash_network_area [OF heap_all_total]
  have h: "holds network_enc rs (network_content s)" "list_all rec_ok rs" "length rs \<le> 5" and l: "length os \<le> 1"
    using rs(1) os by (simp_all add: networks_in_def onetime_network_in_def)
  show "read_num (area_rd BOAT_STORE_NETWORK BOAT_STORE_TYPE_FLASH) s = Inr (of_nat (length rs))" by (rule read_num_holds [OF F ok h(1)]) simp
  show "read_num (area_rd BOAT_STORE_NETWORK BOAT_STORE_TYPE_RAM) s = Inr (of_nat (length os))" by (rule onetime_num(3) [OF ok os])
  show "unat (of_nat (length rs) :: u8) = length rs" "unat (of_nat (length os) :: u8) = length os"
    using h(3) l unfolding unat_of_nat by simp_all
  show "proto_network_list_loop N mal (area_rd BOAT_STORE_NETWORK BOAT_STORE_TYPE_FLASH) (length rs) 0 4 s (nl\<lparr>pc_networkNum := of_nat (length rs)\<rparr>) =
      (Inr (length ds), nl\<lparr>pc_networkNum := of_nat (length rs), pc_networks := fill_protos into 0 ds (pc_networks nl)\<rparr>)"
    "list_all fits (fill_protos into 0 ds (pc_networks nl))"
    using list_area [OF F ok mal h(1,2) rs(2), of "nl\<lparr>pc_networkNum := of_nat (length rs)\<rparr>" 0] nl by simp_all
qed

lemma list_filled:
  assumes ok: "nvram_ok s" and mal: "malloc_total mal" and rs: "networks_in rs s" "proto_own_networks N ok_net body rs ds"
    and os: "onetime_network_in os s" "proto_own_networks N ok_net body os es"
    and nl: "length ds + length es \<le> length (pc_networks nl)" "list_all fits (pc_networks nl)"
  shows "proto_GetNetworkList N mal s (Some nl) = (Inr (), Some (nl\<lparr>pc_networkNum := of_nat (length rs + length os),
     pc_networks := fill_protos into (length ds) es (fill_protos into 0 ds (pc_networks nl))\<rparr>))"
proof -
  note R = ram_network_area [OF heap_all_total]
  have g: "holds network_enc os (onetime_network_content s)" "list_all rec_ok os" using os(1) by (simp_all add: onetime_network_in_def)
  have nl1: "length ds \<le> length (pc_networks nl)" using nl(1) by simp
  note S = list_start [OF ok mal rs os(1) nl1 nl(2)]
  have l2: "proto_network_list_loop N mal (area_rd BOAT_STORE_NETWORK BOAT_STORE_TYPE_RAM) (length os) (length ds) 4 s
      (nl\<lparr>pc_networkNum := of_nat (length rs) + of_nat (length os), pc_networks := fill_protos into 0 ds (pc_networks nl)\<rparr>) =
      (Inr (length ds + length es), nl\<lparr>pc_networkNum := of_nat (length rs) + of_nat (length os),
         pc_networks := fill_protos into (length ds) es (fill_protos into 0 ds (pc_networks nl))\<rparr>)"
    using list_area [OF R ok mal g os(2), of "nl\<lparr>pc_networkNum := of_nat (length rs) + of_nat (length os),
      pc_networks := fill_protos into 0 ds (pc_networks nl)\<rparr>" "length ds"] nl S(6) by simp
  show ?thesis
    using S l2 onetime_num(1) [OF ok os(1)] by (cases nl) (simp add: proto_GetNetworkList_def Let_def bindS_def liftS_def updS_def)
qed

text \<open>With every slot filled by the persistent networks of the chain, its one-time network is written behind the array.\<close>

lemma list_overflow:
  assumes ok: "nvram_ok s" and mal: "malloc_total mal" and rs: "networks_in rs s" "proto_own_networks N ok_net body rs ds"
    and os: "onetime_network_in [proto_record N body e] s"
    and nl: "length ds = length (pc_networks nl)" "list_all fits (pc_networks nl)"
  shows "fst (proto_GetNetworkList N mal s (Some nl)) = Inl UB"
proof -
  note R = ram_network_area [OF heap_all_total]
  have nl1: "length ds \<le> length (pc_networks nl)" using nl(1) by simp
  note S = list_start [OF ok mal rs os nl1 nl(2)]
  have g: "holds network_enc [proto_record N body e] (onetime_network_content s)" and r: "rec_ok (proto_record N body e)"
    using os by (simp_all add: onetime_network_in_def)
  obtain pre rest where p: "onetime_network_content s = pre @ network_enc (proto_record N body e) @ rest" "length pre = 4"
    using holds_split [OF g] by auto
  note n = storage_area.network_at [OF R ok p(1) r]
  have "area_rd BOAT_STORE_NETWORK BOAT_STORE_TYPE_RAM 4 4 4 s = Inr (protocol_rep (pn_protocol N))" using n(1) p(2) by simp
  then have l2: "proto_network_list_loop N mal (area_rd BOAT_STORE_NETWORK BOAT_STORE_TYPE_RAM) (Suc 0) (length ds) 4 s nl' = (Inl UB, nl')"
    if "length (pc_networks nl') = length ds" for nl' using that by simp
  show ?thesis
    using S l2 nl(1) by (cases nl) (simp add: proto_GetNetworkList_def Let_def bindS_def liftS_def updS_def)
qed

end

subsection \<open>Messages of networks\<close>

text \<open>What packing and unpacking makes of a string: empty strings become the shared one.\<close>

definition norm_string :: "ProtobufCString \<Rightarrow> ProtobufCString" where
  "norm_string u = (if str_content u = [] then EmptyString else Str (str_content u))"

lemma takeWhile_twice: "takeWhile P (takeWhile P xs) = takeWhile P xs"
  using set_takeWhileD by (fastforce simp: takeWhile_eq_all_conv)

lemma str_content_norm [simp]: "str_content (norm_string u) = str_content u"
  by (cases u) (simp_all add: norm_string_def takeWhile_twice)

lemma norm_string_Str: "0 \<notin> set u \<Longrightarrow> str_content (Str u) = u"
  by (simp add: takeWhile_eq_all_conv) (metis)

lemma field_norm_simps [simp]:
  "field_norm sub PROTOBUF_C_LABEL_NONE PROTOBUF_C_TYPE_UINT32 (Word32 x) = Word32 x"
  "field_norm sub PROTOBUF_C_LABEL_NONE PROTOBUF_C_TYPE_STRING (String u) = String (norm_string u)"
  "field_norm sub PROTOBUF_C_LABEL_NONE PROTOBUF_C_TYPE_BYTES (Bytes b) = Bytes b"
  by (simp_all add: field_norm_def norm_string_def)

lemma byte_word32: "(ucast (ucast (x :: u8) :: u32) :: u8) = x"
  by (rule bit_word_eqI) (simp add: bit_simps)

lemma uint32_size_le: "uint32_size x \<le> 5"
  by (simp add: uint32_size_def)

lemmas length_required = required_field_pack_def length_pack prefixed_size_def

lemma field_pack_bounds:
  "length (field_pack_with sub k PROTOBUF_C_LABEL_NONE PROTOBUF_C_TYPE_UINT32 (Word32 x)) \<le> get_tag_size k + 5"
  "length (field_pack_with sub k PROTOBUF_C_LABEL_NONE PROTOBUF_C_TYPE_STRING (String u)) \<le> get_tag_size k + 5 + length (str_content u)"
  "length (field_pack_with sub k PROTOBUF_C_LABEL_NONE PROTOBUF_C_TYPE_BYTES (Bytes b)) \<le> get_tag_size k + 5 + length b"
  using uint32_size_le by (auto simp: field_pack_with_def length_required)

subsection \<open>Pointers to blocks\<close>

text \<open>A pointer member: null, to a live block, or to one that has been freed.\<close>

datatype 'a pointer = NullPtr | Ptr 'a | Dangling

text \<open>Freeing what a pointer names unless it is null; the pointer keeps its value. Freeing a block twice is undefined.\<close>

fun free_pointer :: "'a pointer \<Rightarrow> 'a pointer res" where
  "free_pointer NullPtr = Inr NullPtr"
| "free_pointer (Ptr b) = Inr Dangling"
| "free_pointer Dangling = Inl UB"

text \<open>The C string a pointer names, the member of a message that is given the pointer, and the copy of a string in a new block.\<close>

fun pointer_string :: "bytes pointer \<Rightarrow> bytes res" where
  "pointer_string (Ptr b) = c_string b"
| "pointer_string _ = Inl UB"

fun message_string :: "bytes pointer \<Rightarrow> ProtobufCString res" where
  "message_string NullPtr = Inr NullString"
| "message_string (Ptr b) = bindR (c_string b) (\<lambda>s. Inr (Str s))"
| "message_string Dangling = Inl UB"

definition string_block :: "(nat \<Rightarrow> bytes option) \<Rightarrow> bytes \<Rightarrow> bytes pointer res" where
  "string_block mal s =
     (case mal (length s + 1) of
        None \<Rightarrow> Inl UB
      | Some b \<Rightarrow> bindR (buf_put b 0 (s @ [0])) (\<lambda>b'. Inr (Ptr b')))"

definition pointer_text :: "bytes pointer \<Rightarrow> bytes" where
  "pointer_text p = (case p of Ptr b \<Rightarrow> takeWhile (\<lambda>x. x \<noteq> 0) b | _ \<Rightarrow> [])"

definition is_string :: "bytes pointer \<Rightarrow> bool" where
  "is_string p \<longleftrightarrow> (\<exists>b. p = Ptr b \<and> 0 \<in> set b)"

lemma string_block_ok: "malloc_total mal \<Longrightarrow> string_block mal s = Inr (Ptr (s @ [0]))"
  using fits_mal [of mal "length s + 1"] by (auto simp: string_block_def buf_put_def)

lemma is_string_ok:
  assumes "is_string p"
  shows "pointer_string p = Inr (pointer_text p)" "message_string p = Inr (Str (pointer_text p))"
  using assms by (auto simp: is_string_def pointer_text_def c_string_def)

lemma str_content_text:
  "str_content (Str (takeWhile (\<lambda>x. x \<noteq> 0) b)) = takeWhile (\<lambda>x. x \<noteq> 0) b" "str_content (Str (pointer_text p)) = pointer_text p"
  by (simp_all only: str_content.simps takeWhile_twice pointer_text_def pointer.case split: pointer.split) simp_all

lemma pointer_text_block: "0 \<notin> set s \<Longrightarrow> pointer_text (Ptr (s @ [0])) = s"
  by (auto simp: pointer_text_def takeWhile_append)

lemma text_no_zero: "0 \<notin> set (takeWhile (\<lambda>x. x \<noteq> 0) (b :: bytes))" "0 \<notin> set (pointer_text p)"
  using set_takeWhileD [of "0 :: u8" "\<lambda>x. x \<noteq> 0"] by (auto simp: pointer_text_def split: pointer.splits)

subsection \<open>Certificates\<close>

abbreviation CERT_MAX_LEN :: nat where "CERT_MAX_LEN \<equiv> 1024"

text \<open>Certificates and the private key of the client for TLS: a length and an array of 1024 or 512 bytes, \<open>BoatChainmakerCertInfoCfg\<close>,
  \<open>BoatHlfabricCertInfoCfg\<close>, \<open>BoatHwbcsCertInfoCfg\<close> and \<open>BoatKeypairExtraData\<close> in the code.\<close>

record CertInfoCfg =
  cert_length :: u32
  cert_content :: bytes

definition copy_cert :: "bytes \<Rightarrow> CertInfoCfg \<Rightarrow> CertInfoCfg res" where
  "copy_cert s c = bindR (buf_put (cert_content c) 0 (s @ [0])) (\<lambda>b. Inr \<lparr>cert_length = of_nat (length s), cert_content = b\<rparr>)"

text \<open>The test of the length before a TLS certificate is copied, as the code has it: \<open>strlen(s) - 1 > limit\<close>, in unsigned arithmetic.\<close>

definition tls_too_long :: "bytes \<Rightarrow> nat \<Rightarrow> bool" where
  "tls_too_long s limit \<longleftrightarrow> of_nat limit < (of_nat (length s) - 1 :: u64)"

text \<open>A string of the message goes to an array or to a block of its own.\<close>

definition copy_member ::
  "('d \<Rightarrow> CertInfoCfg) \<Rightarrow> (CertInfoCfg \<Rightarrow> 'd \<Rightarrow> 'd) \<Rightarrow> ProtobufCString \<Rightarrow> 'd \<Rightarrow> unit res \<times> 'd" where
  "copy_member get put s d = (case copy_cert (str_content s) (get d) of Inl e \<Rightarrow> (Inl e, d) | Inr c \<Rightarrow> (Inr (), put c d))"

definition block_member :: "(nat \<Rightarrow> bytes option) \<Rightarrow> (bytes pointer \<Rightarrow> 'd \<Rightarrow> 'd) \<Rightarrow> ProtobufCString \<Rightarrow> 'd \<Rightarrow> unit res \<times> 'd" where
  "block_member mal put s d = (case string_block mal (str_content s) of Inl e \<Rightarrow> (Inl e, d) | Inr p \<Rightarrow> (Inr (), put p d))"

definition check_length :: "bool \<Rightarrow> 'd \<Rightarrow> unit res \<times> 'd" where
  "check_length bad = liftS (guardR bad BOAT_ERROR_COMMON_OUT_OF_MEMORY (Inr ()))"

definition cert_text :: "CertInfoCfg \<Rightarrow> bytes" where
  "cert_text c = takeWhile (\<lambda>x. x \<noteq> 0) (cert_content c)"

definition cert_ok :: "nat \<Rightarrow> CertInfoCfg \<Rightarrow> bool" where
  "cert_ok n c \<longleftrightarrow> length (cert_content c) = n \<and> 0 \<in> set (cert_content c)"

definition read_cert :: "CertInfoCfg \<Rightarrow> CertInfoCfg \<Rightarrow> CertInfoCfg" where
  "read_cert c old = \<lparr>cert_length = of_nat (length (cert_text c)),
     cert_content = cert_text c @ [0] @ drop (length (cert_text c) + 1) (cert_content old)\<rparr>"

lemma cert_facts:
  assumes "cert_ok n c"
  shows "c_string (cert_content c) = Inr (cert_text c)" "length (cert_text c) < n" "str_content (Str (cert_text c)) = cert_text c"
  using assms takeWhile_less [of 0 "cert_content c" "\<lambda>x. x \<noteq> 0"]
  by (auto simp: cert_ok_def c_string_def cert_text_def takeWhile_twice)

lemma copy_member_ok:
  "length (str_content s) < length (cert_content (get d)) \<Longrightarrow> copy_member get put s d =
    (Inr (), put \<lparr>cert_length = of_nat (length (str_content s)),
       cert_content = str_content s @ [0] @ drop (length (str_content s) + 1) (cert_content (get d))\<rparr> d)"
  by (simp add: copy_member_def copy_cert_def buf_put_def)

lemma block_member_ok: "malloc_total mal \<Longrightarrow> block_member mal put s d = (Inr (), put (Ptr (str_content s @ [0])) d)"
  by (simp add: block_member_def string_block_ok)

lemma check_length_ok: "\<not> bad \<Longrightarrow> check_length bad d = (Inr (), d)"
  by (simp add: check_length_def liftS_def)

lemma tls_too_long_iff: "length s < 2 ^ 63 \<Longrightarrow> limit < 2 ^ 63 \<Longrightarrow> tls_too_long s limit \<longleftrightarrow> s = [] \<or> limit + 1 < length s"
proof -
  assume a: "length s < 2 ^ 63" "limit < 2 ^ 63"
  have u: "unat (of_nat limit :: u64) = limit" using a unfolding unat_of_nat by simp
  show ?thesis
  proof (cases s)
    case Nil
    have "(of_nat limit :: u64) < - 1" using u a by (simp add: word_less_nat_alt unsigned_minus_1_eq_mask mask_eq_exp_minus_1)
    then show ?thesis by (simp add: tls_too_long_def Nil)
  next
    case (Cons x xs)
    have "unat (of_nat (length s) - 1 :: u64) = length xs" using a Cons unfolding unat_of_nat by (simp add: unat_of_nat)
    then show ?thesis using u by (simp add: tls_too_long_def word_less_nat_alt Cons)
  qed
qed

lemma text_contents:
  "str_content (norm_string (Str (cert_text c))) = cert_text c" "str_content (norm_string (Str (pointer_text p))) = pointer_text p"
  by (simp_all only: str_content_norm cert_text_def str_content_text)

end
