(* ===== verification/Boat_CitaNetwork.thy ===== *)
theory Boat_CitaNetwork
  imports Boat_ProtoNetwork
begin

text \<open>
  The network store of CITA (\<open>sdk/network/cita/network_cita.c\<close>): the data of a network, its message, and the functions of the
  common program for this chain.
\<close>

subsection \<open>The tables of \<open>cita_network.pb-c.c\<close>\<close>

definition common__cita_network_data__descriptor :: ProtobufCMessageDescriptor where
  "common__cita_network_data__descriptor = MessageDescriptor ''common.citaNetworkData''
     [FieldDescriptor ''index'' 1 PROTOBUF_C_LABEL_NONE PROTOBUF_C_TYPE_UINT32 None,
      FieldDescriptor ''version'' 2 PROTOBUF_C_LABEL_NONE PROTOBUF_C_TYPE_UINT32 None,
      FieldDescriptor ''node_url_str'' 3 PROTOBUF_C_LABEL_NONE PROTOBUF_C_TYPE_STRING None,
      FieldDescriptor ''chain_id_str'' 4 PROTOBUF_C_LABEL_NONE PROTOBUF_C_TYPE_BYTES None]
     [3, 0, 2, 1]
     [(1, 0), (0, 4)]"

definition common__cita_networks__descriptor :: ProtobufCMessageDescriptor where
  "common__cita_networks__descriptor = MessageDescriptor ''common.citaNetworks''
     [FieldDescriptor ''networkNum'' 1 PROTOBUF_C_LABEL_NONE PROTOBUF_C_TYPE_UINT32 None,
      FieldDescriptor ''networks'' 2 PROTOBUF_C_LABEL_NONE PROTOBUF_C_TYPE_MESSAGE (Some common__cita_network_data__descriptor)]
     [0, 1]
     [(1, 0), (0, 2)]"

subsection \<open>Data\<close>

abbreviation BOAT_CITA_NODE_URL_MAX_LEN :: nat where "BOAT_CITA_NODE_URL_MAX_LEN \<equiv> 127"
abbreviation BOAT_CITA_CHAIN_ID_V1_SIZE :: nat where "BOAT_CITA_CHAIN_ID_V1_SIZE \<equiv> 32"

text \<open>The URL is the array of 127 bytes, the chain id that of 32.\<close>

record BoatCitaNetworkConfig =
  cita_cfg_version :: u32
  cita_cfg_chain_id_buf :: bytes
  cita_cfg_node_url_buf :: bytes

record BoatCitaNetworkData =
  cita_networkIndex :: u8
  cita_version :: u32
  cita_chain_id_buf :: bytes
  cita_node_url_buf :: bytes

subsection \<open>Operations\<close>

definition BoATCita_getNetworkFromProto :: "ProtobufCMessage \<Rightarrow> BoatCitaNetworkData \<Rightarrow> unit res \<times> BoatCitaNetworkData" where
  "BoATCita_getNetworkFromProto m d =
     (case members m of
        [Word32 index, Word32 version, String url, Bytes cid] \<Rightarrow>
          let d = d\<lparr>cita_networkIndex := ucast index, cita_version := version\<rparr> in
          if BOAT_CITA_NODE_URL_MAX_LEN < length (str_content url) then (Inl (Err BOAT_ERROR_COMMON_OUT_OF_MEMORY), d)
          else if BOAT_CITA_CHAIN_ID_V1_SIZE < length cid then (Inl (Err BOAT_ERROR_COMMON_OUT_OF_MEMORY), d)
          else
            (case buf_put (cita_node_url_buf d) 0 (str_content url @ [0]) of
               Inl e \<Rightarrow> (Inl e, d)
             | Inr u \<Rightarrow>
                 let d = d\<lparr>cita_node_url_buf := u\<rparr> in
                 (case buf_put (cita_chain_id_buf d) 0 cid of
                    Inl e \<Rightarrow> (Inl e, d)
                  | Inr c \<Rightarrow> (Inr (), d\<lparr>cita_chain_id_buf := c\<rparr>)))
      | _ \<Rightarrow> (Inl UB, d))"

text \<open>The message that \<open>BoATCita_Get_Network_Data\<close> packs.\<close>

definition cita_message :: "BoatCitaNetworkData \<Rightarrow> ProtobufCMessage res" where
  "cita_message d =
     bindR (c_string (cita_node_url_buf d)) (\<lambda>url.
       Inr (Message
         [Word32 (ucast (cita_networkIndex d)), Word32 (cita_version d), String (Str url), Bytes (take BOAT_CITA_CHAIN_ID_V1_SIZE (cita_chain_id_buf d))] []))"

definition cita_network :: "BoatCitaNetworkData ProtoNetwork" where
  "cita_network = \<lparr>pn_protocol = BOAT_PROTOCOL_CITA, pn_descriptor = common__cita_network_data__descriptor, pn_index = cita_networkIndex,
     pn_to_message = \<lambda>mal d. cita_message d, pn_from_message = \<lambda>mal m d. BoATCita_getNetworkFromProto m d\<rparr>"

definition BoATCita_GetNetworkFromNvram ::
  "(nat \<Rightarrow> bytes option) \<Rightarrow> (nat \<Rightarrow> u32 \<Rightarrow> u32 \<Rightarrow> 's \<Rightarrow> bytes res) \<Rightarrow> u32 \<Rightarrow> 's \<Rightarrow> BoatCitaNetworkData \<Rightarrow> u32 res \<times> BoatCitaNetworkData" where
  "BoATCita_GetNetworkFromNvram = proto_GetNetworkFromNvram cita_network"

definition BoATCita_GetNetworkList ::
  "(nat \<Rightarrow> bytes option) \<Rightarrow> nvram \<Rightarrow> BoatCitaNetworkData ProtoContext option \<Rightarrow> unit res \<times> BoatCitaNetworkData ProtoContext option" where
  "BoATCita_GetNetworkList = proto_GetNetworkList cita_network"

definition BoATCita_GetFreeNetworkIndex_From_Persistent :: "nvram \<Rightarrow> nat res" where
  "BoATCita_GetFreeNetworkIndex_From_Persistent = GetFreeNetworkIndex_From_Persistent"

definition BoATCita_Get_Network_Data :: "(nat \<Rightarrow> bytes option) \<Rightarrow> BoatCitaNetworkData \<Rightarrow> (bytes \<times> u32) res" where
  "BoATCita_Get_Network_Data = proto_Get_Network_Data cita_network"

definition BoATCitaNetworkDataInit :: BoatCitaNetworkData where
  "BoATCitaNetworkDataInit = \<lparr>cita_networkIndex = 0, cita_version = 0,
     cita_chain_id_buf = replicate BOAT_CITA_CHAIN_ID_V1_SIZE 0, cita_node_url_buf = replicate BOAT_CITA_NODE_URL_MAX_LEN 0\<rparr>"

definition BoATCita_NetworkDataCtx_Store ::
  "(nat \<Rightarrow> bytes option) \<Rightarrow> BoatCitaNetworkData \<Rightarrow> BoatStoreType \<Rightarrow> nvram \<Rightarrow> unit res \<times> nvram" where
  "BoATCita_NetworkDataCtx_Store = proto_NetworkDataCtx_Store cita_network"

text \<open>The object that \<open>BoATCitaNetworkCreate\<close> fills for the index \<open>i\<close>.\<close>

definition cita_created :: "BoatCitaNetworkConfig \<Rightarrow> u8 \<Rightarrow> BoatCitaNetworkData res" where
  "cita_created cfg i =
     bindR (buf_put (cita_chain_id_buf BoATCitaNetworkDataInit) 0 (take BOAT_CITA_CHAIN_ID_V1_SIZE (cita_cfg_chain_id_buf cfg))) (\<lambda>c.
     bindR (c_string (cita_cfg_node_url_buf cfg)) (\<lambda>url.
     bindR (buf_put (cita_node_url_buf BoATCitaNetworkDataInit) 0 (url @ [0])) (\<lambda>u.
       Inr \<lparr>cita_networkIndex = i, cita_version = cita_cfg_version cfg, cita_chain_id_buf = c, cita_node_url_buf = u\<rparr>)))"

definition BoATCitaNetworkCreate ::
  "(nat \<Rightarrow> bytes option) \<Rightarrow> BoatCitaNetworkConfig option \<Rightarrow> BoatStoreType \<Rightarrow> nvram \<Rightarrow> u8 res \<times> nvram" where
  "BoATCitaNetworkCreate mal networkConfig storeType s =
     (case networkConfig of
        None \<Rightarrow> (Inl (Err BOAT_ERROR_COMMON_INVALID_ARGUMENT), s)
      | Some cfg \<Rightarrow> proto_create_with cita_network mal (cita_created cfg) storeType s)"

definition BoATCitaNetworkDelete :: "(nat \<Rightarrow> bytes option) \<Rightarrow> u8 \<Rightarrow> nvram \<Rightarrow> unit res \<times> nvram" where
  "BoATCitaNetworkDelete = NetworkDelete BOAT_PROTOCOL_CITA"

definition BoATCita_GetNetworkByIndex ::
  "(nat \<Rightarrow> bytes option) \<Rightarrow> u8 \<Rightarrow> nvram \<Rightarrow> BoatCitaNetworkData option \<Rightarrow> unit res \<times> BoatCitaNetworkData option" where
  "BoATCita_GetNetworkByIndex = proto_GetNetworkByIndex cita_network"

text \<open>The context is passed by value: the result is the copy inside the function, which its caller never sees.\<close>

definition BoATCita_FreeNetworkContext :: "BoatCitaNetworkData ProtoContext \<Rightarrow> BoatCitaNetworkData ProtoContext res" where
  "BoATCita_FreeNetworkContext networkList =
     (let n = unat (pc_networkNum networkList) in
      if n = 0 then Inr networkList
      else if length (pc_networks networkList) < n then Inl UB
      else Inr (networkList\<lparr>pc_networkNum := 0, pc_networks := replicate n BoATCitaNetworkDataInit @ drop n (pc_networks networkList)\<rparr>))"

subsection \<open>Reference notions\<close>

definition cita_url :: "BoatCitaNetworkData \<Rightarrow> bytes" where
  "cita_url d = takeWhile (\<lambda>x. x \<noteq> 0) (cita_node_url_buf d)"

definition cita_sized :: "BoatCitaNetworkData \<Rightarrow> bool" where
  "cita_sized d \<longleftrightarrow> length (cita_node_url_buf d) = BOAT_CITA_NODE_URL_MAX_LEN \<and> length (cita_chain_id_buf d) = BOAT_CITA_CHAIN_ID_V1_SIZE"

definition cita_ok :: "BoatCitaNetworkData \<Rightarrow> bool" where
  "cita_ok d \<longleftrightarrow> cita_sized d \<and> 0 \<in> set (cita_node_url_buf d)"

definition cita_body :: "BoatCitaNetworkData \<Rightarrow> bytes" where
  "cita_body d = protobuf_c_message_pack common__cita_network_data__descriptor
     (Message [Word32 (ucast (cita_networkIndex d)), Word32 (cita_version d), String (Str (cita_url d)), Bytes (cita_chain_id_buf d)] [])"

definition cita_read_into :: "BoatCitaNetworkData \<Rightarrow> BoatCitaNetworkData \<Rightarrow> BoatCitaNetworkData" where
  "cita_read_into d old = d\<lparr>cita_node_url_buf := cita_url d @ [0] @ drop (length (cita_url d) + 1) (cita_node_url_buf old)\<rparr>"

definition cita_cfg_ok :: "BoatCitaNetworkConfig \<Rightarrow> bool" where
  "cita_cfg_ok cfg \<longleftrightarrow> length (cita_cfg_node_url_buf cfg) = BOAT_CITA_NODE_URL_MAX_LEN \<and> 0 \<in> set (cita_cfg_node_url_buf cfg) \<and>
     length (cita_cfg_chain_id_buf cfg) = BOAT_CITA_CHAIN_ID_V1_SIZE"

definition cita_new :: "BoatCitaNetworkConfig \<Rightarrow> u8 \<Rightarrow> BoatCitaNetworkData" where
  "cita_new cfg i =
     (let url = takeWhile (\<lambda>x. x \<noteq> 0) (cita_cfg_node_url_buf cfg) in
      \<lparr>cita_networkIndex = i, cita_version = cita_cfg_version cfg, cita_chain_id_buf = cita_cfg_chain_id_buf cfg,
       cita_node_url_buf = url @ [0] @ replicate (126 - length url) 0\<rparr>)"

definition cita_cfg :: BoatCitaNetworkConfig where
  "cita_cfg = \<lparr>cita_cfg_version = 1, cita_cfg_chain_id_buf = replicate 32 7, cita_cfg_node_url_buf = [0x68, 0x74, 0x74, 0x70] @ replicate 123 0\<rparr>"

abbreviation cita_record :: "BoatCitaNetworkData \<Rightarrow> network_record" where
  "cita_record \<equiv> proto_record cita_network cita_body"

subsection \<open>Correctness\<close>

lemma cita_descriptor_ok: "descriptor_ok common__cita_network_data__descriptor"
  by (simp add: common__cita_network_data__descriptor_def table_ok_def upt_rec)

lemma cita_url_facts:
  assumes "cita_ok d"
  shows "length (cita_url d) < 127" "c_string (cita_node_url_buf d) = Inr (cita_url d)" "str_content (Str (cita_url d)) = cita_url d"
proof -
  have z: "0 \<in> set (cita_node_url_buf d)" "length (cita_node_url_buf d) = 127" using assms by (simp_all add: cita_ok_def cita_sized_def)
  show "length (cita_url d) < 127" using takeWhile_less [OF z(1), of "\<lambda>x. x \<noteq> 0"] z(2) by (simp add: cita_url_def)
  show "c_string (cita_node_url_buf d) = Inr (cita_url d)" using z(1) by (simp add: c_string_def cita_url_def)
  show "str_content (Str (cita_url d)) = cita_url d" by (simp add: cita_url_def takeWhile_twice)
qed

lemma cita_body_length: "cita_ok d \<Longrightarrow> length (cita_body d) \<le> 190 \<and> 34 \<le> length (cita_body d)"
proof -
  assume d: "cita_ok d"
  note u = cita_url_facts [OF d]
  have c: "length (cita_chain_id_buf d) = 32" using d by (simp add: cita_ok_def cita_sized_def)
  let ?n = PROTOBUF_C_LABEL_NONE
  have s: "length (cita_body d) = length (field_pack_with (\<lambda>_. []) 1 ?n PROTOBUF_C_TYPE_UINT32 (Word32 (ucast (cita_networkIndex d)))) +
      length (field_pack_with (\<lambda>_. []) 2 ?n PROTOBUF_C_TYPE_UINT32 (Word32 (cita_version d))) +
      length (field_pack_with (\<lambda>_. []) 3 ?n PROTOBUF_C_TYPE_STRING (String (Str (cita_url d)))) +
      length (field_pack_with (\<lambda>_. []) 4 ?n PROTOBUF_C_TYPE_BYTES (Bytes (cita_chain_id_buf d)))"
    unfolding cita_body_def by (simp add: common__cita_network_data__descriptor_def)
  have "34 \<le> length (field_pack_with (\<lambda>_. []) 4 ?n PROTOBUF_C_TYPE_BYTES (Bytes (cita_chain_id_buf d)))"
    using c by (auto simp: field_pack_with_def length_required get_tag_size_def uint32_size_def)
  moreover have "get_tag_size 1 = 1" "get_tag_size 2 = 1" "get_tag_size 3 = 1" "get_tag_size 4 = 1" by (simp_all add: get_tag_size_def)
  ultimately show ?thesis
    using field_pack_bounds(1) [of "\<lambda>_. []" 1 "ucast (cita_networkIndex d)"] field_pack_bounds(1) [of "\<lambda>_. []" 2 "cita_version d"]
      field_pack_bounds(2) [of "\<lambda>_. []" 3 "Str (cita_url d)", unfolded u(3)] field_pack_bounds(3) [of "\<lambda>_. []" 4 "cita_chain_id_buf d"]
      u(1) c s by (intro conjI) linarith+
qed

lemma cita_unpack:
  assumes "cita_ok d"
  shows "protobuf_c_message_unpack common__cita_network_data__descriptor (cita_body d) =
    Some (Message [Word32 (ucast (cita_networkIndex d)), Word32 (cita_version d), String (norm_string (Str (cita_url d))),
       Bytes (cita_chain_id_buf d)] [])"
proof -
  have "length (cita_body d) \<le> MAX_SCANNED_MEMBERS" using cita_body_length [OF assms] by (simp add: MAX_SCANNED_MEMBERS_def)
  then show ?thesis
    unfolding cita_body_def
    by (subst unpack_pack [OF cita_descriptor_ok]) (simp_all add: common__cita_network_data__descriptor_def field_typed_def)
qed

lemma cita_from_proto:
  assumes "cita_ok d" "cita_sized old" "str_content u = cita_url d"
  shows "BoATCita_getNetworkFromProto (Message [Word32 (ucast (cita_networkIndex d)), Word32 (cita_version d), String u,
       Bytes (cita_chain_id_buf d)] []) old = (Inr (), cita_read_into d old)"
  using byte_word32 cita_url_facts(1) [OF assms(1)] assms
  by (cases old) (simp add: BoATCita_getNetworkFromProto_def Let_def buf_put_def cita_ok_def cita_sized_def cita_read_into_def)

interpretation cita: proto_network cita_network cita_ok cita_body cita_sized cita_read_into
proof unfold_locales
  fix mal :: "nat \<Rightarrow> bytes option" and d old :: BoatCitaNetworkData
  assume d: "cita_ok d"
  note u = cita_url_facts [OF d] and l = cita_body_length [OF d]
  show "\<exists>m. pn_to_message cita_network mal d = Inr m \<and> protobuf_c_message_pack (pn_descriptor cita_network) m = cita_body d \<and>
      no_null_elements (pn_descriptor cita_network) m"
    using u(2) d by (simp add: cita_network_def cita_message_def cita_body_def cita_ok_def cita_sized_def common__cita_network_data__descriptor_def field_sound_def)
  have "cita_body d \<noteq> []" using l by auto
  then show "field_ok (cita_body d) \<and> 2 \<le> length (cita_body d)" using l by (simp add: field_ok_def)
  assume old: "cita_sized old"
  show "\<exists>m. protobuf_c_message_unpack (pn_descriptor cita_network) (cita_body d) = Some m \<and>
      pn_from_message cita_network mal m old = (Inr (), cita_read_into d old)"
    using cita_unpack [OF d] cita_from_proto [OF d old, of "norm_string (Str (cita_url d))"] u(3) by (simp add: cita_network_def)
  show "cita_sized (cita_read_into d old)"
    using old u(1) d by (simp add: cita_sized_def cita_read_into_def cita_ok_def)
qed

lemma cita_index [simp]: "pn_index cita_network d = cita_networkIndex d" "pn_protocol cita_network = BOAT_PROTOCOL_CITA"
  by (simp_all add: cita_network_def)

lemma cita_new_ok:
  assumes "cita_cfg_ok cfg"
  shows "cita_created cfg i = Inr (cita_new cfg i)" "cita_ok (cita_new cfg i)" "cita_networkIndex (cita_new cfg i) = i"
    "cita_url (cita_new cfg i) = takeWhile (\<lambda>x. x \<noteq> 0) (cita_cfg_node_url_buf cfg)"
proof -
  let ?u = "takeWhile (\<lambda>x. x \<noteq> 0) (cita_cfg_node_url_buf cfg)"
  have z: "length (cita_cfg_node_url_buf cfg) = 127" "0 \<in> set (cita_cfg_node_url_buf cfg)" "length (cita_cfg_chain_id_buf cfg) = 32"
    using assms by (simp_all add: cita_cfg_ok_def)
  have l: "length ?u < 127" using takeWhile_less [OF z(2), of "\<lambda>x. x \<noteq> 0"] z(1) by simp
  have "drop (Suc (length ?u)) (replicate 127 (0::u8)) = replicate (126 - length ?u) 0" by simp
  then show "cita_created cfg i = Inr (cita_new cfg i)"
    using z l by (simp add: cita_created_def BoATCitaNetworkDataInit_def c_string_def buf_put_def cita_new_def Let_def)
  show "cita_ok (cita_new cfg i)" using l z by (simp add: cita_ok_def cita_sized_def cita_new_def Let_def)
  show "cita_networkIndex (cita_new cfg i) = i" by (simp add: cita_new_def Let_def)
  have "takeWhile (\<lambda>x. x \<noteq> 0) (?u @ 0 # zs) = ?u" for zs by (simp add: takeWhile_append takeWhile_tail)
  then show "cita_url (cita_new cfg i) = ?u" by (simp add: cita_url_def cita_new_def Let_def)
qed

lemma cita_capacity: "cita_ok d \<Longrightarrow> proto_capacity cita_body d \<le> 198"
  using cita_body_length [of d] length_lv_bounds(2) [of "cita_body d"] by (simp add: proto_capacity_def)

lemma cita_read_into_fields:
  assumes "cita_ok d"
  shows "cita_networkIndex (cita_read_into d old) = cita_networkIndex d" "cita_version (cita_read_into d old) = cita_version d"
    "cita_chain_id_buf (cita_read_into d old) = cita_chain_id_buf d" "c_string (cita_node_url_buf (cita_read_into d old)) = Inr (cita_url d)"
proof -
  show "cita_networkIndex (cita_read_into d old) = cita_networkIndex d" "cita_version (cita_read_into d old) = cita_version d"
    "cita_chain_id_buf (cita_read_into d old) = cita_chain_id_buf d" by (simp_all add: cita_read_into_def)
  have "takeWhile (\<lambda>x. x \<noteq> 0) (cita_url d @ 0 # zs) = cita_url d" for zs
    unfolding cita_url_def by (simp add: takeWhile_append takeWhile_tail)
  then show "c_string (cita_node_url_buf (cita_read_into d old)) = Inr (cita_url d)" by (simp add: c_string_def cita_read_into_def)
qed

lemma cita_create_ok:
  assumes "nvram_ok s" "malloc_total mal" "networks_in rs s" "length rs < 5" "cita_cfg_ok cfg" "202 + length (concat (map network_enc rs)) \<le> 5120"
  shows "\<exists>i s'. BoATCitaNetworkCreate mal (Some cfg) BOAT_STORE_TYPE_FLASH s = (Inr i, s') \<and> i = of_nat (the (free_network_index rs)) \<and>
    persistent_index i \<and> i \<notin> rec_index ` set rs \<and> nvram_ok s' \<and> area_frame BOAT_STORE_NETWORK BOAT_STORE_TYPE_FLASH s s' \<and>
    networks_in (rs @ [cita_record (cita_new cfg i)]) s'"
proof -
  have "4 + length (concat (map network_enc rs)) + proto_capacity cita_body (cita_new cfg i) \<le> 5120" for i
    using cita_capacity [OF cita_new_ok(2) [OF assms(5)], of i] assms(6) by simp
  then show ?thesis
    using cita.create [OF assms(1-4), of "cita_created cfg" "cita_new cfg"] cita_new_ok(1-3) [OF assms(5)]
    by (simp add: BoATCitaNetworkCreate_def)
qed

text \<open>
  C23: Creating a CITA network in the persistent store gives it the least index that no network of any chain has, and reading that index gives back
  its version, chain id and URL; the networks that were there, those of CITA and those of the Ethereum family, stay readable.
\<close>

theorem cita_create_network:
  assumes "nvram_ok s" "malloc_total mal" "networks_in rs s" "length rs < 5" "cita_cfg_ok cfg"
    "202 + length (concat (map network_enc rs)) \<le> 5120" "cita_sized old" "url_sized eth_old"
  shows "\<exists>i d s'. BoATCitaNetworkCreate mal (Some cfg) BOAT_STORE_TYPE_FLASH s = (Inr i, s') \<and>
    i = of_nat (the (free_network_index rs)) \<and> i \<notin> rec_index ` set rs \<and>
    BoATCita_GetNetworkByIndex mal i s' (Some old) = (Inr (), Some d) \<and> cita_networkIndex d = i \<and>
    cita_version d = cita_cfg_version cfg \<and> cita_chain_id_buf d = cita_cfg_chain_id_buf cfg \<and>
    c_string (cita_node_url_buf d) = c_string (cita_cfg_node_url_buf cfg) \<and>
    (\<forall>e. cita_record e \<in> set rs \<longrightarrow> cita_ok e \<longrightarrow>
       BoATCita_GetNetworkByIndex mal (cita_networkIndex e) s' (Some old) = (Inr (), Some (cita_read_into e old))) \<and>
    (\<forall>p e. network_record_of p e \<in> set rs \<longrightarrow> net_ok e \<longrightarrow>
       GetNetworkByIndex p (networkIndex e) s' (Some eth_old) = (Inr (), Some (read_into e eth_old)))"
proof -
  obtain i s' where c: "BoATCitaNetworkCreate mal (Some cfg) BOAT_STORE_TYPE_FLASH s = (Inr i, s')" "i = of_nat (the (free_network_index rs))"
      "i \<notin> rec_index ` set rs" "nvram_ok s'" "networks_in (rs @ [cita_record (cita_new cfg i)]) s'"
    using cita_create_ok [OF assms(1-6)] by blast
  note n = cita_new_ok [OF assms(5), of i]
  have f: "BoATCita_GetNetworkByIndex mal (cita_networkIndex e) s' (Some old) = (Inr (), Some (cita_read_into e old))"
    if "cita_record e \<in> set (rs @ [cita_record (cita_new cfg i)])" "cita_ok e" for e
    using cita.found [OF c(4,5) that assms(2,7)] by (simp add: BoATCita_GetNetworkByIndex_def)
  have g: "GetNetworkByIndex p (networkIndex e) s' (Some eth_old) = (Inr (), Some (read_into e eth_old))"
    if "network_record_of p e \<in> set rs" "net_ok e" for p e
    using get_network_found [OF c(4,5) _ that(2) assms(8)] that(1) by simp
  have z: "cita_version (cita_new cfg i) = cita_cfg_version cfg" "cita_chain_id_buf (cita_new cfg i) = cita_cfg_chain_id_buf cfg"
    by (simp_all add: cita_new_def Let_def)
  have u: "c_string (cita_cfg_node_url_buf cfg) = Inr (cita_url (cita_new cfg i))"
    using assms(5) by (simp add: n(4) c_string_def cita_cfg_ok_def)
  show ?thesis
    using c(1-3) f f [OF _ n(2)] g cita_read_into_fields [OF n(2), of old] n(3) z u
    by (intro exI [of _ i] exI [of _ "cita_read_into (cita_new cfg i) old"] exI [of _ s']) simp
qed

lemma cita_cfg_ok: "cita_cfg_ok cita_cfg"
  by (simp add: cita_cfg_ok_def cita_cfg_def)

lemma cita_init_sized: "cita_sized BoATCitaNetworkDataInit"
  by (simp add: cita_sized_def BoATCitaNetworkDataInit_def)

theorem cita_create_network_witness:
  "\<exists>d s'. BoATCitaNetworkCreate heap_all (Some cita_cfg) BOAT_STORE_TYPE_FLASH blank_device = (Inr 1, s') \<and>
    BoATCita_GetNetworkByIndex heap_all 1 s' (Some BoATCitaNetworkDataInit) = (Inr (), Some d) \<and> cita_version d = 1"
proof -
  have "(of_nat (the (free_network_index [])) :: u8) = 1" by (simp add: free_network_index_def upt_conv_Cons)
  then show ?thesis
    using cita_create_network [OF blank_device_ok(1) heap_all_total blank_networks(1) _ cita_cfg_ok _ cita_init_sized init_sized]
    by (auto simp: cita_cfg_def)
qed

subsection \<open>The list\<close>

text \<open>A device with \<open>k\<close> CITA networks and nothing else in the persistent store.\<close>

lemma cita_networks:
  assumes "k \<le> 5"
  shows "\<exists>ds s. length ds = k \<and> list_all cita_ok ds \<and> nvram_ok s \<and> networks_in (map cita_record ds) s \<and> onetime_network_in [] s"
  using assms
proof (induction k)
  case 0
  then show ?case using blank_device_ok(1) blank_networks by auto
next
  case (Suc k)
  then obtain ds s where s: "length ds = k" "list_all cita_ok ds" "nvram_ok s" "networks_in (map cita_record ds) s" "onetime_network_in [] s"
    by auto
  have "length (concat (map (network_enc \<circ> cita_record) es)) \<le> 198 * length es" if "list_all cita_ok es" for es
    using that cita.record_size cita_capacity by (induction es) (auto intro: order_trans add_mono)
  from this [OF s(2)] have "202 + length (concat (map network_enc (map cita_record ds))) \<le> 5120" using Suc.prems s(1) by (simp add: comp_def)
  then obtain i s' where s': "nvram_ok s'" "area_frame BOAT_STORE_NETWORK BOAT_STORE_TYPE_FLASH s s'"
      "networks_in (map cita_record ds @ [cita_record (cita_new cita_cfg i)]) s'"
    using cita_create_ok [OF s(3) heap_all_total s(4) _ cita_cfg_ok] Suc.prems s(1) by auto
  have "onetime_network_in [] s'" by (rule onetime_network_frame [OF s'(2) _ s(5)]) simp
  then show ?case
    using s s' cita_new_ok(2) [OF cita_cfg_ok, of i] by (intro exI [of _ "ds @ [cita_new cita_cfg i]"] exI [of _ s']) simp
qed

lemma cita_onetime_ok:
  assumes "nvram_ok s" "malloc_total mal" "onetime_network_in os s" "cita_cfg_ok cfg"
  shows "\<exists>s'. BoATCitaNetworkCreate mal (Some cfg) BOAT_STORE_TYPE_RAM s = (Inr 0, s') \<and> nvram_ok s' \<and>
    area_frame BOAT_STORE_NETWORK BOAT_STORE_TYPE_RAM s s' \<and> onetime_network_in [cita_record (cita_new cfg 0)] s'"
proof -
  note n = cita_new_ok [OF assms(4), of 0]
  have "4 + proto_capacity cita_body (cita_new cfg 0) \<le> 1024" using cita_capacity [OF n(2)] by simp
  then show ?thesis
    using cita.create_onetime [OF assms(1-3), of "cita_created cfg", OF n(1,2)] n(3) by (simp add: BoATCitaNetworkCreate_def)
qed

text \<open>
  C39: The CITA network list has five slots, but five persistent networks and a one-time network fit on the device: listing them then writes
  the sixth behind the list.
\<close>

theorem cita_list_overflow:
  assumes "nvram_ok s" "malloc_total mal" "networks_in (map cita_record ds) s" "list_all cita_ok ds" "length ds = 5"
    "onetime_network_in [cita_record e] s" "length (pc_networks nl) = BOAT_MAX_NETWORK_NUM" "list_all cita_sized (pc_networks nl)"
  shows "fst (BoATCita_GetNetworkList mal s (Some nl)) = Inl UB"
proof -
  have "proto_own_networks cita_network cita_ok cita_body (map cita_record ds) ds"
    using assms(4) by (simp add: proto_own_networks_def filter_map comp_def)
  then show ?thesis
    using cita.list_overflow [OF assms(1-3) _ assms(6) _ assms(8)] assms(5,7) by (simp add: BoATCita_GetNetworkList_def)
qed

theorem cita_list_overflow_witness:
  "\<exists>s. fst (BoATCita_GetNetworkList heap_all s (Some \<lparr>pc_networkNum = 0, pc_networks = replicate 5 BoATCitaNetworkDataInit\<rparr>)) = Inl UB"
proof -
  obtain ds s where s: "length ds = 5" "list_all cita_ok ds" "nvram_ok s" "networks_in (map cita_record ds) s" "onetime_network_in [] s"
    using cita_networks [of 5] by auto
  obtain s' where s': "nvram_ok s'" "area_frame BOAT_STORE_NETWORK BOAT_STORE_TYPE_RAM s s'" "onetime_network_in [cita_record (cita_new cita_cfg 0)] s'"
    using cita_onetime_ok [OF s(3) heap_all_total s(5) cita_cfg_ok] by blast
  have "networks_in (map cita_record ds) s'" by (rule networks_in_frame [OF s'(2) _ s(4)]) simp
  then show ?thesis
    using cita_list_overflow [OF s'(1) heap_all_total _ s(2,1) s'(3)] cita_init_sized by (intro exI [of _ s']) (simp add: list_all_iff)
qed

end
