(* ===== verification/Boat_ChainmakerNetwork.thy ===== *)
theory Boat_ChainmakerNetwork
  imports Boat_ProtoNetwork
begin

text \<open>
  The network store of ChainMaker (\<open>sdk/network/chainmaker/network_chainmaker.c\<close>): certificates in arrays, names in blocks of their own, and
  what becomes of a network without TLS certificates. TLS with identification of the client is compiled in
  (\<open>include/boatkeypair.h\<close>).
\<close>

subsection \<open>The tables of \<open>chainmaker_network.pb-c.c\<close>\<close>

definition common__chainmaker_network_data__descriptor :: ProtobufCMessageDescriptor where
  "common__chainmaker_network_data__descriptor = MessageDescriptor ''common.chainmakerNetworkData''
     [FieldDescriptor ''index'' 1 PROTOBUF_C_LABEL_NONE PROTOBUF_C_TYPE_UINT32 None,
      FieldDescriptor ''client_member_type'' 2 PROTOBUF_C_LABEL_NONE PROTOBUF_C_TYPE_UINT32 None,
      FieldDescriptor ''client_sign_cert_content'' 3 PROTOBUF_C_LABEL_NONE PROTOBUF_C_TYPE_STRING None,
      FieldDescriptor ''node_url'' 4 PROTOBUF_C_LABEL_NONE PROTOBUF_C_TYPE_STRING None,
      FieldDescriptor ''host_name'' 5 PROTOBUF_C_LABEL_NONE PROTOBUF_C_TYPE_STRING None,
      FieldDescriptor ''chain_id'' 6 PROTOBUF_C_LABEL_NONE PROTOBUF_C_TYPE_STRING None,
      FieldDescriptor ''org_id'' 7 PROTOBUF_C_LABEL_NONE PROTOBUF_C_TYPE_STRING None,
      FieldDescriptor ''ca_tls_cert_content'' 8 PROTOBUF_C_LABEL_NONE PROTOBUF_C_TYPE_STRING None,
      FieldDescriptor ''client_tls_cert_content'' 9 PROTOBUF_C_LABEL_NONE PROTOBUF_C_TYPE_STRING None,
      FieldDescriptor ''client_tls_privkey_data'' 10 PROTOBUF_C_LABEL_NONE PROTOBUF_C_TYPE_STRING None]
     [7, 5, 1, 2, 8, 9, 4, 0, 3, 6]
     [(1, 0), (0, 10)]"

definition common__chainmaker_networks__descriptor :: ProtobufCMessageDescriptor where
  "common__chainmaker_networks__descriptor = MessageDescriptor ''common.chainmakerNetworks''
     [FieldDescriptor ''networkNum'' 1 PROTOBUF_C_LABEL_NONE PROTOBUF_C_TYPE_UINT32 None,
      FieldDescriptor ''networks'' 2 PROTOBUF_C_LABEL_NONE PROTOBUF_C_TYPE_MESSAGE (Some common__chainmaker_network_data__descriptor)]
     [0, 1]
     [(1, 0), (0, 2)]"

subsection \<open>Data\<close>

record BoatChainmakerNetworkData =
  cm_networkIndex :: u8
  cm_client_member_type :: u32
  cm_client_sign_cert_content :: CertInfoCfg
  cm_node_url :: "bytes pointer"
  cm_host_name :: "bytes pointer"
  cm_chain_id :: "bytes pointer"
  cm_org_id :: "bytes pointer"
  cm_ca_tls_cert_content :: CertInfoCfg
  cm_client_tls_cert_content :: CertInfoCfg
  cm_client_tls_privkey_data :: CertInfoCfg

subsection \<open>Operations\<close>

definition BoATChainmaker_getNetworkFromProto ::
  "(nat \<Rightarrow> bytes option) \<Rightarrow> ProtobufCMessage \<Rightarrow> BoatChainmakerNetworkData \<Rightarrow> unit res \<times> BoatChainmakerNetworkData" where
  "BoATChainmaker_getNetworkFromProto mal m =
     (case members m of
        [Word32 index, Word32 member_type, String sign, String url, String host, String chain, String org, String ca, String cert, String key] \<Rightarrow>
          bindS (updS (\<lambda>d. d\<lparr>cm_networkIndex := ucast index, cm_client_member_type := member_type\<rparr>)) (\<lambda>_.
          bindS (check_length (CERT_MAX_LEN < length (str_content sign))) (\<lambda>_.
          bindS (copy_member cm_client_sign_cert_content (\<lambda>c d. d\<lparr>cm_client_sign_cert_content := c\<rparr>) sign) (\<lambda>_.
          bindS (block_member mal (\<lambda>p d. d\<lparr>cm_node_url := p\<rparr>) url) (\<lambda>_.
          bindS (block_member mal (\<lambda>p d. d\<lparr>cm_host_name := p\<rparr>) host) (\<lambda>_.
          bindS (block_member mal (\<lambda>p d. d\<lparr>cm_chain_id := p\<rparr>) chain) (\<lambda>_.
          bindS (block_member mal (\<lambda>p d. d\<lparr>cm_org_id := p\<rparr>) org) (\<lambda>_.
          bindS (check_length (tls_too_long (str_content ca) CERT_MAX_LEN)) (\<lambda>_.
          bindS (copy_member cm_ca_tls_cert_content (\<lambda>c d. d\<lparr>cm_ca_tls_cert_content := c\<rparr>) ca) (\<lambda>_.
          bindS (check_length (tls_too_long (str_content cert) CERT_MAX_LEN)) (\<lambda>_.
          bindS (copy_member cm_client_tls_cert_content (\<lambda>c d. d\<lparr>cm_client_tls_cert_content := c\<rparr>) cert) (\<lambda>_.
          bindS (check_length (tls_too_long (str_content key) 512)) (\<lambda>_.
            copy_member cm_client_tls_privkey_data (\<lambda>c d. d\<lparr>cm_client_tls_privkey_data := c\<rparr>) key))))))))))))
      | _ \<Rightarrow> liftS (Inl UB))"

text \<open>The message that \<open>BoATChainmaker_Get_Network_Data\<close> packs.\<close>

definition chainmaker_message :: "BoatChainmakerNetworkData \<Rightarrow> ProtobufCMessage res" where
  "chainmaker_message d =
     bindR (message_string (cm_node_url d)) (\<lambda>url.
     bindR (message_string (cm_host_name d)) (\<lambda>host.
     bindR (message_string (cm_chain_id d)) (\<lambda>chain.
     bindR (message_string (cm_org_id d)) (\<lambda>org.
     bindR (c_string (cert_content (cm_client_sign_cert_content d))) (\<lambda>sign.
     bindR (c_string (cert_content (cm_ca_tls_cert_content d))) (\<lambda>ca.
     bindR (c_string (cert_content (cm_client_tls_cert_content d))) (\<lambda>cert.
     bindR (c_string (cert_content (cm_client_tls_privkey_data d))) (\<lambda>key.
       Inr (Message [Word32 (ucast (cm_networkIndex d)), Word32 (cm_client_member_type d), String (Str sign), String url, String host,
         String chain, String org, String (Str ca), String (Str cert), String (Str key)] [])))))))))"

definition chainmaker_network :: "BoatChainmakerNetworkData ProtoNetwork" where
  "chainmaker_network = \<lparr>pn_protocol = BOAT_PROTOCOL_CHAINMAKER, pn_descriptor = common__chainmaker_network_data__descriptor,
     pn_index = cm_networkIndex, pn_to_message = \<lambda>mal d. chainmaker_message d, pn_from_message = BoATChainmaker_getNetworkFromProto\<rparr>"

definition BoATChainmaker_GetNetworkFromNvram ::
  "(nat \<Rightarrow> bytes option) \<Rightarrow> (nat \<Rightarrow> u32 \<Rightarrow> u32 \<Rightarrow> 's \<Rightarrow> bytes res) \<Rightarrow> u32 \<Rightarrow> 's \<Rightarrow> BoatChainmakerNetworkData \<Rightarrow>
     u32 res \<times> BoatChainmakerNetworkData" where
  "BoATChainmaker_GetNetworkFromNvram = proto_GetNetworkFromNvram chainmaker_network"

definition BoATChainmaker_GetNetworkList ::
  "(nat \<Rightarrow> bytes option) \<Rightarrow> nvram \<Rightarrow> BoatChainmakerNetworkData ProtoContext option \<Rightarrow> unit res \<times> BoatChainmakerNetworkData ProtoContext option" where
  "BoATChainmaker_GetNetworkList = proto_GetNetworkList chainmaker_network"

definition BoATChainmaker_GetFreeNetworkIndex_From_Persistent :: "nvram \<Rightarrow> nat res" where
  "BoATChainmaker_GetFreeNetworkIndex_From_Persistent = GetFreeNetworkIndex_From_Persistent"

definition BoATChainmaker_Get_Network_Data :: "(nat \<Rightarrow> bytes option) \<Rightarrow> BoatChainmakerNetworkData \<Rightarrow> (bytes \<times> u32) res" where
  "BoATChainmaker_Get_Network_Data = proto_Get_Network_Data chainmaker_network"

definition BoATChainmakerNetworkDataInit :: "BoatChainmakerNetworkData \<Rightarrow> BoatChainmakerNetworkData" where
  "BoATChainmakerNetworkDataInit d =
     d\<lparr>cm_networkIndex := 0, cm_client_sign_cert_content := (cm_client_sign_cert_content d)\<lparr>cert_length := 0\<rparr>\<rparr>"

definition BoATChainmaker_NetworkDataCtx_Store ::
  "(nat \<Rightarrow> bytes option) \<Rightarrow> BoatChainmakerNetworkData \<Rightarrow> BoatStoreType \<Rightarrow> nvram \<Rightarrow> unit res \<times> nvram" where
  "BoATChainmaker_NetworkDataCtx_Store = proto_NetworkDataCtx_Store chainmaker_network"

text \<open>The checks of \<open>BoATChainmakerNetworkCreate\<close>, and the object it fills for the index \<open>i\<close>.\<close>

definition missing_string :: "bytes pointer \<Rightarrow> bool res" where
  "missing_string p = (if p = NullPtr then Inr True else bindR (pointer_string p) (\<lambda>s. Inr (s = [])))"

definition chainmaker_check :: "BoatChainmakerNetworkData \<Rightarrow> unit res" where
  "chainmaker_check cfg =
     (let check = (\<lambda>p rest. bindR (missing_string p) (\<lambda>m. guardR m BOAT_ERROR_COMMON_INVALID_ARGUMENT rest)) in
      check (cm_chain_id cfg) (
      check (cm_host_name cfg) (
      check (cm_node_url cfg) (
      check (cm_org_id cfg) (
        let sign = cm_client_sign_cert_content cfg in
        guardR (cert_length sign = 0) BOAT_ERROR_COMMON_INVALID_ARGUMENT
       (bindR (c_string (cert_content sign)) (\<lambda>s. guardR (s = []) BOAT_ERROR_COMMON_INVALID_ARGUMENT (Inr ()))))))))"

definition chainmaker_created :: "BoatChainmakerNetworkData \<Rightarrow> u8 \<Rightarrow> BoatChainmakerNetworkData" where
  "chainmaker_created cfg i =
     \<lparr>cm_networkIndex = i, cm_client_member_type = cm_client_member_type cfg, cm_client_sign_cert_content = cm_client_sign_cert_content cfg,
      cm_node_url = cm_node_url cfg, cm_host_name = cm_host_name cfg, cm_chain_id = cm_chain_id cfg, cm_org_id = cm_org_id cfg,
      cm_ca_tls_cert_content = cm_ca_tls_cert_content cfg, cm_client_tls_cert_content = cm_client_tls_cert_content cfg,
      cm_client_tls_privkey_data = cm_client_tls_privkey_data cfg\<rparr>"

definition BoATChainmakerNetworkCreate ::
  "(nat \<Rightarrow> bytes option) \<Rightarrow> BoatChainmakerNetworkData option \<Rightarrow> BoatStoreType \<Rightarrow> nvram \<Rightarrow> u8 res \<times> nvram" where
  "BoATChainmakerNetworkCreate mal networkConfig storeType s =
     (case networkConfig of
        None \<Rightarrow> (Inl (Err BOAT_ERROR), s)
      | Some cfg \<Rightarrow>
          bindS (liftS (chainmaker_check cfg)) (\<lambda>_.
            proto_create_with chainmaker_network mal (\<lambda>i. Inr (chainmaker_created cfg i)) storeType) s)"

definition BoATChainmakerNetworkDelete :: "(nat \<Rightarrow> bytes option) \<Rightarrow> u8 \<Rightarrow> nvram \<Rightarrow> unit res \<times> nvram" where
  "BoATChainmakerNetworkDelete = NetworkDelete BOAT_PROTOCOL_CHAINMAKER"

definition BoATChainmaker_GetNetworkByIndex ::
  "(nat \<Rightarrow> bytes option) \<Rightarrow> u8 \<Rightarrow> nvram \<Rightarrow> BoatChainmakerNetworkData option \<Rightarrow> unit res \<times> BoatChainmakerNetworkData option" where
  "BoATChainmaker_GetNetworkByIndex = proto_GetNetworkByIndex chainmaker_network"

definition BoATChainmaker_FreeNetworkData :: "BoatChainmakerNetworkData \<Rightarrow> BoatChainmakerNetworkData res" where
  "BoATChainmaker_FreeNetworkData d =
     bindR (free_pointer (cm_node_url d)) (\<lambda>url.
     bindR (free_pointer (cm_host_name d)) (\<lambda>host.
     bindR (free_pointer (cm_chain_id d)) (\<lambda>chain.
     bindR (free_pointer (cm_org_id d)) (\<lambda>org.
       Inr (d\<lparr>cm_networkIndex := 0, cm_client_member_type := 0,
         cm_client_sign_cert_content := (cm_client_sign_cert_content d)\<lparr>cert_length := 0\<rparr>,
         cm_ca_tls_cert_content := (cm_ca_tls_cert_content d)\<lparr>cert_length := 0\<rparr>,
         cm_client_tls_privkey_data := (cm_client_tls_privkey_data d)\<lparr>cert_length := 0\<rparr>,
         cm_client_tls_cert_content := (cm_client_tls_cert_content d)\<lparr>cert_length := 0\<rparr>,
         cm_node_url := url, cm_host_name := host, cm_chain_id := chain, cm_org_id := org\<rparr>)))))"

text \<open>The first \<open>networkNum\<close> networks are freed in the copy inside the function; the blocks are those of the caller.\<close>

fun free_networks :: "nat \<Rightarrow> BoatChainmakerNetworkData list \<Rightarrow> BoatChainmakerNetworkData list res" where
  "free_networks 0 ds = Inr ds"
| "free_networks (Suc k) [] = Inl UB"
| "free_networks (Suc k) (d # ds) =
     bindR (BoATChainmaker_FreeNetworkData d) (\<lambda>d'. bindR (free_networks k ds) (\<lambda>ds'. Inr (d' # ds')))"

definition BoATChainmaker_FreeNetworkContext ::
  "BoatChainmakerNetworkData ProtoContext \<Rightarrow> BoatChainmakerNetworkData ProtoContext res" where
  "BoATChainmaker_FreeNetworkContext networkList =
     (if pc_networkNum networkList = 0 then Inr networkList
      else bindR (free_networks (unat (pc_networkNum networkList)) (pc_networks networkList)) (\<lambda>ds.
        Inr (networkList\<lparr>pc_networkNum := 0, pc_networks := ds\<rparr>)))"

subsection \<open>Reference notions\<close>

text \<open>The eight texts of a network in the order of the message.\<close>

definition cm_texts :: "BoatChainmakerNetworkData \<Rightarrow> bytes list" where
  "cm_texts d =
     [cert_text (cm_client_sign_cert_content d), pointer_text (cm_node_url d), pointer_text (cm_host_name d), pointer_text (cm_chain_id d),
      pointer_text (cm_org_id d), cert_text (cm_ca_tls_cert_content d), cert_text (cm_client_tls_cert_content d),
      cert_text (cm_client_tls_privkey_data d)]"

definition cm_body :: "BoatChainmakerNetworkData \<Rightarrow> bytes" where
  "cm_body d = protobuf_c_message_pack common__chainmaker_network_data__descriptor
     (Message (Word32 (ucast (cm_networkIndex d)) # Word32 (cm_client_member_type d) # map (\<lambda>t. String (Str t)) (cm_texts d)) [])"

text \<open>Networks that can be stored, and those that can be read again.\<close>

definition cm_storable :: "BoatChainmakerNetworkData \<Rightarrow> bool" where
  "cm_storable d \<longleftrightarrow>
     cert_ok CERT_MAX_LEN (cm_client_sign_cert_content d) \<and> cert_ok CERT_MAX_LEN (cm_ca_tls_cert_content d) \<and>
     cert_ok CERT_MAX_LEN (cm_client_tls_cert_content d) \<and> cert_ok 512 (cm_client_tls_privkey_data d) \<and>
     is_string (cm_node_url d) \<and> is_string (cm_host_name d) \<and> is_string (cm_chain_id d) \<and> is_string (cm_org_id d) \<and>
     pointer_text (cm_chain_id d) \<noteq> [] \<and> sum_list (map length (cm_texts d)) \<le> 5000"

definition cm_ok :: "BoatChainmakerNetworkData \<Rightarrow> bool" where
  "cm_ok d \<longleftrightarrow> cm_storable d \<and> cert_text (cm_ca_tls_cert_content d) \<noteq> [] \<and> cert_text (cm_client_tls_cert_content d) \<noteq> [] \<and>
     cert_text (cm_client_tls_privkey_data d) \<noteq> []"

definition cm_sized :: "BoatChainmakerNetworkData \<Rightarrow> bool" where
  "cm_sized d \<longleftrightarrow>
     length (cert_content (cm_client_sign_cert_content d)) = CERT_MAX_LEN \<and>
     length (cert_content (cm_ca_tls_cert_content d)) = CERT_MAX_LEN \<and>
     length (cert_content (cm_client_tls_cert_content d)) = CERT_MAX_LEN \<and>
     length (cert_content (cm_client_tls_privkey_data d)) = 512"

definition cm_read_into :: "BoatChainmakerNetworkData \<Rightarrow> BoatChainmakerNetworkData \<Rightarrow> BoatChainmakerNetworkData" where
  "cm_read_into d old =
     \<lparr>cm_networkIndex = cm_networkIndex d, cm_client_member_type = cm_client_member_type d,
      cm_client_sign_cert_content = read_cert (cm_client_sign_cert_content d) (cm_client_sign_cert_content old),
      cm_node_url = Ptr (pointer_text (cm_node_url d) @ [0]), cm_host_name = Ptr (pointer_text (cm_host_name d) @ [0]),
      cm_chain_id = Ptr (pointer_text (cm_chain_id d) @ [0]), cm_org_id = Ptr (pointer_text (cm_org_id d) @ [0]),
      cm_ca_tls_cert_content = read_cert (cm_ca_tls_cert_content d) (cm_ca_tls_cert_content old),
      cm_client_tls_cert_content = read_cert (cm_client_tls_cert_content d) (cm_client_tls_cert_content old),
      cm_client_tls_privkey_data = read_cert (cm_client_tls_privkey_data d) (cm_client_tls_privkey_data old)\<rparr>"

abbreviation cm_record :: "BoatChainmakerNetworkData \<Rightarrow> network_record" where
  "cm_record \<equiv> proto_record chainmaker_network cm_body"

subsection \<open>Correctness\<close>

lemma cm_descriptor_ok: "descriptor_ok common__chainmaker_network_data__descriptor"
  by (simp add: common__chainmaker_network_data__descriptor_def table_ok_def upt_rec)

text \<open>The members of the message that was packed, as they are unpacked.\<close>

definition cm_members :: "BoatChainmakerNetworkData \<Rightarrow> ProtobufCValue list" where
  "cm_members d = Word32 (ucast (cm_networkIndex d)) # Word32 (cm_client_member_type d) # map (\<lambda>t. String (norm_string (Str t))) (cm_texts d)"

lemma cm_body_length:
  "length (cm_body d) \<le> 60 + sum_list (map length (cm_texts d))" "pointer_text (cm_chain_id d) \<noteq> [] \<Longrightarrow> 2 \<le> length (cm_body d)"
proof -
  let ?n = PROTOBUF_C_LABEL_NONE
  let ?s = "\<lambda>k t. length (field_pack_with (\<lambda>_. []) k ?n PROTOBUF_C_TYPE_STRING (String (Str t)))"
  have s: "length (cm_body d) = length (field_pack_with (\<lambda>_. []) 1 ?n PROTOBUF_C_TYPE_UINT32 (Word32 (ucast (cm_networkIndex d)))) +
      length (field_pack_with (\<lambda>_. []) 2 ?n PROTOBUF_C_TYPE_UINT32 (Word32 (cm_client_member_type d))) +
      ?s 3 (cm_texts d ! 0) + ?s 4 (cm_texts d ! 1) + ?s 5 (cm_texts d ! 2) + ?s 6 (cm_texts d ! 3) + ?s 7 (cm_texts d ! 4) +
      ?s 8 (cm_texts d ! 5) + ?s 9 (cm_texts d ! 6) + ?s 10 (cm_texts d ! 7)"
    unfolding cm_body_def by (simp add: common__chainmaker_network_data__descriptor_def cm_texts_def)
  have g: "get_tag_size 1 = 1" "get_tag_size 2 = 1" "get_tag_size 3 = 1" "get_tag_size 4 = 1" "get_tag_size 5 = 1" "get_tag_size 6 = 1"
    "get_tag_size 7 = 1" "get_tag_size 8 = 1" "get_tag_size 9 = 1" "get_tag_size 10 = 1" by (simp_all add: get_tag_size_def)
  have b: "?s k t \<le> get_tag_size k + 5 + length t" for k t
    using field_pack_bounds(2) [of "\<lambda>_. []" k "Str t"] length_takeWhile_le [of "\<lambda>c. c \<noteq> 0" t] by (simp del: length_takeWhile_le)
  have t: "sum_list (map length (cm_texts d)) = length (cm_texts d ! 0) + length (cm_texts d ! 1) + length (cm_texts d ! 2) + length (cm_texts d ! 3) +
      length (cm_texts d ! 4) + length (cm_texts d ! 5) + length (cm_texts d ! 6) + length (cm_texts d ! 7)"
    by (simp add: cm_texts_def)
  show "length (cm_body d) \<le> 60 + sum_list (map length (cm_texts d))"
    using s g t b [of 3 "cm_texts d ! 0"] b [of 4 "cm_texts d ! 1"] b [of 5 "cm_texts d ! 2"] b [of 6 "cm_texts d ! 3"]
      b [of 7 "cm_texts d ! 4"] b [of 8 "cm_texts d ! 5"] b [of 9 "cm_texts d ! 6"] b [of 10 "cm_texts d ! 7"]
      field_pack_bounds(1) [of "\<lambda>_. []" 1 "ucast (cm_networkIndex d)"] field_pack_bounds(1) [of "\<lambda>_. []" 2 "cm_client_member_type d"]
    by linarith
  assume "pointer_text (cm_chain_id d) \<noteq> []"
  then have "2 \<le> ?s 6 (cm_texts d ! 3)"
    using g(6) by (simp add: cm_texts_def field_pack_with_def length_required str_content_text(2) Suc_le_eq del: str_content.simps)
  then show "2 \<le> length (cm_body d)" using s by linarith
qed

lemma cm_unpack:
  assumes "cm_storable d"
  shows "protobuf_c_message_unpack common__chainmaker_network_data__descriptor (cm_body d) = Some (Message (cm_members d) [])"
proof -
  have "length (cm_body d) \<le> MAX_SCANNED_MEMBERS"
    using cm_body_length(1) [of d] assms by (simp add: MAX_SCANNED_MEMBERS_def cm_storable_def)
  then show ?thesis
    unfolding cm_body_def
    by (subst unpack_pack [OF cm_descriptor_ok])
      (simp_all add: common__chainmaker_network_data__descriptor_def field_typed_def cm_texts_def cm_members_def)
qed

lemma cm_prefix:
  assumes d: "cm_storable d" and old: "cm_sized old" and mal: "malloc_total mal"
  shows "BoATChainmaker_getNetworkFromProto mal (Message (cm_members d) []) old =
    (let old = old\<lparr>cm_networkIndex := cm_networkIndex d, cm_client_member_type := cm_client_member_type d,
         cm_client_sign_cert_content := read_cert (cm_client_sign_cert_content d) (cm_client_sign_cert_content old),
         cm_node_url := Ptr (pointer_text (cm_node_url d) @ [0]), cm_host_name := Ptr (pointer_text (cm_host_name d) @ [0]),
         cm_chain_id := Ptr (pointer_text (cm_chain_id d) @ [0]), cm_org_id := Ptr (pointer_text (cm_org_id d) @ [0])\<rparr>;
         ca = cert_text (cm_ca_tls_cert_content d); cert = cert_text (cm_client_tls_cert_content d); key = cert_text (cm_client_tls_privkey_data d)
     in bindS (check_length (tls_too_long ca CERT_MAX_LEN)) (\<lambda>_.
        bindS (copy_member cm_ca_tls_cert_content (\<lambda>c d. d\<lparr>cm_ca_tls_cert_content := c\<rparr>) (norm_string (Str ca))) (\<lambda>_.
        bindS (check_length (tls_too_long cert CERT_MAX_LEN)) (\<lambda>_.
        bindS (copy_member cm_client_tls_cert_content (\<lambda>c d. d\<lparr>cm_client_tls_cert_content := c\<rparr>) (norm_string (Str cert))) (\<lambda>_.
        bindS (check_length (tls_too_long key 512)) (\<lambda>_.
          copy_member cm_client_tls_privkey_data (\<lambda>c d. d\<lparr>cm_client_tls_privkey_data := c\<rparr>) (norm_string (Str key))))))) old)"
proof -
  let ?sign = "cert_text (cm_client_sign_cert_content d)"
  have l: "length ?sign < 1024" "length (cert_content (cm_client_sign_cert_content old)) = 1024"
    using cert_facts(2) [of 1024 "cm_client_sign_cert_content d"] d old by (simp_all add: cm_storable_def cm_sized_def)
  have c: "copy_member cm_client_sign_cert_content (\<lambda>c d. d\<lparr>cm_client_sign_cert_content := c\<rparr>) (norm_string (Str ?sign)) x =
      (Inr (), x\<lparr>cm_client_sign_cert_content := read_cert (cm_client_sign_cert_content d) (cm_client_sign_cert_content x)\<rparr>)"
    if "length (cert_content (cm_client_sign_cert_content x)) = 1024" for x
    using copy_member_ok [of "norm_string (Str ?sign)" cm_client_sign_cert_content x "\<lambda>c d. d\<lparr>cm_client_sign_cert_content := c\<rparr>"] that l(1)
    by (simp only: text_contents read_cert_def)
  have k: "check_length (1024 < length ?sign) x = (Inr (), x)" for x using l(1) by (intro check_length_ok) simp
  note b = block_member_ok [OF mal, where s = "norm_string (Str (pointer_text p))" for p, unfolded text_contents]
  show ?thesis
    unfolding BoATChainmaker_getNetworkFromProto_def cm_members_def cm_texts_def Let_def
    using l(2) by (cases old) (simp add: text_contents c k b bindS_def updS_def byte_word32 del: str_content.simps str_content_norm)
qed

lemma cm_from_proto:
  assumes d: "cm_ok d" and old: "cm_sized old" and mal: "malloc_total mal"
  shows "BoATChainmaker_getNetworkFromProto mal (Message (cm_members d) []) old = (Inr (), cm_read_into d old)"
proof -
  let ?ca = "cert_text (cm_ca_tls_cert_content d)" and ?cert = "cert_text (cm_client_tls_cert_content d)" and ?key = "cert_text (cm_client_tls_privkey_data d)"
  have l: "length ?ca < 1024" "length ?cert < 1024" "length ?key < 512" "?ca \<noteq> []" "?cert \<noteq> []" "?key \<noteq> []"
    using cert_facts(2) d by (auto simp: cm_ok_def cm_storable_def)
  have k: "\<not> tls_too_long ?ca 1024" "\<not> tls_too_long ?cert 1024" "\<not> tls_too_long ?key 512"
    using l by (simp_all add: tls_too_long_iff)
  have c: "copy_member get put (norm_string (Str (cert_text c))) x = (Inr (), put (read_cert c (get x)) x)"
    if "length (cert_text c) < length (cert_content (get x))" for get :: "BoatChainmakerNetworkData \<Rightarrow> CertInfoCfg" and put c x
    using copy_member_ok [of "norm_string (Str (cert_text c))" get x put] that by (simp only: text_contents read_cert_def)
  show ?thesis
    unfolding cm_prefix [OF d [unfolded cm_ok_def, THEN conjunct1] old mal] Let_def
    using l k old by (cases old) (simp add: c check_length_ok bindS_def cm_sized_def cm_read_into_def)
qed

lemma cm_refused:
  assumes d: "cm_storable d" "\<not> cm_ok d" and old: "cm_sized old" and mal: "malloc_total mal"
  shows "\<exists>x. BoATChainmaker_getNetworkFromProto mal (Message (cm_members d) []) old = (Inl (Err BOAT_ERROR_COMMON_OUT_OF_MEMORY), x)"
proof -
  let ?ca = "cert_text (cm_ca_tls_cert_content d)" and ?cert = "cert_text (cm_client_tls_cert_content d)" and ?key = "cert_text (cm_client_tls_privkey_data d)"
  have l: "length ?ca < 1024" "length ?cert < 1024" "length ?key < 512" using cert_facts(2) d(1) by (auto simp: cm_storable_def)
  have k: "tls_too_long ?ca 1024 \<longleftrightarrow> ?ca = []" "tls_too_long ?cert 1024 \<longleftrightarrow> ?cert = []" "tls_too_long ?key 512 \<longleftrightarrow> ?key = []"
    using l by (simp_all add: tls_too_long_iff)
  have e: "?ca = [] \<or> ?cert = [] \<or> ?key = []" using d by (simp add: cm_ok_def)
  have c: "copy_member get put (norm_string (Str (cert_text c))) x = (Inr (), put (read_cert c (get x)) x)"
    if "length (cert_text c) < length (cert_content (get x))" for get :: "BoatChainmakerNetworkData \<Rightarrow> CertInfoCfg" and put c x
    using copy_member_ok [of "norm_string (Str (cert_text c))" get x put] that by (simp only: text_contents read_cert_def)
  have b: "check_length bad x = (if bad then Inl (Err BOAT_ERROR_COMMON_OUT_OF_MEMORY) else Inr (), x)" for bad and x :: BoatChainmakerNetworkData
    by (simp add: check_length_def liftS_def)
  show ?thesis
    unfolding cm_prefix [OF d(1) old mal] Let_def k
    using l e old by (cases old; cases "?ca = []"; cases "?cert = []") (simp_all add: c b bindS_def cm_sized_def)
qed

interpretation cm_writer: proto_writer chainmaker_network cm_storable cm_body
proof unfold_locales
  fix mal :: "nat \<Rightarrow> bytes option" and d :: BoatChainmakerNetworkData
  assume d: "cm_storable d"
  show "\<exists>m. pn_to_message chainmaker_network mal d = Inr m \<and> protobuf_c_message_pack (pn_descriptor chainmaker_network) m = cm_body d \<and>
      no_null_elements (pn_descriptor chainmaker_network) m"
    using d cert_facts(1) [of 1024] cert_facts(1) [of 512] is_string_ok(2)
    by (simp add: cm_storable_def chainmaker_network_def chainmaker_message_def cm_body_def cm_texts_def
        common__chainmaker_network_data__descriptor_def field_sound_def)
  have "2 \<le> length (cm_body d)" "length (cm_body d) < 65536" using cm_body_length [of d] d by (simp_all add: cm_storable_def)
  then show "field_ok (cm_body d) \<and> 2 \<le> length (cm_body d)" by (auto simp: field_ok_def)
qed

interpretation cm: proto_network chainmaker_network cm_ok cm_body cm_sized cm_read_into
proof unfold_locales
  fix mal :: "nat \<Rightarrow> bytes option" and d old :: BoatChainmakerNetworkData
  assume d: "cm_ok d"
  then have s: "cm_storable d" by (simp add: cm_ok_def)
  show "malloc_total mal \<Longrightarrow> \<exists>m. pn_to_message chainmaker_network mal d = Inr m \<and> protobuf_c_message_pack (pn_descriptor chainmaker_network) m = cm_body d \<and>
      no_null_elements (pn_descriptor chainmaker_network) m"
    by (rule cm_writer.to_message [OF _ s])
  show "field_ok (cm_body d) \<and> 2 \<le> length (cm_body d)" by (rule cm_writer.body_sized [OF s])
  assume old: "cm_sized old"
  show "malloc_total mal \<Longrightarrow> \<exists>m. protobuf_c_message_unpack (pn_descriptor chainmaker_network) (cm_body d) = Some m \<and>
      pn_from_message chainmaker_network mal m old = (Inr (), cm_read_into d old)"
    using cm_unpack [OF s] cm_from_proto [OF d old] by (simp add: chainmaker_network_def)
  have "length (cert_text c) < n \<Longrightarrow> length (cert_content o') = n \<Longrightarrow> length (cert_content (read_cert c o')) = n" for c o' n
    by (simp add: read_cert_def)
  then show "cm_sized (cm_read_into d old)"
    using old cert_facts(2) s by (simp add: cm_sized_def cm_read_into_def cm_storable_def)
qed

lemma cm_index [simp]: "pn_index chainmaker_network d = cm_networkIndex d" "pn_protocol chainmaker_network = BOAT_PROTOCOL_CHAINMAKER"
    "pn_descriptor chainmaker_network = common__chainmaker_network_data__descriptor"
  by (simp_all add: chainmaker_network_def)

lemma cm_capacity: "proto_capacity cm_body d \<le> 68 + sum_list (map length (cm_texts d))"
  using cm_body_length(1) [of d] length_lv_bounds(2) [of "cm_body d"] by (simp add: proto_capacity_def)

text \<open>A configuration that passes the checks of \<open>BoATChainmakerNetworkCreate\<close>; TLS certificates may be missing.\<close>

definition cm_cfg_ok :: "BoatChainmakerNetworkData \<Rightarrow> bool" where
  "cm_cfg_ok cfg \<longleftrightarrow> cm_storable cfg \<and> pointer_text (cm_node_url cfg) \<noteq> [] \<and> pointer_text (cm_host_name cfg) \<noteq> [] \<and>
     pointer_text (cm_org_id cfg) \<noteq> [] \<and> cert_text (cm_client_sign_cert_content cfg) \<noteq> [] \<and> cert_length (cm_client_sign_cert_content cfg) \<noteq> 0"

lemma cm_check_ok:
  assumes "cm_cfg_ok cfg"
  shows "chainmaker_check cfg = Inr ()"
proof -
  have m: "missing_string p = Inr (pointer_text p = [])" if "is_string p" for p
    using that is_string_ok(1) [OF that] by (auto simp: missing_string_def is_string_def)
  show ?thesis
    using assms m cert_facts(1) [of 1024] by (simp add: chainmaker_check_def cm_cfg_ok_def cm_storable_def)
qed

lemma cm_created_same:
  "cm_storable (chainmaker_created cfg i) \<longleftrightarrow> cm_storable cfg" "cm_ok (chainmaker_created cfg i) \<longleftrightarrow> cm_ok cfg"
  "cm_networkIndex (chainmaker_created cfg i) = i" "cm_texts (chainmaker_created cfg i) = cm_texts cfg"
  by (simp_all add: chainmaker_created_def cm_storable_def cm_ok_def cm_texts_def)

lemma cm_create_ok:
  assumes "nvram_ok s" "malloc_total mal" "networks_in rs s" "length rs < 5" "cm_cfg_ok cfg"
    "72 + length (concat (map network_enc rs)) + sum_list (map length (cm_texts cfg)) \<le> 5120"
  shows "\<exists>i s'. BoATChainmakerNetworkCreate mal (Some cfg) BOAT_STORE_TYPE_FLASH s = (Inr i, s') \<and> i = of_nat (the (free_network_index rs)) \<and>
    persistent_index i \<and> i \<notin> rec_index ` set rs \<and> nvram_ok s' \<and> area_frame BOAT_STORE_NETWORK BOAT_STORE_TYPE_FLASH s s' \<and>
    networks_in (rs @ [cm_record (chainmaker_created cfg i)]) s'"
proof -
  have "4 + length (concat (map network_enc rs)) + proto_capacity cm_body (chainmaker_created cfg i) \<le> 5120" for i
    using cm_capacity [of "chainmaker_created cfg i"] assms(6) by (simp add: cm_created_same)
  moreover have "cm_storable cfg" using assms(5) by (simp add: cm_cfg_ok_def)
  ultimately show ?thesis
    using cm_writer.create [OF assms(1-4), of "\<lambda>i. Inr (chainmaker_created cfg i)" "chainmaker_created cfg"] cm_check_ok [OF assms(5)]
    by (simp add: BoATChainmakerNetworkCreate_def cm_created_same bindS_def liftS_def)
qed

lemma cm_texts_read_into: "cm_ok d \<Longrightarrow> cm_texts (cm_read_into d old) = cm_texts d"
proof -
  have c: "cert_text (read_cert c o') = cert_text c" for c o'
  proof -
    have "takeWhile (\<lambda>x. x \<noteq> 0) (cert_text c @ 0 # zs) = cert_text c" for zs
      using text_no_zero(1) by (simp add: takeWhile_append takeWhile_twice cert_text_def)
    then show ?thesis by (simp add: read_cert_def cert_text_def)
  qed
  show ?thesis
    by (simp add: cm_texts_def cm_read_into_def c pointer_text_block text_no_zero)
qed

text \<open>
  C22: Creating a ChainMaker network with its TLS certificates gives it the least index that no network of any chain has, and reading that index
  gives back its member type and its eight texts: signing certificate, node URL, host, chain and organisation, TLS certificates and key.
\<close>

theorem chainmaker_create_network:
  assumes "nvram_ok s" "malloc_total mal" "networks_in rs s" "length rs < 5" "cm_cfg_ok cfg" "cm_ok cfg"
    "72 + length (concat (map network_enc rs)) + sum_list (map length (cm_texts cfg)) \<le> 5120" "cm_sized old"
  shows "\<exists>i d s'. BoATChainmakerNetworkCreate mal (Some cfg) BOAT_STORE_TYPE_FLASH s = (Inr i, s') \<and>
    i = of_nat (the (free_network_index rs)) \<and> i \<notin> rec_index ` set rs \<and>
    BoATChainmaker_GetNetworkByIndex mal i s' (Some old) = (Inr (), Some d) \<and> cm_networkIndex d = i \<and>
    cm_client_member_type d = cm_client_member_type cfg \<and> cm_texts d = cm_texts cfg \<and>
    (\<forall>e. cm_record e \<in> set rs \<longrightarrow> cm_ok e \<longrightarrow>
       BoATChainmaker_GetNetworkByIndex mal (cm_networkIndex e) s' (Some old) = (Inr (), Some (cm_read_into e old)))"
proof -
  obtain i s' where c: "BoATChainmakerNetworkCreate mal (Some cfg) BOAT_STORE_TYPE_FLASH s = (Inr i, s')" "i = of_nat (the (free_network_index rs))"
      "i \<notin> rec_index ` set rs" "nvram_ok s'" "networks_in (rs @ [cm_record (chainmaker_created cfg i)]) s'"
    using cm_create_ok [OF assms(1-5,7)] by blast
  let ?d = "chainmaker_created cfg i"
  have n: "cm_ok ?d" "cm_networkIndex ?d = i" using assms(6) by (simp_all add: cm_created_same)
  have f: "BoATChainmaker_GetNetworkByIndex mal (cm_networkIndex e) s' (Some old) = (Inr (), Some (cm_read_into e old))"
    if "cm_record e \<in> set (rs @ [cm_record ?d])" "cm_ok e" for e
    using cm.found [OF c(4,5) that assms(2,8)] by (simp add: BoATChainmaker_GetNetworkByIndex_def)
  have "cm_networkIndex (cm_read_into ?d old) = i" "cm_client_member_type (cm_read_into ?d old) = cm_client_member_type cfg"
    "cm_texts (cm_read_into ?d old) = cm_texts cfg"
    using cm_texts_read_into [OF n(1), of old] by (simp_all add: cm_read_into_def chainmaker_created_def cm_created_same) (simp add: cm_texts_def)
  then show ?thesis
    using c(1-3) f f [OF _ n(1)] n(2) by (intro exI [of _ i] exI [of _ "cm_read_into ?d old"] exI [of _ s']) simp
qed

definition cm_blank :: BoatChainmakerNetworkData where
  "cm_blank = (let c = \<lparr>cert_length = 0, cert_content = replicate 1024 0\<rparr> in
     \<lparr>cm_networkIndex = 0, cm_client_member_type = 0, cm_client_sign_cert_content = c, cm_node_url = NullPtr, cm_host_name = NullPtr,
      cm_chain_id = NullPtr, cm_org_id = NullPtr, cm_ca_tls_cert_content = c, cm_client_tls_cert_content = c,
      cm_client_tls_privkey_data = \<lparr>cert_length = 0, cert_content = replicate 512 0\<rparr>\<rparr>)"

text \<open>A configuration with a signing certificate, with the TLS texts \<open>tls\<close>.\<close>

definition cm_cfg :: "bytes \<Rightarrow> BoatChainmakerNetworkData" where
  "cm_cfg tls = (let c = (\<lambda>n t. \<lparr>cert_length = of_nat (length t), cert_content = t @ replicate (n - length t) 0\<rparr>) in
     \<lparr>cm_networkIndex = 0, cm_client_member_type = 0, cm_client_sign_cert_content = c 1024 [67, 69, 82, 84], cm_node_url = Ptr [97, 0],
      cm_host_name = Ptr [98, 0], cm_chain_id = Ptr [99, 0], cm_org_id = Ptr [100, 0], cm_ca_tls_cert_content = c 1024 tls,
      cm_client_tls_cert_content = c 1024 tls, cm_client_tls_privkey_data = c 512 tls\<rparr>)"

lemma cm_cfg_facts:
  "cm_cfg_ok (cm_cfg [])" "\<not> cm_ok (cm_cfg [])" "cm_cfg_ok (cm_cfg [7])" "cm_ok (cm_cfg [7])" "cm_sized cm_blank"
  "sum_list (map length (cm_texts (cm_cfg []))) = 8" "sum_list (map length (cm_texts (cm_cfg [7]))) = 11"
  by (simp_all add: cm_cfg_ok_def cm_ok_def cm_storable_def cm_cfg_def cm_blank_def cert_ok_def is_string_def cm_texts_def cert_text_def
      pointer_text_def cm_sized_def Let_def)

theorem chainmaker_create_network_witness:
  "\<exists>d s'. BoATChainmakerNetworkCreate heap_all (Some (cm_cfg [7])) BOAT_STORE_TYPE_FLASH blank_device_large = (Inr 1, s') \<and>
    BoATChainmaker_GetNetworkByIndex heap_all 1 s' (Some cm_blank) = (Inr (), Some d) \<and> cm_texts d = cm_texts (cm_cfg [7])"
proof -
  have "(of_nat (the (free_network_index [])) :: u8) = 1" by (simp add: free_network_index_def upt_conv_Cons)
  then show ?thesis
    using chainmaker_create_network [OF blank_device_ok(2) heap_all_total blank_networks(3) _ cm_cfg_facts(3,4) _ cm_cfg_facts(5)]
    by (auto simp: cm_cfg_facts)
qed

text \<open>
  C38: A ChainMaker network without TLS certificates passes the checks and is stored, but it cannot be read again: its length 0 is
  decremented before it is compared with the limit, so the empty text counts as too long and reading answers with \<open>BOAT_ERROR\<close>.
\<close>

theorem chainmaker_without_tls_unreadable:
  assumes "nvram_ok s" "malloc_total mal" "networks_in rs s" "length rs < 5" "cm_cfg_ok cfg" "\<not> cm_ok cfg"
    "72 + length (concat (map network_enc rs)) + sum_list (map length (cm_texts cfg)) \<le> 5120" "cm_sized old"
  shows "\<exists>i d s'. BoATChainmakerNetworkCreate mal (Some cfg) BOAT_STORE_TYPE_FLASH s = (Inr i, s') \<and>
    networks_in (rs @ [cm_record (chainmaker_created cfg i)]) s' \<and>
    BoATChainmaker_GetNetworkByIndex mal i s' (Some old) = (Inl (Err BOAT_ERROR), Some d)"
proof -
  obtain i s' where c: "BoATChainmakerNetworkCreate mal (Some cfg) BOAT_STORE_TYPE_FLASH s = (Inr i, s')"
      "nvram_ok s'" "networks_in (rs @ [cm_record (chainmaker_created cfg i)]) s'"
    using cm_create_ok [OF assms(1-5,7)] by blast
  let ?d = "chainmaker_created cfg i"
  have n: "cm_storable ?d" "\<not> cm_ok ?d" "cm_networkIndex ?d = i" using assms(5,6) by (simp_all add: cm_created_same cm_cfg_ok_def)
  obtain x where "BoATChainmaker_getNetworkFromProto mal (Message (cm_members ?d) []) old = (Inl (Err BOAT_ERROR_COMMON_OUT_OF_MEMORY), x)"
    using cm_refused [OF n(1,2) assms(8,2)] by blast
  then have r: "proto_read chainmaker_network mal (Message (cm_members ?d) []) old = (Inl (Err BOAT_ERROR), x)"
    by (simp add: proto_read_def chainmaker_network_def catchS_def liftS_def)
  have "BoATChainmaker_GetNetworkByIndex mal i s' (Some old) = (Inl (Err BOAT_ERROR), Some x)"
    using proto_found [where N = chainmaker_network, OF c(2,3), of "cm_record ?d", OF _ _ assms(2), of _ old] cm_unpack [OF n(1)] r n(3)
    by (simp add: BoATChainmaker_GetNetworkByIndex_def)
  then show ?thesis using c by blast
qed

theorem chainmaker_without_tls_unreadable_witness:
  "\<exists>i d s'. BoATChainmakerNetworkCreate heap_all (Some (cm_cfg [])) BOAT_STORE_TYPE_FLASH blank_device_large = (Inr i, s') \<and>
    BoATChainmaker_GetNetworkByIndex heap_all i s' (Some cm_blank) = (Inl (Err BOAT_ERROR), Some d)"
  using chainmaker_without_tls_unreadable [OF blank_device_ok(2) heap_all_total blank_networks(3) _ cm_cfg_facts(1,2) _ cm_cfg_facts(5)]
  by (auto simp: cm_cfg_facts)

end
