(* ===== verification/Boat_FabricNetwork.thy ===== *)
theory Boat_FabricNetwork
  imports Boat_ProtoNetwork "HOL-Library.Multiset"
begin

text \<open>
  The network stores of Hyperledger Fabric and HW-BCS (\<open>sdk/network/hlfabric/network_hlfabric.c\<close>, \<open>sdk/network/hwbcs/network_hwbcs.c\<close>): the
  network is a tree of arrays of nodes, each with its number of elements. The two files are the same program up to names, except
  that \<open>BoAT_Free_HwbcsNetworkData\<close> does not free the array of the orderer's nodes; the definitions here are translated from the
  first and take the protocol and the descriptor as arguments. TLS with identification of the client is compiled in.

  An array in a block of its own is the list of its elements; of a certificate in fresh memory only what has been written is
  kept, and a pointer that has not been set is dangling. Sizes of blocks are those of a platform with pointers of eight bytes.
\<close>

subsection \<open>The tables of \<open>fabric_network.pb-c.c\<close> and \<open>hwbcs_network.pb-c.c\<close>\<close>

definition common__fabric_node_info__descriptor :: ProtobufCMessageDescriptor where
  "common__fabric_node_info__descriptor = MessageDescriptor ''common.fabricNodeInfo''
     [FieldDescriptor ''nodeUrl'' 1 PROTOBUF_C_LABEL_NONE PROTOBUF_C_TYPE_STRING None,
      FieldDescriptor ''hostName'' 2 PROTOBUF_C_LABEL_NONE PROTOBUF_C_TYPE_STRING None]
     [1, 0]
     [(1, 0), (0, 2)]"

definition common__fabric_node_group_cfg__descriptor :: ProtobufCMessageDescriptor where
  "common__fabric_node_group_cfg__descriptor = MessageDescriptor ''common.fabricNodeGroupCfg''
     [FieldDescriptor ''quantities'' 1 PROTOBUF_C_LABEL_NONE PROTOBUF_C_TYPE_UINT32 None,
      FieldDescriptor ''endorser'' 2 PROTOBUF_C_LABEL_REPEATED PROTOBUF_C_TYPE_MESSAGE (Some common__fabric_node_info__descriptor),
      FieldDescriptor ''tlsOrgCertContent'' 3 PROTOBUF_C_LABEL_NONE PROTOBUF_C_TYPE_STRING None]
     [1, 0, 2]
     [(1, 0), (0, 3)]"

definition common__fabric_node_layout_cfg__descriptor :: ProtobufCMessageDescriptor where
  "common__fabric_node_layout_cfg__descriptor = MessageDescriptor ''common.fabricNodeLayoutCfg''
     [FieldDescriptor ''groupCfg'' 1 PROTOBUF_C_LABEL_REPEATED PROTOBUF_C_TYPE_MESSAGE (Some common__fabric_node_group_cfg__descriptor)]
     [0]
     [(1, 0), (0, 1)]"

definition common__fabric_network_data__descriptor :: ProtobufCMessageDescriptor where
  "common__fabric_network_data__descriptor = MessageDescriptor ''common.fabricNetworkData''
     [FieldDescriptor ''index'' 1 PROTOBUF_C_LABEL_NONE PROTOBUF_C_TYPE_UINT32 None,
      FieldDescriptor ''accountCertContent'' 2 PROTOBUF_C_LABEL_NONE PROTOBUF_C_TYPE_STRING None,
      FieldDescriptor ''accountClientTlsPrikey'' 3 PROTOBUF_C_LABEL_NONE PROTOBUF_C_TYPE_STRING None,
      FieldDescriptor ''accountClientTlsCert'' 4 PROTOBUF_C_LABEL_NONE PROTOBUF_C_TYPE_STRING None,
      FieldDescriptor ''layoutCfg'' 5 PROTOBUF_C_LABEL_REPEATED PROTOBUF_C_TYPE_MESSAGE (Some common__fabric_node_layout_cfg__descriptor),
      FieldDescriptor ''orderCfg'' 6 PROTOBUF_C_LABEL_NONE PROTOBUF_C_TYPE_MESSAGE (Some common__fabric_node_group_cfg__descriptor)]
     [1, 3, 2, 0, 4, 5]
     [(1, 0), (0, 6)]"

definition common__fabric_networks__descriptor :: ProtobufCMessageDescriptor where
  "common__fabric_networks__descriptor = MessageDescriptor ''common.fabricNetworks''
     [FieldDescriptor ''networkNum'' 1 PROTOBUF_C_LABEL_NONE PROTOBUF_C_TYPE_UINT32 None,
      FieldDescriptor ''networks'' 2 PROTOBUF_C_LABEL_NONE PROTOBUF_C_TYPE_MESSAGE (Some common__fabric_network_data__descriptor)]
     [0, 1]
     [(1, 0), (0, 2)]"

definition common__fabric_nodes_cfg__descriptor :: ProtobufCMessageDescriptor where
  "common__fabric_nodes_cfg__descriptor = MessageDescriptor ''common.fabricNodesCfg''
     [FieldDescriptor ''layoutCfg'' 1 PROTOBUF_C_LABEL_REPEATED PROTOBUF_C_TYPE_MESSAGE (Some common__fabric_node_layout_cfg__descriptor),
      FieldDescriptor ''orderCfg'' 2 PROTOBUF_C_LABEL_NONE PROTOBUF_C_TYPE_MESSAGE (Some common__fabric_node_group_cfg__descriptor)]
     [0, 1]
     [(1, 0), (0, 2)]"

definition common__hwbcs_node_info__descriptor :: ProtobufCMessageDescriptor where
  "common__hwbcs_node_info__descriptor = MessageDescriptor ''common.hwbcsNodeInfo''
     [FieldDescriptor ''nodeUrl'' 1 PROTOBUF_C_LABEL_NONE PROTOBUF_C_TYPE_STRING None,
      FieldDescriptor ''hostName'' 2 PROTOBUF_C_LABEL_NONE PROTOBUF_C_TYPE_STRING None]
     [1, 0]
     [(1, 0), (0, 2)]"

definition common__hwbcs_node_group_cfg__descriptor :: ProtobufCMessageDescriptor where
  "common__hwbcs_node_group_cfg__descriptor = MessageDescriptor ''common.hwbcsNodeGroupCfg''
     [FieldDescriptor ''quantities'' 1 PROTOBUF_C_LABEL_NONE PROTOBUF_C_TYPE_UINT32 None,
      FieldDescriptor ''endorser'' 2 PROTOBUF_C_LABEL_REPEATED PROTOBUF_C_TYPE_MESSAGE (Some common__hwbcs_node_info__descriptor),
      FieldDescriptor ''tlsOrgCertContent'' 3 PROTOBUF_C_LABEL_NONE PROTOBUF_C_TYPE_STRING None]
     [1, 0, 2]
     [(1, 0), (0, 3)]"

definition common__hwbcs_node_layout_cfg__descriptor :: ProtobufCMessageDescriptor where
  "common__hwbcs_node_layout_cfg__descriptor = MessageDescriptor ''common.hwbcsNodeLayoutCfg''
     [FieldDescriptor ''groupCfg'' 1 PROTOBUF_C_LABEL_REPEATED PROTOBUF_C_TYPE_MESSAGE (Some common__hwbcs_node_group_cfg__descriptor)]
     [0]
     [(1, 0), (0, 1)]"

definition common__hwbcs_network_data__descriptor :: ProtobufCMessageDescriptor where
  "common__hwbcs_network_data__descriptor = MessageDescriptor ''common.hwbcsNetworkData''
     [FieldDescriptor ''index'' 1 PROTOBUF_C_LABEL_NONE PROTOBUF_C_TYPE_UINT32 None,
      FieldDescriptor ''accountCertContent'' 2 PROTOBUF_C_LABEL_NONE PROTOBUF_C_TYPE_STRING None,
      FieldDescriptor ''accountClientTlsPrikey'' 3 PROTOBUF_C_LABEL_NONE PROTOBUF_C_TYPE_STRING None,
      FieldDescriptor ''accountClientTlsCert'' 4 PROTOBUF_C_LABEL_NONE PROTOBUF_C_TYPE_STRING None,
      FieldDescriptor ''layoutCfg'' 5 PROTOBUF_C_LABEL_REPEATED PROTOBUF_C_TYPE_MESSAGE (Some common__hwbcs_node_layout_cfg__descriptor),
      FieldDescriptor ''orderCfg'' 6 PROTOBUF_C_LABEL_NONE PROTOBUF_C_TYPE_MESSAGE (Some common__hwbcs_node_group_cfg__descriptor)]
     [1, 3, 2, 0, 4, 5]
     [(1, 0), (0, 6)]"

definition common__hwbcs_networks__descriptor :: ProtobufCMessageDescriptor where
  "common__hwbcs_networks__descriptor = MessageDescriptor ''common.hwbcsNetworks''
     [FieldDescriptor ''networkNum'' 1 PROTOBUF_C_LABEL_NONE PROTOBUF_C_TYPE_UINT32 None,
      FieldDescriptor ''networks'' 2 PROTOBUF_C_LABEL_NONE PROTOBUF_C_TYPE_MESSAGE (Some common__hwbcs_network_data__descriptor)]
     [0, 1]
     [(1, 0), (0, 2)]"

definition common__hwbcs_nodes_cfg__descriptor :: ProtobufCMessageDescriptor where
  "common__hwbcs_nodes_cfg__descriptor = MessageDescriptor ''common.hwbcsNodesCfg''
     [FieldDescriptor ''layoutCfg'' 1 PROTOBUF_C_LABEL_REPEATED PROTOBUF_C_TYPE_MESSAGE (Some common__hwbcs_node_layout_cfg__descriptor),
      FieldDescriptor ''orderCfg'' 2 PROTOBUF_C_LABEL_NONE PROTOBUF_C_TYPE_MESSAGE (Some common__hwbcs_node_group_cfg__descriptor)]
     [0, 1]
     [(1, 0), (0, 2)]"

subsection \<open>Data\<close>

record BoatHlfabricNodeInfoCfg =
  ni_nodeUrl :: "bytes pointer"
  ni_hostName :: "bytes pointer"

record BoatHlfabricNodeGroupCfg =
  ng_endorserNumber :: u8
  ng_quantities :: u8
  ng_endorser :: "BoatHlfabricNodeInfoCfg list pointer"
  ng_tlsOrgCertContent :: CertInfoCfg

record BoatHlfabricNodeLayoutCfg =
  nl_endorserGroupNum :: u8
  nl_groupCfg :: "BoatHlfabricNodeGroupCfg list pointer"

record BoatHlfabricNodesCfg =
  nc_endorserLayoutNum :: u8
  nc_layoutCfg :: "BoatHlfabricNodeLayoutCfg list pointer"
  nc_orderCfg :: BoatHlfabricNodeGroupCfg

record BoatHlfabricNetworkConfig =
  hfc_accountCertContent :: CertInfoCfg
  hfc_accountClientTlsPrikey :: CertInfoCfg
  hfc_accountClientTlsCert :: CertInfoCfg
  hfc_nodesCfg :: BoatHlfabricNodesCfg

record BoatHlfabricNetworkData =
  hf_index :: u8
  hf_accountCertContent :: CertInfoCfg
  hf_accountClientTlsPrikey :: CertInfoCfg
  hf_accountClientTlsCert :: CertInfoCfg
  hf_nodesCfg :: BoatHlfabricNodesCfg

subsection \<open>Arrays\<close>

text \<open>The loop over the first \<open>n\<close> elements of an array, whose pointer is not looked at when there are none.\<close>

fun for_each :: "nat \<Rightarrow> ('a \<Rightarrow> 'b res) \<Rightarrow> 'a list \<Rightarrow> 'b list res" where
  "for_each 0 f xs = Inr []"
| "for_each (Suc k) f [] = Inl UB"
| "for_each (Suc k) f (x # xs) = bindR (f x) (\<lambda>y. bindR (for_each k f xs) (\<lambda>ys. Inr (y # ys)))"

definition in_array :: "u8 \<Rightarrow> ('a \<Rightarrow> 'b res) \<Rightarrow> 'a list pointer \<Rightarrow> 'b list res" where
  "in_array n f p = (if n = 0 then Inr [] else (case p of Ptr xs \<Rightarrow> for_each (unat n) f xs | _ \<Rightarrow> Inl UB))"

text \<open>Filling the elements of a new array in order; when an element fails, the array ends with what has been written of it.\<close>

fun for_build :: "('m \<Rightarrow> unit res \<times> 'a) \<Rightarrow> 'm list \<Rightarrow> unit res \<times> 'a list" where
  "for_build f [] = (Inr (), [])"
| "for_build f (m # ms) =
     (case f m of
        (Inl e, x) \<Rightarrow> (Inl e, [x])
      | (Inr _, x) \<Rightarrow> (case for_build f ms of (r, xs) \<Rightarrow> (r, x # xs)))"

subsection \<open>Checking a configuration\<close>

abbreviation BOAT_ERROR_NETWORK_NODECFG_ERR :: int where "BOAT_ERROR_NETWORK_NODECFG_ERR \<equiv> - 10210010"

definition check_node :: "BoatHlfabricNodeInfoCfg \<Rightarrow> unit res" where
  "check_node n =
     guardR (ni_hostName n = NullPtr) BOAT_ERROR_NETWORK_NODECFG_ERR
    (guardR (ni_nodeUrl n = NullPtr) BOAT_ERROR_NETWORK_NODECFG_ERR
    (Inr ()))"

definition check_group :: "BoatHlfabricNodeGroupCfg \<Rightarrow> unit res" where
  "check_group g =
     guardR (ng_endorserNumber g = 0) BOAT_ERROR_NETWORK_NODECFG_ERR
    (guardR (ng_endorser g = NullPtr) BOAT_ERROR_NETWORK_NODECFG_ERR
    (guardR (ng_endorserNumber g < ng_quantities g) BOAT_ERROR_NETWORK_NODECFG_ERR
    (bindR (in_array (ng_endorserNumber g) check_node (ng_endorser g)) (\<lambda>_. Inr ()))))"

definition check_layout :: "BoatHlfabricNodeLayoutCfg \<Rightarrow> unit res" where
  "check_layout l =
     guardR (nl_endorserGroupNum l = 0) BOAT_ERROR_NETWORK_NODECFG_ERR
    (guardR (nl_groupCfg l = NullPtr) BOAT_ERROR_NETWORK_NODECFG_ERR
    (bindR (in_array (nl_endorserGroupNum l) check_group (nl_groupCfg l)) (\<lambda>_. Inr ())))"

definition BoATHlfabric_checkNodefig :: "BoatHlfabricNodesCfg \<Rightarrow> unit res" where
  "BoATHlfabric_checkNodefig nodeCfg =
     (let ord = nc_orderCfg nodeCfg in
      guardR (nc_endorserLayoutNum nodeCfg = 0) BOAT_ERROR_NETWORK_NODECFG_ERR
     (guardR (nc_layoutCfg nodeCfg = NullPtr) BOAT_ERROR_NETWORK_NODECFG_ERR
     (bindR (in_array (nc_endorserLayoutNum nodeCfg) check_layout (nc_layoutCfg nodeCfg)) (\<lambda>_.
      guardR (ng_endorserNumber ord = 0) BOAT_ERROR_NETWORK_NODECFG_ERR
     (guardR (ng_endorser ord = NullPtr) BOAT_ERROR_NETWORK_NODECFG_ERR
     (bindR (in_array (ng_endorserNumber ord) check_node (ng_endorser ord)) (\<lambda>_. Inr ())))))))"

subsection \<open>Freeing a network\<close>

text \<open>
  Freeing reports the blocks it releases, in order: texts with their content, arrays with the number of their elements. A text's pointer is
  reset after it was freed; an array is freed after its elements and its pointer dangles. A pointer that dangles cannot be freed.
\<close>

datatype heap_block = TextBlock bytes | ArrayBlock nat

fun free_text :: "bytes pointer \<Rightarrow> (bytes pointer \<times> heap_block list) res" where
  "free_text NullPtr = Inr (NullPtr, [])"
| "free_text (Ptr b) = Inr (NullPtr, [TextBlock b])"
| "free_text Dangling = Inl UB"

definition free_node :: "BoatHlfabricNodeInfoCfg \<Rightarrow> (BoatHlfabricNodeInfoCfg \<times> heap_block list) res" where
  "free_node n =
     bindR (free_text (ni_hostName n)) (\<lambda>(host, bs).
     bindR (free_text (ni_nodeUrl n)) (\<lambda>(url, cs).
       Inr (n\<lparr>ni_hostName := host, ni_nodeUrl := url\<rparr>, bs @ cs)))"

definition free_array :: "u8 \<Rightarrow> ('a \<Rightarrow> ('a \<times> heap_block list) res) \<Rightarrow> 'a list pointer \<Rightarrow> ('a list pointer \<times> heap_block list) res" where
  "free_array n f p =
     bindR (in_array n f p) (\<lambda>ys.
       if n = 0 then Inr (p, [])
       else (case p of
               Ptr xs \<Rightarrow> Inr (Dangling, concat (map snd ys) @ [ArrayBlock (length xs)])
             | _ \<Rightarrow> Inl UB))"

definition free_group :: "BoatHlfabricNodeGroupCfg \<Rightarrow> (BoatHlfabricNodeGroupCfg \<times> heap_block list) res" where
  "free_group g =
     bindR (free_array (ng_endorserNumber g) free_node (ng_endorser g)) (\<lambda>(p, bs).
       Inr (g\<lparr>ng_quantities := 0, ng_endorser := p, ng_tlsOrgCertContent := (ng_tlsOrgCertContent g)\<lparr>cert_length := 0\<rparr>\<rparr>, bs))"

definition free_layout :: "BoatHlfabricNodeLayoutCfg \<Rightarrow> (BoatHlfabricNodeLayoutCfg \<times> heap_block list) res" where
  "free_layout l = bindR (free_array (nl_endorserGroupNum l) free_group (nl_groupCfg l)) (\<lambda>(p, bs). Inr (l\<lparr>nl_groupCfg := p\<rparr>, bs))"

text \<open>
  The network is passed by value: its counts and lengths are reset in the copy only. The elements of its arrays are those of the caller, but their
  arrays are freed after them; what the caller's object is left with are its two dangling pointers.
\<close>

definition BoATHlfabric_FreeNetworkData :: "BoatHlfabricNetworkData \<Rightarrow> (BoatHlfabricNetworkData \<times> heap_block list) res" where
  "BoATHlfabric_FreeNetworkData d =
     (let c = hf_nodesCfg d; ord = nc_orderCfg c in
      bindR (free_array (nc_endorserLayoutNum c) free_layout (nc_layoutCfg c)) (\<lambda>(p, bs).
      bindR (free_array (ng_endorserNumber ord) free_node (ng_endorser ord)) (\<lambda>(q, cs).
        Inr (d\<lparr>hf_nodesCfg := c\<lparr>nc_layoutCfg := p, nc_orderCfg := ord\<lparr>ng_endorser := q\<rparr>\<rparr>\<rparr>, bs @ cs))))"

text \<open>The first \<open>networkNum\<close> networks of a context, which is passed by value as well.\<close>

definition BoATHlfabric_FreeNetworkContext ::
  "BoatHlfabricNetworkData ProtoContext \<Rightarrow> (BoatHlfabricNetworkData ProtoContext \<times> heap_block list) res" where
  "BoATHlfabric_FreeNetworkContext networkList =
     (let n = unat (pc_networkNum networkList) in
      bindR (for_each n BoATHlfabric_FreeNetworkData (pc_networks networkList)) (\<lambda>ys.
        Inr (networkList\<lparr>pc_networks := map fst ys @ drop n (pc_networks networkList)\<rparr>, concat (map snd ys))))"

subsection \<open>From the message\<close>

definition checked_block :: "(nat \<Rightarrow> bytes option) \<Rightarrow> bytes \<Rightarrow> bytes pointer res" where
  "checked_block mal s =
     (case mal (length s + 1) of
        None \<Rightarrow> Inl (Err BOAT_ERROR_COMMON_OUT_OF_MEMORY)
      | Some b \<Rightarrow> bindR (buf_put b 0 (s @ [0])) (\<lambda>b'. Inr (Ptr b')))"

definition node_from :: "(nat \<Rightarrow> bytes option) \<Rightarrow> ProtobufCValue \<Rightarrow> unit res \<times> BoatHlfabricNodeInfoCfg" where
  "node_from mal v =
     (case v of
        SubMessage (Some (Message [String url, String host] us)) \<Rightarrow>
          (case checked_block mal (str_content host) of
             Inl e \<Rightarrow> (Inl e, \<lparr>ni_nodeUrl = Dangling, ni_hostName = NullPtr\<rparr>)
           | Inr h \<Rightarrow>
               (case checked_block mal (str_content url) of
                  Inl e \<Rightarrow> (Inl e, \<lparr>ni_nodeUrl = NullPtr, ni_hostName = h\<rparr>)
                | Inr u \<Rightarrow> (Inr (), \<lparr>ni_nodeUrl = u, ni_hostName = h\<rparr>)))
      | _ \<Rightarrow> (Inl UB, \<lparr>ni_nodeUrl = Dangling, ni_hostName = Dangling\<rparr>))"

definition group_from :: "(nat \<Rightarrow> bytes option) \<Rightarrow> ProtobufCValue \<Rightarrow> unit res \<times> BoatHlfabricNodeGroupCfg" where
  "group_from mal v =
     (case v of
        SubMessage (Some (Message [Word32 q, Repeated es, String cert] us)) \<Rightarrow>
          let n = of_nat (length es);
              s = str_content cert;
              g = \<lparr>ng_endorserNumber = n, ng_quantities = ucast q, ng_endorser = Dangling,
                   ng_tlsOrgCertContent = \<lparr>cert_length = 0, cert_content = []\<rparr>\<rparr>
          in if CERT_MAX_LEN < length s then (Inl (Err BOAT_ERROR), g)
             else if length s = CERT_MAX_LEN then (Inl UB, g)
             else
               let g = g\<lparr>ng_tlsOrgCertContent := \<lparr>cert_length = of_nat (length s), cert_content = s @ [0]\<rparr>\<rparr> in
               (case mal (unat n * 16) of
                  None \<Rightarrow> (Inl (Err BOAT_ERROR_COMMON_OUT_OF_MEMORY), g\<lparr>ng_endorser := NullPtr\<rparr>)
                | Some _ \<Rightarrow>
                    (case for_build (node_from mal) (take (unat n) es) of (r, ns) \<Rightarrow> (r, g\<lparr>ng_endorser := Ptr ns\<rparr>)))
      | _ \<Rightarrow> (Inl UB, \<lparr>ng_endorserNumber = 0, ng_quantities = 0, ng_endorser = Dangling,
                 ng_tlsOrgCertContent = \<lparr>cert_length = 0, cert_content = []\<rparr>\<rparr>))"

definition layout_from :: "(nat \<Rightarrow> bytes option) \<Rightarrow> ProtobufCValue \<Rightarrow> unit res \<times> BoatHlfabricNodeLayoutCfg" where
  "layout_from mal v =
     (case v of
        SubMessage (Some (Message [Repeated gs] us)) \<Rightarrow>
          let n = of_nat (length gs) in
          (case mal (unat n * 1048) of
             None \<Rightarrow> (Inl (Err BOAT_ERROR_COMMON_OUT_OF_MEMORY), \<lparr>nl_endorserGroupNum = n, nl_groupCfg = NullPtr\<rparr>)
           | Some _ \<Rightarrow>
               (case for_build (group_from mal) (take (unat n) gs) of
                  (r, xs) \<Rightarrow> (r, \<lparr>nl_endorserGroupNum = n, nl_groupCfg = Ptr xs\<rparr>)))
      | _ \<Rightarrow> (Inl UB, \<lparr>nl_endorserGroupNum = 0, nl_groupCfg = Dangling\<rparr>))"

definition layouts_member ::
  "(nat \<Rightarrow> bytes option) \<Rightarrow> ProtobufCValue list \<Rightarrow> BoatHlfabricNetworkData \<Rightarrow> unit res \<times> BoatHlfabricNetworkData" where
  "layouts_member mal ls d =
     (let n = of_nat (length ls);
          put = (\<lambda>p. d\<lparr>hf_nodesCfg := (hf_nodesCfg d)\<lparr>nc_endorserLayoutNum := n, nc_layoutCfg := p\<rparr>\<rparr>)
      in case mal (unat n * 16) of
           None \<Rightarrow> (Inl (Err BOAT_ERROR_COMMON_OUT_OF_MEMORY), put NullPtr)
         | Some _ \<Rightarrow> (case for_build (layout_from mal) (take (unat n) ls) of (r, xs) \<Rightarrow> (r, put (Ptr xs))))"

definition put_order :: "(BoatHlfabricNodeGroupCfg \<Rightarrow> BoatHlfabricNodeGroupCfg) \<Rightarrow> BoatHlfabricNetworkData \<Rightarrow> BoatHlfabricNetworkData" where
  "put_order f d = d\<lparr>hf_nodesCfg := (hf_nodesCfg d)\<lparr>nc_orderCfg := f (nc_orderCfg (hf_nodesCfg d))\<rparr>\<rparr>"

text \<open>The block for the nodes of the orderer is not checked.\<close>

definition order_member ::
  "(nat \<Rightarrow> bytes option) \<Rightarrow> ProtobufCMessage option \<Rightarrow> BoatHlfabricNetworkData \<Rightarrow> unit res \<times> BoatHlfabricNetworkData" where
  "order_member mal ord =
     (case ord of
        Some (Message [Word32 q, Repeated es, String cert] us) \<Rightarrow>
          let n = of_nat (length es) in
          bindS (updS (put_order (\<lambda>g. g\<lparr>ng_endorserNumber := n, ng_quantities := ucast q\<rparr>))) (\<lambda>_.
          bindS (check_length (CERT_MAX_LEN < length (str_content cert))) (\<lambda>_.
          bindS (copy_member (\<lambda>d. ng_tlsOrgCertContent (nc_orderCfg (hf_nodesCfg d))) (\<lambda>c. put_order (\<lambda>g. g\<lparr>ng_tlsOrgCertContent := c\<rparr>)) cert) (\<lambda>_.
            case mal (unat n * 16) of
              None \<Rightarrow> bindS (updS (put_order (\<lambda>g. g\<lparr>ng_endorser := NullPtr\<rparr>))) (\<lambda>_. liftS (if n = 0 then Inr () else Inl UB))
            | Some _ \<Rightarrow>
                (case for_build (node_from mal) (take (unat n) es) of
                   (r, ns) \<Rightarrow> bindS (updS (put_order (\<lambda>g. g\<lparr>ng_endorser := Ptr ns\<rparr>))) (\<lambda>_. liftS r)))))
      | _ \<Rightarrow> liftS (Inl UB))"

definition BoATHlfabric_getNetworkFromProto ::
  "(nat \<Rightarrow> bytes option) \<Rightarrow> ProtobufCMessage \<Rightarrow> BoatHlfabricNetworkData \<Rightarrow> unit res \<times> BoatHlfabricNetworkData" where
  "BoATHlfabric_getNetworkFromProto mal m =
     (case members m of
        [Word32 index, String cert, String prikey, String tlscert, Repeated ls, SubMessage ord] \<Rightarrow>
          bindS (updS (\<lambda>d. d\<lparr>hf_index := ucast index\<rparr>)) (\<lambda>_.
          bindS (check_length (CERT_MAX_LEN < length (str_content cert))) (\<lambda>_.
          bindS (copy_member hf_accountCertContent (\<lambda>c d. d\<lparr>hf_accountCertContent := c\<rparr>) cert) (\<lambda>_.
          bindS (layouts_member mal ls) (\<lambda>_.
          bindS (order_member mal ord) (\<lambda>_.
          bindS (check_length (tls_too_long (str_content prikey) 512)) (\<lambda>_.
          bindS (copy_member hf_accountClientTlsPrikey (\<lambda>c d. d\<lparr>hf_accountClientTlsPrikey := c\<rparr>) prikey) (\<lambda>_.
          bindS (check_length (tls_too_long (str_content tlscert) CERT_MAX_LEN)) (\<lambda>_.
            copy_member hf_accountClientTlsCert (\<lambda>c d. d\<lparr>hf_accountClientTlsCert := c\<rparr>) tlscert))))))))
      | _ \<Rightarrow> liftS (Inl UB))"

subsection \<open>To the message\<close>

text \<open>
  The message under construction as its error path sees it: the number of layouts and their array, and the orderer's message with the number and the array
  of its nodes. The error path frees all of it, and goes through arrays that are not there yet.
\<close>

record FabricProto =
  fp_n_layoutcfg :: nat
  fp_layoutcfg :: "ProtobufCValue list pointer"
  fp_ordercfg :: "(nat \<times> ProtobufCValue list pointer) pointer"

definition freeable :: "nat \<Rightarrow> 'a list pointer \<Rightarrow> bool" where
  "freeable n p \<longleftrightarrow> n = 0 \<or> (case p of Ptr xs \<Rightarrow> n \<le> length xs | _ \<Rightarrow> False)"

definition BoAT_Free_FabricNetworkData :: "FabricProto \<Rightarrow> unit res" where
  "BoAT_Free_FabricNetworkData p =
     (if freeable (fp_n_layoutcfg p) (fp_layoutcfg p)
      then (case fp_ordercfg p of
              Ptr (n, es) \<Rightarrow> if freeable n es then Inr () else Inl UB
            | _ \<Rightarrow> Inl UB)
      else Inl UB)"

definition fabric_throw :: "FabricProto \<Rightarrow> 'a res" where
  "fabric_throw p = bindR (BoAT_Free_FabricNetworkData p) (\<lambda>_. Inl (Err BOAT_ERROR_COMMON_OUT_OF_MEMORY))"

text \<open>Strings are read where their pointers are put into the message.\<close>

definition node_message :: "(nat \<Rightarrow> bytes option) \<Rightarrow> FabricProto \<Rightarrow> BoatHlfabricNodeInfoCfg \<Rightarrow> ProtobufCValue res" where
  "node_message mal p n =
     (case mal 40 of
        None \<Rightarrow> fabric_throw p
      | Some _ \<Rightarrow>
          bindR (message_string (ni_nodeUrl n)) (\<lambda>url.
          bindR (message_string (ni_hostName n)) (\<lambda>host.
            Inr (SubMessage (Some (Message [String url, String host] []))))))"

definition group_message :: "(nat \<Rightarrow> bytes option) \<Rightarrow> FabricProto \<Rightarrow> BoatHlfabricNodeGroupCfg \<Rightarrow> ProtobufCValue res" where
  "group_message mal p g =
     (case mal 56 of
        None \<Rightarrow> fabric_throw p
      | Some _ \<Rightarrow>
          bindR (c_string (cert_content (ng_tlsOrgCertContent g))) (\<lambda>cert.
          case mal (unat (ng_endorserNumber g) * 8) of
            None \<Rightarrow> fabric_throw p
          | Some _ \<Rightarrow>
              bindR (in_array (ng_endorserNumber g) (node_message mal p) (ng_endorser g)) (\<lambda>es.
                Inr (SubMessage (Some (Message [Word32 (ucast (ng_quantities g)), Repeated es, String (Str cert)] []))))))"

text \<open>The block for the message of a layout is not checked.\<close>

definition layout_message :: "(nat \<Rightarrow> bytes option) \<Rightarrow> FabricProto \<Rightarrow> BoatHlfabricNodeLayoutCfg \<Rightarrow> ProtobufCValue res" where
  "layout_message mal p l =
     (case mal 40 of
        None \<Rightarrow> Inl UB
      | Some _ \<Rightarrow>
          (case mal (unat (nl_endorserGroupNum l) * 8) of
             None \<Rightarrow> fabric_throw p
           | Some _ \<Rightarrow>
               bindR (in_array (nl_endorserGroupNum l) (group_message mal p) (nl_groupCfg l)) (\<lambda>gs.
                 Inr (SubMessage (Some (Message [Repeated gs] []))))))"

definition order_message :: "(nat \<Rightarrow> bytes option) \<Rightarrow> FabricProto \<Rightarrow> BoatHlfabricNodeGroupCfg \<Rightarrow> ProtobufCMessage res" where
  "order_message mal p g =
     (case mal 56 of
        None \<Rightarrow> fabric_throw p
      | Some _ \<Rightarrow>
          let n = ng_endorserNumber g;
              p = p\<lparr>fp_ordercfg := Ptr (unat n, NullPtr)\<rparr>
          in bindR (c_string (cert_content (ng_tlsOrgCertContent g))) (\<lambda>cert.
             case mal (unat n * 8) of
               None \<Rightarrow> fabric_throw p
             | Some _ \<Rightarrow>
                 bindR (in_array n (node_message mal p) (ng_endorser g)) (\<lambda>es.
                   Inr (Message [Word32 (ucast (ng_quantities g)), Repeated es, String (Str cert)] []))))"

definition fabric_message :: "(nat \<Rightarrow> bytes option) \<Rightarrow> BoatHlfabricNetworkData \<Rightarrow> ProtobufCMessage res" where
  "fabric_message mal d =
     (let c = hf_nodesCfg d;
          n = nc_endorserLayoutNum c;
          p = \<lparr>fp_n_layoutcfg = unat n, fp_layoutcfg = NullPtr, fp_ordercfg = NullPtr\<rparr>
      in bindR (c_string (cert_content (hf_accountCertContent d))) (\<lambda>cert.
         case mal (unat n * 8) of
           None \<Rightarrow> fabric_throw p
         | Some _ \<Rightarrow>
             bindR (in_array n (layout_message mal p) (nc_layoutCfg c)) (\<lambda>ls.
             bindR (order_message mal (p\<lparr>fp_layoutcfg := Ptr ls\<rparr>) (nc_orderCfg c)) (\<lambda>ord.
             bindR (c_string (cert_content (hf_accountClientTlsPrikey d))) (\<lambda>prikey.
             bindR (c_string (cert_content (hf_accountClientTlsCert d))) (\<lambda>tlscert.
               Inr (Message [Word32 (ucast (hf_index d)), String (Str cert), String (Str prikey), String (Str tlscert), Repeated ls, SubMessage (Some ord)] [])))))))"

subsection \<open>The stores\<close>

definition fabric_like :: "BoatProtocolType \<Rightarrow> ProtobufCMessageDescriptor \<Rightarrow> BoatHlfabricNetworkData ProtoNetwork" where
  "fabric_like protocol desc = \<lparr>pn_protocol = protocol, pn_descriptor = desc, pn_index = hf_index,
     pn_to_message = fabric_message, pn_from_message = BoATHlfabric_getNetworkFromProto\<rparr>"

definition BoATHlfabricNetworkDataInit :: "BoatHlfabricNetworkData \<Rightarrow> BoatHlfabricNetworkData" where
  "BoATHlfabricNetworkDataInit d =
     (let c = hf_nodesCfg d; ord = nc_orderCfg c in
      d\<lparr>hf_index := 0, hf_accountCertContent := (hf_accountCertContent d)\<lparr>cert_length := 0\<rparr>,
        hf_nodesCfg := \<lparr>nc_endorserLayoutNum = 0, nc_layoutCfg = NullPtr,
          nc_orderCfg = ord\<lparr>ng_quantities := 0, ng_tlsOrgCertContent := (ng_tlsOrgCertContent ord)\<lparr>cert_length := 0\<rparr>,
            ng_endorserNumber := 0, ng_endorser := NullPtr\<rparr>\<rparr>\<rparr>)"

definition fabric_created :: "BoatHlfabricNetworkConfig \<Rightarrow> u8 \<Rightarrow> BoatHlfabricNetworkData" where
  "fabric_created cfg i = \<lparr>hf_index = i, hf_accountCertContent = hfc_accountCertContent cfg, hf_accountClientTlsPrikey = hfc_accountClientTlsPrikey cfg,
     hf_accountClientTlsCert = hfc_accountClientTlsCert cfg, hf_nodesCfg = hfc_nodesCfg cfg\<rparr>"

definition fabric_create ::
  "BoatHlfabricNetworkData ProtoNetwork \<Rightarrow> (nat \<Rightarrow> bytes option) \<Rightarrow> BoatHlfabricNetworkConfig option \<Rightarrow> BoatStoreType \<Rightarrow> nvram \<Rightarrow> u8 res \<times> nvram" where
  "fabric_create N mal networkConfig storeType s =
     (case networkConfig of
        None \<Rightarrow> (Inl (Err BOAT_ERROR_COMMON_INVALID_ARGUMENT), s)
      | Some cfg \<Rightarrow>
          bindS (liftS (case BoATHlfabric_checkNodefig (hfc_nodesCfg cfg) of
                   Inl (Err _) \<Rightarrow> Inl (Err BOAT_ERROR_NETWORK_NODECFG_ERR)
                 | r \<Rightarrow> r)) (\<lambda>_.
            proto_create_with N mal (\<lambda>i. Inr (fabric_created cfg i)) storeType) s)"

definition fabric_network :: "BoatHlfabricNetworkData ProtoNetwork" where
  "fabric_network = fabric_like BOAT_PROTOCOL_HLFABRIC common__fabric_network_data__descriptor"

definition BoATHlfabric_GetNetworkFromNvram ::
  "(nat \<Rightarrow> bytes option) \<Rightarrow> (nat \<Rightarrow> u32 \<Rightarrow> u32 \<Rightarrow> 's \<Rightarrow> bytes res) \<Rightarrow> u32 \<Rightarrow> 's \<Rightarrow> BoatHlfabricNetworkData \<Rightarrow> u32 res \<times> BoatHlfabricNetworkData" where
  "BoATHlfabric_GetNetworkFromNvram = proto_GetNetworkFromNvram fabric_network"

definition BoATHlfabric_GetNetworkList ::
  "(nat \<Rightarrow> bytes option) \<Rightarrow> nvram \<Rightarrow> BoatHlfabricNetworkData ProtoContext option \<Rightarrow> unit res \<times> BoatHlfabricNetworkData ProtoContext option" where
  "BoATHlfabric_GetNetworkList = proto_GetNetworkList fabric_network"

definition BoATHlfabric_GetFreeNetworkIndex_From_Persistent :: "nvram \<Rightarrow> nat res" where
  "BoATHlfabric_GetFreeNetworkIndex_From_Persistent = GetFreeNetworkIndex_From_Persistent"

definition BoATHlfabric_Get_Network_Data :: "(nat \<Rightarrow> bytes option) \<Rightarrow> BoatHlfabricNetworkData \<Rightarrow> (bytes \<times> u32) res" where
  "BoATHlfabric_Get_Network_Data = proto_Get_Network_Data fabric_network"

definition BoATHlfabric_NetworkDataCtx_Store ::
  "(nat \<Rightarrow> bytes option) \<Rightarrow> BoatHlfabricNetworkData \<Rightarrow> BoatStoreType \<Rightarrow> nvram \<Rightarrow> unit res \<times> nvram" where
  "BoATHlfabric_NetworkDataCtx_Store = proto_NetworkDataCtx_Store fabric_network"

definition BoatHlfabricNetworkCreate ::
  "(nat \<Rightarrow> bytes option) \<Rightarrow> BoatHlfabricNetworkConfig option \<Rightarrow> BoatStoreType \<Rightarrow> nvram \<Rightarrow> u8 res \<times> nvram" where
  "BoatHlfabricNetworkCreate = fabric_create fabric_network"

definition BoATHlfabricNetworkDelete :: "(nat \<Rightarrow> bytes option) \<Rightarrow> u8 \<Rightarrow> nvram \<Rightarrow> unit res \<times> nvram" where
  "BoATHlfabricNetworkDelete = NetworkDelete BOAT_PROTOCOL_HLFABRIC"

definition BoATHlfabric_GetNetworkByIndex ::
  "(nat \<Rightarrow> bytes option) \<Rightarrow> u8 \<Rightarrow> nvram \<Rightarrow> BoatHlfabricNetworkData option \<Rightarrow> unit res \<times> BoatHlfabricNetworkData option" where
  "BoATHlfabric_GetNetworkByIndex = proto_GetNetworkByIndex fabric_network"

definition hwbcs_network :: "BoatHlfabricNetworkData ProtoNetwork" where
  "hwbcs_network = fabric_like BOAT_PROTOCOL_HWBCS common__hwbcs_network_data__descriptor"

text \<open>HW-BCS: the functions of \<open>network_hwbcs.c\<close> that are not instances of the common program.\<close>

definition BoATHwbcs_checkNodefig :: "BoatHlfabricNodesCfg \<Rightarrow> unit res" where
  "BoATHwbcs_checkNodefig = BoATHlfabric_checkNodefig"

definition BoATHwbcs_FreeNetworkData :: "BoatHlfabricNetworkData \<Rightarrow> (BoatHlfabricNetworkData \<times> heap_block list) res" where
  "BoATHwbcs_FreeNetworkData = BoATHlfabric_FreeNetworkData"

definition BoATHwbcs_getNetworkFromProto ::
  "(nat \<Rightarrow> bytes option) \<Rightarrow> ProtobufCMessage \<Rightarrow> BoatHlfabricNetworkData \<Rightarrow> unit res \<times> BoatHlfabricNetworkData" where
  "BoATHwbcs_getNetworkFromProto = BoATHlfabric_getNetworkFromProto"

definition BoATHwbcs_FreeNetworkContext ::
  "BoatHlfabricNetworkData ProtoContext \<Rightarrow> (BoatHlfabricNetworkData ProtoContext \<times> heap_block list) res" where
  "BoATHwbcs_FreeNetworkContext = BoATHlfabric_FreeNetworkContext"

definition BoATHwbcs_GetNetworkFromNvram ::
  "(nat \<Rightarrow> bytes option) \<Rightarrow> (nat \<Rightarrow> u32 \<Rightarrow> u32 \<Rightarrow> 's \<Rightarrow> bytes res) \<Rightarrow> u32 \<Rightarrow> 's \<Rightarrow> BoatHlfabricNetworkData \<Rightarrow> u32 res \<times> BoatHlfabricNetworkData" where
  "BoATHwbcs_GetNetworkFromNvram = proto_GetNetworkFromNvram hwbcs_network"

definition BoATHwbcs_GetNetworkList ::
  "(nat \<Rightarrow> bytes option) \<Rightarrow> nvram \<Rightarrow> BoatHlfabricNetworkData ProtoContext option \<Rightarrow> unit res \<times> BoatHlfabricNetworkData ProtoContext option" where
  "BoATHwbcs_GetNetworkList = proto_GetNetworkList hwbcs_network"

definition BoATHwbcs_GetFreeNetworkIndex_From_Persistent :: "nvram \<Rightarrow> nat res" where
  "BoATHwbcs_GetFreeNetworkIndex_From_Persistent = GetFreeNetworkIndex_From_Persistent"

definition BoATHwbcs_Get_Network_Data :: "(nat \<Rightarrow> bytes option) \<Rightarrow> BoatHlfabricNetworkData \<Rightarrow> (bytes \<times> u32) res" where
  "BoATHwbcs_Get_Network_Data = proto_Get_Network_Data hwbcs_network"

definition BoATHwbcs_NetworkDataCtx_Store ::
  "(nat \<Rightarrow> bytes option) \<Rightarrow> BoatHlfabricNetworkData \<Rightarrow> BoatStoreType \<Rightarrow> nvram \<Rightarrow> unit res \<times> nvram" where
  "BoATHwbcs_NetworkDataCtx_Store = proto_NetworkDataCtx_Store hwbcs_network"

definition BoATHwbcsNetworkCreate ::
  "(nat \<Rightarrow> bytes option) \<Rightarrow> BoatHlfabricNetworkConfig option \<Rightarrow> BoatStoreType \<Rightarrow> nvram \<Rightarrow> u8 res \<times> nvram" where
  "BoATHwbcsNetworkCreate = fabric_create hwbcs_network"

definition BoATHwbcsNetworkDelete :: "(nat \<Rightarrow> bytes option) \<Rightarrow> u8 \<Rightarrow> nvram \<Rightarrow> unit res \<times> nvram" where
  "BoATHwbcsNetworkDelete = NetworkDelete BOAT_PROTOCOL_HWBCS"

definition BoATHwbcs_GetNetworkByIndex ::
  "(nat \<Rightarrow> bytes option) \<Rightarrow> u8 \<Rightarrow> nvram \<Rightarrow> BoatHlfabricNetworkData option \<Rightarrow> unit res \<times> BoatHlfabricNetworkData option" where
  "BoATHwbcs_GetNetworkByIndex = proto_GetNetworkByIndex hwbcs_network"

subsection \<open>Reference notions\<close>

text \<open>
  What a network says, apart from where it lies: a node is its URL and host name; a group its quantity, nodes and certificate; a layout its groups.
\<close>

type_synonym node_text = "bytes \<times> bytes"
type_synonym group_text = "u8 \<times> node_text list \<times> bytes"

definition items :: "u8 \<Rightarrow> 'a list pointer \<Rightarrow> 'a list" where
  "items n p = (case p of Ptr xs \<Rightarrow> take (unat n) xs | _ \<Rightarrow> [])"

definition node_text :: "BoatHlfabricNodeInfoCfg \<Rightarrow> node_text" where
  "node_text n = (pointer_text (ni_nodeUrl n), pointer_text (ni_hostName n))"

definition group_text :: "BoatHlfabricNodeGroupCfg \<Rightarrow> group_text" where
  "group_text g = (ng_quantities g, map node_text (items (ng_endorserNumber g) (ng_endorser g)), cert_text (ng_tlsOrgCertContent g))"

definition layout_text :: "BoatHlfabricNodeLayoutCfg \<Rightarrow> group_text list" where
  "layout_text l = map group_text (items (nl_endorserGroupNum l) (nl_groupCfg l))"

definition layouts_text :: "BoatHlfabricNodesCfg \<Rightarrow> group_text list list" where
  "layouts_text c = map layout_text (items (nc_endorserLayoutNum c) (nc_layoutCfg c))"

definition fabric_text :: "BoatHlfabricNetworkData \<Rightarrow> bytes list \<times> group_text list list \<times> group_text" where
  "fabric_text d = ([cert_text (hf_accountCertContent d), cert_text (hf_accountClientTlsPrikey d), cert_text (hf_accountClientTlsCert d)],
     layouts_text (hf_nodesCfg d), group_text (nc_orderCfg (hf_nodesCfg d)))"

text \<open>Complete arrays, nodes and certificates.\<close>

definition items_ok :: "u8 \<Rightarrow> ('a \<Rightarrow> bool) \<Rightarrow> 'a list pointer \<Rightarrow> bool" where
  "items_ok n P p \<longleftrightarrow> (\<exists>xs. p = Ptr xs \<and> unat n \<le> length xs \<and> list_all P (take (unat n) xs))"

definition node_ok :: "BoatHlfabricNodeInfoCfg \<Rightarrow> bool" where
  "node_ok n \<longleftrightarrow> is_string (ni_nodeUrl n) \<and> is_string (ni_hostName n)"

definition group_ok :: "BoatHlfabricNodeGroupCfg \<Rightarrow> bool" where
  "group_ok g \<longleftrightarrow> items_ok (ng_endorserNumber g) node_ok (ng_endorser g) \<and> 0 \<in> set (cert_content (ng_tlsOrgCertContent g)) \<and>
     length (cert_text (ng_tlsOrgCertContent g)) < CERT_MAX_LEN"

definition layout_ok :: "BoatHlfabricNodeLayoutCfg \<Rightarrow> bool" where
  "layout_ok l \<longleftrightarrow> items_ok (nl_endorserGroupNum l) group_ok (nl_groupCfg l)"

text \<open>The message of a tree, with \<open>f\<close> making strings of texts, and the tree that reading it builds.\<close>

definition node_msg :: "(bytes \<Rightarrow> ProtobufCString) \<Rightarrow> node_text \<Rightarrow> ProtobufCValue" where
  "node_msg f n = SubMessage (Some (Message [String (f (fst n)), String (f (snd n))] []))"

definition group_msg :: "(bytes \<Rightarrow> ProtobufCString) \<Rightarrow> group_text \<Rightarrow> ProtobufCMessage" where
  "group_msg f g = (case g of (q, ns, c) \<Rightarrow> Message [Word32 (ucast q), Repeated (map (node_msg f) ns), String (f c)] [])"

definition layout_msg :: "(bytes \<Rightarrow> ProtobufCString) \<Rightarrow> group_text list \<Rightarrow> ProtobufCValue" where
  "layout_msg f gs = SubMessage (Some (Message [Repeated (map (\<lambda>g. SubMessage (Some (group_msg f g))) gs)] []))"

definition fabric_msg :: "(bytes \<Rightarrow> ProtobufCString) \<Rightarrow> u8 \<Rightarrow> bytes list \<times> group_text list list \<times> group_text \<Rightarrow> ProtobufCMessage" where
  "fabric_msg f i t = (case t of (ts, ls, ord) \<Rightarrow>
     Message (Word32 (ucast i) # map (\<lambda>s. String (f s)) ts @ [Repeated (map (layout_msg f) ls), SubMessage (Some (group_msg f ord))]) [])"

definition node_of :: "node_text \<Rightarrow> BoatHlfabricNodeInfoCfg" where
  "node_of n = \<lparr>ni_nodeUrl = Ptr (fst n @ [0]), ni_hostName = Ptr (snd n @ [0])\<rparr>"

definition group_of :: "group_text \<Rightarrow> BoatHlfabricNodeGroupCfg" where
  "group_of g = (case g of (q, ns, c) \<Rightarrow>
     \<lparr>ng_endorserNumber = of_nat (length ns), ng_quantities = q, ng_endorser = Ptr (map node_of ns),
      ng_tlsOrgCertContent = \<lparr>cert_length = of_nat (length c), cert_content = c @ [0]\<rparr>\<rparr>)"

definition layout_of :: "group_text list \<Rightarrow> BoatHlfabricNodeLayoutCfg" where
  "layout_of gs = \<lparr>nl_endorserGroupNum = of_nat (length gs), nl_groupCfg = Ptr (map group_of gs)\<rparr>"

text \<open>The blocks that a network's pointers lead to: arrays and, in their elements, further arrays and texts.\<close>

definition text_blocks :: "bytes pointer \<Rightarrow> heap_block list" where
  "text_blocks p = (case p of Ptr b \<Rightarrow> [TextBlock b] | _ \<Rightarrow> [])"

definition array_blocks :: "('a \<Rightarrow> heap_block list) \<Rightarrow> 'a list pointer \<Rightarrow> heap_block list" where
  "array_blocks blocks p = (case p of Ptr xs \<Rightarrow> ArrayBlock (length xs) # concat (map blocks xs) | _ \<Rightarrow> [])"

definition node_blocks :: "BoatHlfabricNodeInfoCfg \<Rightarrow> heap_block list" where
  "node_blocks n = text_blocks (ni_nodeUrl n) @ text_blocks (ni_hostName n)"

definition group_blocks :: "BoatHlfabricNodeGroupCfg \<Rightarrow> heap_block list" where
  "group_blocks g = array_blocks node_blocks (ng_endorser g)"

definition layout_blocks :: "BoatHlfabricNodeLayoutCfg \<Rightarrow> heap_block list" where
  "layout_blocks l = array_blocks group_blocks (nl_groupCfg l)"

definition network_blocks :: "BoatHlfabricNetworkData \<Rightarrow> heap_block list" where
  "network_blocks d = array_blocks layout_blocks (nc_layoutCfg (hf_nodesCfg d)) @ group_blocks (nc_orderCfg (hf_nodesCfg d))"

definition node_wf :: "node_text \<Rightarrow> bool" where
  "node_wf n \<longleftrightarrow> 0 \<notin> set (fst n) \<and> 0 \<notin> set (snd n)"

definition group_wf :: "group_text \<Rightarrow> bool" where
  "group_wf g = (case g of (q, ns, c) \<Rightarrow> length ns < 256 \<and> list_all node_wf ns \<and> 0 \<notin> set c \<and> length c < CERT_MAX_LEN)"

definition layout_wf :: "group_text list \<Rightarrow> bool" where
  "layout_wf gs \<longleftrightarrow> length gs < 256 \<and> list_all group_wf gs"

subsection \<open>Correctness\<close>

text \<open>Concrete trees have well-formed texts and the message of their texts.\<close>

lemma for_each_ok: "n \<le> length xs \<Longrightarrow> (\<And>x. x \<in> set (take n xs) \<Longrightarrow> f x = Inr (g x)) \<Longrightarrow> for_each n f xs = Inr (map g (take n xs))"
  by (induction n f xs rule: for_each.induct) simp_all

lemma in_array_ok:
  assumes "items_ok n P p" "\<And>x. P x \<Longrightarrow> f x = Inr (g x)"
  shows "in_array n f p = Inr (map g (items n p))"
proof -
  obtain xs where xs: "p = Ptr xs" "unat n \<le> length xs" "list_all P (take (unat n) xs)" using assms(1) by (auto simp: items_ok_def)
  then have "for_each (unat n) f xs = Inr (map g (take (unat n) xs))" using assms(2) by (intro for_each_ok) (auto simp: list_all_iff)
  then show ?thesis using xs(1) by (simp add: in_array_def items_def)
qed

lemma items_wf:
  assumes "items_ok n P p" "\<And>x. P x \<Longrightarrow> Q (g x)"
  shows "length (items n p) < 256" "list_all Q (map g (items n p))"
  using assms u8_bound [of n] by (auto simp: items_ok_def items_def list_all_iff)

lemma text_wf:
  "node_ok n \<Longrightarrow> node_wf (node_text n)"
  "group_ok g \<Longrightarrow> group_wf (group_text g)"
  "layout_ok l \<Longrightarrow> layout_wf (layout_text l)"
proof -
  show n: "node_ok n \<Longrightarrow> node_wf (node_text n)" for n by (simp add: node_wf_def node_text_def text_no_zero)
  show g: "group_ok g \<Longrightarrow> group_wf (group_text g)" for g
    using items_wf [of _ node_ok _ node_wf node_text, OF _ n] text_no_zero(1)
    by (simp add: group_ok_def group_wf_def group_text_def cert_text_def)
  show "layout_ok l \<Longrightarrow> layout_wf (layout_text l)"
    using items_wf [of _ group_ok _ group_wf group_text, OF _ g] by (simp add: layout_ok_def layout_wf_def layout_text_def)
qed

lemma to_message:
  assumes mal: "malloc_total mal"
  shows "node_ok n \<Longrightarrow> node_message mal p n = Inr (node_msg Str (node_text n))"
    "group_ok g \<Longrightarrow> group_message mal p g = Inr (SubMessage (Some (group_msg Str (group_text g))))"
    "layout_ok l \<Longrightarrow> layout_message mal p l = Inr (layout_msg Str (layout_text l))"
    "group_ok g \<Longrightarrow> order_message mal p g = Inr (group_msg Str (group_text g))"
proof -
  note m = fits_mal [OF mal]
  show n: "node_ok n \<Longrightarrow> node_message mal p n = Inr (node_msg Str (node_text n))" for p n
    using m [of 40] is_string_ok(2) by (auto simp: node_ok_def node_message_def node_msg_def node_text_def)
  have c: "c_string (cert_content c) = Inr (cert_text c)" if "0 \<in> set (cert_content c)" for c
    using that by (simp add: c_string_def cert_text_def)
  have ns: "in_array (ng_endorserNumber g) (node_message mal p) (ng_endorser g) = Inr (map (node_msg Str) (map node_text (items (ng_endorserNumber g) (ng_endorser g))))"
    if "group_ok g" for g p
    using in_array_ok [of _ node_ok "ng_endorser g" "node_message mal p" "\<lambda>n. node_msg Str (node_text n)"] that n by (simp add: group_ok_def comp_def)
  show g: "group_ok g \<Longrightarrow> group_message mal p g = Inr (SubMessage (Some (group_msg Str (group_text g))))" for p g
    using m [of 56] m [of "unat (ng_endorserNumber g) * 8"] ns c
    by (auto simp: group_message_def group_msg_def group_text_def group_ok_def)
  have gs: "in_array (nl_endorserGroupNum l) (group_message mal p) (nl_groupCfg l) =
      Inr (map (\<lambda>g. SubMessage (Some (group_msg Str g))) (layout_text l))" if "layout_ok l" for l p
    using in_array_ok [of _ group_ok "nl_groupCfg l" "group_message mal p" "\<lambda>g. SubMessage (Some (group_msg Str (group_text g)))"] that g
    by (simp add: layout_ok_def layout_text_def comp_def)
  show "layout_ok l \<Longrightarrow> layout_message mal p l = Inr (layout_msg Str (layout_text l))"
    using m [of 40] m [of "unat (nl_endorserGroupNum l) * 8"] gs by (auto simp: layout_message_def layout_msg_def)
  show "group_ok g \<Longrightarrow> order_message mal p g = Inr (group_msg Str (group_text g))"
    using m [of 56] m [of "unat (ng_endorserNumber g) * 8"] ns c
    by (auto simp: order_message_def group_msg_def group_text_def group_ok_def Let_def)
qed

text \<open>Reading the message of a well-formed tree builds it, whatever the strings look like as long as they say the texts.\<close>

lemma for_build_ok: "(\<And>m. m \<in> set ms \<Longrightarrow> f (h m) = (Inr (), g m)) \<Longrightarrow> for_build f (map h ms) = (Inr (), map g ms)"
  by (induction ms) simp_all

lemma unat_length: "length xs < 256 \<Longrightarrow> unat (of_nat (length xs) :: u8) = length xs"
  unfolding unat_of_nat by simp

lemma from_message:
  assumes mal: "malloc_total mal" and f: "\<And>t. 0 \<notin> set t \<Longrightarrow> str_content (f t) = t"
  shows "node_wf n \<Longrightarrow> node_from mal (node_msg f n) = (Inr (), node_of n)"
    "list_all node_wf ns \<Longrightarrow> for_build (node_from mal) (map (node_msg f) ns) = (Inr (), map node_of ns)"
    "group_wf g \<Longrightarrow> group_from mal (SubMessage (Some (group_msg f g))) = (Inr (), group_of g)"
    "layout_wf gs \<Longrightarrow> layout_from mal (layout_msg f gs) = (Inr (), layout_of gs)"
proof -
  note m = fits_mal [OF mal]
  have b: "checked_block mal s = Inr (Ptr (s @ [0]))" for s
    using m [of "length s + 1"] by (auto simp: checked_block_def buf_put_def)
  show n: "node_wf n \<Longrightarrow> node_from mal (node_msg f n) = (Inr (), node_of n)" for n
    by (simp add: node_from_def node_msg_def node_wf_def b f node_of_def)
  show ns: "list_all node_wf ns \<Longrightarrow> for_build (node_from mal) (map (node_msg f) ns) = (Inr (), map node_of ns)" for ns
    using n by (intro for_build_ok) (simp add: list_all_iff)
  show g: "group_wf g \<Longrightarrow> group_from mal (SubMessage (Some (group_msg f g))) = (Inr (), group_of g)" for g
    using m [of "unat (of_nat (length (fst (snd g))) :: u8) * 16"] ns
    by (cases g) (auto simp: group_wf_def group_from_def group_msg_def group_of_def f byte_word32 unat_length Let_def)
  show "layout_wf gs \<Longrightarrow> layout_from mal (layout_msg f gs) = (Inr (), layout_of gs)"
    using m [of "unat (of_nat (length gs) :: u8) * 1048"] for_build_ok [of gs "group_from mal" "\<lambda>g. SubMessage (Some (group_msg f g))" group_of] g
    by (auto simp: layout_wf_def layout_from_def layout_msg_def layout_of_def unat_length Let_def list_all_iff)
qed

subsection \<open>The descriptors\<close>

text \<open>The tables of the two chains have the same shape.\<close>

definition node_table :: "string \<Rightarrow> ProtobufCMessageDescriptor" where
  "node_table n = MessageDescriptor n
     [FieldDescriptor ''nodeUrl'' 1 PROTOBUF_C_LABEL_NONE PROTOBUF_C_TYPE_STRING None,
      FieldDescriptor ''hostName'' 2 PROTOBUF_C_LABEL_NONE PROTOBUF_C_TYPE_STRING None] [1, 0] [(1, 0), (0, 2)]"

definition group_table :: "string \<Rightarrow> string \<Rightarrow> ProtobufCMessageDescriptor" where
  "group_table n n1 = MessageDescriptor n
     [FieldDescriptor ''quantities'' 1 PROTOBUF_C_LABEL_NONE PROTOBUF_C_TYPE_UINT32 None,
      FieldDescriptor ''endorser'' 2 PROTOBUF_C_LABEL_REPEATED PROTOBUF_C_TYPE_MESSAGE (Some (node_table n1)),
      FieldDescriptor ''tlsOrgCertContent'' 3 PROTOBUF_C_LABEL_NONE PROTOBUF_C_TYPE_STRING None] [1, 0, 2] [(1, 0), (0, 3)]"

definition layout_table :: "string \<Rightarrow> string \<Rightarrow> string \<Rightarrow> ProtobufCMessageDescriptor" where
  "layout_table n n2 n1 = MessageDescriptor n
     [FieldDescriptor ''groupCfg'' 1 PROTOBUF_C_LABEL_REPEATED PROTOBUF_C_TYPE_MESSAGE (Some (group_table n2 n1))] [0] [(1, 0), (0, 1)]"

definition fabric_table :: "string \<Rightarrow> string \<Rightarrow> string \<Rightarrow> string \<Rightarrow> ProtobufCMessageDescriptor" where
  "fabric_table n n3 n2 n1 = MessageDescriptor n
     [FieldDescriptor ''index'' 1 PROTOBUF_C_LABEL_NONE PROTOBUF_C_TYPE_UINT32 None,
      FieldDescriptor ''accountCertContent'' 2 PROTOBUF_C_LABEL_NONE PROTOBUF_C_TYPE_STRING None,
      FieldDescriptor ''accountClientTlsPrikey'' 3 PROTOBUF_C_LABEL_NONE PROTOBUF_C_TYPE_STRING None,
      FieldDescriptor ''accountClientTlsCert'' 4 PROTOBUF_C_LABEL_NONE PROTOBUF_C_TYPE_STRING None,
      FieldDescriptor ''layoutCfg'' 5 PROTOBUF_C_LABEL_REPEATED PROTOBUF_C_TYPE_MESSAGE (Some (layout_table n3 n2 n1)),
      FieldDescriptor ''orderCfg'' 6 PROTOBUF_C_LABEL_NONE PROTOBUF_C_TYPE_MESSAGE (Some (group_table n2 n1))]
     [1, 3, 2, 0, 4, 5] [(1, 0), (0, 6)]"

lemma chain_tables:
  "common__fabric_network_data__descriptor =
     fabric_table ''common.fabricNetworkData'' ''common.fabricNodeLayoutCfg'' ''common.fabricNodeGroupCfg'' ''common.fabricNodeInfo''"
  "common__hwbcs_network_data__descriptor =
     fabric_table ''common.hwbcsNetworkData'' ''common.hwbcsNodeLayoutCfg'' ''common.hwbcsNodeGroupCfg'' ''common.hwbcsNodeInfo''"
  by (simp_all add: common__fabric_network_data__descriptor_def common__hwbcs_network_data__descriptor_def
      common__fabric_node_layout_cfg__descriptor_def common__hwbcs_node_layout_cfg__descriptor_def
      common__fabric_node_group_cfg__descriptor_def common__hwbcs_node_group_cfg__descriptor_def
      common__fabric_node_info__descriptor_def common__hwbcs_node_info__descriptor_def
      fabric_table_def layout_table_def group_table_def node_table_def)

lemma fabric_table_ok: "descriptor_ok (fabric_table n n3 n2 n1)"
proof -
  have 1: "descriptor_ok (node_table n1)" by (simp add: node_table_def table_ok_def upt_rec)
  have 2: "descriptor_ok (group_table n2 n1)" using 1 by (simp add: group_table_def table_ok_def upt_rec)
  have 3: "descriptor_ok (layout_table n3 n2 n1)" using 2 by (simp add: layout_table_def table_ok_def upt_rec)
  show ?thesis using 2 3 by (simp add: fabric_table_def table_ok_def upt_rec)
qed

lemma node_msg_table:
  "message_typed (node_table n1) (Message [String (f a), String (f b)] [])"
  "message_norm (node_table n1) (Message [String a', String b'] []) = Message [String (norm_string a'), String (norm_string b')] []"
  by (simp_all add: node_table_def field_typed_def)

lemma group_msg_table:
  "message_typed (group_table n2 n1) (group_msg f g)" "all_known (group_msg f g)"
  "message_norm (group_table n2 n1) (group_msg Str g) = group_msg (\<lambda>t. norm_string (Str t)) g"
proof -
  obtain q ns c where g: "g = (q, ns, c)" by (cases g)
  show "message_typed (group_table n2 n1) (group_msg f g)"
    by (simp add: g group_msg_def group_table_def field_typed_def node_msg_def node_msg_table list_all_iff)
  show "all_known (group_msg f g)"
    by (simp add: g group_msg_def node_msg_def list_all_iff)
  show "message_norm (group_table n2 n1) (group_msg Str g) = group_msg (\<lambda>t. norm_string (Str t)) g"
    by (simp add: g group_msg_def group_table_def field_norm_def [of _ PROTOBUF_C_LABEL_REPEATED] node_msg_def node_msg_table comp_def)
qed

lemma layout_msg_table:
  "value_typed (message_typed (layout_table n3 n2 n1)) PROTOBUF_C_TYPE_MESSAGE (layout_msg f gs)" "value_known (layout_msg f gs)"
  "value_norm (message_norm (layout_table n3 n2 n1)) (layout_msg Str gs) = layout_msg (\<lambda>t. norm_string (Str t)) gs"
  by (simp_all add: layout_msg_def layout_table_def field_typed_def field_norm_def list_all_iff group_msg_table comp_def)

lemma fabric_msg_table:
  assumes "length (fst t) = 3"
  shows "message_typed (fabric_table n n3 n2 n1) (fabric_msg f i t)" "all_known (fabric_msg f i t)"
    "message_norm (fabric_table n n3 n2 n1) (fabric_msg Str i t) = fabric_msg (\<lambda>t. norm_string (Str t)) i t"
proof -
  obtain a b c ls ord where t: "t = ([a, b, c], ls, ord)"
    using assms by (cases t) (auto simp: length_Suc_conv numeral_3_eq_3)
  have "layout_msg f gs \<noteq> SubMessage None" "layout_msg f gs \<noteq> String NullString" for gs by (simp_all add: layout_msg_def)
  then show "message_typed (fabric_table n n3 n2 n1) (fabric_msg f i t)"
    by (simp add: t fabric_msg_def fabric_table_def field_typed_def list_all_iff layout_msg_table group_msg_table)
  show "all_known (fabric_msg f i t)"
    by (simp add: t fabric_msg_def list_all_iff layout_msg_table group_msg_table)
  show "message_norm (fabric_table n n3 n2 n1) (fabric_msg Str i t) = fabric_msg (\<lambda>t. norm_string (Str t)) i t"
    by (simp add: t fabric_msg_def fabric_table_def field_norm_def [of _ PROTOBUF_C_LABEL_REPEATED]
        field_norm_def [of _ _ PROTOBUF_C_TYPE_MESSAGE] layout_msg_table group_msg_table comp_def)
qed

subsection \<open>Storing and reading\<close>

definition fabric_body :: "ProtobufCMessageDescriptor \<Rightarrow> BoatHlfabricNetworkData \<Rightarrow> bytes" where
  "fabric_body desc d = protobuf_c_message_pack desc (fabric_msg Str (hf_index d) (fabric_text d))"

definition fabric_storable :: "ProtobufCMessageDescriptor \<Rightarrow> BoatHlfabricNetworkData \<Rightarrow> bool" where
  "fabric_storable desc d \<longleftrightarrow> cert_ok CERT_MAX_LEN (hf_accountCertContent d) \<and> cert_ok 512 (hf_accountClientTlsPrikey d) \<and>
     cert_ok CERT_MAX_LEN (hf_accountClientTlsCert d) \<and> items_ok (nc_endorserLayoutNum (hf_nodesCfg d)) layout_ok (nc_layoutCfg (hf_nodesCfg d)) \<and>
     group_ok (nc_orderCfg (hf_nodesCfg d)) \<and> length (fabric_body desc d) < 65536"

definition fabric_ok :: "ProtobufCMessageDescriptor \<Rightarrow> BoatHlfabricNetworkData \<Rightarrow> bool" where
  "fabric_ok desc d \<longleftrightarrow> fabric_storable desc d \<and> cert_text (hf_accountClientTlsPrikey d) \<noteq> [] \<and> cert_text (hf_accountClientTlsCert d) \<noteq> []"

definition fabric_sized :: "BoatHlfabricNetworkData \<Rightarrow> bool" where
  "fabric_sized d \<longleftrightarrow> length (cert_content (hf_accountCertContent d)) = CERT_MAX_LEN \<and> length (cert_content (hf_accountClientTlsPrikey d)) = 512 \<and>
     length (cert_content (hf_accountClientTlsCert d)) = CERT_MAX_LEN \<and>
     length (cert_content (ng_tlsOrgCertContent (nc_orderCfg (hf_nodesCfg d)))) = CERT_MAX_LEN"

definition fabric_nodes_into :: "BoatHlfabricNetworkData \<Rightarrow> BoatHlfabricNetworkData \<Rightarrow> BoatHlfabricNodesCfg" where
  "fabric_nodes_into d old =
     (let ls = layouts_text (hf_nodesCfg d); ord = nc_orderCfg (hf_nodesCfg d) in
      \<lparr>nc_endorserLayoutNum = of_nat (length ls), nc_layoutCfg = Ptr (map layout_of ls),
       nc_orderCfg = (group_of (group_text ord))
         \<lparr>ng_tlsOrgCertContent := read_cert (ng_tlsOrgCertContent ord) (ng_tlsOrgCertContent (nc_orderCfg (hf_nodesCfg old)))\<rparr>\<rparr>)"

definition fabric_read_into :: "BoatHlfabricNetworkData \<Rightarrow> BoatHlfabricNetworkData \<Rightarrow> BoatHlfabricNetworkData" where
  "fabric_read_into d old =
     \<lparr>hf_index = hf_index d, hf_accountCertContent = read_cert (hf_accountCertContent d) (hf_accountCertContent old),
      hf_accountClientTlsPrikey = read_cert (hf_accountClientTlsPrikey d) (hf_accountClientTlsPrikey old),
      hf_accountClientTlsCert = read_cert (hf_accountClientTlsCert d) (hf_accountClientTlsCert old),
      hf_nodesCfg = fabric_nodes_into d old\<rparr>"

lemma fabric_text_length: "length (fst (fabric_text d)) = 3"
  by (simp add: fabric_text_def)

lemma fabric_message_ok:
  assumes "malloc_total mal" "fabric_storable desc d"
  shows "fabric_message mal d = Inr (fabric_msg Str (hf_index d) (fabric_text d))"
proof -
  note t = to_message [OF assms(1)]
  let ?c = "hf_nodesCfg d"
  have ls: "in_array (nc_endorserLayoutNum ?c) (layout_message mal p) (nc_layoutCfg ?c) = Inr (map (layout_msg Str) (layouts_text ?c))" for p
    using in_array_ok [of _ layout_ok _ "layout_message mal p" "\<lambda>l. layout_msg Str (layout_text l)"] t(3) assms(2)
    by (simp add: fabric_storable_def layouts_text_def comp_def)
  have ord: "order_message mal p (nc_orderCfg ?c) = Inr (group_msg Str (group_text (nc_orderCfg ?c)))" for p
    using t(4) assms(2) by (simp add: fabric_storable_def)
  show ?thesis
    using fits_mal [OF assms(1), of "unat (nc_endorserLayoutNum ?c) * 8"] ls ord cert_facts(1) [of 1024] cert_facts(1) [of 512] assms(2)
    by (auto simp: fabric_message_def fabric_storable_def fabric_msg_def fabric_text_def Let_def)
qed

lemma fabric_body_long: "2 \<le> length (fabric_body (fabric_table n n3 n2 n1) d)"
  unfolding fabric_body_def
  by (simp add: fabric_table_def fabric_msg_def fabric_text_def field_pack_with_def [of _ _ _ PROTOBUF_C_TYPE_MESSAGE] length_required
      get_tag_size_def uint32_size_def)

lemma fabric_unpack:
  assumes "fabric_storable (fabric_table n n3 n2 n1) d"
  shows "protobuf_c_message_unpack (fabric_table n n3 n2 n1) (fabric_body (fabric_table n n3 n2 n1) d) =
    Some (fabric_msg (\<lambda>t. norm_string (Str t)) (hf_index d) (fabric_text d))"
proof -
  have "length (fabric_body (fabric_table n n3 n2 n1) d) \<le> MAX_SCANNED_MEMBERS"
    using assms by (simp add: fabric_storable_def MAX_SCANNED_MEMBERS_def)
  then show ?thesis
    unfolding fabric_body_def
    by (subst unpack_pack [OF fabric_table_ok]) (simp_all add: fabric_msg_table fabric_text_length)
qed

text \<open>Up to the TLS certificates of the account, reading goes through.\<close>

lemma copy_cert_ok:
  assumes "length (cert_text c) < length (cert_content (get x))"
  shows "copy_member get put (norm_string (Str (cert_text c))) x = (Inr (), put (read_cert c (get x)) x)"
  using copy_member_ok [of "norm_string (Str (cert_text c))" get x put] assms by (simp only: text_contents read_cert_def)

lemma fabric_prefix:
  assumes d: "fabric_storable desc d" and old: "fabric_sized old" and mal: "malloc_total mal"
  shows "BoATHlfabric_getNetworkFromProto mal (fabric_msg (\<lambda>t. norm_string (Str t)) (hf_index d) (fabric_text d)) old =
    (let old = old\<lparr>hf_index := hf_index d, hf_accountCertContent := read_cert (hf_accountCertContent d) (hf_accountCertContent old),
         hf_nodesCfg := fabric_nodes_into d old\<rparr>;
         key = cert_text (hf_accountClientTlsPrikey d); cert = cert_text (hf_accountClientTlsCert d)
     in bindS (check_length (tls_too_long key 512)) (\<lambda>_.
        bindS (copy_member hf_accountClientTlsPrikey (\<lambda>c d. d\<lparr>hf_accountClientTlsPrikey := c\<rparr>) (norm_string (Str key))) (\<lambda>_.
        bindS (check_length (tls_too_long cert CERT_MAX_LEN)) (\<lambda>_.
          copy_member hf_accountClientTlsCert (\<lambda>c d. d\<lparr>hf_accountClientTlsCert := c\<rparr>) (norm_string (Str cert))))) old)"
proof -
  let ?f = "\<lambda>t. norm_string (Str t)" and ?c = "hf_nodesCfg d"
  let ?ord = "nc_orderCfg ?c"
  have f: "0 \<notin> set t \<Longrightarrow> str_content (?f t) = t" for t unfolding str_content_norm by (rule norm_string_Str)
  note r = from_message [OF mal, where f = ?f, OF f]
  have wf: "length (layouts_text ?c) < 256" "list_all layout_wf (layouts_text ?c)"
    using items_wf [of "nc_endorserLayoutNum ?c" layout_ok "nc_layoutCfg ?c" layout_wf layout_text] text_wf(3) d
    by (simp_all add: fabric_storable_def layouts_text_def)
  have ord: "group_ok ?ord" using d by (simp add: fabric_storable_def)
  have l: "length (cert_text (hf_accountCertContent d)) < 1024" "length (cert_text (ng_tlsOrgCertContent ?ord)) < 1024"
    using cert_facts(2) d ord by (auto simp: fabric_storable_def group_ok_def)
  have ls: "layouts_member mal (map (layout_msg ?f) (layouts_text ?c)) x = (Inr (), x\<lparr>hf_nodesCfg := (hf_nodesCfg x)
      \<lparr>nc_endorserLayoutNum := of_nat (length (layouts_text ?c)), nc_layoutCfg := Ptr (map layout_of (layouts_text ?c))\<rparr>\<rparr>)" for x
    using fits_mal [OF mal, of "unat (of_nat (length (layouts_text ?c)) :: u8) * 16"]
      for_build_ok [of "layouts_text ?c" "layout_from mal" "layout_msg ?f" layout_of] r(4) wf
    by (auto simp: layouts_member_def unat_length Let_def list_all_iff)
  obtain q ns ct where g: "group_text ?ord = (q, ns, ct)" by (cases "group_text ?ord")
  have gw: "length ns < 256" "list_all node_wf ns" "ct = cert_text (ng_tlsOrgCertContent ?ord)"
    using text_wf(2) [OF ord] g by (simp add: group_wf_def, simp add: group_wf_def, simp add: group_text_def)
  obtain blk where blk: "mal (unat (of_nat (length ns) :: u8) * 16) = Some blk"
    using fits_mal [OF mal, of "unat (of_nat (length ns) :: u8) * 16"] by blast
  have om: "order_member mal (Some (group_msg ?f (group_text ?ord))) x = (Inr (), put_order (\<lambda>g. (group_of (group_text ?ord))
      \<lparr>ng_tlsOrgCertContent := read_cert (ng_tlsOrgCertContent ?ord) (ng_tlsOrgCertContent (nc_orderCfg (hf_nodesCfg x)))\<rparr>) x)"
    if "length (cert_content (ng_tlsOrgCertContent (nc_orderCfg (hf_nodesCfg x)))) = 1024" for x
  proof -
    show ?thesis
      using that l(2) blk r(2) [OF _ gw(2)]
      by (simp add: g group_msg_def order_member_def group_of_def Let_def text_contents(1) gw(1,3) unat_length byte_word32 bindS_def updS_def liftS_def check_length_ok
          copy_cert_ok put_order_def del: str_content.simps str_content_norm)
  qed
  show ?thesis
    unfolding BoATHlfabric_getNetworkFromProto_def fabric_msg_def fabric_text_def
    using old l(1)
    by (cases old; cases "hf_nodesCfg old") (simp add: text_contents(1) check_length_ok ls om copy_cert_ok bindS_def updS_def byte_word32 Let_def fabric_sized_def put_order_def fabric_nodes_into_def
        del: str_content.simps str_content_norm)
qed

lemma fabric_from_proto:
  assumes d: "fabric_ok desc d" and old: "fabric_sized old" and mal: "malloc_total mal"
  shows "BoATHlfabric_getNetworkFromProto mal (fabric_msg (\<lambda>t. norm_string (Str t)) (hf_index d) (fabric_text d)) old =
    (Inr (), fabric_read_into d old)"
proof -
  let ?key = "cert_text (hf_accountClientTlsPrikey d)" and ?cert = "cert_text (hf_accountClientTlsCert d)"
  have s: "fabric_storable desc d" using d by (simp add: fabric_ok_def)
  have l: "length ?key < 512" "length ?cert < 1024" "?key \<noteq> []" "?cert \<noteq> []"
    using cert_facts(2) d by (auto simp: fabric_ok_def fabric_storable_def)
  have k: "\<not> tls_too_long ?key 512" "\<not> tls_too_long ?cert 1024" using l by (simp_all add: tls_too_long_iff)
  show ?thesis
    unfolding fabric_prefix [OF s old mal] Let_def
    using l k old by (cases old) (simp add: copy_cert_ok check_length_ok bindS_def fabric_sized_def fabric_read_into_def fabric_nodes_into_def)
qed

lemma fabric_refused:
  assumes d: "fabric_storable desc d" "\<not> fabric_ok desc d" and old: "fabric_sized old" and mal: "malloc_total mal"
  shows "\<exists>x. BoATHlfabric_getNetworkFromProto mal (fabric_msg (\<lambda>t. norm_string (Str t)) (hf_index d) (fabric_text d)) old =
    (Inl (Err BOAT_ERROR_COMMON_OUT_OF_MEMORY), x)"
proof -
  let ?key = "cert_text (hf_accountClientTlsPrikey d)" and ?cert = "cert_text (hf_accountClientTlsCert d)"
  have l: "length ?key < 512" "length ?cert < 1024" using cert_facts(2) d(1) by (auto simp: fabric_storable_def)
  have k: "tls_too_long ?key 512 \<longleftrightarrow> ?key = []" "tls_too_long ?cert 1024 \<longleftrightarrow> ?cert = []" using l by (simp_all add: tls_too_long_iff)
  have e: "?key = [] \<or> ?cert = []" using d by (simp add: fabric_ok_def)
  have b: "check_length bad x = (if bad then Inl (Err BOAT_ERROR_COMMON_OUT_OF_MEMORY) else Inr (), x)" for bad and x :: BoatHlfabricNetworkData
    by (simp add: check_length_def liftS_def)
  show ?thesis
    unfolding fabric_prefix [OF d(1) old mal] Let_def k
    using l e old by (cases old; cases "?key = []") (simp_all add: copy_cert_ok b bindS_def fabric_sized_def)
qed

lemma fabric_like_writer:
  assumes desc: "desc = fabric_table n n3 n2 n1"
  shows "proto_writer (fabric_like protocol desc) (fabric_storable desc) (fabric_body desc)"
proof
  fix mal :: "nat \<Rightarrow> bytes option" and d :: BoatHlfabricNetworkData
  assume d: "fabric_storable desc d"
  show "field_ok (fabric_body desc d) \<and> 2 \<le> length (fabric_body desc d)"
    using d fabric_body_long [of n n3 n2 n1 d] by (auto simp: desc fabric_storable_def field_ok_def)
  assume "malloc_total mal"
  from fabric_message_ok [OF this d]
  show "\<exists>m. pn_to_message (fabric_like protocol desc) mal d = Inr m \<and> protobuf_c_message_pack (pn_descriptor (fabric_like protocol desc)) m = fabric_body desc d \<and>
      no_null_elements (pn_descriptor (fabric_like protocol desc)) m"
    using typed_sound [OF fabric_msg_table(1)] by (simp add: fabric_like_def fabric_body_def desc fabric_text_length)
qed

lemma fabric_like_network:
  assumes desc: "desc = fabric_table n n3 n2 n1"
  shows "proto_network (fabric_like protocol desc) (fabric_ok desc) (fabric_body desc) fabric_sized fabric_read_into"
proof
  note w = fabric_like_writer [OF desc, where protocol = protocol]
  fix mal :: "nat \<Rightarrow> bytes option" and d old :: BoatHlfabricNetworkData
  assume d: "fabric_ok desc d"
  then have s: "fabric_storable desc d" by (simp add: fabric_ok_def)
  show "malloc_total mal \<Longrightarrow> \<exists>m. pn_to_message (fabric_like protocol desc) mal d = Inr m \<and>
      protobuf_c_message_pack (pn_descriptor (fabric_like protocol desc)) m = fabric_body desc d \<and>
      no_null_elements (pn_descriptor (fabric_like protocol desc)) m"
    by (rule proto_writer.to_message [OF w _ s])
  show "field_ok (fabric_body desc d) \<and> 2 \<le> length (fabric_body desc d)" by (rule proto_writer.body_sized [OF w s])
  assume old: "fabric_sized old"
  show "malloc_total mal \<Longrightarrow> \<exists>m. protobuf_c_message_unpack (pn_descriptor (fabric_like protocol desc)) (fabric_body desc d) = Some m \<and>
      pn_from_message (fabric_like protocol desc) mal m old = (Inr (), fabric_read_into d old)"
    using fabric_unpack [OF s [unfolded desc]] fabric_from_proto [OF d old] by (simp add: fabric_like_def desc)
  have r: "length (cert_text c) < n \<Longrightarrow> length (cert_content o') = n \<Longrightarrow> length (cert_content (read_cert c o')) = n" for c o' n
    by (simp add: read_cert_def)
  have "length (cert_text (ng_tlsOrgCertContent (nc_orderCfg (hf_nodesCfg d)))) < 1024" using s by (simp add: fabric_storable_def group_ok_def)
  then show "fabric_sized (fabric_read_into d old)"
    using old r cert_facts(2) s by (simp add: fabric_sized_def fabric_read_into_def fabric_nodes_into_def fabric_storable_def Let_def)
qed

abbreviation fabric_desc :: ProtobufCMessageDescriptor where "fabric_desc \<equiv> common__fabric_network_data__descriptor"
abbreviation hwbcs_desc :: ProtobufCMessageDescriptor where "hwbcs_desc \<equiv> common__hwbcs_network_data__descriptor"

interpretation fabric_writer: proto_writer fabric_network "fabric_storable fabric_desc" "fabric_body fabric_desc"
  unfolding fabric_network_def by (rule fabric_like_writer [OF chain_tables(1)])

interpretation fabric: proto_network fabric_network "fabric_ok fabric_desc" "fabric_body fabric_desc" fabric_sized fabric_read_into
  unfolding fabric_network_def by (rule fabric_like_network [OF chain_tables(1)])

interpretation hwbcs_writer: proto_writer hwbcs_network "fabric_storable hwbcs_desc" "fabric_body hwbcs_desc"
  unfolding hwbcs_network_def by (rule fabric_like_writer [OF chain_tables(2)])

interpretation hwbcs: proto_network hwbcs_network "fabric_ok hwbcs_desc" "fabric_body hwbcs_desc" fabric_sized fabric_read_into
  unfolding hwbcs_network_def by (rule fabric_like_network [OF chain_tables(2)])

lemma fabric_sel [simp]:
  "pn_index fabric_network d = hf_index d" "pn_protocol fabric_network = BOAT_PROTOCOL_HLFABRIC" "pn_descriptor fabric_network = fabric_desc"
  "pn_index hwbcs_network d = hf_index d" "pn_protocol hwbcs_network = BOAT_PROTOCOL_HWBCS" "pn_descriptor hwbcs_network = hwbcs_desc"
  by (simp_all add: fabric_network_def hwbcs_network_def fabric_like_def)

lemma fabric_created_index [simp]: "hf_index (fabric_created cfg i) = i"
  by (simp add: fabric_created_def)

lemma fabric_created_text: "fabric_text (fabric_created cfg i) = fabric_text (fabric_created cfg j)"
  by (simp add: fabric_created_def fabric_text_def)

lemma fabric_body_index:
  assumes "desc = fabric_table n n3 n2 n1"
  shows "length (fabric_body desc (fabric_created cfg i)) \<le> length (fabric_body desc (fabric_created cfg 0)) + 6"
proof -
  have b: "length (field_pack_with (\<lambda>_. []) 1 PROTOBUF_C_LABEL_NONE PROTOBUF_C_TYPE_UINT32 (Word32 x)) \<le> 6" for x
    using field_pack_bounds(1) [of "\<lambda>_. []" 1 x] by (simp add: get_tag_size_def)
  show ?thesis
    unfolding fabric_body_def fabric_created_text [of cfg i 0] assms using b [of "ucast i"] b [of 0]
    by (simp add: fabric_table_def fabric_msg_def split_def)
qed

lemma fabric_created_ok:
  assumes "desc = fabric_table n n3 n2 n1" "fabric_storable desc (fabric_created cfg 0)" "length (fabric_body desc (fabric_created cfg 0)) + 6 < 65536"
  shows "fabric_storable desc (fabric_created cfg i)" "fabric_ok desc (fabric_created cfg i) \<longleftrightarrow> fabric_ok desc (fabric_created cfg 0)"
  using assms(2,3) fabric_body_index [OF assms(1), of cfg i] by (simp_all add: fabric_storable_def fabric_ok_def fabric_created_def)

text \<open>Creation, for a chain of this kind.\<close>

lemma fabric_create_ok:
  assumes N: "N = fabric_like protocol desc" "desc = fabric_table n n3 n2 n1"
    and s: "nvram_ok s" "malloc_total mal" "networks_in rs s" "length rs < 5"
    and cfg: "BoATHlfabric_checkNodefig (hfc_nodesCfg cfg) = Inr ()" "fabric_storable desc (fabric_created cfg 0)"
    and room: "18 + length (concat (map network_enc rs)) + length (fabric_body desc (fabric_created cfg 0)) \<le> 5120"
  shows "\<exists>i s'. fabric_create N mal (Some cfg) BOAT_STORE_TYPE_FLASH s = (Inr i, s') \<and> i = of_nat (the (free_network_index rs)) \<and>
    persistent_index i \<and> i \<notin> rec_index ` set rs \<and> nvram_ok s' \<and> area_frame BOAT_STORE_NETWORK BOAT_STORE_TYPE_FLASH s s' \<and>
    networks_in (rs @ [proto_record N (fabric_body desc) (fabric_created cfg i)]) s'"
proof -
  note w = fabric_like_writer [OF N(2), where protocol = protocol, folded N(1)]
  have ix: "pn_index N d = hf_index d" for d by (simp add: N(1) fabric_like_def)
  have st: "fabric_storable desc (fabric_created cfg i)" for i using fabric_created_ok(1) [OF N(2) cfg(2)] room by simp
  have "4 + length (concat (map network_enc rs)) + proto_capacity (fabric_body desc) (fabric_created cfg i) \<le> 5120" for i
    using room fabric_body_index [OF N(2), of cfg i] length_lv_bounds(2) [of "fabric_body desc (fabric_created cfg i)"] by (simp add: proto_capacity_def)
  then show ?thesis
    using proto_writer.create [OF w s, of "\<lambda>i. Inr (fabric_created cfg i)" "fabric_created cfg"] cfg(1) st
    by (simp add: fabric_create_def bindS_def liftS_def ix)
qed

text \<open>What is read says what was stored.\<close>

lemma items_all: "length xs < 256 \<Longrightarrow> items (of_nat (length xs)) (Ptr (map f xs)) = map f xs"
  by (simp add: items_def unat_length)

lemma of_text:
  "node_wf n \<Longrightarrow> node_text (node_of n) = n"
  "group_wf g \<Longrightarrow> group_text (group_of g) = g"
  "layout_wf gs \<Longrightarrow> layout_text (layout_of gs) = gs"
proof -
  show n: "node_wf n \<Longrightarrow> node_text (node_of n) = n" for n by (simp add: node_wf_def node_text_def node_of_def pointer_text_block)
  have c: "0 \<notin> set t \<Longrightarrow> takeWhile (\<lambda>x. x \<noteq> 0) (t @ [0]) = t" for t :: bytes using pointer_text_block [of t] by (simp add: pointer_text_def)
  show g: "group_wf g \<Longrightarrow> group_text (group_of g) = g" for g
    using n by (cases g) (auto simp: group_wf_def group_text_def group_of_def items_all cert_text_def c list_all_iff intro!: map_idI)
  show "layout_wf gs \<Longrightarrow> layout_text (layout_of gs) = gs"
    using g by (auto simp: layout_wf_def layout_text_def layout_of_def items_all list_all_iff intro!: map_idI)
qed

lemma cert_text_read: "cert_text (read_cert c old) = cert_text c"
proof -
  have "takeWhile (\<lambda>x. x \<noteq> 0) (cert_text c @ 0 # zs) = cert_text c" for zs
    by (simp add: takeWhile_append takeWhile_twice cert_text_def)
  then show ?thesis by (simp add: read_cert_def cert_text_def)
qed

lemma layouts_wf:
  assumes "fabric_storable desc d"
  shows "length (layouts_text (hf_nodesCfg d)) < 256" "list_all layout_wf (layouts_text (hf_nodesCfg d))" "group_wf (group_text (nc_orderCfg (hf_nodesCfg d)))"
  using items_wf [of "nc_endorserLayoutNum (hf_nodesCfg d)" layout_ok "nc_layoutCfg (hf_nodesCfg d)" layout_wf layout_text] text_wf(2,3) assms
  by (simp_all add: fabric_storable_def layouts_text_def)

lemma fabric_text_read:
  assumes "fabric_storable desc d"
  shows "fabric_text (fabric_read_into d old) = fabric_text d"
proof -
  note w = layouts_wf [OF assms]
  have 1: "layouts_text (fabric_nodes_into d old) = layouts_text (hf_nodesCfg d)"
    using w(1,2) of_text(3) by (auto simp: fabric_nodes_into_def layouts_text_def [of "\<lparr>nc_endorserLayoutNum = _, nc_layoutCfg = _, nc_orderCfg = _\<rparr>"]
        Let_def items_all list_all_iff intro!: map_idI)
  let ?ord = "nc_orderCfg (hf_nodesCfg d)"
  have 2: "group_text (group_of (group_text ?ord)) = group_text ?ord" by (rule of_text(2) [OF w(3)])
  have 3: "group_text ((group_of (group_text ?ord))\<lparr>ng_tlsOrgCertContent := read_cert (ng_tlsOrgCertContent ?ord) c\<rparr>) = group_text ?ord" for c
    using 2 by (simp add: group_text_def cert_text_read)
  show ?thesis
    using 1 3 by (simp add: fabric_text_def fabric_read_into_def cert_text_read) (simp add: fabric_nodes_into_def Let_def)
qed

subsection \<open>Freeing what was read\<close>

text \<open>\<open>f\<close> frees an object with all its blocks, each once.\<close>

definition frees :: "('a \<Rightarrow> ('a \<times> heap_block list) res) \<Rightarrow> ('a \<Rightarrow> heap_block list) \<Rightarrow> 'a \<Rightarrow> bool" where
  "frees f blocks x \<longleftrightarrow> (\<exists>y bs. f x = Inr (y, bs) \<and> mset bs = mset (blocks x))"

lemma for_each_frees:
  "list_all (frees f blocks) xs \<Longrightarrow>
    \<exists>ys. for_each (length xs) f xs = Inr ys \<and> mset (concat (map snd ys)) = mset (concat (map blocks xs))"
  by (induction xs) (auto simp: frees_def)

lemma free_array_all:
  assumes "length xs < 256" "xs \<noteq> []" "list_all (frees f blocks) xs"
  shows "\<exists>bs. free_array (of_nat (length xs)) f (Ptr xs) = Inr (Dangling, bs) \<and> mset bs = mset (array_blocks blocks (Ptr xs))"
proof -
  have n: "(of_nat (length xs) :: u8) \<noteq> 0" "unat (of_nat (length xs) :: u8) = length xs"
    using assms(1,2) by (simp_all add: unat_length word_unat_eq_iff)
  show ?thesis
    using for_each_frees [OF assms(3)] n by (auto simp: free_array_def in_array_def array_blocks_def)
qed

text \<open>A tree without empty arrays.\<close>

definition group_full :: "group_text \<Rightarrow> bool" where
  "group_full g \<longleftrightarrow> group_wf g \<and> fst (snd g) \<noteq> []"

definition layout_full :: "group_text list \<Rightarrow> bool" where
  "layout_full gs \<longleftrightarrow> layout_wf gs \<and> gs \<noteq> [] \<and> list_all group_full gs"

lemma frees_node: "frees free_node node_blocks (node_of n)"
  by (simp add: frees_def free_node_def node_blocks_def text_blocks_def node_of_def)

lemma free_nodes:
  assumes "group_full (q, ns, c)"
  shows "\<exists>bs. free_array (of_nat (length ns)) free_node (Ptr (map node_of ns)) = Inr (Dangling, bs) \<and>
    mset bs = mset (array_blocks node_blocks (Ptr (map node_of ns)))"
  using free_array_all [of "map node_of ns" free_node node_blocks] assms frees_node
  by (simp add: group_full_def group_wf_def list_all_iff)

lemma frees_group: "group_full g \<Longrightarrow> frees free_group group_blocks (group_of g)"
  using free_nodes by (cases g) (fastforce simp: frees_def free_group_def group_of_def group_blocks_def)

lemma frees_layout:
  assumes "layout_full gs"
  shows "frees free_layout layout_blocks (layout_of gs)"
  using free_array_all [of "map group_of gs" free_group group_blocks] assms frees_group
  by (fastforce simp: layout_full_def layout_wf_def list_all_iff frees_def free_layout_def layout_of_def layout_blocks_def)

lemma free_read:
  assumes "length ls < 256" "ls \<noteq> []" "list_all layout_full ls" "group_full ord"
    and "layouts_text (hf_nodesCfg d) = ls" "group_text (nc_orderCfg (hf_nodesCfg d)) = ord"
  shows "\<exists>d' bs. BoATHlfabric_FreeNetworkData (fabric_read_into d old) = Inr (d', bs) \<and>
    mset bs = mset (network_blocks (fabric_read_into d old)) \<and> BoATHlfabric_FreeNetworkData d' = Inl UB"
proof -
  obtain q ns c where g: "ord = (q, ns, c)" by (cases ord)
  obtain bs where 1: "free_array (of_nat (length ls)) free_layout (Ptr (map layout_of ls)) = Inr (Dangling, bs)"
      "mset bs = mset (array_blocks layout_blocks (Ptr (map layout_of ls)))"
    using free_array_all [of "map layout_of ls" free_layout layout_blocks] assms(1-3) frees_layout by (auto simp: list_all_iff)
  obtain cs where 2: "free_array (of_nat (length ns)) free_node (Ptr (map node_of ns)) = Inr (Dangling, cs)"
      "mset cs = mset (array_blocks node_blocks (Ptr (map node_of ns)))"
    using free_nodes assms(4) unfolding g by blast
  have 3: "free_array (of_nat (length ls)) free_layout Dangling = Inl UB"
    using assms(1,2) by (simp add: free_array_def in_array_def word_unat_eq_iff unat_length)
  show ?thesis
    using 1 2 3
    by (simp add: BoATHlfabric_FreeNetworkData_def fabric_read_into_def fabric_nodes_into_def Let_def assms(5,6) g group_of_def
        network_blocks_def group_blocks_def)
qed

text \<open>What passes the check of the configuration has no empty arrays.\<close>

lemma for_each_all: "for_each n f xs = Inr ys \<Longrightarrow> x \<in> set (take n xs) \<Longrightarrow> \<exists>y. f x = Inr y"
  by (induction n f xs arbitrary: ys rule: for_each.induct) (auto simp: bindR_def split: sum.splits)

lemma checked_items:
  assumes "n \<noteq> 0" "in_array n f p = Inr ys"
  shows "items n p \<noteq> []" "x \<in> set (items n p) \<Longrightarrow> \<exists>y. f x = Inr y"
proof -
  obtain xs where p: "p = Ptr xs" "for_each (unat n) f xs = Inr ys" using assms by (auto simp: in_array_def split: pointer.splits)
  have "unat n \<noteq> 0" using assms(1) by (simp add: word_unat_eq_iff)
  then show "items n p \<noteq> []" using p by (cases "unat n"; cases xs) (auto simp: items_def)
  show "x \<in> set (items n p) \<Longrightarrow> \<exists>y. f x = Inr y" using for_each_all [OF p(2)] p(1) by (simp add: items_def)
qed

lemma checked_group: "check_group g = Inr y \<Longrightarrow> items (ng_endorserNumber g) (ng_endorser g) \<noteq> []"
  using checked_items(1) [of "ng_endorserNumber g" check_node "ng_endorser g"]
  by (auto simp: check_group_def guardR_def bindR_def split: if_splits sum.splits)

lemma checked_layout:
  assumes "check_layout l = Inr y"
  shows "items (nl_endorserGroupNum l) (nl_groupCfg l) \<noteq> []"
    "g \<in> set (items (nl_endorserGroupNum l) (nl_groupCfg l)) \<Longrightarrow> items (ng_endorserNumber g) (ng_endorser g) \<noteq> []"
proof -
  obtain ys where a: "nl_endorserGroupNum l \<noteq> 0" "in_array (nl_endorserGroupNum l) check_group (nl_groupCfg l) = Inr ys"
    using assms by (auto simp: check_layout_def guardR_def bindR_def split: if_splits sum.splits)
  show "items (nl_endorserGroupNum l) (nl_groupCfg l) \<noteq> []" by (rule checked_items(1) [OF a])
  show "g \<in> set (items (nl_endorserGroupNum l) (nl_groupCfg l)) \<Longrightarrow> items (ng_endorserNumber g) (ng_endorser g) \<noteq> []"
    using checked_items(2) [OF a] checked_group by blast
qed

lemma checked_full:
  assumes d: "fabric_storable desc d" and c: "BoATHlfabric_checkNodefig (hf_nodesCfg d) = Inr ()"
  shows "layouts_text (hf_nodesCfg d) \<noteq> []" "list_all layout_full (layouts_text (hf_nodesCfg d))"
    "group_full (group_text (nc_orderCfg (hf_nodesCfg d)))"
proof -
  note w = layouts_wf [OF d]
  let ?c = "hf_nodesCfg d"
  let ?ord = "nc_orderCfg ?c"
  obtain ys zs where a: "nc_endorserLayoutNum ?c \<noteq> 0" "in_array (nc_endorserLayoutNum ?c) check_layout (nc_layoutCfg ?c) = Inr ys"
    and b: "ng_endorserNumber ?ord \<noteq> 0" "in_array (ng_endorserNumber ?ord) check_node (ng_endorser ?ord) = Inr zs"
    using c by (auto simp: BoATHlfabric_checkNodefig_def guardR_def bindR_def Let_def split: if_splits sum.splits)
  show "layouts_text ?c \<noteq> []" using checked_items(1) [OF a] by (simp add: layouts_text_def)
  show "group_full (group_text ?ord)" using checked_items(1) [OF b] w(3) by (simp add: group_full_def group_text_def)
  have "layout_full (layout_text l)" if m: "l \<in> set (items (nc_endorserLayoutNum ?c) (nc_layoutCfg ?c))" "layout_wf (layout_text l)" for l
  proof -
    obtain y where "check_layout l = Inr y" using checked_items(2) [OF a m(1)] by blast
    note k = checked_layout [OF this]
    show ?thesis
      using k m(2) by (auto simp: layout_full_def layout_wf_def layout_text_def list_all_iff group_full_def group_text_def)
  qed
  then show "list_all layout_full (layouts_text ?c)" using w(2) by (simp add: layouts_text_def list_all_iff)
qed

subsection \<open>Properties\<close>

definition fabric_chain :: "BoatHlfabricNetworkData ProtoNetwork \<Rightarrow> ProtobufCMessageDescriptor \<Rightarrow> bool" where
  "fabric_chain N desc \<longleftrightarrow> (N, desc) \<in> {(fabric_network, fabric_desc), (hwbcs_network, hwbcs_desc)}"

lemma fabric_chain_like:
  assumes "fabric_chain N desc"
  obtains protocol n n3 n2 n1 where "N = fabric_like protocol desc" "desc = fabric_table n n3 n2 n1"
  using assms chain_tables unfolding fabric_chain_def fabric_network_def hwbcs_network_def by blast

text \<open>
  C9: Creating a Fabric or HW-BCS network whose nodes pass the check gives it the least index that no network of any chain has, and reading that index
  gives back the whole tree: the account's certificates and key, every layout, group, quantity, node URL and host name, and the orderers.
\<close>

theorem fabric_create_network:
  assumes "fabric_chain N desc" "nvram_ok s" "malloc_total mal" "networks_in rs s" "length rs < 5"
    "BoATHlfabric_checkNodefig (hfc_nodesCfg cfg) = Inr ()" "fabric_ok desc (fabric_created cfg 0)"
    "18 + length (concat (map network_enc rs)) + length (fabric_body desc (fabric_created cfg 0)) \<le> 5120" "fabric_sized old"
  shows "\<exists>i d s'. fabric_create N mal (Some cfg) BOAT_STORE_TYPE_FLASH s = (Inr i, s') \<and>
    i = of_nat (the (free_network_index rs)) \<and> i \<notin> rec_index ` set rs \<and>
    proto_GetNetworkByIndex N mal i s' (Some old) = (Inr (), Some d) \<and> hf_index d = i \<and> fabric_text d = fabric_text (fabric_created cfg i) \<and>
    (\<forall>e. proto_record N (fabric_body desc) e \<in> set rs \<longrightarrow> fabric_ok desc e \<longrightarrow>
       proto_GetNetworkByIndex N mal (hf_index e) s' (Some old) = (Inr (), Some (fabric_read_into e old)))"
proof -
  obtain protocol n n3 n2 n1 where N: "N = fabric_like protocol desc" "desc = fabric_table n n3 n2 n1"
    using fabric_chain_like [OF assms(1)] by blast
  note net = fabric_like_network [OF N(2), where protocol = protocol, folded N(1)]
  have st: "fabric_storable desc (fabric_created cfg 0)" using assms(7) by (simp add: fabric_ok_def)
  obtain i s' where c: "fabric_create N mal (Some cfg) BOAT_STORE_TYPE_FLASH s = (Inr i, s')" "i = of_nat (the (free_network_index rs))"
      "i \<notin> rec_index ` set rs" "nvram_ok s'" "networks_in (rs @ [proto_record N (fabric_body desc) (fabric_created cfg i)]) s'"
    using fabric_create_ok [OF N assms(2-6) st assms(8)] by blast
  have "length (fabric_body desc (fabric_created cfg 0)) + 6 < 65536" using assms(8) by simp
  note ok = fabric_created_ok [OF N(2) st this, of i]
  have n: "fabric_ok desc (fabric_created cfg i)" using ok(2) assms(7) by simp
  have ix: "pn_index N d = hf_index d" for d by (simp add: N(1) fabric_like_def)
  have f: "proto_GetNetworkByIndex N mal (hf_index e) s' (Some old) = (Inr (), Some (fabric_read_into e old))"
    if "proto_record N (fabric_body desc) e \<in> set (rs @ [proto_record N (fabric_body desc) (fabric_created cfg i)])" "fabric_ok desc e" for e
    using proto_network.found [OF net c(4,5) that assms(3,9)] by (simp add: ix)
  have "hf_index (fabric_read_into (fabric_created cfg i) old) = i" by (simp add: fabric_read_into_def)
  then show ?thesis
    using c(1-3) f f [OF _ n] fabric_text_read [OF ok(1), of old]
    by (intro exI [of _ i] exI [of _ "fabric_read_into (fabric_created cfg i) old"] exI [of _ s']) simp
qed

definition fabric_sample :: BoatHlfabricNetworkConfig where
  "fabric_sample =
     (let c = (\<lambda>n t. \<lparr>cert_length = of_nat (length t), cert_content = t @ replicate (n - length t) 0\<rparr>);
          node = (\<lambda>x. \<lparr>ni_nodeUrl = Ptr [x, 0], ni_hostName = Ptr [x, x, 0]\<rparr>);
          group = (\<lambda>ns. \<lparr>ng_endorserNumber = of_nat (length ns), ng_quantities = 1, ng_endorser = Ptr (map node ns), ng_tlsOrgCertContent = c 1024 [67]\<rparr>)
      in \<lparr>hfc_accountCertContent = c 1024 [65], hfc_accountClientTlsPrikey = c 512 [66], hfc_accountClientTlsCert = c 1024 [68],
          hfc_nodesCfg = \<lparr>nc_endorserLayoutNum = 1, nc_layoutCfg = Ptr [\<lparr>nl_endorserGroupNum = 2, nl_groupCfg = Ptr [group [97, 98], group [99]]\<rparr>],
            nc_orderCfg = group [100]\<rparr>\<rparr>)"

definition fabric_blank :: BoatHlfabricNetworkData where
  "fabric_blank = (let c = (\<lambda>n. \<lparr>cert_length = 0, cert_content = replicate n 0\<rparr>) in
     \<lparr>hf_index = 0, hf_accountCertContent = c 1024, hf_accountClientTlsPrikey = c 512, hf_accountClientTlsCert = c 1024,
      hf_nodesCfg = \<lparr>nc_endorserLayoutNum = 0, nc_layoutCfg = NullPtr,
        nc_orderCfg = \<lparr>ng_endorserNumber = 0, ng_quantities = 0, ng_endorser = NullPtr, ng_tlsOrgCertContent = c 1024\<rparr>\<rparr>\<rparr>)"

lemma fabric_sample_text:
  "fabric_text (fabric_created fabric_sample i) =
     ([[65], [66], [68]], [[(1, [([97], [97, 97]), ([98], [98, 98])], [67]), (1, [([99], [99, 99])], [67])]], (1, [([100], [100, 100])], [67]))"
  by (simp add: fabric_text_def fabric_created_def fabric_sample_def Let_def cert_text_def layouts_text_def layout_text_def group_text_def
      node_text_def items_def pointer_text_def)

lemma fabric_sample_length: "length (fabric_body fabric_desc (fabric_created fabric_sample 0)) \<le> 1000"
  unfolding fabric_body_def fabric_sample_text by code_simp

lemma for_each_numeral:
  "for_each (numeral k) f (x # xs) = bindR (f x) (\<lambda>y. bindR (for_each (pred_numeral k) f xs) (\<lambda>ys. Inr (y # ys)))"
  by (simp add: numeral_eq_Suc)

lemma fabric_sample_ok:
  "BoATHlfabric_checkNodefig (hfc_nodesCfg fabric_sample) = Inr ()" "fabric_ok fabric_desc (fabric_created fabric_sample 0)" "fabric_sized fabric_blank"
proof -
  show "BoATHlfabric_checkNodefig (hfc_nodesCfg fabric_sample) = Inr ()"
    by (simp add: BoATHlfabric_checkNodefig_def fabric_sample_def Let_def in_array_def check_layout_def check_group_def check_node_def for_each_numeral)
  show "fabric_ok fabric_desc (fabric_created fabric_sample 0)"
    using fabric_sample_length
    by (simp add: fabric_ok_def fabric_storable_def fabric_created_def fabric_sample_def Let_def cert_ok_def items_ok_def layout_ok_def group_ok_def
        node_ok_def is_string_def cert_text_def)
  show "fabric_sized fabric_blank" by (simp add: fabric_sized_def fabric_blank_def Let_def)
qed

theorem fabric_create_network_witness:
  "\<exists>i d s'. BoatHlfabricNetworkCreate heap_all (Some fabric_sample) BOAT_STORE_TYPE_FLASH blank_device_large = (Inr i, s') \<and> i = 1 \<and>
    BoATHlfabric_GetNetworkByIndex heap_all i s' (Some fabric_blank) = (Inr (), Some d) \<and>
    fabric_text d = ([[65], [66], [68]], [[(1, [([97], [97, 97]), ([98], [98, 98])], [67]), (1, [([99], [99, 99])], [67])]], (1, [([100], [100, 100])], [67]))"
proof -
  have c: "fabric_chain fabric_network fabric_desc" by (simp add: fabric_chain_def)
  have "(of_nat (the (free_network_index [])) :: u8) = 1" by (simp add: free_network_index_def upt_conv_Cons)
  moreover have "18 + length (concat (map network_enc [])) + length (fabric_body fabric_desc (fabric_created fabric_sample 0)) \<le> 5120"
    using fabric_sample_length by simp
  ultimately show ?thesis
    using fabric_create_network [OF c blank_device_ok(2) heap_all_total blank_networks(3) _ fabric_sample_ok(1,2) _ fabric_sample_ok(3)]
    unfolding fabric_sample_text BoatHlfabricNetworkCreate_def BoATHlfabric_GetNetworkByIndex_def by auto
qed

text \<open>
  C24: A Fabric network that was read can be freed: the blocks released are those its pointers lead to, arrays and texts, each exactly once,
  whatever the tree of its nodes. The object is passed by value, so its pointers are not reset: freeing it a second time frees a block twice.
\<close>

theorem fabric_network_freed_once:
  assumes "fabric_storable fabric_desc d" "BoATHlfabric_checkNodefig (hf_nodesCfg d) = Inr ()"
  shows "\<exists>d' bs. BoATHlfabric_FreeNetworkData (fabric_read_into d old) = Inr (d', bs) \<and>
    mset bs = mset (network_blocks (fabric_read_into d old)) \<and> BoATHlfabric_FreeNetworkData d' = Inl UB"
  using free_read layouts_wf [OF assms(1)] checked_full [OF assms] by blast

theorem fabric_network_freed_once_witness:
  "\<exists>d' bs. BoATHlfabric_FreeNetworkData (fabric_read_into (fabric_created fabric_sample 0) fabric_blank) = Inr (d', bs) \<and> length bs = 13"
proof -
  have "fabric_storable fabric_desc (fabric_created fabric_sample 0)" "BoATHlfabric_checkNodefig (hf_nodesCfg (fabric_created fabric_sample 0)) = Inr ()"
    using fabric_sample_ok(1,2) by (simp_all add: fabric_ok_def fabric_created_def)
  then obtain d' bs where "BoATHlfabric_FreeNetworkData (fabric_read_into (fabric_created fabric_sample 0) fabric_blank) = Inr (d', bs)"
      "mset bs = mset (network_blocks (fabric_read_into (fabric_created fabric_sample 0) fabric_blank))"
    using fabric_network_freed_once by blast
  moreover have "length (network_blocks (fabric_read_into (fabric_created fabric_sample 0) fabric_blank)) = 13"
    using fabric_sample_text [of 0]
    by (simp add: fabric_text_def network_blocks_def fabric_read_into_def fabric_nodes_into_def Let_def array_blocks_def layout_blocks_def
        layout_of_def group_blocks_def group_of_def node_blocks_def node_of_def text_blocks_def)
  ultimately show ?thesis by (metis mset_eq_length)
qed

text \<open>
  C40: Without memory for the message's layouts, storing a Fabric or HW-BCS network does not report an error: the error path frees a message whose
  arrays are not there yet and goes through null pointers.
\<close>

theorem fabric_no_memory_crash:
  assumes "fabric_chain N desc" "0 \<in> set (cert_content (hf_accountCertContent d))" "mal (unat (nc_endorserLayoutNum (hf_nodesCfg d)) * 8) = None"
  shows "proto_Get_Network_Data N mal d = Inl UB"
proof -
  obtain protocol n n3 n2 n1 where N: "N = fabric_like protocol desc" "desc = fabric_table n n3 n2 n1"
    using fabric_chain_like [OF assms(1)] by blast
  have "fabric_message mal d = Inl UB"
    using assms(2,3) by (auto simp: fabric_message_def c_string_def fabric_throw_def BoAT_Free_FabricNetworkData_def freeable_def Let_def)
  then show ?thesis by (simp add: proto_Get_Network_Data_def N(1) fabric_like_def)
qed

theorem fabric_no_memory_crash_witness:
  "BoATHlfabric_Get_Network_Data (\<lambda>n. None) (fabric_created fabric_sample 0) = Inl UB"
proof -
  have "0 \<in> set (cert_content (hf_accountCertContent (fabric_created fabric_sample 0)))"
    by (simp add: fabric_created_def fabric_sample_def Let_def)
  then show ?thesis
    using fabric_no_memory_crash [of fabric_network fabric_desc "fabric_created fabric_sample 0" "\<lambda>n. None"]
    by (simp add: fabric_chain_def BoATHlfabric_Get_Network_Data_def)
qed

end
