(* ===== verification/Spec2Isabelle.thy ===== *)
theory Spec2Isabelle
  imports Boat_Rlp Boat_PlatonApi Boat_CitaNetwork Boat_ChainmakerNetwork Boat_FabricNetwork
begin

text \<open>
  BoAT-X framework: the C client library with which small devices sign and send blockchain transactions. This
  development models its core, translated from the C sources, and proves what makes each part correct.

  The program. An application creates keypairs (\<open>sdk/keypair/boatkeypair.c\<close>), whose public part and name are
  appended to the keypair area and whose private key goes to the keystore (\<open>vendor/keystore/soft/boat_keystore.c\<close>),
  encrypted, in an area of its own. Both areas, and one for networks, lie in one file or, for one-time keys, in RAM buffers
  (\<open>vendor/common/storage/persiststore.c\<close> on the file access of
  \<open>vendor/platform/linux-default/src/port_crypto_default/boatplatform_internal.c\<close>). Networks (node address, chain id) are
  kept the same way by \<open>sdk/network/*/network_*.c\<close>. A transaction is filled in a wallet context, serialised by
  the RLP encoder (\<open>sdk/rlp/boatrlp.c\<close>), hashed and signed through the platform port
  (\<open>vendor/platform/linux-default/src/port_crypto_default/boatplatform.c\<close>), serialised again with its
  signature by the protocol's sender (\<open>sdk/protocol/boat*/boat*.c\<close>) and posted to the node by the JSON-RPC client
  (\<open>sdk/protocol/common/web3intf/web3intf.c\<close>), which also reads the answer. The application drives this through the
  wallet calls (\<open>sdk/wallet/api_*.c\<close>): it opens a wallet on a stored keypair and network, fills a transaction with its own
  values or with what the node answers, sends it and waits for its receipt. All parts use the helpers of
  \<open>sdk/utilities/boatutility.c\<close>.

  Theories.
  \<^item> \<open>Boat_Prelude\<close>: machine words, error codes, the result type and its sequencing, bounded memory copies.
  \<^item> \<open>Boat_Utility\<close>: hexadecimal and decimal text, byte order, trimming, 256-bit numbers.
  \<^item> \<open>Boat_Tlv\<close>: length fields, the insertion of lengths and tags, the checked counter, ASN.1 signatures.
  \<^item> \<open>Boat_Rlp\<close>: the RLP encoder against the RLP specification and a decoder.
  \<^item> \<open>Boat_Storage\<close>: file, RAM buffers and areas; the interface \<open>storage_area\<close>, with its laws, that the stores rest on.
  \<^item> \<open>Boat_Records\<close>: the record walks of the stores, proved once inside that interface.
  \<^item> \<open>Boat_Keystore\<close>: private keys: storing, finding, deleting.
  \<^item> \<open>Boat_Keypair\<close>: keypairs: parsing, building, storing, listing, free indices, and the key creation of the platform.
  \<^item> \<open>Boat_Wallet\<close>: keypairs and private keys together: creation, deletion, reachable devices.
  \<^item> \<open>Boat_Network\<close>: the network store, one program for all chains with the chain's record format as its argument,
    proved on the Ethereum chain. \<open>Boat_NetworkFamily\<close>: the copies of that program for the other chains.
  \<^item> \<open>Boat_Device\<close>: the keypair, key and network stores side by side on one device, as a step relation.
  \<^item> \<open>Boat_Json\<close>: the grammar of JSON documents, against which the requests are read back.
  \<^item> \<open>Boat_Web3\<close>: the JSON-RPC client: the growing buffers, the requests, the reading of answers.
  \<^item> \<open>Boat_SendTx\<close>: hash and signature of the platform; the sender of raw transactions, one program for Ethereum,
    Venachain, PlatON, PlatONE and FISCO BCOS with the chain's fields and its use of the signature as arguments.
  \<^item> \<open>Boat_Broadcast\<close>: the interface \<open>tx_program\<close> that a chain's sender meets, interpreted for four chains, and what
    reaches the node and comes back when a transaction is sent.
  \<^item> \<open>Boat_TxApi\<close>: the program of the wallet and transaction calls (\<open>sdk/wallet/api_ethereum.c\<close>), with what the chains
    vary as a record \<open>TxApi\<close>, and its exchanges with the node. \<open>Boat_Application\<close>: the calls of Ethereum, Venachain and
    PlatONE (\<open>api_venachain.c\<close>, \<open>api_platone.c\<close>), and what an application gets from a series of them.
  \<^item> \<open>Boat_Bech32\<close>: the Bech32 addresses of PlatON (\<open>sdk/protocol/boatplaton/boatplatonbech32.c\<close>) against BIP-173: the
    regrouping of bits, the checksum as a linear map. \<open>Boat_PlatonApi\<close>: the wallet and transaction calls of PlatON (\<open>api_platon.c\<close>).
  \<^item> \<open>Boat_Varint\<close>, \<open>Boat_Protobuf\<close>: the part of \<open>sdk/third-party/protobuf-c/src/protobuf-c.c\<close> that sizes, packs and unpacks messages, driven
    by descriptor tables as in the code, against varints and typed messages.
  \<^item> \<open>Boat_ProtoNetwork\<close>: the network store of the chains whose networks are protobuf messages, one program with the chain's message as
    argument, and the interface \<open>proto_network\<close> it needs. \<open>Boat_CitaNetwork\<close>, \<open>Boat_ChainmakerNetwork\<close>, \<open>Boat_FabricNetwork\<close> (with HW-BCS): the
    chains, their generated tables (\<open>sdk/network/*/*_network.pb-c.c\<close>) and their interpretations of it.

  How the model reads. A function that returns \<open>BOAT_RESULT\<close> and an answer is a function into \<open>'a res\<close>: the answer, an
  error code, or \<open>UB\<close> where the code leaves what C defines (outside an object, a null pointer). A function that
  changes the storage or fills a context returns it next to the result, also on error returns. Integers
  are words of their C width and wrap. Buffers are byte lists; \<open>BoatMalloc\<close> is the parameter \<open>mal\<close>, from the size
  to a block or \<open>None\<close>, and the theorems that need memory assume \<open>malloc_total mal\<close>. Loops
  recurse on the number of iterations that are left, or have a measure, so every function is total and no fuel is
  needed: the two growing loops of the JSON-RPC client (\<open>format_loop\<close>, \<open>expand_loop\<close>) end because each round adds
  a step to a buffer that a request of less than 2 GB bounds, and the wait for a receipt (\<open>receipt_loop\<close>) because each round takes its
  interval off the seconds that are left. Logging is left out.

  Parameters. \<open>Rpc\<close> is the transport below \<open>RpcRequestSync\<close>: from a request and the state of the world to
  an answer or a failure, and the new state. \<open>json\<close> is cJSON's parser, from the text to the tree it
  describes; documents made by the model are read by the grammar of \<open>Boat_Json\<close> instead. The hash, the ECDSA
  signature, AES, random numbers, the pause between two polls and the allocator are functions with documented properties as named hypotheses,
  each of which a witness meets with a concrete function. What an uninitialised local variable holds is an argument \<open>junk\<close>.

  What is shown. The RLP encoder computes the specified encoding, decodes, and stays in bounds whatever the
  allocator does. Storing and reading, in an area, is a round trip and disturbs no other area.
  The walks over the records find what was appended and remove exactly what was deleted. Creating a
  keypair uses the lowest free index and adds one entry to each store; deleting it removes both; on every device
  that creations and deletions lead to while memory does not run out, the two stores hold the same indices. The networks are kept, listed, deleted
  and left alone in the same way. A request of the client is a JSON document with the intended
  method, parameters and id, written in bounds. What the sender posts decodes to the fields of the
  transaction and a signature, valid for the hash of exactly the unsigned fields, by the key the wallet names; the
  stored hash is the node's answer, and every failure is reported and frees what was allocated. An opened wallet has the stored
  keypair and network and the address of the key; what the application gives as HEX text is what the node gets; a transfer takes its nonce
  from the node; a receipt that the node has at one of the first ten polls ends the wait, and every wait ends. A Bech32 address
  is the one of the standard, decodes, and betrays every substituted character behind its prefix, up to the case of letters. Packing a message
  fills exactly the announced size; unpacking gives the message back, and gives nothing but messages of the descriptor whatever bytes
  arrive; the size of a message with a null element in an array is undefined. The networks of CITA, ChainMaker, Hyperledger Fabric and HW-BCS are
  stored and read back, down to the nodes of their trees, and a tree that was read is freed block by block, each once. The helpers
  compute the values and texts they promise. Where the code deviates from what it means to do the deviation is a
  theorem, or is recorded with the development's findings.

  Bounds. Names of up to 62 characters are storable: five keypairs then fit in the 717 bytes of the area. A stored private key
  of 32 bytes has a ciphertext of 96 bytes. Transactions carry less than \<open>2 ^ 28\<close> bytes of data, so that no length of
  the request, two digits for a byte, leaves 32 bits; a packed message is shorter than \<open>MAX_SCANNED_MEMBERS\<close>, the number of members that
  the slabs of the scan hold, and the networks fit in the 5120 bytes of their area; the RAM buffer of the networks has 1024 bytes or, in
  the builds with Hyperledger Fabric, HW-BCS or ChainMaker, 5120, and \<open>nvram_ok\<close> covers both; the chain id of a replay-protected Ethereum transaction is below
  \<open>2 ^ 31 - 145\<close>, so that \<open>v\<close> does not wrap.

  Not modelled. The wallet calls of Quorum, FISCO BCOS and CITA and the sender of Quorum; PlatONE's query of the node list; \<open>UtilityWeiStrToEthDouble\<close> (floating point); \<open>UtilityPKCS2Native\<close> and \<open>UtilityNative2PKCS\<close>, a
  parameter of the key creation; cryptography, random numbers and the C library's file functions below the
  file model, which are parameters with documented properties; the transports (\<open>vendor/common/rpc\<close>, libcurl), cJSON,
  the other third-party, test and demonstration code; of protobuf-c the labels and types that the framework's tables do not have, packing to
  growing buffers, services and lookups by name; the transactions of CITA, ChainMaker, Hyperledger Fabric and HW-BCS; the ports to
  other platforms, which repeat the Linux port.
\<close>

end
